(* ===== verification/Prelude.thy ===== *)
theory Prelude
  imports Main "HOL-Library.Word"
begin

text \<open>
  Shared vocabulary of the development: the machine integer types of the Rust sources, the
  byte-addressed physical memory every component works on, Rust's saturating and checked
  arithmetic, half-open index ranges, little-endian loads and stores, and the generic lemmas
  about words, bits and memory that the component theories use. The kernel is built with
  \<^verbatim>\<open>-C overflow-checks=no\<close>, so \<open>+\<close>, \<open>-\<close> and \<open>*\<close> of the sources are the wrapping
  operations of \<^typ>\<open>'a word\<close>.
\<close>

unbundle bit_operations_syntax

section \<open>Types\<close>

type_synonym u8 = "8 word"
type_synonym u16 = "16 word"
type_synonym u32 = "32 word"
type_synonym u64 = "64 word"
type_synonym usize = "64 word"
type_synonym i32 = "32 word"
type_synonym i64 = "64 word"

text \<open>Physical memory: one byte per address. The kernel runs identity mapped.\<close>

type_synonym memory = "u64 \<Rightarrow> u8"

text \<open>\<^verbatim>\<open>Result<'a, 'e>\<close> of Rust: \<open>Err\<close> on the left, \<open>Ok\<close> on the right.\<close>

type_synonym ('e, 'a) result = "'e + 'a"

abbreviation Ok :: "'a \<Rightarrow> ('e, 'a) result" where "Ok \<equiv> Inr"
abbreviation Err :: "'e \<Rightarrow> ('e, 'a) result" where "Err \<equiv> Inl"

text \<open>The part of the machine state every component shares; components extend the record.\<close>

record machine =
  mem :: memory

named_theorems mem_simps \<open>loads and stores through memory updates\<close>
named_theorems page_simps \<open>page base and page offset arithmetic\<close>

section \<open>Rust arithmetic\<close>

definition saturating_sub :: "'a::len word \<Rightarrow> 'a word \<Rightarrow> 'a word" where
  "saturating_sub a b = (if a < b then 0 else a - b)"

definition saturating_add :: "'a::len word \<Rightarrow> 'a word \<Rightarrow> 'a word" where
  "saturating_add a b = (if a + b < a then - 1 else a + b)"

definition checked_add :: "'a::len word \<Rightarrow> 'a word \<Rightarrow> 'a word option" where
  "checked_add a b = (if a + b < a then None else Some (a + b))"

definition checked_sub :: "'a::len word \<Rightarrow> 'a word \<Rightarrow> 'a word option" where
  "checked_sub a b = (if a < b then None else Some (a - b))"

text \<open>The index range \<^verbatim>\<open>a..b\<close> of a \<^verbatim>\<open>for\<close> loop.\<close>

definition range_w :: "'a::len word \<Rightarrow> 'a word \<Rightarrow> 'a word list" where
  "range_w a b = map word_of_nat [unat a..<unat b]"

section \<open>Loads and stores\<close>

primrec read_le :: "memory \<Rightarrow> u64 \<Rightarrow> nat \<Rightarrow> 'a::len word" where
  "read_le m a 0 = 0"
| "read_le m a (Suc n) = ucast (m a) OR push_bit 8 (read_le m (a + 1) n)"

primrec write_le :: "memory \<Rightarrow> u64 \<Rightarrow> 'a::len word \<Rightarrow> nat \<Rightarrow> memory" where
  "write_le m a v 0 = m"
| "write_le m a v (Suc n) = write_le (m(a := ucast v)) (a + 1) (drop_bit 8 v) n"

definition read_u16 :: "memory \<Rightarrow> u64 \<Rightarrow> u16" where "read_u16 m a = read_le m a 2"
definition read_u32 :: "memory \<Rightarrow> u64 \<Rightarrow> u32" where "read_u32 m a = read_le m a 4"
definition read_u64 :: "memory \<Rightarrow> u64 \<Rightarrow> u64" where "read_u64 m a = read_le m a 8"
definition write_u16 :: "memory \<Rightarrow> u64 \<Rightarrow> u16 \<Rightarrow> memory" where "write_u16 m a v = write_le m a v 2"
definition write_u32 :: "memory \<Rightarrow> u64 \<Rightarrow> u32 \<Rightarrow> memory" where "write_u32 m a v = write_le m a v 4"
definition write_u64 :: "memory \<Rightarrow> u64 \<Rightarrow> u64 \<Rightarrow> memory" where "write_u64 m a v = write_le m a v 8"

text \<open>\<open>x\<close> lies in the \<open>n\<close> bytes that start at \<open>a\<close> (the byte range may wrap).\<close>

definition in_bytes :: "u64 \<Rightarrow> nat \<Rightarrow> u64 \<Rightarrow> bool" where
  "in_bytes a n x \<longleftrightarrow> unat (x - a) < n"

text \<open>\<^verbatim>\<open>ptr::write_bytes(a, v, n)\<close> on bytes and \<^verbatim>\<open>ptr::copy_nonoverlapping(src, dst, n)\<close>.\<close>

definition write_bytes :: "memory \<Rightarrow> u64 \<Rightarrow> u8 \<Rightarrow> nat \<Rightarrow> memory" where
  "write_bytes m a v n = (\<lambda>x. if in_bytes a n x then v else m x)"

definition copy_bytes :: "memory \<Rightarrow> u64 \<Rightarrow> u64 \<Rightarrow> nat \<Rightarrow> memory" where
  "copy_bytes m src dst n = (\<lambda>x. if in_bytes dst n x then m (src + (x - dst)) else m x)"

text \<open>The 4 KiB page an address lies in (\<^verbatim>\<open>addr & !0xFFF\<close>).\<close>

definition page_base :: "u64 \<Rightarrow> u64" where
  "page_base x = x AND NOT 0xFFF"

section \<open>Generic lemmas\<close>

subsection \<open>Bits\<close>

text \<open>The simplifier turns \<^term>\<open>push_bit n 1\<close> into \<^term>\<open>2 ^ n\<close>; the rules are stated so.\<close>

lemma and_exp_eq_0 [simp]: "((w :: 'a::len word) AND 2 ^ n = 0) \<longleftrightarrow> \<not> bit w n"
  by (simp add: and_exp_eq_0_iff_not_bit)

lemma bit_set_bit_u8: "n < 8 \<Longrightarrow> bit (w OR 2 ^ n :: u8) k \<longleftrightarrow> k = n \<or> bit w k"
  by (auto simp: bit_simps)

lemma bit_clear_bit_u8: "n < 8 \<Longrightarrow> bit (w AND NOT (2 ^ n) :: u8) k \<longleftrightarrow> k \<noteq> n \<and> bit w k"
  by (auto simp: bit_simps dest: bit_imp_le_length)

subsection \<open>Ranges\<close>

lemma unat_bound: "unat (w :: 'a::len word) < 2 ^ LENGTH('a)"
  by (fact unsigned_less)

lemma unat_add_1: "a < b \<Longrightarrow> unat (a + 1) = Suc (unat a)"
proof -
  assume "a < b"
  then have "Suc (unat a) < 2 ^ LENGTH('a)"
    using unat_bound [of b] unfolding word_less_nat_alt by linarith
  then show ?thesis by (simp add: unat_plus_if')
qed

lemma diff_unat_less: "c < b \<Longrightarrow> unat b - unat (c + 1) < unat b - unat c"
  by (simp add: unat_add_1 [of c b] word_less_nat_alt)

lemma unat_of_nat_less: "k < unat (b :: 'a::len word) \<Longrightarrow> unat (word_of_nat k :: 'a word) = k"
proof -
  assume "k < unat b"
  then have "k < 2 ^ LENGTH('a)" using unat_bound [of b] by linarith
  then show ?thesis by (simp add: unat_of_nat)
qed

lemma set_range_w: "set (range_w a b) = {x. a \<le> x \<and> x < b}"
proof -
  have "x \<in> word_of_nat ` {unat a..<unat b}" if "a \<le> x" "x < b" for x
    by (rule image_eqI [where x = "unat x"]) (use that in \<open>auto simp: word_le_nat_alt word_less_nat_alt\<close>)
  moreover have "a \<le> word_of_nat k \<and> word_of_nat k < b" if "unat a \<le> k" "k < unat b" for k
    using that by (simp add: unat_of_nat_less word_le_nat_alt word_less_nat_alt)
  ultimately show ?thesis by (auto simp: range_w_def)
qed

lemma distinct_range_w: "distinct (range_w a b)"
proof -
  have "inj_on (word_of_nat :: nat \<Rightarrow> 'a word) {unat a..<unat b}"
  proof (rule inj_onI)
    fix i j assume i: "i \<in> {unat a..<unat b}" and j: "j \<in> {unat a..<unat b}"
      and eq: "(word_of_nat i :: 'a word) = word_of_nat j"
    from arg_cong [OF eq, of unat] i j show "i = j"
      by (metis atLeastLessThan_iff unat_of_nat_less)
  qed
  then show ?thesis by (simp add: range_w_def distinct_map)
qed

lemma range_w_Cons: "a < b \<Longrightarrow> range_w a b = a # range_w (a + 1) b"
proof -
  assume ab: "a < b"
  then show ?thesis
    by (simp add: range_w_def word_less_nat_alt upt_conv_Cons unat_add_1)
qed

lemma range_w_Nil: "\<not> a < b \<Longrightarrow> range_w a b = []"
  by (simp add: range_w_def word_less_nat_alt)

subsection \<open>Loads after stores\<close>

lemma in_bytes_iff: "n \<le> 2 ^ 64 \<Longrightarrow> in_bytes a n x \<longleftrightarrow> (\<exists>i<n. x = a + word_of_nat i)"
proof
  assume n: "n \<le> 2 ^ 64" and "in_bytes a n x"
  then have "unat (x - a) < n" and "x = a + word_of_nat (unat (x - a))"
    by (simp_all add: in_bytes_def)
  then show "\<exists>i<n. x = a + word_of_nat i" by blast
next
  assume n: "n \<le> 2 ^ 64" and "\<exists>i<n. x = a + word_of_nat i"
  then show "in_bytes a n x"
    by (auto simp: in_bytes_def unat_of_nat take_bit_nat_eq_self)
qed

lemma write_le_outside: "\<forall>i<n. x \<noteq> a + word_of_nat i \<Longrightarrow> write_le m a v n x = m x"
proof (induction n arbitrary: m a v)
  case (Suc n)
  have 1: "x \<noteq> a" using Suc.prems [rule_format, of 0] by simp
  have "\<forall>i<n. x \<noteq> a + 1 + word_of_nat i"
    using Suc.prems by (metis Suc_less_eq add.assoc of_nat_Suc)
  with 1 show ?case by (simp add: Suc.IH)
qed simp

lemma write_le_inside:
  "i < n \<Longrightarrow> n \<le> 2 ^ 64 \<Longrightarrow> write_le m a v n (a + word_of_nat i) = ucast (drop_bit (8 * i) v)"
proof (induction n arbitrary: m a v i)
  case (Suc n)
  show ?case
  proof (cases i)
    case 0
    have "\<forall>j<n. a \<noteq> a + 1 + word_of_nat j"
    proof (intro allI impI notI)
      fix j assume j: "j < n" and "a = a + 1 + word_of_nat j"
      then have "(word_of_nat (Suc j) :: u64) = 0" by (simp add: add.assoc)
      then have "unat (word_of_nat (Suc j) :: u64) = 0" by simp
      with j Suc.prems show False by (simp add: unat_of_nat take_bit_nat_eq_self del: of_nat_Suc)
    qed
    with 0 show ?thesis by (simp add: write_le_outside)
  next
    case (Suc j)
    have "write_le (m(a := ucast v)) (a + 1) (drop_bit 8 v) n (a + 1 + word_of_nat j)
        = ucast (drop_bit (8 * j) (drop_bit 8 v))"
      using Suc Suc.prems by (intro Suc.IH) auto
    with Suc show ?thesis by (simp add: add.assoc algebra_simps)
  qed
qed simp

lemma bit_read_le:
  "bit (read_le m a n :: 'a::len word) k \<longleftrightarrow>
     k < 8 * n \<and> k < LENGTH('a) \<and> bit (m (a + word_of_nat (k div 8))) (k mod 8)"
proof (induction n arbitrary: a k)
  case (Suc n)
  show ?case
  proof (cases "k < 8")
    case True
    then show ?thesis by (auto simp: bit_simps Suc dest: bit_imp_le_length)
  next
    case False
    then have "k div 8 = Suc ((k - 8) div 8)" "(k - 8) mod 8 = k mod 8"
      by (simp_all add: le_div_geq le_mod_geq)
    with False show ?thesis
      by (auto simp: bit_simps Suc add.assoc dest: bit_imp_le_length)
  qed
qed simp

lemma read_le_cong:
  "(\<And>i. i < n \<Longrightarrow> m (a + word_of_nat i) = m' (a + word_of_nat i)) \<Longrightarrow> read_le m a n = read_le m' a n"
  by (rule bit_eqI) (auto simp: bit_read_le less_mult_imp_div_less)

lemma read_write_le:
  assumes "8 * n = LENGTH('a::len)" "n \<le> 2 ^ 64"
  shows "read_le (write_le m a (v :: 'a word) n) a n = v"
proof (rule bit_eqI)
  fix k assume "possible_bit TYPE('a word) k"
  then have k: "k < LENGTH('a)" by simp
  with assms have kn: "k div 8 < n" by auto
  have "8 * (k div 8) + k mod 8 = k" by simp
  with k kn assms show "bit (read_le (write_le m a v n) a n :: 'a word) k = bit v k"
    by (simp add: bit_read_le write_le_inside bit_simps)
qed

lemma read_write_le_disjoint:
  assumes "\<And>i j. i < n \<Longrightarrow> j < k \<Longrightarrow> b + word_of_nat j \<noteq> a + word_of_nat i"
  shows "read_le (write_le m a v n) b k = read_le m b k"
  using assms by (intro read_le_cong) (simp add: write_le_outside)

subsection \<open>Aligned machine words in memory\<close>

lemma read_write_u16 [mem_simps, simp]: "read_u16 (write_u16 m a v) a = v"
  by (simp add: read_u16_def write_u16_def read_write_le)

lemma read_write_u32 [mem_simps, simp]: "read_u32 (write_u32 m a v) a = v"
  by (simp add: read_u32_def write_u32_def read_write_le)

lemma read_write_u64 [mem_simps, simp]: "read_u64 (write_u64 m a v) a = v"
  by (simp add: read_u64_def write_u64_def read_write_le)

lemma write_le_in_bytes:
  "n \<le> 2 ^ 64 \<Longrightarrow> \<not> in_bytes a n x \<Longrightarrow> write_le m a v n x = m x"
  by (rule write_le_outside) (auto simp: in_bytes_iff)

lemma write_u16_outside: "\<not> in_bytes a 2 x \<Longrightarrow> write_u16 m a v x = m x"
  by (simp add: write_u16_def write_le_in_bytes)

lemma write_u32_outside: "\<not> in_bytes a 4 x \<Longrightarrow> write_u32 m a v x = m x"
  by (simp add: write_u32_def write_le_in_bytes)

lemma write_u64_outside: "\<not> in_bytes a 8 x \<Longrightarrow> write_u64 m a v x = m x"
  by (simp add: write_u64_def write_le_in_bytes)

lemma read_u64_cong: "(\<And>x. in_bytes a 8 x \<Longrightarrow> m x = m' x) \<Longrightarrow> read_u64 m a = read_u64 m' a"
  unfolding read_u64_def by (rule read_le_cong) (auto simp: in_bytes_iff)

lemma read_u32_cong: "(\<And>x. in_bytes a 4 x \<Longrightarrow> m x = m' x) \<Longrightarrow> read_u32 m a = read_u32 m' a"
  unfolding read_u32_def by (rule read_le_cong) (auto simp: in_bytes_iff)

lemma read_u16_cong: "(\<And>x. in_bytes a 2 x \<Longrightarrow> m x = m' x) \<Longrightarrow> read_u16 m a = read_u16 m' a"
  unfolding read_u16_def by (rule read_le_cong) (auto simp: in_bytes_iff)

lemma read_le_zero: "(\<And>i. i < n \<Longrightarrow> m (a + word_of_nat i) = 0) \<Longrightarrow> read_le m a n = 0"
  by (rule bit_eqI) (simp add: bit_read_le less_mult_imp_div_less)

lemma read_u64_zero: "(\<And>x. in_bytes a 8 x \<Longrightarrow> m x = 0) \<Longrightarrow> read_u64 m a = 0"
  unfolding read_u64_def by (rule read_le_zero) (auto simp: in_bytes_iff)

lemma in_bytes_sub: "in_bytes a n x \<Longrightarrow> n \<le> k \<Longrightarrow> in_bytes a k x"
  by (simp add: in_bytes_def)

lemma in_bytes_self [simp]: "0 < n \<Longrightarrow> in_bytes a n a"
  by (simp add: in_bytes_def)

subsection \<open>Pages\<close>

lemma page_base_idem [page_simps]: "page_base (page_base x) = page_base x"
  by (simp add: page_base_def)

lemma page_mask: "(0xFFF :: u64) = mask 12"
  by (simp add: mask_eq_exp_minus_1)

lemma bit_page_base: "bit (page_base x) n \<longleftrightarrow> 12 \<le> n \<and> bit x n"
  unfolding page_base_def page_mask by (auto simp: bit_simps dest: bit_imp_le_length)

lemma bit_page_offset: "bit (x AND 0xFFF :: u64) n \<longleftrightarrow> n < 12 \<and> bit x n"
  unfolding page_mask by (auto simp: bit_simps dest: bit_imp_le_length)

lemma bit_small_u64: "unat (d :: u64) < 2 ^ k \<Longrightarrow> bit d n \<Longrightarrow> n < k"
proof (rule ccontr)
  assume "unat d < 2 ^ k" and b: "bit d n" and "\<not> n < k"
  then have "unat d < 2 ^ n"
    by (metis less_le_trans not_less one_le_numeral power_increasing)
  then have "\<not> bit (unat d) n"
    by (metis bit_take_bit_iff less_irrefl take_bit_nat_eq_self)
  with b show False by (simp add: bit_unsigned_iff)
qed

lemma page_base_add:
  assumes "page_base a = a" "unat d < 4096"
  shows "page_base (a + d) = a" and "a + d = a OR d"
proof -
  have a: "12 \<le> n" if "bit a n" for n
    using assms(1) bit_page_base [of a n] that by simp
  have d: "\<not> 12 \<le> n" if "bit d n" for n
    using bit_small_u64 [of d 12 n] assms(2) that by simp
  have "a AND d = 0"
    by (rule bit_eqI) (use a d in \<open>auto simp: bit_and_iff\<close>)
  then show or: "a + d = a OR d"
    by (metis add_0 word_plus_and_or)
  show "page_base (a + d) = a"
    unfolding or
    by (rule bit_eqI) (use a d in \<open>auto simp: bit_page_base bit_or_iff not_le [symmetric]\<close>)
qed

lemma page_offset_less: "unat (x AND 0xFFF :: u64) < 4096"
proof -
  have "x AND 0xFFF \<le> (0xFFF :: u64)" by (rule word_and_le1)
  then have "unat (x AND 0xFFF) \<le> unat (0xFFF :: u64)" by (simp add: word_le_nat_alt)
  then show ?thesis by simp
qed

lemma page_base_plus_offset: "page_base x + (x AND 0xFFF) = x"
proof -
  have "page_base x + (x AND 0xFFF) = page_base x OR (x AND 0xFFF)"
    by (rule page_base_add(2)) (simp_all add: page_base_idem page_offset_less)
  also have "\<dots> = x"
    by (rule bit_eqI) (auto simp: bit_page_base bit_page_offset bit_or_iff)
  finally show ?thesis .
qed

lemma in_page_iff: "page_base a = a \<Longrightarrow> in_bytes a 4096 x \<longleftrightarrow> page_base x = a"
proof
  assume a: "page_base a = a" and "in_bytes a 4096 x"
  then show "page_base x = a" using page_base_add(1) [OF a, of "x - a"] by (simp add: in_bytes_def)
next
  assume "page_base x = a"
  then have "x - a = x AND 0xFFF" using page_base_plus_offset [of x] by (metis add_diff_cancel_left')
  then show "in_bytes a 4096 x" by (simp add: in_bytes_def page_offset_less)
qed

lemma page_base_iff_dvd: "page_base a = a \<longleftrightarrow> a mod 4096 = 0"
proof -
  have "(4096 :: u64) = 2 ^ 12" by simp
  then have "a mod 4096 = take_bit 12 a" by (simp only: take_bit_eq_mod)
  moreover have "page_base a = a \<longleftrightarrow> (\<forall>n<12. \<not> bit a n)"
    unfolding bit_eq_iff bit_page_base by (meson bit_imp_le_length linorder_not_le possible_bit_word)
  moreover have "take_bit 12 a = 0 \<longleftrightarrow> (\<forall>n<12. \<not> bit a n)"
    by (auto simp: bit_eq_iff bit_simps dest: bit_imp_le_length)
  ultimately show ?thesis by simp
qed

lemma same_bit_iff: "unat ((g :: u64) mod 8) = unat (f mod 8) \<longleftrightarrow> g = f" if "g div 8 = f div 8"
  using that by (metis div_mult_mod_eq word_unat_eq_iff)

lemma unat_mod_8_less: "unat ((f :: u64) mod 8) < 8"
  by (simp add: unat_mod)

lemma in_bytes_nowrap:
  assumes "unat (a :: u64) + n \<le> 2 ^ 64"
  shows "in_bytes a n x \<longleftrightarrow> unat a \<le> unat x \<and> unat x < unat a + n"
proof
  assume "in_bytes a n x"
  then have d: "unat (x - a) < n" by (simp add: in_bytes_def)
  have "unat (a + (x - a)) = unat a + unat (x - a)"
    using d assms by (subst unat_add_lem [THEN iffD1]) auto
  with d show "unat a \<le> unat x \<and> unat x < unat a + n" by simp
next
  assume x: "unat a \<le> unat x \<and> unat x < unat a + n"
  then have "unat (x - a) = unat x - unat a" by (simp add: unat_sub word_le_nat_alt)
  with x show "in_bytes a n x" by (simp add: in_bytes_def) linarith
qed

lemma unat_ucast_up: "unat (ucast (w :: 'a::len word) :: u64) = unat w" if "LENGTH('a) \<le> 64"
proof -
  have "(2 :: nat) ^ LENGTH('a) \<le> 2 ^ 64" using that by (rule power_increasing) simp
  with unat_bound [of w] have "unat w < 2 ^ 64" by (rule less_le_trans)
  then show ?thesis by (simp add: unsigned_ucast_eq take_bit_nat_eq_self)
qed

lemma set_range_w_0: "x \<in> set (range_w 0 n) \<longleftrightarrow> x < n"
  by (simp add: set_range_w)

lemma length_range_w_0: "length (range_w 0 n) = unat n"
  by (simp add: range_w_def)

end
