(* ===== verification/Slab.thy ===== *)
theory Slab
  imports Object_Pool
begin

text \<open>
  Slab pages of \<^verbatim>\<open>memory/slab.rs\<close>: size classes, and pages whose free objects carry a linked list of
  object indices in their first two bytes. The list is modelled where the code keeps it, in
  memory; the invariant says that following the links from \<^verbatim>\<open>free_head\<close> visits each free object once.
  A page is shown to implement the object pool contract.
\<close>

unbundle bit_operations_syntax

section \<open>Size classes\<close>

definition SLAB_PAGE_SIZE :: usize where "SLAB_PAGE_SIZE = 4096"
definition SLAB_CLASS_COUNT :: usize where "SLAB_CLASS_COUNT = 8"

definition SLAB_CLASS_SIZES :: "usize list" where
  "SLAB_CLASS_SIZES = [16, 32, 64, 128, 256, 512, 1024, 2048]"

definition FREE_LIST_END :: u16 where "FREE_LIST_END = 0xFFFF"

record SlabPage =
  active :: bool
  class_index :: u8
  free_head :: u16
  in_use :: u16
  capacity :: u16

definition SlabPage_empty :: SlabPage where
  "SlabPage_empty = \<lparr>active = False, class_index = 0, free_head = FREE_LIST_END, in_use = 0, capacity = 0\<rparr>"

definition has_free_objects :: "SlabPage \<Rightarrow> bool" where
  "has_free_objects slab \<longleftrightarrow> active slab \<and> free_head slab \<noteq> FREE_LIST_END"

definition slab_is_empty :: "SlabPage \<Rightarrow> bool" where
  "slab_is_empty slab \<longleftrightarrow> active slab \<and> in_use slab = 0"

fun first_class :: "usize \<Rightarrow> usize \<Rightarrow> usize list \<Rightarrow> usize option" where
  "first_class required index [] = None"
| "first_class required index (class_size # rest) =
     (if required \<le> class_size then Some index else first_class required (index + 1) rest)"

definition class_index_for :: "usize \<Rightarrow> usize \<Rightarrow> usize option" where
  "class_index_for bytes align =
     (let required = max (max bytes align) 2 in first_class required 0 SLAB_CLASS_SIZES)"

definition class_size :: "usize \<Rightarrow> usize" where
  "class_size index =
     (if index \<ge> SLAB_CLASS_COUNT then 0 else SLAB_CLASS_SIZES ! unat index)"

section \<open>Slab pages\<close>

text \<open>
  \<^verbatim>\<open>init_slab_page\<close> divides by the object size: the model returns \<open>None\<close> for the panic of a class
  index out of range.
\<close>

definition init_slab_page :: "u64 \<Rightarrow> usize \<Rightarrow> memory \<Rightarrow> SlabPage \<Rightarrow> (SlabPage \<times> memory) option" where
  "init_slab_page page_ptr index m slab =
     (let obj_size = class_size index
      in if obj_size = 0 then None
         else
           let cap = ucast (SLAB_PAGE_SIZE div obj_size) :: u16;
               slab = slab\<lparr>active := True, class_index := ucast index, in_use := 0, capacity := cap,
                 free_head := (if cap > 0 then 0 else FREE_LIST_END)\<rparr>
           in if cap = 0 then Some (slab, m)
              else Some (slab,
                fold (\<lambda>i m. let nxt = (if i + 1 < cap then i + 1 else FREE_LIST_END)
                            in write_u16 m (page_ptr + ucast i * obj_size) nxt)
                  (range_w 0 cap) m))"

definition alloc_from_slab :: "u64 \<Rightarrow> memory \<Rightarrow> SlabPage \<Rightarrow> u64 \<times> SlabPage" where
  "alloc_from_slab page_ptr m slab =
     (if \<not> has_free_objects slab then (0, slab)
      else
        let obj_size = class_size (ucast (class_index slab))
        in if obj_size = 0 then (0, slab)
           else
             let index = free_head slab;
                 obj_ptr = page_ptr + ucast index * obj_size;
                 nxt = read_u16 m obj_ptr
             in (obj_ptr, slab\<lparr>free_head := nxt, in_use := saturating_add (in_use slab) 1\<rparr>))"

definition free_to_slab :: "u64 \<Rightarrow> memory \<Rightarrow> SlabPage \<Rightarrow> u64 \<Rightarrow> bool \<times> SlabPage \<times> memory" where
  "free_to_slab page_ptr m slab p =
     (if p = 0 then (True, slab, m)
      else if \<not> active slab then (False, slab, m)
      else
        let obj_size = class_size (ucast (class_index slab))
        in if obj_size = 0 then (False, slab, m)
           else
             let page_start = page_ptr; page_end = page_start + SLAB_PAGE_SIZE
             in if p < page_start \<or> p \<ge> page_end then (False, slab, m)
                else
                  let offset = p - page_start
                  in if offset mod obj_size \<noteq> 0 then (False, slab, m)
                     else
                       let obj_index = ucast (offset div obj_size) :: u16
                       in if obj_index \<ge> capacity slab then (False, slab, m)
                          else (True,
                            slab\<lparr>free_head := obj_index, in_use := saturating_sub (in_use slab) 1\<rparr>,
                            write_u16 m (page_ptr + offset) (free_head slab)))"

section \<open>Size classes are powers of two\<close>

lemma class_sizes_nth: "k < 8 \<Longrightarrow> SLAB_CLASS_SIZES ! k = 2 ^ (k + 4)"
  by (auto simp: SLAB_CLASS_SIZES_def less_Suc_eq numeral_eq_Suc)

lemma class_size_eq: "unat index < 8 \<Longrightarrow> class_size index = 2 ^ (unat index + 4)"
  by (simp add: class_size_def SLAB_CLASS_COUNT_def word_le_nat_alt class_sizes_nth)

lemma unat_class_size: "unat index < 8 \<Longrightarrow> unat (class_size index) = 2 ^ (unat index + 4)"
proof -
  assume "unat index < 8"
  then have "unat index + 4 < 64" by simp
  then have "(2 :: nat) ^ (unat index + 4) < 2 ^ 64" by (rule power_strict_increasing) simp
  moreover have "class_size index = word_of_nat (2 ^ (unat index + 4))"
    using \<open>unat index < 8\<close> by (simp add: class_size_eq)
  ultimately show ?thesis by (simp only: unat_of_nat) simp
qed

lemma first_class_Some:
  "first_class r i xs = Some c \<Longrightarrow>
     \<exists>k<length xs. c = i + word_of_nat k \<and> r \<le> xs ! k \<and> (\<forall>j<k. xs ! j < r)"
proof (induction xs arbitrary: i)
  case (Cons x xs)
  show ?case
  proof (cases "r \<le> x")
    case False
    with Cons.prems have "first_class r (i + 1) xs = Some c" by simp
    then obtain k where k: "k < length xs" "c = i + 1 + word_of_nat k" "r \<le> xs ! k" "\<forall>j<k. xs ! j < r"
      using Cons.IH by blast
    with False show ?thesis
      by (intro exI [of _ "Suc k"]) (auto simp: nth_Cons less_Suc_eq_0_disj split: nat.splits)
  qed (use Cons.prems in auto)
qed simp

lemma first_class_None: "first_class r i xs = None \<Longrightarrow> \<forall>x\<in>set xs. x < r"
  by (induction xs arbitrary: i) (auto split: if_splits)

lemma class_index_for_Some:
  assumes "class_index_for bytes align = Some c"
  shows "unat c < 8" "max (max bytes align) 2 \<le> class_size c"
    "c' < c \<Longrightarrow> class_size c' < max (max bytes align) 2"
proof -
  have "length SLAB_CLASS_SIZES = 8" by (simp add: SLAB_CLASS_SIZES_def)
  then obtain k where k: "k < 8" "c = word_of_nat k" "max (max bytes align) 2 \<le> SLAB_CLASS_SIZES ! k"
    "\<forall>j<k. SLAB_CLASS_SIZES ! j < max (max bytes align) 2"
    using first_class_Some [OF assms [unfolded class_index_for_def Let_def]] by (metis add_0)
  have u: "unat c = k" using k(1,2) by (simp add: unat_of_nat)
  have cs: "class_size c' = SLAB_CLASS_SIZES ! unat c'" if "unat c' < 8" for c'
    using that by (simp add: class_size_def SLAB_CLASS_COUNT_def word_le_nat_alt)
  show "unat c < 8" "max (max bytes align) 2 \<le> class_size c"
    "c' < c \<Longrightarrow> class_size c' < max (max bytes align) 2"
    using k u by (simp_all add: word_less_nat_alt cs)
qed

text \<open>
  \<^verbatim>\<open>class_index_for\<close> picks the smallest class that holds the requested size and alignment (and
  at least the two bytes of a free-list link), and answers with nothing exactly when the request
  is over 2048 bytes.
\<close>

theorem class_index_for_smallest:
  "case class_index_for bytes align of
     Some c \<Rightarrow> unat c < 8 \<and> max (max bytes align) 2 \<le> class_size c
        \<and> (\<forall>c'. c' < c \<longrightarrow> class_size c' < max (max bytes align) 2)
   | None \<Rightarrow> 2048 < max bytes align"
proof (cases "class_index_for bytes align")
  case None
  then have "\<forall>x\<in>set SLAB_CLASS_SIZES. x < max (max bytes align) 2"
    unfolding class_index_for_def Let_def by (rule first_class_None)
  then have "2048 < max (max bytes align) 2" by (simp add: SLAB_CLASS_SIZES_def)
  then have "2048 < max bytes align" by (auto simp: max_def split: if_splits)
  with None show ?thesis by simp
qed (use class_index_for_Some in simp)

theorem class_index_for_smallest_witness: "class_index_for 100 8 = Some 3 \<and> class_size 2 < 100"
proof -
  have c: "class_index_for 100 8 = Some 3" by code_simp
  then have "\<forall>c'. c' < 3 \<longrightarrow> class_size c' < max (max 100 8) 2"
    using class_index_for_smallest [of 100 8] by simp
  from this [rule_format, of 2] c show ?thesis by simp
qed

section \<open>Objects of a slab page\<close>

text \<open>A page the heap may use: aligned, not at 0 and not the last of the address space.\<close>

definition page_ok :: "u64 \<Rightarrow> bool" where
  "page_ok page \<longleftrightarrow> page mod SLAB_PAGE_SIZE = 0 \<and> page \<noteq> 0 \<and> unat page + 4096 < 2 ^ 64"

definition obj_addr :: "u64 \<Rightarrow> u8 \<Rightarrow> u16 \<Rightarrow> u64" where
  "obj_addr page c i = page + ucast i * class_size (ucast c)"

lemma class_dims:
  assumes "unat (c :: u8) < 8"
  shows "unat (class_size (ucast c)) = 2 ^ (unat c + 4)"
    "unat (ucast (SLAB_PAGE_SIZE div class_size (ucast c)) :: u16) = 2 ^ (8 - unat c)"
    "2 ^ (8 - unat c) * 2 ^ (unat c + 4) = (4096 :: nat)"
proof -
  have u: "unat (ucast c :: u64) = unat c" by (rule unat_ucast_up) simp
  then show s: "unat (class_size (ucast c)) = 2 ^ (unat c + 4)" using unat_class_size assms by metis
  have "unat c \<in> {0, 1, 2, 3, 4, 5, 6, 7}" using assms by auto
  then have d: "4096 div 2 ^ (unat c + 4) = (2 :: nat) ^ (8 - unat c)" "(2 :: nat) ^ (8 - unat c) < 2 ^ 16"
    "2 ^ (8 - unat c) * 2 ^ (unat c + 4) = (4096 :: nat)" by auto
  show "2 ^ (8 - unat c) * 2 ^ (unat c + 4) = (4096 :: nat)" by (rule d(3))
  have "unat (SLAB_PAGE_SIZE div class_size (ucast c)) = 2 ^ (8 - unat c)"
    by (simp add: unat_div s SLAB_PAGE_SIZE_def d(1))
  with d(2) show "unat (ucast (SLAB_PAGE_SIZE div class_size (ucast c)) :: u16) = 2 ^ (8 - unat c)"
    by (simp add: unsigned_ucast_eq take_bit_nat_eq_self)
qed

lemma obj_addr_unat:
  assumes "page_ok page" "unat c < 8" "unat i < 2 ^ (8 - unat c)"
  shows "unat (obj_addr page c i) = unat page + unat i * 2 ^ (unat c + 4)"
    "unat i * 2 ^ (unat c + 4) + 2 ^ (unat c + 4) \<le> 4096"
proof -
  have "(unat i + 1) * 2 ^ (unat c + 4) \<le> 2 ^ (8 - unat c) * 2 ^ (unat c + 4)"
    using assms(3) by (intro mult_right_mono) auto
  then show le: "unat i * 2 ^ (unat c + 4) + 2 ^ (unat c + 4) \<le> 4096"
    unfolding class_dims(3) [OF assms(2)] by (simp add: distrib_right)
  have i: "unat (ucast i :: u64) = unat i" by (rule unat_ucast_up) simp
  have lt: "unat i * 2 ^ (unat c + 4) < 2 ^ 64" using le by simp
  have m: "unat (ucast i * class_size (ucast c) :: u64) = unat i * 2 ^ (unat c + 4)"
    using lt by (subst unat_mult_lem [THEN iffD1]) (simp_all add: i class_dims(1) [OF assms(2)])
  have "unat page + unat i * 2 ^ (unat c + 4) < 2 ^ 64" using assms(1) le unfolding page_ok_def by linarith
  then show "unat (obj_addr page c i) = unat page + unat i * 2 ^ (unat c + 4)"
    unfolding obj_addr_def by (subst unat_add_lem [THEN iffD1]) (simp_all add: m)
qed

lemma obj_bytes:
  assumes "page_ok page" "unat c < 8" "unat i < 2 ^ (8 - unat c)" "n \<le> 2 ^ (unat c + 4)"
  shows "in_bytes (obj_addr page c i) n x \<longleftrightarrow>
    unat page + unat i * 2 ^ (unat c + 4) \<le> unat x \<and> unat x < unat page + unat i * 2 ^ (unat c + 4) + n"
proof -
  note o = obj_addr_unat [OF assms(1-3)]
  have "unat (obj_addr page c i) + n \<le> 2 ^ 64" using o assms(1,4) unfolding page_ok_def by linarith
  then show ?thesis by (simp add: in_bytes_nowrap o(1))
qed

lemma obj_disjoint:
  assumes "page_ok page" "unat c < 8" "unat i < 2 ^ (8 - unat c)" "unat j < 2 ^ (8 - unat c)"
    and "in_bytes (obj_addr page c i) (2 ^ (unat c + 4)) x" "in_bytes (obj_addr page c j) (2 ^ (unat c + 4)) x"
  shows "i = j"
proof -
  let ?s = "2 ^ (unat c + 4) :: nat"
  have "unat page + unat i * ?s \<le> unat x" "unat x < unat page + unat i * ?s + ?s"
    "unat page + unat j * ?s \<le> unat x" "unat x < unat page + unat j * ?s + ?s"
    using assms by (simp_all add: obj_bytes)
  then have "unat i * ?s < (unat j + 1) * ?s" "unat j * ?s < (unat i + 1) * ?s" by simp_all
  then have "unat i < unat j + 1" "unat j < unat i + 1" unfolding mult_less_cancel2 by simp_all
  then show ?thesis by (simp add: word_unat_eq_iff)
qed

lemma obj_ge_2: "2 \<le> (2 :: nat) ^ (k + 4)"
  by (simp add: power_add)

section \<open>The free list\<close>

text \<open>The free list as the allocator walks it: from the head along the links, at most \<open>n\<close> steps.\<close>

primrec free_walk :: "memory \<Rightarrow> u64 \<Rightarrow> u8 \<Rightarrow> nat \<Rightarrow> u16 \<Rightarrow> u16 list" where
  "free_walk m page c 0 h = []"
| "free_walk m page c (Suc n) h =
     (if h = FREE_LIST_END then [] else h # free_walk m page c n (read_u16 m (obj_addr page c h)))"

primrec chain :: "memory \<Rightarrow> u64 \<Rightarrow> u8 \<Rightarrow> u16 \<Rightarrow> u16 list \<Rightarrow> bool" where
  "chain m page c h [] \<longleftrightarrow> h = FREE_LIST_END"
| "chain m page c h (i # is) \<longleftrightarrow> h = i \<and> chain m page c (read_u16 m (obj_addr page c i)) is"

definition slab_ok :: "u64 \<Rightarrow> memory \<Rightarrow> SlabPage \<Rightarrow> u16 list \<Rightarrow> bool" where
  "slab_ok page m s fl \<longleftrightarrow>
     active s \<and> unat (class_index s) < 8 \<and> unat (capacity s) = 2 ^ (8 - unat (class_index s))
     \<and> distinct fl \<and> (\<forall>i\<in>set fl. i < capacity s)
     \<and> unat (in_use s) + length fl = unat (capacity s)
     \<and> chain m page (class_index s) (free_head s) fl"

definition slab_free_list :: "u64 \<Rightarrow> memory \<Rightarrow> SlabPage \<Rightarrow> u16 list" where
  "slab_free_list page m s = free_walk m page (class_index s) (unat (capacity s)) (free_head s)"

definition slab_inv :: "u64 \<Rightarrow> memory \<Rightarrow> SlabPage \<Rightarrow> bool" where
  "slab_inv page m s \<longleftrightarrow> slab_ok page m s (slab_free_list page m s)"

lemma walk_chain:
  "chain m page c h fl \<Longrightarrow> length fl \<le> n \<Longrightarrow> FREE_LIST_END \<notin> set fl \<Longrightarrow> free_walk m page c n h = fl"
proof (induction fl arbitrary: n h)
  case Nil
  then show ?case by (cases n) simp_all
next
  case (Cons i "is")
  then show ?case by (cases n) auto
qed

lemma capacity_le: "unat (capacity s) = 2 ^ (8 - unat (class_index s)) \<Longrightarrow> unat (capacity s) \<le> 256"
  using power_increasing [of "8 - unat (class_index s)" 8 "2 :: nat"] by simp

lemma not_end: "unat (n :: u16) \<le> 256 \<Longrightarrow> i < n \<Longrightarrow> i \<noteq> FREE_LIST_END"
  by (auto simp: FREE_LIST_END_def word_less_nat_alt)

lemma slab_ok_list: "slab_ok page m s fl \<Longrightarrow> slab_free_list page m s = fl"
  unfolding slab_free_list_def
  by (rule walk_chain) (auto simp: slab_ok_def dest: capacity_le not_end)

lemma slab_ok_inv: "slab_ok page m s fl \<Longrightarrow> slab_inv page m s"
  by (simp add: slab_inv_def slab_ok_list)

lemma chain_cong:
  assumes "\<And>i. i \<in> set fl \<Longrightarrow> read_u16 m' (obj_addr page c i) = read_u16 m (obj_addr page c i)"
  shows "chain m' page c h fl \<longleftrightarrow> chain m page c h fl"
  using assms by (induction fl arbitrary: h) auto

text \<open>The invariant only depends on the bytes of the free objects.\<close>

lemma slab_ok_frame:
  assumes pg: "page_ok page" and ok: "slab_ok page m s fl"
    and same: "\<And>x i. i \<in> set fl \<Longrightarrow> in_bytes (obj_addr page (class_index s) i) 2 x \<Longrightarrow> m' x = m x"
  shows "slab_ok page m' s fl"
proof -
  have "read_u16 m' (obj_addr page (class_index s) i) = read_u16 m (obj_addr page (class_index s) i)"
    if "i \<in> set fl" for i
    by (rule read_u16_cong) (use same that in simp)
  from chain_cong [OF this] ok show ?thesis by (simp add: slab_ok_def)
qed

section \<open>Operations on a slab page\<close>

lemma init_links:
  assumes "page_ok page" "unat c < 8" "unat cap = 2 ^ (8 - unat c)" "distinct is" "\<forall>i\<in>set is. i < cap"
  shows "i < cap \<Longrightarrow>
     read_u16 (fold (\<lambda>i m. write_u16 m (obj_addr page c i) (f i)) is m) (obj_addr page c i)
       = (if i \<in> set is then f i else read_u16 m (obj_addr page c i))"
  using assms(4,5)
proof (induction "is" arbitrary: m)
  case (Cons j "is")
  have other: "read_u16 (write_u16 m (obj_addr page c j) (f j)) (obj_addr page c i) = read_u16 m (obj_addr page c i)"
    if "i \<noteq> j"
  proof (rule read_u16_cong)
    fix x assume x: "in_bytes (obj_addr page c i) 2 x"
    have "\<not> in_bytes (obj_addr page c j) 2 x"
    proof
      assume "in_bytes (obj_addr page c j) 2 x"
      then have "i = j"
        using obj_disjoint [OF assms(1,2), of i j x] x Cons.prems assms(3) in_bytes_sub [OF _ obj_ge_2]
        by (auto simp: word_less_nat_alt)
      with that show False by simp
    qed
    then show "write_u16 m (obj_addr page c j) (f j) x = m x" by (rule write_u16_outside)
  qed
  show ?case using Cons other by (cases "i = j") auto
qed simp

lemma upt_chain:
  "(\<And>i. k \<le> i \<Longrightarrow> i < n \<Longrightarrow> read_u16 m (obj_addr page c (word_of_nat i))
        = (if Suc i < n then word_of_nat (Suc i) else FREE_LIST_END)) \<Longrightarrow> k \<le> n \<Longrightarrow>
   chain m page c (if k < n then word_of_nat k else FREE_LIST_END) (map word_of_nat [k..<n])"
proof (induction "n - k" arbitrary: k)
  case 0
  then show ?case by simp
next
  case (Suc d)
  then have "k < n" by simp
  moreover have "chain m page c (if Suc k < n then word_of_nat (Suc k) else FREE_LIST_END) (map word_of_nat [Suc k..<n])"
    using Suc by simp
  ultimately show ?case using Suc.prems(1) [of k] by (simp add: upt_conv_Cons del: upt_Suc)
qed

lemma fold_write_u16_outside:
  "\<forall>i\<in>set is. \<not> in_bytes (g i) 2 x \<Longrightarrow> fold (\<lambda>i m. write_u16 m (g i) (f i)) is m x = m x"
  by (induction "is" arbitrary: m) (auto simp: write_u16_outside)

lemma obj_in_page:
  assumes "page_ok page" "unat c < 8" "unat i < 2 ^ (8 - unat c)" "in_bytes (obj_addr page c i) (2 ^ (unat c + 4)) x"
  shows "in_bytes page 4096 x"
proof -
  have "unat page \<le> unat x" "unat x < unat page + unat i * 2 ^ (unat c + 4) + 2 ^ (unat c + 4)"
    using assms by (auto simp: obj_bytes)
  with obj_addr_unat(2) [OF assms(1-3)] have "unat page \<le> unat x" "unat x < unat page + 4096" by linarith+
  moreover have "unat page + 4096 \<le> 2 ^ 64" using assms(1) by (simp add: page_ok_def)
  ultimately show ?thesis by (simp add: in_bytes_nowrap)
qed

lemma ucast_index:
  assumes "unat (index :: u64) < 8"
  shows "unat (ucast index :: u8) = unat index" "ucast (ucast index :: u8) = index"
proof -
  show u: "unat (ucast index :: u8) = unat index"
    using assms by (simp add: unsigned_ucast_eq take_bit_nat_eq_self)
  have "unat (ucast (ucast index :: u8) :: u64) = unat index" using unat_ucast_up [of "ucast index :: u8"] u by simp
  then show "ucast (ucast index :: u8) = index" by (simp add: word_unat_eq_iff)
qed

lemma init_slab_page_ok:
  assumes "page_ok page" "unat index < 8"
  obtains slab' m' where "init_slab_page page index m slab = Some (slab', m')" "in_use slab' = 0"
    "class_index slab' = ucast index" "slab_ok page m' slab' (map word_of_nat [0..<2 ^ (8 - unat index)])"
    "\<And>x. \<not> in_bytes page 4096 x \<Longrightarrow> m' x = m x"
proof -
  define c :: u8 where "c = ucast index"
  define cap :: u16 where "cap = ucast (SLAB_PAGE_SIZE div class_size index)"
  define nxt :: "u16 \<Rightarrow> u16" where "nxt = (\<lambda>i. if i + 1 < cap then i + 1 else FREE_LIST_END)"
  have c: "unat c = unat index" "ucast c = index" "unat c < 8" using ucast_index [OF assms(2)] assms(2) by (simp_all add: c_def)
  have cap: "unat cap = 2 ^ (8 - unat c)" unfolding cap_def c(2) [symmetric] by (rule class_dims(2) [OF c(3)])
  have cap256: "unat cap \<le> 256" unfolding cap using power_increasing [of "8 - unat c" 8 "2 :: nat"] by simp
  have cap0: "cap \<noteq> 0" "0 < cap" using cap by (auto simp: word_less_nat_alt)
  have cs0: "class_size index \<noteq> 0" using class_dims(1) [OF c(3)] by (auto simp: c(2))
  define m' where "m' = fold (\<lambda>i m. write_u16 m (obj_addr page c i) (nxt i)) (range_w 0 cap) m"
  define s where "s = slab\<lparr>active := True, class_index := c, in_use := 0, capacity := cap, free_head := 0\<rparr>"
  have init: "init_slab_page page index m slab = Some (s, m')"
    using cs0 cap0 by (simp add: init_slab_page_def Let_def cap_def [symmetric] c_def [symmetric] s_def m'_def
        obj_addr_def c(2) nxt_def)
  have rw: "set (range_w 0 cap) = {i. i < cap}" by (auto simp: set_range_w)
  have rd: "read_u16 m' (obj_addr page c i) = nxt i" if "i < cap" for i
    unfolding m'_def using init_links [OF assms(1) c(3) cap distinct_range_w _ that] that by (simp add: rw)
  have w: "unat (word_of_nat i :: u16) = i" if "i \<le> 256" for i using that by (simp add: unat_of_nat)
  have ch: "chain m' page c 0 (map word_of_nat [0..<unat cap])"
  proof -
    have "read_u16 m' (obj_addr page c (word_of_nat i))
        = (if Suc i < unat cap then word_of_nat (Suc i) else FREE_LIST_END)" if "i < unat cap" for i
    proof -
      have i: "unat (word_of_nat i :: u16) = i" "unat (word_of_nat (Suc i) :: u16) = Suc i"
        using that cap256 w [of i] w [of "Suc i"] by (simp_all del: of_nat_Suc)
      then have "word_of_nat i < cap" "(word_of_nat i :: u16) + 1 < cap \<longleftrightarrow> Suc i < unat cap"
        using that by (simp_all add: word_less_nat_alt add.commute)
      then show ?thesis by (simp add: rd nxt_def add.commute)
    qed
    from upt_chain [of 0 "unat cap" m' page c, OF this] cap show ?thesis by simp
  qed
  have "slab_ok page m' s (map word_of_nat [0..<unat cap])"
  proof -
    have "inj_on (word_of_nat :: nat \<Rightarrow> u16) {0..<unat cap}"
      by (rule inj_on_inverseI [where g = unat]) (use w cap256 in auto)
    moreover have "word_of_nat i < cap" if "i < unat cap" for i
      using that w [of i] cap256 by (simp add: word_less_nat_alt)
    ultimately show ?thesis using ch c(3) cap by (auto simp: slab_ok_def s_def distinct_map)
  qed
  moreover have "m' x = m x" if "\<not> in_bytes page 4096 x" for x
    unfolding m'_def
    by (rule fold_write_u16_outside)
      (use obj_in_page [OF assms(1) c(3)] that cap in_bytes_sub [OF _ obj_ge_2] in \<open>auto simp: rw word_less_nat_alt\<close>)
  ultimately show thesis using that [OF init] cap c(1) by (simp add: s_def c_def)
qed

lemma alloc_from_slab_full: "slab_ok page m s [] \<Longrightarrow> alloc_from_slab page m s = (0, s)"
  by (simp add: alloc_from_slab_def has_free_objects_def slab_ok_def)

lemma alloc_from_slab_ok:
  assumes ok: "slab_ok page m s (i # fl)"
  obtains s' where "alloc_from_slab page m s = (obj_addr page (class_index s) i, s')"
    "slab_ok page m s' fl" "class_index s' = class_index s" "capacity s' = capacity s"
proof -
  let ?s' = "s\<lparr>free_head := read_u16 m (obj_addr page (class_index s) i), in_use := saturating_add (in_use s) 1\<rparr>"
  have h: "free_head s = i" "i < capacity s" "active s" "unat (class_index s) < 8"
    and cap: "unat (capacity s) = 2 ^ (8 - unat (class_index s))" using ok by (auto simp: slab_ok_def)
  have "i \<noteq> FREE_LIST_END" using not_end [OF capacity_le [OF cap] h(2)] .
  moreover have "class_size (ucast (class_index s)) \<noteq> 0" using class_dims(1) [OF h(4)] by auto
  ultimately have r: "alloc_from_slab page m s = (obj_addr page (class_index s) i, ?s')"
    using h by (simp add: alloc_from_slab_def has_free_objects_def Let_def obj_addr_def)
  have "unat (in_use s) + Suc (length fl) = unat (capacity s)" using ok by (simp add: slab_ok_def)
  then have "unat (in_use s) < 256" using capacity_le [OF cap] by linarith
  then have "unat (in_use s + 1) = Suc (unat (in_use s))" by (simp add: unat_plus_if')
  then have "unat (saturating_add (in_use s) 1) = Suc (unat (in_use s))"
    by (simp add: saturating_add_def word_less_nat_alt)
  then have "slab_ok page m ?s' fl" using ok by (simp add: slab_ok_def)
  with r that show thesis by simp
qed

lemma free_to_slab_ok:
  assumes pg: "page_ok page" and ok: "slab_ok page m s fl" and i: "i < capacity s" "i \<notin> set fl"
  obtains s' m' where "free_to_slab page m s (obj_addr page (class_index s) i) = (True, s', m')"
    "slab_ok page m' s' (i # fl)" "class_index s' = class_index s" "capacity s' = capacity s"
    "\<And>x. \<not> in_bytes (obj_addr page (class_index s) i) 2 x \<Longrightarrow> m' x = m x"
proof -
  let ?c = "class_index s" and ?p = "obj_addr page (class_index s) i"
  let ?m' = "write_u16 m ?p (free_head s)"
  let ?s' = "s\<lparr>free_head := i, in_use := saturating_sub (in_use s) 1\<rparr>"
  have c: "unat ?c < 8" "active s" and cap: "unat (capacity s) = 2 ^ (8 - unat ?c)" using ok by (auto simp: slab_ok_def)
  have i8: "unat i < 2 ^ (8 - unat ?c)" using i(1) cap by (simp add: word_less_nat_alt)
  note o = obj_addr_unat [OF pg c(1) i8]
  note cs = class_dims(1) [OF c(1)]
  have pe: "unat (page + SLAB_PAGE_SIZE) = unat page + 4096"
    using pg by (subst unat_add_lem [THEN iffD1]) (auto simp: page_ok_def SLAB_PAGE_SIZE_def)
  have "1 \<le> (2 :: nat) ^ (unat ?c + 4)" by simp
  then have lt: "unat i * 2 ^ (unat ?c + 4) < 4096" using o(2) by linarith
  have "unat page \<noteq> 0" using pg by (auto simp: page_ok_def unat_0_iff)
  then have r1: "?p \<noteq> 0" "\<not> ?p < page" "\<not> page + SLAB_PAGE_SIZE \<le> ?p"
    using o(1) lt pe by (auto simp: word_less_nat_alt word_le_nat_alt)
  have off: "unat (?p - page) = unat i * 2 ^ (unat ?c + 4)" using r1(2) o(1) by (simp add: unat_sub not_less)
  have r2: "(?p - page) mod class_size (ucast ?c) = 0" by (simp add: word_unat_eq_iff unat_mod off cs)
  have "unat ((?p - page) div class_size (ucast ?c)) = unat i" by (simp add: unat_div off cs)
  moreover from this have "unat (ucast ((?p - page) div class_size (ucast ?c)) :: u16) = unat i"
    using unat_bound [of i] by (simp add: unsigned_ucast_eq take_bit_nat_eq_self)
  ultimately have r3: "ucast ((?p - page) div class_size (ucast ?c)) = i" by (simp add: word_unat_eq_iff)
  have cs0: "class_size (ucast ?c) \<noteq> 0" using cs by auto
  have r: "free_to_slab page m s ?p = (True, ?s', ?m')"
    using c(2) r1 r2 r3 cs0 i(1) by (simp add: free_to_slab_def Let_def not_le)
  have "i # fl = i # fl" "distinct (i # fl)" using ok i(2) by (auto simp: slab_ok_def)
  have "set (i # fl) \<subseteq> {j. j < capacity s}" using ok i(1) by (auto simp: slab_ok_def)
  then have "card (set (i # fl)) \<le> card {j. j < capacity s}" by (intro card_mono) auto
  also have "card {j. j < capacity s} = unat (capacity s)"
  proof -
    have "{j. j < capacity s} = set (range_w 0 (capacity s))" by (auto simp: set_range_w)
    then show ?thesis by (simp add: distinct_card distinct_range_w) (simp add: range_w_def)
  qed
  finally have "Suc (length fl) \<le> unat (capacity s)" using \<open>distinct (i # fl)\<close> by (simp add: distinct_card)
  moreover have n: "unat (in_use s) + length fl = unat (capacity s)" using ok by (simp add: slab_ok_def)
  ultimately have "0 < unat (in_use s)" by linarith
  then have iu: "unat (saturating_sub (in_use s) 1) = unat (in_use s) - 1"
    by (simp add: saturating_sub_def word_less_nat_alt unat_sub_if')
  have ch: "chain ?m' page ?c (free_head s) fl"
  proof -
    have "slab_ok page ?m' s fl"
    proof (rule slab_ok_frame [OF pg ok])
      fix x j assume j: "j \<in> set fl" "in_bytes (obj_addr page ?c j) 2 x"
      then have "unat j < 2 ^ (8 - unat ?c)" using ok cap by (auto simp: slab_ok_def word_less_nat_alt)
      then have "\<not> in_bytes ?p 2 x"
        using obj_disjoint [OF pg c(1) i8, of j x] j i(2) in_bytes_sub [OF _ obj_ge_2] by blast
      then show "?m' x = m x" by (rule write_u16_outside)
    qed
    then show ?thesis by (simp add: slab_ok_def)
  qed
  have "slab_ok page ?m' ?s' (i # fl)"
    using ok i iu n \<open>0 < unat (in_use s)\<close> ch by (auto simp: slab_ok_def)
  with r that show thesis using write_u16_outside by auto
qed

section \<open>A slab page is an object pool\<close>

definition slab_free :: "u64 \<Rightarrow> memory \<Rightarrow> SlabPage \<Rightarrow> u64 set" where
  "slab_free page m s = obj_addr page (class_index s) ` set (slab_free_list page m s)"

definition slab_objects :: "u64 \<Rightarrow> SlabPage \<Rightarrow> u64 set" where
  "slab_objects page s = obj_addr page (class_index s) ` {i. i < capacity s}"

lemma obj_addr_inj:
  assumes "page_ok page" "slab_ok page m s fl"
  shows "inj_on (obj_addr page (class_index s)) {i. i < capacity s}"
proof (rule inj_onI)
  fix i j assume "i \<in> {i. i < capacity s}" "j \<in> {i. i < capacity s}"
    and eq: "obj_addr page (class_index s) i = obj_addr page (class_index s) j"
  then have "unat i < 2 ^ (8 - unat (class_index s))" "unat j < 2 ^ (8 - unat (class_index s))"
    using assms(2) by (auto simp: slab_ok_def word_less_nat_alt)
  with eq assms show "i = j"
    using obj_disjoint [OF assms(1), of "class_index s" i j "obj_addr page (class_index s) i"]
    by (auto simp: slab_ok_def)
qed

lemma slab_ok_sets:
  "slab_ok page m s fl \<Longrightarrow> slab_free page m s = obj_addr page (class_index s) ` set fl"
  by (simp add: slab_free_def slab_ok_list)

lemma slab_alloc_contract:
  assumes pg: "page_ok page" and inv: "slab_inv page m s" and ne: "slab_free page m s \<noteq> {}"
    and r: "alloc_from_slab page m s = (a, s')"
  shows "a \<noteq> 0 \<and> a \<in> slab_free page m s \<and> slab_free page m s' = slab_free page m s - {a}
     \<and> slab_objects page s' = slab_objects page s \<and> slab_inv page m s'"
proof -
  have ok: "slab_ok page m s (slab_free_list page m s)" using inv by (simp add: slab_inv_def)
  then obtain i fl where fl: "slab_free_list page m s = i # fl"
    using ne by (cases "slab_free_list page m s") (auto simp: slab_free_def)
  from ok fl have ok': "slab_ok page m s (i # fl)" by simp
  obtain t where t: "alloc_from_slab page m s = (obj_addr page (class_index s) i, t)" "slab_ok page m t fl"
    "class_index t = class_index s" "capacity t = capacity s" using alloc_from_slab_ok [OF ok'] by blast
  have s': "s' = t" "a = obj_addr page (class_index s) i" using r t(1) by auto
  have sub: "set (i # fl) \<subseteq> {i. i < capacity s}" "i \<notin> set fl" using ok' by (auto simp: slab_ok_def)
  have "unat i < 2 ^ (8 - unat (class_index s))" "unat (class_index s) < 8"
    using ok' by (auto simp: slab_ok_def word_less_nat_alt)
  then have "a \<noteq> 0" using obj_addr_unat(1) [OF pg, of "class_index s" i] pg
    by (auto simp: s' page_ok_def unat_0_iff)
  moreover have "obj_addr page (class_index s) ` set fl = obj_addr page (class_index s) ` set (i # fl) - {a}"
    using inj_on_image_set_diff [OF obj_addr_inj [OF pg ok'], of "set (i # fl)" "{i}"] sub by (auto simp: s')
  moreover have "slab_free page m s' = obj_addr page (class_index s) ` set fl" "slab_inv page m s'"
    "slab_objects page s' = slab_objects page s"
    using t(3,4) slab_ok_sets [OF t(2)] slab_ok_inv [OF t(2)] by (simp_all add: s' slab_objects_def)
  moreover have "a \<in> slab_free page m s" by (simp add: slab_ok_sets [OF ok'] s'(2))
  ultimately show ?thesis by (simp only: slab_ok_sets [OF ok']) blast
qed

lemma slab_release_contract:
  assumes pg: "page_ok page" and inv: "slab_inv page m s" and a: "a \<in> slab_objects page s - slab_free page m s"
    and r: "free_to_slab page m s a = (ok, s', m')"
  shows "ok \<and> slab_free page m' s' = insert a (slab_free page m s)
     \<and> slab_objects page s' = slab_objects page s \<and> slab_inv page m' s'"
proof -
  let ?fl = "slab_free_list page m s"
  have ok: "slab_ok page m s ?fl" using inv by (simp add: slab_inv_def)
  obtain i where i: "i < capacity s" "a = obj_addr page (class_index s) i" "i \<notin> set ?fl"
    using a by (auto simp: slab_objects_def slab_free_def)
  obtain t m1 where t: "free_to_slab page m s (obj_addr page (class_index s) i) = (True, t, m1)"
    "slab_ok page m1 t (i # ?fl)" "class_index t = class_index s" "capacity t = capacity s"
    using free_to_slab_ok [OF pg ok i(1,3)] by blast
  have "ok" "s' = t" "m' = m1" using r t(1) i(2) by auto
  moreover have "slab_free page m1 t = insert a (slab_free page m s)"
    using t(3) i(2) by (simp add: slab_ok_sets [OF t(2)] slab_ok_sets [OF ok])
  moreover have "slab_objects page t = slab_objects page s" using t(3,4) by (simp add: slab_objects_def)
  ultimately show ?thesis using slab_ok_inv [OF t(2)] by blast
qed

interpretation slab_pool: object_pool
    "\<lambda>(m, s). case alloc_from_slab page m s of (a, s') \<Rightarrow> (a, m, s')"
    "\<lambda>(m, s) p. case free_to_slab page m s p of (ok, s', m') \<Rightarrow> (ok, m', s')"
    "\<lambda>(m, s). slab_free page m s" "\<lambda>(m, s). slab_objects page s"
    "\<lambda>(m, s). page_ok page \<and> slab_inv page m s" for page
proof (unfold_locales, goal_cases)
  case (1 s a s')
  obtain m t where s: "s = (m, t)" by (cases s)
  obtain b t' where b: "alloc_from_slab page m t = (b, t')" by (cases "alloc_from_slab page m t")
  with 1 s have "a = b" "s' = (m, t')" by auto
  with 1 s slab_alloc_contract [OF _ _ _ b] show ?case by simp
next
  case (2 s)
  obtain m t where s: "s = (m, t)" by (cases s)
  with 2 have "slab_ok page m t []" by (auto simp: slab_inv_def slab_free_def)
  then show ?case by (simp add: s alloc_from_slab_full)
next
  case (3 s a ok s')
  obtain m t where s: "s = (m, t)" by (cases s)
  obtain b t' m' where b: "free_to_slab page m t a = (b, t', m')" by (metis prod_cases3)
  with 3 s have "ok = b" "s' = (m', t')" by auto
  with 3 s slab_release_contract [OF _ _ _ b] show ?case by simp
next
  case (4 s)
  then show ?case by (cases s) (auto simp: slab_inv_def slab_free_def slab_objects_def slab_ok_def)
next
  case (5 s)
  then show ?case by (cases s) (simp add: slab_free_def)
qed

section \<open>Properties of slab pages\<close>

text \<open>
  initialising a page for a size class succeeds and links all objects of the page into the
  free list, in order; none is in use and nothing outside the page is written.
\<close>

theorem init_slab_page_correct:
  assumes "page_ok page" "unat index < 8"
  shows "\<exists>slab' m'. init_slab_page page index m slab = Some (slab', m') \<and> in_use slab' = 0
     \<and> slab_inv page m' slab' \<and> slab_free_list page m' slab' = map word_of_nat [0..<2 ^ (8 - unat index)]
     \<and> (\<forall>x. \<not> in_bytes page 4096 x \<longrightarrow> m' x = m x)"
proof -
  obtain s' m' where s: "init_slab_page page index m slab = Some (s', m')" "in_use s' = 0"
    "slab_ok page m' s' (map word_of_nat [0..<2 ^ (8 - unat index)])"
    "\<And>x. \<not> in_bytes page 4096 x \<Longrightarrow> m' x = m x"
    using init_slab_page_ok [OF assms] by metis
  then show ?thesis using slab_ok_inv [OF s(3)] slab_ok_list [OF s(3)] by blast
qed

theorem init_slab_page_correct_witness:
  "\<exists>slab' m'. init_slab_page 0x5000 7 (\<lambda>_. 0) SlabPage_empty = Some (slab', m') \<and> slab_inv 0x5000 m' slab'
     \<and> slab_free_list 0x5000 m' slab' = [0, 1]"
proof -
  have "page_ok 0x5000" by (simp add: page_ok_def SLAB_PAGE_SIZE_def)
  moreover have "unat (7 :: u64) < 8" "map word_of_nat [0..<2 ^ (8 - unat (7 :: u64))] = [0, 1 :: u16]"
    by code_simp+
  ultimately show ?thesis using init_slab_page_correct [of "0x5000" 7 "\<lambda>_. 0" SlabPage_empty] by metis
qed

text \<open>
  allocating from a slab with a free object returns the address of a free object of the page,
  which is then in use, and changes nothing else; allocating from a full slab returns null.
  Releasing an object in use is accepted and makes exactly it free again.
\<close>

theorem slab_alloc_free_correct:
  assumes "page_ok page" "slab_inv page m s"
  shows "(\<forall>a s'. alloc_from_slab page m s = (a, s') \<longrightarrow>
       (if slab_free page m s = {} then a = 0 \<and> s' = s
        else a \<noteq> 0 \<and> a \<in> slab_free page m s \<and> slab_free page m s' = slab_free page m s - {a} \<and> slab_inv page m s'))
     \<and> (\<forall>a ok s' m'. a \<in> slab_objects page s - slab_free page m s \<longrightarrow> free_to_slab page m s a = (ok, s', m') \<longrightarrow>
       ok \<and> slab_free page m' s' = insert a (slab_free page m s) \<and> slab_inv page m' s')"
proof (intro conjI allI impI)
  fix a s' assume r: "alloc_from_slab page m s = (a, s')"
  show "if slab_free page m s = {} then a = 0 \<and> s' = s
      else a \<noteq> 0 \<and> a \<in> slab_free page m s \<and> slab_free page m s' = slab_free page m s - {a} \<and> slab_inv page m s'"
  proof (cases "slab_free page m s = {}")
    case True
    with slab_pool.alloc_none [of page "(m, s)"] assms r show ?thesis by simp
  next
    case False
    with slab_alloc_contract [OF assms False r] show ?thesis by simp
  qed
next
  fix a ok s' m' assume a: "a \<in> slab_objects page s - slab_free page m s" "free_to_slab page m s a = (ok, s', m')"
  note c = slab_release_contract [OF assms a]
  show ok "slab_free page m' s' = insert a (slab_free page m s)" "slab_inv page m' s'" using c by auto
qed

primrec alloc_times :: "nat \<Rightarrow> u64 \<Rightarrow> memory \<Rightarrow> SlabPage \<Rightarrow> u64 list \<times> SlabPage" where
  "alloc_times 0 page m s = ([], s)"
| "alloc_times (Suc n) page m s =
     (let (a, s') = alloc_from_slab page m s; (as, s'') = alloc_times n page m s' in (a # as, s''))"

lemma alloc_times_eq: "slab_pool.alloc_times page n (m, s) = (case alloc_times n page m s of (as, s') \<Rightarrow> (as, m, s'))"
  by (induction n arbitrary: s) (auto split: prod.splits simp: Let_def)

lemma card_slab_free:
  assumes "page_ok page" "slab_ok page m s fl"
  shows "card (slab_free page m s) = length fl"
proof -
  have "inj_on (obj_addr page (class_index s)) (set fl)"
    by (rule inj_on_subset [OF obj_addr_inj [OF assms]]) (use assms(2) in \<open>auto simp: slab_ok_def\<close>)
  moreover have "distinct fl" using assms(2) by (simp add: slab_ok_def)
  ultimately show ?thesis by (simp add: slab_ok_sets [OF assms(2)] card_image distinct_card)
qed

text \<open>
  a freshly initialised slab of a class hands out exactly its capacity of pairwise different
  objects, all of them inside the page, and then null.
\<close>

theorem slab_hands_out_capacity:
  assumes "page_ok page" "unat index < 8" "init_slab_page page index m slab = Some (s, m')"
    and "alloc_times (2 ^ (8 - unat index)) page m' s = (as, s')"
  shows "distinct as \<and> length as = 2 ^ (8 - unat index) \<and> set as = slab_objects page s
     \<and> alloc_from_slab page m' s' = (0, s')"
proof -
  obtain t m1 where t: "init_slab_page page index m slab = Some (t, m1)"
    "slab_ok page m1 t (map word_of_nat [0..<2 ^ (8 - unat index)])" "class_index t = ucast index"
    using init_slab_page_ok [OF assms(1,2)] by metis
  then have t1: "t = s" "m1 = m'" using assms(3) by auto
  note ok = t(2) [unfolded t1]
  have c: "card (slab_free page m' s) = 2 ^ (8 - unat index)" using card_slab_free [OF assms(1) ok] by simp
  have "distinct as \<and> set as = slab_free page m' s \<and> alloc_from_slab page m' s' = (0, s')"
    using slab_pool.drain [of page "(m', s)" as "(m', s')"] assms(1,4) slab_ok_inv [OF ok] c
    by (simp add: alloc_times_eq split: prod.splits)
  moreover have "slab_free page m' s = slab_objects page s"
  proof (rule card_subset_eq)
    show "finite (slab_objects page s)" by (simp add: slab_objects_def)
    show "slab_free page m' s \<subseteq> slab_objects page s"
      using slab_pool.free_objects [of page "(m', s)"] assms(1) slab_ok_inv [OF ok] by simp
    have "{i. i < capacity s} = set (range_w 0 (capacity s))" by (auto simp: set_range_w)
    then have "card {i. i < capacity s} = unat (capacity s)"
      by (simp add: distinct_card distinct_range_w) (simp add: range_w_def)
    moreover have "unat (capacity s) = 2 ^ (8 - unat index)"
      using ok t(3) ucast_index(1) [OF assms(2)] by (simp add: slab_ok_def t1)
    ultimately show "card (slab_free page m' s) = card (slab_objects page s)"
      using card_image [OF obj_addr_inj [OF assms(1) ok]] c by (simp add: slab_objects_def)
  qed
  ultimately show ?thesis using c by (metis distinct_card)
qed

lemma demo_page_ok: "page_ok 0x5000"
  by (simp add: page_ok_def SLAB_PAGE_SIZE_def)

definition demo_slab :: "SlabPage \<times> memory" where
  "demo_slab = the (init_slab_page 0x5000 6 (\<lambda>_. 0) SlabPage_empty)"

lemma demo_slab_init: "init_slab_page 0x5000 6 (\<lambda>_. 0) SlabPage_empty = Some demo_slab"
  by (simp add: demo_slab_def init_slab_page_def class_size_def SLAB_CLASS_COUNT_def SLAB_CLASS_SIZES_def Let_def)

lemma demo_slab_inv: "slab_inv 0x5000 (snd demo_slab) (fst demo_slab)"
proof -
  have "unat (6 :: u64) < 8" by simp
  then obtain s m' where s: "init_slab_page 0x5000 6 (\<lambda>_. 0) SlabPage_empty = Some (s, m')"
    "slab_ok 0x5000 m' s (map word_of_nat [0..<2 ^ (8 - unat (6 :: u64))])"
    using init_slab_page_ok [OF demo_page_ok] by metis
  then have "demo_slab = (s, m')" using demo_slab_init by simp
  with slab_ok_inv [OF s(2)] show ?thesis by (metis fst_conv snd_conv)
qed

theorem slab_alloc_free_correct_witness:
  "\<exists>a s'. alloc_from_slab 0x5000 (snd demo_slab) (fst demo_slab) = (a, s') \<and> a = 0x5000
     \<and> slab_free 0x5000 (snd demo_slab) s' = slab_free 0x5000 (snd demo_slab) (fst demo_slab) - {0x5000}"
proof -
  obtain a s' where r: "alloc_from_slab 0x5000 (snd demo_slab) (fst demo_slab) = (a, s')" by fastforce
  have "fst (alloc_from_slab 0x5000 (snd demo_slab) (fst demo_slab)) = 0x5000" by code_simp
  then have "a = 0x5000" using r by simp
  with r conjunct1 [OF slab_alloc_free_correct [OF demo_page_ok demo_slab_inv], rule_format, OF r] show ?thesis
    by (auto split: if_splits)
qed

theorem slab_hands_out_capacity_witness:
  "\<exists>as s'. alloc_times 4 0x5000 (snd demo_slab) (fst demo_slab) = (as, s') \<and> distinct as \<and> length as = 4
     \<and> alloc_from_slab 0x5000 (snd demo_slab) s' = (0, s')"
proof -
  obtain as s' where r: "alloc_times 4 0x5000 (snd demo_slab) (fst demo_slab) = (as, s')" by fastforce
  have i: "unat (6 :: u64) < 8" "init_slab_page 0x5000 6 (\<lambda>_. 0) SlabPage_empty = Some (fst demo_slab, snd demo_slab)"
    using demo_slab_init by simp_all
  have "2 ^ (8 - unat (6 :: u64)) = (4 :: nat)" by simp
  with slab_hands_out_capacity [OF demo_page_ok i] r show ?thesis by metis
qed

text \<open>
  a client that writes only into objects it holds cannot damage the slab: writes to bytes
  outside the free objects keep the invariant and the free list.
\<close>

theorem slab_client_writes:
  assumes "page_ok page" "slab_inv page m s"
    and "\<forall>x. m' x \<noteq> m x \<longrightarrow> (\<forall>a\<in>slab_free page m s. \<not> in_bytes a 2 x)"
  shows "slab_inv page m' s \<and> slab_free_list page m' s = slab_free_list page m s"
proof -
  have ok: "slab_ok page m s (slab_free_list page m s)" using assms(2) by (simp add: slab_inv_def)
  have "slab_ok page m' s (slab_free_list page m s)"
    by (rule slab_ok_frame [OF assms(1) ok]) (use assms(3) in \<open>auto simp: slab_free_def\<close>)
  with slab_ok_list slab_ok_inv show ?thesis by metis
qed

theorem slab_client_writes_witness:
  "slab_inv 0x5000 ((snd demo_slab)(0x5002 := 0xAB)) (fst demo_slab)"
proof -
  let ?m = "snd demo_slab"
  have l: "slab_free_list 0x5000 ?m (fst demo_slab) = [0, 1, 2, 3]" by code_simp
  have f: "slab_free 0x5000 ?m (fst demo_slab) = set (map (obj_addr 0x5000 (class_index (fst demo_slab))) [0, 1, 2, 3])"
    unfolding slab_free_def l by simp
  have "map (obj_addr 0x5000 (class_index (fst demo_slab))) [0, 1, 2, 3] = [0x5000, 0x5400, 0x5800, 0x5C00]"
    by code_simp
  then have "\<forall>a\<in>slab_free 0x5000 ?m (fst demo_slab). \<not> in_bytes a 2 0x5002"
    unfolding f by (simp add: in_bytes_def)
  then have "\<forall>x. (?m(0x5002 := 0xAB)) x \<noteq> ?m x \<longrightarrow> (\<forall>a\<in>slab_free 0x5000 ?m (fst demo_slab). \<not> in_bytes a 2 x)"
    by (auto split: if_splits)
  from conjunct1 [OF slab_client_writes [OF demo_page_ok demo_slab_inv this]] show ?thesis .
qed

end
