(* ===== verification/Bitmap.thy ===== *)
theory Bitmap
  imports Prelude
begin

text \<open>
  The interface of an allocation bitmap: test, mark and unmark one index. The physical memory
  manager implements it on bytes of physical memory, the kernel heap on an array of its state.
  The lemmas proved once here give the effect of the loops that mark or unmark a run of indices
  and how the number of free indices changes.
\<close>

locale bit_alloc =
  fixes test :: "'s \<Rightarrow> 'i \<Rightarrow> bool"
    and mark :: "'s \<Rightarrow> 'i \<Rightarrow> 's"
    and unmark :: "'s \<Rightarrow> 'i \<Rightarrow> 's"
    and valid :: "'s \<Rightarrow> 'i \<Rightarrow> bool"
  assumes test_mark: "valid s i \<Longrightarrow> valid s j \<Longrightarrow> test (mark s i) j \<longleftrightarrow> j = i \<or> test s j"
    and test_unmark: "valid s i \<Longrightarrow> valid s j \<Longrightarrow> test (unmark s i) j \<longleftrightarrow> j \<noteq> i \<and> test s j"
    and valid_mark: "valid (mark s i) j \<longleftrightarrow> valid s j"
    and valid_unmark: "valid (unmark s i) j \<longleftrightarrow> valid s j"
begin

definition free_in :: "'s \<Rightarrow> 'i set \<Rightarrow> 'i set" where
  "free_in s A = {i \<in> A. \<not> test s i}"

lemma valid_mark_all: "valid (fold (\<lambda>i s. mark s i) is s) j \<longleftrightarrow> valid s j"
  by (induction "is" arbitrary: s) (auto simp: valid_mark)

lemma valid_unmark_all: "valid (fold (\<lambda>i s. unmark s i) is s) j \<longleftrightarrow> valid s j"
  by (induction "is" arbitrary: s) (auto simp: valid_unmark)

lemma test_mark_all:
  "(\<And>i. i \<in> set is \<Longrightarrow> valid s i) \<Longrightarrow> valid s j \<Longrightarrow>
     test (fold (\<lambda>i s. mark s i) is s) j \<longleftrightarrow> j \<in> set is \<or> test s j"
  by (induction "is" arbitrary: s) (auto simp: test_mark valid_mark)

lemma test_unmark_all:
  "(\<And>i. i \<in> set is \<Longrightarrow> valid s i) \<Longrightarrow> valid s j \<Longrightarrow>
     test (fold (\<lambda>i s. unmark s i) is s) j \<longleftrightarrow> j \<notin> set is \<and> test s j"
  by (induction "is" arbitrary: s) (auto simp: test_unmark valid_unmark)

lemma free_in_mark:
  "(\<And>j. j \<in> A \<Longrightarrow> valid s j) \<Longrightarrow> valid s i \<Longrightarrow> free_in (mark s i) A = free_in s A - {i}"
  by (auto simp: free_in_def test_mark)

lemma free_in_unmark:
  "(\<And>j. j \<in> A \<Longrightarrow> valid s j) \<Longrightarrow> i \<in> A \<Longrightarrow> free_in (unmark s i) A = insert i (free_in s A)"
  by (auto simp: free_in_def test_unmark)

lemma card_free_mark:
  assumes "finite A" "\<And>j. j \<in> A \<Longrightarrow> valid s j" "i \<in> A" "\<not> test s i"
  shows "Suc (card (free_in (mark s i) A)) = card (free_in s A)"
proof -
  have "i \<in> free_in s A" using assms by (simp add: free_in_def)
  moreover have "finite (free_in s A)" using assms(1) by (simp add: free_in_def)
  moreover have "free_in (mark s i) A = free_in s A - {i}" using assms by (simp add: free_in_mark)
  ultimately show ?thesis using card_Suc_Diff1 by metis
qed

lemma card_free_unmark:
  assumes "finite A" "\<And>j. j \<in> A \<Longrightarrow> valid s j" "i \<in> A" "test s i"
  shows "card (free_in (unmark s i) A) = Suc (card (free_in s A))"
proof -
  have "i \<notin> free_in s A" using assms by (simp add: free_in_def)
  moreover have "finite (free_in s A)" using assms(1) by (simp add: free_in_def)
  moreover have "free_in (unmark s i) A = insert i (free_in s A)" using assms by (simp add: free_in_unmark)
  ultimately show ?thesis by simp
qed

end

end
