(* ===== verification/Heap.thy ===== *)
theory Heap
  imports Slab Bitmap
begin

text \<open>
  The kernel heap of \<^verbatim>\<open>memory/heap.rs\<close>: an arena of 1024 pages with a page bitmap, per-page ownership
  and slab metadata. Small requests are served from slab pages, large ones from runs of pages with
  a header. The page bitmap implements the bitmap interface, and the search for a run of pages is
  shown to find one whenever there is one.
\<close>

unbundle bit_operations_syntax

section \<open>State\<close>

definition HEAP_SIZE :: usize where "HEAP_SIZE = 4 * 1024 * 1024"
definition HEAP_PAGE_COUNT :: usize where "HEAP_PAGE_COUNT = HEAP_SIZE div SLAB_PAGE_SIZE"
definition PAGE_KIND_FREE :: u8 where "PAGE_KIND_FREE = 0"
definition PAGE_KIND_SLAB :: u8 where "PAGE_KIND_SLAB = 1"
definition PAGE_KIND_LARGE :: u8 where "PAGE_KIND_LARGE = 2"
definition LARGE_MAGIC :: u32 where "LARGE_MAGIC = 0x4E414655"

record HeapState =
  heap_initialized :: bool
  page_bitmap :: "u8 list"
  page_kind :: "u8 list"
  page_head :: "u16 list"
  slabs :: "SlabPage list"

definition HeapState_new :: HeapState where
  "HeapState_new = \<lparr>heap_initialized = False,
     page_bitmap = replicate (unat (HEAP_PAGE_COUNT div 8)) 0,
     page_kind = replicate (unat HEAP_PAGE_COUNT) PAGE_KIND_FREE,
     page_head = replicate (unat HEAP_PAGE_COUNT) 0xFFFF,
     slabs = replicate (unat HEAP_PAGE_COUNT) SlabPage_empty\<rparr>"

text \<open>The loops of \<^verbatim>\<open>reset\<close> overwrite every element of the arrays.\<close>

definition heap_reset :: "HeapState \<Rightarrow> HeapState" where
  "heap_reset st =
     (let st = fold (\<lambda>i st. st\<lparr>page_bitmap := (page_bitmap st)[unat i := 0]\<rparr>) (range_w 0 (HEAP_PAGE_COUNT div 8)) st;
          st = fold (\<lambda>i st. st\<lparr>page_kind := (page_kind st)[unat i := PAGE_KIND_FREE],
                              page_head := (page_head st)[unat i := 0xFFFF],
                              slabs := (slabs st)[unat i := SlabPage_empty]\<rparr>) (range_w 0 HEAP_PAGE_COUNT) st
      in st\<lparr>heap_initialized := True\<rparr>)"

text \<open>
  The arena is a static array; its address \<open>arena\<close> is chosen by the linker and is a parameter of
  the model.
\<close>

definition align_up :: "usize \<Rightarrow> usize \<Rightarrow> usize" where
  "align_up v align = (v + align - 1) AND NOT (align - 1)"

definition is_page_used :: "HeapState \<Rightarrow> usize \<Rightarrow> bool" where
  "is_page_used st page \<longleftrightarrow> page_bitmap st ! unat (page div 8) AND push_bit (unat (page mod 8)) 1 \<noteq> 0"

definition set_page_used :: "HeapState \<Rightarrow> usize \<Rightarrow> bool \<Rightarrow> HeapState" where
  "set_page_used st page used =
     (let byte = unat (page div 8); b = unat (page mod 8)
      in if used
         then st\<lparr>page_bitmap := (page_bitmap st)[byte := page_bitmap st ! byte OR push_bit b 1]\<rparr>
         else st\<lparr>page_bitmap := (page_bitmap st)[byte := page_bitmap st ! byte AND NOT (push_bit b 1)]\<rparr>)"

definition page_kind_get :: "HeapState \<Rightarrow> usize \<Rightarrow> u8" where
  "page_kind_get st page = page_kind st ! unat page"

definition page_kind_set :: "HeapState \<Rightarrow> usize \<Rightarrow> u8 \<Rightarrow> HeapState" where
  "page_kind_set st page kind = st\<lparr>page_kind := (page_kind st)[unat page := kind]\<rparr>"

definition page_head_get :: "HeapState \<Rightarrow> usize \<Rightarrow> u16" where
  "page_head_get st page = page_head st ! unat page"

definition page_head_set :: "HeapState \<Rightarrow> usize \<Rightarrow> u16 \<Rightarrow> HeapState" where
  "page_head_set st page head = st\<lparr>page_head := (page_head st)[unat page := head]\<rparr>"

definition slab_get :: "HeapState \<Rightarrow> usize \<Rightarrow> SlabPage" where
  "slab_get st page = slabs st ! unat page"

definition slab_set :: "HeapState \<Rightarrow> usize \<Rightarrow> SlabPage \<Rightarrow> HeapState" where
  "slab_set st page slab = st\<lparr>slabs := (slabs st)[unat page := slab]\<rparr>"

definition page_ptr :: "u64 \<Rightarrow> usize \<Rightarrow> u64" where
  "page_ptr arena page_index = arena + page_index * SLAB_PAGE_SIZE"

section \<open>Runs of pages\<close>

text \<open>The scan for \<open>cnt\<close> free pages in a row; its state is the start and the length of the current run.\<close>

function run_scan :: "HeapState \<Rightarrow> usize \<Rightarrow> usize \<Rightarrow> usize \<Rightarrow> usize \<Rightarrow> usize option" where
  "run_scan st cnt page run_start run_len =
     (if page < HEAP_PAGE_COUNT then
        if \<not> is_page_used st page then
          let run_start = (if run_len = 0 then page else run_start);
              run_len = run_len + 1
          in if run_len = cnt then Some run_start else run_scan st cnt (page + 1) run_start run_len
        else run_scan st cnt (page + 1) run_start 0
      else None)"
  by pat_completeness auto
termination
  by (relation "measure (\<lambda>(st, cnt, page, run_start, run_len). unat HEAP_PAGE_COUNT - unat page)")
    (auto simp: diff_unat_less)

declare run_scan.simps [simp del]

definition alloc_contiguous_pages :: "HeapState \<Rightarrow> usize \<Rightarrow> usize option \<times> HeapState" where
  "alloc_contiguous_pages st cnt =
     (if cnt = 0 \<or> cnt > HEAP_PAGE_COUNT then (None, st)
      else case run_scan st cnt 0 0 0 of
        None \<Rightarrow> (None, st)
      | Some run_start \<Rightarrow>
          (Some run_start, fold (\<lambda>i st. set_page_used st (run_start + i) True) (range_w 0 cnt) st))"

definition free_page :: "usize \<Rightarrow> HeapState \<Rightarrow> HeapState" where
  "free_page page st =
     slab_set (page_head_set (page_kind_set (set_page_used st page False) page PAGE_KIND_FREE) page 0xFFFF)
       page SlabPage_empty"

definition free_contiguous_pages :: "HeapState \<Rightarrow> usize \<Rightarrow> usize \<Rightarrow> HeapState" where
  "free_contiguous_pages st start cnt =
     fold (\<lambda>i st. free_page (start + i) st)
       (takeWhile (\<lambda>i. start + i < HEAP_PAGE_COUNT) (range_w 0 cnt)) st"

section \<open>Allocation\<close>

text \<open>A call returns, panics, or spins on the lock.\<close>

datatype 'a outcome = Returns 'a | Panics | Spins

primrec small_scan :: "u64 \<Rightarrow> usize \<Rightarrow> memory \<Rightarrow> HeapState \<Rightarrow> usize list \<Rightarrow> u64 option \<times> HeapState" where
  "small_scan arena index m st [] = (None, st)"
| "small_scan arena index m st (page # pages) =
     (if page_kind_get st page = PAGE_KIND_SLAB then
        let slab = slab_get st page
        in if active slab \<and> ucast (class_index slab) = index \<and> has_free_objects slab then
             let (p, slab') = alloc_from_slab (page_ptr arena page) m slab;
                 st' = slab_set st page slab'
             in if p \<noteq> 0 then (Some p, st') else small_scan arena index m st' pages
           else small_scan arena index m st pages
      else small_scan arena index m st pages)"

definition alloc_small :: "u64 \<Rightarrow> memory \<Rightarrow> HeapState \<Rightarrow> usize \<Rightarrow> usize \<Rightarrow> (u64 \<times> HeapState \<times> memory) outcome" where
  "alloc_small arena m st bytes align =
     (case class_index_for bytes align of
        None \<Rightarrow> Returns (0, st, m)
      | Some index \<Rightarrow>
          (case small_scan arena index m st (range_w 0 HEAP_PAGE_COUNT) of
             (Some p, st') \<Rightarrow> Returns (p, st', m)
           | (None, st) \<Rightarrow>
               (case alloc_contiguous_pages st 1 of
                  (None, st) \<Rightarrow> Returns (0, st, m)
                | (Some new_page, st) \<Rightarrow>
                    let st = page_kind_set st new_page PAGE_KIND_SLAB;
                        st = page_head_set st new_page (ucast new_page)
                    in case init_slab_page (page_ptr arena new_page) index m (slab_get st new_page) of
                         None \<Rightarrow> Panics
                       | Some (slab, m) \<Rightarrow>
                           let (p, slab) = alloc_from_slab (page_ptr arena new_page) m slab
                           in Returns (p, slab_set st new_page slab, m))))"

definition LargeAllocHeader_size :: usize where "LargeAllocHeader_size = 8"

definition write_header :: "memory \<Rightarrow> u64 \<Rightarrow> u32 \<Rightarrow> u16 \<Rightarrow> memory" where
  "write_header m base magic pages =
     write_u16 (write_u16 (write_u32 m base magic) (base + 4) pages) (base + 6) 0"

definition alloc_large :: "u64 \<Rightarrow> memory \<Rightarrow> HeapState \<Rightarrow> usize \<Rightarrow> usize \<Rightarrow> u64 \<times> HeapState \<times> memory" where
  "alloc_large arena m st bytes align =
     (let bytes_needed = saturating_add (saturating_add bytes align) LargeAllocHeader_size;
          pages = (bytes_needed + SLAB_PAGE_SIZE - 1) div SLAB_PAGE_SIZE
      in if pages = 0 \<or> pages > 0xFFFF then (0, st, m)
         else case alloc_contiguous_pages st pages of
           (None, st) \<Rightarrow> (0, st, m)
         | (Some head_page, st) \<Rightarrow>
             let base_ptr = page_ptr arena head_page;
                 st = fold (\<lambda>i st. page_head_set (page_kind_set st (head_page + i) PAGE_KIND_LARGE)
                              (head_page + i) (ucast head_page)) (range_w 0 pages) st;
                 m = write_header m base_ptr LARGE_MAGIC (ucast pages);
                 raw = base_ptr + LargeAllocHeader_size;
                 aligned = align_up raw (max align 1)
             in (aligned, st, m))"

definition alloc_inner :: "u64 \<Rightarrow> memory \<Rightarrow> HeapState \<Rightarrow> usize \<Rightarrow> usize \<Rightarrow> (u64 \<times> HeapState \<times> memory) outcome" where
  "alloc_inner arena m st bytes align =
     (if bytes = 0 then Returns (0, st, m)
      else if class_index_for bytes align \<noteq> None then
        (case alloc_small arena m st bytes align of
           Returns (p, st', m') \<Rightarrow>
             if p \<noteq> 0 then Returns (p, st', m') else Returns (alloc_large arena m' st' bytes align)
         | Panics \<Rightarrow> Panics
         | Spins \<Rightarrow> Spins)
      else Returns (alloc_large arena m st bytes align))"

section \<open>Release\<close>

definition free_inner :: "u64 \<Rightarrow> memory \<Rightarrow> HeapState \<Rightarrow> u64 \<Rightarrow> HeapState \<times> memory" where
  "free_inner arena m st p =
     (if p = 0 then (st, m)
      else
        let base = arena; heap_end = base + HEAP_SIZE
        in if p < base \<or> p \<ge> heap_end then (st, m)
           else
             let page = (p - base) div SLAB_PAGE_SIZE
             in if page \<ge> HEAP_PAGE_COUNT then (st, m)
                else
                  let kind = page_kind_get st page
                  in if kind = PAGE_KIND_SLAB then
                       let head_page = ucast (page_head_get st page) :: usize
                       in if head_page \<ge> HEAP_PAGE_COUNT then (st, m)
                          else
                            let (ok, slab, m') = free_to_slab (page_ptr arena head_page) m (slab_get st head_page) p;
                                st = slab_set st head_page slab
                            in if \<not> ok then (st, m')
                               else if slab_is_empty slab
                               then (free_contiguous_pages st head_page 1, m')
                               else (st, m')
                     else if kind = PAGE_KIND_LARGE then
                       let head_page = ucast (page_head_get st page) :: usize
                       in if head_page \<ge> HEAP_PAGE_COUNT then (st, m)
                          else
                            let header = page_ptr arena head_page
                            in if read_u32 m header \<noteq> LARGE_MAGIC then (st, m)
                               else
                                 let pages = ucast (read_u16 m (header + 4)) :: usize
                                 in (free_contiguous_pages st head_page pages, m)
                     else (st, m))"

section \<open>The global heap\<close>

record heap_machine = machine +
  HEAP_STATE :: HeapState
  HEAP_LOCK :: bool
  HEAP_READY :: bool

text \<open>
  \<^verbatim>\<open>HEAP_LOCK.lock()\<close> spins while the lock is held; on one processor nobody else can release it, so
  taking it while it is held never returns. The guard releases it at the end of the function.
\<close>

definition with_heap_lock ::
    "('a heap_machine_scheme \<Rightarrow> ('r \<times> 'a heap_machine_scheme) outcome) \<Rightarrow>
     'a heap_machine_scheme \<Rightarrow> ('r \<times> 'a heap_machine_scheme) outcome" where
  "with_heap_lock body s =
     (if HEAP_LOCK s then Spins
      else case body (s\<lparr>HEAP_LOCK := True\<rparr>) of
        Returns (r, s') \<Rightarrow> Returns (r, s'\<lparr>HEAP_LOCK := False\<rparr>)
      | Panics \<Rightarrow> Panics
      | Spins \<Rightarrow> Spins)"

definition heap_init :: "'a heap_machine_scheme \<Rightarrow> ((string, unit) result \<times> 'a heap_machine_scheme) outcome" where
  "heap_init s =
     with_heap_lock (\<lambda>s. Returns (Ok (), s\<lparr>HEAP_STATE := heap_reset (HEAP_STATE s), HEAP_READY := True\<rparr>)) s"

definition heap_is_initialized :: "'a heap_machine_scheme \<Rightarrow> bool" where
  "heap_is_initialized s = HEAP_READY s"

text \<open>The layout of the standard library: a size and a power-of-two alignment that fit together.\<close>

record Layout =
  layout_size :: usize
  layout_align :: usize

definition is_power_of_two :: "usize \<Rightarrow> bool" where
  "is_power_of_two n \<longleftrightarrow> n \<noteq> 0 \<and> n AND (n - 1) = 0"

definition Layout_from_size_align :: "usize \<Rightarrow> usize \<Rightarrow> (unit, Layout) result" where
  "Layout_from_size_align bytes align =
     (if \<not> is_power_of_two align then Err ()
      else if bytes > 0x7FFFFFFFFFFFFFFF - (align - 1) then Err ()
      else Ok \<lparr>layout_size = bytes, layout_align = align\<rparr>)"

definition heap_alloc :: "u64 \<Rightarrow> Layout \<Rightarrow> 'a heap_machine_scheme \<Rightarrow> (u64 \<times> 'a heap_machine_scheme) outcome" where
  "heap_alloc arena layout s =
     (if \<not> heap_is_initialized s then Returns (0, s)
      else with_heap_lock (\<lambda>s.
        case alloc_inner arena (mem s) (HEAP_STATE s) (layout_size layout) (layout_align layout) of
          Returns (p, st, m) \<Rightarrow> Returns (p, s\<lparr>HEAP_STATE := st, mem := m\<rparr>)
        | Panics \<Rightarrow> Panics
        | Spins \<Rightarrow> Spins) s)"

definition heap_dealloc :: "u64 \<Rightarrow> u64 \<Rightarrow> 'a heap_machine_scheme \<Rightarrow> (unit \<times> 'a heap_machine_scheme) outcome" where
  "heap_dealloc arena p s =
     (if \<not> heap_is_initialized s then Returns ((), s)
      else with_heap_lock (\<lambda>s.
        case free_inner arena (mem s) (HEAP_STATE s) p of
          (st, m) \<Rightarrow> Returns ((), s\<lparr>HEAP_STATE := st, mem := m\<rparr>)) s)"

definition heap_init_c :: "'a heap_machine_scheme \<Rightarrow> (32 word \<times> 'a heap_machine_scheme) outcome" where
  "heap_init_c s =
     (case heap_init s of
        Returns (Ok u, s') \<Rightarrow> Returns (0, s')
      | Returns (Err e, s') \<Rightarrow> Returns (- 1, s')
      | Panics \<Rightarrow> Panics
      | Spins \<Rightarrow> Spins)"

definition heap_is_initialized_c :: "'a heap_machine_scheme \<Rightarrow> u8" where
  "heap_is_initialized_c s = (if heap_is_initialized s then 1 else 0)"

definition heap_alloc_c :: "u64 \<Rightarrow> usize \<Rightarrow> usize \<Rightarrow> 'a heap_machine_scheme \<Rightarrow> (u64 \<times> 'a heap_machine_scheme) outcome" where
  "heap_alloc_c arena bytes align s =
     (let safe_align = max align 1
      in case Layout_from_size_align bytes safe_align of
           Ok l \<Rightarrow> heap_alloc arena l s
         | Err u \<Rightarrow> Returns (0, s))"

definition heap_dealloc_c :: "u64 \<Rightarrow> u64 \<Rightarrow> 'a heap_machine_scheme \<Rightarrow> (unit \<times> 'a heap_machine_scheme) outcome" where
  "heap_dealloc_c arena p s = heap_dealloc arena p s"

section \<open>The page bitmap\<close>

lemma page_count [simp]: "HEAP_PAGE_COUNT = 1024"
  by (simp add: HEAP_PAGE_COUNT_def HEAP_SIZE_def SLAB_PAGE_SIZE_def)

definition heap_dims :: "HeapState \<Rightarrow> bool" where
  "heap_dims st \<longleftrightarrow> length (page_bitmap st) = 128 \<and> length (page_kind st) = 1024
     \<and> length (page_head st) = 1024 \<and> length (slabs st) = 1024"

lemma is_page_used_bit: "is_page_used st p \<longleftrightarrow> bit (page_bitmap st ! unat (p div 8)) (unat (p mod 8))"
  by (simp add: is_page_used_def)

lemma page_used_set:
  assumes "unat (p div 8) < length (page_bitmap st)" "unat (q div 8) < length (page_bitmap st)"
  shows "is_page_used (set_page_used st p True) q \<longleftrightarrow> q = p \<or> is_page_used st q"
    "is_page_used (set_page_used st p False) q \<longleftrightarrow> q \<noteq> p \<and> is_page_used st q"
proof -
  show "is_page_used (set_page_used st p True) q \<longleftrightarrow> q = p \<or> is_page_used st q"
  proof (cases "q div 8 = p div 8")
    case True
    with assms show ?thesis
      by (simp add: is_page_used_bit set_page_used_def Let_def bit_set_bit_u8 unat_mod_8_less same_bit_iff)
  next
    case False
    then have "unat (q div 8) \<noteq> unat (p div 8)" "q \<noteq> p" by (simp add: word_unat_eq_iff, blast)
    with assms show ?thesis by (simp add: is_page_used_bit set_page_used_def Let_def)
  qed
  show "is_page_used (set_page_used st p False) q \<longleftrightarrow> q \<noteq> p \<and> is_page_used st q"
  proof (cases "q div 8 = p div 8")
    case True
    with assms show ?thesis
      by (simp add: is_page_used_bit set_page_used_def Let_def bit_clear_bit_u8 unat_mod_8_less same_bit_iff)
  next
    case False
    then have "unat (q div 8) \<noteq> unat (p div 8)" "q \<noteq> p" by (simp add: word_unat_eq_iff, blast)
    with assms show ?thesis by (simp add: is_page_used_bit set_page_used_def Let_def)
  qed
qed

interpretation heap_pages: bit_alloc is_page_used "\<lambda>st p. set_page_used st p True" "\<lambda>st p. set_page_used st p False"
    "\<lambda>st p. unat (p div 8) < length (page_bitmap st)"
  by unfold_locales (simp_all add: page_used_set, simp_all add: set_page_used_def Let_def)

lemma set_page_used_frame [simp]:
  "page_kind (set_page_used st p u) = page_kind st" "page_head (set_page_used st p u) = page_head st"
  "slabs (set_page_used st p u) = slabs st" "length (page_bitmap (set_page_used st p u)) = length (page_bitmap st)"
  by (simp_all add: set_page_used_def Let_def)

lemma mark_pages_frame:
  "page_kind (fold (\<lambda>i st. set_page_used st (s + i) True) is st) = page_kind st"
  "page_head (fold (\<lambda>i st. set_page_used st (s + i) True) is st) = page_head st"
  "slabs (fold (\<lambda>i st. set_page_used st (s + i) True) is st) = slabs st"
  "length (page_bitmap (fold (\<lambda>i st. set_page_used st (s + i) True) is st)) = length (page_bitmap st)"
  by (induction "is" arbitrary: st) simp_all

lemma page_valid: "length (page_bitmap st) = 128 \<Longrightarrow> unat p < 1024 \<Longrightarrow> unat ((p :: u64) div 8) < length (page_bitmap st)"
  by (simp add: unat_div)

section \<open>The search for a run of pages\<close>

text \<open>\<open>cnt\<close> pages from \<open>s\<close> on lie in the arena and are all free.\<close>

definition free_pages :: "HeapState \<Rightarrow> nat \<Rightarrow> nat \<Rightarrow> bool" where
  "free_pages st s cnt \<longleftrightarrow> s + cnt \<le> 1024 \<and> (\<forall>q. s \<le> q \<and> q < s + cnt \<longrightarrow> \<not> is_page_used st (word_of_nat q))"

lemma word_of_nat_page: "q \<le> 1024 \<Longrightarrow> unat (word_of_nat q :: u64) = q"
  by (simp add: unat_of_nat)

lemma run_scan_correct:
  assumes "unat page \<le> 1024" "unat len \<le> unat page" "unat len < unat cnt"
    and "\<forall>q. unat page - unat len \<le> q \<and> q < unat page \<longrightarrow> \<not> is_page_used st (word_of_nat q)"
    and "len \<noteq> 0 \<longrightarrow> unat start = unat page - unat len"
    and "\<forall>s. free_pages st s (unat cnt) \<longrightarrow> unat page - unat len \<le> s"
  shows "case run_scan st cnt page start len of
      Some r \<Rightarrow> free_pages st (unat r) (unat cnt)
    | None \<Rightarrow> \<forall>s. \<not> free_pages st s (unat cnt)"
  using assms
proof (induction "1024 - unat page" arbitrary: page start len rule: less_induct)
  case less
  show ?case
  proof (cases "page < 1024")
    case False
    then have "\<not> free_pages st s (unat cnt)" for s
      using less.prems(1,3,6) by (auto simp: free_pages_def word_less_nat_alt)
    with False show ?thesis by (subst run_scan.simps) simp
  next
    case True
    have p1: "unat (page + 1) = Suc (unat page)" by (rule unat_add_1 [OF True])
    have pl: "unat page < 1024" using True by (simp add: word_less_nat_alt)
    have dec: "1024 - unat (page + 1) < 1024 - unat page" using p1 pl by simp
    have wp: "word_of_nat (unat page) = page" by simp
    show ?thesis
    proof (cases "is_page_used st page")
      case used: True
      have eq: "run_scan st cnt page start len = run_scan st cnt (page + 1) start 0"
        using True used by (subst run_scan.simps) simp
      have "Suc (unat page) \<le> s" if "free_pages st s (unat cnt)" for s
      proof (rule ccontr)
        assume "\<not> Suc (unat page) \<le> s"
        moreover have "unat page - unat len \<le> s" using less.prems(6) that by blast
        ultimately have "s \<le> unat page" "unat page < s + unat cnt" using less.prems(2,3) by linarith+
        then have "\<not> is_page_used st (word_of_nat (unat page))" using that unfolding free_pages_def by blast
        with used wp show False by simp
      qed
      then show ?thesis unfolding eq by (intro less.hyps [OF dec]) (use p1 pl less.prems(3) in auto)
    next
      case unused: False
      define start' where "start' = (if len = 0 then page else start)"
      have st': "unat start' = unat page - unat len" using less.prems(5) by (auto simp: start'_def)
      have l1: "unat (len + 1) = Suc (unat len)" using less.prems(2) pl by (simp add: unat_plus_if')
      have free: "\<not> is_page_used st (word_of_nat q)" if "unat page - unat len \<le> q" "q < Suc (unat page)" for q
        using that less.prems(4) unused wp by (cases "q = unat page") auto
      show ?thesis
      proof (cases "len + 1 = cnt")
        case full: True
        then have "run_scan st cnt page start len = Some start'"
          using True unused by (subst run_scan.simps) (simp add: start'_def Let_def)
        moreover have "free_pages st (unat start') (unat cnt)"
          using free st' l1 less.prems(2) pl by (auto simp: free_pages_def full [symmetric])
        ultimately show ?thesis by simp
      next
        case False
        then have eq: "run_scan st cnt page start len = run_scan st cnt (page + 1) start' (len + 1)"
          using True unused by (subst run_scan.simps) (simp add: start'_def Let_def)
        have "unat (len + 1) \<noteq> unat cnt" using False by (simp add: word_unat_eq_iff)
        then have "unat (len + 1) < unat cnt" using l1 less.prems(3) by simp
        then show ?thesis unfolding eq
          by (intro less.hyps [OF dec]) (use p1 pl l1 st' free less.prems(2,6) in auto)
      qed
    qed
  qed
qed

lemma run_scan_0:
  assumes "cnt \<noteq> 0"
  shows "case run_scan st cnt 0 0 0 of
      Some r \<Rightarrow> free_pages st (unat r) (unat cnt)
    | None \<Rightarrow> \<forall>s. \<not> free_pages st s (unat cnt)"
  by (rule run_scan_correct) (use assms in \<open>auto simp: unat_gt_0\<close>)

text \<open>Allocating a run of pages: the first free run is marked, and there is none when it fails.\<close>

lemma alloc_contiguous_pages_Some:
  assumes "alloc_contiguous_pages st cnt = (Some r, st')" "length (page_bitmap st) = 128"
  shows "free_pages st (unat r) (unat cnt)" "0 < unat cnt" "unat cnt \<le> 1024"
    "page_kind st' = page_kind st" "page_head st' = page_head st" "slabs st' = slabs st"
    "length (page_bitmap st') = length (page_bitmap st)"
    "q < 1024 \<Longrightarrow> is_page_used st' (word_of_nat q) \<longleftrightarrow>
       (unat r \<le> q \<and> q < unat r + unat cnt) \<or> is_page_used st (word_of_nat q)"
proof -
  have c: "cnt \<noteq> 0" "\<not> cnt > 1024" and r: "run_scan st cnt 0 0 0 = Some r"
    and st': "st' = fold (\<lambda>i st. set_page_used st (r + i) True) (range_w 0 cnt) st"
    using assms(1) by (auto simp: alloc_contiguous_pages_def split: if_splits option.splits)
  show "0 < unat cnt" "unat cnt \<le> 1024" using c by (auto simp: unat_gt_0 word_less_nat_alt)
  show fp: "free_pages st (unat r) (unat cnt)" using run_scan_0 [OF c(1), of st] r by simp
  show "page_kind st' = page_kind st" "page_head st' = page_head st" "slabs st' = slabs st"
    "length (page_bitmap st') = length (page_bitmap st)" by (simp_all add: st' mark_pages_frame)
  assume q: "q < 1024"
  have add: "unat (r + i) = unat r + unat i" if "i < cnt" for i
    using that fp by (simp add: free_pages_def word_less_nat_alt unat_plus_if')
  have "fold (\<lambda>i st. set_page_used st (r + i) True) is st = fold (\<lambda>p st. set_page_used st p True) (map ((+) r) is) st"
    for "is" by (induction "is" arbitrary: st) auto
  then have st'': "st' = fold (\<lambda>p st. set_page_used st p True) (map ((+) r) (range_w 0 cnt)) st"
    by (simp add: st')
  have "unat p < 1024" if "p \<in> set (map ((+) r) (range_w 0 cnt))" for p
    using that fp add by (auto simp: set_range_w_0 free_pages_def word_less_nat_alt)
  then have "is_page_used st' (word_of_nat q) \<longleftrightarrow>
      word_of_nat q \<in> set (map ((+) r) (range_w 0 cnt)) \<or> is_page_used st (word_of_nat q)"
    unfolding st'' using q assms(2) word_of_nat_page [of q]
    by (intro heap_pages.test_mark_all page_valid) auto
  moreover have "set (map ((+) r) (range_w 0 cnt)) = (+) r ` {i. i < cnt}" by (auto simp: set_range_w_0)
  ultimately have "is_page_used st' (word_of_nat q) \<longleftrightarrow> word_of_nat q \<in> (+) r ` {i. i < cnt} \<or> is_page_used st (word_of_nat q)"
    by simp
  moreover have "word_of_nat q \<in> (+) r ` {i. i < cnt} \<longleftrightarrow> unat r \<le> q \<and> q < unat r + unat cnt"
  proof
    assume "word_of_nat q \<in> (+) r ` {i. i < cnt}"
    then obtain i where "i < cnt" "word_of_nat q = r + i" by auto
    with add [of i] q show "unat r \<le> q \<and> q < unat r + unat cnt"
      using word_of_nat_page [of q] by (auto simp: word_less_nat_alt)
  next
    assume a: "unat r \<le> q \<and> q < unat r + unat cnt"
    have "r \<le> word_of_nat q" using a q by (simp add: word_le_nat_alt word_of_nat_page)
    then have "unat (word_of_nat q - r) = q - unat r" using q by (simp add: unat_sub word_of_nat_page)
    then have "word_of_nat q - r < cnt" using a by (simp add: word_less_nat_alt) linarith
    then show "word_of_nat q \<in> (+) r ` {i. i < cnt}" by (auto intro!: image_eqI [of _ _ "word_of_nat q - r"])
  qed
  ultimately show "is_page_used st' (word_of_nat q) \<longleftrightarrow>
       (unat r \<le> q \<and> q < unat r + unat cnt) \<or> is_page_used st (word_of_nat q)" by simp
qed

lemma alloc_contiguous_pages_None:
  assumes "alloc_contiguous_pages st cnt = (None, st')"
  shows "st' = st" "cnt \<noteq> 0 \<Longrightarrow> \<not> free_pages st s (unat cnt)"
proof -
  show "st' = st" using assms by (auto simp: alloc_contiguous_pages_def split: if_splits option.splits)
  assume "cnt \<noteq> 0"
  then show "\<not> free_pages st s (unat cnt)"
    using assms run_scan_0 [of cnt st]
    by (auto simp: alloc_contiguous_pages_def free_pages_def word_less_nat_alt split: if_splits option.splits)
qed

end
