(* ===== verification/Heap_Inv.thy ===== *)
theory Heap_Inv
  imports Heap
begin

text \<open>
  The invariant of the kernel heap and the blocks its clients hold. Each step of an allocation
  changes a set of pages and leaves the others alone: the framing lemma carries the invariant and
  the blocks of all other pages over.
\<close>

unbundle bit_operations_syntax

section \<open>The invariant of the heap\<close>

text \<open>What the linker guarantees of the arena: aligned, not at 0, not at the end of the address space.\<close>

definition arena_ok :: "u64 \<Rightarrow> bool" where
  "arena_ok arena \<longleftrightarrow> arena mod SLAB_PAGE_SIZE = 0 \<and> arena \<noteq> 0 \<and> unat arena + 4194304 < 2 ^ 64"

definition pptr :: "u64 \<Rightarrow> nat \<Rightarrow> u64" where
  "pptr arena p = page_ptr arena (word_of_nat p)"

lemma pptr_unat:
  assumes "arena_ok arena" "p \<le> 1024"
  shows "unat (pptr arena p) = unat arena + p * 4096"
proof -
  have "unat (word_of_nat p * SLAB_PAGE_SIZE :: u64) = p * 4096"
    using assms(2) by (subst unat_mult_lem [THEN iffD1]) (simp_all add: word_of_nat_page SLAB_PAGE_SIZE_def)
  then show ?thesis using assms
    by (simp add: pptr_def page_ptr_def arena_ok_def) (subst unat_add_lem [THEN iffD1], simp_all)
qed

lemma pptr_page_ok:
  assumes "arena_ok arena" "p < 1024"
  shows "page_ok (pptr arena p)"
proof -
  have u: "unat (pptr arena p) = unat arena + p * 4096" using assms by (simp add: pptr_unat)
  have "arena mod SLAB_PAGE_SIZE = 0" using assms(1) unfolding arena_ok_def by blast
  from arg_cong [OF this, of unat] have "unat arena mod 4096 = 0" by (simp add: unat_mod SLAB_PAGE_SIZE_def)
  then have "unat (pptr arena p) mod 4096 = 0" by (simp add: u)
  moreover have "unat arena \<noteq> 0" using assms(1) by (auto simp: arena_ok_def unat_0_iff)
  moreover have "unat arena + p * 4096 + 4096 < 2 ^ 64" using assms by (simp add: arena_ok_def)
  ultimately show ?thesis
    by (auto simp: page_ok_def SLAB_PAGE_SIZE_def word_unat_eq_iff unat_mod u)
qed

lemma page_ptr_pptr: "page_ptr arena p = pptr arena (unat p)"
  by (simp add: pptr_def)

text \<open>The bytes of page \<open>p\<close>; every byte of the arena is in exactly one page.\<close>

definition page_bytes :: "u64 \<Rightarrow> nat \<Rightarrow> u64 set" where
  "page_bytes arena p = {x. unat arena + p * 4096 \<le> unat x \<and> unat x < unat arena + p * 4096 + 4096}"

lemma page_bytes_iff:
  assumes "arena_ok arena" "p < 1024"
  shows "in_bytes (pptr arena p) 4096 x \<longleftrightarrow> x \<in> page_bytes arena p"
proof -
  have "unat (pptr arena p) + 4096 \<le> 2 ^ 64" using pptr_page_ok [OF assms] by (simp add: page_ok_def)
  then show ?thesis using assms by (simp add: in_bytes_nowrap pptr_unat page_bytes_def)
qed

lemma page_bytes_unique: "x \<in> page_bytes arena p \<Longrightarrow> x \<in> page_bytes arena q \<Longrightarrow> p = q"
  by (simp add: page_bytes_def)

text \<open>A large allocation: a run of pages that all point to the head page, which carries the header.\<close>

definition large_run :: "u64 \<Rightarrow> memory \<Rightarrow> HeapState \<Rightarrow> nat \<Rightarrow> nat \<Rightarrow> bool" where
  "large_run arena m st h n \<longleftrightarrow> 0 < n \<and> h + n \<le> 1024
     \<and> read_u32 m (pptr arena h) = LARGE_MAGIC \<and> unat (read_u16 m (pptr arena h + 4)) = n
     \<and> (\<forall>q. h \<le> q \<and> q < h + n \<longrightarrow> page_kind st ! q = PAGE_KIND_LARGE \<and> unat (page_head st ! q) = h)"

definition page_inv :: "u64 \<Rightarrow> memory \<Rightarrow> HeapState \<Rightarrow> nat \<Rightarrow> bool" where
  "page_inv arena m st p \<longleftrightarrow>
     (page_kind st ! p = PAGE_KIND_FREE \<and> \<not> is_page_used st (word_of_nat p))
     \<or> (page_kind st ! p = PAGE_KIND_SLAB \<and> is_page_used st (word_of_nat p)
        \<and> unat (page_head st ! p) = p \<and> slab_inv (pptr arena p) m (slabs st ! p))
     \<or> (page_kind st ! p = PAGE_KIND_LARGE \<and> is_page_used st (word_of_nat p)
        \<and> (\<exists>n. large_run arena m st (unat (page_head st ! p)) n
             \<and> unat (page_head st ! p) \<le> p \<and> p < unat (page_head st ! p) + n))"

definition heap_inv :: "u64 \<Rightarrow> memory \<Rightarrow> HeapState \<Rightarrow> bool" where
  "heap_inv arena m st \<longleftrightarrow> heap_dims st \<and> (\<forall>p<1024. page_inv arena m st p)"

text \<open>
  The blocks a client holds, as start and length: the objects in use of the slab pages, and what
  follows the header of each large run.
\<close>

definition slab_used :: "u64 \<Rightarrow> memory \<Rightarrow> SlabPage \<Rightarrow> (u64 \<times> nat) set" where
  "slab_used page m s = (\<lambda>a. (a, 2 ^ (unat (class_index s) + 4))) ` (slab_objects page s - slab_free page m s)"

definition page_blocks :: "u64 \<Rightarrow> memory \<Rightarrow> HeapState \<Rightarrow> nat \<Rightarrow> (u64 \<times> nat) set" where
  "page_blocks arena m st p =
     (if page_kind st ! p = PAGE_KIND_SLAB then slab_used (pptr arena p) m (slabs st ! p)
      else if page_kind st ! p = PAGE_KIND_LARGE \<and> unat (page_head st ! p) = p
      then {(pptr arena p + 8, unat (read_u16 m (pptr arena p + 4)) * 4096 - 8)}
      else {})"

definition heap_blocks :: "u64 \<Rightarrow> memory \<Rightarrow> HeapState \<Rightarrow> (u64 \<times> nat) set" where
  "heap_blocks arena m st = (\<Union>p<1024. page_blocks arena m st p)"

lemmas page_kinds = PAGE_KIND_FREE_def PAGE_KIND_SLAB_def PAGE_KIND_LARGE_def

section \<open>Framing\<close>

text \<open>
  Two heaps agree outside a set \<open>P\<close> of pages that does not cut through a large run: then the
  pages outside \<open>P\<close> satisfy the same invariant and hold the same blocks.
\<close>

definition agree_outside :: "u64 \<Rightarrow> nat set \<Rightarrow> memory \<Rightarrow> HeapState \<Rightarrow> memory \<Rightarrow> HeapState \<Rightarrow> bool" where
  "agree_outside arena P m st m' st' \<longleftrightarrow>
     (\<forall>q<1024. q \<notin> P \<longrightarrow> page_kind st' ! q = page_kind st ! q \<and> page_head st' ! q = page_head st ! q
        \<and> slabs st' ! q = slabs st ! q
        \<and> (is_page_used st' (word_of_nat q) \<longleftrightarrow> is_page_used st (word_of_nat q))
        \<and> (\<forall>x\<in>page_bytes arena q. m' x = m x))"

definition run_closed :: "HeapState \<Rightarrow> nat set \<Rightarrow> bool" where
  "run_closed st P \<longleftrightarrow> (\<forall>q<1024. \<forall>r<1024. q \<notin> P \<longrightarrow> page_kind st ! q = PAGE_KIND_LARGE \<longrightarrow>
      page_kind st ! r = PAGE_KIND_LARGE \<longrightarrow> page_head st ! r = page_head st ! q \<longrightarrow> r \<notin> P)"

lemma header_bytes:
  assumes "arena_ok arena" "h < 1024" "in_bytes (pptr arena h) 8 x"
  shows "x \<in> page_bytes arena h"
  using page_bytes_iff [OF assms(1,2)] in_bytes_sub [OF assms(3), of 4096] by simp

lemma in_bytes_shift: "in_bytes (a + word_of_nat k) n x \<Longrightarrow> k + n \<le> 2 ^ 63 \<Longrightarrow> in_bytes a (k + n) x"
proof -
  assume i: "in_bytes (a + word_of_nat k) n x" and le: "k + n \<le> 2 ^ 63"
  define d where "d = x - (a + word_of_nat k)"
  have d: "unat d < n" using i by (simp add: in_bytes_def d_def)
  have "unat (word_of_nat k + d :: u64) = k + unat d"
    using d le by (simp add: unat_plus_if' unat_of_nat)
  moreover have "x - a = word_of_nat k + d" by (simp add: d_def)
  ultimately show "in_bytes a (k + n) x" using d by (simp add: in_bytes_def)
qed

lemma header_same:
  assumes "arena_ok arena" "h < 1024" "\<forall>x\<in>page_bytes arena h. m' x = m x"
  shows "read_u32 m' (pptr arena h) = read_u32 m (pptr arena h)"
    "read_u16 m' (pptr arena h + 4) = read_u16 m (pptr arena h + 4)"
proof -
  have eq: "m' x = m x" if "in_bytes (pptr arena h) 8 x" for x
    using header_bytes [OF assms(1,2) that] assms(3) by blast
  show "read_u32 m' (pptr arena h) = read_u32 m (pptr arena h)"
    by (rule read_u32_cong) (rule eq, erule in_bytes_sub, simp)
  show "read_u16 m' (pptr arena h + 4) = read_u16 m (pptr arena h + 4)"
    by (rule read_u16_cong) (rule eq, use in_bytes_shift [of "pptr arena h" 4 2] in_bytes_sub [of _ 6 _ 8] in auto)
qed

lemma slab_same:
  assumes "page_ok page" "slab_inv page m s" "\<forall>x. in_bytes page 4096 x \<longrightarrow> m' x = m x"
  shows "slab_inv page m' s" "slab_free_list page m' s = slab_free_list page m s"
proof -
  have ok: "slab_ok page m s (slab_free_list page m s)" using assms(2) by (simp add: slab_inv_def)
  have "slab_ok page m' s (slab_free_list page m s)"
  proof (rule slab_ok_frame [OF assms(1) ok])
    fix x i assume i: "i \<in> set (slab_free_list page m s)" "in_bytes (obj_addr page (class_index s) i) 2 x"
    then have "unat i < 2 ^ (8 - unat (class_index s))" "unat (class_index s) < 8"
      using ok by (auto simp: slab_ok_def word_less_nat_alt)
    then have "in_bytes page 4096 x"
      using obj_in_page [OF assms(1)] in_bytes_sub [OF i(2) obj_ge_2] by blast
    then show "m' x = m x" using assms(3) by blast
  qed
  then show "slab_inv page m' s" "slab_free_list page m' s = slab_free_list page m s"
    using slab_ok_inv slab_ok_list by blast+
qed

lemma agree_page:
  assumes ar: "arena_ok arena" and inv: "page_inv arena m st q" and q: "q < 1024" "q \<notin> P"
    and ag: "agree_outside arena P m st m' st'" and cl: "run_closed st P"
  shows "page_inv arena m' st' q" "page_blocks arena m' st' q = page_blocks arena m st q"
proof -
  have same: "page_kind st' ! r = page_kind st ! r" "page_head st' ! r = page_head st ! r" "slabs st' ! r = slabs st ! r"
    "is_page_used st' (word_of_nat r) \<longleftrightarrow> is_page_used st (word_of_nat r)" "\<forall>x\<in>page_bytes arena r. m' x = m x"
    if "r < 1024" "r \<notin> P" for r
    using ag that by (auto simp: agree_outside_def)
  note sq = same [OF q]
  have slab: "slab_inv (pptr arena q) m' (slabs st ! q) \<and>
      slab_free_list (pptr arena q) m' (slabs st ! q) = slab_free_list (pptr arena q) m (slabs st ! q)"
    if "slab_inv (pptr arena q) m (slabs st ! q)"
    using slab_same [OF pptr_page_ok [OF ar q(1)] that] sq(5) page_bytes_iff [OF ar q(1)] by blast
  have run: "large_run arena m' st' h n \<and> h \<notin> P" if r: "large_run arena m st h n" "h \<le> q" "q < h + n" for h n
  proof -
    have hq: "page_kind st ! r = PAGE_KIND_LARGE" "unat (page_head st ! r) = h" "r < 1024" if "h \<le> r" "r < h + n" for r
      using r(1) that by (auto simp: large_run_def)
    have out: "r \<notin> P" if "h \<le> r" "r < h + n" for r
    proof -
      have "page_head st ! r = page_head st ! q" using hq [OF that] hq [OF r(2,3)] by (simp add: word_unat_eq_iff)
      then show ?thesis using cl q hq [OF that] hq [OF r(2,3)] unfolding run_closed_def by blast
    qed
    have n0: "0 < n" using r(2,3) by linarith
    have h: "h < 1024" "h \<notin> P" using out [of h] hq(3) [of h] n0 by auto
    note hd = header_same [OF ar h(1) same(5) [OF h]]
    show ?thesis using r(1) h(2) out hq(3) same(1,2) by (auto simp: large_run_def hd)
  qed
  show "page_inv arena m' st' q"
    using inv slab run unfolding page_inv_def sq(1-4) by blast
  show "page_blocks arena m' st' q = page_blocks arena m st q"
  proof (cases "page_kind st ! q = PAGE_KIND_SLAB")
    case True
    then have "slab_inv (pptr arena q) m (slabs st ! q)" using inv by (auto simp: page_inv_def page_kinds)
    with slab True show ?thesis by (simp add: page_blocks_def sq slab_used_def slab_free_def)
  next
    case False
    then show ?thesis using header_same(2) [OF ar q(1) sq(5)] by (simp add: page_blocks_def sq)
  qed
qed

lemma heap_blocks_split:
  assumes "P \<subseteq> {..<1024}"
  shows "heap_blocks arena m st = (\<Union>p\<in>P. page_blocks arena m st p) \<union> (\<Union>p\<in>{..<1024} - P. page_blocks arena m st p)"
  using assms by (auto simp: heap_blocks_def)

text \<open>The step that every operation takes: new pages in \<open>P\<close>, the rest unchanged.\<close>

lemma heap_step:
  assumes ar: "arena_ok arena" and inv: "heap_inv arena m st" and dims: "heap_dims st'"
    and P: "P \<subseteq> {..<1024}" and ag: "agree_outside arena P m st m' st'" and cl: "run_closed st P"
    and new: "\<And>p. p \<in> P \<Longrightarrow> page_inv arena m' st' p"
  shows "heap_inv arena m' st'"
    "heap_blocks arena m' st' = (\<Union>p\<in>P. page_blocks arena m' st' p) \<union> (\<Union>p\<in>{..<1024} - P. page_blocks arena m st p)"
proof -
  have pi: "page_inv arena m st q" if "q < 1024" for q using inv that by (simp add: heap_inv_def)
  show "heap_inv arena m' st'"
    unfolding heap_inv_def
    using dims new agree_page(1) [OF ar pi _ _ ag cl] by blast
  have "(\<Union>p\<in>{..<1024} - P. page_blocks arena m' st' p) = (\<Union>p\<in>{..<1024} - P. page_blocks arena m st p)"
    using agree_page(2) [OF ar pi _ _ ag cl] by auto
  then show "heap_blocks arena m' st' = (\<Union>p\<in>P. page_blocks arena m' st' p) \<union> (\<Union>p\<in>{..<1024} - P. page_blocks arena m st p)"
    by (simp add: heap_blocks_split [OF P])
qed

section \<open>Allocation from slab pages\<close>

lemma has_free_iff: "slab_inv page m s \<Longrightarrow> has_free_objects s \<longleftrightarrow> slab_free page m s \<noteq> {}"
proof -
  assume inv: "slab_inv page m s"
  then have ok: "slab_ok page m s (slab_free_list page m s)" by (simp add: slab_inv_def)
  show ?thesis
  proof (cases "slab_free_list page m s")
    case Nil
    with ok show ?thesis by (auto simp: has_free_objects_def slab_free_def slab_ok_def)
  next
    case (Cons i fl)
    with ok have "free_head s = i" "i < capacity s" "unat (capacity s) = 2 ^ (8 - unat (class_index s))" "active s"
      by (auto simp: slab_ok_def)
    with not_end [OF capacity_le] Cons show ?thesis by (auto simp: has_free_objects_def slab_free_def)
  qed
qed

lemma heap_inv_slab:
  assumes "heap_inv arena m st" "q < 1024" "page_kind st ! q = PAGE_KIND_SLAB"
  shows "is_page_used st (word_of_nat q)" "unat (page_head st ! q) = q" "slab_inv (pptr arena q) m (slabs st ! q)"
proof -
  have "page_inv arena m st q" using assms(1,2) by (simp add: heap_inv_def)
  with assms(3) show "is_page_used st (word_of_nat q)" "unat (page_head st ! q) = q"
    "slab_inv (pptr arena q) m (slabs st ! q)" by (auto simp: page_inv_def page_kinds)
qed

lemma small_scan_cases:
  assumes ar: "arena_ok arena" and inv: "heap_inv arena m st"
    and r: "small_scan arena index m st pages = (res, st')" "\<forall>q\<in>set pages. unat q < 1024"
  shows "(res = None \<and> st' = st) \<or>
    (\<exists>p q slab'. res = Some p \<and> q < 1024 \<and> page_kind st ! q = PAGE_KIND_SLAB \<and> ucast (class_index (slabs st ! q)) = index
     \<and> slab_free (pptr arena q) m (slabs st ! q) \<noteq> {}
     \<and> alloc_from_slab (pptr arena q) m (slabs st ! q) = (p, slab') \<and> st' = slab_set st (word_of_nat q) slab')"
  using r
proof (induction pages)
  case (Cons page pages)
  let ?q = "unat page"
  show ?case
  proof (cases "page_kind st ! ?q = PAGE_KIND_SLAB \<and> active (slabs st ! ?q)
      \<and> ucast (class_index (slabs st ! ?q)) = index \<and> has_free_objects (slabs st ! ?q)")
    case True
    have q: "?q < 1024" using Cons.prems(2) by simp
    have si: "slab_inv (pptr arena ?q) m (slabs st ! ?q)" using heap_inv_slab(3) [OF inv q] True by simp
    then have ne: "slab_free (pptr arena ?q) m (slabs st ! ?q) \<noteq> {}" using has_free_iff True by blast
    obtain a slab' where a: "alloc_from_slab (pptr arena ?q) m (slabs st ! ?q) = (a, slab')"
      by (cases "alloc_from_slab (pptr arena ?q) m (slabs st ! ?q)")
    have "a \<noteq> 0" using slab_alloc_contract [OF pptr_page_ok [OF ar q] si ne a] by simp
    with a True Cons.prems(1) have "res = Some a" "st' = slab_set st page slab'"
      by (auto simp: page_kind_get_def slab_get_def page_ptr_pptr Let_def)
    with q True ne a show ?thesis by (intro disjI2 exI [of _ a] exI [of _ ?q] exI [of _ slab']) simp
  next
    case False
    then have "small_scan arena index m st (page # pages) = small_scan arena index m st pages"
      by (auto simp: page_kind_get_def slab_get_def Let_def)
    with Cons show ?thesis by simp
  qed
qed simp

lemma slab_set_frame [simp]:
  "page_kind (slab_set st p s) = page_kind st" "page_head (slab_set st p s) = page_head st"
  "is_page_used (slab_set st p s) q = is_page_used st q" "heap_dims (slab_set st p s) = heap_dims st"
  "slabs (slab_set st p s) = (slabs st)[unat p := s]"
  by (simp_all add: slab_set_def is_page_used_def heap_dims_def)

text \<open>What an allocation adds: one block, with room for the request at the pointer returned.\<close>

definition adds_block :: "u64 \<Rightarrow> memory \<Rightarrow> HeapState \<Rightarrow> memory \<Rightarrow> HeapState \<Rightarrow> u64 \<Rightarrow> nat \<Rightarrow> bool" where
  "adds_block arena m st m' st' a n \<longleftrightarrow>
     heap_inv arena m' st' \<and> (a, n) \<notin> heap_blocks arena m st
     \<and> heap_blocks arena m' st' = insert (a, n) (heap_blocks arena m st)
     \<and> (\<forall>q<1024. page_kind st ! q \<noteq> PAGE_KIND_FREE \<longrightarrow> (\<forall>x\<in>page_bytes arena q. m' x = m x))"

lemma slab_block_in_page:
  assumes ar: "arena_ok arena" and q: "q < 1024" and si: "slab_inv (pptr arena q) m s"
    and b: "(a, n) \<in> slab_used (pptr arena q) m s" and x: "in_bytes a n x"
  shows "x \<in> page_bytes arena q"
proof -
  obtain i where i: "i < capacity s" "a = obj_addr (pptr arena q) (class_index s) i" "n = 2 ^ (unat (class_index s) + 4)"
    using b by (auto simp: slab_used_def slab_objects_def)
  have "unat i < 2 ^ (8 - unat (class_index s))" "unat (class_index s) < 8"
    using si i(1) by (auto simp: slab_inv_def slab_ok_def word_less_nat_alt)
  then have "in_bytes (pptr arena q) 4096 x" using obj_in_page [OF pptr_page_ok [OF ar q]] x i by blast
  then show ?thesis by (simp add: page_bytes_iff [OF ar q])
qed

lemma page_blocks_bytes:
  assumes ar: "arena_ok arena" and inv: "heap_inv arena m st" and q: "q < 1024"
    and b: "(a, n) \<in> page_blocks arena m st q" and x: "in_bytes a n x"
  shows "\<exists>r<1024. x \<in> page_bytes arena r \<and> page_kind st ! r \<noteq> PAGE_KIND_FREE
     \<and> (if page_kind st ! q = PAGE_KIND_SLAB then r = q
        else page_kind st ! r = PAGE_KIND_LARGE \<and> unat (page_head st ! r) = q)"
proof (cases "page_kind st ! q = PAGE_KIND_SLAB")
  case True
  have "(a, n) \<in> slab_used (pptr arena q) m (slabs st ! q)" using b True by (simp add: page_blocks_def)
  from slab_block_in_page [OF ar q heap_inv_slab(3) [OF inv q True] this x] True q show ?thesis
    by (auto simp: page_kinds)
next
  case False
  then have l: "page_kind st ! q = PAGE_KIND_LARGE" "unat (page_head st ! q) = q"
    and an: "a = pptr arena q + 8" "n = unat (read_u16 m (pptr arena q + 4)) * 4096 - 8"
    using b by (auto simp: page_blocks_def split: if_splits)
  have "page_inv arena m st q" using inv q by (simp add: heap_inv_def)
  then obtain k where k: "large_run arena m st q k" using l by (auto simp: page_inv_def page_kinds)
  then have kn: "n = k * 4096 - 8" "0 < k" "q + k \<le> 1024" using an by (auto simp: large_run_def)
  have ba: "unat (pptr arena q) = unat arena + q * 4096" using pptr_unat [OF ar] q by simp
  have top: "unat arena + (q + k) * 4096 < 2 ^ 64" using ar kn(3) by (simp add: arena_ok_def)
  have a8: "unat a = unat arena + q * 4096 + 8"
    using ba top kn(2) by (simp add: an(1) unat_plus_if' distrib_right)
  have "unat a + n \<le> 2 ^ 64" using a8 kn top by (simp add: distrib_right)
  with x have x1: "unat arena + q * 4096 + 8 \<le> unat x" "unat x < unat arena + (q + k) * 4096"
    using a8 kn by (auto simp: in_bytes_nowrap distrib_right)
  define r where "r = (unat x - unat arena) div 4096"
  have r1: "r * 4096 \<le> unat x - unat arena" "unat x - unat arena < r * 4096 + 4096"
    unfolding r_def using div_mult_mod_eq [of "unat x - unat arena" 4096] mod_less_divisor [of 4096 "unat x - unat arena"]
    by linarith+
  have "q * 4096 < r * 4096 + 4096" "r * 4096 < (q + k) * 4096" using r1 x1 by linarith+
  then have qr: "q \<le> r" "r < q + k" by (linarith, simp)
  then have "page_kind st ! r = PAGE_KIND_LARGE" "unat (page_head st ! r) = q" using k by (auto simp: large_run_def)
  moreover have "x \<in> page_bytes arena r" using r1 x1 by (auto simp: page_bytes_def)
  ultimately show ?thesis using qr kn(3) False by (intro exI [of _ r]) (auto simp: page_kinds)
qed

text \<open>Blocks do not overlap.\<close>

lemma blocks_disjoint:
  assumes ar: "arena_ok arena" and inv: "heap_inv arena m st"
    and b: "(a, n) \<in> heap_blocks arena m st" "(a', n') \<in> heap_blocks arena m st"
    and x: "in_bytes a n x" "in_bytes a' n' x"
  shows "(a, n) = (a', n')"
proof -
  obtain q q' where q: "q < 1024" "(a, n) \<in> page_blocks arena m st q" and q': "q' < 1024" "(a', n') \<in> page_blocks arena m st q'"
    using b by (auto simp: heap_blocks_def)
  obtain r where r: "x \<in> page_bytes arena r" "if page_kind st ! q = PAGE_KIND_SLAB then r = q
        else page_kind st ! r = PAGE_KIND_LARGE \<and> unat (page_head st ! r) = q"
    using page_blocks_bytes [OF ar inv q x(1)] by blast
  obtain r' where r': "x \<in> page_bytes arena r'" "if page_kind st ! q' = PAGE_KIND_SLAB then r' = q'
        else page_kind st ! r' = PAGE_KIND_LARGE \<and> unat (page_head st ! r') = q'"
    using page_blocks_bytes [OF ar inv q' x(2)] by blast
  have rr: "r' = r" using page_bytes_unique r(1) r'(1) by blast
  have qq: "q' = q" using r(2) r'(2) rr by (auto simp: page_kinds split: if_splits)
  show ?thesis
  proof (cases "page_kind st ! q = PAGE_KIND_SLAB")
    case True
    let ?s = "slabs st ! q"
    have si: "slab_inv (pptr arena q) m ?s" using heap_inv_slab(3) [OF inv q(1) True] .
    obtain i j where ij: "i < capacity ?s" "a = obj_addr (pptr arena q) (class_index ?s) i"
      "j < capacity ?s" "a' = obj_addr (pptr arena q) (class_index ?s) j"
      and n: "n = 2 ^ (unat (class_index ?s) + 4)" "n' = 2 ^ (unat (class_index ?s) + 4)"
      using q(2) q'(2) True by (auto simp: qq page_blocks_def slab_used_def slab_objects_def)
    have "unat i < 2 ^ (8 - unat (class_index ?s))" "unat j < 2 ^ (8 - unat (class_index ?s))" "unat (class_index ?s) < 8"
      using si ij by (auto simp: slab_inv_def slab_ok_def word_less_nat_alt)
    then have "i = j" using obj_disjoint [OF pptr_page_ok [OF ar q(1)]] x ij n by blast
    with ij n show ?thesis by simp
  next
    case False
    with q(2) q'(2) show ?thesis by (auto simp: qq page_blocks_def split: if_splits)
  qed
qed

lemma slab_used_alloc:
  assumes "page_ok page" "slab_inv page m s" "slab_free page m s \<noteq> {}" "alloc_from_slab page m s = (a, s')"
    and "class_index s' = class_index s"
  shows "slab_used page m s' = insert (a, 2 ^ (unat (class_index s) + 4)) (slab_used page m s)"
    "(a, 2 ^ (unat (class_index s) + 4)) \<notin> slab_used page m s"
proof -
  note c = slab_alloc_contract [OF assms(1-4)]
  have sub: "slab_free page m s \<subseteq> slab_objects page s"
    using slab_pool.free_objects [of page "(m, s)"] assms(1,2) by simp
  show "slab_used page m s' = insert (a, 2 ^ (unat (class_index s) + 4)) (slab_used page m s)"
    "(a, 2 ^ (unat (class_index s) + 4)) \<notin> slab_used page m s"
    using c sub assms(5) by (auto simp: slab_used_def)
qed

lemma alloc_from_slab_class: "alloc_from_slab page m s = (a, s') \<Longrightarrow> class_index s' = class_index s"
  by (auto simp: alloc_from_slab_def Let_def split: if_splits)

lemma blocks_owner:
  assumes ar: "arena_ok arena" and inv: "heap_inv arena m st" and q: "q < 1024" "page_kind st ! q = PAGE_KIND_SLAB"
    and b: "(a, n) \<in> heap_blocks arena m st" "a \<in> page_bytes arena q" "0 < n"
  shows "(a, n) \<in> page_blocks arena m st q"
proof -
  obtain q' where q': "q' < 1024" "(a, n) \<in> page_blocks arena m st q'" using b(1) by (auto simp: heap_blocks_def)
  have "in_bytes a n a" using b(3) by simp
  then obtain r where r: "a \<in> page_bytes arena r" "if page_kind st ! q' = PAGE_KIND_SLAB then r = q'
        else page_kind st ! r = PAGE_KIND_LARGE \<and> unat (page_head st ! r) = q'"
    using page_blocks_bytes [OF ar inv q'] by blast
  have "r = q" using page_bytes_unique r(1) b(2) by blast
  with r(2) q(2) have "q' = q" by (auto simp: page_kinds split: if_splits)
  with q' show ?thesis by simp
qed

text \<open>Allocation from a slab that has a free object.\<close>

lemma small_existing:
  assumes ar: "arena_ok arena" and inv: "heap_inv arena m st" and q: "q < 1024" "page_kind st ! q = PAGE_KIND_SLAB"
    and ne: "slab_free (pptr arena q) m (slabs st ! q) \<noteq> {}"
    and a: "alloc_from_slab (pptr arena q) m (slabs st ! q) = (p, slab')"
  shows "adds_block arena m st m (slab_set st (word_of_nat q) slab') p (2 ^ (unat (class_index (slabs st ! q)) + 4))"
    "p \<in> slab_objects (pptr arena q) (slabs st ! q)" "p \<noteq> 0"
proof -
  let ?s = "slabs st ! q" and ?st' = "slab_set st (word_of_nat q) slab'" and ?n = "2 ^ (unat (class_index (slabs st ! q)) + 4) :: nat"
  note sl = heap_inv_slab [OF inv q]
  note pg = pptr_page_ok [OF ar q(1)]
  note c = slab_alloc_contract [OF pg sl(3) ne a]
  note u = slab_used_alloc [OF pg sl(3) ne a alloc_from_slab_class [OF a]]
  have dims: "heap_dims st" using inv by (simp add: heap_inv_def)
  then have nq: "slabs ?st' ! r = (if r = q then slab' else slabs st ! r)" if "r < 1024" for r
    using that q by (simp add: heap_dims_def word_of_nat_page nth_list_update)
  have wq: "unat (word_of_nat q :: u64) = q" using q by (simp add: word_of_nat_page)
  have ag: "agree_outside arena {q} m st m ?st'" using nq by (simp add: agree_outside_def)
  have cl: "run_closed st {q}" using q by (auto simp: run_closed_def page_kinds)
  have new: "page_inv arena m ?st' p'" if "p' \<in> {q}" for p'
    using that q sl c nq [of q] by (simp add: page_inv_def)
  have P: "{q} \<subseteq> {..<1024}" using q by simp
  note step = heap_step [OF ar inv _ P ag cl new]
  have bq: "page_blocks arena m ?st' q = insert (p, ?n) (page_blocks arena m st q)"
    using u(1) q nq [of q] by (simp add: page_blocks_def)
  have hb: "heap_blocks arena m ?st' = insert (p, ?n) (heap_blocks arena m st)"
    using step(2) dims bq heap_blocks_split [OF P, of arena m st] by simp
  have "slab_inv (pptr arena q) m slab'" "(p, ?n) \<in> slab_used (pptr arena q) m slab'" using c u(1) by auto
  then have pb: "p \<in> page_bytes arena q" by (rule slab_block_in_page [OF ar q(1)]) simp
  have "(p, ?n) \<notin> heap_blocks arena m st"
    using blocks_owner [OF ar inv q _ pb, of ?n] u(2) q(2) by (auto simp: page_blocks_def)
  then show "adds_block arena m st m ?st' p ?n" using hb step(1) dims by (simp add: adds_block_def)
  show "p \<in> slab_objects (pptr arena q) ?s"
    using c slab_pool.free_objects [of "pptr arena q" "(m, ?s)"] pg sl(3) by auto
  show "p \<noteq> 0" using c by blast
qed

lemma fresh_slab_free:
  assumes "slab_ok page m s (map word_of_nat [0..<unat (capacity s)])"
  shows "slab_free page m s = slab_objects page s"
proof -
  have "i \<in> set (map word_of_nat [0..<unat (capacity s)])" if "i < capacity s" for i
    using that by (auto simp: word_less_nat_alt image_iff intro!: bexI [of _ "unat i"])
  moreover have "i < capacity s" if "i \<in> set (map word_of_nat [0..<unat (capacity s)])" for i
    using assms that unfolding slab_ok_def by blast
  ultimately have "set (map word_of_nat [0..<unat (capacity s)]) = {i. i < capacity s}" by blast
  then show ?thesis by (simp add: slab_ok_sets [OF assms] slab_objects_def)
qed

lemma page_set_frame [simp]:
  "page_kind (page_kind_set st p k) = (page_kind st)[unat p := k]" "page_head (page_kind_set st p k) = page_head st"
  "slabs (page_kind_set st p k) = slabs st" "is_page_used (page_kind_set st p k) q = is_page_used st q"
  "page_kind (page_head_set st p h) = page_kind st" "page_head (page_head_set st p h) = (page_head st)[unat p := h]"
  "slabs (page_head_set st p h) = slabs st" "is_page_used (page_head_set st p h) q = is_page_used st q"
  "page_bitmap (page_kind_set st p k) = page_bitmap st" "page_bitmap (page_head_set st p h) = page_bitmap st"
  "page_bitmap (slab_set st p s) = page_bitmap st"
  by (simp_all add: page_kind_set_def page_head_set_def slab_set_def is_page_used_def)

lemma free_pages_kind:
  assumes "heap_inv arena m st" "free_pages st s cnt" "s \<le> q" "q < s + cnt"
  shows "q < 1024" "page_kind st ! q = PAGE_KIND_FREE"
proof -
  show q: "q < 1024" using assms(2-4) by (simp add: free_pages_def)
  then have "page_inv arena m st q" using assms(1) by (simp add: heap_inv_def)
  moreover have "\<not> is_page_used st (word_of_nat q)" using assms(2-4) by (simp add: free_pages_def)
  ultimately show "page_kind st ! q = PAGE_KIND_FREE" by (auto simp: page_inv_def)
qed

text \<open>Allocation from a fresh slab page.\<close>

lemma small_new:
  assumes ar: "arena_ok arena" and inv: "heap_inv arena m st" and ix: "unat index < 8"
    and r: "alloc_contiguous_pages st 1 = (Some r, st1)"
    and st2: "st2 = page_head_set (page_kind_set st1 r PAGE_KIND_SLAB) r (ucast r)"
    and slab: "init_slab_page (page_ptr arena r) index m (slab_get st2 r) = Some (slab, m1)"
    and a: "alloc_from_slab (page_ptr arena r) m1 slab = (p, slab2)"
  shows "adds_block arena m st m1 (slab_set st2 r slab2) p (2 ^ (unat index + 4))"
    "p \<in> slab_objects (pptr arena (unat r)) slab" "class_index slab = ucast index" "p \<noteq> 0"
proof -
  let ?q = "unat r" and ?st' = "slab_set st2 r slab2" and ?n = "2 ^ (unat index + 4) :: nat"
  have dims: "heap_dims st" using inv by (simp add: heap_inv_def)
  then have bl: "length (page_bitmap st) = 128" by (simp add: heap_dims_def)
  note al = alloc_contiguous_pages_Some [OF r bl]
  have q: "?q < 1024" "page_kind st ! ?q = PAGE_KIND_FREE" using free_pages_kind [OF inv al(1), of ?q] by auto
  have pq: "page_ptr arena r = pptr arena ?q" by (rule page_ptr_pptr)
  note pg = pptr_page_ok [OF ar q(1)]
  obtain t m2 where t: "init_slab_page (pptr arena ?q) index m (slab_get st2 r) = Some (t, m2)" "class_index t = ucast index"
    "slab_ok (pptr arena ?q) m2 t (map word_of_nat [0..<2 ^ (8 - unat index)])"
    "\<And>x. \<not> in_bytes (pptr arena ?q) 4096 x \<Longrightarrow> m2 x = m x"
    using init_slab_page_ok [OF pg ix] by metis
  have tm: "t = slab" "m2 = m1" using t(1) slab by (auto simp: pq)
  show ci: "class_index slab = ucast index" using t(2) tm by simp
  have cu: "unat (class_index slab) = unat index" using ucast_index(1) [OF ix] by (simp add: ci)
  have ok: "slab_ok (pptr arena ?q) m1 slab (map word_of_nat [0..<unat (capacity slab)])"
    using t(3) cu unfolding tm by (simp add: slab_ok_def)
  have si: "slab_inv (pptr arena ?q) m1 slab" by (rule slab_ok_inv [OF ok])
  note fr = fresh_slab_free [OF ok]
  have "0 < capacity slab" using ok by (simp add: slab_ok_def word_less_nat_alt)
  then have ne: "slab_free (pptr arena ?q) m1 slab \<noteq> {}" by (auto simp: fr slab_objects_def)
  note a' = a [unfolded pq]
  note c = slab_alloc_contract [OF pg si ne a']
  note u = slab_used_alloc [OF pg si ne a' alloc_from_slab_class [OF a']]
  have us: "slab_used (pptr arena ?q) m1 slab2 = {(p, ?n)}" using u(1) by (simp add: slab_used_def [of _ _ slab] fr cu)
  have kinds: "page_kind ?st' = (page_kind st)[?q := PAGE_KIND_SLAB]" "page_head ?st' = (page_head st)[?q := ucast r]"
    "slabs ?st' = (slabs st)[?q := slab2]" using al(4-6) by (simp_all add: st2)
  have used: "is_page_used ?st' (word_of_nat k) \<longleftrightarrow> k = ?q \<or> is_page_used st (word_of_nat k)" if "k < 1024" for k
    using al(8) [OF that] by (auto simp: st2)
  have dims': "heap_dims ?st'" using dims kinds al(7) by (simp add: heap_dims_def st2)
  have len: "length (page_kind st) = 1024" "length (page_head st) = 1024" "length (slabs st) = 1024"
    using dims by (simp_all add: heap_dims_def)
  have mem: "m1 x = m x" if "x \<in> page_bytes arena k" "k \<noteq> ?q" for x k
  proof -
    have "x \<notin> page_bytes arena ?q" using that page_bytes_unique by blast
    then show ?thesis using t(4) [of x] page_bytes_iff [OF ar q(1)] by (simp add: tm)
  qed
  have ag: "agree_outside arena {?q} m st m1 ?st'"
    using kinds used mem by (auto simp: agree_outside_def)
  have cl: "run_closed st {?q}" using q by (auto simp: run_closed_def page_kinds)
  have "unat (ucast r :: u16) = ?q" using q(1) by (simp add: unsigned_ucast_eq take_bit_nat_eq_self)
  then have new: "page_inv arena m1 ?st' k" if "k \<in> {?q}" for k
    using that kinds used [OF q(1)] len q c by (simp add: page_inv_def)
  have P: "{?q} \<subseteq> {..<1024}" using q by simp
  note step = heap_step [OF ar inv dims' P ag cl new]
  have "page_blocks arena m st ?q = {}" using q by (simp add: page_blocks_def page_kinds)
  moreover have "page_blocks arena m1 ?st' ?q = {(p, ?n)}" using us kinds len q by (simp add: page_blocks_def)
  ultimately have hb: "heap_blocks arena m1 ?st' = insert (p, ?n) (heap_blocks arena m st)"
    using step(2) heap_blocks_split [OF P, of arena m st] by simp
  have "slab_inv (pptr arena ?q) m1 slab2" "(p, ?n) \<in> slab_used (pptr arena ?q) m1 slab2" using c us by auto
  then have pb: "p \<in> page_bytes arena ?q" by (rule slab_block_in_page [OF ar q(1)]) simp
  have "(p, ?n) \<notin> heap_blocks arena m st"
  proof
    assume "(p, ?n) \<in> heap_blocks arena m st"
    then obtain k where k: "k < 1024" "(p, ?n) \<in> page_blocks arena m st k" by (auto simp: heap_blocks_def)
    have "in_bytes p ?n p" by simp
    from page_blocks_bytes [OF ar inv k this] show False using pb q(2) page_bytes_unique by blast
  qed
  then show "adds_block arena m st m1 ?st' p ?n"
    using hb step(1) mem q(2) by (auto simp: adds_block_def)
  show "p \<in> slab_objects (pptr arena ?q) slab" using c by (simp add: fr)
  show "p \<noteq> 0" using c by blast
qed

section \<open>Large allocations\<close>

lemma large_sizes:
  assumes bn: "bn = saturating_add (saturating_add bytes align) LargeAllocHeader_size"
    and pages: "pages = (bn + SLAB_PAGE_SIZE - 1) div SLAB_PAGE_SIZE" "0 < unat pages" "unat pages \<le> 1024"
  shows "unat bytes + unat align + 8 \<le> unat pages * 4096"
proof -
  have e: "bn + SLAB_PAGE_SIZE - 1 = bn + 4095" by (simp add: SLAB_PAGE_SIZE_def)
  have nw: "unat bn + 4095 < 2 ^ 64"
  proof (rule ccontr)
    assume "\<not> unat bn + 4095 < 2 ^ 64"
    then have "unat (bn + 4095) = unat bn + 4095 - 2 ^ 64" by (simp add: unat_plus_if')
    then have "unat (bn + 4095) < 4096" using unat_bound [of bn] by simp
    then have "unat pages = 0" using pages(1) unfolding e by (simp add: unat_div SLAB_PAGE_SIZE_def)
    with pages(2) show False by simp
  qed
  then have "unat (bn + 4095) = unat bn + 4095" by (simp add: unat_plus_if')
  then have pg: "unat pages = (unat bn + 4095) div 4096" using pages(1) unfolding e by (simp add: unat_div SLAB_PAGE_SIZE_def)
  have le: "unat bn \<le> unat pages * 4096"
  proof -
    have "(unat bn + 4095) div 4096 * 4096 + (unat bn + 4095) mod 4096 = unat bn + 4095" by (rule div_mult_mod_eq)
    moreover have "(unat bn + 4095) mod 4096 < 4096" by simp
    ultimately show ?thesis unfolding pg by linarith
  qed
  have sat: "unat (saturating_add a b) = (if unat a + unat b < 2 ^ 64 then unat a + unat b else 2 ^ 64 - 1)" for a b :: u64
  proof (cases "unat a + unat b < 2 ^ 64")
    case True
    then have u: "unat (a + b) = unat a + unat b" by (simp add: unat_plus_if')
    then have "\<not> a + b < a" by (simp add: word_less_nat_alt)
    with True u show ?thesis by (simp add: saturating_add_def)
  next
    case False
    then have u: "unat (a + b) = unat a + unat b - 2 ^ 64" by (simp add: unat_plus_if')
    then have "unat (a + b) < unat a" using False unat_bound [of b] by simp
    then have "a + b < a" by (simp add: word_less_nat_alt)
    moreover have "unat (- 1 :: u64) = 2 ^ 64 - 1" by (simp add: unsigned_minus_1_eq_mask mask_eq_exp_minus_1)
    ultimately show ?thesis using False by (simp add: saturating_add_def)
  qed
  have "unat bn < 2 ^ 64 - 1" using nw by simp
  then have "unat bn = unat (saturating_add bytes align) + 8" "unat (saturating_add bytes align) < 2 ^ 64 - 9"
    unfolding bn sat LargeAllocHeader_size_def by (auto split: if_splits)
  then have "unat bn = unat bytes + unat align + 8" unfolding sat by (auto split: if_splits)
  with le show ?thesis by simp
qed

lemma power_of_two:
  assumes "is_power_of_two n"
  shows "\<exists>k<64. n = 2 ^ k \<and> unat n = 2 ^ k"
proof -
  have "n \<noteq> 0" and z: "n AND (n - 1) = 0" using assms by (auto simp: is_power_of_two_def)
  then have "0 < unat n" by (simp add: unat_gt_0)
  then obtain k where k: "2 ^ k \<le> unat n" "unat n < 2 ^ (k + 1)"
    using ex_power_ivl1 [of 2 "unat n"] by auto
  have "(2 :: nat) ^ k < 2 ^ 64" using k(1) unat_bound [of n] by (simp only: len_of_numeral_defs) simp
  then have k64: "k < 64" by (rule power_less_imp_less_exp [rotated]) simp
  have hb: "bit w k" if "2 ^ k \<le> unat w" "unat w < 2 ^ (k + 1)" for w :: u64
  proof -
    have "unat w div 2 ^ k = 1" using that by (simp add: div_nat_eqI)
    then have "odd (unat w div 2 ^ k)" by simp
    then show ?thesis by (simp add: bit_iff_odd [of "unat w", symmetric] bit_unsigned_iff) 
  qed
  have "unat n = 2 ^ k"
  proof (rule ccontr)
    assume "unat n \<noteq> 2 ^ k"
    then have "2 ^ k \<le> unat (n - 1)" "unat (n - 1) < 2 ^ (k + 1)"
      using k \<open>n \<noteq> 0\<close> by (auto simp: unat_minus_one)
    then have "bit (n AND (n - 1)) k" using hb k by (simp add: bit_and_iff)
    with z show False by simp
  qed
  moreover have "unat (2 ^ k :: u64) = 2 ^ k"
    using unat_of_nat [of "2 ^ k", where 'a = 64] \<open>(2 :: nat) ^ k < 2 ^ 64\<close> by simp
  ultimately show ?thesis using k64 by (auto simp: word_unat_eq_iff)
qed

lemma align_up_bounds:
  assumes "is_power_of_two align" "unat raw + unat align < 2 ^ 64"
  shows "unat raw \<le> unat (align_up raw align)" "unat (align_up raw align) < unat raw + unat align"
    "unat (align_up raw align) mod unat align = 0"
proof -
  obtain k where k: "k < 64" "align = 2 ^ k" "unat align = 2 ^ k" using power_of_two [OF assms(1)] by blast
  define x where "x = raw + align - 1"
  have "unat (raw + align) = unat raw + 2 ^ k" using assms(2) k by (simp add: unat_plus_if')
  moreover have "raw + align \<noteq> 0" using calculation by (metis add_is_0 power_not_zero unat_0 zero_neq_numeral)
  ultimately have x: "unat x = unat raw + 2 ^ k - 1" unfolding x_def by (simp add: unat_minus_one)
  have "align_up raw align = push_bit k (drop_bit k x)"
    unfolding align_up_def x_def k(2) mask_eq_exp_minus_1 [symmetric]
    by (rule bit_eqI) (auto simp: bit_simps)
  then have u: "unat (align_up raw align) = unat x div 2 ^ k * 2 ^ k"
  proof -
    have "unat x div 2 ^ k * 2 ^ k < 2 ^ 64" 
      using le_less_trans [OF div_times_less_eq_dividend [of "unat x" "2 ^ k"] unat_bound [of x]] by simp
    then show ?thesis unfolding \<open>align_up raw align = push_bit k (drop_bit k x)\<close>
      unfolding unsigned_push_bit_eq unat_drop_bit_eq
      by (simp add: take_bit_nat_eq_self drop_bit_eq_div push_bit_eq_mult)
  qed
  have d: "unat x div 2 ^ k * 2 ^ k + unat x mod 2 ^ k = unat x" "unat x mod 2 ^ k < 2 ^ k"
    by (simp_all add: div_mult_mod_eq)
  have p: "(1 :: nat) \<le> 2 ^ k" by simp
  show "unat raw \<le> unat (align_up raw align)" "unat (align_up raw align) < unat raw + unat align"
    using d x u p k(3) by linarith+
  show "unat (align_up raw align) mod unat align = 0" by (simp add: u k(3))
qed

text \<open>The header of a large run and the kinds of its pages.\<close>

lemma in_bytes_next:
  assumes "in_bytes a n x" "n \<le> k" "k + j \<le> 2 ^ 63"
  shows "\<not> in_bytes (a + word_of_nat k) j x"
proof -
  define d where "d = x - a"
  have d: "unat d < n" using assms(1) by (simp add: in_bytes_def d_def)
  have k: "unat (word_of_nat k :: u64) = k" using assms(3) by (simp add: unat_of_nat)
  have "x - (a + word_of_nat k) = d - word_of_nat k" by (simp add: d_def)
  moreover have "unat (d - word_of_nat k) = unat d + 2 ^ 64 - k" using d assms(2) k by (simp add: unat_sub_if')
  ultimately have "unat (x - (a + word_of_nat k)) = unat d + 2 ^ 64 - k" by metis
  then show ?thesis using assms(3) by (simp add: in_bytes_def)
qed

lemma write_header_reads:
  "read_u32 (write_header m b g n) b = g" "read_u16 (write_header m b g n) (b + 4) = n"
proof -
  let ?m1 = "write_u32 m b g" and ?m2 = "write_u16 (write_u32 m b g) (b + 4) n"
  have d: "\<not> in_bytes (b + 4) 2 x" "\<not> in_bytes (b + 6) 2 x" if "in_bytes b 4 x" for x
    using in_bytes_next [OF that, of 4 2] in_bytes_next [OF that, of 6 2] by simp_all
  have e: "\<not> in_bytes (b + 6) 2 x" if "in_bytes (b + 4) 2 x" for x
    using in_bytes_next [OF that, of 2 2] by (simp add: add.assoc)
  have "read_u32 (write_header m b g n) b = read_u32 ?m1 b"
    unfolding write_header_def by (rule read_u32_cong) (simp add: write_u16_outside d)
  then show "read_u32 (write_header m b g n) b = g" by simp
  have "read_u16 (write_header m b g n) (b + 4) = read_u16 ?m2 (b + 4)"
    unfolding write_header_def by (rule read_u16_cong) (simp add: write_u16_outside e)
  then show "read_u16 (write_header m b g n) (b + 4) = n" by simp
qed

lemma write_header_outside:
  assumes "\<not> in_bytes b 8 x"
  shows "write_header m b g n x = m x"
proof -
  have "\<not> in_bytes (b + 6) 2 x" using assms in_bytes_shift [of b 6 2 x] by auto
  moreover have "\<not> in_bytes (b + 4) 2 x" using assms in_bytes_shift [of b 4 2 x] in_bytes_sub [of b 6 x 8] by auto
  moreover have "\<not> in_bytes b 4 x" using assms in_bytes_sub [of b 4 x 8] by auto
  ultimately show ?thesis by (simp add: write_header_def write_u16_outside write_u32_outside)
qed

lemma mark_large:
  assumes "s + n \<le> 1024" "length (page_kind st) = 1024" "length (page_head st) = 1024"
    and f: "st' = fold (\<lambda>i st. page_head_set (page_kind_set st (word_of_nat s + i) k) (word_of_nat s + i) h)
      (map word_of_nat [0..<n]) st"
  shows "slabs st' = slabs st" "page_bitmap st' = page_bitmap st" "length (page_kind st') = 1024" "length (page_head st') = 1024"
    "q < 1024 \<Longrightarrow> page_kind st' ! q = (if s \<le> q \<and> q < s + n then k else page_kind st ! q)"
    "q < 1024 \<Longrightarrow> page_head st' ! q = (if s \<le> q \<and> q < s + n then h else page_head st ! q)"
proof -
  have "slabs st' = slabs st \<and> page_bitmap st' = page_bitmap st \<and> length (page_kind st') = 1024 \<and> length (page_head st') = 1024
     \<and> (\<forall>q<1024. page_kind st' ! q = (if s \<le> q \<and> q < s + n then k else page_kind st ! q)
        \<and> page_head st' ! q = (if s \<le> q \<and> q < s + n then h else page_head st ! q))"
    using assms(1) f
  proof (induction n arbitrary: st')
    case 0
    with assms(2,3) show ?case by auto
  next
    case (Suc n)
    let ?f = "\<lambda>i st. page_head_set (page_kind_set st (word_of_nat s + i) k) (word_of_nat s + i) h"
    define t where "t = fold ?f (map word_of_nat [0..<n]) st"
    have st': "st' = ?f (word_of_nat n) t" using Suc.prems(2) by (simp add: t_def)
    have u: "unat (word_of_nat s + word_of_nat n :: u64) = s + n"
      using Suc.prems(1) by (simp add: unat_plus_if' word_of_nat_page)
    have IH: "slabs t = slabs st \<and> page_bitmap t = page_bitmap st \<and> length (page_kind t) = 1024 \<and> length (page_head t) = 1024
     \<and> (\<forall>q<1024. page_kind t ! q = (if s \<le> q \<and> q < s + n then k else page_kind st ! q)
        \<and> page_head t ! q = (if s \<le> q \<and> q < s + n then h else page_head st ! q))"
      by (rule Suc.IH) (use Suc.prems(1) in \<open>simp_all add: t_def\<close>)
    then show ?case using Suc.prems(1) by (auto simp: st' u nth_list_update less_Suc_eq)
  qed
  then show "slabs st' = slabs st" "page_bitmap st' = page_bitmap st" "length (page_kind st') = 1024" "length (page_head st') = 1024"
    "q < 1024 \<Longrightarrow> page_kind st' ! q = (if s \<le> q \<and> q < s + n then k else page_kind st ! q)"
    "q < 1024 \<Longrightarrow> page_head st' ! q = (if s \<le> q \<and> q < s + n then h else page_head st ! q)"
    by auto
qed

lemma range_w_map: "range_w 0 n = map word_of_nat [0..<unat n]"
  by (simp add: range_w_def)

lemma large_new:
  assumes ar: "arena_ok arena" and inv: "heap_inv arena m st"
    and r: "alloc_contiguous_pages st pages = (Some h, st1)"
    and st2: "st2 = fold (\<lambda>i st. page_head_set (page_kind_set st (h + i) PAGE_KIND_LARGE) (h + i) (ucast h))
      (range_w 0 pages) st1"
    and m': "m' = write_header m (page_ptr arena h) LARGE_MAGIC (ucast pages)"
  shows "adds_block arena m st m' st2 (pptr arena (unat h) + 8) (unat pages * 4096 - 8)"
    "unat (pptr arena (unat h) + 8) = unat arena + unat h * 4096 + 8" "unat h + unat pages \<le> 1024" "0 < unat pages"
proof -
  let ?h = "unat h" and ?n = "unat pages"
  let ?P = "{q. ?h \<le> q \<and> q < ?h + ?n}"
  have dims: "heap_dims st" using inv by (simp add: heap_inv_def)
  then have bl: "length (page_bitmap st) = 128" by (simp add: heap_dims_def)
  note al = alloc_contiguous_pages_Some [OF r bl]
  show hn: "?h + ?n \<le> 1024" and n0: "0 < ?n" using al(1,2) by (auto simp: free_pages_def)
  have free: "q < 1024" "page_kind st ! q = PAGE_KIND_FREE" if "q \<in> ?P" for q
    using free_pages_kind [OF inv al(1)] that by auto
  have len: "length (page_kind st1) = 1024" "length (page_head st1) = 1024"
    using dims al(4,5) by (simp_all add: heap_dims_def)
  have st2': "st2 = fold (\<lambda>i st. page_head_set (page_kind_set st (word_of_nat ?h + i) PAGE_KIND_LARGE) (word_of_nat ?h + i) (ucast h))
      (map word_of_nat [0..<?n]) st1" by (simp add: st2 range_w_map)
  note ml = mark_large [OF hn len st2']
  have used: "is_page_used st2 (word_of_nat q) \<longleftrightarrow> q \<in> ?P \<or> is_page_used st (word_of_nat q)" if "q < 1024" for q
    using al(8) [OF that] ml(2) by (simp add: is_page_used_def)
  have hh: "?h < 1024" using hn n0 by linarith
  have pp: "page_ptr arena h = pptr arena ?h" by (rule page_ptr_pptr)
  have mem: "m' x = m x" if "x \<in> page_bytes arena q" "q \<noteq> ?h" for x q
  proof -
    have "\<not> in_bytes (pptr arena ?h) 8 x"
      using header_bytes [OF ar hh] that page_bytes_unique by blast
    then show ?thesis by (simp add: m' pp write_header_outside)
  qed
  have u16: "unat (ucast pages :: u16) = ?n" "unat (ucast h :: u16) = ?h"
    using hn hh by (simp_all add: unsigned_ucast_eq take_bit_nat_eq_self)
  have dims': "heap_dims st2" using dims ml(1-4) al(6,7) by (simp add: heap_dims_def)
  have run: "large_run arena m' st2 ?h ?n"
    using hn n0 ml(5,6) write_header_reads [of m "pptr arena ?h"] u16 by (auto simp: large_run_def m' pp)
  have new: "page_inv arena m' st2 q" if "q \<in> ?P" for q
  proof -
    have "page_kind st2 ! q = PAGE_KIND_LARGE" "unat (page_head st2 ! q) = ?h"
      using that free(1) [OF that] ml(5,6) u16 by auto
    then show ?thesis using that run used [OF free(1) [OF that]] by (auto simp: page_inv_def)
  qed
  have P: "?P \<subseteq> {..<1024}" using free(1) by auto
  have ag: "agree_outside arena ?P m st m' st2"
    using ml al(4-6) used mem n0 by (auto simp: agree_outside_def)
  have cl: "run_closed st ?P" using free by (auto simp: run_closed_def page_kinds)
  note step = heap_step [OF ar inv dims' P ag cl new]
  have "(\<Union>q\<in>?P. page_blocks arena m st q) = {}" using free by (auto simp: page_blocks_def page_kinds)
  moreover have "(\<Union>q\<in>?P. page_blocks arena m' st2 q) = {(pptr arena ?h + 8, ?n * 4096 - 8)}"
  proof -
    have "page_blocks arena m' st2 q = (if q = ?h then {(pptr arena ?h + 8, ?n * 4096 - 8)} else {})" if "q \<in> ?P" for q
      using that free(1) [OF that] ml(5,6) u16 run by (auto simp: page_blocks_def page_kinds large_run_def)
    then show ?thesis using n0 by auto
  qed
  ultimately have hb: "heap_blocks arena m' st2 = insert (pptr arena ?h + 8, ?n * 4096 - 8) (heap_blocks arena m st)"
    using step(2) heap_blocks_split [OF P, of arena m st] by simp
  have top: "unat arena + (?h + ?n) * 4096 < 2 ^ 64" using ar hn by (simp add: arena_ok_def)
  show b8: "unat (pptr arena ?h + 8) = unat arena + ?h * 4096 + 8"
    using pptr_unat [OF ar, of ?h] hh top n0 by (simp add: unat_plus_if' distrib_right)
  have pb: "pptr arena ?h + 8 \<in> page_bytes arena ?h" by (simp add: page_bytes_def b8)
  have "(pptr arena ?h + 8, ?n * 4096 - 8) \<notin> heap_blocks arena m st"
  proof
    assume "(pptr arena ?h + 8, ?n * 4096 - 8) \<in> heap_blocks arena m st"
    then obtain k where k: "k < 1024" "(pptr arena ?h + 8, ?n * 4096 - 8) \<in> page_blocks arena m st k"
      by (auto simp: heap_blocks_def)
    have "in_bytes (pptr arena ?h + 8) (?n * 4096 - 8) (pptr arena ?h + 8)" using n0 by simp
    from page_blocks_bytes [OF ar inv k this] show False
      using pb free(2) [of ?h] n0 page_bytes_unique [OF pb] by auto
  qed
  then show "adds_block arena m st m' st2 (pptr arena ?h + 8) (?n * 4096 - 8)"
    using hb step(1) mem free(2) [of ?h] n0 by (auto simp: adds_block_def)
qed

end
