(* ===== verification/Heap_Correct.thy ===== *)
theory Heap_Correct
  imports Heap_Inv
begin

text \<open>
  Correctness of allocation and release on the kernel heap, and of every sequence of them: blocks
  handed out are disjoint, large enough, aligned and inside the arena, whatever clients write into
  the blocks they hold.
\<close>

unbundle bit_operations_syntax

section \<open>Allocation is correct\<close>

text \<open>
  The promise of an allocation of \<open>bytes\<close> bytes: null and no change, or a new block with room for
  the request at an aligned pointer.
\<close>

definition alloc_post :: "u64 \<Rightarrow> memory \<Rightarrow> HeapState \<Rightarrow> usize \<Rightarrow> usize \<Rightarrow> u64 \<times> HeapState \<times> memory \<Rightarrow> bool" where
  "alloc_post arena m st bytes align r \<longleftrightarrow>
     (case r of (p, st', m') \<Rightarrow>
        if p = 0 then st' = st \<and> m' = m
        else \<exists>a n. adds_block arena m st m' st' a n
          \<and> unat a \<le> unat p \<and> unat p + unat bytes \<le> unat a + n \<and> unat p mod unat align = 0
          \<and> (n \<le> 2048 \<longrightarrow> p = a))"

lemma alloc_postI:
  "p \<noteq> 0 \<Longrightarrow> adds_block arena m st m' st' a n \<Longrightarrow> unat a \<le> unat p \<Longrightarrow> unat p + unat bytes \<le> unat a + n
    \<Longrightarrow> unat p mod unat align = 0 \<Longrightarrow> (n \<le> 2048 \<Longrightarrow> p = a) \<Longrightarrow> alloc_post arena m st bytes align (p, st', m')"
  by (auto simp: alloc_post_def)

lemma obj_aligned:
  assumes "is_power_of_two align" "align \<le> class_size (ucast c)" "unat c < 8" "page_ok page" "unat i < 2 ^ (8 - unat c)"
  shows "unat (obj_addr page c i) mod unat align = 0"
proof -
  obtain k where k: "unat align = 2 ^ k" using power_of_two [OF assms(1)] by blast
  have "2 ^ k \<le> (2 :: nat) ^ (unat c + 4)" using assms(2) k class_dims(1) [OF assms(3)] by (simp add: word_le_nat_alt)
  then have kc: "k \<le> unat c + 4" by (rule power_le_imp_le_exp [rotated]) simp
  have d1: "(2 :: nat) ^ k dvd 2 ^ (unat c + 4)" using kc by (rule le_imp_power_dvd)
  have "k \<le> 12" using kc assms(3) by linarith
  then have d2: "(2 :: nat) ^ k dvd 4096" using le_imp_power_dvd [of k 12 "2 :: nat"] by simp
  have "page mod SLAB_PAGE_SIZE = 0" using assms(4) by (simp add: page_ok_def)
  from arg_cong [OF this, of unat] have "4096 dvd unat page" by (simp add: unat_mod SLAB_PAGE_SIZE_def mod_eq_0_iff_dvd)
  then have "2 ^ k dvd unat page" using d2 dvd_trans by blast
  moreover have "2 ^ k dvd unat i * 2 ^ (unat c + 4)" using d1 by (rule dvd_mult)
  ultimately have "2 ^ k dvd unat (obj_addr page c i)" using obj_addr_unat(1) [OF assms(4,3,5)] by (simp add: dvd_add)
  then show ?thesis by (simp add: k mod_eq_0_iff_dvd)
qed

lemma alloc_post_slab:
  assumes ad: "adds_block arena m st m' st' p (2 ^ (unat index + 4))" and p0: "p \<noteq> 0"
    and cls: "class_index_for bytes align = Some index" and pow: "is_power_of_two align"
    and p: "p = obj_addr page c i" "page_ok page" "ucast c = index" "unat c < 8" "unat i < 2 ^ (8 - unat c)"
  shows "alloc_post arena m st bytes align (p, st', m')"
proof -
  note ci = class_index_for_Some [OF cls]
  have le: "bytes \<le> class_size index" "align \<le> class_size index" using ci(2) by auto
  have ix: "unat index = unat c" using unat_ucast_up [of c] p(3) by simp
  have "unat bytes \<le> 2 ^ (unat index + 4)" using le(1) unat_class_size [OF ci(1)] by (simp add: word_le_nat_alt)
  moreover have "unat p mod unat align = 0" using obj_aligned [OF pow _ p(4,2,5)] le(2) p(1,3) by simp
  ultimately show ?thesis by (intro alloc_postI [OF p0 ad]) simp_all
qed

lemma alloc_small_correct:
  assumes ar: "arena_ok arena" and inv: "heap_inv arena m st" and pow: "is_power_of_two align"
  shows "\<exists>r. alloc_small arena m st bytes align = Returns r \<and> alloc_post arena m st bytes align r"
proof (cases "class_index_for bytes align")
  case None
  then show ?thesis by (simp add: alloc_small_def alloc_post_def)
next
  case (Some index)
  note ci = class_index_for_Some [OF Some]
  obtain res st0 where scan: "small_scan arena index m st (range_w 0 HEAP_PAGE_COUNT) = (res, st0)"
    by (cases "small_scan arena index m st (range_w 0 HEAP_PAGE_COUNT)")
  have "\<forall>q\<in>set (range_w 0 HEAP_PAGE_COUNT). unat q < 1024" by (auto simp: set_range_w_0 word_less_nat_alt)
  from small_scan_cases [OF ar inv scan this] consider
    (none) "res = None" "st0 = st"
    | (some) p q slab' where "res = Some p" "q < 1024" "page_kind st ! q = PAGE_KIND_SLAB"
      "ucast (class_index (slabs st ! q)) = index" "slab_free (pptr arena q) m (slabs st ! q) \<noteq> {}"
      "alloc_from_slab (pptr arena q) m (slabs st ! q) = (p, slab')" "st0 = slab_set st (word_of_nat q) slab'"
    by blast
  then show ?thesis
  proof cases
    case some
    let ?s = "slabs st ! q"
    have r: "alloc_small arena m st bytes align = Returns (p, st0, m)"
      using scan some(1) by (simp add: alloc_small_def Some)
    note ex = small_existing [OF ar inv some(2,3,5,6)]
    have ok: "slab_ok (pptr arena q) m ?s (slab_free_list (pptr arena q) m ?s)"
      using heap_inv_slab(3) [OF inv some(2,3)] by (simp add: slab_inv_def)
    obtain i where i: "p = obj_addr (pptr arena q) (class_index ?s) i" "i < capacity ?s"
      using ex(2) by (auto simp: slab_objects_def)
    have c: "unat (class_index ?s) < 8" "unat i < 2 ^ (8 - unat (class_index ?s))"
      using ok i(2) by (auto simp: slab_ok_def word_less_nat_alt)
    have "unat index = unat (class_index ?s)" using unat_ucast_up [of "class_index ?s"] some(4) by simp
    then have "adds_block arena m st m st0 p (2 ^ (unat index + 4))" using ex(1) some(7) by simp
    from alloc_post_slab [OF this ex(3) Some pow i(1) pptr_page_ok [OF ar some(2)] some(4) c] r show ?thesis by blast
  next
    case none
    obtain pr st1 where al: "alloc_contiguous_pages st 1 = (pr, st1)" by (cases "alloc_contiguous_pages st 1")
    show ?thesis
    proof (cases pr)
      case None
      then have "alloc_small arena m st bytes align = Returns (0, st, m)"
        using scan none al alloc_contiguous_pages_None(1) by (auto simp: alloc_small_def Some)
      then show ?thesis by (simp add: alloc_post_def)
    next
      case (Some r)
      let ?st2 = "page_head_set (page_kind_set st1 r PAGE_KIND_SLAB) r (ucast r)"
      note al' = al [unfolded Some]
      have bl: "length (page_bitmap st) = 128" using inv by (simp add: heap_inv_def heap_dims_def)
      have q: "unat r < 1024" using alloc_contiguous_pages_Some(1) [OF al' bl] by (simp add: free_pages_def)
      note pg = pptr_page_ok [OF ar q]
      obtain slab m1 where init: "init_slab_page (page_ptr arena r) index m (slab_get ?st2 r) = Some (slab, m1)"
        "slab_ok (pptr arena (unat r)) m1 slab (map word_of_nat [0..<2 ^ (8 - unat index)])"
        using init_slab_page_ok [OF pg ci(1)] by (metis page_ptr_pptr)
      obtain p slab2 where a: "alloc_from_slab (page_ptr arena r) m1 slab = (p, slab2)"
        by (cases "alloc_from_slab (page_ptr arena r) m1 slab")
      have r: "alloc_small arena m st bytes align = Returns (p, slab_set ?st2 r slab2, m1)"
        using scan none al' init(1) a by (simp add: alloc_small_def \<open>class_index_for bytes align = Some index\<close> Let_def)
      note nw = small_new [OF ar inv ci(1) al' refl init(1) a]
      obtain i where i: "p = obj_addr (pptr arena (unat r)) (class_index slab) i" "i < capacity slab"
        using nw(2) by (auto simp: slab_objects_def)
      have cu: "ucast (class_index slab) = index" using ucast_index(2) [OF ci(1)] nw(3) by simp
      have c: "unat (class_index slab) < 8" "unat i < 2 ^ (8 - unat (class_index slab))"
        using init(2) i(2) by (auto simp: slab_ok_def word_less_nat_alt)
      from alloc_post_slab [OF nw(1,4) \<open>class_index_for bytes align = Some index\<close> pow i(1) pg cu c] r show ?thesis
        by blast
    qed
  qed
qed

text \<open>The success branch: a run of pages was found.\<close>

lemma large_success:
  assumes ar: "arena_ok arena" and inv: "heap_inv arena m st" and pow: "is_power_of_two align"
    and bn: "bn = saturating_add (saturating_add bytes align) LargeAllocHeader_size"
    and pages: "pages = (bn + SLAB_PAGE_SIZE - 1) div SLAB_PAGE_SIZE" "pages \<noteq> 0" "\<not> pages > 0xFFFF"
    and al: "alloc_contiguous_pages st pages = (Some h, st1)"
  shows "fst (alloc_large arena m st bytes align) \<noteq> 0"
    "alloc_post arena m st bytes align (alloc_large arena m st bytes align)"
proof -
  define st2 where "st2 = fold (\<lambda>i st. page_head_set (page_kind_set st (h + i) PAGE_KIND_LARGE) (h + i) (ucast h))
    (range_w 0 pages) st1"
  define m' where "m' = write_header m (page_ptr arena h) LARGE_MAGIC (ucast pages)"
  define raw where "raw = pptr arena (unat h) + 8"
  have "raw = page_ptr arena h + LargeAllocHeader_size"
    by (simp add: raw_def page_ptr_pptr LargeAllocHeader_size_def)
  then have r: "alloc_large arena m st bytes align = (align_up raw (max align 1), st2, m')"
    using al pages(2,3) unfolding alloc_large_def Let_def bn [symmetric] pages(1) [symmetric]
    by (simp add: st2_def m'_def)
  note ln = large_new [OF ar inv al st2_def m'_def]
  have "align \<noteq> 0" using pow by (simp add: is_power_of_two_def)
  then have "1 \<le> align" by (simp add: word_le_nat_alt unat_gt_0 Suc_le_eq)
  then have mx: "max align 1 = align" by simp
  have sz: "unat bytes + unat align + 8 \<le> unat pages * 4096"
    by (rule large_sizes [OF bn pages(1)]) (use ln(3,4) in linarith)+
  have rw: "unat raw = unat arena + unat h * 4096 + 8" using ln(2) by (simp add: raw_def)
  have top: "unat arena + (unat h + unat pages) * 4096 < 2 ^ 64" using ar ln(3) by (simp add: arena_ok_def)
  then have nw: "unat raw + unat align < 2 ^ 64" using rw sz by (simp add: distrib_right)
  note au = align_up_bounds [OF pow nw]
  have "unat (align_up raw align) \<noteq> 0" using au(1) rw by linarith
  then have ne: "align_up raw align \<noteq> 0" by (metis unat_0)
  then show "fst (alloc_large arena m st bytes align) \<noteq> 0" by (simp add: r mx)
  have "unat (align_up raw align) + unat bytes \<le> unat raw + (unat pages * 4096 - 8)"
    using au(2) sz by linarith
  moreover have "\<not> unat pages * 4096 - 8 \<le> 2048" using ln(4) by linarith
  ultimately show "alloc_post arena m st bytes align (alloc_large arena m st bytes align)"
    unfolding r mx using ne au(1,3) ln(1) [folded raw_def]
    by (intro alloc_postI [where a = raw and n = "unat pages * 4096 - 8"]) auto
qed

lemma alloc_large_correct:
  assumes ar: "arena_ok arena" and inv: "heap_inv arena m st" and pow: "is_power_of_two align"
  shows "alloc_post arena m st bytes align (alloc_large arena m st bytes align)"
proof -
  define bn where "bn = saturating_add (saturating_add bytes align) LargeAllocHeader_size"
  define pages where "pages = (bn + SLAB_PAGE_SIZE - 1) div SLAB_PAGE_SIZE"
  obtain pr st1 where al: "alloc_contiguous_pages st pages = (pr, st1)" by (cases "alloc_contiguous_pages st pages")
  show ?thesis
  proof (cases "pages = 0 \<or> pages > 0xFFFF \<or> pr = None")
    case True
    then have "alloc_large arena m st bytes align = (0, st, m)"
      using al alloc_contiguous_pages_None(1)
      by (auto simp: alloc_large_def Let_def bn_def [symmetric] pages_def [symmetric])
    then show ?thesis by (simp add: alloc_post_def)
  next
    case False
    then obtain h where "pr = Some h" by auto
    with large_success(2) [OF ar inv pow bn_def pages_def] al False show ?thesis by blast
  qed
qed

text \<open>The failure branch: no run of pages is long enough.\<close>

lemma large_failure:
  assumes ar: "arena_ok arena" and inv: "heap_inv arena m st" and pow: "is_power_of_two align"
    and n: "n = (unat bytes + unat align + 4103) div 4096" "n \<le> 1024"
    and r: "fst (alloc_large arena m st bytes align) = 0"
  shows "\<not> free_pages st s n"
proof -
  define bn where "bn = saturating_add (saturating_add bytes align) LargeAllocHeader_size"
  define pages where "pages = (bn + SLAB_PAGE_SIZE - 1) div SLAB_PAGE_SIZE"
  have "unat bytes + unat align + 4103 < (n + 1) * 4096"
    using dividend_less_div_times [of 4096 "unat bytes + unat align + 4103"] unfolding n(1) by simp
  then have small: "unat bytes + unat align + 4103 < 2 ^ 63" using n(2) by simp
  then have s1: "unat (bytes + align) = unat bytes + unat align" by (simp add: unat_plus_if')
  then have "\<not> bytes + align < bytes" by (simp add: word_less_nat_alt)
  then have e1: "saturating_add bytes align = bytes + align" by (simp add: saturating_add_def)
  have s2: "unat (bytes + align + 8) = unat bytes + unat align + 8" using s1 small by (simp add: unat_plus_if' [of _ 8])
  then have "\<not> bytes + align + 8 < bytes + align" using s1 by (simp add: word_less_nat_alt)
  then have bn: "unat bn = unat bytes + unat align + 8"
    using s2 unfolding bn_def e1 by (simp add: saturating_add_def LargeAllocHeader_size_def)
  then have "unat (bn + 4095) = unat bytes + unat align + 4103" using small by (simp add: unat_plus_if')
  moreover have "bn + SLAB_PAGE_SIZE - 1 = bn + 4095" by (simp add: SLAB_PAGE_SIZE_def)
  ultimately have pn: "unat pages = n" by (simp only: pages_def unat_div n(1)) (simp add: SLAB_PAGE_SIZE_def)
  have "4096 \<le> unat bytes + unat align + 4103" by simp
  then have "0 < n" unfolding n(1) using div_le_mono [of 4096 "unat bytes + unat align + 4103" 4096] by simp
  then have pg: "pages \<noteq> 0" "\<not> pages > 0xFFFF" using pn n(2) by (auto simp: word_less_nat_alt)
  obtain pr st1 where al: "alloc_contiguous_pages st pages = (pr, st1)" by (cases "alloc_contiguous_pages st pages")
  have "pr = None"
  proof (rule ccontr)
    assume "pr \<noteq> None"
    then obtain h where "pr = Some h" by auto
    with large_success(1) [OF ar inv pow bn_def pages_def pg] al r show False by blast
  qed
  with alloc_contiguous_pages_None(2) [of st pages st1 s] al pg(1) pn show ?thesis by simp
qed

lemma alloc_inner_post:
  assumes ar: "arena_ok arena" and inv: "heap_inv arena m st" and pow: "is_power_of_two align"
  shows "\<exists>r. alloc_inner arena m st bytes align = Returns r \<and> alloc_post arena m st bytes align r"
proof -
  obtain p st' m' where s: "alloc_small arena m st bytes align = Returns (p, st', m')"
    "alloc_post arena m st bytes align (p, st', m')"
    using alloc_small_correct [OF assms] by (metis prod_cases3)
  have l: "alloc_post arena m st bytes align (alloc_large arena m st bytes align)" by (rule alloc_large_correct [OF assms])
  show ?thesis
  proof (cases "bytes = 0 \<or> (class_index_for bytes align \<noteq> None \<and> p \<noteq> 0)")
    case True
    with s show ?thesis by (auto simp: alloc_inner_def alloc_post_def)
  next
    case False
    then have "class_index_for bytes align \<noteq> None \<Longrightarrow> st' = st \<and> m' = m" using s(2) by (simp add: alloc_post_def)
    with False s(1) have "alloc_inner arena m st bytes align = Returns (alloc_large arena m st bytes align)"
      by (auto simp: alloc_inner_def)
    with l show ?thesis by blast
  qed
qed

section \<open>Release is correct\<close>

lemma free_page_frame:
  assumes "heap_dims st" "unat p < 1024"
  shows "heap_dims (free_page p st)"
    "q < 1024 \<Longrightarrow> page_kind (free_page p st) ! q = (if q = unat p then PAGE_KIND_FREE else page_kind st ! q)"
    "q < 1024 \<Longrightarrow> page_head (free_page p st) ! q = (if q = unat p then 0xFFFF else page_head st ! q)"
    "q < 1024 \<Longrightarrow> slabs (free_page p st) ! q = (if q = unat p then SlabPage_empty else slabs st ! q)"
    "q < 1024 \<Longrightarrow> is_page_used (free_page p st) (word_of_nat q) \<longleftrightarrow> q \<noteq> unat p \<and> is_page_used st (word_of_nat q)"
proof -
  show "heap_dims (free_page p st)" using assms(1) by (simp add: heap_dims_def free_page_def)
  show "q < 1024 \<Longrightarrow> page_kind (free_page p st) ! q = (if q = unat p then PAGE_KIND_FREE else page_kind st ! q)"
    "q < 1024 \<Longrightarrow> page_head (free_page p st) ! q = (if q = unat p then 0xFFFF else page_head st ! q)"
    "q < 1024 \<Longrightarrow> slabs (free_page p st) ! q = (if q = unat p then SlabPage_empty else slabs st ! q)"
    using assms by (auto simp: heap_dims_def free_page_def nth_list_update)
  assume q: "q < 1024"
  have eq: "word_of_nat q = p \<longleftrightarrow> q = unat p" using q word_of_nat_page [of q] by auto
  have "is_page_used (set_page_used st p False) (word_of_nat q) \<longleftrightarrow> word_of_nat q \<noteq> p \<and> is_page_used st (word_of_nat q)"
    using assms q by (intro page_used_set(2) page_valid) (simp_all add: heap_dims_def word_of_nat_page)
  then show "is_page_used (free_page p st) (word_of_nat q) \<longleftrightarrow> q \<noteq> unat p \<and> is_page_used st (word_of_nat q)"
    by (simp add: free_page_def eq)
qed

lemma free_run:
  assumes "heap_dims st" "unat h + unat n \<le> 1024" and st': "st' = free_contiguous_pages st h n"
  shows "heap_dims st'"
    "q < 1024 \<Longrightarrow> page_kind st' ! q = (if unat h \<le> q \<and> q < unat h + unat n then PAGE_KIND_FREE else page_kind st ! q)"
    "q < 1024 \<Longrightarrow> \<not> (unat h \<le> q \<and> q < unat h + unat n) \<Longrightarrow> page_head st' ! q = page_head st ! q \<and> slabs st' ! q = slabs st ! q"
    "q < 1024 \<Longrightarrow> is_page_used st' (word_of_nat q) \<longleftrightarrow> \<not> (unat h \<le> q \<and> q < unat h + unat n) \<and> is_page_used st (word_of_nat q)"
proof -
  let ?in = "\<lambda>k q. unat h \<le> q \<and> q < unat h + k"
  have add: "unat (h + word_of_nat k) = unat h + k" if "k < unat n" for k
    using that assms(2) by (simp add: unat_plus_if' unat_of_nat)
  have "takeWhile (\<lambda>i. h + i < HEAP_PAGE_COUNT) (range_w 0 n) = range_w 0 n"
    using add assms(2) by (auto simp: takeWhile_eq_all_conv range_w_map word_less_nat_alt)
  then have f: "st' = fold (\<lambda>i st. free_page (h + i) st) (map word_of_nat [0..<unat n]) st"
    unfolding st' free_contiguous_pages_def by (simp only: range_w_map)
  have "heap_dims s \<and> (\<forall>q<1024. page_kind s ! q = (if ?in k q then PAGE_KIND_FREE else page_kind st ! q)
      \<and> (\<not> ?in k q \<longrightarrow> page_head s ! q = page_head st ! q \<and> slabs s ! q = slabs st ! q)
      \<and> (is_page_used s (word_of_nat q) \<longleftrightarrow> \<not> ?in k q \<and> is_page_used st (word_of_nat q)))"
    if "k \<le> unat n" "s = fold (\<lambda>i st. free_page (h + i) st) (map word_of_nat [0..<k]) st" for k s
    using that
  proof (induction k arbitrary: s)
    case 0
    with assms(1) show ?case by auto
  next
    case (Suc k)
    define t where "t = fold (\<lambda>i st. free_page (h + i) st) (map word_of_nat [0..<k]) st"
    have s: "s = free_page (h + word_of_nat k) t" using Suc.prems(2) by (simp add: t_def)
    have u: "unat (h + word_of_nat k) = unat h + k" using Suc.prems(1) add by simp
    have lt: "unat (h + word_of_nat k) < 1024" using u Suc.prems(1) assms(2) by simp
    have IH: "heap_dims t \<and> (\<forall>q<1024. page_kind t ! q = (if ?in k q then PAGE_KIND_FREE else page_kind st ! q)
      \<and> (\<not> ?in k q \<longrightarrow> page_head t ! q = page_head st ! q \<and> slabs t ! q = slabs st ! q)
      \<and> (is_page_used t (word_of_nat q) \<longleftrightarrow> \<not> ?in k q \<and> is_page_used st (word_of_nat q)))"
      using Suc.IH [OF _ t_def] Suc.prems(1) by simp
    note fp = free_page_frame [OF conjunct1 [OF IH] lt]
    show ?case
      using IH fp by (auto simp: s u less_Suc_eq)
  qed
  from this [OF order_refl f] show "heap_dims st'"
    "q < 1024 \<Longrightarrow> page_kind st' ! q = (if unat h \<le> q \<and> q < unat h + unat n then PAGE_KIND_FREE else page_kind st ! q)"
    "q < 1024 \<Longrightarrow> \<not> (unat h \<le> q \<and> q < unat h + unat n) \<Longrightarrow> page_head st' ! q = page_head st ! q \<and> slabs st' ! q = slabs st ! q"
    "q < 1024 \<Longrightarrow> is_page_used st' (word_of_nat q) \<longleftrightarrow> \<not> (unat h \<le> q \<and> q < unat h + unat n) \<and> is_page_used st (word_of_nat q)"
    by auto
qed

text \<open>What a release takes away: one block, and only its bytes may change.\<close>

definition removes_block :: "u64 \<Rightarrow> memory \<Rightarrow> HeapState \<Rightarrow> memory \<Rightarrow> HeapState \<Rightarrow> u64 \<Rightarrow> nat \<Rightarrow> bool" where
  "removes_block arena m st m' st' a n \<longleftrightarrow>
     heap_inv arena m' st' \<and> heap_blocks arena m' st' = heap_blocks arena m st - {(a, n)}
     \<and> (\<forall>x. \<not> in_bytes a n x \<longrightarrow> m' x = m x)"

text \<open>The page of an address of the arena, as \<^verbatim>\<open>free_inner\<close> computes it.\<close>

lemma page_of:
  assumes ar: "arena_ok arena" and q: "q < 1024" and p: "p \<in> page_bytes arena q"
  shows "p \<noteq> 0" "\<not> p < arena" "\<not> arena + HEAP_SIZE \<le> p" "unat ((p - arena) div SLAB_PAGE_SIZE) = q"
    "\<not> HEAP_PAGE_COUNT \<le> (p - arena) div SLAB_PAGE_SIZE"
proof -
  have b: "unat arena + q * 4096 \<le> unat p" "unat p < unat arena + q * 4096 + 4096" using p by (auto simp: page_bytes_def)
  have "unat arena \<noteq> 0" using ar by (auto simp: arena_ok_def unat_0_iff)
  then show "p \<noteq> 0" using b by auto
  show np: "\<not> p < arena" using b by (simp add: word_less_nat_alt)
  have he: "unat (arena + HEAP_SIZE) = unat arena + 4194304"
    using ar by (simp add: arena_ok_def HEAP_SIZE_def unat_plus_if')
  have "q * 4096 + 4096 \<le> 4194304" using q by simp
  then have "unat p < unat arena + 4194304" using b by linarith
  then show "\<not> arena + HEAP_SIZE \<le> p" using he by (simp add: word_le_nat_alt)
  have off: "unat (p - arena) = unat p - unat arena" using np by (simp add: unat_sub not_less)
  have "(unat p - unat arena) div 4096 = q" using b by (intro div_nat_eqI) auto
  then show u: "unat ((p - arena) div SLAB_PAGE_SIZE) = q" by (simp add: unat_div off SLAB_PAGE_SIZE_def)
  show "\<not> HEAP_PAGE_COUNT \<le> (p - arena) div SLAB_PAGE_SIZE" using u q by (simp add: word_le_nat_alt)
qed

lemma blocks_elsewhere:
  assumes ar: "arena_ok arena" and inv: "heap_inv arena m st" and q: "q < 1024" and b: "(a, n) \<in> page_blocks arena m st q"
    and n: "0 < n" and k: "k < 1024" "(a, n) \<in> page_blocks arena m st k"
  shows "k = q"
proof -
  have "in_bytes a n a" using n by simp
  then obtain r r' where "a \<in> page_bytes arena r" "if page_kind st ! q = PAGE_KIND_SLAB then r = q
        else page_kind st ! r = PAGE_KIND_LARGE \<and> unat (page_head st ! r) = q"
    "a \<in> page_bytes arena r'" "if page_kind st ! k = PAGE_KIND_SLAB then r' = k
        else page_kind st ! r' = PAGE_KIND_LARGE \<and> unat (page_head st ! r') = k"
    using page_blocks_bytes [OF ar inv q b] page_blocks_bytes [OF ar inv k] by metis
  moreover from this have "r' = r" using page_bytes_unique by blast
  ultimately show ?thesis by (auto simp: page_kinds split: if_splits)
qed

text \<open>Releasing an object of a slab; an empty slab gives its page back.\<close>

lemma free_slab:
  assumes ar: "arena_ok arena" and inv: "heap_inv arena m st" and q: "q < 1024" "page_kind st ! q = PAGE_KIND_SLAB"
    and b: "(p, n) \<in> page_blocks arena m st q"
  shows "\<exists>st' m'. free_inner arena m st p = (st', m') \<and> removes_block arena m st m' st' p n"
proof -
  let ?s = "slabs st ! q" and ?pg = "pptr arena q"
  note pg = pptr_page_ok [OF ar q(1)]
  note sl = heap_inv_slab [OF inv q]
  have ok: "slab_ok ?pg m ?s (slab_free_list ?pg m ?s)" using sl(3) by (simp add: slab_inv_def)
  have dims: "heap_dims st" using inv by (simp add: heap_inv_def)
  have bu: "(p, n) \<in> slab_used ?pg m ?s" using b q(2) by (simp add: page_blocks_def)
  then obtain i where i: "i < capacity ?s" "i \<notin> set (slab_free_list ?pg m ?s)" "p = obj_addr ?pg (class_index ?s) i"
    and n: "n = 2 ^ (unat (class_index ?s) + 4)" and po: "p \<in> slab_objects ?pg ?s - slab_free ?pg m ?s"
    by (auto simp: slab_used_def slab_objects_def slab_free_def)
  obtain s' m' where f: "free_to_slab ?pg m ?s p = (True, s', m')" "class_index s' = class_index ?s"
    "slab_ok ?pg m' s' (i # slab_free_list ?pg m ?s)"
    "\<And>x. \<not> in_bytes p 2 x \<Longrightarrow> m' x = m x" "capacity s' = capacity ?s"
    using free_to_slab_ok [OF pg ok i(1,2)] unfolding i(3) [symmetric] by metis
  note c = slab_release_contract [OF pg sl(3) po f(1)]
  have us: "slab_used ?pg m' s' = slab_used ?pg m ?s - {(p, n)}"
    using c n f(2) by (auto simp: slab_used_def)
  have mem2: "m' x = m x" if "\<not> in_bytes p n x" for x
    using f(4) [of x] that in_bytes_sub [of p 2 x n] obj_ge_2 [of "unat (class_index ?s)"] by (auto simp: n)
  have pq: "p \<in> page_bytes arena q" using slab_block_in_page [OF ar q(1) sl(3) bu] by (simp add: n)
  have memq: "m' x = m x" if "x \<in> page_bytes arena k" "k \<noteq> q" for x k
  proof -
    have "x \<notin> page_bytes arena q" using that page_bytes_unique by blast
    then have "\<not> in_bytes p n x" using slab_block_in_page [OF ar q(1) sl(3) bu] by blast
    then show ?thesis by (rule mem2)
  qed
  note po' = page_of [OF ar q(1) pq]
  have hd: "unat (ucast (page_head st ! q) :: u64) = q" using unat_ucast_up [of "page_head st ! q"] sl(2) by simp
  then have hw: "(ucast (page_head st ! q) :: u64) = word_of_nat q" using q(1) by (simp add: word_unat_eq_iff word_of_nat_page)
  let ?st1 = "slab_set st (word_of_nat q) s'"
  let ?st2 = "if slab_is_empty s' then free_contiguous_pages ?st1 (word_of_nat q) 1 else ?st1"
  have wq: "unat (word_of_nat q :: u64) = q" using q by (simp add: word_of_nat_page)
  have nle: "\<not> HEAP_PAGE_COUNT \<le> word_of_nat q" using wq q(1) by (simp add: word_le_nat_alt)
  have r: "free_inner arena m st p = (?st2, m')"
    using po' q(2) f(1) hw nle wq
    by (simp add: free_inner_def Let_def page_kind_get_def page_head_get_def slab_get_def page_ptr_pptr)
  have d1: "heap_dims ?st1" using dims by simp
  have cl: "run_closed st {q}" using q by (auto simp: run_closed_def page_kinds)
  have P: "{q} \<subseteq> {..<1024}" using q by simp
  have fr: "heap_dims ?st2" "k < 1024 \<Longrightarrow> k \<noteq> q \<Longrightarrow> page_kind ?st2 ! k = page_kind st ! k"
    "k < 1024 \<Longrightarrow> k \<noteq> q \<Longrightarrow> page_head ?st2 ! k = page_head st ! k \<and> slabs ?st2 ! k = slabs st ! k"
    "k < 1024 \<Longrightarrow> k \<noteq> q \<Longrightarrow> is_page_used ?st2 (word_of_nat k) \<longleftrightarrow> is_page_used st (word_of_nat k)" for k
    using d1 wq q(1) free_run(1) [OF d1 _ refl, of "word_of_nat q" 1] free_run(2-4) [OF d1 _ refl, of "word_of_nat q" 1 k] dims
    by (auto simp: heap_dims_def nth_list_update)
  have ag: "agree_outside arena {q} m st m' ?st2" using fr memq by (auto simp: agree_outside_def)
  have new: "page_inv arena m' ?st2 q \<and> page_blocks arena m' ?st2 q = slab_used ?pg m' s'"
  proof (cases "slab_is_empty s'")
    case True
    have "in_use s' = 0" using True by (simp add: slab_is_empty_def)
    then have "length (i # slab_free_list ?pg m ?s) = unat (capacity s')" using f(3) by (simp add: slab_ok_def)
    then have "card (slab_free ?pg m' s') = unat (capacity s')" using card_slab_free [OF pg f(3)] by simp
    moreover have "card (slab_objects ?pg s') \<le> unat (capacity s')"
    proof -
      have "{i. i < capacity s'} = set (range_w 0 (capacity s'))" by (auto simp: set_range_w)
      then have "card {i. i < capacity s'} = unat (capacity s')"
        by (simp add: distinct_card distinct_range_w length_range_w_0)
      then show ?thesis unfolding slab_objects_def by (metis card_image_le finite)
    qed
    moreover have "slab_free ?pg m' s' \<subseteq> slab_objects ?pg s'"
      using slab_pool.free_objects [of ?pg "(m', s')"] pg c by simp
    ultimately have "slab_free ?pg m' s' = slab_objects ?pg s'" by (simp add: card_seteq slab_objects_def)
    then have "slab_used ?pg m' s' = {}" by (simp add: slab_used_def)
    then show ?thesis using True free_run(2,4) [OF d1 _ refl, of "word_of_nat q" 1 q] wq q(1)
      by (simp add: page_inv_def page_blocks_def page_kinds)
  next
    case False
    then show ?thesis using q sl c dims wq by (simp add: page_inv_def page_blocks_def heap_dims_def)
  qed
  have new1: "page_inv arena m' ?st2 k" if "k \<in> {q}" for k using new that by simp
  note step = heap_step [OF ar inv fr(1) P ag cl new1]
  have n0: "0 < n" by (simp add: n)
  have rest: "(\<Union>k\<in>{..<1024} - {q}. page_blocks arena m st k) - {(p, n)} = (\<Union>k\<in>{..<1024} - {q}. page_blocks arena m st k)"
    using blocks_elsewhere [OF ar inv q(1) b n0] by auto
  have "page_blocks arena m st q = slab_used ?pg m ?s" using q(2) by (simp add: page_blocks_def)
  then have "heap_blocks arena m st - {(p, n)} = slab_used ?pg m' s' \<union> (\<Union>k\<in>{..<1024} - {q}. page_blocks arena m st k)"
    using heap_blocks_split [OF P, of arena m st] us rest by (simp only: Un_Diff) simp
  also have "\<dots> = heap_blocks arena m' ?st2" using step(2) conjunct2 [OF new] by simp
  finally have "heap_blocks arena m' ?st2 = heap_blocks arena m st - {(p, n)}" by simp
  with r step(1) mem2 show ?thesis unfolding removes_block_def by blast
qed

text \<open>Releasing a large run, by any address in it.\<close>

lemma free_large:
  assumes ar: "arena_ok arena" and inv: "heap_inv arena m st" and q: "q < 1024" "page_kind st ! q \<noteq> PAGE_KIND_SLAB"
    and b: "(a, n) \<in> page_blocks arena m st q" and p: "in_bytes a n p"
  shows "\<exists>st'. free_inner arena m st p = (st', m) \<and> removes_block arena m st m st' a n"
proof -
  have l: "page_kind st ! q = PAGE_KIND_LARGE" "unat (page_head st ! q) = q"
    and an: "a = pptr arena q + 8" "n = unat (read_u16 m (pptr arena q + 4)) * 4096 - 8"
    using b q(2) by (auto simp: page_blocks_def split: if_splits)
  have "page_inv arena m st q" using inv q by (simp add: heap_inv_def)
  then obtain k where k: "large_run arena m st q k" using l by (auto simp: page_inv_def page_kinds)
  let ?P = "{r. q \<le> r \<and> r < q + k}"
  have dims: "heap_dims st" using inv by (simp add: heap_inv_def)
  obtain r where r: "r < 1024" "p \<in> page_bytes arena r" "page_kind st ! r = PAGE_KIND_LARGE" "unat (page_head st ! r) = q"
    using page_blocks_bytes [OF ar inv q(1) b p] q(2) by auto
  note po = page_of [OF ar r(1,2)]
  have hd: "unat (ucast (page_head st ! r) :: u64) = q" using unat_ucast_up [of "page_head st ! r"] r(4) by simp
  let ?pages = "ucast (read_u16 m (pptr arena q + 4)) :: u64"
  have kp: "unat ?pages = k" "0 < k" "q + k \<le> 1024"
    using k unat_ucast_up [of "read_u16 m (pptr arena q + 4)"] by (auto simp: large_run_def)
  let ?h = "ucast (page_head st ! r) :: u64"
  let ?st' = "free_contiguous_pages st ?h ?pages"
  have nle: "\<not> HEAP_PAGE_COUNT \<le> ?h" using hd q(1) by (simp add: word_le_nat_alt)
  have "read_u32 m (pptr arena q) = LARGE_MAGIC" using k by (simp add: large_run_def)
  then have res: "free_inner arena m st p = (?st', m)"
    using po r(3) nle hd
    by (simp add: free_inner_def Let_def page_kind_get_def page_head_get_def page_ptr_pptr page_kinds)
  have le: "unat ?h + unat ?pages \<le> 1024" using hd kp by simp
  note fr = free_run [OF dims le refl, unfolded hd kp(1)]
  have P: "?P \<subseteq> {..<1024}" using kp by auto
  have ag: "agree_outside arena ?P m st m ?st'" using fr by (auto simp: agree_outside_def)
  have cl: "run_closed st ?P"
    unfolding run_closed_def
  proof (intro allI impI notI)
    fix u v assume u: "u < 1024" "u \<notin> ?P" "page_kind st ! u = PAGE_KIND_LARGE" "page_head st ! v = page_head st ! u"
      and v: "v \<in> ?P"
    have "unat (page_head st ! v) = q" using v k by (auto simp: large_run_def)
    moreover have "page_inv arena m st u" using inv u(1) by (simp add: heap_inv_def)
    ultimately obtain j where "large_run arena m st q j" "q \<le> u" "u < q + j"
      using u(3,4) by (auto simp: page_inv_def page_kinds)
    moreover from this have "j = k" using k by (auto simp: large_run_def)
    ultimately show False using u(2) by simp
  qed
  have new: "page_inv arena m ?st' u" if "u \<in> ?P" for u
    using that kp fr(2,4) [of u] by (simp add: page_inv_def)
  note step = heap_step [OF ar inv fr(1) P ag cl new]
  have bP: "page_blocks arena m st u = (if u = q then {(a, n)} else {})" if "u \<in> ?P" for u
    using that k l an by (auto simp: page_blocks_def large_run_def page_kinds)
  have "(\<Union>u\<in>?P. page_blocks arena m st u) = {(a, n)}" using bP kp(2) by auto
  moreover have "(\<Union>u\<in>?P. page_blocks arena m ?st' u) = {}"
  proof -
    have "page_blocks arena m ?st' u = {}" if "u \<in> ?P" for u
      using that kp fr(2) [of u] by (simp add: page_blocks_def page_kinds)
    then show ?thesis by auto
  qed
  moreover have "(a, n) \<notin> (\<Union>u\<in>{..<1024} - ?P. page_blocks arena m st u)"
  proof -
    have "0 < n" using an(2) k by (simp add: large_run_def)
    then have "u = q" if "u < 1024" "(a, n) \<in> page_blocks arena m st u" for u
      using blocks_elsewhere [OF ar inv q(1) b] that by blast
    then show ?thesis using kp(2) by auto
  qed
  ultimately have "heap_blocks arena m ?st' = heap_blocks arena m st - {(a, n)}"
    using step(2) heap_blocks_split [OF P, of arena m st] by auto
  with res step(1) show ?thesis unfolding removes_block_def by blast
qed

section \<open>Client writes\<close>

lemma large_block_of:
  assumes "heap_inv arena m st" "q < 1024" "page_kind st ! q = PAGE_KIND_LARGE"
  obtains n where "large_run arena m st (unat (page_head st ! q)) n"
    "unat (page_head st ! q) \<le> q" "q < unat (page_head st ! q) + n"
proof -
  have "page_inv arena m st q" using assms(1,2) by (simp add: heap_inv_def)
  with assms(3) that show thesis by (auto simp: page_inv_def page_kinds)
qed

lemma header_not_in_blocks:
  assumes ar: "arena_ok arena" and inv: "heap_inv arena m st"
    and h: "h < 1024" "page_kind st ! h = PAGE_KIND_LARGE" "unat (page_head st ! h) = h"
    and x: "in_bytes (pptr arena h) 8 x" and b: "(a, n) \<in> heap_blocks arena m st"
  shows "\<not> in_bytes a n x"
proof
  assume xa: "in_bytes a n x"
  obtain q where q: "q < 1024" "(a, n) \<in> page_blocks arena m st q" using b by (auto simp: heap_blocks_def)
  have xp: "x \<in> page_bytes arena h" by (rule header_bytes [OF ar h(1) x])
  obtain r where r: "x \<in> page_bytes arena r" "if page_kind st ! q = PAGE_KIND_SLAB then r = q
        else page_kind st ! r = PAGE_KIND_LARGE \<and> unat (page_head st ! r) = q"
    using page_blocks_bytes [OF ar inv q xa] by blast
  have "r = h" using page_bytes_unique r(1) xp by blast
  with r(2) h have "q = h" by (auto simp: page_kinds split: if_splits)
  with q(2) h have an: "a = pptr arena h + 8" by (simp add: page_blocks_def page_kinds split: if_splits)
  have "n \<le> 2 ^ 62"
  proof -
    have "n = unat (read_u16 m (pptr arena h + 4)) * 4096 - 8"
      using q(2) h \<open>q = h\<close> by (simp add: page_blocks_def page_kinds split: if_splits)
    then show ?thesis using unat_bound [of "read_u16 m (pptr arena h + 4)"] by simp
  qed
  then show False using in_bytes_next [OF x, of 8 n] xa an by simp
qed

lemma free_object_not_in_blocks:
  assumes ar: "arena_ok arena" and inv: "heap_inv arena m st" and q: "q < 1024" "page_kind st ! q = PAGE_KIND_SLAB"
    and f: "f \<in> slab_free (pptr arena q) m (slabs st ! q)" and x: "in_bytes f 2 x" and b: "(a, n) \<in> heap_blocks arena m st"
  shows "\<not> in_bytes a n x"
proof
  let ?s = "slabs st ! q" and ?pg = "pptr arena q"
  assume xa: "in_bytes a n x"
  have si: "slab_inv ?pg m ?s" by (rule heap_inv_slab(3) [OF inv q])
  then have ok: "slab_ok ?pg m ?s (slab_free_list ?pg m ?s)" by (simp add: slab_inv_def)
  obtain i where i: "i \<in> set (slab_free_list ?pg m ?s)" "f = obj_addr ?pg (class_index ?s) i"
    using f by (auto simp: slab_free_def)
  have ic: "unat i < 2 ^ (8 - unat (class_index ?s))" "unat (class_index ?s) < 8"
    using ok i(1) by (auto simp: slab_ok_def word_less_nat_alt)
  have xi: "in_bytes (obj_addr ?pg (class_index ?s) i) (2 ^ (unat (class_index ?s) + 4)) x"
    using in_bytes_sub [OF x obj_ge_2] by (simp add: i(2))
  then have xp: "x \<in> page_bytes arena q"
    using obj_in_page [OF pptr_page_ok [OF ar q(1)] ic(2,1)] page_bytes_iff [OF ar q(1)] by blast
  obtain k where k: "k < 1024" "(a, n) \<in> page_blocks arena m st k" using b by (auto simp: heap_blocks_def)
  obtain r where r: "x \<in> page_bytes arena r" "if page_kind st ! k = PAGE_KIND_SLAB then r = k
        else page_kind st ! r = PAGE_KIND_LARGE \<and> unat (page_head st ! r) = k"
    using page_blocks_bytes [OF ar inv k xa] by blast
  have "r = q" using page_bytes_unique r(1) xp by blast
  with r(2) q(2) have "k = q" by (auto simp: page_kinds split: if_splits)
  with k(2) q(2) obtain j where j: "a = obj_addr ?pg (class_index ?s) j" "j < capacity ?s" "a \<notin> slab_free ?pg m ?s"
    "n = 2 ^ (unat (class_index ?s) + 4)"
    by (auto simp: page_blocks_def slab_used_def slab_objects_def)
  have "unat j < 2 ^ (8 - unat (class_index ?s))" using ok j(2) by (simp add: slab_ok_def word_less_nat_alt)
  then have "i = j" using obj_disjoint [OF pptr_page_ok [OF ar q(1)] ic(2,1)] xi xa j(1,4) by blast
  with j(1,3) i f show False by simp
qed

lemma client_write:
  assumes ar: "arena_ok arena" and inv: "heap_inv arena m st"
    and w: "\<And>x. m' x \<noteq> m x \<Longrightarrow>
      (\<exists>(a, n)\<in>heap_blocks arena m st. in_bytes a n x) \<or> (\<forall>q<1024. x \<notin> page_bytes arena q)"
  shows "heap_inv arena m' st" "heap_blocks arena m' st = heap_blocks arena m st"
proof -
  have slab: "slab_inv (pptr arena q) m' (slabs st ! q) \<and>
      slab_free_list (pptr arena q) m' (slabs st ! q) = slab_free_list (pptr arena q) m (slabs st ! q)"
    if q: "q < 1024" "page_kind st ! q = PAGE_KIND_SLAB" for q
  proof -
    let ?s = "slabs st ! q" and ?pg = "pptr arena q"
    have ok: "slab_ok ?pg m ?s (slab_free_list ?pg m ?s)" using heap_inv_slab(3) [OF inv q] by (simp add: slab_inv_def)
    have "slab_ok ?pg m' ?s (slab_free_list ?pg m ?s)"
    proof (rule slab_ok_frame [OF pptr_page_ok [OF ar q(1)] ok])
      fix x i assume i: "i \<in> set (slab_free_list ?pg m ?s)" "in_bytes (obj_addr ?pg (class_index ?s) i) 2 x"
      then have "\<not> in_bytes a n x" if "(a, n) \<in> heap_blocks arena m st" for a n
        using free_object_not_in_blocks [OF ar inv q _ _ that] by (auto simp: slab_free_def)
      moreover have "x \<in> page_bytes arena q"
      proof -
        have "unat i < 2 ^ (8 - unat (class_index ?s))" "unat (class_index ?s) < 8"
          using ok i(1) by (auto simp: slab_ok_def word_less_nat_alt)
        then show ?thesis using obj_in_page [OF pptr_page_ok [OF ar q(1)]] in_bytes_sub [OF i(2) obj_ge_2]
            page_bytes_iff [OF ar q(1)] by blast
      qed
      ultimately show "m' x = m x" using w q(1) by blast
    qed
    then show ?thesis using slab_ok_inv slab_ok_list by blast
  qed
  have hdr: "read_u32 m' (pptr arena h) = read_u32 m (pptr arena h) \<and> read_u16 m' (pptr arena h + 4) = read_u16 m (pptr arena h + 4)"
    if h: "h < 1024" "page_kind st ! h = PAGE_KIND_LARGE" "unat (page_head st ! h) = h" for h
  proof -
    have eq: "m' x = m x" if "in_bytes (pptr arena h) 8 x" for x
      using header_not_in_blocks [OF ar inv h that] w header_bytes [OF ar h(1) that] h(1) by blast
    have "read_u32 m' (pptr arena h) = read_u32 m (pptr arena h)"
      by (rule read_u32_cong) (rule eq, erule in_bytes_sub, simp)
    moreover have "read_u16 m' (pptr arena h + 4) = read_u16 m (pptr arena h + 4)"
      by (rule read_u16_cong) (rule eq, use in_bytes_shift [of "pptr arena h" 4 2] in_bytes_sub [of _ 6 _ 8] in auto)
    ultimately show ?thesis by blast
  qed
  have run: "large_run arena m' st h n" if "large_run arena m st h n" for h n
  proof -
    have "h < 1024" "page_kind st ! h = PAGE_KIND_LARGE" "unat (page_head st ! h) = h"
      using that by (auto simp: large_run_def)
    with that hdr [of h] show ?thesis by (simp add: large_run_def)
  qed
  have "page_inv arena m' st q" if q: "q < 1024" for q
  proof -
    have "page_inv arena m st q" using inv q by (simp add: heap_inv_def)
    with slab [OF q] run show ?thesis unfolding page_inv_def by blast
  qed
  then show "heap_inv arena m' st" using inv by (simp add: heap_inv_def)
  have "page_blocks arena m' st q = page_blocks arena m st q" if "q < 1024" for q
    using slab [OF that] hdr [OF that] by (simp add: page_blocks_def slab_used_def slab_free_def)
  then show "heap_blocks arena m' st = heap_blocks arena m st" by (simp add: heap_blocks_def)
qed

section \<open>Properties of the kernel heap\<close>

definition heap_ready :: "u64 \<Rightarrow> 'a heap_machine_scheme \<Rightarrow> bool" where
  "heap_ready arena s \<longleftrightarrow> heap_inv arena (mem s) (HEAP_STATE s) \<and> HEAP_READY s \<and> \<not> HEAP_LOCK s"

abbreviation blocks :: "u64 \<Rightarrow> 'a heap_machine_scheme \<Rightarrow> (u64 \<times> nat) set" where
  "blocks arena s \<equiv> heap_blocks arena (mem s) (HEAP_STATE s)"

lemma adds_block_keeps:
  assumes ar: "arena_ok arena" and inv: "heap_inv arena m st" and ad: "adds_block arena m st m' st' a n"
    and b: "(b, k) \<in> heap_blocks arena m st" and x: "in_bytes b k x"
  shows "m' x = m x"
proof -
  obtain q where q: "q < 1024" "(b, k) \<in> page_blocks arena m st q" using b by (auto simp: heap_blocks_def)
  from page_blocks_bytes [OF ar inv q x] ad show ?thesis by (auto simp: adds_block_def)
qed

lemma power_of_two_1: "is_power_of_two 1"
  by (simp add: is_power_of_two_def)

lemma heap_alloc_c_step:
  assumes ar: "arena_ok arena" and rd: "heap_ready arena s"
  shows "\<exists>p s'. heap_alloc_c arena bytes align s = Returns (p, s') \<and> heap_ready arena s' \<and>
     (if p = 0 then blocks arena s' = blocks arena s
      else \<exists>a n. (a, n) \<notin> blocks arena s \<and> blocks arena s' = insert (a, n) (blocks arena s)
        \<and> unat a \<le> unat p \<and> unat p + unat bytes \<le> unat a + n \<and> unat p mod unat (max align 1) = 0
        \<and> (n \<le> 2048 \<longrightarrow> p = a))
     \<and> (\<forall>(b, k)\<in>blocks arena s. \<forall>x. in_bytes b k x \<longrightarrow> mem s' x = mem s x)"
proof (cases "Layout_from_size_align bytes (max align 1)")
  case (Inl e)
  then have "heap_alloc_c arena bytes align s = Returns (0, s)" by (simp add: heap_alloc_c_def)
  with rd show ?thesis by auto
next
  case (Inr l)
  then have l: "layout_size l = bytes" "layout_align l = max align 1" "is_power_of_two (max align 1)"
    by (auto simp: Layout_from_size_align_def split: if_splits)
  have inv: "heap_inv arena (mem s) (HEAP_STATE s)" using rd by (simp add: heap_ready_def)
  obtain p st' m' where r: "alloc_inner arena (mem s) (HEAP_STATE s) bytes (max align 1) = Returns (p, st', m')"
    and post: "alloc_post arena (mem s) (HEAP_STATE s) bytes (max align 1) (p, st', m')"
    using alloc_inner_post [OF ar inv l(3)] by (metis prod_cases3)
  let ?s' = "s\<lparr>HEAP_LOCK := False, HEAP_STATE := st', mem := m'\<rparr>"
  have res: "heap_alloc_c arena bytes align s = Returns (p, ?s')"
    using Inr rd r l(1,2) by (simp add: heap_alloc_c_def heap_alloc_def heap_is_initialized_def with_heap_lock_def heap_ready_def)
  show ?thesis
  proof (cases "p = 0")
    case True
    then have "st' = HEAP_STATE s" "m' = mem s" using post by (auto simp: alloc_post_def)
    with res True rd show ?thesis by (auto simp: heap_ready_def)
  next
    case False
    then obtain a n where an: "adds_block arena (mem s) (HEAP_STATE s) m' st' a n" "unat a \<le> unat p"
      "unat p + unat bytes \<le> unat a + n" "unat p mod unat (max align 1) = 0" "n \<le> 2048 \<longrightarrow> p = a"
      using post by (auto simp: alloc_post_def)
    have "heap_ready arena ?s'" using an(1) rd by (simp add: adds_block_def heap_ready_def)
    moreover have "\<forall>(b, k)\<in>blocks arena s. \<forall>x. in_bytes b k x \<longrightarrow> mem ?s' x = mem s x"
      using adds_block_keeps [OF ar inv an(1)] by auto
    moreover have "(a, n) \<notin> blocks arena s" "blocks arena ?s' = insert (a, n) (blocks arena s)"
      using an(1) by (auto simp: adds_block_def)
    ultimately show ?thesis using res False an(2-5) by (intro exI [of _ p] exI [of _ ?s']) auto
  qed
qed

lemma heap_dealloc_c_step:
  assumes ar: "arena_ok arena" and rd: "heap_ready arena s" and b: "(a, n) \<in> blocks arena s"
    and p: "in_bytes a n p" "n \<le> 2048 \<longrightarrow> p = a"
  shows "\<exists>s'. heap_dealloc_c arena p s = Returns ((), s') \<and> heap_ready arena s'
     \<and> blocks arena s' = blocks arena s - {(a, n)} \<and> (\<forall>x. \<not> in_bytes a n x \<longrightarrow> mem s' x = mem s x)"
proof -
  have inv: "heap_inv arena (mem s) (HEAP_STATE s)" using rd by (simp add: heap_ready_def)
  obtain q where q: "q < 1024" "(a, n) \<in> page_blocks arena (mem s) (HEAP_STATE s) q" using b by (auto simp: heap_blocks_def)
  have "\<exists>st' m'. free_inner arena (mem s) (HEAP_STATE s) p = (st', m')
      \<and> removes_block arena (mem s) (HEAP_STATE s) m' st' a n"
  proof (cases "page_kind (HEAP_STATE s) ! q = PAGE_KIND_SLAB")
    case True
    have si: "slab_inv (pptr arena q) (mem s) (slabs (HEAP_STATE s) ! q)" by (rule heap_inv_slab(3) [OF inv q(1) True])
    have "n = 2 ^ (unat (class_index (slabs (HEAP_STATE s) ! q)) + 4)"
      using q(2) True by (auto simp: page_blocks_def slab_used_def)
    moreover have "unat (class_index (slabs (HEAP_STATE s) ! q)) + 4 \<le> 11" using si by (simp add: slab_inv_def slab_ok_def)
    ultimately have "n \<le> 2 ^ 11" by (simp only:) (rule power_increasing, simp_all)
    then have "p = a" using p(2) by simp
    with free_slab [OF ar inv q(1) True q(2)] show ?thesis by simp
  next
    case False
    from free_large [OF ar inv q(1) False q(2) p(1)] show ?thesis by blast
  qed
  then obtain st' m' where r: "free_inner arena (mem s) (HEAP_STATE s) p = (st', m')"
    "removes_block arena (mem s) (HEAP_STATE s) m' st' a n" by blast
  let ?s' = "s\<lparr>HEAP_LOCK := False, HEAP_STATE := st', mem := m'\<rparr>"
  have "heap_dealloc_c arena p s = Returns ((), ?s')"
    using rd r(1) by (simp add: heap_dealloc_c_def heap_dealloc_def heap_is_initialized_def with_heap_lock_def heap_ready_def)
  moreover have "heap_ready arena ?s'" using rd r(2) by (simp add: heap_ready_def removes_block_def)
  ultimately show ?thesis using r(2) unfolding removes_block_def by (intro exI [of _ ?s']) simp
qed

lemma fold_update_all:
  "length xs = unat (n :: u64) \<Longrightarrow> fold (\<lambda>i xs. xs[unat i := v]) (range_w 0 n) xs = replicate (unat n) v"
proof -
  have len: "length (fold (\<lambda>i xs. xs[unat i := v]) is xs) = length xs" for "is" :: "u64 list" and xs
    by (induction "is" arbitrary: xs) auto
  have nth: "fold (\<lambda>i xs. xs[unat i := v]) is xs ! j = (if \<exists>i\<in>set is. unat i = j then v else xs ! j)"
    if "j < length xs" for "is" :: "u64 list" and xs j
    using that by (induction "is" arbitrary: xs) (auto simp: nth_list_update)
  assume l: "length xs = unat n"
  have "\<exists>i\<in>set (range_w 0 n). unat i = j" if "j < unat n" for j
    using that unat_of_nat_less [OF that] by (auto simp: set_range_w_0 word_less_nat_alt intro!: bexI [of _ "word_of_nat j"])
  then show ?thesis by (intro nth_equalityI) (simp_all add: len l nth)
qed

lemma heap_reset_eq:
  assumes "heap_dims st"
  shows "heap_reset st = HeapState_new\<lparr>heap_initialized := True\<rparr>"
proof -
  have 1: "fold (\<lambda>i st. st\<lparr>page_bitmap := (page_bitmap st)[unat i := 0]\<rparr>) is st
      = st\<lparr>page_bitmap := fold (\<lambda>i xs. xs[unat i := 0]) is (page_bitmap st)\<rparr>" for "is" :: "u64 list" and st :: HeapState
    by (induction "is" arbitrary: st) simp_all
  have 2: "fold (\<lambda>i st. st\<lparr>page_kind := (page_kind st)[unat i := PAGE_KIND_FREE], page_head := (page_head st)[unat i := 0xFFFF],
        slabs := (slabs st)[unat i := SlabPage_empty]\<rparr>) is st
      = st\<lparr>page_kind := fold (\<lambda>i xs. xs[unat i := PAGE_KIND_FREE]) is (page_kind st),
           page_head := fold (\<lambda>i xs. xs[unat i := 0xFFFF]) is (page_head st),
           slabs := fold (\<lambda>i xs. xs[unat i := SlabPage_empty]) is (slabs st)\<rparr>" for "is" :: "u64 list" and st :: HeapState
    by (induction "is" arbitrary: st) simp_all
  have d: "length (page_bitmap st) = unat (HEAP_PAGE_COUNT div 8)" "length (page_kind st) = unat HEAP_PAGE_COUNT"
    "length (page_head st) = unat HEAP_PAGE_COUNT" "length (slabs st) = unat HEAP_PAGE_COUNT"
    using assms by (simp_all add: heap_dims_def)
  show ?thesis
    unfolding heap_reset_def Let_def 1 2
    by (simp add: fold_update_all [OF d(1)] fold_update_all [OF d(2)] fold_update_all [OF d(3)] fold_update_all [OF d(4)]
        HeapState_new_def del: page_count)
qed

lemma heap_reset_inv:
  assumes "heap_dims st"
  shows "heap_inv arena m (heap_reset st)" "heap_blocks arena m (heap_reset st) = {}"
proof -
  have k: "page_kind (heap_reset st) ! q = PAGE_KIND_FREE" "\<not> is_page_used (heap_reset st) (word_of_nat q)" if "q < 1024" for q
    using that unfolding heap_reset_eq [OF assms] is_page_used_bit
    by (simp_all add: HeapState_new_def unat_div word_of_nat_page)
  show "heap_inv arena m (heap_reset st)"
    using k by (simp add: heap_inv_def page_inv_def) (simp add: heap_reset_eq [OF assms] heap_dims_def HeapState_new_def)
  show "heap_blocks arena m (heap_reset st) = {}" using k by (simp add: heap_blocks_def page_blocks_def page_kinds)
qed

text \<open>When an allocation of at least one byte with a valid layout answers with null.\<close>

lemma heap_alloc_c_null:
  assumes ar: "arena_ok arena" and rd: "heap_ready arena s" and r: "heap_alloc_c arena bytes align s = Returns (0, s')"
    and b: "bytes \<noteq> 0" "is_power_of_two align"
    and n: "n = (unat bytes + unat align + 4103) div 4096" "n \<le> 1024"
  shows "\<not> free_pages (HEAP_STATE s) p n"
proof -
  have inv: "heap_inv arena (mem s) (HEAP_STATE s)" using rd by (simp add: heap_ready_def)
  have "align \<noteq> 0" using b(2) by (simp add: is_power_of_two_def)
  then have "1 \<le> align" by (simp add: word_le_nat_alt unat_gt_0 Suc_le_eq)
  then have mx: "max align 1 = align" by simp
  have "unat bytes + unat align + 4103 < (n + 1) * 4096"
    using dividend_less_div_times [of 4096 "unat bytes + unat align + 4103"] unfolding n(1) by simp
  then have small: "unat bytes + unat align < 2 ^ 32" using n(2) by simp
  have "unat (0x7FFFFFFFFFFFFFFF - (align - 1) :: u64) = 0x7FFFFFFFFFFFFFFF - (unat align - 1)"
  proof -
    have "unat (align - 1) = unat align - 1" using \<open>align \<noteq> 0\<close> by (rule unat_minus_one)
    moreover from this have "align - 1 \<le> 0x7FFFFFFFFFFFFFFF" using small by (simp add: word_le_nat_alt)
    ultimately show ?thesis by (subst unat_sub) simp_all
  qed
  then have "\<not> bytes > 0x7FFFFFFFFFFFFFFF - (align - 1)" using small by (simp add: word_less_nat_alt)
  then have lay: "Layout_from_size_align bytes (max align 1) = Ok \<lparr>layout_size = bytes, layout_align = align\<rparr>"
    using b(2) mx by (simp add: Layout_from_size_align_def)
  obtain q st' m' where q: "alloc_inner arena (mem s) (HEAP_STATE s) bytes align = Returns (q, st', m')"
    using alloc_inner_post [OF ar inv b(2)] by (metis prod_cases3)
  with r lay rd have q0: "q = 0"
    by (auto simp: heap_alloc_c_def heap_alloc_def heap_is_initialized_def with_heap_lock_def heap_ready_def)
  obtain x st1 m1 where sm: "alloc_small arena (mem s) (HEAP_STATE s) bytes align = Returns (x, st1, m1)"
    "alloc_post arena (mem s) (HEAP_STATE s) bytes align (x, st1, m1)"
    using alloc_small_correct [OF ar inv b(2)] by (metis prod_cases3)
  have "fst (alloc_large arena (mem s) (HEAP_STATE s) bytes align) = 0"
    using q q0 b(1) sm by (auto simp: alloc_inner_def alloc_post_def split: if_splits)
  from large_failure [OF ar inv b(2) n this] show ?thesis .
qed

text \<open>
  C8: on a ready heap, an allocation always returns and never panics. A null result changes no
  block. Any other result points, with the alignment asked for, into one new block with room for
  all the bytes asked for; all other blocks and their contents are kept and the heap stays ready.
\<close>

theorem heap_alloc_c_correct:
  assumes "arena_ok arena" "heap_ready arena s"
  shows "\<exists>p s'. heap_alloc_c arena bytes align s = Returns (p, s') \<and> heap_ready arena s' \<and>
     (if p = 0 then blocks arena s' = blocks arena s
      else \<exists>a n. (a, n) \<notin> blocks arena s \<and> blocks arena s' = insert (a, n) (blocks arena s)
        \<and> unat a \<le> unat p \<and> unat p + unat bytes \<le> unat a + n \<and> unat p mod unat (max align 1) = 0
        \<and> (n \<le> 2048 \<longrightarrow> p = a))
     \<and> (\<forall>(b, k)\<in>blocks arena s. \<forall>x. in_bytes b k x \<longrightarrow> mem s' x = mem s x)"
  by (rule heap_alloc_c_step [OF assms])


text \<open>
  C10: an allocation fails only for lack of memory: when a request of at least one byte with a
  power-of-two alignment is answered with null, the arena has no run of free pages long enough for
  the request, its alignment and a header.
\<close>

theorem heap_alloc_c_fails_only_when_full:
  assumes "arena_ok arena" "heap_ready arena s" "heap_alloc_c arena bytes align s = Returns (0, s')"
    and "bytes \<noteq> 0" "is_power_of_two align" "(unat bytes + unat align + 4103) div 4096 \<le> 1024"
  shows "\<not> (\<exists>p. free_pages (HEAP_STATE s) p ((unat bytes + unat align + 4103) div 4096))"
  using heap_alloc_c_null [OF assms(1-5) refl assms(6)] by blast

section \<open>Sequences of heap calls\<close>

text \<open>
  Calls of the heap interface mixed with writes of its clients: into blocks they hold, or outside
  the arena. A client releases only pointers of blocks it holds.
\<close>

inductive heap_call :: "u64 \<Rightarrow> 'a heap_machine_scheme \<Rightarrow> 'a heap_machine_scheme \<Rightarrow> bool" for arena where
  heap_call_alloc: "heap_alloc_c arena bytes align s = Returns (p, s') \<Longrightarrow> heap_call arena s s'"
| heap_call_free: "(a, n) \<in> blocks arena s \<Longrightarrow> in_bytes a n p \<Longrightarrow> n \<le> 2048 \<longrightarrow> p = a \<Longrightarrow>
    heap_dealloc_c arena p s = Returns ((), s') \<Longrightarrow> heap_call arena s s'"
| heap_call_null: "heap_dealloc_c arena 0 s = Returns ((), s') \<Longrightarrow> heap_call arena s s'"
| heap_client_write: "(\<And>x. m' x \<noteq> mem s x \<Longrightarrow>
      (\<exists>(a, n)\<in>blocks arena s. in_bytes a n x) \<or> (\<forall>q<1024. x \<notin> page_bytes arena q)) \<Longrightarrow>
    heap_call arena s (s\<lparr>mem := m'\<rparr>)"

inductive heap_reachable :: "u64 \<Rightarrow> 'a heap_machine_scheme \<Rightarrow> 'a heap_machine_scheme \<Rightarrow> bool" for arena s0 where
  heap_reach_refl: "heap_reachable arena s0 s0"
| heap_reach_step: "heap_reachable arena s0 s \<Longrightarrow> heap_call arena s s' \<Longrightarrow> heap_reachable arena s0 s'"

lemma heap_call_ready:
  assumes ar: "arena_ok arena"
  shows "heap_call arena s s' \<Longrightarrow> heap_ready arena s \<Longrightarrow> heap_ready arena s'"
proof (induction rule: heap_call.induct)
  case (heap_call_alloc bytes align s p s')
  with heap_alloc_c_step [OF ar, of s bytes align] show ?case by auto
next
  case (heap_call_free a n s p s')
  with heap_dealloc_c_step [OF ar, of s a n p] show ?case by auto
next
  case (heap_call_null s s')
  then show ?case
    by (auto simp: heap_dealloc_c_def heap_dealloc_def heap_is_initialized_def with_heap_lock_def heap_ready_def free_inner_def)
next
  case (heap_client_write m' s)
  then have inv: "heap_inv arena (mem s) (HEAP_STATE s)" by (simp add: heap_ready_def)
  from client_write(1) [OF ar inv heap_client_write.hyps] heap_client_write.prems show ?case by (simp add: heap_ready_def)
qed

lemma heap_reachable_ready: "heap_reachable arena s0 s \<Longrightarrow> arena_ok arena \<Longrightarrow> heap_ready arena s0 \<Longrightarrow> heap_ready arena s"
  by (induction rule: heap_reachable.induct) (auto intro: heap_call_ready)

lemma heap_init_c_ready:
  assumes "heap_dims (HEAP_STATE s)" "\<not> HEAP_LOCK s"
  obtains s' where "heap_init_c s = Returns (0, s')" "heap_ready arena s'" "blocks arena s' = {}" "mem s' = mem s"
proof -
  let ?s' = "s\<lparr>HEAP_LOCK := False, HEAP_STATE := heap_reset (HEAP_STATE s), HEAP_READY := True\<rparr>"
  have "heap_init_c s = Returns (0, ?s')" using assms(2) by (simp add: heap_init_c_def heap_init_def with_heap_lock_def)
  moreover have "heap_ready arena ?s'" "blocks arena ?s' = {}"
    using heap_reset_inv [OF assms(1)] by (simp_all add: heap_ready_def)
  ultimately show thesis using that by simp
qed

text \<open>
  C7: after \<^verbatim>\<open>heap_init_c\<close>, in every state reached by allocations, releases and client writes in any
  order, the invariant of the heap holds and the blocks handed out are pairwise disjoint byte
  ranges inside the arena.
\<close>

theorem heap_blocks_disjoint:
  assumes "arena_ok arena" "heap_dims (HEAP_STATE s)" "\<not> HEAP_LOCK s"
    and "heap_init_c s = Returns (c, s0)" and "heap_reachable arena s0 s'"
  shows "c = 0 \<and> heap_ready arena s'
     \<and> (\<forall>a n b k x. (a, n) \<in> blocks arena s' \<longrightarrow> (b, k) \<in> blocks arena s' \<longrightarrow> in_bytes a n x \<longrightarrow> in_bytes b k x
          \<longrightarrow> (a, n) = (b, k))
     \<and> (\<forall>a n x. (a, n) \<in> blocks arena s' \<longrightarrow> in_bytes a n x \<longrightarrow> in_bytes arena 4194304 x)"
proof -
  obtain s1 where s1: "heap_init_c s = Returns (0, s1)" "heap_ready arena s1"
    using heap_init_c_ready [OF assms(2,3)] by metis
  then have c: "c = 0" "s1 = s0" using assms(4) by auto
  have rd: "heap_ready arena s'" using heap_reachable_ready [OF assms(5,1)] s1(2) c(2) by simp
  then have inv: "heap_inv arena (mem s') (HEAP_STATE s')" by (simp add: heap_ready_def)
  have "in_bytes arena 4194304 x" if b: "(a, n) \<in> blocks arena s'" and x: "in_bytes a n x" for a n x
  proof -
    obtain q where "q < 1024" "(a, n) \<in> page_blocks arena (mem s') (HEAP_STATE s') q"
      using b by (auto simp: heap_blocks_def)
    from page_blocks_bytes [OF assms(1) inv this x] obtain r where r: "r < 1024" "x \<in> page_bytes arena r" by blast
    have "unat arena + 4194304 \<le> 2 ^ 64" using assms(1) by (simp add: arena_ok_def)
    moreover have "r * 4096 + 4096 \<le> 4194304" using r(1) by simp
    ultimately show ?thesis using r(2) by (simp add: in_bytes_nowrap page_bytes_def)
  qed
  with c(1) rd blocks_disjoint [OF assms(1) inv] show ?thesis by blast
qed

section \<open>A concrete heap\<close>

definition demo_heap :: heap_machine where
  "demo_heap = \<lparr>mem = (\<lambda>_. 0), HEAP_STATE = heap_reset HeapState_new, HEAP_LOCK = False, HEAP_READY = True\<rparr>"

lemma demo_dims: "heap_dims HeapState_new"
  by (simp add: heap_dims_def HeapState_new_def)

lemma demo_arena: "arena_ok 0x400000"
  by (simp add: arena_ok_def SLAB_PAGE_SIZE_def)

lemma demo_heap_ready: "heap_ready 0x400000 demo_heap" "blocks 0x400000 demo_heap = {}"
  using heap_reset_inv [OF demo_dims] by (simp_all add: heap_ready_def demo_heap_def)

theorem heap_alloc_c_correct_witness:
  "\<exists>p s'. heap_alloc_c 0x400000 100 8 demo_heap = Returns (p, s') \<and> heap_ready 0x400000 s'
     \<and> (p = 0 \<or> (\<exists>a n. blocks 0x400000 s' = {(a, n)} \<and> unat p + unat (100 :: usize) \<le> unat a + n))"
  using heap_alloc_c_correct [OF demo_arena demo_heap_ready(1), of 100 8] demo_heap_ready(2)
  by (metis (no_types, lifting))

theorem heap_blocks_disjoint_witness:
  "\<exists>s0. heap_init_c \<lparr>mem = (\<lambda>_. 0), HEAP_STATE = HeapState_new, HEAP_LOCK = False, HEAP_READY = False\<rparr> = Returns (0, s0)
     \<and> heap_ready 0x400000 s0"
proof -
  let ?s = "\<lparr>mem = (\<lambda>_. 0), HEAP_STATE = HeapState_new, HEAP_LOCK = False, HEAP_READY = False\<rparr>"
  have h: "heap_dims (HEAP_STATE ?s)" "\<not> HEAP_LOCK ?s" by (simp_all add: demo_dims)
  obtain s0 where s0: "heap_init_c ?s = Returns (0, s0)" using heap_init_c_ready [OF h] by metis
  with heap_blocks_disjoint [OF demo_arena h s0 heap_reach_refl] show ?thesis by blast
qed

lemma demo_free_pages: "free_pages (HEAP_STATE demo_heap) 0 1"
  unfolding free_pages_def demo_heap_def by (simp add: heap_reset_eq [OF demo_dims]) (simp add: is_page_used_def HeapState_new_def)

theorem heap_alloc_c_fails_only_when_full_witness:
  "\<exists>p s'. heap_alloc_c 0x400000 100 8 demo_heap = Returns (p, s') \<and> p \<noteq> 0"
proof -
  obtain p s' where r: "heap_alloc_c 0x400000 100 8 demo_heap = Returns (p, s')"
    using heap_alloc_c_step [OF demo_arena demo_heap_ready(1), of 100 8] by blast
  have "p \<noteq> 0"
  proof
    assume "p = 0"
    with heap_alloc_c_fails_only_when_full [OF demo_arena demo_heap_ready(1), of 100 8 s'] r demo_free_pages
    show False by (simp add: is_power_of_two_def)
  qed
  with r show ?thesis by blast
qed


end
