(* ===== verification/E820.thy ===== *)
theory E820
  imports Prelude
begin

text \<open>
  The E820 memory map of \<^verbatim>\<open>memory/e820.rs\<close>: memory zones, memory region types, the 24-byte
  map entries the bootloader leaves in memory, the scan that finds how many of them are valid
  and the queries the physical memory manager makes. Lemmas: the zones partition the address
  space, the scan stops at the first invalid entry, the queries compute maxima, sums and
  counts over the entries.
\<close>

unbundle bit_operations_syntax

section \<open>Zones and types\<close>

definition MAX_MEMORY_ENTRIES :: usize where "MAX_MEMORY_ENTRIES = 64"
definition DMA_ZONE_END :: u64 where "DMA_ZONE_END = 16 * 1024 * 1024"
definition DMA32_ZONE_END :: u64 where "DMA32_ZONE_END = 4 * 1024 * 1024 * 1024"

lemmas zone_consts = DMA_ZONE_END_def DMA32_ZONE_END_def

datatype MemoryZone = Dma | Dma32 | Normal | HighMem

text \<open>\<^verbatim>\<open>zone as usize\<close>: the index of a zone in the statistics array.\<close>

fun zone_index :: "MemoryZone \<Rightarrow> nat" where
  "zone_index Dma = 0"
| "zone_index Dma32 = 1"
| "zone_index Normal = 2"
| "zone_index HighMem = 3"

fun start_address :: "MemoryZone \<Rightarrow> u64" where
  "start_address Dma = 0"
| "start_address Dma32 = DMA_ZONE_END"
| "start_address Normal = DMA32_ZONE_END"
| "start_address HighMem = - 1"

fun end_address :: "MemoryZone \<Rightarrow> u64" where
  "end_address Dma = DMA_ZONE_END"
| "end_address Dma32 = DMA32_ZONE_END"
| "end_address Normal = - 1"
| "end_address HighMem = - 1"

definition from_address :: "u64 \<Rightarrow> MemoryZone" where
  "from_address addr =
     (if addr < DMA_ZONE_END then Dma
      else if addr < DMA32_ZONE_END then Dma32
      else Normal)"

datatype NumaNode = NumaNode (numa_id: u8)

datatype E820Type = Usable | Reserved | AcpiReclaimable | AcpiNvs | BadMemory | Unknown

definition E820Type_from_u32 :: "u32 \<Rightarrow> E820Type" where
  "E820Type_from_u32 val =
     (if val = 1 then Usable else if val = 2 then Reserved else if val = 3 then AcpiReclaimable
      else if val = 4 then AcpiNvs else if val = 5 then BadMemory else Unknown)"

fun E820Type_is_usable :: "E820Type \<Rightarrow> bool" where
  "E820Type_is_usable t \<longleftrightarrow> t = Usable"

section \<open>Entries\<close>

record E820Entry =
  entry_base :: u64
  entry_length :: u64
  region_type :: u32
  acpi_extended :: u32

definition entry_end :: "E820Entry \<Rightarrow> u64" where
  "entry_end e = saturating_add (entry_base e) (entry_length e)"

definition memory_type :: "E820Entry \<Rightarrow> E820Type" where
  "memory_type e = E820Type_from_u32 (region_type e)"

definition is_valid :: "E820Entry \<Rightarrow> bool" where
  "is_valid e \<longleftrightarrow> entry_length e > 0 \<and> (acpi_extended e AND 1 \<noteq> 0 \<or> acpi_extended e = 0)"

definition is_usable :: "E820Entry \<Rightarrow> bool" where
  "is_usable e \<longleftrightarrow> is_valid e \<and> E820Type_is_usable (memory_type e)"

definition overlaps :: "E820Entry \<Rightarrow> u64 \<Rightarrow> u64 \<Rightarrow> bool" where
  "overlaps e start end' \<longleftrightarrow> entry_base e < end' \<and> entry_end e > start"

definition contains :: "E820Entry \<Rightarrow> u64 \<Rightarrow> bool" where
  "contains e addr \<longleftrightarrow> addr \<ge> entry_base e \<and> addr < entry_end e"

definition entry_zone :: "E820Entry \<Rightarrow> MemoryZone" where
  "entry_zone e = from_address (entry_base e)"

definition zone_overlap :: "E820Entry \<Rightarrow> MemoryZone \<Rightarrow> (u64 \<times> u64) option" where
  "zone_overlap e zone =
     (let zone_start = start_address zone; zone_end = end_address zone;
          entry_start = entry_base e; entry_end' = entry_end e
      in if entry_start \<ge> zone_end \<or> entry_end' \<le> zone_start then None
         else let overlap_start = max entry_start zone_start;
                  overlap_end = min entry_end' zone_end
              in Some (overlap_start, overlap_end - overlap_start))"

section \<open>The map\<close>

record MemoryMap =
  entries_ptr :: u64
  count :: usize

text \<open>\<^verbatim>\<open>size_of::<E820Entry>()\<close> of the packed struct and \<^verbatim>\<open>read_unaligned\<close> of entry \<open>i\<close>.\<close>

definition E820Entry_size :: u64 where "E820Entry_size = 24"

definition read_entry :: "memory \<Rightarrow> u64 \<Rightarrow> usize \<Rightarrow> E820Entry" where
  "read_entry m ptr i =
     (let p = ptr + i * E820Entry_size
      in \<lparr>entry_base = read_u64 m p, entry_length = read_u64 m (p + 8),
          region_type = read_u32 m (p + 16), acpi_extended = read_u32 m (p + 20)\<rparr>)"

definition scan_stops :: "E820Entry \<Rightarrow> bool" where
  "scan_stops e \<longleftrightarrow> region_type e < 1 \<or> region_type e > 5 \<or> entry_length e = 0"

function parse_count :: "memory \<Rightarrow> u64 \<Rightarrow> usize \<Rightarrow> usize" where
  "parse_count m ptr cnt =
     (if cnt < MAX_MEMORY_ENTRIES
      then if scan_stops (read_entry m ptr cnt) then cnt
           else parse_count m ptr (cnt + 1)
      else cnt)"
  by pat_completeness auto
termination
  by (relation "measure (\<lambda>(m, ptr, cnt). unat MAX_MEMORY_ENTRIES - unat cnt)")
    (auto simp: diff_unat_less)

declare parse_count.simps [simp del]

definition MemoryMap_parse :: "memory \<Rightarrow> u64 \<Rightarrow> MemoryMap" where
  "MemoryMap_parse m memory_map_addr =
     \<lparr>entries_ptr = memory_map_addr, count = parse_count m memory_map_addr 0\<rparr>"

definition mm_get :: "memory \<Rightarrow> MemoryMap \<Rightarrow> usize \<Rightarrow> E820Entry option" where
  "mm_get m mp index =
     (if index < count mp then Some (read_entry m (entries_ptr mp) index) else None)"

text \<open>The \<^verbatim>\<open>while i < self.count { if let Some(entry) = self.get(i) { .. } i += 1 }\<close> loops.\<close>

definition mm_loop :: "memory \<Rightarrow> MemoryMap \<Rightarrow> (E820Entry \<Rightarrow> 's \<Rightarrow> 's) \<Rightarrow> 's \<Rightarrow> 's" where
  "mm_loop m mp body s =
     fold (\<lambda>i s. case mm_get m mp i of Some entry \<Rightarrow> body entry s | None \<Rightarrow> s)
       (range_w 0 (count mp)) s"

definition total_usable_memory :: "memory \<Rightarrow> MemoryMap \<Rightarrow> u64" where
  "total_usable_memory m mp =
     mm_loop m mp (\<lambda>e total. if is_usable e then total + entry_length e else total) 0"

definition mm_total_memory :: "memory \<Rightarrow> MemoryMap \<Rightarrow> u64" where
  "mm_total_memory m mp =
     mm_loop m mp (\<lambda>e total. if is_valid e then total + entry_length e else total) 0"

definition largest_usable_region :: "memory \<Rightarrow> MemoryMap \<Rightarrow> E820Entry option" where
  "largest_usable_region m mp =
     fst (mm_loop m mp
       (\<lambda>e (largest, max_len). if is_usable e \<and> entry_length e > max_len
          then (Some e, entry_length e) else (largest, max_len)) (None, 0))"

definition find_usable_region_containing :: "memory \<Rightarrow> MemoryMap \<Rightarrow> u64 \<Rightarrow> E820Entry option" where
  "find_usable_region_containing m mp addr =
     mm_loop m mp
       (\<lambda>e found. case found of Some r \<Rightarrow> Some r
          | None \<Rightarrow> if is_usable e \<and> contains e addr then Some e else None) None"

definition highest_usable_address :: "memory \<Rightarrow> MemoryMap \<Rightarrow> u64" where
  "highest_usable_address m mp =
     mm_loop m mp
       (\<lambda>e highest. if is_usable e then (if entry_end e > highest then entry_end e else highest)
          else highest) 0"

definition usable_region_count :: "memory \<Rightarrow> MemoryMap \<Rightarrow> usize" where
  "usable_region_count m mp = mm_loop m mp (\<lambda>e c. if is_usable e then c + 1 else c) 0"

definition valid_entry_count :: "memory \<Rightarrow> MemoryMap \<Rightarrow> usize" where
  "valid_entry_count m mp = mm_loop m mp (\<lambda>e c. if is_valid e then c + 1 else c) 0"

definition zone_memory :: "memory \<Rightarrow> MemoryMap \<Rightarrow> MemoryZone \<Rightarrow> u64" where
  "zone_memory m mp zone =
     mm_loop m mp
       (\<lambda>e total. if is_usable e
          then (case zone_overlap e zone of Some (_, len) \<Rightarrow> total + len | None \<Rightarrow> total)
          else total) 0"

definition zone_region_count :: "memory \<Rightarrow> MemoryMap \<Rightarrow> MemoryZone \<Rightarrow> usize" where
  "zone_region_count m mp zone =
     mm_loop m mp (\<lambda>e c. if is_usable e \<and> entry_zone e = zone then c + 1 else c) 0"

section \<open>Properties\<close>

subsection \<open>Zones\<close>

lemma zone_end_le: "DMA_ZONE_END \<le> DMA32_ZONE_END" "DMA32_ZONE_END \<le> - 1"
  by (simp_all add: zone_consts)

lemma from_address_iff:
  "addr \<noteq> - 1 \<Longrightarrow> from_address addr = z \<longleftrightarrow> start_address z \<le> addr \<and> addr < end_address z"
proof -
  assume "addr \<noteq> - 1"
  then have "addr < - 1" by (simp add: order.not_eq_order_implies_strict)
  then show ?thesis
    using zone_end_le
    by (cases z) (auto simp: from_address_def not_less intro: order.strict_trans2)
qed

lemma zone_overlap_contained:
  assumes "zone_overlap e z = Some (s, len)" "entry_base e < entry_end e" "z \<noteq> HighMem"
  shows "start_address z \<le> s \<and> entry_base e \<le> s \<and> s < s + len
       \<and> s + len = min (entry_end e) (end_address z)"
proof -
  have "start_address z < end_address z"
    using assms(3) by (cases z) (simp_all add: zone_consts)
  with assms show ?thesis
    by (auto simp: zone_overlap_def Let_def not_le split: if_splits)
qed

definition zone_share :: "E820Entry \<Rightarrow> MemoryZone \<Rightarrow> u64" where
  "zone_share e z = (case zone_overlap e z of Some (_, len) \<Rightarrow> len | None \<Rightarrow> 0)"

text \<open>The part of \<open>[a, b)\<close> inside \<open>[lo, hi)\<close> is the distance of the clamped end points.\<close>

definition clamp_w :: "u64 \<Rightarrow> u64 \<Rightarrow> u64 \<Rightarrow> u64" where
  "clamp_w lo hi x = min (max x lo) hi"

lemma interval_share:
  assumes "a \<le> b" "lo \<le> hi"
  shows "(if hi \<le> a \<or> b \<le> lo then 0 else min b hi - max a lo) = clamp_w lo hi b - clamp_w lo hi a"
proof -
  consider "hi \<le> a" | "b \<le> lo" | "a < hi" "lo < b" by fastforce
  then show ?thesis
  proof cases
    case 1
    with assms have "hi \<le> b" "lo \<le> a" "lo \<le> b" by auto
    with 1 show ?thesis by (simp add: clamp_w_def max_absorb1)
  next
    case 2
    with assms have "a \<le> lo" by auto
    with 2 assms show ?thesis by (simp add: clamp_w_def max_absorb2)
  next
    case 3
    then have "\<not> hi \<le> a" "\<not> b \<le> lo" by auto
    with assms show ?thesis by (simp add: clamp_w_def max_absorb1)
  qed
qed

lemma clamp_partition:
  assumes "d \<le> k"
  shows "clamp_w 0 d x + clamp_w d k x + clamp_w k (- 1) x = x + d + k"
proof -
  consider "x \<le> d" | "d \<le> x" "x \<le> k" | "k \<le> x" by fastforce
  then show ?thesis
  proof cases
    case 1
    with assms have "x \<le> k" by auto
    with 1 assms show ?thesis by (simp add: clamp_w_def max_absorb2)
  next
    case 2
    then show ?thesis by (simp add: clamp_w_def max_absorb1 max_absorb2)
  next
    case 3
    with assms have "d \<le> x" by auto
    with 3 show ?thesis by (simp add: clamp_w_def max_absorb1)
  qed
qed

lemma zone_share_clamp:
  assumes "entry_base e \<le> entry_end e"
  shows "zone_share e z = clamp_w (start_address z) (end_address z) (entry_end e)
     - clamp_w (start_address z) (end_address z) (entry_base e)"
proof -
  have "start_address z \<le> end_address z" using zone_end_le by (cases z) simp_all
  then show ?thesis
    by (simp add: interval_share [OF assms, symmetric] zone_share_def zone_overlap_def Let_def)
qed

lemma zone_shares_sum:
  assumes "entry_base e \<le> entry_end e"
  shows "zone_share e Dma + zone_share e Dma32 + zone_share e Normal = entry_end e - entry_base e"
  using clamp_partition [OF zone_end_le(1), of "entry_end e"]
    clamp_partition [OF zone_end_le(1), of "entry_base e"]
  by (simp add: zone_share_clamp [OF assms]) (simp add: algebra_simps)

subsection \<open>Parsing\<close>

lemma parse_count_bounds: "cnt \<le> MAX_MEMORY_ENTRIES \<Longrightarrow> cnt \<le> parse_count m ptr cnt
    \<and> parse_count m ptr cnt \<le> MAX_MEMORY_ENTRIES"
proof (induction m ptr cnt rule: parse_count.induct)
  case (1 m ptr cnt)
  show ?case
  proof (cases "cnt < MAX_MEMORY_ENTRIES \<and> \<not> scan_stops (read_entry m ptr cnt)")
    case True
    then have "unat (cnt + 1) = Suc (unat cnt)" using unat_add_1 by blast
    with True 1 show ?thesis
      by (auto simp: parse_count.simps [of m ptr cnt] word_le_nat_alt word_less_nat_alt)
  qed (use 1 in \<open>auto simp: parse_count.simps [of m ptr cnt]\<close>)
qed

lemma parse_count_prefix:
  "i < parse_count m ptr cnt \<Longrightarrow> cnt \<le> i \<Longrightarrow> \<not> scan_stops (read_entry m ptr i)"
proof (induction m ptr cnt rule: parse_count.induct)
  case (1 m ptr cnt)
  show ?case
  proof (cases "cnt < MAX_MEMORY_ENTRIES \<and> \<not> scan_stops (read_entry m ptr cnt)")
    case True
    show ?thesis
    proof (cases "i = cnt")
      case False
      with "1.prems" have "cnt + 1 \<le> i" by (simp add: inc_le)
      with True 1 show ?thesis by (simp add: parse_count.simps [of m ptr cnt])
    qed (use True in simp)
  qed (use 1 in \<open>auto simp: parse_count.simps [of m ptr cnt] split: if_splits\<close>)
qed

lemma parse_count_stop:
  "parse_count m ptr cnt < MAX_MEMORY_ENTRIES \<Longrightarrow> scan_stops (read_entry m ptr (parse_count m ptr cnt))"
proof (induction m ptr cnt rule: parse_count.induct)
  case (1 m ptr cnt)
  then show ?case
    by (cases "cnt < MAX_MEMORY_ENTRIES"; cases "scan_stops (read_entry m ptr cnt)")
      (auto simp: parse_count.simps [of m ptr cnt])
qed

subsection \<open>Loops over the entries\<close>

definition mm_entries :: "memory \<Rightarrow> MemoryMap \<Rightarrow> E820Entry list" where
  "mm_entries m mp = map (read_entry m (entries_ptr mp)) (range_w 0 (count mp))"

lemma mm_loop_eq_fold: "mm_loop m mp body s = fold body (mm_entries m mp) s"
proof -
  have "fold (\<lambda>i s. case mm_get m mp i of Some entry \<Rightarrow> body entry s | None \<Rightarrow> s) xs s
      = fold body (map (read_entry m (entries_ptr mp)) xs) s"
    if "\<forall>i\<in>set xs. i < count mp" for xs
    using that by (induction xs arbitrary: s) (auto simp: mm_get_def)
  then show ?thesis by (simp add: mm_loop_def mm_entries_def set_range_w)
qed

lemma fold_max_upper:
  fixes f :: "'a \<Rightarrow> 'b::linorder"
  shows "h \<le> fold (\<lambda>e h. if P e then (if f e > h then f e else h) else h) es h
    \<and> (\<forall>e\<in>set es. P e \<longrightarrow> f e \<le> fold (\<lambda>e h. if P e then (if f e > h then f e else h) else h) es h)"
proof (induction es arbitrary: h)
  case (Cons e es)
  show ?case using Cons [of h] Cons [of "f e"] by (auto intro: order.trans)
qed simp

lemma fold_max_attained:
  fixes f :: "'a \<Rightarrow> 'b::linorder"
  shows "fold (\<lambda>e h. if P e then (if f e > h then f e else h) else h) es h = h
    \<or> (\<exists>e\<in>set es. P e \<and> f e = fold (\<lambda>e h. if P e then (if f e > h then f e else h) else h) es h)"
proof (induction es arbitrary: h)
  case (Cons e es)
  show ?case using Cons [of h] Cons [of "f e"] by auto
qed simp

lemma highest_usable_address_upper:
  "e \<in> set (mm_entries m mp) \<Longrightarrow> is_usable e \<Longrightarrow> entry_end e \<le> highest_usable_address m mp"
  unfolding highest_usable_address_def mm_loop_eq_fold
  using fold_max_upper [where P = is_usable and f = entry_end and es = "mm_entries m mp" and h = 0]
  by simp

lemma highest_usable_address_attained:
  "highest_usable_address m mp = 0
   \<or> (\<exists>e\<in>set (mm_entries m mp). is_usable e \<and> entry_end e = highest_usable_address m mp)"
  unfolding highest_usable_address_def mm_loop_eq_fold
  using fold_max_attained [where P = is_usable and f = entry_end and es = "mm_entries m mp" and h = 0]
  by simp

lemma fold_sum_if:
  fixes f :: "'a \<Rightarrow> 'b::ab_group_add"
  shows "fold (\<lambda>e t. if P e then t + f e else t) es t = t + (\<Sum>e\<leftarrow>es. if P e then f e else 0)"
  by (induction es arbitrary: t) (auto simp: add.assoc)

lemma total_usable_memory_eq:
  "total_usable_memory m mp = (\<Sum>e\<leftarrow>mm_entries m mp. if is_usable e then entry_length e else 0)"
  by (simp add: total_usable_memory_def mm_loop_eq_fold fold_sum_if)

lemma zone_memory_eq:
  "zone_memory m mp z = (\<Sum>e\<leftarrow>mm_entries m mp. if is_usable e then zone_share e z else 0)"
proof -
  have "(\<lambda>e total. if is_usable e
          then (case zone_overlap e z of Some (_, len) \<Rightarrow> total + len | None \<Rightarrow> total) else total)
      = (\<lambda>e total. if is_usable e then total + zone_share e z else total)"
    by (auto simp: fun_eq_iff zone_share_def split: option.splits)
  then show ?thesis by (simp add: zone_memory_def mm_loop_eq_fold fold_sum_if)
qed

lemma entry_end_no_wrap:
  "entry_base e \<le> entry_base e + entry_length e \<Longrightarrow> entry_end e = entry_base e + entry_length e"
  by (simp add: entry_end_def saturating_add_def leD)

lemma entry_base_le_end: "entry_base e \<le> entry_end e"
  by (simp add: entry_end_def saturating_add_def not_less)

lemma entry_share_total:
  assumes "entry_base e \<le> entry_base e + entry_length e"
  shows "zone_share e Dma + zone_share e Dma32 + zone_share e Normal = entry_length e"
  using zone_shares_sum [OF entry_base_le_end, of e] by (simp add: entry_end_no_wrap [OF assms])

subsection \<open>Main results\<close>

definition one_entry_memory :: memory where
  "one_entry_memory = (\<lambda>x. if x = 0x7002 then 0x10 else if x = 0x700B then 0x08
     else if x = 0x7010 then 1 else 0)"

lemma one_entry_read:
  "read_entry one_entry_memory 0x7000 0
   = \<lparr>entry_base = 0x100000, entry_length = 0x8000000, region_type = 1, acpi_extended = 0\<rparr>"
  by code_simp

lemma one_entry_count: "count (MemoryMap_parse one_entry_memory 0x7000) = 1"
  by code_simp

lemma one_entry_entries:
  "mm_entries one_entry_memory (MemoryMap_parse one_entry_memory 0x7000)
   = [\<lparr>entry_base = 0x100000, entry_length = 0x8000000, region_type = 1, acpi_extended = 0\<rparr>]"
  by code_simp



text \<open>
  the DMA, DMA32 and normal zones partition the usable memory. When no usable entry wraps
  around the address space, the memory the map reports for the three zones adds up to the total
  usable memory it reports, modulo the width of the sums.
\<close>

theorem zone_memory_partition:
  assumes "\<forall>e\<in>set (mm_entries m mp). is_usable e \<longrightarrow> entry_base e \<le> entry_base e + entry_length e"
  shows "zone_memory m mp Dma + zone_memory m mp Dma32 + zone_memory m mp Normal
       = total_usable_memory m mp"
proof -
  have "(\<Sum>e\<leftarrow>es. if is_usable e then zone_share e Dma else 0)
      + (\<Sum>e\<leftarrow>es. if is_usable e then zone_share e Dma32 else 0)
      + (\<Sum>e\<leftarrow>es. if is_usable e then zone_share e Normal else 0)
      = (\<Sum>e\<leftarrow>es. if is_usable e then entry_length e else 0)"
    if "\<forall>e\<in>set es. is_usable e \<longrightarrow> entry_base e \<le> entry_base e + entry_length e" for es
    using that
    by (induction es) (auto simp: entry_share_total [unfolded add.assoc] algebra_simps)
  with assms show ?thesis by (simp add: zone_memory_eq total_usable_memory_eq)
qed

theorem zone_memory_partition_witness:
  "zone_memory one_entry_memory (MemoryMap_parse one_entry_memory 0x7000) Dma
   + zone_memory one_entry_memory (MemoryMap_parse one_entry_memory 0x7000) Dma32
   + zone_memory one_entry_memory (MemoryMap_parse one_entry_memory 0x7000) Normal = 0x8000000"
proof -
  let ?mp = "MemoryMap_parse one_entry_memory 0x7000"
  have h: "\<forall>e\<in>set (mm_entries one_entry_memory ?mp).
      is_usable e \<longrightarrow> entry_base e \<le> entry_base e + entry_length e"
    by (simp add: one_entry_entries)
  have "total_usable_memory one_entry_memory ?mp = 0x8000000"
    by (simp add: total_usable_memory_eq one_entry_entries is_usable_def is_valid_def
        memory_type_def E820Type_from_u32_def)
  with zone_memory_partition [OF h] show ?thesis by simp
qed

text \<open>
  the address that sizes the frame bitmap is the largest end of a usable region, and 0 when
  the map has no usable region.
\<close>

theorem highest_usable_address_is_max:
  "highest_usable_address m mp =
     (if {e \<in> set (mm_entries m mp). is_usable e} = {} then 0
      else Max (entry_end ` {e \<in> set (mm_entries m mp). is_usable e}))"
proof (cases "{e \<in> set (mm_entries m mp). is_usable e} = {}")
  case True
  then show ?thesis using highest_usable_address_attained [of m mp] by auto
next
  case False
  let ?U = "entry_end ` {e \<in> set (mm_entries m mp). is_usable e}"
  from False have ne: "?U \<noteq> {}" by simp
  have "Max ?U \<le> highest_usable_address m mp"
    using ne by (auto simp: highest_usable_address_upper)
  moreover have "highest_usable_address m mp \<le> Max ?U"
    using highest_usable_address_attained [of m mp]
  proof
    assume "\<exists>e\<in>set (mm_entries m mp). is_usable e \<and> entry_end e = highest_usable_address m mp"
    then have "highest_usable_address m mp \<in> ?U" by (metis (mono_tags, lifting) imageI mem_Collect_eq)
    then show ?thesis by simp
  qed simp
  ultimately have "highest_usable_address m mp = Max ?U" by (rule order_antisym [rotated])
  with False show ?thesis by (simp only: if_False)
qed

end
