(* ===== verification/Frame_Allocator.thy ===== *)
theory Frame_Allocator
  imports Prelude
begin

text \<open>
  The contract of a frame allocator, as the paging, copy-on-write and stack code relies on it:
  an allocation takes an available address, an unsuccessful one means that none is available,
  a release gives the address back. The lemmas about sequences of allocations and releases are
  proved from the contract; the physical memory manager is shown to satisfy it.
\<close>

locale frame_allocator =
  fixes alloc :: "'s \<Rightarrow> ('e, u64) result \<times> 's"
    and release :: "'s \<Rightarrow> u64 \<Rightarrow> ('e, unit) result \<times> 's"
    and avail :: "'s \<Rightarrow> u64 set"
    and managed :: "'s \<Rightarrow> u64 set"
    and inv :: "'s \<Rightarrow> bool"
  assumes alloc_Ok: "inv s \<Longrightarrow> alloc s = (Ok a, s') \<Longrightarrow>
        a \<in> avail s \<and> avail s' = avail s - {a} \<and> managed s' = managed s \<and> inv s'"
    and alloc_Err: "inv s \<Longrightarrow> alloc s = (Err e, s') \<Longrightarrow> avail s = {} \<and> s' = s"
    and release_Ok: "inv s \<Longrightarrow> release s a = (Ok u, s') \<Longrightarrow>
        a \<in> managed s - avail s \<and> avail s' = insert a (avail s) \<and> managed s' = managed s \<and> inv s'"
    and release_Err: "inv s \<Longrightarrow> release s a = (Err e, s') \<Longrightarrow> a \<notin> managed s - avail s \<and> s' = s"
    and avail_managed: "inv s \<Longrightarrow> avail s \<subseteq> managed s"
    and avail_finite: "inv s \<Longrightarrow> finite (avail s)"
begin

text \<open>\<open>n\<close> allocations in a row, stopping at the first failure.\<close>

primrec alloc_n :: "nat \<Rightarrow> 's \<Rightarrow> u64 list option \<times> 's" where
  "alloc_n 0 s = (Some [], s)"
| "alloc_n (Suc n) s =
     (case alloc s of
        (Ok a, s') \<Rightarrow> (case alloc_n n s' of (Some as, s'') \<Rightarrow> (Some (a # as), s'')
                                        | (None, s'') \<Rightarrow> (None, s''))
      | (Err e, s') \<Rightarrow> (None, s'))"

lemma alloc_succeeds: "inv s \<Longrightarrow> avail s \<noteq> {} \<Longrightarrow> \<exists>a s'. alloc s = (Ok a, s')"
  using alloc_Err by (metis sum.exhaust surj_pair)

lemma release_allocated:
  assumes "inv s" "alloc s = (Ok a, s')"
  shows "\<exists>s''. release s' a = (Ok (), s'') \<and> avail s'' = avail s \<and> inv s''"
proof -
  have s': "a \<in> avail s" "avail s' = avail s - {a}" "managed s' = managed s" "inv s'"
    using alloc_Ok [OF assms] by auto
  have "a \<in> managed s' - avail s'" using s' avail_managed [OF assms(1)] by auto
  then obtain s'' where r: "release s' a = (Ok (), s'')"
    using release_Err [OF s'(4)] by (metis (full_types) old.unit.exhaust sum.exhaust surj_pair)
  with release_Ok [OF s'(4) r] s' show ?thesis by (auto simp: insert_absorb)
qed

lemma release_twice:
  assumes "inv s" "release s a = (Ok u, s')"
  shows "\<exists>e. release s' a = (Err e, s')"
proof -
  have s': "avail s' = insert a (avail s)" "inv s'" using release_Ok [OF assms] by auto
  obtain r s'' where r: "release s' a = (r, s'')" by fastforce
  then show ?thesis
    using release_Ok [OF s'(2)] release_Err [OF s'(2)] s'(1) by (cases r) auto
qed

lemma alloc_n_distinct:
  "inv s \<Longrightarrow> alloc_n n s = (Some as, s') \<Longrightarrow>
     length as = n \<and> distinct as \<and> set as \<subseteq> avail s \<and> avail s' = avail s - set as \<and> inv s'"
proof (induction n arbitrary: s as)
  case (Suc n)
  obtain a s1 where a: "alloc s = (Ok a, s1)"
    using Suc.prems(2) by (auto split: prod.splits sum.splits)
  obtain as' where as': "alloc_n n s1 = (Some as', s')" "as = a # as'"
    using Suc.prems(2) a by (auto split: prod.splits option.splits)
  have "a \<in> avail s" "avail s1 = avail s - {a}" "inv s1" using alloc_Ok [OF Suc.prems(1) a] by auto
  with Suc.IH [OF _ as'(1)] as'(2) show ?case by auto
qed simp

lemma alloc_n_enough: "inv s \<Longrightarrow> n \<le> card (avail s) \<Longrightarrow> \<exists>as s'. alloc_n n s = (Some as, s')"
proof (induction n arbitrary: s)
  case (Suc n)
  then have "avail s \<noteq> {}" by auto
  then obtain a s1 where a: "alloc s = (Ok a, s1)" using alloc_succeeds Suc.prems(1) by blast
  have s1: "a \<in> avail s" "avail s1 = avail s - {a}" "inv s1" using alloc_Ok [OF Suc.prems(1) a] by auto
  then have "n \<le> card (avail s1)" using Suc.prems avail_finite by simp
  then obtain as s' where "alloc_n n s1 = (Some as, s')" using Suc.IH s1(3) by blast
  with a show ?case by simp
qed simp

end

end
