(* ===== verification/Pmm.thy ===== *)
theory Pmm
  imports E820 Bitmap Frame_Allocator
begin

text \<open>
  The physical memory manager of \<^verbatim>\<open>memory/pmm.rs\<close>: a bitmap in physical memory with one bit
  per 4 KiB frame, a count of the free frames, per-zone and per-node statistics. The bitmap is
  modelled where the code keeps it, in the byte-addressed memory behind the pointer \<^verbatim>\<open>bitmap\<close>, so
  that accesses outside the bitmap are accesses to other memory. Methods of
  \<^verbatim>\<open>PhysicalMemoryManager\<close> carry the prefix \<open>pm_\<close>; they take the manager and the memory and
  return both. The functions on the global instance keep their names.
\<close>

unbundle bit_operations_syntax

section \<open>State\<close>

record MemoryError =
  err_code :: u32
  err_message :: string
  err_fatal :: bool

definition MemoryError_new :: "u32 \<Rightarrow> string \<Rightarrow> bool \<Rightarrow> MemoryError" where
  "MemoryError_new code message fatal =
     \<lparr>err_code = code, err_message = message, err_fatal = fatal\<rparr>"

definition PAGE_SIZE :: u64 where "PAGE_SIZE = 4096"

record AllocFlags =
  dma_capable :: bool
  dma32_capable :: bool
  allow_fallback :: bool
  numa_node :: "NumaNode option"
  zero_memory :: bool

record ZoneStats =
  zs_total_frames :: usize
  zs_free_frames :: usize
  zs_last_alloc_index :: usize

definition ZoneStats_new :: ZoneStats where
  "ZoneStats_new = \<lparr>zs_total_frames = 0, zs_free_frames = 0, zs_last_alloc_index = 0\<rparr>"

record NumaStats =
  ns_total_frames :: usize
  ns_free_frames :: usize

definition NumaStats_new :: NumaStats where
  "NumaStats_new = \<lparr>ns_total_frames = 0, ns_free_frames = 0\<rparr>"

record PhysicalMemoryManager =
  bitmap :: u64
  bitmap_size :: usize
  bitmap_size_aligned :: usize
  total_frames :: usize
  free_frames :: usize
  last_alloc_index :: usize
  highest_address :: u64
  zones :: "ZoneStats list"
  numa_nodes :: "NumaStats list"
  numa_count :: usize

text \<open>The result of a method: its value, the manager and the memory afterwards.\<close>

type_synonym 'a pm_result = "(MemoryError, 'a) result \<times> PhysicalMemoryManager \<times> memory"

section \<open>Single bits of the bitmap\<close>

definition bm_test :: "memory \<Rightarrow> u64 \<Rightarrow> usize \<Rightarrow> bool" where
  "bm_test m bm frame \<longleftrightarrow> m (bm + frame div 8) AND push_bit (unat (frame mod 8)) 1 \<noteq> 0"

definition bm_set :: "memory \<Rightarrow> u64 \<Rightarrow> usize \<Rightarrow> memory" where
  "bm_set m bm frame =
     m(bm + frame div 8 := m (bm + frame div 8) OR push_bit (unat (frame mod 8)) 1)"

definition bm_clear :: "memory \<Rightarrow> u64 \<Rightarrow> usize \<Rightarrow> memory" where
  "bm_clear m bm frame =
     m(bm + frame div 8 := m (bm + frame div 8) AND NOT (push_bit (unat (frame mod 8)) 1))"

section \<open>Initialisation\<close>

definition KERNEL_END :: u64 where "KERNEL_END = 0x100000 + 9 * 1024 * 1024"
definition KERNEL_STACK_TOP :: u64 where "KERNEL_STACK_TOP = 0x2000000"
definition KERNEL_STACK_SIZE :: u64 where "KERNEL_STACK_SIZE = 0x100000"

text \<open>Step 3: the first usable region with room for the bitmap above the kernel.\<close>

primrec find_bitmap_region :: "memory \<Rightarrow> MemoryMap \<Rightarrow> usize \<Rightarrow> usize list \<Rightarrow> u64 option" where
  "find_bitmap_region m mp need [] = None"
| "find_bitmap_region m mp need (i # is) =
     (case mm_get m mp i of
        None \<Rightarrow> find_bitmap_region m mp need is
      | Some entry \<Rightarrow>
          if is_usable entry then
            let region_start = (if entry_base entry < KERNEL_END then KERNEL_END else entry_base entry);
                region_end = entry_base entry + entry_length entry
            in if region_end \<le> region_start then find_bitmap_region m mp need is
               else if region_end - region_start < need then find_bitmap_region m mp need is
               else Some region_start
          else find_bitmap_region m mp need is)"

text \<open>Step 6: clear the bits of one region, counting every frame.\<close>

definition free_region :: "u64 \<Rightarrow> usize \<Rightarrow> E820Entry \<Rightarrow> memory \<times> usize \<Rightarrow> memory \<times> usize" where
  "free_region bm frames entry st =
     (if is_usable entry then
        let region_end = entry_base entry + entry_length entry;
            start_frame = (entry_base entry + PAGE_SIZE - 1) div PAGE_SIZE;
            end_frame = region_end div PAGE_SIZE
        in if start_frame \<ge> frames then st
           else let end_frame = (if end_frame > frames then frames else end_frame)
                in fold (\<lambda>frame (m, ff). (bm_clear m bm frame, ff + 1))
                     (range_w start_frame end_frame) st
      else st)"

definition mark_region_used_static ::
    "usize \<Rightarrow> usize \<Rightarrow> u64 \<Rightarrow> memory \<times> usize \<Rightarrow> memory \<times> usize" where
  "mark_region_used_static start_frame end_frame bm st =
     fold (\<lambda>frame (m, ff). if \<not> bm_test m bm frame
             then (bm_set m bm frame, saturating_sub ff 1) else (m, ff))
       (range_w start_frame end_frame) st"

text \<open>Step 8: set the bits of the last byte that stand for no frame.\<close>

definition mark_phantom_bits :: "u64 \<Rightarrow> usize \<Rightarrow> memory \<Rightarrow> memory" where
  "mark_phantom_bits bm frames m =
     (let remaining_bits = frames mod 8
      in if remaining_bits \<noteq> 0
         then let last_byte_index = frames div 8
              in fold (\<lambda>b m. m(bm + last_byte_index := m (bm + last_byte_index) OR push_bit b 1))
                   [unat remaining_bits..<8] m
         else m)"

text \<open>Step 9: only the totals of the zones are set.\<close>

definition init_zones :: "usize \<Rightarrow> ZoneStats list" where
  "init_zones frames =
     (let dma_end_frame = DMA_ZONE_END div PAGE_SIZE;
          dma32_end_frame = DMA32_ZONE_END div PAGE_SIZE
      in [ZoneStats_new\<lparr>zs_total_frames := (if frames < dma_end_frame then frames else dma_end_frame)\<rparr>,
          ZoneStats_new\<lparr>zs_total_frames :=
            (if frames > dma_end_frame
             then if frames < dma32_end_frame then frames - dma_end_frame
                  else dma32_end_frame - dma_end_frame
             else 0)\<rparr>,
          ZoneStats_new\<lparr>zs_total_frames :=
            (if frames > dma32_end_frame then frames - dma32_end_frame else 0)\<rparr>,
          ZoneStats_new])"

text \<open>Steps 5 to 8: the bitmap and the count of free frames.\<close>

definition init_bitmap :: "memory \<Rightarrow> MemoryMap \<Rightarrow> u64 \<Rightarrow> usize \<Rightarrow> usize \<Rightarrow> memory \<times> usize" where
  "init_bitmap m mp bm frames bytes =
     (let m = fold (\<lambda>byte_idx m. m(bm + byte_idx := 0xFF)) (range_w 0 bytes) m;
          st = fold (\<lambda>i st. case mm_get (fst st) mp i of Some entry \<Rightarrow> free_region bm frames entry st
                     | None \<Rightarrow> st) (range_w 0 (count mp)) (m, 0);
          st = mark_region_used_static 0 (0x100000 div PAGE_SIZE) bm st;
          st = mark_region_used_static (0x100000 div PAGE_SIZE)
                 ((0x100000 + 9 * 1024 * 1024) div PAGE_SIZE) bm st;
          st = mark_region_used_static ((KERNEL_STACK_TOP - KERNEL_STACK_SIZE) div PAGE_SIZE)
                 (KERNEL_STACK_TOP div PAGE_SIZE) bm st;
          st = mark_region_used_static (bm div PAGE_SIZE)
                 ((bm + bytes + PAGE_SIZE - 1) div PAGE_SIZE) bm st;
          memmap_size = count mp * E820Entry_size;
          st = mark_region_used_static (entries_ptr mp div PAGE_SIZE)
                 ((entries_ptr mp + memmap_size + PAGE_SIZE - 1) div PAGE_SIZE) bm st
      in (mark_phantom_bits bm frames (fst st), snd st))"

definition pm_init :: "memory \<Rightarrow> MemoryMap \<Rightarrow> (MemoryError, PhysicalMemoryManager \<times> memory) result" where
  "pm_init m mp =
     (let highest = highest_usable_address m mp
      in if highest = 0 then Err (MemoryError_new 1 ''No memory detected!'' True)
         else
           let frames = highest div PAGE_SIZE;
               bytes = (frames + 7) div 8;
               size_aligned = (bytes + PAGE_SIZE - 1) div PAGE_SIZE * PAGE_SIZE
           in case find_bitmap_region m mp size_aligned (range_w 0 (count mp)) of
                None \<Rightarrow> Err (MemoryError_new 2 ''No suitable region for bitmap!'' True)
              | Some base \<Rightarrow>
                  let bm = (if base mod PAGE_SIZE \<noteq> 0 then (base div PAGE_SIZE + 1) * PAGE_SIZE
                            else base);
                      (m', ff) = init_bitmap m mp bm frames bytes
                  in Ok (\<lparr>bitmap = bm, bitmap_size = bytes, bitmap_size_aligned = size_aligned,
                          total_frames = frames, free_frames = ff, last_alloc_index = 0,
                          highest_address = highest, zones = init_zones frames,
                          numa_nodes = (replicate 8 NumaStats_new)
                            [0 := \<lparr>ns_total_frames = frames, ns_free_frames = ff\<rparr>],
                          numa_count = 1\<rparr>, m'))"

section \<open>Allocation\<close>

text \<open>
  The search of \<^verbatim>\<open>alloc_frame\<close>: \<^verbatim>\<open>bitmap_size\<close> bytes from \<^verbatim>\<open>last_alloc_index\<close> on, wrapping around.
  The result is the byte index and the bit of the frame found.
\<close>

definition first_free_bit :: "u8 \<Rightarrow> nat option" where
  "first_free_bit byte_value = find (\<lambda>bit_offset. byte_value AND push_bit bit_offset 1 = 0) [0..<8]"

function alloc_scan ::
    "PhysicalMemoryManager \<Rightarrow> memory \<Rightarrow> usize \<Rightarrow> usize \<Rightarrow> (usize \<times> nat) option" where
  "alloc_scan p m current_idx loop_count =
     (if loop_count < bitmap_size p then
        let byte_value = m (bitmap p + current_idx);
            next = (current_idx + 1) mod bitmap_size p
        in if byte_value \<noteq> 0xFF then
             (case first_free_bit byte_value of
                None \<Rightarrow> alloc_scan p m next (loop_count + 1)
              | Some bit_offset \<Rightarrow>
                  if current_idx * 8 + word_of_nat bit_offset \<ge> total_frames p
                  then alloc_scan p m next (loop_count + 1)
                  else Some (current_idx, bit_offset))
           else alloc_scan p m next (loop_count + 1)
      else None)"
  by pat_completeness auto
termination
  by (relation "measure (\<lambda>(p, m, current_idx, loop_count). unat (bitmap_size p) - unat loop_count)")
    (auto simp: diff_unat_less)

declare alloc_scan.simps [simp del]

definition pm_alloc_frame :: "PhysicalMemoryManager \<Rightarrow> memory \<Rightarrow> u64 pm_result" where
  "pm_alloc_frame p m =
     (if free_frames p = 0
      then (Err (MemoryError_new 3 ''No free memory available!'' False), p, m)
      else case alloc_scan p m (last_alloc_index p) 0 of
        None \<Rightarrow> (Err (MemoryError_new 4 ''Failed to find free frame!'' False), p, m)
      | Some (current_idx, bit_offset) \<Rightarrow>
          let frame_index = current_idx * 8 + word_of_nat bit_offset;
              m' = m(bitmap p + current_idx := m (bitmap p + current_idx) OR push_bit bit_offset 1);
              p' = p\<lparr>free_frames := free_frames p - 1, last_alloc_index := current_idx\<rparr>
          in (Ok (frame_index * PAGE_SIZE), p', m'))"

text \<open>Zone allocation: the bytes of the zone in order, the first free bit inside the zone.\<close>

definition first_free_in_zone :: "u8 \<Rightarrow> usize \<Rightarrow> usize \<Rightarrow> usize \<Rightarrow> nat option" where
  "first_free_in_zone byte_value byte_idx zone_start zone_end =
     find (\<lambda>bit_offset. let frame_index = byte_idx * 8 + word_of_nat bit_offset
             in \<not> (frame_index < zone_start \<or> frame_index \<ge> zone_end)
                \<and> byte_value AND push_bit bit_offset 1 = 0) [0..<8]"

primrec zone_scan ::
    "PhysicalMemoryManager \<Rightarrow> memory \<Rightarrow> usize \<Rightarrow> usize \<Rightarrow> usize list \<Rightarrow> (usize \<times> nat) option" where
  "zone_scan p m zone_start zone_end [] = None"
| "zone_scan p m zone_start zone_end (byte_idx # rest) =
     (let byte_value = m (bitmap p + byte_idx)
      in if byte_value \<noteq> 0xFF then
           (case first_free_in_zone byte_value byte_idx zone_start zone_end of
              None \<Rightarrow> zone_scan p m zone_start zone_end rest
            | Some bit_offset \<Rightarrow> Some (byte_idx, bit_offset))
         else zone_scan p m zone_start zone_end rest)"

definition zone_free_add :: "usize \<Rightarrow> nat \<Rightarrow> ZoneStats list \<Rightarrow> ZoneStats list" where
  "zone_free_add d i zs = zs[i := (zs ! i)\<lparr>zs_free_frames := zs_free_frames (zs ! i) + d\<rparr>]"

definition pm_alloc_frame_in_zone ::
    "PhysicalMemoryManager \<Rightarrow> memory \<Rightarrow> MemoryZone \<Rightarrow> u64 pm_result" where
  "pm_alloc_frame_in_zone p m zone =
     (let zone_idx = zone_index zone
      in if zs_free_frames (zones p ! zone_idx) = 0
         then (Err (MemoryError_new 10 ''No free frames in requested zone!'' False), p, m)
         else
           let zone_start = start_address zone div PAGE_SIZE;
               zone_end = min (end_address zone div PAGE_SIZE) (total_frames p);
               start_byte = zone_start div 8;
               end_byte = (zone_end + 7) div 8
           in case zone_scan p m zone_start zone_end (range_w start_byte end_byte) of
                None \<Rightarrow> (Err (MemoryError_new 11 ''Failed to find free frame in zone!'' False), p, m)
              | Some (byte_idx, bit_offset) \<Rightarrow>
                  let frame_index = byte_idx * 8 + word_of_nat bit_offset;
                      m' = m(bitmap p + byte_idx := m (bitmap p + byte_idx) OR push_bit bit_offset 1);
                      p' = p\<lparr>free_frames := free_frames p - 1,
                             zones := zone_free_add (- 1) zone_idx (zones p),
                             last_alloc_index := byte_idx\<rparr>
                  in (Ok (frame_index * PAGE_SIZE), p', m'))"

definition pm_alloc_frame_numa ::
    "PhysicalMemoryManager \<Rightarrow> memory \<Rightarrow> NumaNode \<Rightarrow> u64 pm_result" where
  "pm_alloc_frame_numa p m preferred_node = pm_alloc_frame p m"

definition pm_alloc_dma_frame :: "PhysicalMemoryManager \<Rightarrow> memory \<Rightarrow> u64 pm_result" where
  "pm_alloc_dma_frame p m = pm_alloc_frame_in_zone p m Dma"

definition pm_alloc_dma32_frame :: "PhysicalMemoryManager \<Rightarrow> memory \<Rightarrow> u64 pm_result" where
  "pm_alloc_dma32_frame p m =
     (case pm_alloc_frame_in_zone p m Dma of
        (Ok addr, p', m') \<Rightarrow> (Ok addr, p', m')
      | (Err e, p', m') \<Rightarrow> pm_alloc_frame_in_zone p' m' Dma32)"

section \<open>Single frames\<close>

definition pm_free_frame :: "PhysicalMemoryManager \<Rightarrow> memory \<Rightarrow> u64 \<Rightarrow> unit pm_result" where
  "pm_free_frame p m addr =
     (if addr mod PAGE_SIZE \<noteq> 0
      then (Err (MemoryError_new 5 ''Address not page-aligned!'' False), p, m)
      else
        let frame_index = addr div PAGE_SIZE
        in if frame_index \<ge> total_frames p
           then (Err (MemoryError_new 6 ''Address out of bounds!'' False), p, m)
           else if \<not> bm_test m (bitmap p) frame_index
           then (Err (MemoryError_new 7 ''Double free detected!'' False), p, m)
           else
             let byte_idx = frame_index div 8;
                 p' = p\<lparr>free_frames := free_frames p + 1,
                        zones := zone_free_add 1 (zone_index (from_address addr)) (zones p)\<rparr>;
                 p'' = (if byte_idx < last_alloc_index p' then p'\<lparr>last_alloc_index := byte_idx\<rparr>
                        else p')
             in (Ok (), p'', bm_clear m (bitmap p) frame_index))"

definition pm_set_bit :: "usize \<Rightarrow> PhysicalMemoryManager \<times> memory \<Rightarrow> PhysicalMemoryManager \<times> memory" where
  "pm_set_bit frame pm =
     (let (p, m) = pm
      in if frame \<ge> total_frames p then (p, m)
         else if \<not> bm_test m (bitmap p) frame
         then (p\<lparr>free_frames := saturating_sub (free_frames p) 1\<rparr>, bm_set m (bitmap p) frame)
         else (p, m))"

definition pm_clear_bit :: "usize \<Rightarrow> PhysicalMemoryManager \<times> memory \<Rightarrow> PhysicalMemoryManager \<times> memory" where
  "pm_clear_bit frame pm =
     (let (p, m) = pm
      in if frame \<ge> total_frames p then (p, m)
         else if bm_test m (bitmap p) frame
         then (p\<lparr>free_frames := free_frames p + 1\<rparr>, bm_clear m (bitmap p) frame)
         else (p, m))"

definition pm_test_bit :: "PhysicalMemoryManager \<Rightarrow> memory \<Rightarrow> usize \<Rightarrow> bool" where
  "pm_test_bit p m frame \<longleftrightarrow>
     (if frame \<ge> total_frames p then True else bm_test m (bitmap p) frame)"

definition pm_mark_region_used ::
    "PhysicalMemoryManager \<Rightarrow> memory \<Rightarrow> u64 \<Rightarrow> u64 \<Rightarrow> PhysicalMemoryManager \<times> memory" where
  "pm_mark_region_used p m base len =
     fold pm_set_bit (range_w (base div PAGE_SIZE) ((base + len + PAGE_SIZE - 1) div PAGE_SIZE)) (p, m)"

definition pm_mark_region_free ::
    "PhysicalMemoryManager \<Rightarrow> memory \<Rightarrow> u64 \<Rightarrow> u64 \<Rightarrow> PhysicalMemoryManager \<times> memory" where
  "pm_mark_region_free p m base len =
     fold pm_clear_bit (range_w (base div PAGE_SIZE) ((base + len + PAGE_SIZE - 1) div PAGE_SIZE)) (p, m)"

section \<open>Contiguous frames\<close>

text \<open>
  The search loop of \<^verbatim>\<open>alloc_frames_contiguous\<close>. It is a \<^verbatim>\<open>while\<close> loop whose guard adds with
  wrap-around; \<open>None\<close> stands for not returning, \<open>Some None\<close> for an exhausted range.
\<close>

partial_function (option) contiguous_scan ::
    "PhysicalMemoryManager \<Rightarrow> memory \<Rightarrow> usize \<Rightarrow> usize \<Rightarrow> usize \<Rightarrow> usize option option" where
  "contiguous_scan p m cnt end_frame current_frame =
     (if current_frame + cnt \<le> end_frame then
        (case find (\<lambda>offset. pm_test_bit p m (current_frame + offset)) (range_w 0 cnt) of
           None \<Rightarrow> Some (Some current_frame)
         | Some offset \<Rightarrow> contiguous_scan p m cnt end_frame (current_frame + offset + 1))
      else Some None)"

declare contiguous_scan.simps [code]

definition alloc_run_frame :: "usize \<Rightarrow> PhysicalMemoryManager \<times> memory \<Rightarrow> PhysicalMemoryManager \<times> memory" where
  "alloc_run_frame frame pm =
     (let (p, m) = pm
      in (p\<lparr>zones := zone_free_add (- 1) (zone_index (from_address (frame * PAGE_SIZE))) (zones p)\<rparr>,
          bm_set m (bitmap p) frame))"

definition pm_alloc_frames_contiguous ::
    "PhysicalMemoryManager \<Rightarrow> memory \<Rightarrow> usize \<Rightarrow> MemoryZone option \<Rightarrow> u64 pm_result option" where
  "pm_alloc_frames_contiguous p m cnt zone =
     (if cnt = 0 then Some (Err (MemoryError_new 12 ''Cannot allocate zero frames!'' False), p, m)
      else if cnt = 1
      then Some (case zone of Some z \<Rightarrow> pm_alloc_frame_in_zone p m z | None \<Rightarrow> pm_alloc_frame p m)
      else
        let (start_frame, end_frame) =
              (case zone of
                 Some z \<Rightarrow> (start_address z div PAGE_SIZE,
                            min (end_address z div PAGE_SIZE) (total_frames p))
               | None \<Rightarrow> (0, total_frames p))
        in case contiguous_scan p m cnt end_frame start_frame of
             None \<Rightarrow> None
           | Some None \<Rightarrow>
               Some (Err (MemoryError_new 13 ''No contiguous frames available!'' False), p, m)
           | Some (Some current_frame) \<Rightarrow>
               let (p', m') = fold (\<lambda>offset. alloc_run_frame (current_frame + offset)) (range_w 0 cnt) (p, m)
               in Some (Ok (current_frame * PAGE_SIZE),
                        p'\<lparr>free_frames := free_frames p' - cnt\<rparr>, m'))"

primrec free_frames_loop ::
    "PhysicalMemoryManager \<Rightarrow> memory \<Rightarrow> u64 \<Rightarrow> usize list \<Rightarrow> unit pm_result" where
  "free_frames_loop p m base_addr [] = (Ok (), p, m)"
| "free_frames_loop p m base_addr (i # is) =
     (case pm_free_frame p m (base_addr + i * PAGE_SIZE) of
        (Ok u, p', m') \<Rightarrow> free_frames_loop p' m' base_addr is
      | (Err e, p', m') \<Rightarrow> (Err e, p', m'))"

definition pm_free_frames_contiguous ::
    "PhysicalMemoryManager \<Rightarrow> memory \<Rightarrow> u64 \<Rightarrow> usize \<Rightarrow> unit pm_result" where
  "pm_free_frames_contiguous p m base_addr cnt =
     (if cnt = 0 then (Ok (), p, m)
      else if base_addr mod PAGE_SIZE \<noteq> 0
      then (Err (MemoryError_new 5 ''Address not page-aligned!'' False), p, m)
      else free_frames_loop p m base_addr (range_w 0 cnt))"

section \<open>The bitmap interface on physical memory\<close>

lemma bm_test_iff: "bm_test m bm f \<longleftrightarrow> bit (m (bm + f div 8)) (unat (f mod 8))"
  by (simp add: bm_test_def)

lemma bm_test_set: "bm_test (bm_set m bm f) bm g \<longleftrightarrow> g = f \<or> bm_test m bm g"
proof (cases "g div 8 = f div 8")
  case True
  then show ?thesis
    by (simp add: bm_test_iff bm_set_def bit_set_bit_u8 unat_mod_8_less same_bit_iff)
next
  case False
  then show ?thesis by (auto simp: bm_test_iff bm_set_def)
qed

lemma bm_test_clear: "bm_test (bm_clear m bm f) bm g \<longleftrightarrow> g \<noteq> f \<and> bm_test m bm g"
proof (cases "g div 8 = f div 8")
  case True
  then show ?thesis
    by (simp add: bm_test_iff bm_clear_def bit_clear_bit_u8 unat_mod_8_less same_bit_iff)
next
  case False
  then show ?thesis by (auto simp: bm_test_iff bm_clear_def)
qed

interpretation frames: bit_alloc "\<lambda>m f. bm_test m bm f" "\<lambda>m f. bm_set m bm f" "\<lambda>m f. bm_clear m bm f"
    "\<lambda>_ _. True" for bm
  by unfold_locales (simp_all add: bm_test_set bm_test_clear)

definition free_set :: "PhysicalMemoryManager \<Rightarrow> memory \<Rightarrow> usize set" where
  "free_set p m = {f. f < total_frames p \<and> \<not> bm_test m (bitmap p) f}"

definition pmm_inv :: "PhysicalMemoryManager \<Rightarrow> memory \<Rightarrow> bool" where
  "pmm_inv p m \<longleftrightarrow>
     unat (free_frames p) = card (free_set p m)
     \<and> 0 < total_frames p \<and> total_frames p < 2 ^ 52
     \<and> bitmap_size p = (total_frames p + 7) div 8
     \<and> last_alloc_index p < bitmap_size p
     \<and> length (zones p) = 4"

section \<open>Frame numbers\<close>

lemma div_8_less: "a < t \<Longrightarrow> a div 8 < (t + 7) div (8 :: nat)"
  using div_le_mono [of "a + 8" "t + 7" 8] by simp

lemma unat_frame:
  assumes "unat (idx :: u64) < 2 ^ 60" "b < 8"
  shows "unat (idx * 8 + word_of_nat b) = unat idx * 8 + b"
proof -
  have m: "unat (idx * 8) = unat idx * 8"
    using assms(1) by (subst unat_mult_lem [THEN iffD1]) auto
  have b: "unat (word_of_nat b :: u64) = b"
    using assms(2) by (simp add: unat_of_nat)
  show ?thesis
    using assms m b by (subst unat_add_lem [THEN iffD1]) auto
qed

lemma frame_div_mod:
  assumes "unat (idx :: u64) < 2 ^ 60" "b < 8"
  shows "(idx * 8 + word_of_nat b) div 8 = idx" "unat ((idx * 8 + word_of_nat b) mod 8) = b"
  using assms by (simp_all add: word_unat_eq_iff unat_div unat_mod unat_frame)

lemma inv_sizes:
  assumes "pmm_inv p m"
  shows "unat (bitmap_size p) = (unat (total_frames p) + 7) div 8" "unat (total_frames p) < 2 ^ 52"
    "unat (bitmap_size p) < 2 ^ 50"
proof -
  show t: "unat (total_frames p) < 2 ^ 52"
    using assms by (simp add: pmm_inv_def word_less_nat_alt)
  have "unat (total_frames p + 7) = unat (total_frames p) + 7"
    using t by (subst unat_add_lem [THEN iffD1]) auto
  then show s: "unat (bitmap_size p) = (unat (total_frames p) + 7) div 8"
    using assms by (simp add: pmm_inv_def unat_div)
  show "unat (bitmap_size p) < 2 ^ 50" using t by (simp add: s)
qed

lemma mod_less_word: "b < n \<Longrightarrow> a mod n < (n :: 'a::len word)"
  by (metis mod_less_divisor unat_gt_0 unat_mod word_less_nat_alt word_not_simps(1))

section \<open>The search\<close>

lemma first_free_bit_Some: "first_free_bit w = Some b \<Longrightarrow> b < 8 \<and> \<not> bit w b \<and> (\<forall>j<b. bit w j)"
  by (auto simp: first_free_bit_def find_Some_iff)

lemma first_free_bit_ex: "j < 8 \<Longrightarrow> \<not> bit w j \<Longrightarrow> \<exists>b \<le> j. first_free_bit w = Some b"
proof (cases "first_free_bit w")
  case None
  moreover assume "j < 8" "\<not> bit w j"
  ultimately show ?thesis by (auto simp: first_free_bit_def find_None_iff)
next
  case (Some b)
  moreover assume "\<not> bit w j"
  ultimately show ?thesis using first_free_bit_Some [OF Some] by (metis not_le_imp_less)
qed

text \<open>Byte \<open>idx\<close> holds a frame that \<^const>\<open>alloc_scan\<close> takes, and which one.\<close>

definition byte_hit :: "PhysicalMemoryManager \<Rightarrow> memory \<Rightarrow> usize \<Rightarrow> nat \<Rightarrow> bool" where
  "byte_hit p m idx b \<longleftrightarrow> m (bitmap p + idx) \<noteq> 0xFF \<and> first_free_bit (m (bitmap p + idx)) = Some b
     \<and> idx * 8 + word_of_nat b < total_frames p"

lemma alloc_scan_hit: "c < bitmap_size p \<Longrightarrow> byte_hit p m idx b \<Longrightarrow> alloc_scan p m idx c = Some (idx, b)"
  by (subst alloc_scan.simps) (auto simp: byte_hit_def Let_def not_le)

lemma alloc_scan_miss:
  "c < bitmap_size p \<Longrightarrow> (\<And>b. \<not> byte_hit p m idx b) \<Longrightarrow>
     alloc_scan p m idx c = alloc_scan p m ((idx + 1) mod bitmap_size p) (c + 1)"
  by (subst alloc_scan.simps) (auto simp: byte_hit_def Let_def not_le split: option.splits)

lemma alloc_scan_end: "\<not> c < bitmap_size p \<Longrightarrow> alloc_scan p m idx c = None"
  by (subst alloc_scan.simps) simp

lemma alloc_scan_Some:
  "alloc_scan p m idx c = Some (i, b) \<Longrightarrow> idx < bitmap_size p \<Longrightarrow> i < bitmap_size p \<and> byte_hit p m i b"
proof (induction "unat (bitmap_size p) - unat c" arbitrary: idx c rule: less_induct)
  case less
  then have c: "c < bitmap_size p" by (metis alloc_scan_end option.distinct(1))
  show ?case
  proof (cases "\<exists>b. byte_hit p m idx b")
    case True
    then show ?thesis using less.prems alloc_scan_hit [OF c] by fastforce
  next
    case False
    then show ?thesis using less.hyps [OF diff_unat_less [OF c]] less.prems alloc_scan_miss [OF c]
      by (metis mod_less_word)
  qed
qed

lemma alloc_scan_None:
  "alloc_scan p m idx c = None \<Longrightarrow> idx < bitmap_size p \<Longrightarrow> unat (bitmap_size p) < 2 ^ 63 \<Longrightarrow>
     k < unat (bitmap_size p) - unat c \<Longrightarrow>
     \<not> byte_hit p m (word_of_nat ((unat idx + k) mod unat (bitmap_size p))) b"
proof (induction k arbitrary: idx c)
  case 0
  then have "c < bitmap_size p" by (simp add: word_less_nat_alt)
  with 0 show ?case using alloc_scan_hit by (fastforce simp: word_less_nat_alt)
next
  case (Suc k)
  then have c: "c < bitmap_size p" by (simp add: word_less_nat_alt)
  let ?idx = "(idx + 1) mod bitmap_size p"
  have miss: "\<not> byte_hit p m idx b" for b using Suc.prems(1) alloc_scan_hit [OF c] by fastforce
  have "unat (idx + 1) = Suc (unat idx)" using Suc.prems(2) by (rule unat_add_1)
  then have idx: "unat ?idx = Suc (unat idx) mod unat (bitmap_size p)" by (simp add: unat_mod)
  have "\<not> byte_hit p m (word_of_nat ((unat ?idx + k) mod unat (bitmap_size p))) b"
  proof (rule Suc.IH)
    show "alloc_scan p m ?idx (c + 1) = None"
      using Suc.prems(1) alloc_scan_miss [OF c miss] by simp
    show "?idx < bitmap_size p" using Suc.prems(2) by (rule mod_less_word)
    show "k < unat (bitmap_size p) - unat (c + 1)"
      using Suc.prems(4) by (simp add: unat_add_1 [OF c])
  qed (rule Suc.prems)
  then show ?case by (simp add: idx mod_add_left_eq)
qed

lemma cyclic_reach: "(i :: nat) < n \<Longrightarrow> j < n \<Longrightarrow> \<exists>k<n. (i + k) mod n = j"
proof (cases "i \<le> j")
  case True
  assume "j < n"
  with True show ?thesis by (intro exI [of _ "j - i"]) auto
next
  case False
  assume "i < n" "j < n"
  with False show ?thesis by (intro exI [of _ "n + j - i"]) auto
qed

lemma free_frame_hit:
  assumes inv: "pmm_inv p m" and f: "f \<in> free_set p m"
  shows "\<exists>b. byte_hit p m (f div 8) b"
proof -
  let ?w = "m (bitmap p + f div 8)"
  have nb: "\<not> bit ?w (unat (f mod 8))" using f by (simp add: free_set_def bm_test_iff)
  then obtain b where b: "b \<le> unat (f mod 8)" "first_free_bit ?w = Some b"
    using first_free_bit_ex [OF unat_mod_8_less] by blast
  have "?w \<noteq> 0xFF"
  proof
    assume "?w = 0xFF"
    then have "?w = mask 8" by (simp add: mask_eq_exp_minus_1)
    with nb show False using unat_mod_8_less [of f] by (simp only: bit_mask_iff) simp
  qed
  moreover have "f div 8 * 8 + word_of_nat b < total_frames p"
  proof -
    have ft: "unat f < unat (total_frames p)" using f by (simp add: free_set_def word_less_nat_alt)
    have "unat (f div 8) < 2 ^ 60" using inv_sizes(2) [OF inv] ft by (simp add: unat_div)
    moreover have "b < 8" using first_free_bit_Some [OF b(2)] by simp
    ultimately have "unat (f div 8 * 8 + word_of_nat b) = unat f div 8 * 8 + b"
      by (simp add: unat_frame unat_div)
    also have "\<dots> \<le> unat f"
      using b(1) unfolding unat_mod by simp presburger
    finally show ?thesis using ft by (simp add: word_less_nat_alt)
  qed
  ultimately show ?thesis using b(2) unfolding byte_hit_def by blast
qed

lemma alloc_scan_complete:
  assumes inv: "pmm_inv p m" and f: "f \<in> free_set p m"
  shows "\<exists>i b. alloc_scan p m (last_alloc_index p) 0 = Some (i, b)"
proof (rule ccontr)
  assume "\<not> ?thesis"
  then have none: "alloc_scan p m (last_alloc_index p) 0 = None" by (cases "alloc_scan p m (last_alloc_index p) 0") auto
  let ?n = "unat (bitmap_size p)"
  have lai: "last_alloc_index p < bitmap_size p" using inv unfolding pmm_inv_def by blast
  have n: "?n = (unat (total_frames p) + 7) div 8" "?n < 2 ^ 50" using inv_sizes [OF inv] by auto
  have "unat f < unat (total_frames p)" using f by (simp add: free_set_def word_less_nat_alt)
  then have "unat f div 8 < ?n" unfolding n(1) by (rule div_8_less)
  then obtain k where k: "k < ?n" "(unat (last_alloc_index p) + k) mod ?n = unat f div 8"
    using cyclic_reach [of "unat (last_alloc_index p)" ?n "unat f div 8"] lai
    by (auto simp: word_less_nat_alt)
  have "\<not> byte_hit p m (word_of_nat (unat f div 8)) b" for b
    using alloc_scan_None [OF none lai, of k] k n(2) by simp
  moreover have "word_of_nat (unat f div 8) = f div 8"
    by (simp add: word_arith_nat_div [of f 8])
  ultimately show False using free_frame_hit [OF inv f] by metis
qed

section \<open>Allocation and release of one frame\<close>

lemma finite_free_set [simp]: "finite (free_set p m)"
  by (rule finite)

lemma free_set_frames: "free_set p m = frames.free_in (bitmap p) m {f. f < total_frames p}"
  by (auto simp: free_set_def frames.free_in_def)

lemma bm_set_frame:
  assumes "unat idx < 2 ^ 60" "b < 8"
  shows "m(bm + idx := m (bm + idx) OR push_bit b 1) = bm_set m bm (idx * 8 + word_of_nat b)"
  using frame_div_mod [OF assms] by (simp add: bm_set_def)

lemma free_set_set: "bitmap p' = bitmap p \<Longrightarrow> total_frames p' = total_frames p \<Longrightarrow>
    free_set p' (bm_set m (bitmap p) f) = free_set p m - {f}"
  by (auto simp: free_set_def bm_test_set)

lemma free_set_clear: "bitmap p' = bitmap p \<Longrightarrow> total_frames p' = total_frames p \<Longrightarrow> f < total_frames p \<Longrightarrow>
    free_set p' (bm_clear m (bitmap p) f) = insert f (free_set p m)"
  by (auto simp: free_set_def bm_test_clear)

lemma unat_pred: "(w :: 'a::len word) \<noteq> 0 \<Longrightarrow> unat (w - 1) = unat w - 1"
  by (rule unat_minus_one)

text \<open>The frame an allocation returns, and everything it changes.\<close>

lemma pm_alloc_frame_step:
  assumes inv: "pmm_inv p m" and ne: "free_frames p \<noteq> 0"
  obtains f idx where "f \<in> free_set p m" "idx < bitmap_size p"
    "pm_alloc_frame p m = (Ok (f * PAGE_SIZE),
       p\<lparr>free_frames := free_frames p - 1, last_alloc_index := idx\<rparr>, bm_set m (bitmap p) f)"
proof -
  have "card (free_set p m) \<noteq> 0" using inv ne unfolding pmm_inv_def by (metis unat_0_iff)
  then obtain g where "g \<in> free_set p m" by (metis card.empty ex_in_conv)
  with inv obtain idx b where scan: "alloc_scan p m (last_alloc_index p) 0 = Some (idx, b)"
    using alloc_scan_complete by blast
  have lai: "last_alloc_index p < bitmap_size p" using inv unfolding pmm_inv_def by blast
  have idx: "idx < bitmap_size p" and hit: "byte_hit p m idx b"
    using alloc_scan_Some [OF scan lai] by auto
  have b: "b < 8" "\<not> bit (m (bitmap p + idx)) b"
    using hit first_free_bit_Some [of _ b] by (auto simp: byte_hit_def)
  have i60: "unat idx < 2 ^ 60"
    using idx inv_sizes(3) [OF inv] by (simp add: word_less_nat_alt)
  let ?f = "idx * 8 + word_of_nat b"
  have "?f \<in> free_set p m"
    using hit b frame_div_mod [OF i60 b(1)] by (simp add: free_set_def byte_hit_def bm_test_iff)
  moreover have "pm_alloc_frame p m = (Ok (?f * PAGE_SIZE),
       p\<lparr>free_frames := free_frames p - 1, last_alloc_index := idx\<rparr>, bm_set m (bitmap p) ?f)"
    using ne scan bm_set_frame [OF i60 b(1), of m "bitmap p"] by (simp add: pm_alloc_frame_def Let_def)
  ultimately show thesis using idx that by blast
qed

lemma pmm_inv_alloc:
  assumes inv: "pmm_inv p m" and f: "f \<in> free_set p m" and "idx < bitmap_size p"
  shows "pmm_inv (p\<lparr>free_frames := free_frames p - 1, last_alloc_index := idx\<rparr>) (bm_set m (bitmap p) f)"
proof -
  let ?p = "p\<lparr>free_frames := free_frames p - 1, last_alloc_index := idx\<rparr>"
  have c: "unat (free_frames p) = card (free_set p m)" using inv unfolding pmm_inv_def by blast
  have "card (free_set p m) \<noteq> 0" using f by (metis card_0_eq empty_iff finite_free_set)
  with c have "free_frames p \<noteq> 0" by auto
  then have "unat (free_frames p - 1) = card (free_set p m) - 1" using c by (simp add: unat_pred)
  also have "\<dots> = card (free_set p m - {f})" using f by simp
  finally show ?thesis
    using inv assms(3) free_set_set [of ?p p m f] unfolding pmm_inv_def by simp
qed

lemma zone_free_add_length [simp]: "length (zone_free_add d i zs) = length zs"
  by (simp add: zone_free_add_def)

lemma card_free_set_le: "card (free_set p m) \<le> unat (total_frames p)"
proof -
  have "inj_on unat (free_set p m)" by (auto intro!: inj_onI simp: word_unat_eq_iff)
  then have "card (free_set p m) = card (unat ` free_set p m)" by (simp add: card_image)
  also have "\<dots> \<le> card {..<unat (total_frames p)}"
    by (intro card_mono) (auto simp: free_set_def word_less_nat_alt)
  finally show ?thesis by simp
qed

lemma pm_free_frame_Ok:
  assumes "addr mod PAGE_SIZE = 0" "addr div PAGE_SIZE < total_frames p"
    "addr div PAGE_SIZE \<notin> free_set p m"
  obtains zs idx where "length zs = length (zones p)" "idx \<le> last_alloc_index p"
    "pm_free_frame p m addr = (Ok (),
       p\<lparr>free_frames := free_frames p + 1, zones := zs, last_alloc_index := idx\<rparr>,
       bm_clear m (bitmap p) (addr div PAGE_SIZE))"
proof -
  let ?f = "addr div PAGE_SIZE"
  let ?zs = "zone_free_add 1 (zone_index (from_address addr)) (zones p)"
  have t: "bm_test m (bitmap p) ?f" using assms by (simp add: free_set_def)
  show thesis
  proof (cases "?f div 8 < last_alloc_index p")
    case True
    with assms t show thesis
      by (intro that [of ?zs "?f div 8"]) (auto simp: pm_free_frame_def Let_def not_le)
  next
    case False
    with assms t show thesis
      by (intro that [of ?zs "last_alloc_index p"]) (auto simp: pm_free_frame_def Let_def not_le)
  qed
qed

lemma pmm_inv_free:
  assumes inv: "pmm_inv p m" and f: "f < total_frames p" "f \<notin> free_set p m"
    and zs: "length zs = length (zones p)" "idx \<le> last_alloc_index p"
  shows "pmm_inv (p\<lparr>free_frames := free_frames p + 1, zones := zs, last_alloc_index := idx\<rparr>)
     (bm_clear m (bitmap p) f)"
proof -
  let ?p = "p\<lparr>free_frames := free_frames p + 1, zones := zs, last_alloc_index := idx\<rparr>"
  have c: "unat (free_frames p) = card (free_set p m)" using inv unfolding pmm_inv_def by blast
  have "unat (free_frames p) < 2 ^ 52"
    using c card_free_set_le [of p m] inv_sizes(2) [OF inv] by linarith
  then have "unat (free_frames p + 1) = Suc (card (free_set p m))"
    using c by (simp add: unat_plus_if')
  also have "\<dots> = card (insert f (free_set p m))" using f by simp
  finally show ?thesis
    using inv f zs free_set_clear [of ?p p f m] unfolding pmm_inv_def by auto
qed

section \<open>The frame allocator contract\<close>

lemma frame_addr:
  assumes "f < total_frames p" "pmm_inv p m"
  shows "unat (f * PAGE_SIZE) = unat f * 4096" "f * PAGE_SIZE mod PAGE_SIZE = 0"
    "f * PAGE_SIZE div PAGE_SIZE = f"
proof -
  have "unat f < 2 ^ 52" using assms inv_sizes(2) [of p m] by (simp add: word_less_nat_alt)
  then show u: "unat (f * PAGE_SIZE) = unat f * 4096"
    unfolding PAGE_SIZE_def by (subst unat_mult_lem [THEN iffD1]) auto
  then show "f * PAGE_SIZE mod PAGE_SIZE = 0" "f * PAGE_SIZE div PAGE_SIZE = f"
    by (simp_all add: word_unat_eq_iff unat_mod unat_div) (simp_all add: PAGE_SIZE_def)
qed

definition frame_addrs :: "usize set \<Rightarrow> u64 set" where
  "frame_addrs F = (\<lambda>f. f * PAGE_SIZE) ` F"

definition managed_set :: "PhysicalMemoryManager \<Rightarrow> usize set" where
  "managed_set p = {f. f < total_frames p}"

lemma frame_addrs_iff:
  assumes "pmm_inv p m" "F \<subseteq> managed_set p"
  shows "a \<in> frame_addrs F \<longleftrightarrow> a mod PAGE_SIZE = 0 \<and> a div PAGE_SIZE \<in> F"
proof
  assume "a \<in> frame_addrs F"
  with assms show "a mod PAGE_SIZE = 0 \<and> a div PAGE_SIZE \<in> F"
    by (auto simp: frame_addrs_def managed_set_def frame_addr(2,3) subset_iff)
next
  assume a: "a mod PAGE_SIZE = 0 \<and> a div PAGE_SIZE \<in> F"
  then have "a div PAGE_SIZE * PAGE_SIZE = a" using word_mod_div_equality [of a PAGE_SIZE] by simp
  with a show "a \<in> frame_addrs F" unfolding frame_addrs_def by (metis imageI)
qed

lemma frame_addrs_inj:
  assumes "pmm_inv p m" "F \<subseteq> managed_set p" "f \<in> managed_set p"
  shows "frame_addrs (F - {f}) = frame_addrs F - {f * PAGE_SIZE}"
proof -
  have "inj_on (\<lambda>f. f * PAGE_SIZE) (managed_set p)"
    by (rule inj_on_inverseI [where g = "\<lambda>a. a div PAGE_SIZE"])
      (use assms(1) in \<open>auto simp: managed_set_def frame_addr(3)\<close>)
  with assms show ?thesis unfolding frame_addrs_def by (subst inj_on_image_set_diff) auto
qed

lemma free_set_managed: "free_set p m \<subseteq> managed_set p"
  by (auto simp: free_set_def managed_set_def)

lemma pm_alloc_frame_Err:
  "pmm_inv p m \<Longrightarrow> free_frames p = 0 \<Longrightarrow> free_set p m = {}"
  unfolding pmm_inv_def by (metis card_0_eq finite_free_set unat_0)

lemma pm_alloc_frame_contract:
  assumes "pmm_inv p m" "pm_alloc_frame p m = (Ok a, p', m')"
  shows "a \<in> frame_addrs (free_set p m) \<and> frame_addrs (free_set p' m') = frame_addrs (free_set p m) - {a}
     \<and> managed_set p' = managed_set p \<and> pmm_inv p' m'"
proof (cases "free_frames p = 0")
  case False
  from pm_alloc_frame_step [OF assms(1) this] obtain f idx where
    f: "f \<in> free_set p m" "idx < bitmap_size p" and
    eq: "pm_alloc_frame p m = (Ok (f * PAGE_SIZE),
       p\<lparr>free_frames := free_frames p - 1, last_alloc_index := idx\<rparr>, bm_set m (bitmap p) f)"
    by blast
  then have s: "a = f * PAGE_SIZE" "p' = p\<lparr>free_frames := free_frames p - 1, last_alloc_index := idx\<rparr>"
      "m' = bm_set m (bitmap p) f"
    using assms(2) by auto
  have "free_set p' m' = free_set p m - {f}" unfolding s by (rule free_set_set) simp_all
  moreover have "frame_addrs (free_set p m - {f}) = frame_addrs (free_set p m) - {a}"
    unfolding s(1) using assms(1) free_set_managed f(1) by (intro frame_addrs_inj) auto
  moreover have "a \<in> frame_addrs (free_set p m)" using f(1) by (auto simp: s(1) frame_addrs_def)
  moreover have "pmm_inv p' m'" unfolding s using assms(1) f by (rule pmm_inv_alloc)
  ultimately show ?thesis by (simp add: managed_set_def s(2))
qed (use assms in \<open>simp add: pm_alloc_frame_def\<close>)

lemma pm_free_frame_contract:
  assumes inv: "pmm_inv p m" and r: "pm_free_frame p m a = (Ok u, p', m')"
  shows "a \<in> frame_addrs (managed_set p) - frame_addrs (free_set p m)
     \<and> frame_addrs (free_set p' m') = insert a (frame_addrs (free_set p m))
     \<and> managed_set p' = managed_set p \<and> pmm_inv p' m'"
proof -
  let ?f = "a div PAGE_SIZE"
  have a: "a mod PAGE_SIZE = 0" "?f < total_frames p" "?f \<notin> free_set p m"
    using r by (auto simp: pm_free_frame_def Let_def free_set_def not_le split: if_splits)
  from pm_free_frame_Ok [OF a] obtain zs idx where
    zs: "length zs = length (zones p)" "idx \<le> last_alloc_index p" and
    eq: "pm_free_frame p m a = (Ok (),
       p\<lparr>free_frames := free_frames p + 1, zones := zs, last_alloc_index := idx\<rparr>,
       bm_clear m (bitmap p) ?f)" by blast
  then have s: "p' = p\<lparr>free_frames := free_frames p + 1, zones := zs, last_alloc_index := idx\<rparr>"
      "m' = bm_clear m (bitmap p) ?f" using r by auto
  have "free_set p' m' = insert ?f (free_set p m)" unfolding s by (rule free_set_clear) (use a in simp_all)
  moreover have "?f * PAGE_SIZE = a" using a(1) word_mod_div_equality [of a PAGE_SIZE] by simp
  ultimately have "frame_addrs (free_set p' m') = insert a (frame_addrs (free_set p m))"
    by (simp add: frame_addrs_def)
  moreover have "a \<in> frame_addrs (managed_set p) - frame_addrs (free_set p m)"
    using a frame_addrs_iff [OF inv] free_set_managed by (auto simp: managed_set_def)
  moreover have "pmm_inv p' m'" unfolding s using inv a zs by (intro pmm_inv_free) auto
  ultimately show ?thesis by (simp add: managed_set_def s(1))
qed

lemma pm_free_frame_Err:
  assumes inv: "pmm_inv p m" and r: "pm_free_frame p m a = (Err e, p', m')"
  shows "a \<notin> frame_addrs (managed_set p) - frame_addrs (free_set p m) \<and> p' = p \<and> m' = m"
proof -
  have "a mod PAGE_SIZE \<noteq> 0 \<or> \<not> a div PAGE_SIZE < total_frames p \<or> a div PAGE_SIZE \<in> free_set p m"
    and s: "p' = p" "m' = m"
    using r by (auto simp: pm_free_frame_def Let_def free_set_def not_le split: if_splits)
  then have "a \<notin> frame_addrs (managed_set p) - frame_addrs (free_set p m)"
    using frame_addrs_iff [OF inv] free_set_managed by (auto simp: managed_set_def)
  with s show ?thesis by blast
qed

interpretation pmm_frames: frame_allocator
    "\<lambda>(p, m). pm_alloc_frame p m" "\<lambda>(p, m) a. pm_free_frame p m a"
    "\<lambda>(p, m). frame_addrs (free_set p m)" "\<lambda>(p, m). frame_addrs (managed_set p)"
    "\<lambda>(p, m). pmm_inv p m"
proof (unfold_locales, goal_cases)
  case (1 s a s')
  then show ?case by (cases s; cases s') (auto dest: pm_alloc_frame_contract)
next
  case (2 s e s')
  obtain p m where s: "s = (p, m)" by (cases s)
  with 2 have "free_frames p = 0" using pm_alloc_frame_step [of p m] by fastforce
  then show ?case using 2 pm_alloc_frame_Err [of p m] by (auto simp: s pm_alloc_frame_def frame_addrs_def)
next
  case (3 s a u s')
  then show ?case by (cases s; cases s') (auto dest: pm_free_frame_contract)
next
  case (4 s a e s')
  then show ?case by (cases s; cases s') (auto dest: pm_free_frame_Err)
next
  case (5 s)
  then show ?case using free_set_managed by (fastforce simp: frame_addrs_def)
next
  case (6 s)
  then show ?case by (auto simp: frame_addrs_def)
qed

section \<open>Main results on single frames\<close>

text \<open>A manager of sixteen frames, of which the upper eight are free, for the witnesses.\<close>

definition demo_pmm :: PhysicalMemoryManager where
  "demo_pmm = \<lparr>bitmap = 0x1000, bitmap_size = 2, bitmap_size_aligned = 4096, total_frames = 16,
     free_frames = 8, last_alloc_index = 0, highest_address = 0x10000,
     zones = init_zones 16, numa_nodes = replicate 8 NumaStats_new, numa_count = 1\<rparr>"

definition demo_mem :: memory where
  "demo_mem = (\<lambda>x. if x = 0x1000 then 0xFF else 0)"

lemma free_set_code [code]:
  "free_set p m = set (filter (\<lambda>f. \<not> bm_test m (bitmap p) f) (range_w 0 (total_frames p)))"
  by (auto simp: free_set_def set_range_w)

lemma demo_inv: "pmm_inv demo_pmm demo_mem"
  by code_simp

lemma demo_free_set: "free_set demo_pmm demo_mem = {8, 9, 10, 11, 12, 13, 14, 15}"
  by code_simp

lemma demo_alloc: "fst (pm_alloc_frame demo_pmm demo_mem) = Ok 0x8000"
  by code_simp

text \<open>
  C1: allocation of a frame succeeds exactly when a frame is free. When none is free it reports
  error 3 and changes nothing; otherwise it returns the address of a frame that was free, that
  frame and no other stops being free, the manager's invariant is kept and memory outside the
  one bitmap byte is unchanged. In particular error 4 is never reported.
\<close>

theorem pm_alloc_frame_correct:
  assumes "pmm_inv p m"
  shows "if free_set p m = {}
     then pm_alloc_frame p m = (Err (MemoryError_new 3 ''No free memory available!'' False), p, m)
     else \<exists>f\<in>free_set p m. \<exists>p' m'. pm_alloc_frame p m = (Ok (f * PAGE_SIZE), p', m')
        \<and> free_set p' m' = free_set p m - {f} \<and> pmm_inv p' m'
        \<and> (\<forall>x. x \<noteq> bitmap p + f div 8 \<longrightarrow> m' x = m x)"
proof (cases "free_frames p = 0")
  case True
  then show ?thesis using pm_alloc_frame_Err [OF assms] by (simp add: pm_alloc_frame_def)
next
  case False
  from pm_alloc_frame_step [OF assms this] obtain f idx where
    f: "f \<in> free_set p m" "idx < bitmap_size p" and
    eq: "pm_alloc_frame p m = (Ok (f * PAGE_SIZE),
       p\<lparr>free_frames := free_frames p - 1, last_alloc_index := idx\<rparr>, bm_set m (bitmap p) f)"
    by blast
  let ?p = "p\<lparr>free_frames := free_frames p - 1, last_alloc_index := idx\<rparr>"
  have "free_set ?p (bm_set m (bitmap p) f) = free_set p m - {f}" by (rule free_set_set) simp_all
  moreover have "\<forall>x. x \<noteq> bitmap p + f div 8 \<longrightarrow> bm_set m (bitmap p) f x = m x"
    by (simp add: bm_set_def)
  ultimately show ?thesis using f eq pmm_inv_alloc [OF assms f] by auto
qed

theorem pm_alloc_frame_correct_witness:
  "pmm_inv demo_pmm demo_mem \<and> (\<exists>f\<in>{8, 9, 10, 11, 12, 13, 14, 15}. \<exists>p' m'.
     pm_alloc_frame demo_pmm demo_mem = (Ok (f * PAGE_SIZE), p', m')
     \<and> free_set p' m' = {8, 9, 10, 11, 12, 13, 14, 15} - {f} \<and> pmm_inv p' m')"
  using pm_alloc_frame_correct [OF demo_inv] demo_inv
  unfolding demo_free_set by (metis (no_types, lifting) insert_not_empty)

text \<open>
  C2: releasing a frame. An unaligned address, an address past the last frame and a frame that
  is already free are refused with errors 5, 6 and 7 and change nothing; every other address is
  accepted, exactly its frame becomes free and the invariant is kept.
\<close>

theorem pm_free_frame_correct:
  assumes "pmm_inv p m"
  shows "if a mod PAGE_SIZE \<noteq> 0
     then pm_free_frame p m a = (Err (MemoryError_new 5 ''Address not page-aligned!'' False), p, m)
     else if a div PAGE_SIZE \<ge> total_frames p
     then pm_free_frame p m a = (Err (MemoryError_new 6 ''Address out of bounds!'' False), p, m)
     else if a div PAGE_SIZE \<in> free_set p m
     then pm_free_frame p m a = (Err (MemoryError_new 7 ''Double free detected!'' False), p, m)
     else \<exists>p' m'. pm_free_frame p m a = (Ok (), p', m')
        \<and> free_set p' m' = insert (a div PAGE_SIZE) (free_set p m) \<and> pmm_inv p' m'"
proof (cases "a mod PAGE_SIZE = 0 \<and> a div PAGE_SIZE < total_frames p \<and> a div PAGE_SIZE \<notin> free_set p m")
  case True
  then have h: "a mod PAGE_SIZE = 0" "a div PAGE_SIZE < total_frames p" "a div PAGE_SIZE \<notin> free_set p m"
    by auto
  from pm_free_frame_Ok [OF h] obtain zs idx where
    zs: "length zs = length (zones p)" "idx \<le> last_alloc_index p" and
    eq: "pm_free_frame p m a = (Ok (),
       p\<lparr>free_frames := free_frames p + 1, zones := zs, last_alloc_index := idx\<rparr>,
       bm_clear m (bitmap p) (a div PAGE_SIZE))" by blast
  let ?p = "p\<lparr>free_frames := free_frames p + 1, zones := zs, last_alloc_index := idx\<rparr>"
  have "free_set ?p (bm_clear m (bitmap p) (a div PAGE_SIZE)) = insert (a div PAGE_SIZE) (free_set p m)"
    by (rule free_set_clear) (use h in simp_all)
  then show ?thesis using h eq pmm_inv_free [OF assms h(2,3) zs] by (auto simp: not_le)
next
  case False
  then show ?thesis by (auto simp: pm_free_frame_def Let_def free_set_def)
qed

theorem pm_free_frame_correct_witness:
  "pmm_inv demo_pmm demo_mem \<and> (\<exists>p' m'. pm_free_frame demo_pmm demo_mem 0x3000 = (Ok (), p', m')
     \<and> free_set p' m' = {3, 8, 9, 10, 11, 12, 13, 14, 15} \<and> pmm_inv p' m')"
  using pm_free_frame_correct [OF demo_inv, of "0x3000"] demo_inv
  unfolding demo_free_set by (simp add: PAGE_SIZE_def demo_pmm_def)

text \<open>
  a frame that was just allocated can be released, which makes the set of free frames what
  it was, and cannot be released a second time.
\<close>

theorem pm_alloc_free_round_trip:
  assumes "pmm_inv p m" "pm_alloc_frame p m = (Ok a, p', m')"
  shows "\<exists>p'' m''. pm_free_frame p' m' a = (Ok (), p'', m'')
     \<and> frame_addrs (free_set p'' m'') = frame_addrs (free_set p m) \<and> pmm_inv p'' m''
     \<and> (\<exists>e. pm_free_frame p'' m'' a = (Err e, p'', m''))"
proof -
  from pmm_frames.release_allocated [of "(p, m)" a "(p', m')"] assms obtain p'' m'' where
    r: "pm_free_frame p' m' a = (Ok (), p'', m'')" and
    s: "frame_addrs (free_set p'' m'') = frame_addrs (free_set p m)" "pmm_inv p'' m''"
    by auto
  have "pmm_inv p' m'" using pm_alloc_frame_contract [OF assms] by simp
  with pmm_frames.release_twice [of "(p', m')" a "()" "(p'', m'')"] r
  have "\<exists>e. pm_free_frame p'' m'' a = (Err e, p'', m'')" by simp
  with r s show ?thesis by blast
qed

theorem pm_alloc_free_round_trip_witness:
  "\<exists>p' m' p'' m''. pm_alloc_frame demo_pmm demo_mem = (Ok 0x8000, p', m')
     \<and> pm_free_frame p' m' 0x8000 = (Ok (), p'', m'') \<and> pmm_inv p'' m''"
proof -
  obtain p' m' where a: "pm_alloc_frame demo_pmm demo_mem = (Ok 0x8000, p', m')"
    using demo_alloc by (metis prod.collapse)
  from pm_alloc_free_round_trip [OF demo_inv a] a show ?thesis by blast
qed

text \<open>Repeated allocation.\<close>

primrec pm_alloc_frames :: "nat \<Rightarrow> PhysicalMemoryManager \<Rightarrow> memory \<Rightarrow>
    u64 list option \<times> PhysicalMemoryManager \<times> memory" where
  "pm_alloc_frames 0 p m = (Some [], p, m)"
| "pm_alloc_frames (Suc n) p m =
     (case pm_alloc_frame p m of
        (Ok a, p', m') \<Rightarrow> (case pm_alloc_frames n p' m' of (Some as, s) \<Rightarrow> (Some (a # as), s)
                                                     | (None, s) \<Rightarrow> (None, s))
      | (Err e, p', m') \<Rightarrow> (None, p', m'))"

lemma pm_alloc_frames_eq: "pm_alloc_frames n p m = pmm_frames.alloc_n n (p, m)"
  by (induction n arbitrary: p m) (auto split: prod.splits sum.splits)

text \<open>
  as many allocations in a row as there are free frames all succeed, and they hand out
  pairwise different frames, all of them free before.
\<close>

theorem pm_alloc_frames_distinct:
  assumes "pmm_inv p m" "n \<le> unat (free_frames p)"
  shows "\<exists>as p' m'. pm_alloc_frames n p m = (Some as, p', m') \<and> length as = n \<and> distinct as
     \<and> set as \<subseteq> frame_addrs (free_set p m) \<and> unat (free_frames p') = unat (free_frames p) - n"
proof -
  have inj: "inj_on (\<lambda>f. f * PAGE_SIZE) (free_set p m)" if "pmm_inv p m" for p m
    by (rule inj_on_inverseI [where g = "\<lambda>a. a div PAGE_SIZE"])
      (use that in \<open>auto simp: free_set_def frame_addr(3)\<close>)
  then have card: "card (frame_addrs (free_set p m)) = unat (free_frames p)" if "pmm_inv p m" for p m
    using that card_image [OF inj [OF that]] unfolding frame_addrs_def pmm_inv_def by simp
  obtain as p' m' where r: "pmm_frames.alloc_n n (p, m) = (Some as, p', m')"
    using pmm_frames.alloc_n_enough [of "(p, m)" n] assms card [OF assms(1)] by auto
  then have as: "length as = n" "distinct as" "set as \<subseteq> frame_addrs (free_set p m)"
      "frame_addrs (free_set p' m') = frame_addrs (free_set p m) - set as" "pmm_inv p' m'"
    using pmm_frames.alloc_n_distinct [of "(p, m)" n as "(p', m')"] assms(1) by auto
  then have "unat (free_frames p') = card (frame_addrs (free_set p m) - set as)"
    using card [OF as(5)] by simp
  also have "\<dots> = unat (free_frames p) - n"
    using as card [OF assms(1)] by (simp add: card_Diff_subset distinct_card)
  finally show ?thesis using r as unfolding pm_alloc_frames_eq by blast
qed

theorem pm_alloc_frames_distinct_witness:
  "\<exists>as p' m'. pm_alloc_frames 3 demo_pmm demo_mem = (Some as, p', m') \<and> length as = 3 \<and> distinct as
     \<and> unat (free_frames p') = 5"
  using pm_alloc_frames_distinct [OF demo_inv, of 3] by (fastforce simp: demo_pmm_def)

end
