(* ===== verification/Pmm_Runs.thy ===== *)
theory Pmm_Runs
  imports Pmm
begin

text \<open>
  Contiguous allocation and the zone statistics of \<^verbatim>\<open>memory/pmm.rs\<close>. The search loop of
  \<^verbatim>\<open>alloc_frames_contiguous\<close> is shown to return and to find a run of free frames whenever there
  is one; the zone statistics are shown not to count the free frames of a zone.
\<close>

unbundle bit_operations_syntax

section \<open>Contiguous runs\<close>

lemma find_range_None: "find P (range_w 0 n) = None \<longleftrightarrow> (\<forall>x<n. \<not> P x)"
  by (simp add: find_None_iff set_range_w_0)

lemma find_range_Some: "find P (range_w 0 n) = Some x \<Longrightarrow> x < n \<and> P x"
  by (metis find_Some_iff nth_mem set_range_w_0)

text \<open>The \<open>cnt\<close> frames from \<open>s\<close> on, as frame numbers.\<close>

definition run :: "usize \<Rightarrow> usize \<Rightarrow> usize set" where
  "run s cnt = {s + k | k. k < cnt}"

definition free_run :: "PhysicalMemoryManager \<Rightarrow> memory \<Rightarrow> usize \<Rightarrow> usize \<Rightarrow> bool" where
  "free_run p m s cnt \<longleftrightarrow> run s cnt \<subseteq> free_set p m"

lemma pm_test_bit_iff: "pm_test_bit p m f \<longleftrightarrow> f \<notin> free_set p m"
  by (auto simp: pm_test_bit_def free_set_def)

lemma find_used_None:
  "find (\<lambda>k. pm_test_bit p m (s + k)) (range_w 0 cnt) = None \<longleftrightarrow> free_run p m s cnt"
  by (auto simp: find_range_None pm_test_bit_iff free_run_def run_def)

lemma run_iff:
  assumes "unat s + unat cnt < 2 ^ 64"
  shows "f \<in> run s cnt \<longleftrightarrow> unat s \<le> unat f \<and> unat f < unat s + unat cnt"
proof
  assume "f \<in> run s cnt"
  then obtain k where k: "k < cnt" "f = s + k" by (auto simp: run_def)
  then have "unat f = unat s + unat k"
    using assms by (simp add: unat_plus_if' word_less_nat_alt)
  with k show "unat s \<le> unat f \<and> unat f < unat s + unat cnt" by (simp add: word_less_nat_alt)
next
  assume a: "unat s \<le> unat f \<and> unat f < unat s + unat cnt"
  then have "s \<le> f" by (simp add: word_le_nat_alt)
  then have "unat (f - s) = unat f - unat s" by (rule unat_sub)
  with a have "f - s < cnt" by (simp add: word_less_nat_alt) linarith
  then show "f \<in> run s cnt" by (auto simp: run_def intro!: exI [of _ "f - s"])
qed

lemma guard_iff:
  assumes "unat (s :: u64) \<le> 2 ^ 52" "unat cnt < 2 ^ 63"
  shows "s + cnt \<le> e \<longleftrightarrow> unat s + unat cnt \<le> unat e" "unat s + unat cnt < 2 ^ 64"
  using assms by (simp_all add: word_le_nat_alt unat_plus_if')

lemma contiguous_scan_correct:
  assumes "unat end_frame < 2 ^ 52" "unat cnt < 2 ^ 63" "unat cur \<le> 2 ^ 52"
  shows "\<exists>r. contiguous_scan p m cnt end_frame cur = Some r \<and>
     (case r of
        Some s \<Rightarrow> unat cur \<le> unat s \<and> unat s + unat cnt \<le> unat end_frame \<and> free_run p m s cnt
      | None \<Rightarrow> \<forall>s. unat cur \<le> unat s \<longrightarrow> unat s + unat cnt \<le> unat end_frame \<longrightarrow> \<not> free_run p m s cnt)"
  using assms(3)
proof (induction "2 ^ 52 - unat cur" arbitrary: cur rule: less_induct)
  case less
  note g = guard_iff(1) [OF less.prems assms(2), of end_frame] guard_iff(2) [OF less.prems assms(2)]
  show ?case
  proof (cases "cur + cnt \<le> end_frame")
    case False
    then have "contiguous_scan p m cnt end_frame cur = Some None"
      by (subst contiguous_scan.simps) simp
    moreover have "\<not> unat s + unat cnt \<le> unat end_frame" if "unat cur \<le> unat s" for s
      using False that g(1) by linarith
    ultimately show ?thesis by auto
  next
    case True
    then have le: "unat cur + unat cnt \<le> unat end_frame" using g(1) by simp
    show ?thesis
    proof (cases "find (\<lambda>k. pm_test_bit p m (cur + k)) (range_w 0 cnt)")
      case None
      then have "contiguous_scan p m cnt end_frame cur = Some (Some cur)"
        using True by (subst contiguous_scan.simps) simp
      with None le show ?thesis by (auto simp: find_used_None)
    next
      case (Some k)
      then have k: "k < cnt" "cur + k \<notin> free_set p m"
        using find_range_Some [OF Some] by (auto simp: pm_test_bit_iff)
      have kn: "unat (cur + k) = unat cur + unat k" "unat k < unat cnt"
        using k(1) g(2) by (simp_all add: unat_plus_if' word_less_nat_alt)
      have next': "unat (cur + k + 1) = Suc (unat cur + unat k)"
        using kn le assms(1) by (simp add: unat_plus_if')
      have eq: "contiguous_scan p m cnt end_frame cur = contiguous_scan p m cnt end_frame (cur + k + 1)"
        using True Some by (subst contiguous_scan.simps) simp
      have skip: "\<not> free_run p m s cnt"
        if "unat cur \<le> unat s" "unat s \<le> unat cur + unat k" "unat s + unat cnt \<le> unat end_frame" for s
      proof -
        have "unat s + unat cnt < 2 ^ 64" using that(3) assms(1) by simp
        then have "cur + k \<in> run s cnt" using that kn by (simp add: run_iff)
        with k(2) show ?thesis by (auto simp: free_run_def)
      qed
      have "\<exists>r. contiguous_scan p m cnt end_frame (cur + k + 1) = Some r \<and>
         (case r of
            Some s \<Rightarrow> unat (cur + k + 1) \<le> unat s \<and> unat s + unat cnt \<le> unat end_frame \<and> free_run p m s cnt
          | None \<Rightarrow> \<forall>s. unat (cur + k + 1) \<le> unat s \<longrightarrow> unat s + unat cnt \<le> unat end_frame
                       \<longrightarrow> \<not> free_run p m s cnt)"
        by (rule less.hyps) (use next' kn le assms(1) in auto)
      then obtain r where r: "contiguous_scan p m cnt end_frame (cur + k + 1) = Some r"
         "case r of
            Some s \<Rightarrow> unat (cur + k + 1) \<le> unat s \<and> unat s + unat cnt \<le> unat end_frame \<and> free_run p m s cnt
          | None \<Rightarrow> \<forall>s. unat (cur + k + 1) \<le> unat s \<longrightarrow> unat s + unat cnt \<le> unat end_frame
                       \<longrightarrow> \<not> free_run p m s cnt"
        by blast
      show ?thesis
      proof (cases r)
        case None
        have "\<not> free_run p m s cnt" if "unat cur \<le> unat s" "unat s + unat cnt \<le> unat end_frame" for s
          using that skip [of s] r(2) None next' by (cases "unat s \<le> unat cur + unat k") auto
        with r(1) eq None show ?thesis by auto
      next
        case (Some s)
        with r eq next' show ?thesis by auto
      qed
    qed
  qed
qed

lemma alloc_run_fold:
  "\<exists>zs. length zs = length (zones p) \<and>
     fold (\<lambda>k. alloc_run_frame (s + k)) ks (p, m)
       = (p\<lparr>zones := zs\<rparr>, fold (\<lambda>k m. bm_set m (bitmap p) (s + k)) ks m)"
proof (induction ks arbitrary: p m)
  case (Cons k ks)
  let ?p = "p\<lparr>zones := zone_free_add (- 1) (zone_index (from_address ((s + k) * PAGE_SIZE))) (zones p)\<rparr>"
  from Cons [of ?p "bm_set m (bitmap p) (s + k)"] show ?case
    by (auto simp: alloc_run_frame_def)
qed (auto intro: exI [of _ "zones p"])

lemma free_set_run:
  "free_set p (fold (\<lambda>k m. bm_set m (bitmap p) (s + k)) (range_w 0 cnt) m) = free_set p m - run s cnt"
proof -
  have "fold (\<lambda>k m. bm_set m (bitmap p) (s + k)) ks m = fold (\<lambda>f m. bm_set m (bitmap p) f) (map ((+) s) ks) m"
    for ks by (induction ks arbitrary: m) auto
  then show ?thesis
    by (auto simp: free_set_def frames.test_mark_all run_def set_range_w_0)
qed

lemma card_run: "card (run s cnt) = unat cnt"
proof -
  have "run s cnt = (+) s ` set (range_w 0 cnt)" by (auto simp: run_def set_range_w_0)
  then have "card (run s cnt) = card (set (range_w 0 cnt))" by (simp add: card_image)
  also have "\<dots> = unat cnt" by (simp add: distinct_card distinct_range_w) (simp add: range_w_def)
  finally show ?thesis .
qed

lemma pmm_inv_run:
  assumes inv: "pmm_inv p m" and run: "free_run p m s cnt" and zs: "length zs = length (zones p)"
    and m': "m' = fold (\<lambda>k m. bm_set m (bitmap p) (s + k)) (range_w 0 cnt) m"
  shows "pmm_inv (p\<lparr>zones := zs, free_frames := free_frames p - cnt\<rparr>) m'"
    and "free_set (p\<lparr>zones := zs, free_frames := free_frames p - cnt\<rparr>) m' = free_set p m - run s cnt"
proof -
  let ?p = "p\<lparr>zones := zs, free_frames := free_frames p - cnt\<rparr>"
  have "free_set ?p m' = free_set p m'" by (simp add: free_set_def)
  then show fs: "free_set ?p m' = free_set p m - run s cnt" by (simp add: m' free_set_run)
  have c: "unat (free_frames p) = card (free_set p m)" using inv unfolding pmm_inv_def by blast
  have sub: "run s cnt \<subseteq> free_set p m" using run by (simp add: free_run_def)
  then have le: "unat cnt \<le> unat (free_frames p)"
    unfolding c using card_mono [OF finite_free_set sub] by (simp add: card_run)
  then have "unat (free_frames p - cnt) = unat (free_frames p) - unat cnt"
    by (simp add: unat_sub word_le_nat_alt)
  also have "\<dots> = card (free_set p m - run s cnt)"
    using sub by (simp add: c card_run card_Diff_subset finite_subset)
  finally show "pmm_inv ?p m'" using inv zs unfolding pmm_inv_def fs by auto
qed

text \<open>The frame range a contiguous allocation searches.\<close>

definition search_range :: "PhysicalMemoryManager \<Rightarrow> MemoryZone option \<Rightarrow> usize \<times> usize" where
  "search_range p zone =
     (case zone of
        Some z \<Rightarrow> (start_address z div PAGE_SIZE, min (end_address z div PAGE_SIZE) (total_frames p))
      | None \<Rightarrow> (0, total_frames p))"

text \<open>
  C5: contiguous allocation of two or more frames always returns, and searches exhaustively. On
  success the frames returned are consecutive, lie in the range searched, were all free and are
  all used afterwards, no other frame changes and the invariant (with it the count of free
  frames) is kept; on failure nothing changes and the range has no free run of that length.
\<close>

theorem pm_alloc_frames_contiguous_correct:
  assumes inv: "pmm_inv p m" and cnt: "2 \<le> cnt" "cnt < 2 ^ 63" and r: "search_range p zone = (st, en)"
  shows "\<exists>r p' m'. pm_alloc_frames_contiguous p m cnt zone = Some (r, p', m') \<and>
     (case r of
        Ok a \<Rightarrow> \<exists>s. a = s * PAGE_SIZE \<and> st \<le> s \<and> unat s + unat cnt \<le> unat en
           \<and> run s cnt \<subseteq> free_set p m \<and> free_set p' m' = free_set p m - run s cnt \<and> pmm_inv p' m'
      | Err e \<Rightarrow> err_code e = 13 \<and> p' = p \<and> m' = m
           \<and> (\<forall>s. st \<le> s \<longrightarrow> unat s + unat cnt \<le> unat en \<longrightarrow> \<not> run s cnt \<subseteq> free_set p m))"
proof -
  have not01: "cnt \<noteq> 0" "cnt \<noteq> 1" using cnt(1) by (auto simp: word_le_nat_alt)
  have cn: "unat cnt < 2 ^ 63" using cnt(2) by (simp add: word_less_nat_alt)
  have t: "unat (total_frames p) < 2 ^ 52" by (rule inv_sizes(2) [OF inv])
  have en: "unat en < 2 ^ 52"
    using r t by (auto simp: search_range_def min_def word_le_nat_alt split: option.splits if_splits)
  have st: "unat st \<le> 2 ^ 52"
  proof (cases zone)
    case (Some z)
    with r have "st = start_address z div PAGE_SIZE" by (simp add: search_range_def)
    then show ?thesis by (cases z) (simp_all add: PAGE_SIZE_def zone_consts unat_div)
  qed (use r in \<open>simp add: search_range_def\<close>)
  obtain res where scan: "contiguous_scan p m cnt en st = Some res"
    "case res of
        Some s \<Rightarrow> unat st \<le> unat s \<and> unat s + unat cnt \<le> unat en \<and> free_run p m s cnt
      | None \<Rightarrow> \<forall>s. unat st \<le> unat s \<longrightarrow> unat s + unat cnt \<le> unat en \<longrightarrow> \<not> free_run p m s cnt"
    using contiguous_scan_correct [OF en cn st] by blast
  show ?thesis
  proof (cases res)
    case None
    then have "pm_alloc_frames_contiguous p m cnt zone
        = Some (Err (MemoryError_new 13 ''No contiguous frames available!'' False), p, m)"
      using not01 scan(1) r by (simp add: pm_alloc_frames_contiguous_def search_range_def)
    with None scan(2) show ?thesis
      by (auto simp: MemoryError_new_def free_run_def word_le_nat_alt)
  next
    case (Some s)
    obtain zs where zs: "length zs = length (zones p)"
      "fold (\<lambda>k. alloc_run_frame (s + k)) (range_w 0 cnt) (p, m)
         = (p\<lparr>zones := zs\<rparr>, fold (\<lambda>k m. bm_set m (bitmap p) (s + k)) (range_w 0 cnt) m)"
      using alloc_run_fold by blast
    have "pm_alloc_frames_contiguous p m cnt zone = Some (Ok (s * PAGE_SIZE),
        p\<lparr>zones := zs, free_frames := free_frames p - cnt\<rparr>,
        fold (\<lambda>k m. bm_set m (bitmap p) (s + k)) (range_w 0 cnt) m)"
      using not01 scan(1) r zs(2) Some
      by (simp add: pm_alloc_frames_contiguous_def search_range_def)
    with scan(2) Some pmm_inv_run [OF inv _ zs(1) refl, of s cnt] show ?thesis
      by (auto simp: free_run_def word_le_nat_alt)
  qed
qed

theorem pm_alloc_frames_contiguous_correct_witness:
  "\<exists>r p' m'. pm_alloc_frames_contiguous demo_pmm demo_mem 3 None = Some (r, p', m') \<and>
     (case r of
        Ok a \<Rightarrow> \<exists>s. a = s * PAGE_SIZE \<and> 0 \<le> s \<and> unat s + unat (3 :: usize) \<le> unat (16 :: usize)
           \<and> run s 3 \<subseteq> free_set demo_pmm demo_mem
           \<and> free_set p' m' = free_set demo_pmm demo_mem - run s 3 \<and> pmm_inv p' m'
      | Err e \<Rightarrow> err_code e = 13 \<and> p' = demo_pmm \<and> m' = demo_mem
           \<and> (\<forall>s. 0 \<le> s \<longrightarrow> unat s + unat (3 :: usize) \<le> unat (16 :: usize) \<longrightarrow> \<not> run s 3 \<subseteq> free_set demo_pmm demo_mem))"
proof -
  have "search_range demo_pmm None = (0, 16)" by (simp add: search_range_def demo_pmm_def)
  from pm_alloc_frames_contiguous_correct [OF demo_inv _ _ this, of 3] show ?thesis
    by (simp only: word_le_nat_alt word_less_nat_alt) simp
qed

section \<open>Zone statistics\<close>

lemma zone_index_less: "zone_index z < 4"
  by (cases z) simp_all

lemma init_zones_free: "zs_free_frames (init_zones n ! zone_index z) = 0"
  by (cases z) (simp_all add: init_zones_def Let_def ZoneStats_new_def)

lemma pm_init_zones: "pm_init m mp = Ok (p, m') \<Longrightarrow> zones p = init_zones (total_frames p)"
  by (auto simp: pm_init_def Let_def split: if_splits option.splits prod.splits)

text \<open>
  initialisation sets the total of every zone but leaves its free count at 0, so that until
  a frame is released every zone allocation of a freshly initialised manager is refused with
  error 10, however much memory is free.
\<close>

theorem zone_alloc_fails_after_init:
  assumes "pm_init m mp = Ok (p, m')"
  shows "pm_alloc_frame_in_zone p m'' z
       = (Err (MemoryError_new 10 ''No free frames in requested zone!'' False), p, m'')
     \<and> pm_alloc_dma32_frame p m''
       = (Err (MemoryError_new 10 ''No free frames in requested zone!'' False), p, m'')"
proof -
  have "pm_alloc_frame_in_zone p m'' z
      = (Err (MemoryError_new 10 ''No free frames in requested zone!'' False), p, m'')" for z
    using pm_init_zones [OF assms] by (simp add: pm_alloc_frame_in_zone_def init_zones_free)
  then show ?thesis by (simp add: pm_alloc_dma32_frame_def)
qed

lemma pm_init_succeeds:
  "highest_usable_address m mp \<noteq> 0 \<Longrightarrow>
   find_bitmap_region m mp
     ((((highest_usable_address m mp div PAGE_SIZE + 7) div 8) + PAGE_SIZE - 1) div PAGE_SIZE * PAGE_SIZE)
     (range_w 0 (count mp)) = Some base \<Longrightarrow> \<exists>p m'. pm_init m mp = Ok (p, m')"
  by (auto simp: pm_init_def Let_def split: prod.splits)

lemma one_entry_init:
  "\<exists>p m'. pm_init one_entry_memory (MemoryMap_parse one_entry_memory 0x7000) = Ok (p, m')"
proof -
  let ?mp = "MemoryMap_parse one_entry_memory 0x7000"
  have u: "is_usable \<lparr>entry_base = 0x100000, entry_length = 0x8000000, region_type = 1, acpi_extended = 0\<rparr>"
    by (simp add: is_usable_def is_valid_def memory_type_def E820Type_from_u32_def)
  have high: "highest_usable_address one_entry_memory ?mp = 0x8100000"
    by (simp add: highest_usable_address_def mm_loop_eq_fold one_entry_entries u entry_end_def
        saturating_add_def)
  have "range_w 0 (count ?mp) = [0]" by (simp add: one_entry_count range_w_def)
  moreover have "mm_get one_entry_memory ?mp 0
      = Some \<lparr>entry_base = 0x100000, entry_length = 0x8000000, region_type = 1, acpi_extended = 0\<rparr>"
    using one_entry_read by (simp add: mm_get_def one_entry_count) (simp add: MemoryMap_parse_def)
  ultimately have "find_bitmap_region one_entry_memory ?mp 8192 (range_w 0 (count ?mp)) = Some 0xA00000"
    by (simp add: u KERNEL_END_def Let_def)
  then show ?thesis
    using pm_init_succeeds [of one_entry_memory ?mp "0xA00000"] by (simp add: high PAGE_SIZE_def)
qed

theorem zone_alloc_fails_after_init_witness:
  "\<exists>p m'. pm_init one_entry_memory (MemoryMap_parse one_entry_memory 0x7000) = Ok (p, m')
     \<and> fst (pm_alloc_dma32_frame p m')
       = Err (MemoryError_new 10 ''No free frames in requested zone!'' False)"
proof -
  obtain p m' where i: "pm_init one_entry_memory (MemoryMap_parse one_entry_memory 0x7000) = Ok (p, m')"
    using one_entry_init by blast
  with zone_alloc_fails_after_init [OF i, of m'] show ?thesis by auto
qed

lemma zone_free_add_nth:
  "i < length zs \<Longrightarrow> zs_free_frames (zone_free_add d i zs ! j) =
     (if j = i then zs_free_frames (zs ! j) + d else zs_free_frames (zs ! j))"
  by (simp add: zone_free_add_def nth_list_update)

lemma alloc_run_zone:
  assumes "length (zones p) = 4" "\<forall>k\<in>set ks. from_address ((s + k) * PAGE_SIZE) = z"
    "fold (\<lambda>k. alloc_run_frame (s + k)) ks (p, m) = (p', m')"
  shows "zs_free_frames (zones p' ! zone_index z)
       = zs_free_frames (zones p ! zone_index z) - word_of_nat (length ks)"
  using assms
proof (induction ks arbitrary: p m)
  case (Cons k ks)
  let ?p = "p\<lparr>zones := zone_free_add (- 1) (zone_index (from_address ((s + k) * PAGE_SIZE))) (zones p)\<rparr>"
  have "zs_free_frames (zones p' ! zone_index z)
      = zs_free_frames (zones ?p ! zone_index z) - word_of_nat (length ks)"
    by (rule Cons.IH) (use Cons.prems in \<open>auto simp: alloc_run_frame_def\<close>)
  also have "zs_free_frames (zones ?p ! zone_index z) = zs_free_frames (zones p ! zone_index z) - 1"
    using Cons.prems zone_index_less [of z] by (simp add: zone_free_add_nth)
  finally show ?case by simp
qed simp

text \<open>
  contiguous allocation decrements the free count of the zone of each frame it takes. With
  the count at 0, as initialisation leaves it, the count wraps around: after a run of \<open>cnt\<close>
  frames inside one zone it is \<open>2^64 - cnt\<close>, not the number of free frames of the zone.
\<close>

theorem zone_count_wraps:
  assumes "length (zones p) = 4" "zs_free_frames (zones p ! zone_index z) = 0" "2 \<le> cnt"
    and "pm_alloc_frames_contiguous p m cnt zone = Some (Ok a, p', m')"
    and "\<forall>k<cnt. from_address (a + k * PAGE_SIZE) = z"
  shows "zs_free_frames (zones p' ! zone_index z) = - cnt"
proof -
  have not01: "cnt \<noteq> 0" "cnt \<noteq> 1" using assms(3) by (auto simp: word_le_nat_alt)
  then obtain s p1 where s: "a = s * PAGE_SIZE" and p': "zones p' = zones p1"
    and f: "fold (\<lambda>k. alloc_run_frame (s + k)) (range_w 0 cnt) (p, m) = (p1, m')"
    using assms(4)
    by (auto simp: pm_alloc_frames_contiguous_def Let_def split: prod.splits option.splits)
  have "zs_free_frames (zones p1 ! zone_index z)
      = zs_free_frames (zones p ! zone_index z) - word_of_nat (length (range_w 0 cnt))"
    by (rule alloc_run_zone [OF assms(1) _ f])
      (use assms(5) in \<open>auto simp: s set_range_w_0 distrib_right\<close>)
  then show ?thesis by (simp add: p' assms(2) length_range_w_0)
qed

lemma demo_contiguous: "map_option fst (pm_alloc_frames_contiguous demo_pmm demo_mem 2 None) = Some (Ok 0x8000)"
  by code_simp

theorem zone_count_wraps_witness:
  "\<exists>p' m'. pm_alloc_frames_contiguous demo_pmm demo_mem 2 None = Some (Ok 0x8000, p', m')
     \<and> zs_free_frames (zones p' ! 0) = 0xFFFFFFFFFFFFFFFE"
proof -
  obtain p' m' where r: "pm_alloc_frames_contiguous demo_pmm demo_mem 2 None = Some (Ok 0x8000, p', m')"
    using demo_contiguous by auto
  have h: "\<forall>k<2. from_address (0x8000 + k * PAGE_SIZE) = Dma"
  proof (intro allI impI)
    fix k :: u64 assume "k < 2"
    then have "k = 0 \<or> k = 1" by (auto simp: word_less_nat_alt word_unat_eq_iff)
    then show "from_address (0x8000 + k * PAGE_SIZE) = Dma"
      by (auto simp: from_address_def zone_consts PAGE_SIZE_def)
  qed
  have z: "length (zones demo_pmm) = 4" "zs_free_frames (zones demo_pmm ! zone_index Dma) = 0"
    by (simp_all add: demo_pmm_def init_zones_def Let_def ZoneStats_new_def)
  have "zs_free_frames (zones p' ! zone_index Dma) = - 2"
    by (rule zone_count_wraps [OF z _ r h]) simp
  with r show ?thesis by simp
qed

end
