(* ===== verification/Pmm_Init.thy ===== *)
theory Pmm_Init
  imports Pmm_Runs
begin

text \<open>
  The state that \<^verbatim>\<open>PhysicalMemoryManager::init\<close> leaves behind. Each loop of the initialisation is
  related to the set of free frames and to its count; the bitmap is shown to lie above the kernel
  and inside memory, away from the firmware map it is built from; and the result satisfies the
  invariant that the allocation theorems start from.
\<close>

unbundle bit_operations_syntax

section \<open>Loops of the initialisation\<close>

text \<open>The frames below \<open>n\<close> that the bitmap at \<open>bm\<close> shows as free, and a count of them.\<close>

definition free_below :: "memory \<Rightarrow> u64 \<Rightarrow> usize \<Rightarrow> usize set" where
  "free_below m bm n = {f. f < n \<and> \<not> bm_test m bm f}"

definition counted :: "u64 \<Rightarrow> usize \<Rightarrow> memory \<times> usize \<Rightarrow> bool" where
  "counted bm n st \<longleftrightarrow> unat (snd st) = card (free_below (fst st) bm n)"

lemma mark_step_counted:
  assumes "counted bm n (m, ff)" "f < n" "\<not> bm_test m bm f"
  shows "counted bm n (bm_set m bm f, saturating_sub ff 1)"
    and "free_below (bm_set m bm f) bm n = free_below m bm n - {f}"
proof -
  show fb: "free_below (bm_set m bm f) bm n = free_below m bm n - {f}"
    by (auto simp: free_below_def bm_test_set)
  have f: "f \<in> free_below m bm n" using assms by (simp add: free_below_def)
  then have c: "card (free_below m bm n) \<noteq> 0" by (metis card_0_eq empty_iff finite)
  then have ff: "ff \<noteq> 0" using assms(1) by (auto simp: counted_def)
  then have "saturating_sub ff 1 = ff - 1" "unat (ff - 1) = unat ff - 1"
    by (auto simp: saturating_sub_def word_less_nat_alt unat_pred unat_0_iff)
  then show "counted bm n (bm_set m bm f, saturating_sub ff 1)"
    using assms(1) f by (simp add: counted_def fb)
qed

lemma mark_region_counted:
  assumes "counted bm n st" "b \<le> n"
  shows "counted bm n (mark_region_used_static a b bm st)"
    and "free_below (fst (mark_region_used_static a b bm st)) bm n
       = free_below (fst st) bm n - {f. a \<le> f \<and> f < b}"
proof -
  let ?step = "\<lambda>frame (m, ff). if \<not> bm_test m bm frame
      then (bm_set m bm frame, saturating_sub ff 1) else (m, ff)"
  have gen: "counted bm n (fold ?step fs st) \<and>
      free_below (fst (fold ?step fs st)) bm n = free_below (fst st) bm n - set fs"
    if "counted bm n st" "\<forall>f\<in>set fs. f < n" for fs and st :: "memory \<times> usize"
    using that
  proof (induction fs arbitrary: st)
    case (Cons f fs)
    obtain m ff where st: "st = (m, ff)" by (cases st)
    show ?case
    proof (cases "bm_test m bm f")
      case True
      then have "f \<notin> free_below m bm n" by (simp add: free_below_def)
      with True Cons.IH [of st] Cons.prems show ?thesis by (auto simp: st)
    next
      case False
      have "counted bm n (bm_set m bm f, saturating_sub ff 1)"
        "free_below (bm_set m bm f) bm n = free_below m bm n - {f}"
        using mark_step_counted [of bm n m ff f] Cons.prems False by (auto simp: st)
      with False Cons.IH [of "(bm_set m bm f, saturating_sub ff 1)"] Cons.prems show ?thesis
        by (auto simp: st)
    qed
  qed simp
  have "\<forall>f\<in>set (range_w a b). f < n" using assms(2) by (auto simp: set_range_w)
  from gen [OF assms(1) this]
  show "counted bm n (mark_region_used_static a b bm st)"
    and "free_below (fst (mark_region_used_static a b bm st)) bm n
       = free_below (fst st) bm n - {f. a \<le> f \<and> f < b}"
    by (simp_all add: mark_region_used_static_def set_range_w)
qed

text \<open>The frames an entry contributes: whole pages only, clamped to the bitmap.\<close>

definition entry_frames :: "E820Entry \<Rightarrow> usize \<Rightarrow> usize set" where
  "entry_frames e n = (if is_usable e then
     {f. (entry_base e + PAGE_SIZE - 1) div PAGE_SIZE \<le> f
        \<and> f < (entry_base e + entry_length e) div PAGE_SIZE \<and> f < n} else {})"

lemma clear_fold:
  assumes "distinct fs"
  shows "fold (\<lambda>frame (m, ff). (bm_clear m bm frame, ff + 1)) fs (m, ff)
       = (fold (\<lambda>f m. bm_clear m bm f) fs m, ff + word_of_nat (length fs))"
  using assms by (induction fs arbitrary: m ff) (auto simp: add.assoc)

lemma free_region_eq:
  "\<exists>fs. distinct fs \<and> set fs = entry_frames e n \<and>
     free_region bm n e (m, ff) = (fold (\<lambda>f m. bm_clear m bm f) fs m, ff + word_of_nat (length fs))"
proof -
  let ?a = "(entry_base e + PAGE_SIZE - 1) div PAGE_SIZE"
  let ?b = "(entry_base e + entry_length e) div PAGE_SIZE"
  let ?fs = "if is_usable e \<and> ?a < n then range_w ?a (if ?b > n then n else ?b) else []"
  have "set ?fs = entry_frames e n"
    by (auto simp: entry_frames_def set_range_w not_less split: if_splits)
  moreover have "distinct ?fs" by (simp add: distinct_range_w)
  moreover have "free_region bm n e (m, ff)
      = (fold (\<lambda>f m. bm_clear m bm f) ?fs m, ff + word_of_nat (length ?fs))"
    by (simp add: free_region_def Let_def clear_fold distinct_range_w not_less [symmetric])
  ultimately show ?thesis by blast
qed

lemma free_region_counted:
  assumes "counted bm n (m, ff)" "free_below m bm n \<inter> entry_frames e n = {}"
  shows "counted bm n (free_region bm n e (m, ff))"
    and "free_below (fst (free_region bm n e (m, ff))) bm n = free_below m bm n \<union> entry_frames e n"
proof -
  obtain fs where fs: "distinct fs" "set fs = entry_frames e n"
    "free_region bm n e (m, ff) = (fold (\<lambda>f m. bm_clear m bm f) fs m, ff + word_of_nat (length fs))"
    using free_region_eq by blast
  have "entry_frames e n \<subseteq> {f. f < n}" by (auto simp: entry_frames_def)
  then show fb: "free_below (fst (free_region bm n e (m, ff))) bm n = free_below m bm n \<union> entry_frames e n"
    by (auto simp: fs(3) free_below_def frames.test_unmark_all fs(2))
  have "card (free_below m bm n \<union> entry_frames e n) = unat ff + length fs"
    using assms fs(1,2) by (simp add: card_Un_disjoint counted_def distinct_card [symmetric])
  moreover have "card (free_below m bm n \<union> entry_frames e n) \<le> unat n"
  proof -
    have "free_below m bm n \<union> entry_frames e n \<subseteq> set (range_w 0 n)"
      by (auto simp: free_below_def entry_frames_def set_range_w)
    then have "card (free_below m bm n \<union> entry_frames e n) \<le> card (set (range_w 0 n))"
      by (rule card_mono [rotated]) simp
    then show ?thesis by (simp add: distinct_card distinct_range_w length_range_w_0)
  qed
  ultimately have "unat ff + length fs < 2 ^ 64" using unat_bound [of n] by simp
  then have "unat (ff + word_of_nat (length fs)) = unat ff + length fs"
    by (simp add: unat_plus_if' unat_of_nat)
  with \<open>card (free_below m bm n \<union> entry_frames e n) = unat ff + length fs\<close>
  show "counted bm n (free_region bm n e (m, ff))"
    unfolding counted_def fb by (simp add: fs(3))
qed


text \<open>All regions: the free frames are the frames of the usable entries, each counted once.\<close>

definition map_frames :: "E820Entry list \<Rightarrow> usize \<Rightarrow> usize set" where
  "map_frames es n = (\<Union>e\<in>set es. entry_frames e n)"

lemma free_regions_counted:
  assumes "counted bm n st" "free_below (fst st) bm n \<inter> map_frames es n = {}"
    "sorted_wrt (\<lambda>e e'. entry_frames e n \<inter> entry_frames e' n = {}) es"
  shows "counted bm n (fold (free_region bm n) es st)
     \<and> free_below (fst (fold (free_region bm n) es st)) bm n = free_below (fst st) bm n \<union> map_frames es n"
  using assms
proof (induction es arbitrary: st)
  case (Cons e es)
  obtain m ff where st: "st = (m, ff)" by (cases st)
  have d: "free_below m bm n \<inter> entry_frames e n = {}" using Cons.prems(2) by (auto simp: st map_frames_def)
  note step = free_region_counted [OF Cons.prems(1) [unfolded st] d]
  have "free_below (fst (free_region bm n e st)) bm n \<inter> map_frames es n = {}"
    using Cons.prems(2,3) step(2) by (auto simp: st map_frames_def)
  with Cons.IH [of "free_region bm n e st"] step Cons.prems(3) show ?case
    by (auto simp: st map_frames_def)
qed (simp add: map_frames_def)

section \<open>Writes stay in the bitmap\<close>

text \<open>The bytes of the bitmap for \<open>n\<close> frames at \<open>bm\<close>, and memories that agree elsewhere.\<close>

definition bitmap_bytes :: "u64 \<Rightarrow> usize \<Rightarrow> u64 set" where
  "bitmap_bytes bm n = {bm + f div 8 | f. f < n}"

definition agree_off :: "u64 set \<Rightarrow> memory \<Rightarrow> memory \<Rightarrow> bool" where
  "agree_off B m m' \<longleftrightarrow> (\<forall>x. x \<notin> B \<longrightarrow> m' x = m x)"

lemma agree_off_refl [simp]: "agree_off B m m"
  by (simp add: agree_off_def)

lemma agree_off_trans: "agree_off B m m' \<Longrightarrow> agree_off B m' m'' \<Longrightarrow> agree_off B m m''"
  by (simp add: agree_off_def)

lemma agree_off_bm: "f < n \<Longrightarrow> agree_off (bitmap_bytes bm n) m (bm_set m bm f)"
  "f < n \<Longrightarrow> agree_off (bitmap_bytes bm n) m (bm_clear m bm f)"
  by (auto simp: agree_off_def bm_set_def bm_clear_def bitmap_bytes_def)

lemma agree_off_clear_all:
  "\<forall>f\<in>set fs. f < n \<Longrightarrow> agree_off (bitmap_bytes bm n) m (fold (\<lambda>f m. bm_clear m bm f) fs m)"
proof (induction fs arbitrary: m)
  case (Cons f fs)
  then show ?case
    using agree_off_trans [OF agree_off_bm(2) [of f n bm m] Cons.IH [of "bm_clear m bm f"]] by simp
qed simp

lemma agree_off_free_region:
  "agree_off (bitmap_bytes bm n) (fst st) (fst (free_region bm n e st))"
proof -
  obtain m ff where st: "st = (m, ff)" by (cases st)
  obtain fs where fs: "set fs = entry_frames e n"
    "free_region bm n e (m, ff) = (fold (\<lambda>f m. bm_clear m bm f) fs m, ff + word_of_nat (length fs))"
    using free_region_eq by blast
  have "\<forall>f\<in>set fs. f < n" by (simp add: fs(1) entry_frames_def)
  then show ?thesis by (simp add: st fs(2) agree_off_clear_all)
qed

text \<open>The memory map is read the same as long as it does not overlap the bitmap.\<close>

definition map_bytes :: "MemoryMap \<Rightarrow> u64 set" where
  "map_bytes mp = {x. \<exists>i < count mp. in_bytes (entries_ptr mp + i * E820Entry_size) 24 x}"

lemma in_bytes_offset:
  assumes "in_bytes (a + word_of_nat k) n x" "k + n \<le> 24"
  shows "in_bytes a 24 x"
proof -
  define d where "d = x - (a + word_of_nat k)"
  have x: "x - a = d + word_of_nat k" by (simp add: d_def)
  have "unat d < n" using assms(1) by (simp add: in_bytes_def d_def)
  moreover have "unat (word_of_nat k :: u64) = k" using assms(2) by (simp add: unat_of_nat)
  ultimately have "unat (d + word_of_nat k) < n + k"
    using assms(2) by (simp add: unat_plus_if')
  with assms(2) show ?thesis by (simp add: in_bytes_def x)
qed

lemma read_entry_agree:
  assumes "agree_off B m m'" "map_bytes mp \<inter> B = {}" "i < count mp"
  shows "read_entry m' (entries_ptr mp) i = read_entry m (entries_ptr mp) i"
proof -
  let ?p = "entries_ptr mp + i * E820Entry_size"
  have eq: "m' x = m x" if "in_bytes ?p 24 x" for x
    using assms that by (auto simp: agree_off_def map_bytes_def)
  have "read_u64 m' ?p = read_u64 m ?p"
    by (rule read_u64_cong) (rule eq, rule in_bytes_sub [where n = 8], simp_all)
  moreover have "read_u64 m' (?p + 8) = read_u64 m (?p + 8)"
    by (rule read_u64_cong) (rule eq, rule in_bytes_offset [of _ 8 8], simp_all)
  moreover have "read_u32 m' (?p + 16) = read_u32 m (?p + 16)"
    by (rule read_u32_cong) (rule eq, rule in_bytes_offset [of _ 16 4], simp_all)
  moreover have "read_u32 m' (?p + 20) = read_u32 m (?p + 20)"
    by (rule read_u32_cong) (rule eq, rule in_bytes_offset [of _ 20 4], simp_all)
  ultimately show ?thesis by (simp add: read_entry_def Let_def)
qed

lemma free_regions_fold:
  assumes "map_bytes mp \<inter> bitmap_bytes bm n = {}" "agree_off (bitmap_bytes bm n) m (fst st)"
  shows "fold (\<lambda>i st. case mm_get (fst st) mp i of Some entry \<Rightarrow> free_region bm n entry st | None \<Rightarrow> st)
      (range_w 0 (count mp)) st = fold (free_region bm n) (mm_entries m mp) st"
proof -
  have "fold (\<lambda>i st. case mm_get (fst st) mp i of Some entry \<Rightarrow> free_region bm n entry st | None \<Rightarrow> st) is st
      = fold (free_region bm n) (map (read_entry m (entries_ptr mp)) is) st"
    if "\<forall>i\<in>set is. i < count mp" "agree_off (bitmap_bytes bm n) m (fst st)" for "is" st
    using that
  proof (induction "is" arbitrary: st)
    case (Cons i "is")
    have "mm_get (fst st) mp i = Some (read_entry m (entries_ptr mp) i)"
      using Cons.prems read_entry_agree [OF Cons.prems(2) assms(1)] by (simp add: mm_get_def)
    moreover have "agree_off (bitmap_bytes bm n) m (fst (free_region bm n (read_entry m (entries_ptr mp) i) st))"
      using agree_off_trans [OF Cons.prems(2) agree_off_free_region] .
    ultimately show ?case using Cons by simp
  qed simp
  with assms(2) show ?thesis by (simp add: mm_entries_def set_range_w_0)
qed

section \<open>The bitmap after each step\<close>

lemma fill_fold:
  "fold (\<lambda>i m. m(bm + i := v)) is m x = (if \<exists>i\<in>set is. x = bm + i then v else m x)"
  by (induction "is" arbitrary: m) auto

lemma bit_0xFF_u8: "bit (0xFF :: u8) k \<longleftrightarrow> k < 8"
proof -
  have "bit (mask 8 :: u8) k \<longleftrightarrow> k < 8" by (auto simp: bit_mask_iff)
  then show ?thesis by (simp add: mask_eq_exp_minus_1)
qed

lemma byte_count:
  assumes "unat (n :: u64) < 2 ^ 60"
  shows "unat ((n + 7) div 8) = (unat n + 7) div 8"
  using assms by (simp add: unat_div unat_plus_if')

lemma fill_tests:
  assumes "unat n < 2 ^ 60" "f < n"
  shows "bm_test (fold (\<lambda>i m. m(bm + i := 0xFF)) (range_w 0 ((n + 7) div 8)) m) bm f"
proof -
  have "unat (f div 8) < unat ((n + 7) div 8)"
    unfolding byte_count [OF assms(1)] using assms(2) by (simp add: unat_div word_less_nat_alt div_8_less)
  then have "\<exists>i\<in>set (range_w 0 ((n + 7) div 8)). bm + f div 8 = bm + i"
    by (auto simp: set_range_w_0 word_less_nat_alt)
  then show ?thesis by (simp only: bm_test_iff fill_fold if_True bit_0xFF_u8 unat_mod_8_less)
qed

lemma fill_agree:
  assumes "unat n < 2 ^ 60"
  shows "agree_off (bitmap_bytes bm n) m (fold (\<lambda>i m. m(bm + i := 0xFF)) (range_w 0 ((n + 7) div 8)) m)"
proof -
  have "bm + i \<in> bitmap_bytes bm n" if "i < (n + 7) div 8" for i
  proof -
    have i: "unat i < (unat n + 7) div 8" using that assms by (simp add: word_less_nat_alt byte_count)
    then have i60: "unat i < 2 ^ 60" using assms by simp
    have "unat (i * 8) = unat i * 8" using unat_frame [OF i60, of 0] by simp
    moreover have "unat i * 8 < unat n" using i by linarith
    moreover have "i * 8 div 8 = i" using frame_div_mod(1) [OF i60, of 0] by simp
    ultimately show ?thesis
      by (auto simp: bitmap_bytes_def word_less_nat_alt intro!: exI [of _ "i * 8"])
  qed
  then show ?thesis by (auto simp: agree_off_def fill_fold set_range_w_0)
qed

lemma phantom_tests:
  assumes "f < n"
  shows "bm_test (mark_phantom_bits bm n m) bm f \<longleftrightarrow> bm_test m bm f"
proof -
  have "bit (fold (\<lambda>b m. m(bm + n div 8 := m (bm + n div 8) OR push_bit b 1)) bs m (bm + f div 8)) (unat (f mod 8))
      \<longleftrightarrow> bit (m (bm + f div 8)) (unat (f mod 8))"
    if "\<forall>b\<in>set bs. b < 8 \<and> (f div 8 = n div 8 \<longrightarrow> unat (f mod 8) < b)" for bs
    using that
  proof (induction bs arbitrary: m)
    case (Cons b bs)
    then show ?case by (cases "f div 8 = n div 8") (simp_all add: bit_set_bit_u8)
  qed simp
  moreover have "unat (f mod 8) < b" if "b \<in> set [unat (n mod 8)..<8]" "f div 8 = n div 8" for b
  proof -
    have "unat f = unat (f div 8) * 8 + unat (f mod 8)" "unat n = unat (n div 8) * 8 + unat (n mod 8)"
      by (simp_all add: unat_div unat_mod)
    with assms that show ?thesis by (simp add: word_less_nat_alt)
  qed
  ultimately show ?thesis by (simp add: mark_phantom_bits_def Let_def bm_test_iff)
qed

section \<open>Where the bitmap goes\<close>

lemma find_bitmap_region_Some:
  "find_bitmap_region m mp need is = Some base \<Longrightarrow> \<forall>i\<in>set is. i < count mp \<Longrightarrow>
   \<exists>e\<in>set (mm_entries m mp). is_usable e
     \<and> base = (if entry_base e < KERNEL_END then KERNEL_END else entry_base e)
     \<and> base < entry_base e + entry_length e \<and> need \<le> entry_base e + entry_length e - base"
proof (induction "is")
  case (Cons i "is")
  let ?e = "read_entry m (entries_ptr mp) i"
  have "?e \<in> set (mm_entries m mp)" using Cons.prems(2) by (simp add: mm_entries_def set_range_w_0)
  with Cons show ?case
    by (auto simp: mm_get_def Let_def not_le not_less split: if_splits)
qed simp

text \<open>
  What initialisation relies on the firmware map for: usable regions start at page boundaries,
  do not wrap and do not overlap, the map itself lies below the end of the kernel, and there
  are at least 32 MiB of memory.
\<close>

definition firmware_map_ok :: "memory \<Rightarrow> MemoryMap \<Rightarrow> bool" where
  "firmware_map_ok m mp \<longleftrightarrow>
     (\<forall>e\<in>set (mm_entries m mp). is_usable e \<longrightarrow>
        entry_base e mod PAGE_SIZE = 0 \<and> entry_base e \<le> entry_base e + entry_length e)
     \<and> sorted_wrt (\<lambda>e e'. is_usable e \<and> is_usable e' \<longrightarrow>
          entry_base e + entry_length e \<le> entry_base e' \<or> entry_base e' + entry_length e' \<le> entry_base e)
        (mm_entries m mp)
     \<and> unat (entries_ptr mp) + 24 * unat (count mp) \<le> unat KERNEL_END
     \<and> KERNEL_STACK_TOP \<le> highest_usable_address m mp"

lemma aligned_round_up:
  assumes "(b :: u64) mod PAGE_SIZE = 0"
  shows "(b + PAGE_SIZE - 1) div PAGE_SIZE = b div PAGE_SIZE"
proof -
  have "unat b mod 4096 = 0" using arg_cong [OF assms, of unat] by (simp add: unat_mod PAGE_SIZE_def)
  then obtain q where q: "unat b = 4096 * q" by (metis dvd_def mod_0_imp_dvd)
  then have "q < 2 ^ 52" using unat_bound [of b] by simp
  then have "unat (b + 4095) = 4096 * q + 4095" by (simp add: unat_plus_if' q)
  then have "unat ((b + 4095) div 4096) = unat (b div 4096)" by (simp add: unat_div q)
  then show ?thesis by (simp add: PAGE_SIZE_def word_unat_eq_iff add.commute [of _ 4095])
qed

lemma disjoint_entry_frames:
  assumes "entry_base e' mod PAGE_SIZE = 0" "entry_base e + entry_length e \<le> entry_base e'"
  shows "entry_frames e n \<inter> entry_frames e' n = {}"
proof -
  have "(entry_base e + entry_length e) div PAGE_SIZE \<le> entry_base e' div PAGE_SIZE"
    using assms(2) by (simp add: word_le_nat_alt unat_div div_le_mono)
  then show ?thesis
    using aligned_round_up [OF assms(1)] by (auto simp: entry_frames_def)
qed

lemma map_entries_disjoint:
  assumes "firmware_map_ok m mp"
  shows "sorted_wrt (\<lambda>e e'. entry_frames e n \<inter> entry_frames e' n = {}) (mm_entries m mp)"
proof -
  have dis: "entry_frames e n \<inter> entry_frames e' n = {}"
    if "e \<in> set (mm_entries m mp)" "e' \<in> set (mm_entries m mp)"
      "is_usable e \<and> is_usable e' \<longrightarrow>
        entry_base e + entry_length e \<le> entry_base e' \<or> entry_base e' + entry_length e' \<le> entry_base e"
    for e e'
  proof (cases "is_usable e \<and> is_usable e'")
    case True
    then have "entry_base e mod PAGE_SIZE = 0" "entry_base e' mod PAGE_SIZE = 0"
      using assms that(1,2) by (auto simp: firmware_map_ok_def)
    with True that(3) show ?thesis using disjoint_entry_frames by (metis Int_commute)
  qed (auto simp: entry_frames_def)
  have sw: "sorted_wrt (\<lambda>e e'. is_usable e \<and> is_usable e' \<longrightarrow>
      entry_base e + entry_length e \<le> entry_base e' \<or> entry_base e' + entry_length e' \<le> entry_base e)
      (mm_entries m mp)"
    using assms unfolding firmware_map_ok_def by (elim conjE)
  show ?thesis by (rule sorted_wrt_mono_rel [OF _ sw]) (rule dis)
qed


lemma div_round_up: "(x :: nat) \<le> 4096 * ((x + 4095) div 4096)" "4096 * ((x + 4095) div 4096) < x + 4096"
proof -
  have "4096 * ((x + 4095) div 4096) + (x + 4095) mod 4096 = x + 4095" by (rule mult_div_mod_eq)
  moreover have "(x + 4095) mod 4096 < 4096" by simp
  ultimately show "x \<le> 4096 * ((x + 4095) div 4096)" "4096 * ((x + 4095) div 4096) < x + 4096"
    by linarith+
qed

lemma word_round_up:
  assumes "unat (a :: u64) + 4095 < 2 ^ 64"
  shows "unat ((a + PAGE_SIZE - 1) div PAGE_SIZE) = (unat a + 4095) div 4096"
proof -
  have "a + PAGE_SIZE - 1 = a + 4095" by (simp add: PAGE_SIZE_def)
  moreover have "unat (a + 4095) = unat a + 4095" using assms by (simp add: unat_plus_if')
  ultimately show ?thesis by (simp add: unat_div PAGE_SIZE_def add.commute [of _ 4095])
qed

text \<open>The bitmap lies above the kernel and below the top of memory.\<close>

lemma bitmap_place:
  assumes ok: "firmware_map_ok m mp" and n: "n = highest_usable_address m mp div PAGE_SIZE"
    and size: "size' = (n + 7) div 8"
    and find: "find_bitmap_region m mp ((size' + PAGE_SIZE - 1) div PAGE_SIZE * PAGE_SIZE)
      (range_w 0 (count mp)) = Some base"
  shows "base mod PAGE_SIZE = 0" "unat KERNEL_END \<le> unat base"
    "(base + size' + PAGE_SIZE - 1) div PAGE_SIZE \<le> n" "unat base + unat size' < 2 ^ 64"
proof -
  let ?need = "(size' + PAGE_SIZE - 1) div PAGE_SIZE * PAGE_SIZE"
  obtain e where e: "e \<in> set (mm_entries m mp)" "is_usable e"
    "base = (if entry_base e < KERNEL_END then KERNEL_END else entry_base e)"
    "base < entry_base e + entry_length e" "?need \<le> entry_base e + entry_length e - base"
    using find_bitmap_region_Some [OF find] by (auto simp: set_range_w_0)
  have eb: "entry_base e mod PAGE_SIZE = 0" "entry_base e \<le> entry_base e + entry_length e"
    using ok e(1,2) by (auto simp: firmware_map_ok_def)
  show al: "base mod PAGE_SIZE = 0" using e(3) eb(1) by (auto simp: KERNEL_END_def PAGE_SIZE_def)
  show "unat KERNEL_END \<le> unat base" using e(3) by (auto simp: word_le_nat_alt word_less_nat_alt)
  have n52: "unat n < 2 ^ 52" using unat_bound [of "highest_usable_address m mp"]
    by (simp add: n unat_div PAGE_SIZE_def)
  have sz: "unat size' = (unat n + 7) div 8" unfolding size using n52 by (simp add: byte_count)
  have "unat ((size' + PAGE_SIZE - 1) div PAGE_SIZE) = (unat size' + 4095) div 4096"
    by (rule word_round_up) (use sz n52 in simp)
  then have need: "unat ?need = (unat size' + 4095) div 4096 * 4096"
    using sz n52 by (simp add: PAGE_SIZE_def unat_mult_lem [THEN iffD1])
  have "unat (entry_base e + entry_length e - base) = unat (entry_base e + entry_length e) - unat base"
    using e(4) by (simp add: unat_sub)
  then have "unat base + unat ?need \<le> unat (entry_base e + entry_length e)"
    using e(4,5) by (simp add: word_le_nat_alt word_less_nat_alt)
  also have "\<dots> \<le> unat (highest_usable_address m mp)"
    using highest_usable_address_upper [OF e(1,2)] entry_end_no_wrap [OF eb(2)] by (simp add: word_le_nat_alt)
  finally have top: "unat base + (unat size' + 4095) div 4096 * 4096 \<le> unat (highest_usable_address m mp)"
    by (simp add: need)
  obtain q where q: "unat base = 4096 * q"
    using arg_cong [OF al, of unat] by (auto simp: unat_mod PAGE_SIZE_def dvd_def mod_eq_0_iff_dvd)
  define k where "k = (unat size' + 4095) div 4096"
  have k: "unat size' \<le> 4096 * k" "4096 * k < unat size' + 4096"
    using div_round_up unfolding k_def by blast+
  have qk: "4096 * (q + k) \<le> unat (highest_usable_address m mp)" using top by (simp add: q k_def)
  then have "4096 * (q + k) < 2 ^ 64" using unat_bound [of "highest_usable_address m mp"] by simp
  then have qk52: "q + k < 2 ^ 52" by simp
  show "unat base + unat size' < 2 ^ 64" using k qk52 by (simp add: q)
  then have "unat (base + size') = 4096 * q + unat size'" by (simp add: unat_plus_if' q)
  moreover from this have "unat ((base + size' + PAGE_SIZE - 1) div PAGE_SIZE)
      = (4096 * q + unat size' + 4095) div 4096"
    using k qk52 by (subst word_round_up) simp_all
  moreover have "(4096 * q + unat size' + 4095) div 4096 = q + k" by (simp add: k_def add.assoc)
  moreover have "q + k \<le> unat n" using qk by (simp add: n unat_div PAGE_SIZE_def)
  ultimately show "(base + size' + PAGE_SIZE - 1) div PAGE_SIZE \<le> n" by (simp add: word_le_nat_alt)
qed

section \<open>The state after initialisation\<close>

lemma mark_region_agree:
  assumes "b \<le> n"
  shows "agree_off (bitmap_bytes bm n) (fst st) (fst (mark_region_used_static a b bm st))"
proof -
  let ?step = "\<lambda>frame (m, ff). if \<not> bm_test m bm frame
      then (bm_set m bm frame, saturating_sub ff 1) else (m, ff)"
  have "agree_off (bitmap_bytes bm n) (fst st) (fst (fold ?step fs st))"
    if "\<forall>f\<in>set fs. f < n" for fs and st :: "memory \<times> usize"
    using that
  proof (induction fs arbitrary: st)
    case (Cons f fs)
    have "agree_off (bitmap_bytes bm n) (fst st) (fst (?step f st))"
      using Cons.prems agree_off_bm(1) by (auto split: prod.split)
    moreover have "agree_off (bitmap_bytes bm n) (fst (?step f st)) (fst (fold ?step fs (?step f st)))"
      using Cons by simp
    ultimately show ?case using agree_off_trans by (simp only: fold_simps)
  qed simp
  moreover have "\<forall>f\<in>set (range_w a b). f < n" using assms by (auto simp: set_range_w)
  ultimately show ?thesis unfolding mark_region_used_static_def by blast
qed

lemma div_8_pred: "(x :: nat) mod 8 \<noteq> 0 \<Longrightarrow> (x - 1) div 8 = x div 8"
  by (cases x) (simp_all add: div_Suc)

lemma fold_or_outside:
  "x \<noteq> a \<Longrightarrow> fold (\<lambda>b m. m(a := m a OR push_bit b 1)) bs m x = (m :: memory) x"
  by (induction bs arbitrary: m) auto

lemma phantom_agree: "agree_off (bitmap_bytes bm n) m (mark_phantom_bits bm n m)"
proof (cases "n mod 8 = 0")
  case False
  have "unat (n - 1) div 8 = unat n div 8"
  proof -
    have "unat n mod 8 \<noteq> 0" using False by (simp add: word_unat_eq_iff unat_mod)
    then have "(unat n - 1) div 8 = unat n div 8" by (rule div_8_pred)
    moreover have "n \<noteq> 0" using False by auto
    ultimately show ?thesis by (simp add: unat_pred)
  qed
  then have "(n - 1) div 8 = n div 8" by (simp add: word_unat_eq_iff unat_div)
  moreover have "n - 1 < n"
  proof -
    have "n \<noteq> 0" using False by auto
    then have "0 < unat n" by (simp add: unat_gt_0)
    with \<open>n \<noteq> 0\<close> show ?thesis by (simp add: word_less_nat_alt unat_pred)
  qed
  ultimately have inb: "bm + n div 8 \<in> bitmap_bytes bm n"
    by (auto simp: bitmap_bytes_def intro!: exI [of _ "n - 1"])
  have "fold (\<lambda>b m. m(bm + n div 8 := m (bm + n div 8) OR push_bit b 1)) bs m x = m x"
    if "x \<notin> bitmap_bytes bm n" for x bs
    by (rule fold_or_outside) (use inb that in metis)
  then show ?thesis by (simp add: mark_phantom_bits_def agree_off_def Let_def)
qed (simp add: mark_phantom_bits_def)

text \<open>One more marked region: the count, the free frames and the extent of the writes.\<close>

definition marked :: "u64 \<Rightarrow> usize \<Rightarrow> memory \<Rightarrow> usize set \<Rightarrow> memory \<times> usize \<Rightarrow> bool" where
  "marked bm n m F st \<longleftrightarrow> counted bm n st \<and> free_below (fst st) bm n = F
     \<and> agree_off (bitmap_bytes bm n) m (fst st)"

lemma marked_region:
  assumes "marked bm n m F st" "b \<le> n"
  shows "marked bm n m (F - {f. a \<le> f \<and> f < b}) (mark_region_used_static a b bm st)"
  using assms mark_region_counted [of bm n st b a] mark_region_agree [of b n bm st a]
    agree_off_trans [of "bitmap_bytes bm n" m "fst st"]
  by (auto simp: marked_def)

lemma map_bitmap_disjoint:
  assumes "unat (entries_ptr mp) + 24 * unat (count mp) \<le> unat bm"
    and "unat bm + (unat n + 7) div 8 < 2 ^ 64"
  shows "map_bytes mp \<inter> bitmap_bytes bm n = {}"
proof -
  have "unat bm \<le> unat x" if x: "x \<in> bitmap_bytes bm n" for x
  proof -
    obtain f where f: "x = bm + f div 8" "f < n" using x by (auto simp: bitmap_bytes_def)
    then have "unat f div 8 < (unat n + 7) div 8" by (simp add: word_less_nat_alt div_8_less)
    then have "unat x = unat bm + unat (f div 8)"
      using assms(2) by (simp add: f(1) unat_plus_if' unat_div)
    then show ?thesis by simp
  qed
  moreover have "unat x < unat bm" if x: "x \<in> map_bytes mp" for x
  proof -
    obtain i where i: "i < count mp" "unat (x - (entries_ptr mp + i * 24)) < 24"
      using x by (auto simp: map_bytes_def in_bytes_def E820Entry_size_def)
    define d where "d = x - (entries_ptr mp + i * 24)"
    have il: "unat i < unat (count mp)" using i(1) by (simp add: word_less_nat_alt)
    have bmb: "unat bm < 2 ^ 64" using unat_bound [of bm] by simp
    have "unat i * 24 < 2 ^ 64" using assms(1) il bmb by linarith
    then have m: "unat (i * 24) = unat i * 24" by (subst unat_mult_lem [THEN iffD1]) auto
    have lt: "unat (entries_ptr mp) + unat i * 24 + unat d < unat bm"
      using assms(1) il i(2) unfolding d_def by linarith
    then have "unat (entries_ptr mp + i * 24) = unat (entries_ptr mp) + unat i * 24"
      using m bmb by (subst unat_add_lem [THEN iffD1]) auto
    then have "unat (entries_ptr mp + i * 24 + d) = unat (entries_ptr mp) + unat i * 24 + unat d"
      using lt bmb by (subst unat_add_lem [THEN iffD1]) auto
    with lt show ?thesis by (simp add: d_def)
  qed
  ultimately show ?thesis by fastforce
qed


text \<open>The frames that initialisation keeps for itself.\<close>

definition reserved_frames :: "u64 \<Rightarrow> usize \<Rightarrow> usize set" where
  "reserved_frames bm bytes =
     {f. f < KERNEL_END div PAGE_SIZE}
     \<union> {f. (KERNEL_STACK_TOP - KERNEL_STACK_SIZE) div PAGE_SIZE \<le> f \<and> f < KERNEL_STACK_TOP div PAGE_SIZE}
     \<union> {f. bm div PAGE_SIZE \<le> f \<and> f < (bm + bytes + PAGE_SIZE - 1) div PAGE_SIZE}"

lemma init_bitmap_correct:
  assumes dis: "sorted_wrt (\<lambda>e e'. entry_frames e n \<inter> entry_frames e' n = {}) (mm_entries m mp)"
    and mapb: "map_bytes mp \<inter> bitmap_bytes bm n = {}"
    and n: "unat n < 2 ^ 60" "8192 \<le> n" and bytes: "bytes = (n + 7) div 8"
    and bme: "(bm + bytes + PAGE_SIZE - 1) div PAGE_SIZE \<le> n"
    and mape: "(entries_ptr mp + count mp * E820Entry_size + PAGE_SIZE - 1) div PAGE_SIZE \<le> 2560"
    and init: "init_bitmap m mp bm n bytes = (m', ff)"
  shows "unat ff = card (free_below m' bm n)"
    "free_below m' bm n = map_frames (mm_entries m mp) n - reserved_frames bm bytes"
    "agree_off (bitmap_bytes bm n) m m'"
proof -
  define m0 where "m0 = fold (\<lambda>i m. m(bm + i := 0xFF)) (range_w 0 bytes) m"
  define es where "es = mm_entries m mp"
  define st1 where "st1 = fold (free_region bm n) es (m0, 0)"
  have a0: "agree_off (bitmap_bytes bm n) m m0" unfolding m0_def bytes by (rule fill_agree [OF n(1)])
  have f0: "free_below m0 bm n = {}"
    unfolding m0_def bytes free_below_def using fill_tests [OF n(1)] by blast
  have st1: "fold (\<lambda>i st. case mm_get (fst st) mp i of Some entry \<Rightarrow> free_region bm n entry st | None \<Rightarrow> st)
      (range_w 0 (count mp)) (m0, 0) = st1"
    unfolding st1_def es_def by (rule free_regions_fold [OF mapb]) (simp add: a0)
  have "agree_off (bitmap_bytes bm n) m (fst (fold (free_region bm n) es' st))"
    if "agree_off (bitmap_bytes bm n) m (fst st)" for es' st
    using that
  proof (induction es' arbitrary: st)
    case (Cons e es')
    then show ?case using agree_off_trans [OF _ agree_off_free_region] by (metis fold_simps(2))
  qed simp
  from this [of "(m0, 0)" es] have a1: "agree_off (bitmap_bytes bm n) m (fst st1)"
    using a0 by (simp add: st1_def)
  have "counted bm n st1 \<and> free_below (fst st1) bm n = map_frames es n"
    using free_regions_counted [of bm n "(m0, 0)" es] dis f0
    by (simp add: counted_def st1_def es_def)
  with a1 have m1: "marked bm n m (map_frames es n) st1" by (simp add: marked_def)
  have le: "256 \<le> n" "2560 \<le> n" using n(2) by (simp_all add: word_le_nat_alt)
  obtain st2 where st2: "(m', ff) = (mark_phantom_bits bm n (fst st2), snd st2)"
    and m2: "marked bm n m (map_frames es n - {f. 0 \<le> f \<and> f < 256} - {f. 256 \<le> f \<and> f < 2560}
      - {f. 7936 \<le> f \<and> f < 8192}
      - {f. bm div PAGE_SIZE \<le> f \<and> f < (bm + bytes + PAGE_SIZE - 1) div PAGE_SIZE}
      - {f. entries_ptr mp div PAGE_SIZE \<le> f
          \<and> f < (entries_ptr mp + count mp * E820Entry_size + PAGE_SIZE - 1) div PAGE_SIZE}) st2"
  proof -
    let ?st = "mark_region_used_static 0 256 bm st1"
    let ?st = "mark_region_used_static 256 2560 bm ?st"
    let ?st = "mark_region_used_static 7936 8192 bm ?st"
    let ?st = "mark_region_used_static (bm div PAGE_SIZE) ((bm + bytes + PAGE_SIZE - 1) div PAGE_SIZE) bm ?st"
    let ?st = "mark_region_used_static (entries_ptr mp div PAGE_SIZE)
      ((entries_ptr mp + count mp * E820Entry_size + PAGE_SIZE - 1) div PAGE_SIZE) bm ?st"
    show thesis
    proof (rule that [of ?st])
      show "(m', ff) = (mark_phantom_bits bm n (fst ?st), snd ?st)"
        using init st1
        by (simp add: init_bitmap_def Let_def m0_def [symmetric] KERNEL_STACK_TOP_def KERNEL_STACK_SIZE_def
            PAGE_SIZE_def)
      show "marked bm n m (map_frames es n - {f. 0 \<le> f \<and> f < 256} - {f. 256 \<le> f \<and> f < 2560}
          - {f. 7936 \<le> f \<and> f < 8192}
          - {f. bm div PAGE_SIZE \<le> f \<and> f < (bm + bytes + PAGE_SIZE - 1) div PAGE_SIZE}
          - {f. entries_ptr mp div PAGE_SIZE \<le> f
              \<and> f < (entries_ptr mp + count mp * E820Entry_size + PAGE_SIZE - 1) div PAGE_SIZE}) ?st"
        by (intro marked_region m1 bme n(2) le order_trans [OF mape le(2)])
    qed
  qed
  have fb: "free_below m' bm n = free_below (fst st2) bm n" "ff = snd st2"
    using st2 phantom_tests by (auto simp: free_below_def)
  have low: "f < (2560 :: u64) \<longleftrightarrow> f < 256 \<or> 256 \<le> f \<and> f < 2560" for f
    by (auto simp: word_less_nat_alt word_le_nat_alt)
  have "f < 2560" if "f < (entries_ptr mp + count mp * E820Entry_size + PAGE_SIZE - 1) div PAGE_SIZE" for f
    using less_le_trans [OF that mape] .
  then show "free_below m' bm n = map_frames (mm_entries m mp) n - reserved_frames bm bytes"
    using m2 low unfolding fb marked_def reserved_frames_def es_def
    by (auto simp: KERNEL_END_def KERNEL_STACK_TOP_def KERNEL_STACK_SIZE_def PAGE_SIZE_def)
  show "unat ff = card (free_below m' bm n)" using m2 by (simp add: fb marked_def counted_def)
  show "agree_off (bitmap_bytes bm n) m m'"
    using m2 st2 agree_off_trans phantom_agree by (auto simp: marked_def)
qed

lemma div_page_52: "unat ((h :: u64) div PAGE_SIZE) < 2 ^ 52"
  using unat_bound [of h] by (simp add: unat_div PAGE_SIZE_def)

lemma map_end_below_kernel:
  assumes "unat (entries_ptr mp) + 24 * unat (count mp) \<le> unat KERNEL_END"
  shows "(entries_ptr mp + count mp * E820Entry_size + PAGE_SIZE - 1) div PAGE_SIZE \<le> 2560"
proof -
  have "unat (count mp * 24) = unat (count mp) * 24"
    using assms by (subst unat_mult_lem [THEN iffD1]) (auto simp: KERNEL_END_def)
  then have u: "unat (entries_ptr mp + count mp * 24) = unat (entries_ptr mp) + unat (count mp) * 24"
    using assms by (subst unat_add_lem [THEN iffD1]) (auto simp: KERNEL_END_def)
  have le: "unat (entries_ptr mp) + unat (count mp) * 24 \<le> 10485760"
    using assms by (simp add: KERNEL_END_def)
  have "unat ((entries_ptr mp + count mp * 24 + PAGE_SIZE - 1) div PAGE_SIZE)
      = (unat (entries_ptr mp + count mp * 24) + 4095) div 4096"
    by (rule word_round_up) (use le u in simp)
  also have "\<dots> \<le> (10485760 + 4095) div 4096"
    unfolding u by (rule div_le_mono) (use le in linarith)
  finally show ?thesis by (simp add: word_le_nat_alt E820Entry_size_def)
qed

definition align_bitmap :: "u64 \<Rightarrow> u64" where
  "align_bitmap base = (if base mod PAGE_SIZE \<noteq> 0 then (base div PAGE_SIZE + 1) * PAGE_SIZE else base)"

lemma pm_init_Ok:
  assumes "pm_init m mp = Ok (p, m')"
  shows "\<exists>base ff. let n = highest_usable_address m mp div PAGE_SIZE; bytes = (n + 7) div 8 in
    find_bitmap_region m mp ((bytes + PAGE_SIZE - 1) div PAGE_SIZE * PAGE_SIZE) (range_w 0 (count mp)) = Some base
    \<and> init_bitmap m mp (align_bitmap base) n bytes = (m', ff)
    \<and> bitmap p = align_bitmap base \<and> bitmap_size p = bytes \<and> total_frames p = n \<and> free_frames p = ff
    \<and> last_alloc_index p = 0 \<and> length (zones p) = 4"
proof -
  have zl: "length (init_zones n) = 4" for n by (simp add: init_zones_def Let_def)
  have "highest_usable_address m mp \<noteq> 0" using assms by (auto simp: pm_init_def)
  with assms zl show ?thesis
    unfolding pm_init_def Let_def align_bitmap_def [symmetric]
    by (auto split: option.splits prod.splits)
qed

lemma init_inv:
  assumes ok: "firmware_map_ok m mp" and init: "pm_init m mp = Ok (p, m')"
  shows "pmm_inv p m'
     \<and> free_set p m' = map_frames (mm_entries m mp) (total_frames p) - reserved_frames (bitmap p) (bitmap_size p)
     \<and> agree_off (bitmap_bytes (bitmap p) (total_frames p)) m m'"
proof -
  define n where "n = highest_usable_address m mp div PAGE_SIZE"
  define bytes where "bytes = (n + 7) div 8"
  obtain base ff where
    find: "find_bitmap_region m mp ((bytes + PAGE_SIZE - 1) div PAGE_SIZE * PAGE_SIZE) (range_w 0 (count mp)) = Some base"
    and ib: "init_bitmap m mp (align_bitmap base) n bytes = (m', ff)"
    and p: "bitmap p = align_bitmap base"
      "bitmap_size p = bytes" "total_frames p = n" "free_frames p = ff" "last_alloc_index p = 0"
      "length (zones p) = 4"
    using pm_init_Ok [OF init] unfolding n_def bytes_def by metis
  note place = bitmap_place [OF ok n_def bytes_def find]
  have bm: "bitmap p = base" using place(1) p(1) by (simp add: align_bitmap_def)
  have n52: "unat n < 2 ^ 52" unfolding n_def by (rule div_page_52)
  have n8: "8192 \<le> n"
  proof -
    have "unat KERNEL_STACK_TOP \<le> unat (highest_usable_address m mp)"
      using ok by (simp add: firmware_map_ok_def word_le_nat_alt)
    then show ?thesis
      using div_le_mono [of "unat KERNEL_STACK_TOP" _ 4096]
      by (simp add: n_def word_le_nat_alt unat_div PAGE_SIZE_def KERNEL_STACK_TOP_def)
  qed
  have by8: "unat bytes = (unat n + 7) div 8" unfolding bytes_def using n52 by (simp add: byte_count)
  have kend: "unat (entries_ptr mp) + 24 * unat (count mp) \<le> unat KERNEL_END"
    using ok by (simp add: firmware_map_ok_def)
  have md: "map_bytes mp \<inter> bitmap_bytes base n = {}"
    by (rule map_bitmap_disjoint) (use kend place(2,4) by8 in linarith)+
  have ib': "init_bitmap m mp base n bytes = (m', ff)" using ib place(1) by (simp add: align_bitmap_def)
  have n60: "unat n < 2 ^ 60" using n52 by simp
  note res = init_bitmap_correct [OF map_entries_disjoint [OF ok] md n60 n8 bytes_def place(3)
      map_end_below_kernel [OF kend] ib']
  have fs: "free_set p m' = free_below m' base n"
    by (simp add: free_set_def free_below_def bm p(3))
  have "0 < n" "n < 2 ^ 52" using n8 n52 by (simp_all add: word_le_nat_alt word_less_nat_alt)
  moreover have "0 < bytes" using n8 by8 by (simp add: word_le_nat_alt word_less_nat_alt)
  ultimately have "pmm_inv p m'"
    using res(1) unfolding pmm_inv_def fs p bytes_def by blast
  with res fs show ?thesis by (simp add: bm p)
qed

text \<open>
  C3: when the firmware map is well formed and initialisation succeeds, the manager satisfies
  its invariant (the counter of free frames is exact), the free frames are exactly the whole
  pages of the usable entries outside the reserved ranges (everything below the end of the
  kernel, the kernel stack, the bitmap), and only the bytes of the bitmap have been written.
\<close>

theorem pm_init_correct:
  assumes ok: "firmware_map_ok m mp" and init: "pm_init m mp = Ok (p, m')"
  shows "pmm_inv p m'
     \<and> free_set p m' = map_frames (mm_entries m mp) (total_frames p) - reserved_frames (bitmap p) (bitmap_size p)
     \<and> agree_off (bitmap_bytes (bitmap p) (total_frames p)) m m'"
  by (rule init_inv [OF assms])

lemma one_entry_map_ok: "firmware_map_ok one_entry_memory (MemoryMap_parse one_entry_memory 0x7000)"
proof -
  let ?e = "\<lparr>entry_base = 0x100000, entry_length = 0x8000000, region_type = 1, acpi_extended = 0\<rparr>"
  have u: "is_usable ?e"
    by (simp add: is_usable_def is_valid_def memory_type_def E820Type_from_u32_def)
  have "highest_usable_address one_entry_memory (MemoryMap_parse one_entry_memory 0x7000) = 0x8100000"
    by (simp add: highest_usable_address_def mm_loop_eq_fold one_entry_entries u entry_end_def
        saturating_add_def)
  then show ?thesis
    by (simp add: firmware_map_ok_def one_entry_entries PAGE_SIZE_def KERNEL_STACK_TOP_def
        KERNEL_END_def one_entry_count) (simp add: MemoryMap_parse_def)
qed

theorem pm_init_correct_witness:
  "\<exists>p m'. pm_init one_entry_memory (MemoryMap_parse one_entry_memory 0x7000) = Ok (p, m')
     \<and> pmm_inv p m'"
proof -
  obtain p m' where i: "pm_init one_entry_memory (MemoryMap_parse one_entry_memory 0x7000) = Ok (p, m')"
    using one_entry_init by blast
  with pm_init_correct [OF one_entry_map_ok i] show ?thesis by blast
qed

end
