(* ===== verification/Pmm_Api.thy ===== *)
theory Pmm_Api
  imports Pmm_Init
begin

text \<open>
  The rest of \<^verbatim>\<open>memory/pmm.rs\<close> and the start of \<^verbatim>\<open>memory/lib.rs\<close>: the statistics of the manager, the
  global memory map and the global instance \<^verbatim>\<open>PMM_INSTANCE\<close>, and the functions other components and
  the C side call on them. The globals are fields of a record that extends \<^typ>\<open>machine\<close>; later
  components extend it further. All calls on the global instance are shown to keep the invariant
  of the manager, in any order.
\<close>

unbundle bit_operations_syntax

section \<open>Allocation flags\<close>

definition AllocFlags_new :: AllocFlags where
  "AllocFlags_new = \<lparr>dma_capable = False, dma32_capable = False, allow_fallback = True,
     numa_node = None, zero_memory = False\<rparr>"

definition AllocFlags_dma :: AllocFlags where
  "AllocFlags_dma = \<lparr>dma_capable = True, dma32_capable = False, allow_fallback = False,
     numa_node = None, zero_memory = False\<rparr>"

definition AllocFlags_dma32 :: AllocFlags where
  "AllocFlags_dma32 = \<lparr>dma_capable = False, dma32_capable = True, allow_fallback = True,
     numa_node = None, zero_memory = False\<rparr>"

definition AllocFlags_numa :: "NumaNode \<Rightarrow> AllocFlags" where
  "AllocFlags_numa node = \<lparr>dma_capable = False, dma32_capable = False, allow_fallback = True,
     numa_node = Some node, zero_memory = False\<rparr>"

section \<open>Statistics\<close>

definition pm_free_memory :: "PhysicalMemoryManager \<Rightarrow> u64" where
  "pm_free_memory p = free_frames p * PAGE_SIZE"

definition pm_used_memory :: "PhysicalMemoryManager \<Rightarrow> u64" where
  "pm_used_memory p = (total_frames p - free_frames p) * PAGE_SIZE"

definition pm_total_memory :: "PhysicalMemoryManager \<Rightarrow> u64" where
  "pm_total_memory p = total_frames p * PAGE_SIZE"

definition pm_is_frame_used :: "PhysicalMemoryManager \<Rightarrow> memory \<Rightarrow> u64 \<Rightarrow> bool" where
  "pm_is_frame_used p m addr = pm_test_bit p m (addr div PAGE_SIZE)"

definition pm_zone_stats :: "PhysicalMemoryManager \<Rightarrow> MemoryZone \<Rightarrow> ZoneStats" where
  "pm_zone_stats p zone = zones p ! zone_index zone"

definition pm_zone_free_memory :: "PhysicalMemoryManager \<Rightarrow> MemoryZone \<Rightarrow> u64" where
  "pm_zone_free_memory p zone = zs_free_frames (zones p ! zone_index zone) * PAGE_SIZE"

definition pm_zone_total_memory :: "PhysicalMemoryManager \<Rightarrow> MemoryZone \<Rightarrow> u64" where
  "pm_zone_total_memory p zone = zs_total_frames (zones p ! zone_index zone) * PAGE_SIZE"

definition pm_numa_stats :: "PhysicalMemoryManager \<Rightarrow> NumaNode \<Rightarrow> NumaStats option" where
  "pm_numa_stats p node =
     (let node_id = ucast (numa_id node) :: usize
      in if node_id < numa_count p then Some (numa_nodes p ! unat node_id) else None)"

definition pm_numa_free_memory :: "PhysicalMemoryManager \<Rightarrow> NumaNode \<Rightarrow> u64" where
  "pm_numa_free_memory p node =
     (case pm_numa_stats p node of Some stats \<Rightarrow> ns_free_frames stats * PAGE_SIZE | None \<Rightarrow> 0)"

definition pm_numa_total_memory :: "PhysicalMemoryManager \<Rightarrow> NumaNode \<Rightarrow> u64" where
  "pm_numa_total_memory p node =
     (case pm_numa_stats p node of Some stats \<Rightarrow> ns_total_frames stats * PAGE_SIZE | None \<Rightarrow> 0)"

definition pm_memory_usage_percent :: "PhysicalMemoryManager \<Rightarrow> u8" where
  "pm_memory_usage_percent p =
     (if total_frames p = 0 then 0
      else let used = total_frames p - free_frames p in ucast (used * 100 div total_frames p))"

definition pm_zone_usage_percent :: "PhysicalMemoryManager \<Rightarrow> MemoryZone \<Rightarrow> u8" where
  "pm_zone_usage_percent p zone =
     (let stats = zones p ! zone_index zone
      in if zs_total_frames stats = 0 then 0
         else let used = zs_total_frames stats - zs_free_frames stats
              in ucast (used * 100 div zs_total_frames stats))"

definition pm_is_memory_critical :: "PhysicalMemoryManager \<Rightarrow> bool" where
  "pm_is_memory_critical p \<longleftrightarrow> pm_memory_usage_percent p > 90"

definition pm_is_zone_critical :: "PhysicalMemoryManager \<Rightarrow> MemoryZone \<Rightarrow> bool" where
  "pm_is_zone_critical p zone \<longleftrightarrow> pm_zone_usage_percent p zone > 90"

text \<open>The loop of \<^verbatim>\<open>fragmentation_estimate\<close>: the longest run so far and the current run.\<close>

definition run_step :: "PhysicalMemoryManager \<Rightarrow> memory \<Rightarrow> usize \<Rightarrow> usize \<times> usize \<Rightarrow> usize \<times> usize" where
  "run_step p m frame st =
     (let (max_contiguous, current_run) = st
      in if \<not> pm_test_bit p m frame
         then let current_run = current_run + 1
              in (if current_run > max_contiguous then current_run else max_contiguous, current_run)
         else (max_contiguous, 0))"

definition pm_fragmentation_estimate :: "PhysicalMemoryManager \<Rightarrow> memory \<Rightarrow> u8" where
  "pm_fragmentation_estimate p m =
     (if free_frames p = 0 then 0
      else
        let (max_contiguous, current_run) = fold (run_step p m) (range_w 0 (total_frames p)) (0, 0)
        in if free_frames p = 0 then 100
           else let ratio = max_contiguous * 100 div free_frames p in ucast (100 - ratio))"

section \<open>The global instance\<close>

record MemoryMapStorage =
  map_value :: MemoryMap
  initialized :: bool

record pmm_machine = machine +
  MEMORY_MAP_STORAGE :: MemoryMapStorage
  PMM_INSTANCE :: "PhysicalMemoryManager option"

definition memory_init :: "u64 \<Rightarrow> 'a pmm_machine_scheme \<Rightarrow> 'a pmm_machine_scheme" where
  "memory_init memory_map_addr s =
     s\<lparr>MEMORY_MAP_STORAGE := \<lparr>map_value = MemoryMap_parse (mem s) memory_map_addr, initialized = True\<rparr>\<rparr>"

definition memory_get :: "'a pmm_machine_scheme \<Rightarrow> MemoryMap option" where
  "memory_get s = (if initialized (MEMORY_MAP_STORAGE s) then Some (map_value (MEMORY_MAP_STORAGE s)) else None)"

definition memory_get_total_usable :: "'a pmm_machine_scheme \<Rightarrow> u64" where
  "memory_get_total_usable s =
     (if initialized (MEMORY_MAP_STORAGE s)
      then total_usable_memory (mem s) (map_value (MEMORY_MAP_STORAGE s)) else 0)"

definition memory_get_highest_address :: "'a pmm_machine_scheme \<Rightarrow> u64" where
  "memory_get_highest_address s =
     (if initialized (MEMORY_MAP_STORAGE s)
      then highest_usable_address (mem s) (map_value (MEMORY_MAP_STORAGE s)) else 0)"

definition format_size :: "u64 \<Rightarrow> u64 \<times> string" where
  "format_size bytes =
     (let KB = 1024; MB = 1024 * KB; GB = 1024 * MB
      in if bytes \<ge> GB then (bytes div GB, ''GB'')
         else if bytes \<ge> MB then (bytes div MB, ''MB'')
         else if bytes \<ge> KB then (bytes div KB, ''KB'')
         else (bytes, ''B''))"

text \<open>
  A method of the manager on the global instance: the result is threaded back into the static and
  into memory.
\<close>

definition with_pmm ::
    "(PhysicalMemoryManager \<Rightarrow> memory \<Rightarrow> 'r \<times> PhysicalMemoryManager \<times> memory) \<Rightarrow> 'r \<Rightarrow>
     'a pmm_machine_scheme \<Rightarrow> 'r \<times> 'a pmm_machine_scheme" where
  "with_pmm f absent s =
     (case PMM_INSTANCE s of
        Some pmm \<Rightarrow> let (r, p', m') = f pmm (mem s) in (r, s\<lparr>PMM_INSTANCE := Some p', mem := m'\<rparr>)
      | None \<Rightarrow> (absent, s))"

definition get_pmm :: "(PhysicalMemoryManager \<Rightarrow> 'r) \<Rightarrow> 'r \<Rightarrow> 'a pmm_machine_scheme \<Rightarrow> 'r" where
  "get_pmm f absent s = (case PMM_INSTANCE s of Some pmm \<Rightarrow> f pmm | None \<Rightarrow> absent)"

definition pmm_not_initialized :: MemoryError where
  "pmm_not_initialized = MemoryError_new 8 ''PMM not initialized!'' True"

definition pmm_init :: "MemoryMap \<Rightarrow> 'a pmm_machine_scheme \<Rightarrow> (MemoryError, unit) result \<times> 'a pmm_machine_scheme" where
  "pmm_init memory_map s =
     (case pm_init (mem s) memory_map of
        Ok (p, m') \<Rightarrow> (Ok (), s\<lparr>PMM_INSTANCE := Some p, mem := m'\<rparr>)
      | Err e \<Rightarrow> (Err e, s))"

definition alloc_frame :: "'a pmm_machine_scheme \<Rightarrow> (MemoryError, u64) result \<times> 'a pmm_machine_scheme" where
  "alloc_frame s = with_pmm pm_alloc_frame (Err pmm_not_initialized) s"

definition free_frame :: "u64 \<Rightarrow> 'a pmm_machine_scheme \<Rightarrow> (MemoryError, unit) result \<times> 'a pmm_machine_scheme" where
  "free_frame addr s = with_pmm (\<lambda>p m. pm_free_frame p m addr) (Err pmm_not_initialized) s"

definition pmm_free_memory :: "'a pmm_machine_scheme \<Rightarrow> u64" where
  "pmm_free_memory s = get_pmm pm_free_memory 0 s"

definition pmm_used_memory :: "'a pmm_machine_scheme \<Rightarrow> u64" where
  "pmm_used_memory s = get_pmm pm_used_memory 0 s"

section \<open>C interface\<close>

text \<open>
  Results of type \<^verbatim>\<open>i32\<close> are 32-bit words in two's complement; an error code is negated in it.
\<close>


definition unwrap_or :: "'b \<Rightarrow> ('e, 'b) result \<Rightarrow> 'b" where
  "unwrap_or d r = (case r of Ok x \<Rightarrow> x | Err e \<Rightarrow> d)"

definition status_code :: "(MemoryError, unit) result \<Rightarrow> i32" where
  "status_code r = (case r of Ok u \<Rightarrow> 0 | Err e \<Rightarrow> - err_code e)"

definition zone_of_u8 :: "u8 \<Rightarrow> MemoryZone option" where
  "zone_of_u8 zone =
     (if zone = 0 then Some Dma else if zone = 1 then Some Dma32
      else if zone = 2 then Some Normal else if zone = 3 then Some HighMem else None)"

definition pmm_init_c :: "u64 \<Rightarrow> 'a pmm_machine_scheme \<Rightarrow> i32 \<times> 'a pmm_machine_scheme" where
  "pmm_init_c memory_map_addr s =
     (if \<not> initialized (MEMORY_MAP_STORAGE s) then (- 9, s)
      else case pmm_init (map_value (MEMORY_MAP_STORAGE s)) s of
        (Ok u, s') \<Rightarrow> (if PMM_INSTANCE s' \<noteq> None then 0 else - 10, s')
      | (Err e, s') \<Rightarrow> (- err_code e, s'))"

definition pmm_alloc_frame :: "'a pmm_machine_scheme \<Rightarrow> u64 \<times> 'a pmm_machine_scheme" where
  "pmm_alloc_frame s = with_pmm (\<lambda>p m. apfst (unwrap_or 0) (pm_alloc_frame p m)) 0 s"

definition pmm_free_frame :: "u64 \<Rightarrow> 'a pmm_machine_scheme \<Rightarrow> i32 \<times> 'a pmm_machine_scheme" where
  "pmm_free_frame addr s = with_pmm (\<lambda>p m. apfst status_code (pm_free_frame p m addr)) (- 8) s"

definition pmm_total_memory :: "'a pmm_machine_scheme \<Rightarrow> u64" where
  "pmm_total_memory s = get_pmm pm_total_memory 0 s"

definition pmm_free_frame_count :: "'a pmm_machine_scheme \<Rightarrow> u64" where
  "pmm_free_frame_count s = get_pmm free_frames 0 s"

definition pmm_used_frame_count :: "'a pmm_machine_scheme \<Rightarrow> u64" where
  "pmm_used_frame_count s = get_pmm (\<lambda>p. total_frames p - free_frames p) 0 s"

definition pmm_is_initialized :: "'a pmm_machine_scheme \<Rightarrow> i32" where
  "pmm_is_initialized s = get_pmm (\<lambda>p. 1) 0 s"

definition pmm_is_frame_used :: "u64 \<Rightarrow> 'a pmm_machine_scheme \<Rightarrow> i32" where
  "pmm_is_frame_used addr s = get_pmm (\<lambda>p. if pm_is_frame_used p (mem s) addr then 1 else 0) (- 1) s"

definition pmm_alloc_frame_in_zone :: "u8 \<Rightarrow> 'a pmm_machine_scheme \<Rightarrow> u64 \<times> 'a pmm_machine_scheme" where
  "pmm_alloc_frame_in_zone zone s =
     with_pmm (\<lambda>p m. case zone_of_u8 zone of
         Some z \<Rightarrow> apfst (unwrap_or 0) (pm_alloc_frame_in_zone p m z)
       | None \<Rightarrow> (0, p, m)) 0 s"

definition pmm_alloc_dma_frame :: "'a pmm_machine_scheme \<Rightarrow> u64 \<times> 'a pmm_machine_scheme" where
  "pmm_alloc_dma_frame s = with_pmm (\<lambda>p m. apfst (unwrap_or 0) (pm_alloc_dma_frame p m)) 0 s"

definition pmm_alloc_dma32_frame :: "'a pmm_machine_scheme \<Rightarrow> u64 \<times> 'a pmm_machine_scheme" where
  "pmm_alloc_dma32_frame s = with_pmm (\<lambda>p m. apfst (unwrap_or 0) (pm_alloc_dma32_frame p m)) 0 s"

definition pmm_zone_free_memory :: "u8 \<Rightarrow> 'a pmm_machine_scheme \<Rightarrow> u64" where
  "pmm_zone_free_memory zone s =
     get_pmm (\<lambda>p. case zone_of_u8 zone of Some z \<Rightarrow> pm_zone_free_memory p z | None \<Rightarrow> 0) 0 s"

definition pmm_zone_total_memory :: "u8 \<Rightarrow> 'a pmm_machine_scheme \<Rightarrow> u64" where
  "pmm_zone_total_memory zone s =
     get_pmm (\<lambda>p. case zone_of_u8 zone of Some z \<Rightarrow> pm_zone_total_memory p z | None \<Rightarrow> 0) 0 s"

text \<open>As for the method, \<open>None\<close> stands for a search that does not return.\<close>

definition pmm_alloc_frames_contiguous ::
    "u64 \<Rightarrow> u8 \<Rightarrow> 'a pmm_machine_scheme \<Rightarrow> (u64 \<times> 'a pmm_machine_scheme) option" where
  "pmm_alloc_frames_contiguous cnt zone s =
     (case PMM_INSTANCE s of
        None \<Rightarrow> Some (0, s)
      | Some pmm \<Rightarrow>
          if zone \<noteq> 0xFF \<and> zone_of_u8 zone = None then Some (0, s)
          else
            let memory_zone = (if zone = 0xFF then None else zone_of_u8 zone)
            in map_option (\<lambda>(r, p', m'). (unwrap_or 0 r, s\<lparr>PMM_INSTANCE := Some p', mem := m'\<rparr>))
                 (pm_alloc_frames_contiguous pmm (mem s) cnt memory_zone))"

definition pmm_free_frames_contiguous :: "u64 \<Rightarrow> u64 \<Rightarrow> 'a pmm_machine_scheme \<Rightarrow> i32 \<times> 'a pmm_machine_scheme" where
  "pmm_free_frames_contiguous base_addr cnt s =
     with_pmm (\<lambda>p m. apfst status_code (pm_free_frames_contiguous p m base_addr cnt)) (- 1) s"

definition pmm_memory_usage_percent :: "'a pmm_machine_scheme \<Rightarrow> u8" where
  "pmm_memory_usage_percent s = get_pmm pm_memory_usage_percent 0 s"

definition pmm_is_memory_critical :: "'a pmm_machine_scheme \<Rightarrow> i32" where
  "pmm_is_memory_critical s = get_pmm (\<lambda>p. if pm_is_memory_critical p then 1 else 0) 0 s"

definition pmm_alloc_frame_numa :: "u8 \<Rightarrow> 'a pmm_machine_scheme \<Rightarrow> u64 \<times> 'a pmm_machine_scheme" where
  "pmm_alloc_frame_numa node_id s =
     with_pmm (\<lambda>p m. apfst (unwrap_or 0) (pm_alloc_frame_numa p m (NumaNode node_id))) 0 s"

definition pmm_numa_node_count :: "'a pmm_machine_scheme \<Rightarrow> u64" where
  "pmm_numa_node_count s = get_pmm numa_count 0 s"

definition pmm_numa_free_memory :: "u8 \<Rightarrow> 'a pmm_machine_scheme \<Rightarrow> u64" where
  "pmm_numa_free_memory node_id s = get_pmm (\<lambda>p. pm_numa_free_memory p (NumaNode node_id)) 0 s"

definition pmm_numa_total_memory :: "u8 \<Rightarrow> 'a pmm_machine_scheme \<Rightarrow> u64" where
  "pmm_numa_total_memory node_id s = get_pmm (\<lambda>p. pm_numa_total_memory p (NumaNode node_id)) 0 s"

section \<open>Every method keeps the invariant\<close>

lemma zone_scan_Some:
  "zone_scan p m zs ze bs = Some (i, b) \<Longrightarrow>
     i \<in> set bs \<and> b < 8 \<and> \<not> bit (m (bitmap p + i)) b
     \<and> zs \<le> i * 8 + word_of_nat b \<and> i * 8 + word_of_nat b < ze"
proof (induction bs)
  case (Cons x bs)
  then show ?case
    by (auto simp: Let_def first_free_in_zone_def find_Some_iff not_less not_le
        split: if_splits option.splits)
qed simp

text \<open>The range of frames of a zone.\<close>

definition zone_frames :: "PhysicalMemoryManager \<Rightarrow> MemoryZone \<Rightarrow> usize set" where
  "zone_frames p z = {f. start_address z div PAGE_SIZE \<le> f \<and> f < min (end_address z div PAGE_SIZE) (total_frames p)}"

lemma pmm_inv_alloc_zones:
  assumes inv: "pmm_inv p m" and f: "f \<in> free_set p m" and "idx < bitmap_size p" "length zs = length (zones p)"
  shows "pmm_inv (p\<lparr>free_frames := free_frames p - 1, zones := zs, last_alloc_index := idx\<rparr>) (bm_set m (bitmap p) f)"
  using pmm_inv_alloc [OF assms(1-3)] assms(4) unfolding pmm_inv_def free_set_def by auto

lemma pm_alloc_frame_in_zone_step:
  assumes inv: "pmm_inv p m" and r: "pm_alloc_frame_in_zone p m z = (Ok a, p', m')"
  shows "\<exists>f \<in> zone_frames p z \<inter> free_set p m. a = f * PAGE_SIZE \<and> free_set p' m' = free_set p m - {f}
     \<and> pmm_inv p' m' \<and> m' = bm_set m (bitmap p) f \<and> bitmap p' = bitmap p \<and> total_frames p' = total_frames p"
proof -
  let ?zs = "start_address z div PAGE_SIZE" and ?ze = "min (end_address z div PAGE_SIZE) (total_frames p)"
  obtain i b where scan: "zone_scan p m ?zs ?ze (range_w (?zs div 8) ((?ze + 7) div 8)) = Some (i, b)"
    and a: "a = (i * 8 + word_of_nat b) * PAGE_SIZE"
    and p': "p' = p\<lparr>free_frames := free_frames p - 1, zones := zone_free_add (- 1) (zone_index z) (zones p),
        last_alloc_index := i\<rparr>"
    and m': "m' = m(bitmap p + i := m (bitmap p + i) OR push_bit b 1)"
    using r by (auto simp: pm_alloc_frame_in_zone_def Let_def split: if_splits option.splits)
  have i: "i < (?ze + 7) div 8" and b: "b < 8" "\<not> bit (m (bitmap p + i)) b"
    and f: "?zs \<le> i * 8 + word_of_nat b" "i * 8 + word_of_nat b < ?ze"
    using zone_scan_Some [OF scan] by (auto simp: set_range_w)
  have zt: "unat ?ze \<le> unat (total_frames p)" by (simp add: word_le_nat_alt [symmetric])
  have t: "unat (total_frames p) < 2 ^ 52" by (rule inv_sizes(2) [OF inv])
  have "unat ((?ze + 7) div 8) = (unat ?ze + 7) div 8" by (rule byte_count) (use zt t in simp)
  also have "\<dots> \<le> unat (bitmap_size p)" unfolding inv_sizes(1) [OF inv] using zt by (intro div_le_mono) simp
  finally have is': "i < bitmap_size p" using i by (simp add: word_less_nat_alt)
  have i60: "unat i < 2 ^ 60" using is' inv_sizes(3) [OF inv] by (simp add: word_less_nat_alt)
  let ?f = "i * 8 + word_of_nat b"
  have ft: "?f < total_frames p" using f(2) by simp
  have free: "?f \<in> free_set p m"
    using b ft frame_div_mod [OF i60 b(1)] by (simp add: free_set_def bm_test_iff)
  have mset: "m' = bm_set m (bitmap p) ?f" unfolding m' by (rule bm_set_frame [OF i60 b(1)])
  have "pmm_inv p' m'" unfolding mset p' by (rule pmm_inv_alloc_zones [OF inv free is']) simp
  moreover have "free_set p' m' = free_set p m - {?f}" unfolding mset by (rule free_set_set) (simp_all add: p')
  moreover have "?f \<in> zone_frames p z" using f by (simp add: zone_frames_def)
  ultimately show ?thesis using free a mset p' by auto
qed

lemma pm_alloc_frame_in_zone_Err:
  "pm_alloc_frame_in_zone p m z = (Err e, p', m') \<Longrightarrow> p' = p \<and> m' = m"
  by (auto simp: pm_alloc_frame_in_zone_def Let_def split: if_splits option.splits)

lemma inv_alloc_in_zone: "pmm_inv p m \<Longrightarrow> pm_alloc_frame_in_zone p m z = (r, p', m') \<Longrightarrow> pmm_inv p' m'"
  using pm_alloc_frame_in_zone_step pm_alloc_frame_in_zone_Err by (cases r) blast+

lemma inv_alloc_frame: "pmm_inv p m \<Longrightarrow> pm_alloc_frame p m = (r, p', m') \<Longrightarrow> pmm_inv p' m'"
proof (cases r)
  case (Inl e)
  assume "pmm_inv p m" "pm_alloc_frame p m = (r, p', m')"
  with Inl show ?thesis by (auto simp: pm_alloc_frame_def Let_def split: if_splits option.splits)
qed (use pm_alloc_frame_contract in blast)

lemma inv_free_frame: "pmm_inv p m \<Longrightarrow> pm_free_frame p m a = (r, p', m') \<Longrightarrow> pmm_inv p' m'"
  using pm_free_frame_contract pm_free_frame_Err by (cases r) blast+

lemma inv_dma32: "pmm_inv p m \<Longrightarrow> pm_alloc_dma32_frame p m = (r, p', m') \<Longrightarrow> pmm_inv p' m'"
  by (auto simp: pm_alloc_dma32_frame_def split: prod.splits sum.splits dest: inv_alloc_in_zone)

lemma inv_free_frames_loop: "pmm_inv p m \<Longrightarrow> free_frames_loop p m a is = (r, p', m') \<Longrightarrow> pmm_inv p' m'"
proof (induction "is" arbitrary: p m)
  case (Cons i "is")
  obtain r1 p1 m1 where 1: "pm_free_frame p m (a + i * PAGE_SIZE) = (r1, p1, m1)" by (metis prod_cases3)
  then have "pmm_inv p1 m1" using inv_free_frame Cons.prems(1) by blast
  with 1 Cons show ?case by (cases r1) auto
qed simp

lemma inv_free_contiguous: "pmm_inv p m \<Longrightarrow> pm_free_frames_contiguous p m a n = (r, p', m') \<Longrightarrow> pmm_inv p' m'"
  by (auto simp: pm_free_frames_contiguous_def split: if_splits dest: inv_free_frames_loop)

lemma contiguous_scan_free:
  assumes "contiguous_scan p m cnt e cur = Some (Some s)"
  shows "free_run p m s cnt"
proof -
  have "\<forall>s. Some s = Some s' \<longrightarrow> free_run p m s cnt" if "contiguous_scan p m cnt e cur = Some (Some s')" for s'
  proof (rule contiguous_scan.raw_induct
      [where P = "\<lambda>p m cnt e cur r. \<forall>s. Some s = r \<longrightarrow> free_run p m s cnt", OF _ that], goal_cases)
    case (1 scan p m cnt e cur r)
    then show ?case by (auto simp: find_used_None split: if_splits option.splits)
  qed
  with assms show ?thesis by blast
qed

lemma inv_alloc_contiguous:
  assumes inv: "pmm_inv p m" and r: "pm_alloc_frames_contiguous p m cnt zone = Some (r, p', m')"
  shows "pmm_inv p' m'"
proof (cases "cnt = 0 \<or> cnt = 1")
  case True
  with assms show ?thesis
    by (auto simp: pm_alloc_frames_contiguous_def split: option.splits if_splits
        dest: inv_alloc_in_zone inv_alloc_frame)
next
  case False
  obtain st e where range: "search_range p zone = (st, e)" by (cases "search_range p zone")
  consider (none) "p' = p" "m' = m"
    | (run) s p1 where "contiguous_scan p m cnt e st = Some (Some s)"
      "fold (\<lambda>k. alloc_run_frame (s + k)) (range_w 0 cnt) (p, m) = (p1, m')"
      "p' = p1\<lparr>free_frames := free_frames p1 - cnt\<rparr>"
    using r False range
    by (auto simp: pm_alloc_frames_contiguous_def search_range_def Let_def
        split: option.splits prod.splits)
  then show ?thesis
  proof cases
    case (run s p1)
    obtain zs where zs: "length zs = length (zones p)"
      "fold (\<lambda>k. alloc_run_frame (s + k)) (range_w 0 cnt) (p, m)
         = (p\<lparr>zones := zs\<rparr>, fold (\<lambda>k m. bm_set m (bitmap p) (s + k)) (range_w 0 cnt) m)"
      using alloc_run_fold by blast
    with run(2,3) have "p' = p\<lparr>zones := zs, free_frames := free_frames p - cnt\<rparr>"
      "m' = fold (\<lambda>k m. bm_set m (bitmap p) (s + k)) (range_w 0 cnt) m" by auto
    then show ?thesis using pmm_inv_run(1) [OF inv contiguous_scan_free [OF run(1)] zs(1)] by blast
  qed (use inv in simp)
qed

lemma inv_set_bit: "pmm_inv p m \<Longrightarrow> pm_set_bit f (p, m) = (p', m') \<Longrightarrow> pmm_inv p' m'"
proof -
  assume inv: "pmm_inv p m" and r: "pm_set_bit f (p, m) = (p', m')"
  show "pmm_inv p' m'"
  proof (cases "f \<in> free_set p m")
    case True
    have "free_frames p \<noteq> 0" using True pm_alloc_frame_Err [OF inv] by auto
    then have "saturating_sub (free_frames p) 1 = free_frames p - 1"
      by (auto simp: saturating_sub_def word_less_nat_alt unat_0_iff)
    with True r have "p' = p\<lparr>free_frames := free_frames p - 1\<rparr>" "m' = bm_set m (bitmap p) f"
      by (auto simp: pm_set_bit_def free_set_def split: if_splits)
    moreover have "p\<lparr>free_frames := free_frames p - 1\<rparr>
        = p\<lparr>free_frames := free_frames p - 1, last_alloc_index := last_alloc_index p\<rparr>" by simp
    moreover have "last_alloc_index p < bitmap_size p" using inv unfolding pmm_inv_def by blast
    ultimately show ?thesis using pmm_inv_alloc [OF inv True] by metis
  next
    case False
    with r inv show ?thesis by (auto simp: pm_set_bit_def free_set_def split: if_splits)
  qed
qed

lemma inv_clear_bit: "pmm_inv p m \<Longrightarrow> pm_clear_bit f (p, m) = (p', m') \<Longrightarrow> pmm_inv p' m'"
proof -
  assume inv: "pmm_inv p m" and r: "pm_clear_bit f (p, m) = (p', m')"
  show "pmm_inv p' m'"
  proof (cases "f < total_frames p \<and> f \<notin> free_set p m")
    case True
    with r have "p' = p\<lparr>free_frames := free_frames p + 1\<rparr>" "m' = bm_clear m (bitmap p) f"
      by (auto simp: pm_clear_bit_def free_set_def split: if_splits)
    moreover have "p\<lparr>free_frames := free_frames p + 1\<rparr>
        = p\<lparr>free_frames := free_frames p + 1, zones := zones p, last_alloc_index := last_alloc_index p\<rparr>" by simp
    ultimately show ?thesis using pmm_inv_free [OF inv, of f "zones p" "last_alloc_index p"] True by auto
  next
    case False
    with r inv show ?thesis by (auto simp: pm_clear_bit_def free_set_def split: if_splits)
  qed
qed

text \<open>Marking a range of frames, used or free: frames past the end of memory are ignored.\<close>

lemma set_bits:
  "fold pm_set_bit fs (p, m) = (p', m') \<Longrightarrow> pmm_inv p m \<Longrightarrow>
     pmm_inv p' m' \<and> total_frames p' = total_frames p \<and> free_set p' m' = free_set p m - set fs"
proof (induction fs arbitrary: p m)
  case (Cons f fs)
  obtain p1 m1 where 1: "pm_set_bit f (p, m) = (p1, m1)" by (cases "pm_set_bit f (p, m)")
  have "free_set p1 m1 = free_set p m - {f}" "total_frames p1 = total_frames p"
    using 1 by (auto simp: pm_set_bit_def free_set_def bm_test_set split: if_splits)
  with Cons.IH [of p1 m1] Cons.prems 1 inv_set_bit [OF Cons.prems(2) 1] show ?case by auto
qed simp

lemma clear_bits:
  "fold pm_clear_bit fs (p, m) = (p', m') \<Longrightarrow> pmm_inv p m \<Longrightarrow>
     pmm_inv p' m' \<and> total_frames p' = total_frames p
     \<and> free_set p' m' = free_set p m \<union> (set fs \<inter> {f. f < total_frames p})"
proof (induction fs arbitrary: p m)
  case (Cons f fs)
  obtain p1 m1 where 1: "pm_clear_bit f (p, m) = (p1, m1)" by (cases "pm_clear_bit f (p, m)")
  have "free_set p1 m1 = free_set p m \<union> ({f} \<inter> {f. f < total_frames p})" "total_frames p1 = total_frames p"
    using 1 by (auto simp: pm_clear_bit_def free_set_def bm_test_clear split: if_splits)
  with Cons.IH [of p1 m1] Cons.prems 1 inv_clear_bit [OF Cons.prems(2) 1] show ?case by auto
qed simp

text \<open>The frames that the byte range \<open>base..base+len\<close> touches.\<close>

definition touched :: "u64 \<Rightarrow> u64 \<Rightarrow> usize set" where
  "touched base len = {f. base div PAGE_SIZE \<le> f \<and> f < (base + len + PAGE_SIZE - 1) div PAGE_SIZE}"

text \<open>
  \<^verbatim>\<open>mark_region_used\<close> takes exactly the frames a byte range touches out of the free frames, and
  \<^verbatim>\<open>mark_region_free\<close> adds exactly those that exist; whatever the range and the previous state of
  its frames, the counter of free frames stays exact.
\<close>

theorem mark_region_correct:
  assumes "pmm_inv p m" "pm_mark_region_used p m base len = (p1, m1)" "pm_mark_region_free p m base len = (p2, m2)"
  shows "free_set p1 m1 = free_set p m - touched base len \<and> pmm_inv p1 m1
     \<and> free_set p2 m2 = free_set p m \<union> (touched base len \<inter> {f. f < total_frames p}) \<and> pmm_inv p2 m2"
proof -
  have "set (range_w (base div PAGE_SIZE) ((base + len + PAGE_SIZE - 1) div PAGE_SIZE)) = touched base len"
    by (auto simp: touched_def set_range_w)
  then show ?thesis
    using set_bits [OF assms(2) [unfolded pm_mark_region_used_def] assms(1)]
      clear_bits [OF assms(3) [unfolded pm_mark_region_free_def] assms(1)] by simp
qed

theorem mark_region_correct_witness:
  "\<exists>p1 m1 p2 m2. pm_mark_region_used demo_pmm demo_mem 0x8000 0x1001 = (p1, m1)
     \<and> pm_mark_region_free demo_pmm demo_mem 0x8000 0x1001 = (p2, m2)
     \<and> free_set p1 m1 = free_set demo_pmm demo_mem - touched 0x8000 0x1001 \<and> pmm_inv p2 m2"
proof -
  obtain p1 m1 p2 m2 where r: "pm_mark_region_used demo_pmm demo_mem 0x8000 0x1001 = (p1, m1)"
    "pm_mark_region_free demo_pmm demo_mem 0x8000 0x1001 = (p2, m2)" by (metis prod.exhaust)
  with mark_region_correct [OF demo_inv r] show ?thesis by blast
qed

section \<open>Sequences of calls\<close>

text \<open>
  The calls that change the manager, in any order, after a successful \<^verbatim>\<open>pmm_init_c\<close>. The other
  calls only read the state. Other parts of the kernel may write any byte outside the bitmap
  (\<open>other_writes\<close>).
\<close>

inductive pmm_call :: "'a pmm_machine_scheme \<Rightarrow> 'a pmm_machine_scheme \<Rightarrow> bool" where
  call_alloc: "alloc_frame s = (r, s') \<Longrightarrow> pmm_call s s'"
| call_free: "free_frame a s = (r, s') \<Longrightarrow> pmm_call s s'"
| call_alloc_c: "pmm_alloc_frame s = (a, s') \<Longrightarrow> pmm_call s s'"
| call_free_c: "pmm_free_frame a s = (c, s') \<Longrightarrow> pmm_call s s'"
| call_alloc_zone: "pmm_alloc_frame_in_zone z s = (a, s') \<Longrightarrow> pmm_call s s'"
| call_alloc_dma: "pmm_alloc_dma_frame s = (a, s') \<Longrightarrow> pmm_call s s'"
| call_alloc_dma32: "pmm_alloc_dma32_frame s = (a, s') \<Longrightarrow> pmm_call s s'"
| call_alloc_numa: "pmm_alloc_frame_numa n s = (a, s') \<Longrightarrow> pmm_call s s'"
| call_alloc_run: "pmm_alloc_frames_contiguous cnt z s = Some (a, s') \<Longrightarrow> pmm_call s s'"
| call_free_run: "pmm_free_frames_contiguous a cnt s = (c, s') \<Longrightarrow> pmm_call s s'"
| other_writes: "PMM_INSTANCE s = Some p \<Longrightarrow> \<forall>x\<in>bitmap_bytes (bitmap p) (total_frames p). m' x = mem s x
    \<Longrightarrow> pmm_call s (s\<lparr>mem := m'\<rparr>)"

inductive pmm_reachable :: "'a pmm_machine_scheme \<Rightarrow> 'a pmm_machine_scheme \<Rightarrow> bool" for s0 where
  reach_refl: "pmm_reachable s0 s0"
| reach_step: "pmm_reachable s0 s \<Longrightarrow> pmm_call s s' \<Longrightarrow> pmm_reachable s0 s'"

definition pmm_ready :: "'a pmm_machine_scheme \<Rightarrow> bool" where
  "pmm_ready s \<longleftrightarrow> (\<exists>p. PMM_INSTANCE s = Some p \<and> pmm_inv p (mem s))"

lemma ready_with_pmm:
  assumes "\<And>p m r p' m'. pmm_inv p m \<Longrightarrow> f p m = (r, p', m') \<Longrightarrow> pmm_inv p' m'"
    and "pmm_ready s" "with_pmm f absent s = (r, s')"
  shows "pmm_ready s'"
proof -
  obtain p where p: "PMM_INSTANCE s = Some p" "pmm_inv p (mem s)" using assms(2) by (auto simp: pmm_ready_def)
  obtain r' p' m' where f: "f p (mem s) = (r', p', m')" by (metis prod_cases3)
  have "pmm_inv p' m'" using assms(1) [OF p(2) f] .
  with assms(3) p(1) f show ?thesis by (auto simp: with_pmm_def pmm_ready_def)
qed

lemma apfst_inv:
  assumes "\<And>p m r p' m'. pmm_inv p m \<Longrightarrow> f p m = (r, p', m') \<Longrightarrow> pmm_inv p' m'"
  shows "pmm_inv p m \<Longrightarrow> apfst g (f p m) = (r, p', m') \<Longrightarrow> pmm_inv p' m'"
  using assms by (cases "f p m") auto

lemma bitmap_unchanged:
  assumes "\<forall>x\<in>bitmap_bytes (bitmap p) (total_frames p). m' x = m x" "pmm_inv p m"
  shows "pmm_inv p m'"
proof -
  have "bm_test m' (bitmap p) f \<longleftrightarrow> bm_test m (bitmap p) f" if "f < total_frames p" for f
    using assms(1) that by (auto simp: bm_test_def bitmap_bytes_def)
  then have "free_set p m' = free_set p m" by (auto simp: free_set_def)
  with assms(2) show ?thesis unfolding pmm_inv_def by metis
qed

lemma ready_alloc_run:
  assumes "pmm_ready s" "pmm_alloc_frames_contiguous cnt z s = Some (a, s')"
  shows "pmm_ready s'"
proof -
  obtain p where p: "PMM_INSTANCE s = Some p" "pmm_inv p (mem s)" using assms(1) by (auto simp: pmm_ready_def)
  with assms show ?thesis
    by (auto simp: pmm_alloc_frames_contiguous_def pmm_ready_def Let_def split: if_splits
        dest: inv_alloc_contiguous [OF p(2)])
qed

lemma inv_alloc_frame_zone_u8:
  assumes "pmm_inv p m"
    and r: "(case zone_of_u8 zone of Some z \<Rightarrow> apfst (unwrap_or 0) (pm_alloc_frame_in_zone p m z)
     | None \<Rightarrow> (0, p, m)) = (r, p', m')"
  shows "pmm_inv p' m'"
proof (cases "zone_of_u8 zone")
  case (Some z)
  obtain r1 p1 m1 where z: "pm_alloc_frame_in_zone p m z = (r1, p1, m1)" by (metis prod_cases3)
  with r Some have "p' = p1" "m' = m1" by simp_all
  with inv_alloc_in_zone [OF assms(1) z] show ?thesis by simp
qed (use assms in simp)

lemma pmm_call_ready: "pmm_call s s' \<Longrightarrow> pmm_ready s \<Longrightarrow> pmm_ready s'"
proof (induction rule: pmm_call.induct)
  case call_alloc
  then show ?case unfolding alloc_frame_def by (elim ready_with_pmm [rotated -1]) (rule inv_alloc_frame)
next
  case call_free
  then show ?case unfolding free_frame_def by (elim ready_with_pmm [rotated -1]) (rule inv_free_frame)
next
  case call_alloc_c
  then show ?case unfolding pmm_alloc_frame_def
    by (elim ready_with_pmm [rotated -1]) (rule apfst_inv [OF inv_alloc_frame])
next
  case call_free_c
  then show ?case unfolding pmm_free_frame_def
    by (elim ready_with_pmm [rotated -1]) (rule apfst_inv [OF inv_free_frame])
next
  case call_alloc_zone
  then show ?case unfolding pmm_alloc_frame_in_zone_def
    by (elim ready_with_pmm [rotated -1]) (rule inv_alloc_frame_zone_u8)
next
  case call_alloc_dma
  then show ?case unfolding pmm_alloc_dma_frame_def pm_alloc_dma_frame_def
    by (elim ready_with_pmm [rotated -1]) (rule apfst_inv [OF inv_alloc_in_zone])
next
  case call_alloc_dma32
  then show ?case unfolding pmm_alloc_dma32_frame_def
    by (elim ready_with_pmm [rotated -1]) (rule apfst_inv [OF inv_dma32])
next
  case call_alloc_numa
  then show ?case unfolding pmm_alloc_frame_numa_def pm_alloc_frame_numa_def
    by (elim ready_with_pmm [rotated -1]) (rule apfst_inv [OF inv_alloc_frame])
next
  case call_alloc_run
  then show ?case using ready_alloc_run by blast
next
  case call_free_run
  then show ?case unfolding pmm_free_frames_contiguous_def
    by (elim ready_with_pmm [rotated -1]) (rule apfst_inv [OF inv_free_contiguous])
next
  case other_writes
  then show ?case using bitmap_unchanged by (auto simp: pmm_ready_def)
qed

lemma pmm_reachable_ready: "pmm_reachable s0 s \<Longrightarrow> pmm_ready s0 \<Longrightarrow> pmm_ready s"
  by (induction rule: pmm_reachable.induct) (auto intro: pmm_call_ready)

lemma pmm_init_c_ready:
  assumes ok: "firmware_map_ok (mem s) (map_value (MEMORY_MAP_STORAGE s))" and init: "pmm_init_c a s = (0, s')"
  shows "pmm_ready s'"
proof -
  let ?mp = "map_value (MEMORY_MAP_STORAGE s)"
  have "\<exists>p m'. pm_init (mem s) ?mp = Ok (p, m')"
  proof (cases "pm_init (mem s) ?mp")
    case (Inl e)
    then have "err_code e = 1 \<or> err_code e = 2"
      by (auto simp: pm_init_def Let_def MemoryError_new_def split: if_splits option.splits prod.splits)
    with Inl init show ?thesis by (auto simp: pmm_init_c_def pmm_init_def split: if_splits)
  qed auto
  then obtain p m' where p: "pm_init (mem s) ?mp = Ok (p, m')" by blast
  with init have "s' = s\<lparr>PMM_INSTANCE := Some p, mem := m'\<rparr>"
    by (auto simp: pmm_init_c_def pmm_init_def split: if_splits)
  with conjunct1 [OF init_inv [OF ok p]] show ?thesis by (simp add: pmm_ready_def)
qed

lemma ready_alloc_frame:
  assumes "pmm_ready s" "alloc_frame s = (Ok a, s')"
  shows "pmm_is_frame_used a s = 0 \<and> pmm_is_frame_used a s' = 1"
proof -
  obtain p where p: "PMM_INSTANCE s = Some p" "pmm_inv p (mem s)" using assms(1) by (auto simp: pmm_ready_def)
  obtain r p' m' where a: "pm_alloc_frame p (mem s) = (r, p', m')" by (metis prod_cases3)
  with assms(2) p(1) have r: "r = Ok a" and s': "s' = s\<lparr>PMM_INSTANCE := Some p', mem := m'\<rparr>"
    by (auto simp: alloc_frame_def with_pmm_def)
  note c = pm_alloc_frame_contract [OF p(2) a [unfolded r]]
  then have "a \<in> frame_addrs (free_set p (mem s))" "a \<notin> frame_addrs (free_set p' m')" "pmm_inv p' m'" "managed_set p' = managed_set p"
    by auto
  then have "a div PAGE_SIZE \<in> free_set p (mem s)" "a div PAGE_SIZE \<notin> free_set p' m'"
    using frame_addrs_iff [OF p(2) free_set_managed, of a] frame_addrs_iff [of p' m' "free_set p' m'" a] free_set_managed
    by blast+
  then show ?thesis
    by (simp add: pmm_is_frame_used_def get_pmm_def p(1) s' pm_is_frame_used_def pm_test_bit_iff)
qed


definition boot_machine :: pmm_machine where
  "boot_machine = \<lparr>mem = one_entry_memory,
     MEMORY_MAP_STORAGE = \<lparr>map_value = MemoryMap_parse one_entry_memory 0x7000, initialized = True\<rparr>,
     PMM_INSTANCE = None\<rparr>"


section \<open>Statistics under the invariant\<close>

lemma free_le_total: "pmm_inv p m \<Longrightarrow> free_frames p \<le> total_frames p"
  using card_free_set_le [of p m] by (simp add: pmm_inv_def word_le_nat_alt)

lemma percent_value:
  assumes "unat (u :: u64) \<le> unat t" "unat t < 2 ^ 52" "0 < t"
  shows "unat (ucast (u * 100 div t) :: u8) = unat u * 100 div unat t"
proof -
  have u: "unat (u * 100) = unat u * 100" using assms by (subst unat_mult_lem [THEN iffD1]) auto
  have "unat u * 100 div unat t \<le> 100"
    using assms by (intro div_le_mono [of "unat u * 100" "unat t * 100" "unat t", THEN order_trans]) (auto simp: word_less_nat_alt)
  then show ?thesis by (simp add: unsigned_ucast_eq unat_div u take_bit_nat_eq_self)
qed

text \<open>
  under the invariant the percentage of used memory is the exact quotient, at most 100, and
  memory counts as critical exactly when at most 9 percent of the frames are free; used and free
  memory add up to the total.
\<close>

theorem memory_usage_exact:
  assumes inv: "pmm_inv p m"
  shows "unat (pm_memory_usage_percent p)
         = (unat (total_frames p) - card (free_set p m)) * 100 div unat (total_frames p)
     \<and> unat (pm_memory_usage_percent p) \<le> 100
     \<and> (pm_is_memory_critical p \<longleftrightarrow> 100 * card (free_set p m) \<le> 9 * unat (total_frames p))
     \<and> pm_used_memory p + pm_free_memory p = pm_total_memory p"
proof -
  define t where "t = unat (total_frames p)"
  define c where "c = card (free_set p m)"
  have c: "unat (free_frames p) = c" "0 < total_frames p" using inv unfolding pmm_inv_def c_def by blast+
  have ct: "c \<le> t" unfolding c_def t_def by (rule card_free_set_le)
  have t: "0 < t" "t < 2 ^ 52" using c(2) inv_sizes(2) [OF inv] by (simp_all add: t_def word_less_nat_alt)
  have used: "unat (total_frames p - free_frames p) = t - c"
    using free_le_total [OF inv] by (simp add: unat_sub t_def c(1))
  have pc: "unat (pm_memory_usage_percent p) = (t - c) * 100 div t"
    unfolding pm_memory_usage_percent_def Let_def
    using percent_value [of "total_frames p - free_frames p" "total_frames p"] c(2) t(2) used
    by (simp add: t_def)
  have le: "(t - c) * 100 div t \<le> 100"
  proof -
    have "(t - c) * 100 div t \<le> t * 100 div t" by (intro div_le_mono) simp
    with t show ?thesis by simp
  qed
  have "pm_is_memory_critical p \<longleftrightarrow> 91 \<le> (t - c) * 100 div t"
    unfolding pm_is_memory_critical_def word_less_nat_alt pc by simp linarith
  also have "\<dots> \<longleftrightarrow> 91 * t \<le> (t - c) * 100" using t(1) by (rule less_eq_div_iff_mult_less_eq)
  also have "\<dots> \<longleftrightarrow> 100 * c \<le> 9 * t" using ct by (simp add: diff_mult_distrib) linarith
  finally have "pm_is_memory_critical p \<longleftrightarrow> 100 * c \<le> 9 * t" .
  moreover have "pm_used_memory p + pm_free_memory p = pm_total_memory p"
    by (simp add: pm_used_memory_def pm_free_memory_def pm_total_memory_def left_diff_distrib)
  ultimately show ?thesis using pc le by (simp add: t_def c_def)
qed

theorem memory_usage_exact_witness: "unat (pm_memory_usage_percent demo_pmm) = 50 \<and> \<not> pm_is_memory_critical demo_pmm"
proof -
  have "card (free_set demo_pmm demo_mem) = 8" using demo_inv by (simp add: pmm_inv_def demo_pmm_def)
  with memory_usage_exact [OF demo_inv] show ?thesis by (simp add: demo_pmm_def)
qed

end
