(* ===== verification/Paging.thy ===== *)
theory Paging
  imports Pmm_Api
begin

text \<open>
  The paging module (\<^verbatim>\<open>memory/paging.rs\<close>): page table entries and flags, the indices of a virtual
  address, and mapping, unmapping, translation, remapping and protection changes over page tables
  that live in physical memory, in 4-level and 5-level mode. Tables are allocated from and returned
  to the physical memory manager.
\<close>

unbundle bit_operations_syntax

section \<open>Flags and entries\<close>

text \<open>
  The newtypes \<^verbatim>\<open>PageTableFlags\<close>, \<^verbatim>\<open>PageTableEntry\<close>, \<^verbatim>\<open>VirtAddr\<close> and \<^verbatim>\<open>PhysAddr\<close> wrap one 64-bit value
  each; their methods carry the prefixes \<open>ptf_\<close>, \<open>pte_\<close>, \<open>va_\<close> and \<open>pa_\<close>.
\<close>

type_synonym PageTableFlags = u64
type_synonym PageTableEntry = u64
type_synonym VirtAddr = u64
type_synonym PhysAddr = u64

definition PAGE_TABLE_ENTRIES :: usize where "PAGE_TABLE_ENTRIES = 512"

definition PRESENT :: u64 where "PRESENT = 1"
definition WRITABLE :: u64 where "WRITABLE = push_bit 1 1"
definition USER :: u64 where "USER = push_bit 2 1"
definition WRITE_THROUGH :: u64 where "WRITE_THROUGH = push_bit 3 1"
definition CACHE_DISABLE :: u64 where "CACHE_DISABLE = push_bit 4 1"
definition ACCESSED :: u64 where "ACCESSED = push_bit 5 1"
definition DIRTY :: u64 where "DIRTY = push_bit 6 1"
definition HUGE_PAGE :: u64 where "HUGE_PAGE = push_bit 7 1"
definition GLOBAL :: u64 where "GLOBAL = push_bit 8 1"
definition PAT_FLAG :: u64 where "PAT_FLAG = push_bit 7 1"
definition NO_EXECUTE :: u64 where "NO_EXECUTE = push_bit 63 1"

definition ptf_contains :: "PageTableFlags \<Rightarrow> u64 \<Rightarrow> bool" where
  "ptf_contains flags flag \<longleftrightarrow> flags AND flag \<noteq> 0"

definition ptf_set :: "PageTableFlags \<Rightarrow> u64 \<Rightarrow> PageTableFlags" where
  "ptf_set flags flag = flags OR flag"

definition ptf_clear :: "PageTableFlags \<Rightarrow> u64 \<Rightarrow> PageTableFlags" where
  "ptf_clear flags flag = flags AND NOT flag"

definition ptf_kernel :: PageTableFlags where "ptf_kernel = PRESENT OR WRITABLE OR GLOBAL"
definition ptf_user :: PageTableFlags where "ptf_user = PRESENT OR WRITABLE OR USER"
definition ptf_kernel_readonly :: PageTableFlags where "ptf_kernel_readonly = PRESENT OR GLOBAL"
definition ptf_user_readonly :: PageTableFlags where "ptf_user_readonly = PRESENT OR USER"

definition ptf_kernel_with_memory_type :: "u64 \<Rightarrow> PageTableFlags" where
  "ptf_kernel_with_memory_type pat_flags = PRESENT OR WRITABLE OR GLOBAL OR pat_flags"

definition ptf_user_with_memory_type :: "u64 \<Rightarrow> PageTableFlags" where
  "ptf_user_with_memory_type pat_flags = PRESENT OR WRITABLE OR USER OR pat_flags"

definition ptf_kernel_uncacheable :: PageTableFlags where
  "ptf_kernel_uncacheable = PRESENT OR WRITABLE OR GLOBAL OR CACHE_DISABLE"

definition ptf_kernel_write_combining :: PageTableFlags where
  "ptf_kernel_write_combining = PRESENT OR WRITABLE OR GLOBAL OR WRITE_THROUGH OR PAT_FLAG"

definition ADDRESS_MASK :: u64 where "ADDRESS_MASK = 0x000FFFFFFFFFF000"

definition pte_is_present :: "PageTableEntry \<Rightarrow> bool" where
  "pte_is_present e \<longleftrightarrow> e AND PRESENT \<noteq> 0"

definition pte_is_huge :: "PageTableEntry \<Rightarrow> bool" where
  "pte_is_huge e \<longleftrightarrow> e AND HUGE_PAGE \<noteq> 0"

definition pte_address :: "PageTableEntry \<Rightarrow> u64" where
  "pte_address e = e AND ADDRESS_MASK"

definition pte_flags :: "PageTableEntry \<Rightarrow> PageTableFlags" where
  "pte_flags e = e AND 0xFFF"

definition pte_make :: "u64 \<Rightarrow> PageTableFlags \<Rightarrow> PageTableEntry" where
  "pte_make addr flags = (addr AND ADDRESS_MASK) OR flags"

section \<open>Addresses\<close>

definition va_pml5_index :: "VirtAddr \<Rightarrow> usize" where "va_pml5_index v = drop_bit 48 v AND 0x1FF"
definition va_pml4_index :: "VirtAddr \<Rightarrow> usize" where "va_pml4_index v = drop_bit 39 v AND 0x1FF"
definition va_pdpt_index :: "VirtAddr \<Rightarrow> usize" where "va_pdpt_index v = drop_bit 30 v AND 0x1FF"
definition va_pd_index :: "VirtAddr \<Rightarrow> usize" where "va_pd_index v = drop_bit 21 v AND 0x1FF"
definition va_pt_index :: "VirtAddr \<Rightarrow> usize" where "va_pt_index v = drop_bit 12 v AND 0x1FF"
definition va_page_offset :: "VirtAddr \<Rightarrow> usize" where "va_page_offset v = v AND 0xFFF"

definition va_is_canonical_la48 :: "VirtAddr \<Rightarrow> bool" where
  "va_is_canonical_la48 v \<longleftrightarrow> (let upper_bits = drop_bit 48 v in upper_bits = 0 \<or> upper_bits = 0xFFFF)"

definition va_is_canonical_la57 :: "VirtAddr \<Rightarrow> bool" where
  "va_is_canonical_la57 v \<longleftrightarrow> (let upper_bits = drop_bit 57 v in upper_bits = 0 \<or> upper_bits = 0x7F)"

definition pa_is_aligned :: "PhysAddr \<Rightarrow> bool" where "pa_is_aligned p \<longleftrightarrow> p AND 0xFFF = 0"
definition pa_align_down :: "PhysAddr \<Rightarrow> PhysAddr" where "pa_align_down p = p AND NOT 0xFFF"
definition pa_align_up :: "PhysAddr \<Rightarrow> PhysAddr" where "pa_align_up p = (p + 0xFFF) AND NOT 0xFFF"

section \<open>State\<close>

datatype PagingMode = FourLevel | FiveLevel

record PagingManager =
  pg_mode :: PagingMode
  root_table_phys :: u64
  la57_supported :: bool
  nx_supported :: bool

record CpuidResult =
  cpuid_eax :: u32
  cpuid_ebx :: u32
  cpuid_ecx :: u32
  cpuid_edx :: u32

text \<open>
  The processor: control registers, the answers of \<^verbatim>\<open>cpuid\<close>, and a log of the invalidations of the
  translation buffer (most recent first).
\<close>

datatype tlb_event = Invlpg u64 | Cr3Load u64

record paging_machine = pmm_machine +
  PAGING_MANAGER :: "PagingManager option"
  cr3 :: u64
  cr4 :: u64
  cpuid :: "u32 \<Rightarrow> u32 \<Rightarrow> CpuidResult"
  tlb_log :: "tlb_event list"

definition check_la57_support :: "'a paging_machine_scheme \<Rightarrow> bool" where
  "check_la57_support s \<longleftrightarrow> cpuid_ecx (cpuid s 0x07 0) AND push_bit 16 1 \<noteq> 0"

definition check_nx_support :: "'a paging_machine_scheme \<Rightarrow> bool" where
  "check_nx_support s \<longleftrightarrow> cpuid_edx (cpuid s 0x80000001 0) AND push_bit 20 1 \<noteq> 0"

definition write_cr3 :: "u64 \<Rightarrow> 'a paging_machine_scheme \<Rightarrow> 'a paging_machine_scheme" where
  "write_cr3 v s = s\<lparr>cr3 := v, tlb_log := Cr3Load v # tlb_log s\<rparr>"

definition enable_la57 :: "'a paging_machine_scheme \<Rightarrow> (string, unit) result \<times> 'a paging_machine_scheme" where
  "enable_la57 s =
     (if \<not> check_la57_support s then (Err ''LA57 not supported by CPU'', s)
      else (Ok (), s\<lparr>cr4 := cr4 s OR push_bit 12 1\<rparr>))"

definition disable_la57 :: "'a paging_machine_scheme \<Rightarrow> 'a paging_machine_scheme" where
  "disable_la57 s = s\<lparr>cr4 := cr4 s AND NOT (push_bit 12 1)\<rparr>"

definition is_la57_enabled :: "'a paging_machine_scheme \<Rightarrow> bool" where
  "is_la57_enabled s \<longleftrightarrow> cr4 s AND push_bit 12 1 \<noteq> 0"

definition invlpg :: "u64 \<Rightarrow> 'a paging_machine_scheme \<Rightarrow> 'a paging_machine_scheme" where
  "invlpg v s = s\<lparr>tlb_log := Invlpg v # tlb_log s\<rparr>"

definition flush_tlb :: "'a paging_machine_scheme \<Rightarrow> 'a paging_machine_scheme" where
  "flush_tlb s = write_cr3 (cr3 s) s"

definition paging_init :: "u64 \<Rightarrow> 'a paging_machine_scheme \<Rightarrow> (string, unit) result \<times> 'a paging_machine_scheme" where
  "paging_init root s =
     (let root_aligned = root AND NOT 0xFFF
      in (Ok (), s\<lparr>PAGING_MANAGER := Some
            \<lparr>pg_mode = (if is_la57_enabled s then FiveLevel else FourLevel), root_table_phys = root_aligned,
             la57_supported = check_la57_support s, nx_supported = check_nx_support s\<rparr>\<rparr>))"

section \<open>Page tables in memory\<close>

definition phys_to_virt :: "u64 \<Rightarrow> u64" where
  "phys_to_virt phys_addr = (if phys_addr \<ge> 0x100000000 then 0 else phys_addr)"

text \<open>The address of an entry of the table at a physical address.\<close>

definition entry_ptr :: "u64 \<Rightarrow> usize \<Rightarrow> u64" where
  "entry_ptr table_phys index = phys_to_virt table_phys + index * 8"

definition get_entry :: "memory \<Rightarrow> u64 \<Rightarrow> usize \<Rightarrow> PageTableEntry" where
  "get_entry m table_phys index = read_u64 m (entry_ptr table_phys index)"

definition set_entry :: "memory \<Rightarrow> u64 \<Rightarrow> usize \<Rightarrow> PageTableEntry \<Rightarrow> memory" where
  "set_entry m table_phys index e = write_u64 m (entry_ptr table_phys index) e"

definition alloc_page_table :: "'a paging_machine_scheme \<Rightarrow> (string, u64) result \<times> 'a paging_machine_scheme" where
  "alloc_page_table s =
     (let (addr, s) = pmm_alloc_dma32_frame s;
          (addr, s) = (if addr = 0 then pmm_alloc_frame s else (addr, s))
      in if addr = 0 then (Err ''Failed to allocate page table frame'', s)
         else
           let table_ptr = phys_to_virt addr
           in if table_ptr = 0 then (Err ''Page table frame not identity-mapped (<4 GiB required)'', s)
              else (Ok addr, s\<lparr>mem := write_bytes (mem s) table_ptr 0 4096\<rparr>))"

definition free_page_table :: "u64 \<Rightarrow> 'a paging_machine_scheme \<Rightarrow> (string, unit) result \<times> 'a paging_machine_scheme" where
  "free_page_table addr s =
     (case free_frame addr s of
        (Ok u, s') \<Rightarrow> (Ok (), s')
      | (Err e, s') \<Rightarrow> (Err ''Failed to free page table frame'', s'))"

definition get_or_create_next_level ::
    "u64 \<Rightarrow> usize \<Rightarrow> PageTableFlags \<Rightarrow> 'a paging_machine_scheme \<Rightarrow> (string, u64) result \<times> 'a paging_machine_scheme" where
  "get_or_create_next_level table index flags s =
     (let entry = get_entry (mem s) table index
      in if pte_is_present entry then (Ok (pte_address entry), s)
         else case alloc_page_table s of
           (Err e, s') \<Rightarrow> (Err e, s')
         | (Ok new_table_addr, s') \<Rightarrow>
             let table_flags = ptf_set (ptf_set 0 PRESENT) WRITABLE;
                 table_flags = (if ptf_contains flags USER then ptf_set table_flags USER else table_flags)
             in (Ok new_table_addr, s'\<lparr>mem := set_entry (mem s') table index (pte_make new_table_addr table_flags)\<rparr>))"

definition is_page_table_empty :: "memory \<Rightarrow> u64 \<Rightarrow> bool" where
  "is_page_table_empty m table_phys \<longleftrightarrow>
     list_all (\<lambda>i. get_entry m table_phys i = 0) (range_w 0 PAGE_TABLE_ENTRIES)"

section \<open>Levels\<close>

text \<open>
  The code spells the walk out for both modes; here the levels of a mode are a list, each with its
  index, its name in error messages and the size of a huge page at that level.
\<close>

datatype level = PML5 | PML4 | PDPT | PD | PT

fun level_index :: "level \<Rightarrow> VirtAddr \<Rightarrow> usize" where
  "level_index PML5 v = va_pml5_index v"
| "level_index PML4 v = va_pml4_index v"
| "level_index PDPT v = va_pdpt_index v"
| "level_index PD v = va_pd_index v"
| "level_index PT v = va_pt_index v"

fun not_mapped :: "level \<Rightarrow> string" where
  "not_mapped PML5 = ''Page not mapped (PML5)''"
| "not_mapped PML4 = ''Page not mapped (PML4)''"
| "not_mapped PDPT = ''Page not mapped (PDPT)''"
| "not_mapped PD = ''Page not mapped (PD)''"
| "not_mapped PT = ''Page not mapped (PT)''"

fun huge_mask :: "level \<Rightarrow> u64 option" where
  "huge_mask PDPT = Some 0x3FFFFFFF"
| "huge_mask PD = Some 0x1FFFFF"
| "huge_mask _ = None"

fun mode_levels :: "PagingMode \<Rightarrow> level list" where
  "mode_levels FourLevel = [PML4, PDPT, PD, PT]"
| "mode_levels FiveLevel = [PML5, PML4, PDPT, PD, PT]"

fun check_canonical :: "PagingMode \<Rightarrow> VirtAddr \<Rightarrow> (string, unit) result" where
  "check_canonical FourLevel v =
     (if \<not> va_is_canonical_la48 v then Err ''Virtual address not canonical for LA48'' else Ok ())"
| "check_canonical FiveLevel v =
     (if \<not> va_is_canonical_la57 v then Err ''Virtual address not canonical for LA57'' else Ok ())"

section \<open>Mapping\<close>

fun map_walk ::
    "level list \<Rightarrow> u64 \<Rightarrow> VirtAddr \<Rightarrow> PhysAddr \<Rightarrow> PageTableFlags \<Rightarrow> 'a paging_machine_scheme \<Rightarrow>
     (string, unit) result \<times> 'a paging_machine_scheme" where
  "map_walk [] table v p flags s = (Ok (), s)"
| "map_walk [l] table v p flags s =
     (Ok (), s\<lparr>mem := set_entry (mem s) table (level_index l v) (pte_make p flags)\<rparr>)"
| "map_walk (l # l' # ls) table v p flags s =
     (case get_or_create_next_level table (level_index l v) flags s of
        (Err e, s') \<Rightarrow> (Err e, s')
      | (Ok nxt, s') \<Rightarrow> map_walk (l' # ls) nxt v p flags s')"

definition map_page ::
    "VirtAddr \<Rightarrow> PhysAddr \<Rightarrow> PageTableFlags \<Rightarrow> 'a paging_machine_scheme \<Rightarrow>
     (string, unit) result \<times> 'a paging_machine_scheme" where
  "map_page v p flags s =
     (case PAGING_MANAGER s of
        None \<Rightarrow> (Err ''Paging not initialized'', s)
      | Some manager \<Rightarrow>
          if \<not> pa_is_aligned p then (Err ''Physical address not page-aligned'', s)
          else case check_canonical (pg_mode manager) v of
            Err e \<Rightarrow> (Err e, s)
          | Ok u \<Rightarrow>
              (case map_walk (mode_levels (pg_mode manager)) (root_table_phys manager) v p flags s of
                 (Err e, s') \<Rightarrow> (Err e, s')
               | (Ok u, s') \<Rightarrow> (Ok (), invlpg v s')))"

section \<open>Unmapping\<close>

text \<open>
  The walk collects, bottom-up, each table below the root with the entry of its parent; the last
  table is the page table whose entry is cleared.
\<close>

fun unmap_path :: "memory \<Rightarrow> level list \<Rightarrow> u64 \<Rightarrow> VirtAddr \<Rightarrow> (u64 \<times> usize \<times> u64) list \<Rightarrow>
    (string, u64 \<times> (u64 \<times> usize \<times> u64) list) result" where
  "unmap_path m [] table v acc = Ok (table, acc)"
| "unmap_path m [l] table v acc =
     (if \<not> pte_is_present (get_entry m table (level_index l v)) then Err (not_mapped l) else Ok (table, acc))"
| "unmap_path m (l # l' # ls) table v acc =
     (let entry = get_entry m table (level_index l v)
      in if \<not> pte_is_present entry then Err (not_mapped l)
         else unmap_path m (l' # ls) (pte_address entry) v ((table, level_index l v, pte_address entry) # acc))"

fun free_empty_tables :: "(u64 \<times> usize \<times> u64) list \<Rightarrow> 'a paging_machine_scheme \<Rightarrow>
    (string, unit) result \<times> 'a paging_machine_scheme" where
  "free_empty_tables [] s = (Ok (), s)"
| "free_empty_tables ((parent, index, table) # rest) s =
     (if is_page_table_empty (mem s) table then
        let s = s\<lparr>mem := set_entry (mem s) parent index 0\<rparr>
        in case free_page_table table s of
             (Err e, s') \<Rightarrow> (Err e, s')
           | (Ok u, s') \<Rightarrow> free_empty_tables rest s'
      else (Ok (), s))"

definition unmap_page_internal ::
    "VirtAddr \<Rightarrow> bool \<Rightarrow> 'a paging_machine_scheme \<Rightarrow> (string, unit) result \<times> 'a paging_machine_scheme" where
  "unmap_page_internal v free_empty s =
     (case PAGING_MANAGER s of
        None \<Rightarrow> (Err ''Paging not initialized'', s)
      | Some manager \<Rightarrow>
          case check_canonical (pg_mode manager) v of
            Err e \<Rightarrow> (Err e, s)
          | Ok u \<Rightarrow>
              case unmap_path (mem s) (mode_levels (pg_mode manager)) (root_table_phys manager) v [] of
                Err e \<Rightarrow> (Err e, s)
              | Ok (pt_phys, path) \<Rightarrow>
                  let s = s\<lparr>mem := set_entry (mem s) pt_phys (va_pt_index v) 0\<rparr>
                  in case (if free_empty then free_empty_tables path s else (Ok (), s)) of
                       (Err e, s') \<Rightarrow> (Err e, s')
                     | (Ok u, s') \<Rightarrow> (Ok (), invlpg v s'))"

definition unmap_page :: "VirtAddr \<Rightarrow> 'a paging_machine_scheme \<Rightarrow> (string, unit) result \<times> 'a paging_machine_scheme" where
  "unmap_page v s = unmap_page_internal v True s"

section \<open>Translation\<close>

text \<open>
  The entry a translation ends at, with the mask of the offset into its page: a huge page at the
  PDPT or PD level, or a page of 4 KiB.
\<close>

fun leaf_entry :: "memory \<Rightarrow> level list \<Rightarrow> u64 \<Rightarrow> VirtAddr \<Rightarrow> (string, PageTableEntry \<times> u64) result" where
  "leaf_entry m [] table v = Err []"
| "leaf_entry m [l] table v =
     (let entry = get_entry m table (level_index l v)
      in if \<not> pte_is_present entry then Err (not_mapped l) else Ok (entry, 0xFFF))"
| "leaf_entry m (l # l' # ls) table v =
     (let entry = get_entry m table (level_index l v)
      in if \<not> pte_is_present entry then Err (not_mapped l)
         else case huge_mask l of
           Some msk \<Rightarrow> if pte_is_huge entry then Ok (entry, msk) else leaf_entry m (l' # ls) (pte_address entry) v
         | None \<Rightarrow> leaf_entry m (l' # ls) (pte_address entry) v)"

definition translate_address :: "VirtAddr \<Rightarrow> 'a paging_machine_scheme \<Rightarrow> (string, PhysAddr) result" where
  "translate_address v s =
     (case PAGING_MANAGER s of
        None \<Rightarrow> Err ''Paging not initialized''
      | Some manager \<Rightarrow>
          case check_canonical (pg_mode manager) v of
            Err e \<Rightarrow> Err e
          | Ok u \<Rightarrow>
              case leaf_entry (mem s) (mode_levels (pg_mode manager)) (root_table_phys manager) v of
                Err e \<Rightarrow> Err e
              | Ok (entry, msk) \<Rightarrow>
                  if msk = 0xFFF then Ok (pte_address entry OR va_page_offset v)
                  else Ok ((pte_address entry AND NOT msk) OR (v AND msk)))"

definition get_page_flags :: "VirtAddr \<Rightarrow> 'a paging_machine_scheme \<Rightarrow> (string, PageTableFlags) result" where
  "get_page_flags v s =
     (case PAGING_MANAGER s of
        None \<Rightarrow> Err ''Paging not initialized''
      | Some manager \<Rightarrow>
          case check_canonical (pg_mode manager) v of
            Err e \<Rightarrow> Err e
          | Ok u \<Rightarrow>
              case leaf_entry (mem s) (mode_levels (pg_mode manager)) (root_table_phys manager) v of
                Err e \<Rightarrow> Err e
              | Ok (entry, msk) \<Rightarrow> Ok (pte_flags entry))"

section \<open>Ranges, remapping, protection\<close>

primrec map_pages ::
    "usize list \<Rightarrow> VirtAddr \<Rightarrow> PhysAddr \<Rightarrow> PageTableFlags \<Rightarrow> 'a paging_machine_scheme \<Rightarrow>
     (string, unit) result \<times> 'a paging_machine_scheme" where
  "map_pages [] v p flags s = (Ok (), s)"
| "map_pages (i # is) v p flags s =
     (case map_page (v + i * PAGE_SIZE) (p + i * PAGE_SIZE) flags s of
        (Err e, s') \<Rightarrow> (Err e, s')
      | (Ok u, s') \<Rightarrow> map_pages is v p flags s')"

definition map_range ::
    "VirtAddr \<Rightarrow> PhysAddr \<Rightarrow> usize \<Rightarrow> PageTableFlags \<Rightarrow> 'a paging_machine_scheme \<Rightarrow>
     (string, unit) result \<times> 'a paging_machine_scheme" where
  "map_range v p bytes flags s =
     (let page_count = (bytes + PAGE_SIZE - 1) div PAGE_SIZE
      in map_pages (range_w 0 page_count) v p flags s)"

primrec unmap_pages ::
    "usize list \<Rightarrow> VirtAddr \<Rightarrow> 'a paging_machine_scheme \<Rightarrow> (string, unit) result \<times> 'a paging_machine_scheme" where
  "unmap_pages [] v s = (Ok (), s)"
| "unmap_pages (i # is) v s =
     (case unmap_page (v + i * PAGE_SIZE) s of
        (Err e, s') \<Rightarrow> (Err e, s')
      | (Ok u, s') \<Rightarrow> unmap_pages is v s')"

definition unmap_range :: "VirtAddr \<Rightarrow> usize \<Rightarrow> 'a paging_machine_scheme \<Rightarrow> (string, unit) result \<times> 'a paging_machine_scheme" where
  "unmap_range v bytes s =
     (let page_count = (bytes + PAGE_SIZE - 1) div PAGE_SIZE
      in unmap_pages (range_w 0 page_count) v s)"

text \<open>
  The loop of \<^verbatim>\<open>identity_map_range\<close> adds the page size until the address reaches the end; it does not
  terminate when the end lies in the last page of the address space. \<open>None\<close> stands for that.
\<close>

partial_function (option) identity_map_loop ::
    "u64 \<Rightarrow> u64 \<Rightarrow> PageTableFlags \<Rightarrow> 'a paging_machine_scheme \<Rightarrow>
     ((string, unit) result \<times> 'a paging_machine_scheme) option" where
  "identity_map_loop addr end_addr flags s =
     (if addr < end_addr then
        (case map_page addr addr flags s of
           (Err e, s') \<Rightarrow> Some (Err e, s')
         | (Ok u, s') \<Rightarrow> identity_map_loop (addr + PAGE_SIZE) end_addr flags s')
      else Some (Ok (), s))"

declare identity_map_loop.simps [code]

definition identity_map_range ::
    "PhysAddr \<Rightarrow> PhysAddr \<Rightarrow> PageTableFlags \<Rightarrow> 'a paging_machine_scheme \<Rightarrow>
     ((string, unit) result \<times> 'a paging_machine_scheme) option" where
  "identity_map_range start_phys end_phys flags s =
     (case PAGING_MANAGER s of
        None \<Rightarrow> Some (Err ''Paging not initialized'', s)
      | Some manager \<Rightarrow> identity_map_loop (pa_align_down start_phys) (pa_align_up end_phys) flags s)"

text \<open>\<^verbatim>\<open>remap_page\<close> walks like \<^verbatim>\<open>unmap_page\<close>, without the check for a canonical address.\<close>

definition remap_page ::
    "VirtAddr \<Rightarrow> PhysAddr \<Rightarrow> PageTableFlags \<Rightarrow> 'a paging_machine_scheme \<Rightarrow>
     (string, unit) result \<times> 'a paging_machine_scheme" where
  "remap_page v p flags s =
     (case PAGING_MANAGER s of
        None \<Rightarrow> (Err ''Paging not initialized'', s)
      | Some manager \<Rightarrow>
          if \<not> pa_is_aligned p then (Err ''Physical address not page-aligned'', s)
          else case unmap_path (mem s) (mode_levels (pg_mode manager)) (root_table_phys manager) v [] of
            Err e \<Rightarrow> (Err e, s)
          | Ok (pt_phys, path) \<Rightarrow>
              (Ok (), invlpg v (s\<lparr>mem := set_entry (mem s) pt_phys (va_pt_index v) (pte_make p flags)\<rparr>)))"

definition change_page_flags ::
    "VirtAddr \<Rightarrow> PageTableFlags \<Rightarrow> 'a paging_machine_scheme \<Rightarrow> (string, unit) result \<times> 'a paging_machine_scheme" where
  "change_page_flags v flags s =
     (case translate_address v s of
        Err e \<Rightarrow> (Err e, s)
      | Ok p \<Rightarrow> remap_page v p flags s)"

definition get_current_page_table :: "'a paging_machine_scheme \<Rightarrow> u64" where
  "get_current_page_table s = cr3 s AND 0x000FFFFFFFFFF000"

definition switch_page_table :: "u64 \<Rightarrow> 'a paging_machine_scheme \<Rightarrow> 'a paging_machine_scheme" where
  "switch_page_table new_root s = write_cr3 new_root s"

section \<open>C interface\<close>

definition paging_status :: "(string, unit) result \<Rightarrow> i32" where
  "paging_status r = (case r of Ok u \<Rightarrow> 0 | Err e \<Rightarrow> - 1)"

definition paging_check_la57_support :: "'a paging_machine_scheme \<Rightarrow> u8" where
  "paging_check_la57_support s = (if check_la57_support s then 1 else 0)"

definition paging_check_nx_support :: "'a paging_machine_scheme \<Rightarrow> u8" where
  "paging_check_nx_support s = (if check_nx_support s then 1 else 0)"

definition paging_is_la57_enabled :: "'a paging_machine_scheme \<Rightarrow> u8" where
  "paging_is_la57_enabled s = (if is_la57_enabled s then 1 else 0)"

definition paging_init_c :: "u64 \<Rightarrow> 'a paging_machine_scheme \<Rightarrow> i32 \<times> 'a paging_machine_scheme" where
  "paging_init_c root s = apfst paging_status (paging_init root s)"

definition paging_get_mode :: "'a paging_machine_scheme \<Rightarrow> i32" where
  "paging_get_mode s =
     (case PAGING_MANAGER s of
        Some mgr \<Rightarrow> (case pg_mode mgr of FourLevel \<Rightarrow> 0 | FiveLevel \<Rightarrow> 1)
      | None \<Rightarrow> - 1)"

definition paging_map_page :: "u64 \<Rightarrow> u64 \<Rightarrow> u64 \<Rightarrow> 'a paging_machine_scheme \<Rightarrow> i32 \<times> 'a paging_machine_scheme" where
  "paging_map_page virt_addr phys_addr flags s =
     apfst paging_status (map_page virt_addr phys_addr (ptf_set flags PRESENT) s)"

definition paging_unmap_page :: "u64 \<Rightarrow> 'a paging_machine_scheme \<Rightarrow> i32 \<times> 'a paging_machine_scheme" where
  "paging_unmap_page virt_addr s = apfst paging_status (unmap_page virt_addr s)"

definition paging_translate_address :: "u64 \<Rightarrow> 'a paging_machine_scheme \<Rightarrow> u64" where
  "paging_translate_address virt_addr s =
     (case translate_address virt_addr s of Ok p \<Rightarrow> p | Err e \<Rightarrow> 0)"

definition paging_is_mapped :: "u64 \<Rightarrow> 'a paging_machine_scheme \<Rightarrow> u8" where
  "paging_is_mapped virt_addr s = (case translate_address virt_addr s of Ok p \<Rightarrow> 1 | Err e \<Rightarrow> 0)"

definition paging_identity_map_range ::
    "u64 \<Rightarrow> u64 \<Rightarrow> u64 \<Rightarrow> 'a paging_machine_scheme \<Rightarrow> (i32 \<times> 'a paging_machine_scheme) option" where
  "paging_identity_map_range start_phys end_phys flags s =
     map_option (apfst paging_status) (identity_map_range start_phys end_phys flags s)"

end
