(* ===== verification/Page_Tables.thy ===== *)
theory Page_Tables
  imports Paging
begin

text \<open>
  The page tables of \<^verbatim>\<open>memory/paging.rs\<close> as a data structure in physical memory: the effect of the
  frame allocator on the machine, the tree of tables a root spans, the lookup function that
  abstracts it, and the frame lemmas: what a write outside the tables, into one entry, or into a
  fresh table does to the tree and to lookups.
\<close>

unbundle bit_operations_syntax

section \<open>What an allocation changes\<close>

definition avail :: "'a pmm_machine_scheme \<Rightarrow> u64 set" where
  "avail s = (case PMM_INSTANCE s of None \<Rightarrow> {} | Some p \<Rightarrow> frame_addrs (free_set p (mem s)))"

definition managed :: "'a pmm_machine_scheme \<Rightarrow> u64 set" where
  "managed s = (case PMM_INSTANCE s of None \<Rightarrow> {} | Some p \<Rightarrow> frame_addrs (managed_set p))"

definition bitmap_area :: "'a pmm_machine_scheme \<Rightarrow> u64 set" where
  "bitmap_area s = (case PMM_INSTANCE s of None \<Rightarrow> {} | Some p \<Rightarrow> bitmap_bytes (bitmap p) (total_frames p))"

text \<open>
  \<open>pmm_only s s'\<close>: nothing but the manager and its bitmap changed, and the manager still works.
\<close>

definition pmm_only :: "'a pmm_machine_scheme \<Rightarrow> 'a pmm_machine_scheme \<Rightarrow> bool" where
  "pmm_only s s' \<longleftrightarrow> pmm_ready s' \<and> bitmap_area s' = bitmap_area s \<and> managed s' = managed s
     \<and> agree_off (bitmap_area s) (mem s) (mem s')
     \<and> s' = s\<lparr>PMM_INSTANCE := PMM_INSTANCE s', mem := mem s'\<rparr>"

definition takes :: "'a pmm_machine_scheme \<Rightarrow> u64 \<Rightarrow> 'a pmm_machine_scheme \<Rightarrow> bool" where
  "takes s a s' \<longleftrightarrow> pmm_only s s'
     \<and> (if a = 0 then avail s' \<subseteq> avail s else a \<in> avail s \<and> avail s' = avail s - {a})"

lemma pmm_only_refl: "pmm_ready s \<Longrightarrow> pmm_only s s"
  by (simp add: pmm_only_def)

lemma pmm_only_trans: "pmm_only s s' \<Longrightarrow> pmm_only s' s'' \<Longrightarrow> pmm_only s s''"
proof -
  assume a: "pmm_only s s'" "pmm_only s' s''"
  have "s'' = s'\<lparr>PMM_INSTANCE := PMM_INSTANCE s'', mem := mem s''\<rparr>" 
    "s' = s\<lparr>PMM_INSTANCE := PMM_INSTANCE s', mem := mem s'\<rparr>"
    using a unfolding pmm_only_def by blast+
  then have "s'' = s\<lparr>PMM_INSTANCE := PMM_INSTANCE s'', mem := mem s''\<rparr>"
    by (metis (no_types, lifting) pmm_machine.update_convs(2) machine.update_convs(1) pmm_machine.surjective pmm_machine.select_convs)
  with a show ?thesis unfolding pmm_only_def by (metis agree_off_trans)
qed

lemma pmm_only_intro:
  assumes "PMM_INSTANCE s = Some p" "pmm_inv p' m'" "bitmap p' = bitmap p" "total_frames p' = total_frames p"
    "agree_off (bitmap_bytes (bitmap p) (total_frames p)) (mem s) m'"
  shows "pmm_only s (s\<lparr>PMM_INSTANCE := Some p', mem := m'\<rparr>)"
  using assms by (simp add: pmm_only_def pmm_ready_def bitmap_area_def managed_def managed_set_def)

lemma takes_intro:
  assumes p: "PMM_INSTANCE s = Some p" "pmm_inv p (mem s)" and f: "f \<in> free_set p (mem s)"
    and p': "pmm_inv p' m'" "bitmap p' = bitmap p" "total_frames p' = total_frames p" "m' = bm_set (mem s) (bitmap p) f"
  shows "takes s (f * PAGE_SIZE) (s\<lparr>PMM_INSTANCE := Some p', mem := m'\<rparr>)"
proof -
  have fs: "free_set p' m' = free_set p (mem s) - {f}" unfolding p'(4) using p'(2,3) by (rule free_set_set)
  have "f \<in> managed_set p" using f free_set_managed by blast
  then have "frame_addrs (free_set p' m') = frame_addrs (free_set p (mem s)) - {f * PAGE_SIZE}"
    unfolding fs using p(2) free_set_managed by (intro frame_addrs_inj)
  moreover have "f * PAGE_SIZE \<in> frame_addrs (free_set p (mem s))" using f by (simp add: frame_addrs_def)
  moreover have "f < total_frames p" using f by (simp add: free_set_def)
  then have "agree_off (bitmap_bytes (bitmap p) (total_frames p)) (mem s) m'" unfolding p'(4) by (rule agree_off_bm(1))
  then have "pmm_only s (s\<lparr>PMM_INSTANCE := Some p', mem := m'\<rparr>)"
    by (rule pmm_only_intro [OF p(1) p'(1-3)])
  ultimately show ?thesis by (auto simp: takes_def avail_def p(1))
qed

lemma takes_nothing: "pmm_ready s \<Longrightarrow> takes s 0 s"
  by (simp add: takes_def pmm_only_refl)

lemma pmm_alloc_frame_takes:
  assumes "pmm_ready s" "pmm_alloc_frame s = (a, s')"
  shows "takes s a s'" and "0 \<notin> avail s \<Longrightarrow> a = 0 \<Longrightarrow> avail s = {} \<and> s' = s"
proof -
  obtain p where p: "PMM_INSTANCE s = Some p" "pmm_inv p (mem s)" using assms(1) by (auto simp: pmm_ready_def)
  have "takes s a s' \<and> (0 \<notin> avail s \<longrightarrow> a = 0 \<longrightarrow> avail s = {} \<and> s' = s)"
  proof (cases "free_frames p = 0")
    case True
    then have "a = 0 \<and> s' = s"
      using assms(2) p by (auto simp: pmm_alloc_frame_def with_pmm_def pm_alloc_frame_def unwrap_or_def)
    then show ?thesis
      using takes_nothing assms(1) pm_alloc_frame_Err [OF p(2) True] p(1) by (auto simp: avail_def frame_addrs_def)
  next
    case False
    from pm_alloc_frame_step [OF p(2) this] obtain f idx where f: "f \<in> free_set p (mem s)" "idx < bitmap_size p"
      and eq: "pm_alloc_frame p (mem s) = (Ok (f * PAGE_SIZE),
       p\<lparr>free_frames := free_frames p - 1, last_alloc_index := idx\<rparr>, bm_set (mem s) (bitmap p) f)" by blast
    then have a: "a = f * PAGE_SIZE" "s' = s\<lparr>PMM_INSTANCE := Some (p\<lparr>free_frames := free_frames p - 1, last_alloc_index := idx\<rparr>), mem := bm_set (mem s) (bitmap p) f\<rparr>"
      using assms(2) p(1) by (auto simp: pmm_alloc_frame_def with_pmm_def unwrap_or_def)
    have "takes s a s'" unfolding a using p f by (intro takes_intro pmm_inv_alloc) simp_all
    moreover have "a \<in> avail s" using f(1) by (auto simp: a(1) avail_def p(1) frame_addrs_def)
    ultimately show ?thesis by auto
  qed
  then show "takes s a s'" and "0 \<notin> avail s \<Longrightarrow> a = 0 \<Longrightarrow> avail s = {} \<and> s' = s" by blast+
qed

lemma pmm_alloc_dma32_takes:
  assumes "pmm_ready s" "pmm_alloc_dma32_frame s = (a, s')"
  shows "takes s a s'" and "0 \<notin> avail s \<Longrightarrow> a = 0 \<Longrightarrow> s' = s"
proof -
  obtain p where p: "PMM_INSTANCE s = Some p" "pmm_inv p (mem s)" using assms(1) by (auto simp: pmm_ready_def)
  obtain r p' m' where d: "pm_alloc_dma32_frame p (mem s) = (r, p', m')" by (metis prod_cases3)
  then have s': "a = unwrap_or 0 r" "s' = s\<lparr>PMM_INSTANCE := Some p', mem := m'\<rparr>"
    using assms(2) p(1) by (auto simp: pmm_alloc_dma32_frame_def with_pmm_def)
  obtain z where z: "pm_alloc_frame_in_zone p (mem s) z = (r, p', m')"
    using d pm_alloc_frame_in_zone_Err
    by (fastforce simp: pm_alloc_dma32_frame_def split: prod.splits sum.splits)
  have "takes s a s' \<and> (0 \<notin> avail s \<longrightarrow> a = 0 \<longrightarrow> s' = s)"
  proof (cases r)
    case (Inl e)
    then have "p' = p" "m' = mem s" using z pm_alloc_frame_in_zone_Err by blast+
    then have "s' = s" using s'(2) p(1) by simp
    then show ?thesis using s' Inl takes_nothing assms(1) by (simp add: unwrap_or_def)
  next
    case (Inr b)
    with z have z': "pm_alloc_frame_in_zone p (mem s) z = (Ok b, p', m')" by simp
    obtain f where f: "f \<in> free_set p (mem s)" "b = f * PAGE_SIZE" "pmm_inv p' m'"
        "m' = bm_set (mem s) (bitmap p) f" "bitmap p' = bitmap p" "total_frames p' = total_frames p"
      using pm_alloc_frame_in_zone_step [OF p(2) z'] by blast
    have "a = f * PAGE_SIZE" using f s' Inr by (simp add: unwrap_or_def)
    moreover have "takes s (f * PAGE_SIZE) s'" unfolding s' using p f by (intro takes_intro) simp_all
    moreover have "f * PAGE_SIZE \<in> avail s" using f(1) by (auto simp: avail_def p(1) frame_addrs_def)
    ultimately show ?thesis by auto
  qed
  then show "takes s a s'" and "0 \<notin> avail s \<Longrightarrow> a = 0 \<Longrightarrow> s' = s" by blast+
qed

lemma takes_trans0: "takes s 0 s1 \<Longrightarrow> takes s1 a s' \<Longrightarrow> pmm_only s s' \<and> avail s' \<subseteq> avail s"
  by (auto simp: takes_def pmm_only_trans split: if_splits intro: pmm_only_trans)

section \<open>Entries of a table\<close>

text \<open>Tables are page aligned and below 4 GiB, where the identity map reaches them.\<close>

definition table_addr :: "u64 \<Rightarrow> bool" where
  "table_addr t \<longleftrightarrow> page_base t = t \<and> t < 0x100000000"

lemma level_index_less: "level_index l v < 512"
proof -
  have "(x AND 0x1FF :: u64) < 512" for x using word_and_le1 [of x "0x1FF"] by (simp add: order_le_less_trans)
  then show ?thesis
    by (cases l) (simp_all add: va_pml5_index_def va_pml4_index_def va_pdpt_index_def va_pd_index_def va_pt_index_def)
qed

lemma unat_entry_offset: "i < 512 \<Longrightarrow> unat (i * 8 :: u64) = unat i * 8"
  by (subst unat_mult_lem [THEN iffD1]) (auto simp: word_less_nat_alt)

lemma entry_bytes:
  assumes t: "table_addr t" and i: "i < 512" and x: "in_bytes (entry_ptr t i) 8 x"
  shows "page_base x = t" and "unat (x - t) div 8 = unat i"
proof -
  have e: "entry_ptr t i = t + i * 8" using t by (auto simp: entry_ptr_def phys_to_virt_def table_addr_def)
  have d: "unat (x - (t + i * 8)) < 8" using x by (simp add: in_bytes_def e)
  have i8: "unat (i * 8) = unat i * 8" "unat i < 512" using i unat_entry_offset by (simp_all add: word_less_nat_alt)
  have "unat (i * 8 + (x - (t + i * 8))) = unat (i * 8) + unat (x - (t + i * 8))"
    by (rule unat_add_lem [THEN iffD1]) (use d i8 in simp)
  then have u: "unat (x - t) = unat i * 8 + unat (x - (t + i * 8))" by (simp add: i8)
  then show "unat (x - t) div 8 = unat i" using d by simp
  have "unat (x - t) < 4096" using u d i8 by simp
  then show "page_base x = t" using t page_base_add(1) [of t "x - t"] by (simp add: table_addr_def)
qed

lemma get_entry_cong:
  assumes "table_addr t" "i < 512" "\<And>x. page_base x = t \<Longrightarrow> m' x = m x"
  shows "get_entry m' t i = get_entry m t i"
  unfolding get_entry_def using assms entry_bytes(1) by (intro read_u64_cong) blast

lemma get_set_entry:
  assumes t: "table_addr t" "i < 512" "j < 512"
  shows "get_entry (set_entry m t i e) t j = (if j = i then e else get_entry m t j)"
proof (cases "j = i")
  case False
  have "write_u64 m (entry_ptr t i) e x = m x" if "in_bytes (entry_ptr t j) 8 x" for x
    using that entry_bytes(2) [OF t(1,2)] entry_bytes(2) [OF t(1,3)] False
    by (intro write_u64_outside) (metis word_unat_eq_iff)
  then have "read_u64 (write_u64 m (entry_ptr t i) e) (entry_ptr t j) = read_u64 m (entry_ptr t j)"
    by (intro read_u64_cong)
  with False show ?thesis by (simp add: get_entry_def set_entry_def)
qed (simp add: get_entry_def set_entry_def)

lemma set_entry_outside:
  assumes "table_addr t" "i < 512" "page_base x \<noteq> t"
  shows "set_entry m t i e x = m x"
  unfolding set_entry_def using assms entry_bytes(1) by (intro write_u64_outside) blast

lemma get_entry_zeroed:
  assumes "table_addr t" "i < 512"
  shows "get_entry (write_bytes m t 0 4096) t i = 0"
  unfolding get_entry_def
proof (rule read_u64_zero)
  fix x assume "in_bytes (entry_ptr t i) 8 x"
  then have "page_base x = t" by (rule entry_bytes(1) [OF assms])
  then show "write_bytes m t 0 4096 x = 0"
    using in_page_iff [of t x] assms(1) by (simp add: write_bytes_def table_addr_def)
qed

section \<open>Page table entries\<close>

lemma bit_ADDRESS_MASK: "bit ADDRESS_MASK n \<longleftrightarrow> 12 \<le> n \<and> n < 52"
proof -
  have eq: "ADDRESS_MASK = mask 52 AND NOT (mask 12)" by (simp add: ADDRESS_MASK_def mask_eq_exp_minus_1)
  show ?thesis unfolding eq by (auto simp: bit_simps)
qed

lemma bit_pte_address: "bit (pte_address e) n \<longleftrightarrow> 12 \<le> n \<and> n < 52 \<and> bit e n"
  by (auto simp: pte_address_def bit_simps bit_ADDRESS_MASK)

lemma pte_address_aligned: "page_base (pte_address e) = pte_address e"
  by (rule bit_eqI) (auto simp: bit_page_base bit_pte_address)

lemma pte_is_present_iff: "pte_is_present e \<longleftrightarrow> bit e 0"
  using and_exp_eq_0 [of e 0] by (simp add: pte_is_present_def PRESENT_def)

lemma pte_is_huge_iff: "pte_is_huge e \<longleftrightarrow> bit e 7"
  using and_exp_eq_0 [of e 7] by (simp add: pte_is_huge_def HUGE_PAGE_def)

lemma bit_pte_make: "bit (pte_make p f) n \<longleftrightarrow> (12 \<le> n \<and> n < 52 \<and> bit p n) \<or> bit f n"
  by (auto simp: pte_make_def bit_simps bit_ADDRESS_MASK)

lemma pte_make_address:
  assumes "p AND ADDRESS_MASK = p" "f AND ADDRESS_MASK = 0"
  shows "pte_address (pte_make p f) = p"
proof -
  have "(p OR f) AND ADDRESS_MASK = (p AND ADDRESS_MASK) OR (f AND ADDRESS_MASK)" by (simp add: bit.conj_disj_distrib2)
  then show ?thesis by (simp add: pte_address_def pte_make_def assms)
qed

lemma table_addr_masked: "table_addr t \<Longrightarrow> t AND ADDRESS_MASK = t"
proof (rule bit_eqI)
  fix n assume t: "table_addr t"
  have "unat t < 2 ^ 32" using t by (simp add: table_addr_def word_less_nat_alt)
  then have "bit t n \<Longrightarrow> 12 \<le> n \<and> n < 32"
    using bit_small_u64 [of t 32 n] bit_page_base [of t n] t by (simp add: table_addr_def)
  then show "bit (t AND ADDRESS_MASK) n = bit t n" by (auto simp: bit_simps bit_ADDRESS_MASK)
qed

section \<open>The tree of tables\<close>

text \<open>
  The table an entry of a table of level \<open>l\<close> refers to: nothing if the entry is absent or maps a
  huge page.
\<close>

definition child :: "memory \<Rightarrow> level \<Rightarrow> u64 \<Rightarrow> usize \<Rightarrow> u64 option" where
  "child m l t i =
     (let e = get_entry m t i
      in if pte_is_present e \<and> \<not> (huge_mask l \<noteq> None \<and> pte_is_huge e) then Some (pte_address e) else None)"

fun tables :: "memory \<Rightarrow> level list \<Rightarrow> u64 \<Rightarrow> u64 set" where
  "tables m [] t = {t}"
| "tables m [l] t = {t}"
| "tables m (l # l' # ls) t =
     insert t (\<Union>i\<in>{i. i < 512}. case child m l t i of None \<Rightarrow> {} | Some c \<Rightarrow> tables m (l' # ls) c)"

text \<open>No table is reached twice, and every table is addressable.\<close>

fun tree_ok :: "memory \<Rightarrow> level list \<Rightarrow> u64 \<Rightarrow> bool" where
  "tree_ok m [] t \<longleftrightarrow> table_addr t"
| "tree_ok m [l] t \<longleftrightarrow> table_addr t"
| "tree_ok m (l # l' # ls) t \<longleftrightarrow> table_addr t
     \<and> (\<forall>i<512. \<forall>c. child m l t i = Some c \<longrightarrow> tree_ok m (l' # ls) c \<and> t \<notin> tables m (l' # ls) c)
     \<and> (\<forall>i<512. \<forall>j<512. \<forall>c d. i \<noteq> j \<longrightarrow> child m l t i = Some c \<longrightarrow> child m l t j = Some d \<longrightarrow>
          tables m (l' # ls) c \<inter> tables m (l' # ls) d = {})"

definition lookup :: "memory \<Rightarrow> level list \<Rightarrow> u64 \<Rightarrow> VirtAddr \<Rightarrow> (PageTableEntry \<times> u64) option" where
  "lookup m ls t w = (case leaf_entry m ls t w of Ok r \<Rightarrow> Some r | Err e \<Rightarrow> None)"

lemma tree_ok_addr: "tree_ok m ls t \<Longrightarrow> table_addr t"
  by (cases "(m, ls, t)" rule: tree_ok.cases) auto

lemma root_in_tables: "t \<in> tables m ls t"
  by (cases "(m, ls, t)" rule: tree_ok.cases) auto

lemma lookup_last: "lookup m [l] t w =
    (if pte_is_present (get_entry m t (level_index l w)) then Some (get_entry m t (level_index l w), 0xFFF) else None)"
  by (simp add: lookup_def Let_def)

lemma lookup_child: "child m l t (level_index l w) = Some c \<Longrightarrow> lookup m (l # l' # ls) t w = lookup m (l' # ls) c w"
  by (auto simp: lookup_def child_def Let_def split: if_splits option.splits)

lemma lookup_no_child: "child m l t (level_index l w) = None \<Longrightarrow> lookup m (l # l' # ls) t w =
    (let e = get_entry m t (level_index l w) in if pte_is_present e then map_option (Pair e) (huge_mask l) else None)"
  by (auto simp: lookup_def child_def Let_def split: if_splits option.splits)

text \<open>Lookups and the tree depend only on the contents of the tables.\<close>

lemma child_cong: "get_entry m' t i = get_entry m t i \<Longrightarrow> child m' l t i = child m l t i"
  by (simp add: child_def)

lemma tree_frame:
  assumes "tree_ok m ls t" "\<forall>x. page_base x \<in> tables m ls t \<longrightarrow> m' x = m x"
  shows "tree_ok m' ls t \<and> tables m' ls t = tables m ls t \<and> (\<forall>w. lookup m' ls t w = lookup m ls t w)"
  using assms
proof (induction m ls t rule: tables.induct)
  case (2 m l t)
  then have "get_entry m' t i = get_entry m t i" if "i < 512" for i
    using that by (intro get_entry_cong) auto
  with 2 show ?case by (simp add: lookup_last level_index_less)
next
  case (3 m l l' ls t)
  have ge: "get_entry m' t i = get_entry m t i" if "i < 512" for i
    using 3(2,3) that by (intro get_entry_cong) auto
  have ch: "child m' l t i = child m l t i" if "i < 512" for i
    using ge [OF that] by (rule child_cong)
  have IH: "tree_ok m' (l' # ls) c \<and> tables m' (l' # ls) c = tables m (l' # ls) c
       \<and> (\<forall>w. lookup m' (l' # ls) c w = lookup m (l' # ls) c w)" if "i < 512" "child m l t i = Some c" for i c
  proof (rule 3(1) [OF _ that(2)])
    show "i \<in> {i. i < 512}" "tree_ok m (l' # ls) c" using 3(2) that by auto
    have "tables m (l' # ls) c \<subseteq> tables m (l # l' # ls) t" using that by force
    with 3(3) show "\<forall>x. page_base x \<in> tables m (l' # ls) c \<longrightarrow> m' x = m x" by blast
  qed
  have "tables m' (l # l' # ls) t = tables m (l # l' # ls) t"
    using ch IH by (auto split: option.splits)
  moreover have "tree_ok m' (l # l' # ls) t"
    using 3(2) ch IH by simp
  moreover have "lookup m' (l # l' # ls) t w = lookup m (l # l' # ls) t w" for w
  proof (cases "child m l t (level_index l w)")
    case None
    then show ?thesis using ch ge level_index_less [of l w] by (simp add: lookup_no_child)
  next
    case (Some c)
    then show ?thesis using ch IH level_index_less [of l w] by (simp add: lookup_child)
  qed
  ultimately show ?case by blast
qed (simp add: lookup_def)

text \<open>The tables below entry \<open>i\<close> and all the others.\<close>

definition below :: "memory \<Rightarrow> level \<Rightarrow> level list \<Rightarrow> u64 \<Rightarrow> usize \<Rightarrow> u64 set" where
  "below m l ls t i = (case child m l t i of None \<Rightarrow> {} | Some c \<Rightarrow> tables m ls c)"

definition others :: "memory \<Rightarrow> level \<Rightarrow> level list \<Rightarrow> u64 \<Rightarrow> usize \<Rightarrow> u64 set" where
  "others m l ls t i = insert t (\<Union>j\<in>{j. j < 512 \<and> j \<noteq> i}. below m l ls t j)"

lemma tables_split:
  assumes "i < 512"
  shows "tables m (l # l' # ls) t = others m l (l' # ls) t i \<union> below m l (l' # ls) t i"
  using assms by (auto simp: others_def below_def)

lemma below_disjoint:
  assumes "tree_ok m (l # l' # ls) t" "i < 512"
  shows "others m l (l' # ls) t i \<inter> below m l (l' # ls) t i = {}"
  using assms by (fastforce simp: others_def below_def split: option.splits)

text \<open>
  Changing one entry of a table and what hangs below it: the rest of the tree is kept.
\<close>

lemma tree_change:
  assumes ok: "tree_ok m (l # l' # ls) t" and i: "i < 512"
    and entries: "\<And>j. j < 512 \<Longrightarrow> j \<noteq> i \<Longrightarrow> get_entry m' t j = get_entry m t j"
    and keep: "\<And>x. page_base x \<in> others m l (l' # ls) t i \<Longrightarrow> page_base x \<noteq> t \<Longrightarrow> m' x = m x"
    and new: "\<And>c. child m' l t i = Some c \<Longrightarrow>
        tree_ok m' (l' # ls) c \<and> tables m' (l' # ls) c \<inter> others m l (l' # ls) t i = {}"
  shows "tree_ok m' (l # l' # ls) t"
    and "tables m' (l # l' # ls) t = others m l (l' # ls) t i \<union> below m' l (l' # ls) t i"
    and "\<And>w. level_index l w \<noteq> i \<Longrightarrow> lookup m' (l # l' # ls) t w = lookup m (l # l' # ls) t w"
proof -
  let ?ls = "l # l' # ls"
  have ch: "child m' l t j = child m l t j" if "j < 512" "j \<noteq> i" for j
    using entries [OF that] by (rule child_cong)
  have fr: "tree_ok m' (l' # ls) c \<and> tables m' (l' # ls) c = tables m (l' # ls) c
       \<and> (\<forall>w. lookup m' (l' # ls) c w = lookup m (l' # ls) c w)" if "j < 512" "j \<noteq> i" "child m l t j = Some c" for j c
  proof (rule tree_frame, goal_cases)
    case 1
    show ?case using ok that by auto
  next
    case 2
    show ?case
    proof (intro allI impI)
    fix x assume x: "page_base x \<in> tables m (l' # ls) c"
    have "page_base x \<noteq> t" using ok that x by auto
    moreover have "page_base x \<in> others m l (l' # ls) t i" using x that by (force simp: others_def below_def)
    ultimately show "m' x = m x" by (intro keep)
    qed
  qed
  have b: "below m' l (l' # ls) t j = below m l (l' # ls) t j" if "j < 512" "j \<noteq> i" for j
    using ch [OF that] fr [OF that] by (simp add: below_def split: option.splits)
  have o: "others m' l (l' # ls) t i = others m l (l' # ls) t i" using b by (auto simp: others_def)
  show "tables m' ?ls t = others m l (l' # ls) t i \<union> below m' l (l' # ls) t i" using tables_split [OF i] o by simp
  show "lookup m' ?ls t w = lookup m ?ls t w" if w: "level_index l w \<noteq> i" for w
  proof (cases "child m l t (level_index l w)")
    case None
    then show ?thesis using ch entries level_index_less [of l w] w by (simp add: lookup_no_child)
  next
    case (Some c)
    then show ?thesis using ch fr level_index_less [of l w] w by (simp add: lookup_child)
  qed
  have sub: "tables m (l' # ls) c \<subseteq> others m l (l' # ls) t i" if "j < 512" "j \<noteq> i" "child m l t j = Some c" for j c
    using that by (force simp: others_def below_def)
  have t_in: "t \<in> others m l (l' # ls) t i" by (simp add: others_def)
  have one: "tree_ok m' (l' # ls) c \<and> t \<notin> tables m' (l' # ls) c" if "j < 512" "child m' l t j = Some c" for j c
  proof (cases "j = i")
    case True
    then show ?thesis using new that t_in by blast
  next
    case False
    then show ?thesis using fr [of j c] ch [of j] that ok by auto
  qed
  have two: "tables m' (l' # ls) c \<inter> tables m' (l' # ls) d = {}"
    if jk: "j < 512" "k < 512" "j \<noteq> k" "child m' l t j = Some c" "child m' l t k = Some d" for j k c d
  proof -
    consider "j = i" | "k = i" | "j \<noteq> i" "k \<noteq> i" by blast
    then show ?thesis
    proof cases
      case 1
      then have "child m l t k = Some d" using ch [of k] jk by simp
      then show ?thesis using 1 jk fr [of k d] sub [of k d] new [of c] by blast
    next
      case 2
      then have "child m l t j = Some c" using ch [of j] jk by simp
      then show ?thesis using 2 jk fr [of j c] sub [of j c] new [of d] by blast
    next
      case 3
      then show ?thesis using ch [of j] ch [of k] fr [of j c] fr [of k d] jk ok by auto
    qed
  qed
  have "table_addr t" using ok by simp
  then show "tree_ok m' ?ls t" using one two by simp
qed

section \<open>The invariant of the tables\<close>

text \<open>
  The tables form a tree of used frames of the manager, apart from its bitmap; the bitmap is not in
  a free frame either.
\<close>

definition tree_inv :: "level list \<Rightarrow> u64 \<Rightarrow> 'a pmm_machine_scheme \<Rightarrow> bool" where
  "tree_inv ls t s \<longleftrightarrow> pmm_ready s \<and> tree_ok (mem s) ls t \<and> tables (mem s) ls t \<subseteq> managed s - avail s
     \<and> (\<forall>x\<in>bitmap_area s. page_base x \<notin> tables (mem s) ls t \<union> avail s)"

definition same_rest :: "'a pmm_machine_scheme \<Rightarrow> 'a pmm_machine_scheme \<Rightarrow> bool" where
  "same_rest s s' \<longleftrightarrow> bitmap_area s' = bitmap_area s \<and> managed s' = managed s
     \<and> s' = s\<lparr>PMM_INSTANCE := PMM_INSTANCE s', mem := mem s'\<rparr>"

text \<open>All free frames are below 4 GiB and frame 0 is not free.\<close>

definition low_memory :: "'a pmm_machine_scheme \<Rightarrow> bool" where
  "low_memory s \<longleftrightarrow> (\<forall>a\<in>avail s. 0 < a \<and> a < 0x100000000)"

text \<open>
  \<open>grows ls t s s'\<close>: the tables below \<open>t\<close> are kept and new ones are taken from the free frames; only
  tables, free frames and the bitmap are written.
\<close>

definition grows :: "level list \<Rightarrow> u64 \<Rightarrow> 'a pmm_machine_scheme \<Rightarrow> 'a pmm_machine_scheme \<Rightarrow> bool" where
  "grows ls t s s' \<longleftrightarrow> tree_inv ls t s' \<and> same_rest s s' \<and> avail s' \<subseteq> avail s
     \<and> tables (mem s) ls t \<subseteq> tables (mem s') ls t
     \<and> tables (mem s') ls t \<subseteq> tables (mem s) ls t \<union> (avail s - avail s')
     \<and> (\<forall>x. x \<notin> bitmap_area s \<longrightarrow> page_base x \<notin> tables (mem s) ls t \<union> avail s \<longrightarrow> mem s' x = mem s x)
     \<and> (low_memory s \<longrightarrow> avail s - avail s' \<subseteq> tables (mem s') ls t)"

lemma same_rest_refl [simp]: "same_rest s s"
  by (simp add: same_rest_def)

lemma rest_trans:
  assumes "s'' = s'\<lparr>PMM_INSTANCE := PMM_INSTANCE s'', mem := mem s''\<rparr>"
    "s' = s\<lparr>PMM_INSTANCE := PMM_INSTANCE s', mem := mem s'\<rparr>"
  shows "s'' = s\<lparr>PMM_INSTANCE := PMM_INSTANCE s'', mem := mem s''\<rparr>"
proof -
  have "s'' = s\<lparr>PMM_INSTANCE := PMM_INSTANCE s', mem := mem s'\<rparr>\<lparr>PMM_INSTANCE := PMM_INSTANCE s'', mem := mem s''\<rparr>"
    using assms by (metis (no_types, lifting))
  then show ?thesis by simp
qed

lemma same_rest_trans: "same_rest s s' \<Longrightarrow> same_rest s' s'' \<Longrightarrow> same_rest s s''"
  unfolding same_rest_def by (metis rest_trans)

lemma same_rest_mem: "same_rest s s' \<Longrightarrow> same_rest s (s'\<lparr>mem := m\<rparr>)"
proof -
  assume a: "same_rest s s'"
  have "same_rest s' (s'\<lparr>mem := m\<rparr>)" by (simp add: same_rest_def bitmap_area_def managed_def)
  with a show ?thesis by (rule same_rest_trans)
qed

lemma pmm_only_same_rest: "pmm_only s s' \<Longrightarrow> same_rest s s'"
  by (simp add: pmm_only_def same_rest_def)

lemma low_memory_mono: "low_memory s \<Longrightarrow> avail s' \<subseteq> avail s \<Longrightarrow> low_memory s'"
  by (auto simp: low_memory_def)

lemma grows_refl: "tree_inv ls t s \<Longrightarrow> grows ls t s s"
  unfolding grows_def using same_rest_refl by blast

lemma growsD:
  assumes "grows ls t s s'"
  shows "tree_inv ls t s'" "same_rest s s'" "avail s' \<subseteq> avail s" "tables (mem s) ls t \<subseteq> tables (mem s') ls t"
    "tables (mem s') ls t \<subseteq> tables (mem s) ls t \<union> (avail s - avail s')"
    "x \<notin> bitmap_area s \<Longrightarrow> page_base x \<notin> tables (mem s) ls t \<union> avail s \<Longrightarrow> mem s' x = mem s x"
    "low_memory s \<Longrightarrow> avail s - avail s' \<subseteq> tables (mem s') ls t"
  using assms unfolding grows_def by simp_all

lemma tree_invD:
  assumes "tree_inv ls t s"
  shows "pmm_ready s" "tree_ok (mem s) ls t" "tables (mem s) ls t \<subseteq> managed s" "tables (mem s) ls t \<inter> avail s = {}"
    "x \<in> bitmap_area s \<Longrightarrow> page_base x \<notin> tables (mem s) ls t \<and> page_base x \<notin> avail s"
  using assms unfolding tree_inv_def by auto

lemma tree_invI:
  assumes "pmm_ready s" "tree_ok (mem s) ls t" "tables (mem s) ls t \<subseteq> managed s" "tables (mem s) ls t \<inter> avail s = {}"
    "\<And>x. x \<in> bitmap_area s \<Longrightarrow> page_base x \<notin> tables (mem s) ls t \<and> page_base x \<notin> avail s"
  shows "tree_inv ls t s"
  using assms unfolding tree_inv_def by auto

lemma same_restD: "same_rest s s' \<Longrightarrow> bitmap_area s' = bitmap_area s" "same_rest s s' \<Longrightarrow> managed s' = managed s"
  unfolding same_rest_def by blast+

lemma grows_trans:
  assumes a: "grows ls t s s'" and b: "grows ls t s' s''"
  shows "grows ls t s s''"
  unfolding grows_def
proof (intro conjI allI impI)
  note A = growsD [OF a] and B = growsD [OF b]
  show "tree_inv ls t s''" by (rule B(1))
  show "same_rest s s''" using A(2) B(2) by (rule same_rest_trans)
  show "avail s'' \<subseteq> avail s" using A(3) B(3) by blast
  show "tables (mem s) ls t \<subseteq> tables (mem s'') ls t" using A(4) B(4) by blast
  show "tables (mem s'') ls t \<subseteq> tables (mem s) ls t \<union> (avail s - avail s'')" using A(3,5) B(3,5) by blast
  show "mem s'' x = mem s x" if "x \<notin> bitmap_area s" "page_base x \<notin> tables (mem s) ls t \<union> avail s" for x
  proof -
    have "x \<notin> bitmap_area s'" using that(1) same_restD(1) [OF A(2)] by simp
    moreover have "page_base x \<notin> tables (mem s') ls t \<union> avail s'" using that(2) A(3,5) by blast
    ultimately have "mem s'' x = mem s' x" by (rule B(6))
    with A(6) [OF that] show ?thesis by simp
  qed
  show "avail s - avail s'' \<subseteq> tables (mem s'') ls t" if "low_memory s"
    using A(7) [OF that] B(7) [OF low_memory_mono [OF that A(3)]] B(4) by blast
qed

lemma tree_inv_child:
  assumes inv: "tree_inv (l # l' # ls) t s" and c: "i < 512" "child (mem s) l t i = Some c"
  shows "tree_inv (l' # ls) c s"
proof (rule tree_invI)
  note D = tree_invD [OF inv]
  have sub: "tables (mem s) (l' # ls) c \<subseteq> tables (mem s) (l # l' # ls) t" using c by force
  show "pmm_ready s" by (rule D(1))
  show "tree_ok (mem s) (l' # ls) c" using D(2) c by simp
  show "tables (mem s) (l' # ls) c \<subseteq> managed s" using sub D(3) by (rule subset_trans)
  show "tables (mem s) (l' # ls) c \<inter> avail s = {}" using sub D(4) by blast
  show "page_base x \<notin> tables (mem s) (l' # ls) c \<and> page_base x \<notin> avail s" if "x \<in> bitmap_area s" for x
    using sub D(5) [OF that] by blast
qed

text \<open>
  A change that stays in the tables below one entry and in free frames is a change of the whole tree
  that keeps the other tables.
\<close>

lemma tree_below:
  assumes inv: "tree_inv (l # l' # ls) t s" and i: "i < 512" and c: "child (mem s) l t i = Some c"
    and inv': "tree_inv (l' # ls) c s'" and sr: "same_rest s s'"
    and av: "avail s' \<subseteq> avail s \<union> tables (mem s) (l' # ls) c"
    and tb: "tables (mem s') (l' # ls) c \<subseteq> tables (mem s) (l' # ls) c \<union> avail s"
    and fr: "\<forall>x. x \<notin> bitmap_area s \<longrightarrow> page_base x \<notin> tables (mem s) (l' # ls) c \<union> avail s \<longrightarrow> mem s' x = mem s x"
  shows "tree_inv (l # l' # ls) t s'" and "child (mem s') l t i = Some c"
    and "tables (mem s) (l # l' # ls) t = others (mem s) l (l' # ls) t i \<union> tables (mem s) (l' # ls) c"
    and "tables (mem s') (l # l' # ls) t = others (mem s) l (l' # ls) t i \<union> tables (mem s') (l' # ls) c"
    and "others (mem s) l (l' # ls) t i \<inter> (tables (mem s) (l' # ls) c \<union> avail s) = {}"
    and "lookup (mem s') (l # l' # ls) t w =
      (if level_index l w = i then lookup (mem s') (l' # ls) c w else lookup (mem s) (l # l' # ls) t w)"
proof -
  let ?m = "mem s" and ?m' = "mem s'"
  define O' where "O' = others ?m l (l' # ls) t i"
  define C where "C = tables ?m (l' # ls) c"
  define C' where "C' = tables ?m' (l' # ls) c"
  note D = tree_invD [OF inv] and E = tree_invD [OF inv']
  have sp: "tables ?m (l # l' # ls) t = O' \<union> C" using tables_split [OF i] by (simp add: below_def c O'_def C_def)
  have dj: "O' \<inter> C = {}" using below_disjoint [OF D(2) i] by (simp add: below_def c O'_def C_def)
  have Oa: "O' \<inter> avail s = {}" using D(4) sp by blast
  have Ob: "page_base x \<notin> O'" if "x \<in> bitmap_area s" for x using D(5) [OF that] sp by blast
  have keep: "?m' x = ?m x" if "page_base x \<in> O'" for x
    using that Oa Ob dj fr by (auto simp: C_def)
  have ta: "table_addr t" using D(2) by (rule tree_ok_addr)
  have "t \<in> O'" by (simp add: O'_def others_def)
  then have ge: "get_entry ?m' t j = get_entry ?m t j" if "j < 512" for j
    using keep by (intro get_entry_cong [OF ta that]) auto
  show ch: "child ?m' l t i = Some c" using child_cong [OF ge [OF i]] c by simp
  have new: "tree_ok ?m' (l' # ls) c \<and> tables ?m' (l' # ls) c \<inter> O' = {}"
    using E(2) tb Oa dj by (auto simp: C_def)
  have chg: "tree_ok ?m' (l # l' # ls) t"
    "tables ?m' (l # l' # ls) t = O' \<union> below ?m' l (l' # ls) t i"
    "\<And>w. level_index l w \<noteq> i \<Longrightarrow> lookup ?m' (l # l' # ls) t w = lookup ?m (l # l' # ls) t w"
    unfolding O'_def by (rule tree_change [OF D(2) i]; use ge keep new ch in \<open>auto simp: O'_def\<close>)+
  have sp': "tables ?m' (l # l' # ls) t = O' \<union> C'" using chg(2) ch by (simp add: below_def C'_def)
  show "tables ?m (l # l' # ls) t = others ?m l (l' # ls) t i \<union> tables ?m (l' # ls) c"
    "tables ?m' (l # l' # ls) t = others ?m l (l' # ls) t i \<union> tables ?m' (l' # ls) c"
    "others ?m l (l' # ls) t i \<inter> (tables ?m (l' # ls) c \<union> avail s) = {}"
    using sp sp' dj Oa unfolding O'_def C_def C'_def by blast+
  show "lookup ?m' (l # l' # ls) t w =
      (if level_index l w = i then lookup ?m' (l' # ls) c w else lookup ?m (l # l' # ls) t w)" for w
    using chg(3) lookup_child [of ?m' l t w c] ch by auto
  show "tree_inv (l # l' # ls) t s'"
  proof (rule tree_invI)
    show "tables ?m' (l # l' # ls) t \<subseteq> managed s'"
      using E(3) D(3) same_restD(2) [OF sr] unfolding sp sp' C'_def by simp
    show "tables ?m' (l # l' # ls) t \<inter> avail s' = {}" using E(4) Oa dj av unfolding sp' C_def C'_def by blast
    show "page_base x \<notin> tables ?m' (l # l' # ls) t \<and> page_base x \<notin> avail s'" if "x \<in> bitmap_area s'" for x
      using E(5) [OF that] Ob that same_restD(1) [OF sr] unfolding sp' C'_def by simp
  qed (use chg(1) E(1) in simp_all)
qed

lemma grows_below:
  assumes inv: "tree_inv (l # l' # ls) t s" and i: "i < 512" and c: "child (mem s) l t i = Some c"
    and g: "grows (l' # ls) c s s'"
  shows "grows (l # l' # ls) t s s'" and "child (mem s') l t i = Some c"
    and "lookup (mem s') (l # l' # ls) t w =
      (if level_index l w = i then lookup (mem s') (l' # ls) c w else lookup (mem s) (l # l' # ls) t w)"
proof -
  note G = growsD [OF g]
  have 1: "avail s' \<subseteq> avail s \<union> tables (mem s) (l' # ls) c" using G(3) by blast
  have 2: "tables (mem s') (l' # ls) c \<subseteq> tables (mem s) (l' # ls) c \<union> avail s" using G(5) by blast
  have 3: "\<forall>x. x \<notin> bitmap_area s \<longrightarrow> page_base x \<notin> tables (mem s) (l' # ls) c \<union> avail s \<longrightarrow> mem s' x = mem s x"
    using G(6) by blast
  note B = tree_below [OF inv i c G(1,2) 1 2 3]
  show "grows (l # l' # ls) t s s'"
    unfolding grows_def B(3,4)
  proof (intro conjI allI impI)
    show "tree_inv (l # l' # ls) t s'" "same_rest s s'" "avail s' \<subseteq> avail s" by (rule B(1) G(2,3))+
    show "avail s - avail s' \<subseteq> others (mem s) l (l' # ls) t i \<union> tables (mem s') (l' # ls) c" if "low_memory s"
      using G(7) [OF that] by blast
  qed (use G(4,5,6) in auto)
  show "child (mem s') l t i = Some c" "lookup (mem s') (l # l' # ls) t w =
      (if level_index l w = i then lookup (mem s') (l' # ls) c w else lookup (mem s) (l # l' # ls) t w)"
    by (rule B)+
qed

section \<open>Allocating tables\<close>

lemma avail_frame:
  assumes "pmm_ready s" "a \<in> avail s"
  shows "page_base a = a" "a \<in> managed s"
proof -
  obtain p where p: "PMM_INSTANCE s = Some p" "pmm_inv p (mem s)" using assms(1) by (auto simp: pmm_ready_def)
  have a: "a \<in> frame_addrs (free_set p (mem s))" using assms(2) by (simp add: avail_def p)
  then have "a mod PAGE_SIZE = 0" using frame_addrs_iff [OF p(2) free_set_managed] by blast
  then show "page_base a = a" by (simp add: page_base_iff_dvd PAGE_SIZE_def)
  show "a \<in> managed s" using a free_set_managed by (force simp: managed_def p frame_addrs_def)
qed

lemma mem_update_ready:
  assumes "pmm_ready s" "\<forall>x\<in>bitmap_area s. m' x = mem s x"
  shows "pmm_ready (s\<lparr>mem := m'\<rparr>)" "avail (s\<lparr>mem := m'\<rparr>) = avail s"
    "bitmap_area (s\<lparr>mem := m'\<rparr>) = bitmap_area s" "managed (s\<lparr>mem := m'\<rparr>) = managed s"
proof -
  obtain p where p: "PMM_INSTANCE s = Some p" "pmm_inv p (mem s)" using assms(1) by (auto simp: pmm_ready_def)
  have b: "\<forall>x\<in>bitmap_bytes (bitmap p) (total_frames p). m' x = mem s x"
    using assms(2) by (simp add: bitmap_area_def p)
  show "pmm_ready (s\<lparr>mem := m'\<rparr>)" using bitmap_unchanged [OF b p(2)] p(1) by (simp add: pmm_ready_def)
  have "bm_test m' (bitmap p) f \<longleftrightarrow> bm_test (mem s) (bitmap p) f" if "f < total_frames p" for f
    using b that by (auto simp: bm_test_def bitmap_bytes_def)
  then have "free_set p m' = free_set p (mem s)" by (auto simp: free_set_def)
  then show "avail (s\<lparr>mem := m'\<rparr>) = avail s" by (simp add: avail_def p)
qed (simp_all add: bitmap_area_def managed_def)

lemma takesD:
  assumes "takes s a s'"
  shows "pmm_ready s'" "same_rest s s'" "avail s' \<subseteq> avail s" "x \<notin> bitmap_area s \<Longrightarrow> mem s' x = mem s x"
    "a \<noteq> 0 \<Longrightarrow> a \<in> avail s" "a \<noteq> 0 \<Longrightarrow> avail s' = avail s - {a}"
  using assms by (auto simp: takes_def pmm_only_same_rest) (auto simp: pmm_only_def agree_off_def split: if_splits)

text \<open>The two attempts of \<^verbatim>\<open>alloc_page_table\<close> together.\<close>

lemma alloc_table_frame:
  assumes r: "pmm_ready s" and a1: "pmm_alloc_dma32_frame s = (a, s1)"
    and a2: "(if a = 0 then pmm_alloc_frame s1 else (a, s1)) = (b, s2)"
  shows "pmm_ready s2" "same_rest s s2" "x \<notin> bitmap_area s \<Longrightarrow> mem s2 x = mem s x" "avail s2 \<subseteq> avail s"
    "b \<noteq> 0 \<Longrightarrow> b \<in> avail s \<and> b \<notin> avail s2"
    "0 \<notin> avail s \<Longrightarrow> if b = 0 then avail s = {} else avail s2 = avail s - {b}"
proof -
  note t1 = pmm_alloc_dma32_takes [OF r a1]
  note T1 = takesD [OF t1(1)]
  have "pmm_ready s2 \<and> same_rest s s2 \<and> (\<forall>x. x \<notin> bitmap_area s \<longrightarrow> mem s2 x = mem s x) \<and> avail s2 \<subseteq> avail s
    \<and> (b \<noteq> 0 \<longrightarrow> b \<in> avail s \<and> b \<notin> avail s2) \<and> (0 \<notin> avail s \<longrightarrow> (if b = 0 then avail s = {} else avail s2 = avail s - {b}))"
  proof (cases "a = 0")
    case True
    then have f: "pmm_alloc_frame s1 = (b, s2)" using a2 by simp
    note t2 = pmm_alloc_frame_takes [OF T1(1) f]
    note T2 = takesD [OF t2(1)]
    have "avail s2 \<subseteq> avail s" using T1(3) T2(3) by blast
    moreover have "b \<in> avail s \<and> b \<notin> avail s2" if "b \<noteq> 0" using T1(3) T2(5,6) [OF that] by blast
    moreover have "mem s2 x = mem s x" if "x \<notin> bitmap_area s" for x
      using T1(4) [OF that] T2(4) that same_restD(1) [OF T1(2)] by simp
    moreover have "if b = 0 then avail s = {} else avail s2 = avail s - {b}" if z: "0 \<notin> avail s"
      using t1(2) [OF z True] t2(2) z T2(6) by auto
    moreover note T2(1) same_rest_trans [OF T1(2) T2(2)]
    ultimately show ?thesis by simp
  next
    case False
    then have "b = a" "s2 = s1" using a2 by auto
    with False T1 show ?thesis by auto
  qed
  then show "pmm_ready s2" "same_rest s s2" "x \<notin> bitmap_area s \<Longrightarrow> mem s2 x = mem s x" "avail s2 \<subseteq> avail s"
    "b \<noteq> 0 \<Longrightarrow> b \<in> avail s \<and> b \<notin> avail s2"
    "0 \<notin> avail s \<Longrightarrow> if b = 0 then avail s = {} else avail s2 = avail s - {b}" by auto
qed

lemma alloc_page_table_Ok:
  assumes r: "pmm_ready s" and bm: "\<forall>x\<in>bitmap_area s. page_base x \<notin> avail s"
    and a: "alloc_page_table s = (Ok a, s')"
  shows "table_addr a" "a \<in> avail s" "avail s' \<subseteq> avail s - {a}" "pmm_ready s'" "same_rest s s'"
    "x \<notin> bitmap_area s \<Longrightarrow> page_base x \<noteq> a \<Longrightarrow> mem s' x = mem s x"
    "i < 512 \<Longrightarrow> get_entry (mem s') a i = 0"
    "low_memory s \<Longrightarrow> avail s' = avail s - {a}"
proof -
  obtain a1 s1 b s2 where d: "pmm_alloc_dma32_frame s = (a1, s1)" and e: "(if a1 = 0 then pmm_alloc_frame s1 else (a1, s1)) = (b, s2)"
    by (metis surj_pair)
  have b: "b = a" "a \<noteq> 0" "a < 0x100000000" and s': "s' = s2\<lparr>mem := write_bytes (mem s2) a 0 4096\<rparr>"
    using a d e by (auto simp: alloc_page_table_def phys_to_virt_def Let_def not_le split: if_splits)
  note T = alloc_table_frame [OF r d e, unfolded b(1)]
  show av: "a \<in> avail s" using T(5) b(2) by blast
  show ta: "table_addr a" using avail_frame(1) [OF r av] b(3) by (simp add: table_addr_def)
  have outside: "write_bytes (mem s2) a 0 4096 x = mem s2 x" if "page_base x \<noteq> a" for x
    using that in_page_iff [of a x] ta by (simp add: write_bytes_def table_addr_def)
  have B: "bitmap_area s2 = bitmap_area s" using same_restD(1) [OF T(2)] .
  have "write_bytes (mem s2) a 0 4096 x = mem s2 x" if "x \<in> bitmap_area s2" for x
    using bm that av B by (intro outside) auto
  then have keep: "\<forall>x\<in>bitmap_area s2. write_bytes (mem s2) a 0 4096 x = mem s2 x" by blast
  note U = mem_update_ready [OF T(1) keep]
  show "pmm_ready s'" unfolding s' by (rule U(1))
  show "same_rest s s'" unfolding s' by (rule same_rest_mem [OF T(2)])
  have av': "avail s' = avail s2" unfolding s' by (rule U(2))
  show "avail s' \<subseteq> avail s - {a}" using T(4,5) b(2) by (auto simp: av')
  show "mem s' x = mem s x" if "x \<notin> bitmap_area s" "page_base x \<noteq> a" for x
    using that T(3) outside by (simp add: s')
  show "get_entry (mem s') a i = 0" if "i < 512" for i using ta that by (simp add: s' get_entry_zeroed)
  show "avail s' = avail s - {a}" if low: "low_memory s"
    using T(6) b(2) low by (auto simp: low_memory_def av')
qed

lemma alloc_page_table_Err:
  assumes r: "pmm_ready s" and a: "alloc_page_table s = (Err e, s')"
  shows "avail s' \<subseteq> avail s" "pmm_ready s'" "same_rest s s'" "x \<notin> bitmap_area s \<Longrightarrow> mem s' x = mem s x"
    "low_memory s \<Longrightarrow> avail s = {}"
proof -
  obtain a1 s1 b s2 where d: "pmm_alloc_dma32_frame s = (a1, s1)" and e: "(if a1 = 0 then pmm_alloc_frame s1 else (a1, s1)) = (b, s2)"
    by (metis surj_pair)
  have b: "b = 0 \<or> b \<ge> 0x100000000" and s': "s' = s2"
    using a d e by (auto simp: alloc_page_table_def phys_to_virt_def Let_def not_le split: if_splits)
  note T = alloc_table_frame [OF r d e]
  show "avail s' \<subseteq> avail s" "pmm_ready s'" "same_rest s s'" unfolding s' by (rule T)+
  show "mem s' x = mem s x" if "x \<notin> bitmap_area s" for x unfolding s' using that by (rule T(3))
  show "avail s = {}" if low: "low_memory s"
  proof -
    have "0 \<notin> avail s" using low by (auto simp: low_memory_def)
    moreover have "b = 0" using b low T(5) unfolding low_memory_def by force
    ultimately show ?thesis using T(6) by simp
  qed
qed

lemma tree_empty:
  assumes "table_addr a" "\<And>i. i < 512 \<Longrightarrow> get_entry m a i = 0"
  shows "tree_ok m (l # ls) a" "tables m (l # ls) a = {a}" "lookup m (l # ls) a w = None"
proof -
  have np: "\<not> pte_is_present 0" by (simp add: pte_is_present_iff)
  have ch: "child m l a i = None" if "i < 512" for i using assms(2) [OF that] np by (simp add: child_def)
  show "tree_ok m (l # ls) a" "tables m (l # ls) a = {a}" using assms(1) ch by (cases ls; simp)+
  show "lookup m (l # ls) a w = None"
    using ch [OF level_index_less] assms(2) [OF level_index_less] np
    by (cases ls) (simp_all add: lookup_last lookup_no_child)
qed

section \<open>Mapping\<close>

definition in_huge_page :: "memory \<Rightarrow> level list \<Rightarrow> u64 \<Rightarrow> VirtAddr \<Rightarrow> bool" where
  "in_huge_page m ls t v \<longleftrightarrow> (case lookup m ls t v of Some (e, msk) \<Rightarrow> msk \<noteq> 0xFFF | None \<Rightarrow> False)"

definition same_path :: "level list \<Rightarrow> VirtAddr \<Rightarrow> VirtAddr \<Rightarrow> bool" where
  "same_path ls v w \<longleftrightarrow> (\<forall>l\<in>set ls. level_index l w = level_index l v)"

lemma huge_mask_neq: "huge_mask l = Some msk \<Longrightarrow> msk \<noteq> 0xFFF"
  by (cases l) auto

lemma plain_child:
  assumes "\<not> in_huge_page m (l # l' # ls) t v" "pte_is_present (get_entry m t (level_index l v))"
  shows "child m l t (level_index l v) = Some (pte_address (get_entry m t (level_index l v)))"
proof (rule ccontr)
  assume "\<not> ?thesis"
  then have h: "child m l t (level_index l v) = None" "huge_mask l \<noteq> None"
    using assms(2) by (auto simp: child_def Let_def split: if_splits)
  then show False
    using assms lookup_no_child [OF h(1), of l' ls] huge_mask_neq [of l] by (auto simp: in_huge_page_def)
qed

lemma in_huge_page_child:
  "child m l t (level_index l v) = Some c \<Longrightarrow> in_huge_page m (l # l' # ls) t v \<longleftrightarrow> in_huge_page m (l' # ls) c v"
  by (simp add: in_huge_page_def lookup_child)

text \<open>The flags of an entry that refers to a new table: present and writable, not huge.\<close>

lemma table_entry:
  assumes a: "table_addr a"
    and e: "e = pte_make a (if u then ptf_set (ptf_set (ptf_set 0 PRESENT) WRITABLE) USER else ptf_set (ptf_set 0 PRESENT) WRITABLE)"
  shows "pte_is_present e" "\<not> pte_is_huge e" "pte_address e = a"
proof -
  define f :: u64 where "f = (if u then 7 else 3)"
  have e: "e = pte_make a f" by (simp add: e f_def ptf_set_def PRESENT_def WRITABLE_def USER_def)
  have "unat f < 2 ^ 3" by (simp add: f_def)
  then have f: "n < 3" if "bit f n" for n using bit_small_u64 that by blast
  have "bit f 0" by (simp add: f_def)
  then show "pte_is_present e" by (simp add: e pte_is_present_iff bit_pte_make)
  show "\<not> pte_is_huge e" using f [of 7] by (auto simp: e pte_is_huge_iff bit_pte_make)
  have "f AND ADDRESS_MASK = 0" by (rule bit_eqI) (use f in \<open>force simp: bit_simps bit_ADDRESS_MASK\<close>)
  then show "pte_address e = a" unfolding e using table_addr_masked [OF a] by (intro pte_make_address)
qed

lemma link_table:
  assumes inv: "tree_inv (l # l' # ls) t s" and i: "i < 512"
    and absent: "\<not> pte_is_present (get_entry (mem s) t i)"
    and a: "alloc_page_table s = (Ok a, s1)"
    and e: "pte_is_present e" "\<not> pte_is_huge e" "pte_address e = a"
    and s': "s' = s1\<lparr>mem := set_entry (mem s1) t i e\<rparr>"
  shows "grows (l # l' # ls) t s s'" "child (mem s') l t i = Some a"
    "lookup (mem s') (l # l' # ls) t w = lookup (mem s) (l # l' # ls) t w"
    "lookup (mem s') (l' # ls) a w = None" "avail s' = avail s1"
proof -
  let ?T = "tables (mem s) (l # l' # ls) t"
  note D = tree_invD [OF inv]
  have bm: "\<forall>x\<in>bitmap_area s. page_base x \<notin> avail s" using D(5) by blast
  note A = alloc_page_table_Ok [OF D(1) bm a]
  have ta: "table_addr t" using D(2) by (rule tree_ok_addr)
  have tT: "t \<in> ?T" by (rule root_in_tables)
  have aT: "a \<notin> ?T" using A(2) D(4) by blast
  then have ta': "t \<noteq> a" using tT by blast
  have none: "child (mem s) l t i = None" using absent by (simp add: child_def)
  have O: "others (mem s) l (l' # ls) t i = ?T" using tables_split [OF i] none by (metis below_def option.simps(4) sup_bot.right_neutral)
  have s1T: "mem s1 x = mem s x" if "page_base x \<in> ?T" for x
    using that D(5) [of x] aT by (intro A(6)) auto
  have ge1: "get_entry (mem s1) t j = get_entry (mem s) t j" if "j < 512" for j
    using s1T tT by (intro get_entry_cong [OF ta that]) auto
  have ge: "get_entry (mem s') t j = (if j = i then e else get_entry (mem s) t j)" if "j < 512" for j
    using get_set_entry [OF ta i that] ge1 [OF that] by (simp add: s')
  show ch: "child (mem s') l t i = Some a" using ge [OF i] e by (simp add: child_def)
  have out: "mem s' x = mem s1 x" if "page_base x \<noteq> t" for x
    using set_entry_outside [OF ta i that] by (simp add: s')
  have za: "get_entry (mem s') a j = 0" if "j < 512" for j
    using get_entry_cong [OF A(1) that, of "mem s'" "mem s1"] out ta' A(7) [OF that] by auto
  have new: "tree_ok (mem s') (l' # ls) a" "tables (mem s') (l' # ls) a = {a}" "lookup (mem s') (l' # ls) a w = None" for w
    using za by (intro tree_empty [OF A(1)]; simp)+
  show "lookup (mem s') (l' # ls) a w = None" by (rule new(3))
  have chg: "tree_ok (mem s') (l # l' # ls) t"
    "tables (mem s') (l # l' # ls) t = others (mem s) l (l' # ls) t i \<union> below (mem s') l (l' # ls) t i"
    "\<And>w. level_index l w \<noteq> i \<Longrightarrow> lookup (mem s') (l # l' # ls) t w = lookup (mem s) (l # l' # ls) t w"
    by (rule tree_change [OF D(2) i]; use ge out s1T ch new aT in \<open>auto simp: O simp del: tables.simps\<close>)+
  have T': "tables (mem s') (l # l' # ls) t = insert a ?T"
    using chg(2) ch new(2) by (simp add: O below_def del: tables.simps)
  show "lookup (mem s') (l # l' # ls) t w = lookup (mem s) (l # l' # ls) t w"
  proof (cases "level_index l w = i")
    case True
    then show ?thesis using none ch new(3) absent by (simp add: lookup_child lookup_no_child)
  qed (rule chg(3))
  have B: "bitmap_area s1 = bitmap_area s" "managed s1 = managed s" using same_restD [OF A(5)] by blast+
  have "set_entry (mem s1) t i e x = mem s1 x" if "x \<in> bitmap_area s1" for x
    using D(5) [of x] that B tT by (intro set_entry_outside [OF ta i]) auto
  then have keep: "\<forall>x\<in>bitmap_area s1. set_entry (mem s1) t i e x = mem s1 x" by blast
  note U = mem_update_ready [OF A(4) keep]
  have av: "avail s' = avail s1" "pmm_ready s'" "same_rest s s'"
    unfolding s' by (rule U(2)) (rule U(1), rule same_rest_mem [OF A(5)])
  show "avail s' = avail s1" by (rule av(1))
  have inv': "tree_inv (l # l' # ls) t s'"
  proof (rule tree_invI)
    show "tables (mem s') (l # l' # ls) t \<subseteq> managed s'"
      unfolding T' using D(3) avail_frame(2) [OF D(1) A(2)] same_restD(2) [OF av(3)] by simp
    show "tables (mem s') (l # l' # ls) t \<inter> avail s' = {}" unfolding T' av(1) using A(3) D(4) by blast
    show "page_base x \<notin> tables (mem s') (l # l' # ls) t \<and> page_base x \<notin> avail s'" if "x \<in> bitmap_area s'" for x
    proof -
      have "x \<in> bitmap_area s" using that same_restD(1) [OF av(3)] by simp
      then show ?thesis unfolding T' av(1) using D(5) [of x] A(2,3) by auto
    qed
  qed (use chg(1) av(2) in simp_all)
  show "grows (l # l' # ls) t s s'"
    unfolding grows_def T'
  proof (intro conjI allI impI)
    show "avail s' \<subseteq> avail s" unfolding av(1) using A(3) by blast
    show "insert a ?T \<subseteq> ?T \<union> (avail s - avail s')" unfolding av(1) using A(2,3) by blast
    show "mem s' x = mem s x" if "x \<notin> bitmap_area s" "page_base x \<notin> ?T \<union> avail s" for x
      using that out [of x] A(6) [of x] A(2) tT by auto
    show "avail s - avail s' \<subseteq> insert a ?T" if "low_memory s" unfolding av(1) A(8) [OF that] by blast
  qed (use inv' av(3) in auto)
qed

lemma failed_table:
  assumes inv: "tree_inv (l # ls) t s" and a: "alloc_page_table s = (Err e, s')"
  shows "grows (l # ls) t s s'" "lookup (mem s') (l # ls) t w = lookup (mem s) (l # ls) t w"
proof -
  let ?T = "tables (mem s) (l # ls) t"
  note D = tree_invD [OF inv] and A = alloc_page_table_Err [OF tree_invD(1) [OF inv] a]
  have keep: "\<forall>x. page_base x \<in> ?T \<longrightarrow> mem s' x = mem s x" using D(5) A(4) by blast
  note F = tree_frame [OF D(2) keep]
  show "lookup (mem s') (l # ls) t w = lookup (mem s) (l # ls) t w" using F by blast
  have T': "tables (mem s') (l # ls) t = ?T" using F by blast
  have inv': "tree_inv (l # ls) t s'"
  proof (rule tree_invI)
    show "tables (mem s') (l # ls) t \<subseteq> managed s'" using D(3) T' same_restD(2) [OF A(3)] by simp
    show "tables (mem s') (l # ls) t \<inter> avail s' = {}" unfolding T' using D(4) A(1) by blast
    show "page_base x \<notin> tables (mem s') (l # ls) t \<and> page_base x \<notin> avail s'" if "x \<in> bitmap_area s'" for x
      using D(5) [of x] that same_restD(1) [OF A(3)] A(1) unfolding T' by auto
  qed (use F A(2) in simp_all)
  show "grows (l # ls) t s s'"
    unfolding grows_def T'
  proof (intro conjI allI impI)
    show "avail s - avail s' \<subseteq> ?T" if "low_memory s" using A(5) [OF that] by blast
  qed (use inv' A(1,3,4) in auto)
qed

lemma get_or_create_grows:
  assumes inv: "tree_inv (l # l' # ls) t s" and nh: "\<not> in_huge_page (mem s) (l # l' # ls) t v"
    and r: "get_or_create_next_level t (level_index l v) flags s = (r, s')"
  shows "grows (l # l' # ls) t s s'" "lookup (mem s') (l # l' # ls) t w = lookup (mem s) (l # l' # ls) t w"
    "r = Ok c \<Longrightarrow> child (mem s') l t (level_index l v) = Some c \<and> \<not> in_huge_page (mem s') (l' # ls) c v"
    "low_memory s \<Longrightarrow> avail s \<noteq> {} \<Longrightarrow> \<exists>c. r = Ok c"
    "low_memory s \<Longrightarrow> card (avail s) \<le> Suc (card (avail s'))"
proof -
  let ?i = "level_index l v"
  have i: "?i < 512" by (rule level_index_less)
  let ?P = "\<lambda>r s'. grows (l # l' # ls) t s s' \<and> (\<forall>w. lookup (mem s') (l # l' # ls) t w = lookup (mem s) (l # l' # ls) t w)
    \<and> (\<forall>c. r = Ok c \<longrightarrow> child (mem s') l t ?i = Some c \<and> \<not> in_huge_page (mem s') (l' # ls) c v)
    \<and> (low_memory s \<longrightarrow> avail s \<noteq> {} \<longrightarrow> (\<exists>c. r = Ok c)) \<and> (low_memory s \<longrightarrow> card (avail s) \<le> Suc (card (avail s')))"
  have "?P r s'"
  proof (cases "pte_is_present (get_entry (mem s) t ?i)")
    case True
    note c = plain_child [OF nh True]
    have "r = Ok (pte_address (get_entry (mem s) t ?i))" "s' = s" using r True by (auto simp: get_or_create_next_level_def)
    then show ?thesis using grows_refl [OF inv] c nh in_huge_page_child [OF c] by simp
  next
    case absent: False
    show ?thesis
    proof (cases "fst (alloc_page_table s)")
      case (Inl e)
      then have "alloc_page_table s = (Err e, snd (alloc_page_table s))" by (metis prod.collapse)
      then obtain s1 where a: "alloc_page_table s = (Err e, s1)" by blast
      have "r = Err e" "s' = s1" using r absent by (simp_all add: get_or_create_next_level_def a)
      moreover note failed_table [OF inv a] alloc_page_table_Err(5) [OF tree_invD(1) [OF inv] a]
      ultimately show ?thesis by simp
    next
      case (Inr a)
      then obtain s1 where a: "alloc_page_table s = (Ok a, s1)" by (metis prod.collapse)
      define e where "e = pte_make a (if ptf_contains flags USER then ptf_set (ptf_set (ptf_set 0 PRESENT) WRITABLE) USER
        else ptf_set (ptf_set 0 PRESENT) WRITABLE)"
      have rs: "r = Ok a" "s' = s1\<lparr>mem := set_entry (mem s1) t ?i e\<rparr>"
        using r absent a by (auto simp: get_or_create_next_level_def Let_def e_def)
      have bm: "\<forall>x\<in>bitmap_area s. page_base x \<notin> avail s" using tree_invD(5) [OF inv] by blast
      note A = alloc_page_table_Ok [OF tree_invD(1) [OF inv] bm a]
      note L = link_table [OF inv i absent a table_entry [OF A(1) e_def] rs(2)]
      have "card (avail s) \<le> Suc (card (avail s'))" if low: "low_memory s"
        unfolding L(5) A(8) [OF low] using A(2) by (simp add: card_Diff_singleton_if)
      then show ?thesis using L rs(1) by (simp add: in_huge_page_def)
    qed
  qed
  then show "grows (l # l' # ls) t s s'" "lookup (mem s') (l # l' # ls) t w = lookup (mem s) (l # l' # ls) t w"
    "r = Ok c \<Longrightarrow> child (mem s') l t (level_index l v) = Some c \<and> \<not> in_huge_page (mem s') (l' # ls) c v"
    "low_memory s \<Longrightarrow> avail s \<noteq> {} \<Longrightarrow> \<exists>c. r = Ok c"
    "low_memory s \<Longrightarrow> card (avail s) \<le> Suc (card (avail s'))" by simp_all
qed

lemma set_leaf:
  assumes inv: "tree_inv [l] t s" and i: "i < 512" and s': "s' = s\<lparr>mem := set_entry (mem s) t i e\<rparr>"
  shows "grows [l] t s s'" "avail s' = avail s"
    "lookup (mem s') [l] t w =
       (if level_index l w = i then if pte_is_present e then Some (e, 0xFFF) else None else lookup (mem s) [l] t w)"
proof -
  note D = tree_invD [OF inv]
  have ta: "table_addr t" using D(2) by simp
  have "set_entry (mem s) t i e x = mem s x" if "x \<in> bitmap_area s" for x
    using D(5) [OF that] by (intro set_entry_outside [OF ta i]) auto
  then have keep: "\<forall>x\<in>bitmap_area s. set_entry (mem s) t i e x = mem s x" by blast
  note U = mem_update_ready [OF D(1) keep]
  show av: "avail s' = avail s" unfolding s' by (rule U(2))
  have sr: "same_rest s s'" unfolding s' by (rule same_rest_mem) simp
  have "tree_inv [l] t s'"
  proof (rule tree_invI)
    show "pmm_ready s'" unfolding s' by (rule U(1))
  qed (use D ta av same_restD [OF sr] in simp_all)
  moreover have "mem s' x = mem s x" if "page_base x \<noteq> t" for x
    using set_entry_outside [OF ta i that] by (simp add: s')
  ultimately show "grows [l] t s s'" unfolding grows_def using sr av by auto
  show "lookup (mem s') [l] t w =
       (if level_index l w = i then if pte_is_present e then Some (e, 0xFFF) else None else lookup (mem s) [l] t w)"
    using get_set_entry [OF ta i level_index_less [of l w], of "mem s" e] by (auto simp: lookup_last s')
qed

lemma map_walk_correct:
  assumes "tree_inv ls t s" "ls \<noteq> []" "\<not> in_huge_page (mem s) ls t v" "map_walk ls t v p flags s = (r, s')"
  shows "grows ls t s s' \<and> (\<forall>w. lookup (mem s') ls t w =
       (if r = Ok () \<and> same_path ls v w
        then if pte_is_present (pte_make p flags) then Some (pte_make p flags, 0xFFF) else None
        else lookup (mem s) ls t w))
    \<and> (low_memory s \<longrightarrow> length ls \<le> Suc (card (avail s)) \<longrightarrow> r = Ok ())
    \<and> (low_memory s \<longrightarrow> Suc (card (avail s)) \<le> length ls + card (avail s'))"
  using assms
proof (induction ls t v p flags s arbitrary: r s' rule: map_walk.induct)
  case (2 l t v p flags s)
  then show ?case using set_leaf [OF 2(1) level_index_less] by (auto simp: same_path_def)
next
  case (3 l l' ls t v p flags s)
  obtain r1 s1 where g: "get_or_create_next_level t (level_index l v) flags s = (r1, s1)" by fastforce
  note G = get_or_create_grows [OF 3(2,4) g]
  show ?case
  proof (cases r1)
    case (Inl e)
    then have "r = Err e" "s' = s1" using 3(5) g by auto
    then show ?thesis using G(1,2,4,5) Inl by force
  next
    case (Inr c)
    then have w: "map_walk (l' # ls) c v p flags s1 = (r, s')" using 3(5) g by simp
    have i: "level_index l v < 512" by (rule level_index_less)
    have c: "child (mem s1) l t (level_index l v) = Some c" "\<not> in_huge_page (mem s1) (l' # ls) c v" using G(3) Inr by blast+
    have inv1: "tree_inv (l # l' # ls) t s1" by (rule growsD(1) [OF G(1)])
    have invc: "tree_inv (l' # ls) c s1" by (rule tree_inv_child [OF inv1 i c(1)])
    note IH = 3(1) [OF g [symmetric] Inr invc _ c(2) w, simplified]
    note B = grows_below [OF inv1 i c(1) conjunct1 [OF IH]]
    have "r = Ok ()" if "low_memory s" "length (l # l' # ls) \<le> Suc (card (avail s))"
      using IH that low_memory_mono [OF that(1) growsD(3) [OF G(1)]] G(5) [OF that(1)] by simp
    moreover have "Suc (card (avail s)) \<le> length (l # l' # ls) + card (avail s')" if "low_memory s"
      using IH low_memory_mono [OF that growsD(3) [OF G(1)]] G(5) [OF that] by simp
    moreover have "lookup (mem s') (l # l' # ls) t w =
       (if r = Ok () \<and> same_path (l # l' # ls) v w
        then if pte_is_present (pte_make p flags) then Some (pte_make p flags, 0xFFF) else None
        else lookup (mem s) (l # l' # ls) t w)" for w
    proof (cases "level_index l w = level_index l v")
      case True
      then have "lookup (mem s') (l # l' # ls) t w = lookup (mem s') (l' # ls) c w" using B(3) by simp
      moreover have "lookup (mem s1) (l' # ls) c w = lookup (mem s) (l # l' # ls) t w"
        using G(2) [of w] lookup_child [of "mem s1" l t w c l' ls] c(1) True by simp
      ultimately show ?thesis using IH True by (auto simp: same_path_def)
    next
      case False
      then show ?thesis using B(3) G(2) by (simp add: same_path_def)
    qed
    ultimately show ?thesis using grows_trans [OF G(1) B(1)] by blast
  qed
qed simp

section \<open>Unmapping\<close>

declare tables.simps(3) [simp del] tree_ok.simps(3) [simp del]

text \<open>
  \<open>shrinks ls t s s'\<close>: some of the tables below \<open>t\<close> are given back to the manager, the others are
  kept; only tables and the bitmap are written.
\<close>

definition shrinks :: "level list \<Rightarrow> u64 \<Rightarrow> 'a pmm_machine_scheme \<Rightarrow> 'a pmm_machine_scheme \<Rightarrow> bool" where
  "shrinks ls t s s' \<longleftrightarrow> tree_inv ls t s' \<and> same_rest s s'
     \<and> tables (mem s') ls t \<subseteq> tables (mem s) ls t
     \<and> avail s' = avail s \<union> (tables (mem s) ls t - tables (mem s') ls t)
     \<and> (\<forall>x. x \<notin> bitmap_area s \<longrightarrow> page_base x \<notin> tables (mem s) ls t \<longrightarrow> mem s' x = mem s x)"

lemma shrinksD:
  assumes "shrinks ls t s s'"
  shows "tree_inv ls t s'" "same_rest s s'" "tables (mem s') ls t \<subseteq> tables (mem s) ls t"
    "avail s' = avail s \<union> (tables (mem s) ls t - tables (mem s') ls t)"
    "x \<notin> bitmap_area s \<Longrightarrow> page_base x \<notin> tables (mem s) ls t \<Longrightarrow> mem s' x = mem s x"
  using assms unfolding shrinks_def by simp_all

lemma shrinks_trans:
  assumes a: "shrinks ls t s s'" and b: "shrinks ls t s' s''"
  shows "shrinks ls t s s''"
  unfolding shrinks_def
proof (intro conjI allI impI)
  note A = shrinksD [OF a] and B = shrinksD [OF b]
  show "tree_inv ls t s''" by (rule B(1))
  show "same_rest s s''" using A(2) B(2) by (rule same_rest_trans)
  show "tables (mem s'') ls t \<subseteq> tables (mem s) ls t" using A(3) B(3) by blast
  show "avail s'' = avail s \<union> (tables (mem s) ls t - tables (mem s'') ls t)" unfolding B(4) A(4) using A(3) B(3) by blast
  show "mem s'' x = mem s x" if "x \<notin> bitmap_area s" "page_base x \<notin> tables (mem s) ls t" for x
  proof -
    have "mem s'' x = mem s' x" using that A(3) same_restD(1) [OF A(2)] by (intro B(5)) auto
    with A(5) [OF that] show ?thesis by simp
  qed
qed

lemma shrinks_below:
  assumes inv: "tree_inv (l # l' # ls) t s" and i: "i < 512" and c: "child (mem s) l t i = Some c"
    and g: "shrinks (l' # ls) c s s'"
  shows "shrinks (l # l' # ls) t s s'" and "child (mem s') l t i = Some c"
    and "lookup (mem s') (l # l' # ls) t w =
      (if level_index l w = i then lookup (mem s') (l' # ls) c w else lookup (mem s) (l # l' # ls) t w)"
proof -
  note G = shrinksD [OF g]
  have 1: "avail s' \<subseteq> avail s \<union> tables (mem s) (l' # ls) c" using G(4) by blast
  have 2: "tables (mem s') (l' # ls) c \<subseteq> tables (mem s) (l' # ls) c \<union> avail s" using G(3) by blast
  have 3: "\<forall>x. x \<notin> bitmap_area s \<longrightarrow> page_base x \<notin> tables (mem s) (l' # ls) c \<union> avail s \<longrightarrow> mem s' x = mem s x"
    using G(5) by blast
  note B = tree_below [OF inv i c G(1,2) 1 2 3]
  show "shrinks (l # l' # ls) t s s'"
    unfolding shrinks_def B(3,4)
  proof (intro conjI allI impI)
    show "tree_inv (l # l' # ls) t s'" "same_rest s s'" by (rule B(1) G(2))+
    show "avail s' = avail s \<union> (others (mem s) l (l' # ls) t i \<union> tables (mem s) (l' # ls) c
        - (others (mem s) l (l' # ls) t i \<union> tables (mem s') (l' # ls) c))" unfolding G(4) using B(5) by blast
  qed (use G(3,5) in auto)
  show "child (mem s') l t i = Some c" "lookup (mem s') (l # l' # ls) t w =
      (if level_index l w = i then lookup (mem s') (l' # ls) c w else lookup (mem s) (l # l' # ls) t w)"
    by (rule B)+
qed

text \<open>Returning a frame.\<close>

lemma free_page_table_returns:
  assumes r: "pmm_ready s" and a: "a \<in> managed s" "a \<notin> avail s"
  obtains s' where "free_page_table a s = (Ok (), s')" "pmm_ready s'" "same_rest s s'"
    "avail s' = insert a (avail s)" "\<And>x. x \<notin> bitmap_area s \<Longrightarrow> mem s' x = mem s x"
proof -
  obtain p where p: "PMM_INSTANCE s = Some p" "pmm_inv p (mem s)" using r by (auto simp: pmm_ready_def)
  have a': "a \<in> frame_addrs (managed_set p) - frame_addrs (free_set p (mem s))"
    using a by (simp add: managed_def avail_def p)
  obtain q p' m' where f: "pm_free_frame p (mem s) a = (q, p', m')" by (metis prod_cases3)
  have "\<exists>u. q = Ok u" using pm_free_frame_Err [OF p(2)] f a' by (cases q) blast+
  then have q: "q = Ok ()" by auto
  note C = pm_free_frame_contract [OF p(2) f [unfolded q]]
  have d: "a mod PAGE_SIZE = 0" "a div PAGE_SIZE < total_frames p" "a div PAGE_SIZE \<notin> free_set p (mem s)"
    using a' frame_addrs_iff [OF p(2)] free_set_managed by (auto simp: managed_set_def)
  have keep: "bitmap p' = bitmap p \<and> total_frames p' = total_frames p \<and> m' = bm_clear (mem s) (bitmap p) (a div PAGE_SIZE)"
    using pm_free_frame_Ok [OF d] f by fastforce
  then have ag: "agree_off (bitmap_bytes (bitmap p) (total_frames p)) (mem s) m'" using agree_off_bm(2) [OF d(2)] by simp
  define s' where "s' = s\<lparr>PMM_INSTANCE := Some p', mem := m'\<rparr>"
  have po: "pmm_only s s'" unfolding s'_def using p(1) C keep ag by (intro pmm_only_intro) auto
  have "free_page_table a s = (Ok (), s')"
    by (simp add: free_page_table_def free_frame_def with_pmm_def p(1) f q s'_def)
  moreover have "avail s' = insert a (avail s)" using C by (simp add: avail_def s'_def p(1))
  moreover have "mem s' x = mem s x" if "x \<notin> bitmap_area s" for x
    using ag that by (simp add: s'_def agree_off_def bitmap_area_def p(1))
  ultimately show thesis using that [of s'] po pmm_only_same_rest [OF po] unfolding pmm_only_def by blast
qed

lemma unlink_table:
  assumes inv: "tree_inv (l # l' # ls) t s" and i: "i < 512" and c: "child (mem s) l t i = Some c"
    and leaf: "tables (mem s) (l' # ls) c = {c}"
  obtains s' where "free_page_table c (s\<lparr>mem := set_entry (mem s) t i 0\<rparr>) = (Ok (), s')"
    "shrinks (l # l' # ls) t s s'" "\<And>w. lookup (mem s') (l # l' # ls) t w =
      (if level_index l w = i then None else lookup (mem s) (l # l' # ls) t w)"
proof -
  note D = tree_invD [OF inv]
  let ?T = "tables (mem s) (l # l' # ls) t" and ?s1 = "s\<lparr>mem := set_entry (mem s) t i 0\<rparr>"
  have ta: "table_addr t" using D(2) by (rule tree_ok_addr)
  have tT: "t \<in> ?T" by (rule root_in_tables)
  have sp: "?T = insert c (others (mem s) l (l' # ls) t i)"
    using tables_split [OF i, of "mem s" l l' ls t] c leaf by (simp add: below_def )
  have cO: "c \<notin> others (mem s) l (l' # ls) t i" using below_disjoint [OF D(2) i] c leaf by (simp add: below_def)
  have tc: "t \<noteq> c" using cO by (auto simp: others_def)
  have "set_entry (mem s) t i 0 x = mem s x" if "x \<in> bitmap_area s" for x
    using D(5) [OF that] tT by (intro set_entry_outside [OF ta i]) auto
  then have keep: "\<forall>x\<in>bitmap_area s. set_entry (mem s) t i 0 x = mem s x" by blast
  note U = mem_update_ready [OF D(1) keep]
  have cm: "c \<in> managed ?s1" "c \<notin> avail ?s1" using D(3,4) sp U(2,4) by auto
  obtain s' where f: "free_page_table c ?s1 = (Ok (), s')" "pmm_ready s'" "same_rest ?s1 s'"
    "avail s' = insert c (avail s)" "\<And>x. x \<notin> bitmap_area s \<Longrightarrow> mem s' x = set_entry (mem s) t i 0 x"
    using free_page_table_returns [OF U(1) cm] unfolding U(2,3) by auto
  have T: "mem s' x = set_entry (mem s) t i 0 x" if "page_base x \<in> ?T" for x using f(5) D(5) [of x] that by blast
  have np: "\<not> pte_is_present 0" by (simp add: pte_is_present_iff)
  have ge: "get_entry (mem s') t j = (if j = i then 0 else get_entry (mem s) t j)" if "j < 512" for j
    using get_set_entry [OF ta i that, of "mem s" 0] get_entry_cong [OF ta that, of "mem s'" "set_entry (mem s) t i 0"] T tT by auto
  have ch: "child (mem s') l t i = None" using ge [OF i] np by (simp add: child_def)
  have kO: "mem s' x = mem s x" if "page_base x \<in> others (mem s) l (l' # ls) t i" "page_base x \<noteq> t" for x
    using T [of x] that sp set_entry_outside [OF ta i that(2)] by simp
  have chg: "tree_ok (mem s') (l # l' # ls) t"
    "tables (mem s') (l # l' # ls) t = others (mem s) l (l' # ls) t i \<union> below (mem s') l (l' # ls) t i"
    "\<And>w. level_index l w \<noteq> i \<Longrightarrow> lookup (mem s') (l # l' # ls) t w = lookup (mem s) (l # l' # ls) t w"
    by (rule tree_change [OF D(2) i]; use ge kO ch in auto)+
  have T': "tables (mem s') (l # l' # ls) t = others (mem s) l (l' # ls) t i" using chg(2) ch by (simp add: below_def )
  have sr: "same_rest s s'" by (rule same_rest_trans [OF same_rest_mem [OF same_rest_refl] f(3)])
  have "tree_inv (l # l' # ls) t s'"
  proof (rule tree_invI)
    show "tables (mem s') (l # l' # ls) t \<subseteq> managed s'" unfolding T' same_restD(2) [OF sr] using D(3) sp by blast
    show "tables (mem s') (l # l' # ls) t \<inter> avail s' = {}" unfolding T' f(4) using D(4) sp cO by blast
    show "page_base x \<notin> tables (mem s') (l # l' # ls) t \<and> page_base x \<notin> avail s'" if "x \<in> bitmap_area s'" for x
      using D(5) [of x] that same_restD(1) [OF sr] unfolding T' f(4) sp by auto
  qed (rule f(2) chg(1))+
  then have "shrinks (l # l' # ls) t s s'"
    unfolding shrinks_def T' sp f(4)
  proof (intro conjI allI impI)
    show "mem s' x = mem s x" if "x \<notin> bitmap_area s" "page_base x \<notin> insert c (others (mem s) l (l' # ls) t i)" for x
      using f(5) [OF that(1)] set_entry_outside [OF ta i, of x "mem s" 0] that(2) by (auto simp: others_def)
  qed (use sr cO in auto)
  moreover have "lookup (mem s') (l # l' # ls) t w = (if level_index l w = i then None else lookup (mem s) (l # l' # ls) t w)" for w
    using chg(3) [of w] lookup_no_child [of "mem s'" l t w l' ls] ch ge [OF i] np by (auto simp: Let_def)
  ultimately show thesis using f(1) that by blast
qed

text \<open>
  The release of empty tables as a recursion over the levels: clear the entry of the page, then give
  back each table on the way up as long as it is empty. The answer tells whether the way up goes on.
\<close>

fun unmap_walk :: "level list \<Rightarrow> u64 \<Rightarrow> VirtAddr \<Rightarrow> 'a paging_machine_scheme \<Rightarrow>
    (string, bool) result \<times> 'a paging_machine_scheme" where
  "unmap_walk [] t v s = (Ok True, s)"
| "unmap_walk [l] t v s = (Ok True, s\<lparr>mem := set_entry (mem s) t (level_index l v) 0\<rparr>)"
| "unmap_walk (l # l' # ls) t v s =
     (let c = pte_address (get_entry (mem s) t (level_index l v))
      in case unmap_walk (l' # ls) c v s of
           (Err e, s1) \<Rightarrow> (Err e, s1)
         | (Ok up, s1) \<Rightarrow>
             if up \<and> is_page_table_empty (mem s1) c then
               (case free_page_table c (s1\<lparr>mem := set_entry (mem s1) t (level_index l v) 0\<rparr>) of
                  (Err e, s2) \<Rightarrow> (Err e, s2)
                | (Ok u, s2) \<Rightarrow> (Ok True, s2))
             else (Ok False, s1))"

lemma free_empty_tables_walk:
  assumes "unmap_path (mem s) ls t v acc = Ok (pt, path)" "ls \<noteq> []" "last ls = PT"
  shows "free_empty_tables path (s\<lparr>mem := set_entry (mem s) pt (va_pt_index v) 0\<rparr>) =
     (case unmap_walk ls t v s of
        (Err e, s') \<Rightarrow> (Err e, s')
      | (Ok up, s') \<Rightarrow> if up then free_empty_tables acc s' else (Ok (), s'))"
  using assms
proof (induction "mem s" ls t v acc arbitrary: path rule: unmap_path.induct)
  case (3 l l' ls t v acc)
  let ?c = "pte_address (get_entry (mem s) t (level_index l v))"
  have p: "unmap_path (mem s) (l' # ls) ?c v ((t, level_index l v, ?c) # acc) = Ok (pt, path)"
    using 3(2) by (auto simp: Let_def split: if_splits)
  have pr: "\<not> \<not> pte_is_present (get_entry (mem s) t (level_index l v))" using 3(2) by (auto simp: Let_def split: if_splits)
  have "last (l' # ls) = PT" using 3(4) by simp
  with 3(1) [OF refl pr p] show ?case
    by (auto simp: Let_def split: prod.splits sum.splits)
qed (auto split: if_splits)

lemma unmap_path_lookup:
  assumes "\<not> in_huge_page m ls t v" "ls \<noteq> []"
  shows "(\<exists>r. unmap_path m ls t v acc = Ok r) \<longleftrightarrow> lookup m ls t v \<noteq> None"
  using assms
proof (induction m ls t v acc rule: unmap_path.induct)
  case (3 m l l' ls t v acc)
  show ?case
  proof (cases "pte_is_present (get_entry m t (level_index l v))")
    case True
    note c = plain_child [OF 3(2) True]
    show ?thesis using 3(1) [OF refl] True c 3(2) by (simp add: lookup_child [OF c] in_huge_page_child [OF c] Let_def)
  next
    case False
    then have "child m l t (level_index l v) = None" by (simp add: child_def)
    with False show ?thesis by (simp add: lookup_no_child)
  qed
qed (auto simp: lookup_last)

lemma empty_table: "is_page_table_empty m c \<Longrightarrow> i < 512 \<Longrightarrow> get_entry m c i = 0"
  by (simp add: is_page_table_empty_def list_all_iff set_range_w PAGE_TABLE_ENTRIES_def)

lemma unmap_walk_correct:
  assumes "tree_inv ls t s" "ls \<noteq> []" "\<not> in_huge_page (mem s) ls t v" "lookup (mem s) ls t v \<noteq> None"
    "unmap_walk ls t v s = (r, s')"
  shows "(\<exists>up. r = Ok up) \<and> shrinks ls t s s'
     \<and> (\<forall>w. lookup (mem s') ls t w = (if same_path ls v w then None else lookup (mem s) ls t w))"
  using assms
proof (induction ls t v s arbitrary: r s' rule: unmap_walk.induct)
  case (2 l t v s)
  have s': "r = Ok True" "s' = s\<lparr>mem := set_entry (mem s) t (level_index l v) 0\<rparr>" using 2(5) by auto
  note S = set_leaf [OF 2(1) level_index_less s'(2)]
  note G = growsD [OF S(1)]
  have "shrinks [l] t s s'" unfolding shrinks_def using G(1,2) S(2) G(6) tree_invD(4) [OF 2(1)]
    by (auto simp: s' set_entry_outside level_index_less tree_ok_addr [OF tree_invD(2) [OF 2(1)]])
  moreover have "\<not> pte_is_present 0" by (simp add: pte_is_present_iff)
  ultimately show ?case using S(3) s' by (auto simp: same_path_def)
next
  case (3 l l' ls t v s)
  let ?i = "level_index l v"
  let ?c = "pte_address (get_entry (mem s) t ?i)"
  have i: "?i < 512" by (rule level_index_less)
  have pr: "pte_is_present (get_entry (mem s) t ?i)"
  proof (rule ccontr)
    assume "\<not> ?thesis"
    moreover then have "child (mem s) l t ?i = None" by (simp add: child_def)
    ultimately show False using 3(5) by (simp add: lookup_no_child)
  qed
  note c = plain_child [OF 3(4) pr]
  have invc: "tree_inv (l' # ls) ?c s" by (rule tree_inv_child [OF 3(2) i c])
  obtain r1 s1 where w: "unmap_walk (l' # ls) ?c v s = (r1, s1)" by fastforce
  have "\<not> in_huge_page (mem s) (l' # ls) ?c v" "lookup (mem s) (l' # ls) ?c v \<noteq> None"
    using 3(4,5) in_huge_page_child [OF c] lookup_child [OF c] by auto
  note IH = 3(1) [OF refl invc _ this w, simplified]
  obtain up where up: "r1 = Ok up" using IH by blast
  note B = shrinks_below [OF 3(2) i c conjunct1 [OF conjunct2 [OF IH]]]
  have look: "lookup (mem s1) (l # l' # ls) t w = (if same_path (l # l' # ls) v w then None else lookup (mem s) (l # l' # ls) t w)" for w
    using B(3) IH lookup_child [of "mem s" l t w ?c l' ls] c by (auto simp: same_path_def)
  show ?case
  proof (cases "up \<and> is_page_table_empty (mem s1) ?c")
    case False
    then have "r = Ok False" "s' = s1" using 3(6) w up by (auto simp: Let_def)
    then show ?thesis using B(1) look by auto
  next
    case True
    have inv1: "tree_inv (l # l' # ls) t s1" by (rule shrinksD(1) [OF B(1)])
    have ca: "table_addr ?c" using tree_invD(2) [OF invc] by (rule tree_ok_addr)
    have z: "get_entry (mem s1) ?c j = 0" if "j < 512" for j using True that empty_table by blast
    have e: "tables (mem s1) (l' # ls) ?c = {?c}" "lookup (mem s1) (l' # ls) ?c w = None" for w
      using z by (intro tree_empty [OF ca]; simp)+
    obtain s2 where s2: "free_page_table ?c (s1\<lparr>mem := set_entry (mem s1) t ?i 0\<rparr>) = (Ok (), s2)"
      "shrinks (l # l' # ls) t s1 s2" "\<And>w. lookup (mem s2) (l # l' # ls) t w =
        (if level_index l w = ?i then None else lookup (mem s1) (l # l' # ls) t w)"
      using unlink_table [OF inv1 i B(2) e(1)] by metis
    have "r = Ok True" "s' = s2" using 3(6) w up True s2(1) by (auto simp: Let_def)
    moreover have "lookup (mem s2) (l # l' # ls) t w = lookup (mem s1) (l # l' # ls) t w" for w
      using s2(3) lookup_child [of "mem s1" l t w ?c l' ls] B(2) e(2) by auto
    ultimately show ?thesis using shrinks_trans [OF B(1) s2(2)] look by auto
  qed
qed simp

end
