(* ===== verification/Paging_Correct.thy ===== *)
theory Paging_Correct
  imports Page_Tables
begin

text \<open>
  What the operations of \<^verbatim>\<open>memory/paging.rs\<close> do to the address space: the page number of an address,
  the abstraction of the tables to translations, and the correctness of mapping, unmapping,
  remapping, protection changes and ranges against it, with the frames the tables take and give
  back.
\<close>

unbundle bit_operations_syntax

section \<open>Page numbers\<close>

text \<open>The bits of an address the walk uses: 36 above the page offset, or 45 in 5-level mode.\<close>

fun page_number :: "PagingMode \<Rightarrow> VirtAddr \<Rightarrow> u64" where
  "page_number FourLevel v = take_bit 36 (drop_bit 12 v)"
| "page_number FiveLevel v = take_bit 45 (drop_bit 12 v)"

lemma bit_0x1FF: "bit (0x1FF :: u64) n \<longleftrightarrow> n < 9"
proof -
  have eq: "(0x1FF :: u64) = mask 9" by (simp add: mask_eq_exp_minus_1)
  show ?thesis unfolding eq by (auto simp: bit_simps)
qed

lemma index_eq_iff:
  "(drop_bit k w AND 0x1FF = (drop_bit k v AND 0x1FF :: u64)) \<longleftrightarrow> (\<forall>n. k \<le> n \<and> n < k + 9 \<longrightarrow> bit w n = bit v n)"
proof
  assume a: "drop_bit k w AND 0x1FF = (drop_bit k v AND 0x1FF :: u64)"
  show "\<forall>n. k \<le> n \<and> n < k + 9 \<longrightarrow> bit w n = bit v n"
  proof (intro allI impI)
    fix n assume n: "k \<le> n \<and> n < k + 9"
    have "bit (drop_bit k w AND 0x1FF) (n - k) = bit (drop_bit k v AND 0x1FF :: u64) (n - k)" using a by simp
    then show "bit w n = bit v n" using n unfolding bit_and_iff bit_drop_bit_eq bit_0x1FF by auto
  qed
next
  assume "\<forall>n. k \<le> n \<and> n < k + 9 \<longrightarrow> bit w n = bit v n"
  then show "drop_bit k w AND 0x1FF = (drop_bit k v AND 0x1FF :: u64)"
    by (intro bit_eqI) (unfold bit_and_iff bit_drop_bit_eq bit_0x1FF, auto)
qed

lemma page_number_eq_iff:
  "page_number FourLevel w = page_number FourLevel v \<longleftrightarrow> (\<forall>n. 12 \<le> n \<and> n < 48 \<longrightarrow> bit w n = bit v n)"
  "page_number FiveLevel w = page_number FiveLevel v \<longleftrightarrow> (\<forall>n. 12 \<le> n \<and> n < 57 \<longrightarrow> bit w n = bit v n)"
proof -
  have "take_bit k (drop_bit 12 w) = (take_bit k (drop_bit 12 v) :: u64) \<longleftrightarrow> (\<forall>n. 12 \<le> n \<and> n < k + 12 \<longrightarrow> bit w n = bit v n)" for k
  proof
    assume a: "take_bit k (drop_bit 12 w) = (take_bit k (drop_bit 12 v) :: u64)"
    show "\<forall>n. 12 \<le> n \<and> n < k + 12 \<longrightarrow> bit w n = bit v n"
    proof (intro allI impI)
      fix n assume n: "12 \<le> n \<and> n < k + 12"
      have "bit (take_bit k (drop_bit 12 w)) (n - 12) = bit (take_bit k (drop_bit 12 v) :: u64) (n - 12)" using a by simp
      with n show "bit w n = bit v n" by (auto simp: bit_simps)
    qed
  next
    assume "\<forall>n. 12 \<le> n \<and> n < k + 12 \<longrightarrow> bit w n = bit v n"
    then show "take_bit k (drop_bit 12 w) = (take_bit k (drop_bit 12 v) :: u64)"
      by (intro bit_eqI) (auto simp: bit_simps)
  qed
  from this [of 36] this [of 45] show
    "page_number FourLevel w = page_number FourLevel v \<longleftrightarrow> (\<forall>n. 12 \<le> n \<and> n < 48 \<longrightarrow> bit w n = bit v n)"
    "page_number FiveLevel w = page_number FiveLevel v \<longleftrightarrow> (\<forall>n. 12 \<le> n \<and> n < 57 \<longrightarrow> bit w n = bit v n)" by simp_all
qed

lemma ranges_9: "(\<forall>n. a \<le> n \<and> n < b \<longrightarrow> P n) \<and> (\<forall>n. b \<le> n \<and> n < (c :: nat) \<longrightarrow> P n) \<longleftrightarrow> (\<forall>n. a \<le> n \<and> n < c \<longrightarrow> P n)"
  if "a \<le> b" "b \<le> c"
  using that by (meson le_trans less_le_trans linorder_not_le)

lemma same_path_iff: "same_path (mode_levels mode) v w \<longleftrightarrow> page_number mode w = page_number mode v"
proof (cases mode)
  case FourLevel
  have "same_path (mode_levels mode) v w \<longleftrightarrow>
      (((\<forall>n. 12 \<le> n \<and> n < 21 \<longrightarrow> bit w n = bit v n) \<and> (\<forall>n. 21 \<le> n \<and> n < 30 \<longrightarrow> bit w n = bit v n))
      \<and> (\<forall>n. 30 \<le> n \<and> n < 39 \<longrightarrow> bit w n = bit v n)) \<and> (\<forall>n. 39 \<le> n \<and> n < 48 \<longrightarrow> bit w n = bit v n)"
    by (auto simp: same_path_def FourLevel va_pml4_index_def va_pdpt_index_def va_pd_index_def va_pt_index_def index_eq_iff)
  also have "\<dots> \<longleftrightarrow> (\<forall>n. 12 \<le> n \<and> n < 48 \<longrightarrow> bit w n = bit v n)" by (simp add: ranges_9)
  finally show ?thesis by (simp only: FourLevel page_number_eq_iff)
next
  case FiveLevel
  have "same_path (mode_levels mode) v w \<longleftrightarrow>
      ((((\<forall>n. 12 \<le> n \<and> n < 21 \<longrightarrow> bit w n = bit v n) \<and> (\<forall>n. 21 \<le> n \<and> n < 30 \<longrightarrow> bit w n = bit v n))
      \<and> (\<forall>n. 30 \<le> n \<and> n < 39 \<longrightarrow> bit w n = bit v n)) \<and> (\<forall>n. 39 \<le> n \<and> n < 48 \<longrightarrow> bit w n = bit v n))
      \<and> (\<forall>n. 48 \<le> n \<and> n < 57 \<longrightarrow> bit w n = bit v n)"
    by (auto simp: same_path_def FiveLevel va_pml5_index_def va_pml4_index_def va_pdpt_index_def va_pd_index_def va_pt_index_def index_eq_iff)
  also have "\<dots> \<longleftrightarrow> (\<forall>n. 12 \<le> n \<and> n < 57 \<longrightarrow> bit w n = bit v n)" by (simp add: ranges_9)
  finally show ?thesis by (simp only: FiveLevel page_number_eq_iff)
qed

section \<open>The address space\<close>

text \<open>
  What the code promises its callers, read off the state: which pages are mapped, in which mode,
  and which frames hold tables.
\<close>

definition as_mode :: "'a paging_machine_scheme \<Rightarrow> PagingMode" where
  "as_mode s = (case PAGING_MANAGER s of Some mgr \<Rightarrow> pg_mode mgr | None \<Rightarrow> FourLevel)"

definition as_root :: "'a paging_machine_scheme \<Rightarrow> u64" where
  "as_root s = (case PAGING_MANAGER s of Some mgr \<Rightarrow> root_table_phys mgr | None \<Rightarrow> 0)"

definition canonical :: "'a paging_machine_scheme \<Rightarrow> VirtAddr \<Rightarrow> bool" where
  "canonical s v \<longleftrightarrow> check_canonical (as_mode s) v = Ok ()"

definition same_page :: "'a paging_machine_scheme \<Rightarrow> VirtAddr \<Rightarrow> VirtAddr \<Rightarrow> bool" where
  "same_page s v w \<longleftrightarrow> page_number (as_mode s) w = page_number (as_mode s) v"

definition as_lookup :: "'a paging_machine_scheme \<Rightarrow> VirtAddr \<Rightarrow> (PageTableEntry \<times> u64) option" where
  "as_lookup s w = lookup (mem s) (mode_levels (as_mode s)) (as_root s) w"

definition page_tables :: "'a paging_machine_scheme \<Rightarrow> u64 set" where
  "page_tables s = tables (mem s) (mode_levels (as_mode s)) (as_root s)"

definition huge_mapped :: "'a paging_machine_scheme \<Rightarrow> VirtAddr \<Rightarrow> bool" where
  "huge_mapped s v \<longleftrightarrow> in_huge_page (mem s) (mode_levels (as_mode s)) (as_root s) v"

definition paging_ready :: "'a paging_machine_scheme \<Rightarrow> bool" where
  "paging_ready s \<longleftrightarrow> PAGING_MANAGER s \<noteq> None \<and> tree_inv (mode_levels (as_mode s)) (as_root s) s"

definition translation :: "'a paging_machine_scheme \<Rightarrow> VirtAddr \<Rightarrow> PhysAddr option" where
  "translation s w = (case translate_address w s of Ok p \<Rightarrow> Some p | Err e \<Rightarrow> None)"

fun phys_of :: "VirtAddr \<Rightarrow> PageTableEntry \<times> u64 \<Rightarrow> PhysAddr" where
  "phys_of w (e, msk) = (if msk = 0xFFF then pte_address e OR va_page_offset w else (pte_address e AND NOT msk) OR (w AND msk))"

lemma translation_lookup:
  "PAGING_MANAGER s \<noteq> None \<Longrightarrow> translation s w = (if canonical s w then map_option (phys_of w) (as_lookup s w) else None)"
  by (auto simp: translation_def translate_address_def canonical_def as_mode_def as_root_def as_lookup_def lookup_def
      split: option.splits sum.splits)

lemma huge_mapped_lookup: "huge_mapped s v \<longleftrightarrow> (\<exists>e msk. as_lookup s v = Some (e, msk) \<and> msk \<noteq> 0xFFF)"
  by (auto simp: huge_mapped_def in_huge_page_def as_lookup_def split: option.splits)

lemma mode_levels_ne: "mode_levels md \<noteq> []" "last (mode_levels md) = PT"
  by (cases md; simp)+

lemma length_mode_levels: "length (mode_levels md) \<le> 5"
  by (cases md) simp_all

text \<open>The parts of the state a change of the tables keeps.\<close>

lemma same_rest_as:
  assumes "same_rest s s'"
  shows "PAGING_MANAGER s' = PAGING_MANAGER s" "cr3 s' = cr3 s" "tlb_log s' = tlb_log s" "as_mode s' = as_mode s"
    "as_root s' = as_root s" "canonical s' = canonical s" "same_page s' = same_page s"
proof -
  have s': "s' = s\<lparr>PMM_INSTANCE := PMM_INSTANCE s', mem := mem s'\<rparr>" using assms by (simp add: same_rest_def)
  show p: "PAGING_MANAGER s' = PAGING_MANAGER s" "cr3 s' = cr3 s" "tlb_log s' = tlb_log s"
    by (subst s', simp)+
  then show "as_mode s' = as_mode s" "as_root s' = as_root s" "canonical s' = canonical s" "same_page s' = same_page s"
    by (auto simp: as_mode_def as_root_def canonical_def same_page_def fun_eq_iff)
qed

lemma invlpg_simps [simp]:
  "PAGING_MANAGER (invlpg v s) = PAGING_MANAGER s" "mem (invlpg v s) = mem s" "tlb_log (invlpg v s) = Invlpg v # tlb_log s"
  "PMM_INSTANCE (invlpg v s) = PMM_INSTANCE s" "avail (invlpg v s) = avail s" "managed (invlpg v s) = managed s"
  "bitmap_area (invlpg v s) = bitmap_area s" "pmm_ready (invlpg v s) = pmm_ready s" "low_memory (invlpg v s) = low_memory s"
  by (simp_all add: invlpg_def avail_def managed_def bitmap_area_def pmm_ready_def low_memory_def cong: option.case_cong)

lemma invlpg_as [simp]:
  "as_mode (invlpg v s) = as_mode s" "as_root (invlpg v s) = as_root s" "canonical (invlpg v s) = canonical s"
  "same_page (invlpg v s) = same_page s" "as_lookup (invlpg v s) = as_lookup s" "page_tables (invlpg v s) = page_tables s"
  "tree_inv ls t (invlpg v s) = tree_inv ls t s" "paging_ready (invlpg v s) = paging_ready s"
  by (auto simp: as_mode_def as_root_def canonical_def same_page_def as_lookup_def page_tables_def tree_inv_def paging_ready_def fun_eq_iff)

lemma invlpg_translation [simp]: "translation (invlpg v s) = translation s"
  by (simp add: translation_def translate_address_def fun_eq_iff cong: option.case_cong sum.case_cong)

section \<open>Mapping one page\<close>

text \<open>The entry of a mapping: absent when the flags lack the present bit.\<close>

definition leaf :: "PhysAddr \<Rightarrow> PageTableFlags \<Rightarrow> (PageTableEntry \<times> u64) option" where
  "leaf p flags = (if pte_is_present (pte_make p flags) then Some (pte_make p flags, 0xFFF) else None)"

lemma paging_readyD: "paging_ready s \<Longrightarrow> tree_inv (mode_levels (as_mode s)) (as_root s) s" "paging_ready s \<Longrightarrow> PAGING_MANAGER s \<noteq> None"
  by (simp_all add: paging_ready_def)

lemma grows_ready:
  assumes "paging_ready s" "grows (mode_levels (as_mode s)) (as_root s) s s'"
  shows "paging_ready s'"
  using assms same_rest_as [OF growsD(2) [OF assms(2)]] growsD(1) [OF assms(2)] by (simp add: paging_ready_def)

lemma map_page_effect:
  assumes rd: "paging_ready s" and nh: "\<not> huge_mapped s v" and r: "map_page v p flags s = (r, s')"
  obtains s1 where "grows (mode_levels (as_mode s)) (as_root s) s s1" "s' = (if r = Ok () then invlpg v s1 else s1)"
    "\<And>w. as_lookup s1 w = (if r = Ok () \<and> same_page s v w then leaf p flags else as_lookup s w)"
    "r = Ok () \<Longrightarrow> pa_is_aligned p \<and> canonical s v"
    "pa_is_aligned p \<Longrightarrow> canonical s v \<Longrightarrow> low_memory s \<Longrightarrow>
       length (mode_levels (as_mode s)) \<le> Suc (card (avail s)) \<Longrightarrow> r = Ok ()"
    "low_memory s \<Longrightarrow> Suc (card (avail s)) \<le> length (mode_levels (as_mode s)) + card (avail s1)"
proof -
  let ?L = "mode_levels (as_mode s)"
  obtain mgr where m: "PAGING_MANAGER s = Some mgr" using rd by (auto simp: paging_ready_def)
  have md: "as_mode s = pg_mode mgr" "as_root s = root_table_phys mgr" by (simp_all add: as_mode_def as_root_def m)
  have self: "grows ?L (as_root s) s s" using paging_readyD(1) [OF rd] by (rule grows_refl)
  show thesis
  proof (cases "pa_is_aligned p \<and> canonical s v")
    case False
    then have "s' = s \<and> r \<noteq> Ok ()"
      using r m by (cases "check_canonical (pg_mode mgr) v") (auto simp: map_page_def canonical_def md split: if_splits)
    moreover have "Suc (card (avail s)) \<le> length ?L + card (avail s)" using mode_levels_ne(1) [of "as_mode s"] by (cases ?L) simp_all
    ultimately show thesis using False self by (intro that [of s]) auto
  next
    case True
    obtain q s1 where w: "map_walk ?L (as_root s) v p flags s = (q, s1)" by fastforce
    have rs: "r = q \<and> s' = (if r = Ok () then invlpg v s1 else s1)"
      using r m True w by (auto simp: map_page_def canonical_def md split: sum.splits)
    note M = map_walk_correct [OF paging_readyD(1) [OF rd] mode_levels_ne(1) nh [unfolded huge_mapped_def] w]
    have g: "grows ?L (as_root s) s s1" using M by blast
    have "as_lookup s1 w = (if r = Ok () \<and> same_page s v w then leaf p flags else as_lookup s w)" for w
      using M rs same_rest_as [OF growsD(2) [OF g]] same_path_iff [of "as_mode s" v w] by (simp add: as_lookup_def same_page_def leaf_def)
    moreover have "r = Ok ()" if "low_memory s" "length ?L \<le> Suc (card (avail s))"
      using M rs that by simp
    moreover have "low_memory s \<Longrightarrow> Suc (card (avail s)) \<le> length ?L + card (avail s1)" using M by blast
    ultimately show thesis using True rs g by (intro that [of s1]) auto
  qed
qed

lemma aligned_mask:
  assumes "pa_is_aligned p" "p < 2 ^ 52"
  shows "p AND ADDRESS_MASK = p"
proof (rule bit_eqI)
  fix n
  have "bit p n \<Longrightarrow> \<not> n < 12" using assms(1) bit_page_offset [of p n] by (auto simp: pa_is_aligned_def)
  moreover have "bit p n \<Longrightarrow> n < 52" using assms(2) bit_small_u64 [of p 52 n] by (simp add: word_less_nat_alt)
  ultimately show "bit (p AND ADDRESS_MASK) n = bit p n" by (auto simp: bit_and_iff bit_ADDRESS_MASK)
qed

lemma leaf_phys:
  assumes "pa_is_aligned p" "p < 2 ^ 52" "flags AND ADDRESS_MASK = 0"
  shows "map_option (phys_of w) (leaf p flags) = (if ptf_contains flags PRESENT then Some (p OR va_page_offset w) else None)"
proof -
  have "pte_is_present (pte_make p flags) \<longleftrightarrow> ptf_contains flags PRESENT"
    using and_exp_eq_0 [of flags 0] by (simp add: pte_is_present_iff bit_pte_make ptf_contains_def PRESENT_def)
  then show ?thesis using pte_make_address [OF aligned_mask [OF assms(1,2)] assms(3)] by (simp add: leaf_def)
qed


text \<open>
  with free memory below 4 GiB only, mapping an aligned frame at a canonical address succeeds as
  long as four frames are free, and the frames it takes are exactly the new tables, at most four.
\<close>

theorem map_page_succeeds:
  assumes "paging_ready s" "\<not> huge_mapped s v" "pa_is_aligned p" "canonical s v" "low_memory s" "4 \<le> card (avail s)"
  shows "\<exists>s'. map_page v p flags s = (Ok (), s') \<and> avail s - avail s' = page_tables s' - page_tables s
     \<and> avail s' \<subseteq> avail s \<and> page_tables s \<subseteq> page_tables s' \<and> card (avail s) \<le> card (avail s') + 4"
proof -
  obtain r s' where m: "map_page v p flags s = (r, s')" by fastforce
  have enough: "length (mode_levels (as_mode s)) \<le> Suc (card (avail s))" using assms(6) length_mode_levels [of "as_mode s"] by simp
  obtain s1 where s1: "grows (mode_levels (as_mode s)) (as_root s) s s1" "s' = (if r = Ok () then invlpg v s1 else s1)" "r = Ok ()"
    "Suc (card (avail s)) \<le> length (mode_levels (as_mode s)) + card (avail s1)"
    using map_page_effect [OF assms(1,2) m] assms(3-5) enough by metis
  note G = growsD [OF s1(1)] and S = same_rest_as [OF growsD(2) [OF s1(1)]]
  have "avail s - avail s1 = page_tables s1 - page_tables s"
    using G(4,5) G(7) [OF assms(5)] tree_invD(4) [OF paging_readyD(1) [OF assms(1)]]
    unfolding page_tables_def S(4,5) by blast
  moreover have "card (avail s) \<le> card (avail s1) + 4" using s1(4) length_mode_levels [of "as_mode s"] by simp
  ultimately show ?thesis using m s1(2,3) G(3,4) S by (auto simp: page_tables_def)
qed

text \<open>A machine with an empty root table at \<open>0x2000\<close> and eight free frames, for the witnesses.\<close>

definition demo_paging :: paging_machine where
  "demo_paging = \<lparr>mem = demo_mem,
     MEMORY_MAP_STORAGE = \<lparr>map_value = MemoryMap_parse demo_mem 0x7000, initialized = False\<rparr>,
     PMM_INSTANCE = Some demo_pmm,
     PAGING_MANAGER = Some \<lparr>pg_mode = FourLevel, root_table_phys = 0x2000, la57_supported = False, nx_supported = True\<rparr>,
     cr3 = 0x2000, cr4 = 0, cpuid = (\<lambda>_ _. \<lparr>cpuid_eax = 0, cpuid_ebx = 0, cpuid_ecx = 0, cpuid_edx = 0\<rparr>), tlb_log = []\<rparr>"

lemma demo_avail: "avail demo_paging = {0x8000, 0x9000, 0xA000, 0xB000, 0xC000, 0xD000, 0xE000, 0xF000}"
  by (simp add: avail_def demo_paging_def demo_free_set frame_addrs_def PAGE_SIZE_def)

lemma demo_managed: "a \<in> managed demo_paging \<longleftrightarrow> a mod 4096 = 0 \<and> a div 4096 < 16"
proof -
  have "a \<in> frame_addrs (managed_set demo_pmm) \<longleftrightarrow> a mod PAGE_SIZE = 0 \<and> a div PAGE_SIZE \<in> managed_set demo_pmm"
    using demo_inv by (rule frame_addrs_iff) simp
  then show ?thesis by (simp add: managed_def demo_paging_def managed_set_def demo_pmm_def PAGE_SIZE_def)
qed

lemma demo_bitmap_area: "bitmap_area demo_paging \<subseteq> {0x1000, 0x1001}"
proof -
  have "f div 8 = 0 \<or> f div 8 = 1" if "f < 16" for f :: u64
  proof -
    have "unat f < 16" using that by (simp add: word_less_nat_alt)
    then have "unat f div 8 = 0 \<or> unat f div 8 = 1" by auto
    then show ?thesis by (auto simp: word_unat_eq_iff unat_div)
  qed
  then show ?thesis by (force simp: bitmap_area_def demo_paging_def demo_pmm_def bitmap_bytes_def)
qed

lemma demo_root: "i < 512 \<Longrightarrow> get_entry demo_mem 0x2000 i = 0"
proof -
  assume i: "i < 512"
  have t: "table_addr 0x2000" by (simp add: table_addr_def page_base_def)
  have "page_base 0x1000 \<noteq> 0x2000" "page_base 0x1001 \<noteq> 0x2000" by (simp_all add: page_base_def)
  then have "demo_mem x = 0" if "page_base x = 0x2000" for x using that by (auto simp: demo_mem_def)
  then show ?thesis unfolding get_entry_def using entry_bytes(1) [OF t i] by (intro read_u64_zero) blast
qed

lemma demo_as: "as_mode demo_paging = FourLevel" "as_root demo_paging = 0x2000" "mem demo_paging = demo_mem"
  by (simp_all add: as_mode_def as_root_def demo_paging_def)

lemma demo_lookup: "as_lookup demo_paging w = None"
proof -
  have t: "table_addr 0x2000" by (simp add: table_addr_def page_base_def)
  show ?thesis using tree_empty(3) [OF t demo_root] by (simp add: as_lookup_def demo_as)
qed

lemma demo_tree: "tables demo_mem (mode_levels FourLevel) 0x2000 = {0x2000}" "tree_ok demo_mem (mode_levels FourLevel) 0x2000"
proof -
  have t: "table_addr 0x2000" by (simp add: table_addr_def page_base_def)
  show "tables demo_mem (mode_levels FourLevel) 0x2000 = {0x2000}" "tree_ok demo_mem (mode_levels FourLevel) 0x2000"
    unfolding mode_levels.simps by (rule tree_empty(2) [OF t demo_root] tree_empty(1) [OF t demo_root]; assumption)+
qed

lemma demo_page_tables: "page_tables demo_paging = {0x2000}"
  by (simp add: page_tables_def demo_as demo_tree del: mode_levels.simps)

lemma demo_paging_ready: "paging_ready demo_paging"
proof -
  note T = demo_tree
  have "tree_inv (mode_levels FourLevel) 0x2000 demo_paging"
  proof (rule tree_invI)
    show "pmm_ready demo_paging" using demo_inv by (simp add: pmm_ready_def demo_paging_def)
    show "page_base x \<notin> tables (mem demo_paging) (mode_levels FourLevel) 0x2000 \<and> page_base x \<notin> avail demo_paging"
      if "x \<in> bitmap_area demo_paging" for x
      using that demo_bitmap_area T by (auto simp: demo_as demo_avail page_base_def)
  qed (use T in \<open>simp_all add: demo_as demo_avail demo_managed\<close>)
  then show ?thesis by (simp add: paging_ready_def demo_as) (simp add: demo_paging_def)
qed

lemma demo_low: "low_memory demo_paging" "card (avail demo_paging) = 8"
  by (simp_all add: low_memory_def demo_avail)

lemma demo_not_huge: "\<not> huge_mapped demo_paging v"
  by (simp add: huge_mapped_lookup demo_lookup)

lemma demo_canonical: "canonical demo_paging v \<longleftrightarrow> va_is_canonical_la48 v"
  by (simp add: canonical_def demo_as)

lemma demo_enough: "length (mode_levels (as_mode demo_paging)) \<le> Suc (card (avail demo_paging))"
  by (simp add: demo_as demo_low)

lemma demo_map:
  obtains s' where "map_page 0x400000 0x7000 3 demo_paging = (Ok (), s')"
proof -
  have "pa_is_aligned 0x7000" by (simp add: pa_is_aligned_def)
  moreover have "canonical demo_paging 0x400000" by (simp add: demo_canonical va_is_canonical_la48_def)
  ultimately obtain s1 where "fst (map_page 0x400000 0x7000 3 demo_paging) = Ok ()"
    using map_page_effect [OF demo_paging_ready demo_not_huge, of "0x400000" "0x7000" 3] demo_low
    by (metis demo_enough surjective_pairing)
  then show thesis using that by (metis prod.collapse)
qed


theorem map_page_succeeds_witness:
  "\<exists>s'. map_page 0x400000 0x7000 3 demo_paging = (Ok (), s')
     \<and> avail demo_paging - avail s' = page_tables s' - page_tables demo_paging"
proof -
  have "pa_is_aligned 0x7000" "canonical demo_paging 0x400000"
    by (simp_all add: pa_is_aligned_def demo_canonical va_is_canonical_la48_def)
  then show ?thesis using map_page_succeeds [OF demo_paging_ready demo_not_huge, of "0x7000" "0x400000" 3] demo_low by auto
qed

section \<open>Unmapping one page\<close>

lemma shrinks_ready:
  assumes "paging_ready s" "shrinks (mode_levels (as_mode s)) (as_root s) s s'"
  shows "paging_ready s'"
  using assms same_rest_as [OF shrinksD(2) [OF assms(2)]] shrinksD(1) [OF assms(2)] by (simp add: paging_ready_def)

lemma unmap_page_effect:
  assumes rd: "paging_ready s" and nh: "\<not> huge_mapped s v" and cv: "canonical s v" and mapped: "as_lookup s v \<noteq> None"
  obtains s1 where "unmap_page v s = (Ok (), invlpg v s1)" "shrinks (mode_levels (as_mode s)) (as_root s) s s1"
    "\<And>w. as_lookup s1 w = (if same_page s v w then None else as_lookup s w)"
proof -
  let ?L = "mode_levels (as_mode s)"
  note inv = paging_readyD(1) [OF rd]
  have nh': "\<not> in_huge_page (mem s) ?L (as_root s) v" using nh by (simp add: huge_mapped_def)
  have lk: "lookup (mem s) ?L (as_root s) v \<noteq> None" using mapped by (simp add: as_lookup_def)
  obtain pt path where p: "unmap_path (mem s) ?L (as_root s) v [] = Ok (pt, path)"
    using unmap_path_lookup [OF nh' mode_levels_ne(1), of "[]"] lk by auto
  obtain r s1 where w: "unmap_walk ?L (as_root s) v s = (r, s1)" by fastforce
  note U = unmap_walk_correct [OF inv mode_levels_ne(1) nh' lk w]
  obtain up where up: "r = Ok up" using U by blast
  obtain mgr where m: "PAGING_MANAGER s = Some mgr" using rd by (auto simp: paging_ready_def)
  have md: "as_mode s = pg_mode mgr" "as_root s = root_table_phys mgr" by (simp_all add: as_mode_def as_root_def m)
  have f: "free_empty_tables path (s\<lparr>mem := set_entry (mem s) pt (va_pt_index v) 0\<rparr>) = (Ok (), s1)"
    using free_empty_tables_walk [OF p mode_levels_ne] w up by simp
  have "unmap_page v s = (Ok (), invlpg v s1)"
    using cv p f m by (simp add: unmap_page_def unmap_page_internal_def canonical_def md)
  moreover have sh: "shrinks ?L (as_root s) s s1" using U by blast
  moreover have "as_lookup s1 w = (if same_page s v w then None else as_lookup s w)" for w
    using U same_rest_as [OF shrinksD(2) [OF sh]] same_path_iff [of "as_mode s" v w] by (simp add: as_lookup_def same_page_def)
  ultimately show thesis using that by blast
qed

lemma unmap_page_refused:
  assumes rd: "paging_ready s" and nh: "\<not> huge_mapped s v" and "\<not> canonical s v \<or> as_lookup s v = None"
  shows "\<exists>e. unmap_page v s = (Err e, s)"
proof -
  obtain mgr where m: "PAGING_MANAGER s = Some mgr" using rd by (auto simp: paging_ready_def)
  have md: "as_mode s = pg_mode mgr" "as_root s = root_table_phys mgr" by (simp_all add: as_mode_def as_root_def m)
  show ?thesis
  proof (cases "check_canonical (pg_mode mgr) v")
    case (Inl e)
    then show ?thesis using m by (simp add: unmap_page_def unmap_page_internal_def)
  next
    case (Inr u)
    then have "canonical s v" by (simp add: canonical_def md)
    then have "lookup (mem s) (mode_levels (as_mode s)) (as_root s) v = None" using assms(3) by (simp add: as_lookup_def)
    then have "\<nexists>r. unmap_path (mem s) (mode_levels (as_mode s)) (as_root s) v [] = Ok r"
      using unmap_path_lookup [OF nh [unfolded huge_mapped_def] mode_levels_ne(1)] by blast
    then obtain e where "unmap_path (mem s) (mode_levels (as_mode s)) (as_root s) v [] = Err e" by (metis sum.exhaust)
    then show ?thesis using m Inr by (simp add: unmap_page_def unmap_page_internal_def md)
  qed
qed

lemma leaf_entry_same_path: "same_path ls v w \<Longrightarrow> leaf_entry m ls t w = leaf_entry m ls t v"
  by (induction m ls t v rule: leaf_entry.induct) (auto simp: same_path_def Let_def split: option.splits)

lemma as_lookup_same_page: "same_page s v w \<Longrightarrow> as_lookup s w = as_lookup s v"
  using leaf_entry_same_path same_path_iff [of "as_mode s" v w] by (simp add: as_lookup_def lookup_def same_page_def)

lemma translation_None_iff:
  "paging_ready s \<Longrightarrow> translation s v = None \<longleftrightarrow> \<not> canonical s v \<or> as_lookup s v = None"
  by (simp add: translation_lookup paging_ready_def)


text \<open>
  C15: mapping a page that was not mapped and unmapping it again restores every translation, and with
  free memory below 4 GiB only no frame is lost: the free frames and the tables together are the
  same as before.
\<close>

theorem map_unmap_round_trip:
  assumes "paging_ready s" "translation s v = None" "\<not> huge_mapped s v" "ptf_contains flags PRESENT"
    and "map_page v p flags s = (Ok (), s1)"
  shows "\<exists>s2. unmap_page v s1 = (Ok (), s2) \<and> translation s2 = translation s \<and> paging_ready s2
     \<and> (low_memory s \<longrightarrow> avail s2 \<union> page_tables s2 = avail s \<union> page_tables s)"
proof -
  obtain s' where m: "grows (mode_levels (as_mode s)) (as_root s) s s'" "s1 = invlpg v s'"
    and lk: "\<And>w. as_lookup s' w = (if same_page s v w then leaf p flags else as_lookup s w)" and cv: "canonical s v"
    using map_page_effect [OF assms(1,3,5)] by auto
  note G = growsD [OF m(1)] and S = same_rest_as [OF growsD(2) [OF m(1)]]
  have rd: "paging_ready s1" using grows_ready [OF assms(1) m(1)] by (simp add: m(2))
  have pr: "pte_is_present (pte_make p flags)"
    using assms(4) and_exp_eq_0 [of flags 0] by (simp add: pte_is_present_iff bit_pte_make ptf_contains_def PRESENT_def)
  have lk1: "as_lookup s1 w = (if same_page s v w then Some (pte_make p flags, 0xFFF) else as_lookup s w)" for w
    using lk pr by (simp add: m(2) leaf_def)
  have vv: "same_page s v v" by (simp add: same_page_def)
  have nh: "\<not> huge_mapped s1 v" by (simp add: huge_mapped_lookup lk1 vv)
  have c1: "canonical s1 = canonical s" "same_page s1 = same_page s" "as_mode s1 = as_mode s" "as_root s1 = as_root s"
    using S by (simp_all add: m(2))
  obtain s3 where s3: "unmap_page v s1 = (Ok (), invlpg v s3)" "shrinks (mode_levels (as_mode s1)) (as_root s1) s1 s3"
    "\<And>w. as_lookup s3 w = (if same_page s1 v w then None else as_lookup s1 w)"
    using unmap_page_effect [OF rd nh, of] cv c1 lk1 vv by auto
  note H = shrinksD [OF s3(2)] and S3 = same_rest_as [OF shrinksD(2) [OF s3(2)]]
  have rd3: "paging_ready s3" by (rule shrinks_ready [OF rd s3(2)])
  have none: "as_lookup s w = None" if "same_page s v w" for w
  proof -
    have "as_lookup s v = None" using assms(2) translation_None_iff [OF assms(1), of v] cv by simp
    moreover have "as_lookup s w = as_lookup s v" using that by (rule as_lookup_same_page)
    ultimately show ?thesis by simp
  qed
  have "translation s3 w = translation s w" for w
    using translation_lookup [of s3 w] translation_lookup [of s w] paging_readyD(2) [OF rd3] paging_readyD(2) [OF assms(1)]
      s3(3) [of w] lk1 [of w] S3 c1 none [of w] by auto
  moreover have "avail s3 \<union> page_tables s3 = avail s \<union> page_tables s" if low: "low_memory s"
  proof -
    have "avail s3 \<union> page_tables s3 = avail s1 \<union> page_tables s1"
      unfolding H(4) page_tables_def S3(4,5) using H(3) by blast
    also have "\<dots> = avail s \<union> page_tables s"
      using G(3,4,5) G(7) [OF low] unfolding page_tables_def c1 by (auto simp: m(2))
    finally show ?thesis .
  qed
  ultimately show ?thesis using s3(1) rd3 by (auto simp: fun_eq_iff)
qed

section \<open>Remapping and protection\<close>

lemma remap_walk:
  assumes "tree_inv ls t s" "\<not> in_huge_page (mem s) ls t v" "ls \<noteq> []"
    "unmap_path (mem s) ls t v acc = Ok (pt, path)"
    "s' = s\<lparr>mem := set_entry (mem s) pt (level_index (last ls) v) e\<rparr>"
  shows "grows ls t s s' \<and> avail s' = avail s \<and> (\<forall>w. lookup (mem s') ls t w =
     (if same_path ls v w then if pte_is_present e then Some (e, 0xFFF) else None else lookup (mem s) ls t w))"
  using assms
proof (induction "mem s" ls t v acc rule: unmap_path.induct)
  case (2 l t v acc)
  then have "pt = t" by (simp split: if_splits)
  then have s': "s' = s\<lparr>mem := set_entry (mem s) t (level_index l v) e\<rparr>" using 2(5) by simp
  show ?case using set_leaf [OF 2(1) level_index_less s'] by (auto simp: same_path_def)
next
  case (3 l l' ls t v acc)
  let ?i = "level_index l v"
  let ?c = "pte_address (get_entry (mem s) t ?i)"
  have i: "?i < 512" by (rule level_index_less)
  have pr: "pte_is_present (get_entry (mem s) t ?i)" using 3(5) by (auto simp: Let_def split: if_splits)
  have p: "unmap_path (mem s) (l' # ls) ?c v ((t, ?i, ?c) # acc) = Ok (pt, path)"
    using 3(5) pr by (simp add: Let_def)
  note c = plain_child [OF 3(3) pr]
  have invc: "tree_inv (l' # ls) ?c s" by (rule tree_inv_child [OF 3(2) i c])
  have nhc: "\<not> in_huge_page (mem s) (l' # ls) ?c v" using 3(3) in_huge_page_child [OF c] by blast
  have s': "s' = s\<lparr>mem := set_entry (mem s) pt (level_index (last (l' # ls)) v) e\<rparr>" using 3(6) by simp
  have IH: "grows (l' # ls) ?c s s' \<and> avail s' = avail s \<and> (\<forall>w. lookup (mem s') (l' # ls) ?c w =
     (if same_path (l' # ls) v w then if pte_is_present e then Some (e, 0xFFF) else None else lookup (mem s) (l' # ls) ?c w))"
    using 3(1) [OF refl _ invc nhc _ p s'] pr by simp
  note B = grows_below [OF 3(2) i c conjunct1 [OF IH]]
  have "lookup (mem s') (l # l' # ls) t w =
     (if same_path (l # l' # ls) v w then if pte_is_present e then Some (e, 0xFFF) else None else lookup (mem s) (l # l' # ls) t w)" for w
    using B(3) IH lookup_child [of "mem s" l t w ?c l' ls] c by (auto simp: same_path_def)
  then show ?case using B(1) IH by blast
qed simp

lemma level_index_last: "level_index (last (mode_levels md)) v = va_pt_index v"
  by (cases md) simp_all

lemma remap_page_effect:
  assumes rd: "paging_ready s" and nh: "\<not> huge_mapped s v" and p: "pa_is_aligned p" and mapped: "as_lookup s v \<noteq> None"
  obtains s1 where "remap_page v p flags s = (Ok (), invlpg v s1)" "grows (mode_levels (as_mode s)) (as_root s) s s1"
    "avail s1 = avail s" "\<And>w. as_lookup s1 w = (if same_page s v w then leaf p flags else as_lookup s w)"
proof -
  let ?L = "mode_levels (as_mode s)"
  have nh': "\<not> in_huge_page (mem s) ?L (as_root s) v" using nh by (simp add: huge_mapped_def)
  have lk: "lookup (mem s) ?L (as_root s) v \<noteq> None" using mapped by (simp add: as_lookup_def)
  obtain pt path where u: "unmap_path (mem s) ?L (as_root s) v [] = Ok (pt, path)"
    using unmap_path_lookup [OF nh' mode_levels_ne(1), of "[]"] lk by auto
  obtain mgr where m: "PAGING_MANAGER s = Some mgr" using rd by (auto simp: paging_ready_def)
  have md: "as_mode s = pg_mode mgr" "as_root s = root_table_phys mgr" by (simp_all add: as_mode_def as_root_def m)
  define s1 where "s1 = s\<lparr>mem := set_entry (mem s) pt (va_pt_index v) (pte_make p flags)\<rparr>"
  have "remap_page v p flags s = (Ok (), invlpg v s1)"
    using p u m by (simp add: remap_page_def md s1_def)
  moreover have R: "grows ?L (as_root s) s s1 \<and> avail s1 = avail s \<and> (\<forall>w. lookup (mem s1) ?L (as_root s) w =
     (if same_path ?L v w then leaf p flags else lookup (mem s) ?L (as_root s) w))"
    using remap_walk [OF paging_readyD(1) [OF rd] nh' mode_levels_ne(1) u, of s1 "pte_make p flags"]
    by (simp add: s1_def level_index_last leaf_def)
  moreover have "as_lookup s1 w = (if same_page s v w then leaf p flags else as_lookup s w)" for w
    using R same_rest_as [OF growsD(2) [OF conjunct1 [OF R]]] same_path_iff [of "as_mode s" v w] by (simp add: as_lookup_def same_page_def)
  ultimately show thesis using that by blast
qed

lemma remap_page_refused:
  assumes rd: "paging_ready s" and nh: "\<not> huge_mapped s v" and "\<not> pa_is_aligned p \<or> as_lookup s v = None"
  shows "\<exists>e. remap_page v p flags s = (Err e, s)"
proof -
  obtain mgr where m: "PAGING_MANAGER s = Some mgr" using rd by (auto simp: paging_ready_def)
  have md: "as_mode s = pg_mode mgr" "as_root s = root_table_phys mgr" by (simp_all add: as_mode_def as_root_def m)
  show ?thesis
  proof (cases "pa_is_aligned p")
    case True
    then have "lookup (mem s) (mode_levels (as_mode s)) (as_root s) v = None" using assms(3) by (simp add: as_lookup_def)
    then have "\<nexists>r. unmap_path (mem s) (mode_levels (as_mode s)) (as_root s) v [] = Ok r"
      using unmap_path_lookup [OF nh [unfolded huge_mapped_def] mode_levels_ne(1)] by blast
    then obtain e where "unmap_path (mem s) (mode_levels (as_mode s)) (as_root s) v [] = Err e" by (metis sum.exhaust)
    then show ?thesis using m True by (simp add: remap_page_def md)
  qed (use m in \<open>simp add: remap_page_def\<close>)
qed

lemma grows_same_tables: "grows ls t s s' \<Longrightarrow> avail s' = avail s \<Longrightarrow> tables (mem s') ls t = tables (mem s) ls t"
  using growsD(4,5) by blast

text \<open>
  \<^verbatim>\<open>remap_page\<close> on well-formed tables, for an address not inside a huge page: it succeeds exactly
  when the new frame is aligned and the address has an entry, then changes the translation of that
  page only, without taking or giving back a frame; otherwise it changes nothing.
\<close>

theorem remap_page_correct:
  assumes "paging_ready s" "\<not> huge_mapped s v" "p < 2 ^ 52" "flags AND ADDRESS_MASK = 0"
  shows "case remap_page v p flags s of
     (Ok u, s') \<Rightarrow> pa_is_aligned p \<and> as_lookup s v \<noteq> None \<and> paging_ready s'
        \<and> (\<forall>w. translation s' w =
             (if same_page s v w \<and> canonical s w
              then if ptf_contains flags PRESENT then Some (p OR va_page_offset w) else None
              else translation s w))
        \<and> page_tables s' = page_tables s \<and> avail s' = avail s \<and> tlb_log s' = Invlpg v # tlb_log s
   | (Err e, s') \<Rightarrow> (\<not> pa_is_aligned p \<or> as_lookup s v = None) \<and> s' = s"
proof (cases "pa_is_aligned p \<and> as_lookup s v \<noteq> None")
  case True
  obtain s1 where s1: "remap_page v p flags s = (Ok (), invlpg v s1)" "grows (mode_levels (as_mode s)) (as_root s) s s1"
    "avail s1 = avail s" and lk: "\<And>w. as_lookup s1 w = (if same_page s v w then leaf p flags else as_lookup s w)"
    using remap_page_effect [OF assms(1,2)] True by blast
  note S = same_rest_as [OF growsD(2) [OF s1(2)]]
  have rd: "paging_ready s1" by (rule grows_ready [OF assms(1) s1(2)])
  have "translation s1 w = (if same_page s v w \<and> canonical s w
              then if ptf_contains flags PRESENT then Some (p OR va_page_offset w) else None else translation s w)" for w
    using translation_lookup [of s1 w] translation_lookup [of s w] paging_readyD(2) [OF rd] paging_readyD(2) [OF assms(1)]
      lk [of w] S leaf_phys [OF _ assms(3,4), of w] True by auto
  then show ?thesis
    using s1(1,3) True rd S grows_same_tables [OF s1(2,3)] by (simp add: page_tables_def)
next
  case False
  then have f: "\<not> pa_is_aligned p \<or> as_lookup s v = None" by metis
  from remap_page_refused [OF assms(1,2) f] obtain e where "remap_page v p flags s = (Err e, s)" by blast
  with f show ?thesis by simp
qed

lemma get_page_flags_lookup:
  assumes "PAGING_MANAGER s \<noteq> None" "canonical s w" "as_lookup s w = Some (e, msk)"
  shows "get_page_flags w s = Ok (pte_flags e)"
  using assms
  by (auto simp: get_page_flags_def canonical_def as_mode_def as_root_def as_lookup_def lookup_def split: option.splits sum.splits)

lemma pte_flags_make: "pa_is_aligned p \<Longrightarrow> pte_flags (pte_make p flags) = flags AND 0xFFF"
  by (rule bit_eqI) (auto simp: pte_flags_def bit_page_offset bit_pte_make)

lemma aligned_translation:
  assumes "as_lookup s v = Some (e, 0xFFF)" "paging_ready s" "canonical s v" "v AND 0xFFF = 0"
  shows "translation s v = Some (pte_address e)" "pa_is_aligned (pte_address e)" "pte_address e < 2 ^ 52"
proof -
  show "translation s v = Some (pte_address e)"
    using translation_lookup [of s v] assms by (simp add: paging_ready_def va_page_offset_def)
  show "pa_is_aligned (pte_address e)" unfolding pa_is_aligned_def
    by (rule bit_eqI) (auto simp: bit_page_offset bit_pte_address)
  have "pte_address e \<le> ADDRESS_MASK" by (simp add: pte_address_def word_and_le1)
  also have "ADDRESS_MASK < 2 ^ 52" by (simp add: ADDRESS_MASK_def)
  finally show "pte_address e < 2 ^ 52" .
qed

text \<open>
  \<^verbatim>\<open>change_page_flags\<close> at the start of a mapped 4 KiB page keeps every translation and makes
  \<^verbatim>\<open>get_page_flags\<close> report the low twelve bits of the new flags for the page (never the no-execute
  bit). For an address inside a mapped page it fails, because the translated address is not aligned;
  for an unmapped address it fails too. A failure changes nothing.
\<close>

theorem change_page_flags_correct:
  assumes "paging_ready s" "\<not> huge_mapped s v" "flags AND ADDRESS_MASK = 0" "ptf_contains flags PRESENT"
  shows "if translation s v \<noteq> None \<and> v AND 0xFFF = 0
     then \<exists>s'. change_page_flags v flags s = (Ok (), s') \<and> paging_ready s' \<and> translation s' = translation s
        \<and> (\<forall>w. same_page s v w \<and> canonical s w \<longrightarrow> get_page_flags w s' = Ok (flags AND 0xFFF))
     else \<exists>e. change_page_flags v flags s = (Err e, s)"
proof (cases "translation s v")
  case None
  then obtain e where "translate_address v s = Err e" by (auto simp: translation_def split: sum.splits)
  then show ?thesis using None by (simp add: change_page_flags_def)
next
  case (Some q)
  then have tq: "translate_address v s = Ok q" by (auto simp: translation_def split: sum.splits)
  have cv: "canonical s v" "as_lookup s v \<noteq> None" using Some translation_None_iff [OF assms(1), of v] by auto
  then obtain e where e: "as_lookup s v = Some (e, 0xFFF)" using assms(2) by (auto simp: huge_mapped_lookup)
  show ?thesis
  proof (cases "v AND 0xFFF = 0")
    case True
    note A = aligned_translation [OF e assms(1) cv(1) True]
    have q: "q = pte_address e" using A(1) Some by simp
    obtain s1 where s1: "remap_page v q flags s = (Ok (), invlpg v s1)" "grows (mode_levels (as_mode s)) (as_root s) s s1"
      and lk: "\<And>w. as_lookup s1 w = (if same_page s v w then leaf q flags else as_lookup s w)"
      using remap_page_effect [OF assms(1,2) _ cv(2), of q flags] A(2) q by metis
    note S = same_rest_as [OF growsD(2) [OF s1(2)]]
    have rd: "paging_ready s1" by (rule grows_ready [OF assms(1) s1(2)])
    have lp: "map_option (phys_of w) (leaf q flags) = Some (q OR va_page_offset w)" for w
      using leaf_phys [OF A(2,3) assms(3)] assms(4) q by simp
    have "translation s1 w = translation s w" for w
      using translation_lookup [of s1 w] translation_lookup [of s w] paging_readyD(2) [OF rd] paging_readyD(2) [OF assms(1)]
        lk [of w] lp [of w] S as_lookup_same_page [of s v w] e q by auto
    moreover have "get_page_flags w (invlpg v s1) = Ok (flags AND 0xFFF)" if "same_page s v w" "canonical s w" for w
    proof -
      obtain l where "leaf q flags = Some l" using lp by fastforce
      then have l: "leaf q flags = Some (pte_make q flags, 0xFFF)" by (simp add: leaf_def split: if_splits)
      show ?thesis
        using get_page_flags_lookup [of "invlpg v s1" w "pte_make q flags" "0xFFF"] paging_readyD(2) [OF rd] that S lk [of w] l
          pte_flags_make [of q flags] A(2) q by simp
    qed
    moreover have "change_page_flags v flags s = (Ok (), invlpg v s1)" using tq s1(1) by (simp add: change_page_flags_def)
    ultimately show ?thesis using rd True Some by (auto simp: fun_eq_iff)
  next
    case False
    have "q = pte_address e OR va_page_offset v"
      using Some translation_lookup [of s v] paging_readyD(2) [OF assms(1)] e cv(1) by simp
    then have "q AND 0xFFF = v AND 0xFFF"
      by (intro bit_eqI) (auto simp: bit_page_offset bit_or_iff bit_pte_address va_page_offset_def)
    with False have "\<not> pa_is_aligned q" by (simp add: pa_is_aligned_def)
    with remap_page_refused [OF assms(1,2)] obtain e' where "remap_page v q flags s = (Err e', s)" by blast
    then show ?thesis using False tq by (simp add: change_page_flags_def)
  qed
qed

section \<open>Huge pages\<close>

lemma map_walk_huge:
  assumes "lookup (mem s) [PD, PT] t v = Some (e, 0x1FFFFF)"
  shows "map_walk [PD, PT] t v p flags s = (Ok (), s\<lparr>mem := set_entry (mem s) (pte_address e) (va_pt_index v) (pte_make p flags)\<rparr>)"
  using assms
  by (auto simp: lookup_def get_or_create_next_level_def Let_def split: if_splits)

lemma map_walk_child:
  assumes "child (mem s) l t (level_index l v) = Some c"
  shows "map_walk (l # l' # ls) t v p flags s = map_walk (l' # ls) c v p flags s"
  using assms by (auto simp: child_def get_or_create_next_level_def Let_def split: if_splits)

lemma lookup_2MB_child:
  assumes "lookup (mem s) (l # l' # ls) t v = Some (e, 0x1FFFFF)" "huge_mask l \<noteq> Some 0x1FFFFF"
  obtains c where "child (mem s) l t (level_index l v) = Some c" "lookup (mem s) (l' # ls) c v = Some (e, 0x1FFFFF)"
proof (cases "child (mem s) l t (level_index l v)")
  case None
  then show thesis using assms lookup_no_child [OF None, of l' ls] by (auto simp: Let_def split: if_splits)
next
  case (Some c)
  then show thesis using that assms(1) lookup_child [OF Some] by simp
qed

lemma map_walk_2MB:
  assumes "lookup (mem s) (mode_levels md) t v = Some (e, 0x1FFFFF)"
  shows "map_walk (mode_levels md) t v p flags s =
    (Ok (), s\<lparr>mem := set_entry (mem s) (pte_address e) (va_pt_index v) (pte_make p flags)\<rparr>)"
proof -
  have h: "huge_mask PML5 \<noteq> Some 0x1FFFFF" "huge_mask PML4 \<noteq> Some 0x1FFFFF" "huge_mask PDPT \<noteq> Some 0x1FFFFF" by simp_all
  have three: "map_walk [PDPT, PD, PT] t v p flags s =
    (Ok (), s\<lparr>mem := set_entry (mem s) (pte_address e) (va_pt_index v) (pte_make p flags)\<rparr>)"
    if "lookup (mem s) [PDPT, PD, PT] t v = Some (e, 0x1FFFFF)" for t
    using lookup_2MB_child [OF that h(3)] map_walk_child map_walk_huge by metis
  have four: "map_walk [PML4, PDPT, PD, PT] t v p flags s =
    (Ok (), s\<lparr>mem := set_entry (mem s) (pte_address e) (va_pt_index v) (pte_make p flags)\<rparr>)"
    if "lookup (mem s) [PML4, PDPT, PD, PT] t v = Some (e, 0x1FFFFF)" for t
    using lookup_2MB_child [OF that h(2)] map_walk_child three by metis
  have five: "map_walk [PML5, PML4, PDPT, PD, PT] t v p flags s =
    (Ok (), s\<lparr>mem := set_entry (mem s) (pte_address e) (va_pt_index v) (pte_make p flags)\<rparr>)"
    if "lookup (mem s) [PML5, PML4, PDPT, PD, PT] t v = Some (e, 0x1FFFFF)" for t
    using lookup_2MB_child [OF that h(1)] map_walk_child four by metis
  show ?thesis using assms by (cases md) (simp_all only: mode_levels.simps four five)
qed

text \<open>
  \<^verbatim>\<open>map_page\<close> on an address inside a 2 MiB page reports success, but no translation changes:
  the walk takes the frame of the huge page for a page table and writes the new entry into the data
  of that page.
\<close>

theorem map_page_in_huge_page:
  assumes "paging_ready s" "as_lookup s v = Some (e, 0x1FFFFF)" "canonical s v" "pa_is_aligned p"
    and "table_addr (pte_address e)" "pte_address e \<notin> page_tables s"
  shows "\<exists>s'. map_page v p flags s = (Ok (), s') \<and> translation s' = translation s
     \<and> read_u64 (mem s') (pte_address e + va_pt_index v * 8) = pte_make p flags"
proof -
  obtain mgr where m: "PAGING_MANAGER s = Some mgr" using assms(1) by (auto simp: paging_ready_def)
  have md: "as_mode s = pg_mode mgr" "as_root s = root_table_phys mgr" by (simp_all add: as_mode_def as_root_def m)
  define s1 where "s1 = s\<lparr>mem := set_entry (mem s) (pte_address e) (va_pt_index v) (pte_make p flags)\<rparr>"
  have w: "map_walk (mode_levels (as_mode s)) (as_root s) v p flags s = (Ok (), s1)"
    unfolding s1_def using assms(2) by (intro map_walk_2MB) (simp add: as_lookup_def)
  have mp: "map_page v p flags s = (Ok (), invlpg v s1)"
    using assms(3,4) w m by (simp add: map_page_def canonical_def md)
  have i: "va_pt_index v < 512" using level_index_less [of PT v] by simp
  have "mem s1 x = mem s x" if "page_base x \<in> tables (mem s) (mode_levels (as_mode s)) (as_root s)" for x
  proof -
    have "page_base x \<noteq> pte_address e" using that assms(6) by (auto simp: page_tables_def)
    then show ?thesis by (simp add: s1_def set_entry_outside [OF assms(5) i])
  qed
  then have kp: "\<forall>x. page_base x \<in> tables (mem s) (mode_levels (as_mode s)) (as_root s) \<longrightarrow> mem s1 x = mem s x" by blast
  note F = tree_frame [OF tree_invD(2) [OF paging_readyD(1) [OF assms(1)]] kp]
  have as1: "as_mode s1 = as_mode s" "as_root s1 = as_root s" "canonical s1 = canonical s" "PAGING_MANAGER s1 \<noteq> None"
    by (auto simp: s1_def as_mode_def as_root_def canonical_def m fun_eq_iff)
  have "as_lookup s1 w = as_lookup s w" for w using F as1 by (simp add: as_lookup_def)
  then have "translation s1 = translation s"
    using translation_lookup [of s1] translation_lookup [of s] as1 m by (auto simp: fun_eq_iff)
  moreover have "\<not> 0x100000000 \<le> pte_address e" using assms(5) by (auto simp: table_addr_def)
  then have "read_u64 (mem s1) (pte_address e + va_pt_index v * 8) = pte_make p flags"
    by (simp add: s1_def set_entry_def entry_ptr_def phys_to_virt_def)
  ultimately show ?thesis using mp by simp
qed

section \<open>Canonical addresses\<close>

text \<open>
  the canonical check of 4-level mode does not look at bit 47: for every address below
  \<open>2 ^ 48\<close> both it and the address with all upper bits set are accepted, and both name the same
  page, although the processor accepts only one of the two.
\<close>

theorem canonical_la48_aliases:
  assumes "v < 2 ^ 48"
  shows "va_is_canonical_la48 v \<and> va_is_canonical_la48 (v OR 0xFFFF000000000000)
     \<and> page_number FourLevel (v OR 0xFFFF000000000000) = page_number FourLevel v"
proof -
  have v: "n < 48" if "bit v n" for n using assms bit_small_u64 [of v 48 n] that by (simp add: word_less_nat_alt)
  have eq: "(0xFFFF000000000000 :: u64) = push_bit 48 (mask 16)" by (simp add: mask_eq_exp_minus_1)
  have hi: "bit (0xFFFF000000000000 :: u64) n \<longleftrightarrow> 48 \<le> n \<and> n < 64" for n
    unfolding eq by (auto simp: bit_simps)
  have z: "drop_bit 48 v = 0" by (rule bit_eqI) (use v in \<open>force simp: bit_drop_bit_eq\<close>)
  have "drop_bit 48 (0xFFFF000000000000 :: u64) = 0xFFFF" by simp
  then have "drop_bit 48 (v OR 0xFFFF000000000000) = 0xFFFF" using z by (simp add: drop_bit_or)
  moreover have "page_number FourLevel (v OR 0xFFFF000000000000) = page_number FourLevel v"
    unfolding page_number_eq_iff bit_or_iff hi by simp
  ultimately show ?thesis using z by (simp add: va_is_canonical_la48_def)
qed

theorem canonical_la48_aliases_witness:
  "va_is_canonical_la48 0x800000001000 \<and> va_is_canonical_la48 0xFFFF800000001000"
  using canonical_la48_aliases [of "0x800000001000"] by simp

text \<open>The demonstration machine with a 2 MiB page at \<open>0x200000\<close>.\<close>

definition huge_mem :: memory where
  "huge_mem = set_entry (set_entry (set_entry demo_mem 0x2000 0 0x3003) 0x3000 0 0x4003) 0x4000 1 0x200083"

definition demo_huge :: paging_machine where
  "demo_huge = demo_paging\<lparr>mem := huge_mem\<rparr>"

lemma zero_page: "table_addr t \<Longrightarrow> t \<noteq> 0x1000 \<Longrightarrow> i < 512 \<Longrightarrow> get_entry demo_mem t i = 0"
proof -
  assume t: "table_addr t" "t \<noteq> 0x1000" and i: "i < 512"
  have "page_base 0x1000 = 0x1000" "page_base 0x1001 = 0x1000" by (simp_all add: page_base_def)
  then have "demo_mem x = 0" if "page_base x = t" for x using that t by (auto simp: demo_mem_def)
  then show ?thesis unfolding get_entry_def using entry_bytes(1) [OF t(1) i] by (intro read_u64_zero) blast
qed

lemma demo_tables: "table_addr 0x2000" "table_addr 0x3000" "table_addr 0x4000" "table_addr 0x200000"
  by (simp_all add: table_addr_def page_base_def)

lemma get_entry_other: "table_addr t \<Longrightarrow> table_addr u \<Longrightarrow> t \<noteq> u \<Longrightarrow> i < 512 \<Longrightarrow> j < 512 \<Longrightarrow>
    get_entry (set_entry m t i e) u j = get_entry m u j"
  by (rule get_entry_cong) (auto intro: set_entry_outside)

lemma huge_entries:
  assumes "i < 512"
  shows "get_entry huge_mem 0x2000 i = (if i = 0 then 0x3003 else 0)"
    "get_entry huge_mem 0x3000 i = (if i = 0 then 0x4003 else 0)"
    "get_entry huge_mem 0x4000 i = (if i = 1 then 0x200083 else 0)"
  using assms by (simp_all add: huge_mem_def get_entry_other get_set_entry demo_tables zero_page)

lemma huge_children:
  assumes "i < 512"
  shows "child huge_mem PML4 0x2000 i = (if i = 0 then Some 0x3000 else None)"
    "child huge_mem PDPT 0x3000 i = (if i = 0 then Some 0x4000 else None)"
    "child huge_mem PD 0x4000 i = None"
  using assms by (simp_all add: child_def huge_entries pte_is_present_def PRESENT_def pte_is_huge_def HUGE_PAGE_def
      pte_address_def ADDRESS_MASK_def)

lemma one_child:
  assumes "\<And>i. i < 512 \<Longrightarrow> child m l t i = (if i = 0 then Some c else None)"
  shows "tables m (l # l' # ls) t = insert t (tables m (l' # ls) c)"
proof -
  have z: "(0 :: usize) < 512" by simp
  have b: "below m l (l' # ls) t j = {}" if "j < 512" "j \<noteq> 0" for j using assms [OF that(1)] that(2) by (simp add: below_def)
  then have "others m l (l' # ls) t 0 = {t}" by (auto simp: others_def)
  then show ?thesis using tables_split [OF z, of m l l' ls t] assms [OF z] by (simp add: below_def)
qed

lemma huge_tables:
  "tables huge_mem [PD, PT] 0x4000 = {0x4000}"
  "tables huge_mem [PDPT, PD, PT] 0x3000 = {0x3000, 0x4000}"
  "tables huge_mem [PML4, PDPT, PD, PT] 0x2000 = {0x2000, 0x3000, 0x4000}"
proof -
  show 1: "tables huge_mem [PD, PT] 0x4000 = {0x4000}" by (simp add: tables.simps(3) huge_children)
  show 2: "tables huge_mem [PDPT, PD, PT] 0x3000 = {0x3000, 0x4000}"
    using one_child [OF huge_children(2)] 1 by simp
  show "tables huge_mem [PML4, PDPT, PD, PT] 0x2000 = {0x2000, 0x3000, 0x4000}"
    using one_child [OF huge_children(1)] 2 by simp
qed

lemma huge_tree_ok: "tree_ok huge_mem [PML4, PDPT, PD, PT] 0x2000"
proof -
  have 1: "tree_ok huge_mem [PD, PT] 0x4000" by (simp add: tree_ok.simps(3) huge_children demo_tables)
  have 2: "tree_ok huge_mem [PDPT, PD, PT] 0x3000"
    unfolding tree_ok.simps(3) [of _ PDPT] using 1 by (simp add: huge_children huge_tables demo_tables)
  show ?thesis
    unfolding tree_ok.simps(3) [of _ PML4] using 2 by (simp add: huge_children huge_tables demo_tables)
qed

lemma huge_mem_bitmap: "x \<in> bitmap_area demo_paging \<Longrightarrow> huge_mem x = demo_mem x"
proof -
  assume "x \<in> bitmap_area demo_paging"
  then have "page_base x = 0x1000" using demo_bitmap_area by (auto simp: page_base_def)
  then show ?thesis by (simp add: huge_mem_def set_entry_outside demo_tables)
qed

lemma demo_huge_ready: "paging_ready demo_huge"
proof -
  have "pmm_ready demo_paging" using demo_inv by (simp add: pmm_ready_def demo_paging_def)
  moreover have "\<forall>x\<in>bitmap_area demo_paging. huge_mem x = mem demo_paging x" using huge_mem_bitmap by (simp add: demo_as)
  ultimately have U: "pmm_ready demo_huge" "avail demo_huge = avail demo_paging"
    "bitmap_area demo_huge = bitmap_area demo_paging" "managed demo_huge = managed demo_paging"
    unfolding demo_huge_def by (rule mem_update_ready)+
  have m: "mem demo_huge = huge_mem" "as_mode demo_huge = FourLevel" "as_root demo_huge = 0x2000" "PAGING_MANAGER demo_huge \<noteq> None"
    by (simp_all add: demo_huge_def as_mode_def as_root_def demo_paging_def)
  have "tree_inv [PML4, PDPT, PD, PT] 0x2000 demo_huge"
  proof (rule tree_invI)
    show "page_base x \<notin> tables (mem demo_huge) [PML4, PDPT, PD, PT] 0x2000 \<and> page_base x \<notin> avail demo_huge"
      if "x \<in> bitmap_area demo_huge" for x
      using that demo_bitmap_area by (auto simp: m huge_tables U demo_avail page_base_def)
  qed (simp_all add: U m huge_tables huge_tree_ok demo_avail demo_managed)
  then show ?thesis using m by (simp add: paging_ready_def)
qed

lemma demo_huge_lookup: "as_lookup demo_huge 0x200000 = Some (0x200083, 0x1FFFFF)"
proof -
  have m: "as_lookup demo_huge = lookup huge_mem [PML4, PDPT, PD, PT] 0x2000"
    by (simp add: as_lookup_def demo_huge_def as_mode_def as_root_def demo_paging_def fun_eq_iff)
  have i: "level_index PML4 0x200000 = 0" "level_index PDPT 0x200000 = 0" "level_index PD 0x200000 = 1"
    by (simp_all add: va_pml4_index_def va_pdpt_index_def va_pd_index_def)
  have "lookup huge_mem [PML4, PDPT, PD, PT] 0x2000 0x200000 = lookup huge_mem [PDPT, PD, PT] 0x3000 0x200000"
    by (rule lookup_child) (unfold i, simp add: huge_children)
  also have "\<dots> = lookup huge_mem [PD, PT] 0x4000 0x200000"
    by (rule lookup_child) (unfold i, simp add: huge_children)
  also have "\<dots> = Some (0x200083, 0x1FFFFF)"
    using lookup_no_child [of huge_mem PD "0x4000" "0x200000" PT "[]", unfolded i]
    by (simp add: huge_children huge_entries pte_is_present_def PRESENT_def)
  finally show ?thesis by (simp add: m)
qed

theorem map_page_in_huge_page_witness:
  "\<exists>s'. map_page 0x200000 0x7000 3 demo_huge = (Ok (), s') \<and> translation s' = translation demo_huge
     \<and> read_u64 (mem s') 0x200000 = 0x7003"
proof -
  have a: "pte_address 0x200083 = 0x200000" by (simp add: pte_address_def ADDRESS_MASK_def)
  have "as_mode demo_huge = FourLevel" "as_root demo_huge = 0x2000" "mem demo_huge = huge_mem"
    by (simp_all add: demo_huge_def as_mode_def as_root_def demo_paging_def)
  then have "canonical demo_huge 0x200000" "page_tables demo_huge = {0x2000, 0x3000, 0x4000}"
    by (simp_all add: canonical_def va_is_canonical_la48_def page_tables_def huge_tables)
  then have "\<exists>s'. map_page 0x200000 0x7000 3 demo_huge = (Ok (), s') \<and> translation s' = translation demo_huge
     \<and> read_u64 (mem s') (pte_address 0x200083 + va_pt_index 0x200000 * 8) = pte_make 0x7000 3"
    by (intro map_page_in_huge_page [OF demo_huge_ready demo_huge_lookup])
      (simp_all add: a demo_tables pa_is_aligned_def)
  moreover have "pte_make 0x7000 3 = 0x7003" "va_pt_index 0x200000 = 0"
    by (simp_all add: pte_make_def ADDRESS_MASK_def va_pt_index_def)
  ultimately show ?thesis by (simp add: a)
qed

text \<open>The state after mapping one page on the demonstration machine, for the witnesses.\<close>

lemma demo_mapped:
  obtains s where "map_page 0x400000 0x7000 3 demo_paging = (Ok (), s)" "paging_ready s" "\<not> huge_mapped s 0x400000"
    "as_lookup s 0x400000 \<noteq> None" "translation s 0x400000 = Some 0x7000" "as_mode s = FourLevel"
proof -
  obtain s' where m: "map_page 0x400000 0x7000 3 demo_paging = (Ok (), s')" by (rule demo_map)
  obtain s1 where s1: "grows (mode_levels (as_mode demo_paging)) (as_root demo_paging) demo_paging s1" "s' = invlpg 0x400000 s1"
    "\<And>w. as_lookup s1 w = (if same_page demo_paging 0x400000 w then leaf 0x7000 3 else as_lookup demo_paging w)"
    using map_page_effect [OF demo_paging_ready demo_not_huge m] by auto
  have lf: "leaf 0x7000 3 = Some (0x7003, 0xFFF)"
    by (simp add: leaf_def pte_make_def ADDRESS_MASK_def pte_is_present_def PRESENT_def)
  have rd: "paging_ready s1" by (rule grows_ready [OF demo_paging_ready s1(1)])
  have md: "as_mode s1 = FourLevel" using same_rest_as(4) [OF growsD(2) [OF s1(1)]] demo_as by simp
  have lk: "as_lookup s1 0x400000 = Some (0x7003, 0xFFF)" using s1(3) lf by (simp add: same_page_def)
  have "translation s1 0x400000 = Some 0x7000"
    using translation_lookup [of s1 "0x400000"] paging_readyD(2) [OF rd] lk
    by (simp add: canonical_def md va_is_canonical_la48_def pte_address_def ADDRESS_MASK_def va_page_offset_def)
  moreover have "\<not> huge_mapped s' 0x400000" using s1(3) lf by (simp add: huge_mapped_lookup s1(2) demo_lookup)
  ultimately show thesis using that [OF m] rd lk md by (simp add: s1(2))
qed


theorem map_unmap_round_trip_witness:
  "\<exists>s1 s2. map_page 0x400000 0x7000 3 demo_paging = (Ok (), s1) \<and> unmap_page 0x400000 s1 = (Ok (), s2)
     \<and> translation s2 = translation demo_paging
     \<and> avail s2 \<union> page_tables s2 = avail demo_paging \<union> page_tables demo_paging"
proof -
  obtain s1 where m: "map_page 0x400000 0x7000 3 demo_paging = (Ok (), s1)" by (rule demo_map)
  have "translation demo_paging 0x400000 = None" "ptf_contains 3 PRESENT"
    using translation_None_iff [OF demo_paging_ready] by (simp_all add: demo_lookup ptf_contains_def PRESENT_def)
  from map_unmap_round_trip [OF demo_paging_ready this(1) demo_not_huge this(2) m] demo_low(1) m show ?thesis by blast
qed

theorem remap_page_correct_witness:
  "\<exists>(s :: paging_machine) s'. remap_page 0x400000 0x6000 1 s = (Ok (), s') \<and> translation s 0x400000 = Some 0x7000
     \<and> translation s' 0x400000 = Some 0x6000"
proof -
  obtain s :: paging_machine where s: "paging_ready s" "\<not> huge_mapped s 0x400000" "as_lookup s 0x400000 \<noteq> None" "translation s 0x400000 = Some 0x7000"
    "as_mode s = FourLevel"
    by (rule demo_mapped) blast
  obtain r s' where u: "remap_page 0x400000 0x6000 1 s = (r, s')" by fastforce
  have f: "(0x6000 :: u64) < 2 ^ 52" "(1 :: u64) AND ADDRESS_MASK = 0" by (simp_all add: ADDRESS_MASK_def)
  have "canonical s 0x400000" by (simp add: canonical_def s(5) va_is_canonical_la48_def)
  then have "r = Ok () \<and> translation s' 0x400000 = Some 0x6000"
    using remap_page_correct [OF s(1,2) f] s(3)
    by (auto simp: u same_page_def pa_is_aligned_def ptf_contains_def PRESENT_def va_page_offset_def split: sum.splits)
  with u s(4) show ?thesis by blast
qed

theorem change_page_flags_correct_witness:
  "\<exists>(s :: paging_machine) s'. change_page_flags 0x400000 5 s = (Ok (), s') \<and> translation s' 0x400000 = Some 0x7000
     \<and> get_page_flags 0x400000 s' = Ok 5"
proof -
  obtain s :: paging_machine where s: "paging_ready s" "\<not> huge_mapped s 0x400000" "translation s 0x400000 = Some 0x7000" "as_mode s = FourLevel"
    by (rule demo_mapped) blast
  have f: "(5 :: u64) AND ADDRESS_MASK = 0" "ptf_contains 5 PRESENT" by (simp_all add: ADDRESS_MASK_def ptf_contains_def PRESENT_def)
  have "canonical s 0x400000" by (simp add: canonical_def s(4) va_is_canonical_la48_def)
  moreover obtain s' where "change_page_flags 0x400000 5 s = (Ok (), s')" "translation s' = translation s"
    "\<forall>w. same_page s 0x400000 w \<and> canonical s w \<longrightarrow> get_page_flags w s' = Ok (5 AND 0xFFF)"
    using change_page_flags_correct [OF s(1,2) f] s(3) by auto
  ultimately have "change_page_flags 0x400000 5 s = (Ok (), s') \<and> translation s' 0x400000 = Some 0x7000
     \<and> get_page_flags 0x400000 s' = Ok 5" using s(3) by (simp add: same_page_def)
  then show ?thesis by blast
qed

section \<open>Ranges\<close>

lemma map_pages_correct:
  assumes "paging_ready s" "\<forall>i\<in>set is. \<not> huge_mapped s (v + i * PAGE_SIZE)"
    "\<forall>i\<in>set is. p + i * PAGE_SIZE < 2 ^ 52" "flags AND ADDRESS_MASK = 0" "ptf_contains flags PRESENT"
    "distinct is" "\<forall>i\<in>set is. \<forall>j\<in>set is. i \<noteq> j \<longrightarrow> \<not> same_page s (v + i * PAGE_SIZE) (v + j * PAGE_SIZE)"
    "map_pages is v p flags s = (r, s')"
  shows "paging_ready s' \<and> (\<forall>w. (\<forall>i\<in>set is. \<not> same_page s (v + i * PAGE_SIZE) w) \<longrightarrow> translation s' w = translation s w)
     \<and> (r = Ok () \<longrightarrow> (\<forall>w. \<forall>i\<in>set is. same_page s (v + i * PAGE_SIZE) w \<and> canonical s w \<longrightarrow>
           translation s' w = Some (p + i * PAGE_SIZE OR va_page_offset w)))"
  using assms
proof (induction "is" arbitrary: s)
  case (Cons i "is")
  obtain r1 s1 where m: "map_page (v + i * PAGE_SIZE) (p + i * PAGE_SIZE) flags s = (r1, s1)" by fastforce
  have nh: "\<not> huge_mapped s (v + i * PAGE_SIZE)" "p + i * PAGE_SIZE < 2 ^ 52" using Cons.prems(2,3) by simp_all
  obtain s0 where s0: "grows (mode_levels (as_mode s)) (as_root s) s s0" "s1 = (if r1 = Ok () then invlpg (v + i * PAGE_SIZE) s0 else s0)"
    and lk: "\<And>w. as_lookup s0 w = (if r1 = Ok () \<and> same_page s (v + i * PAGE_SIZE) w then leaf (p + i * PAGE_SIZE) flags else as_lookup s w)"
    and al: "r1 = Ok () \<Longrightarrow> pa_is_aligned (p + i * PAGE_SIZE) \<and> canonical s (v + i * PAGE_SIZE)"
    using map_page_effect [OF Cons.prems(1) nh(1) m] by blast
  note S = same_rest_as [OF growsD(2) [OF s0(1)]]
  have rd: "paging_ready s1" using grows_ready [OF Cons.prems(1) s0(1)] s0(2) by simp
  have c1: "canonical s1 = canonical s" "same_page s1 = same_page s" using S s0(2) by simp_all
  have tr: "translation s1 w = (if r1 = Ok () \<and> same_page s (v + i * PAGE_SIZE) w \<and> canonical s w
      then Some (p + i * PAGE_SIZE OR va_page_offset w) else translation s w)" for w
    using translation_lookup [of s1 w] translation_lookup [of s w] paging_readyD(2) [OF rd] paging_readyD(2) [OF Cons.prems(1)]
      lk [of w] c1 leaf_phys [OF _ nh(2) Cons.prems(4), of w] al s0(2) Cons.prems(5) by auto
  show ?case
  proof (cases "r1 = Ok ()")
    case False
    then obtain e where "r1 = Err e" by (cases r1) auto
    then have "r = Err e" "s' = s1" using Cons.prems(8) m by auto
    then show ?thesis using rd tr False by simp
  next
    case True
    then have w: "map_pages is v p flags s1 = (r, s')" using Cons.prems(8) m by simp
    have "\<not> huge_mapped s1 (v + j * PAGE_SIZE)" if "j \<in> set is" for j
    proof -
      have "i \<noteq> j" using that Cons.prems(6) by auto
      then have "as_lookup s1 (v + j * PAGE_SIZE) = as_lookup s (v + j * PAGE_SIZE)"
        using lk s0(2) Cons.prems(7) that by auto
      then show ?thesis using Cons.prems(2) that by (simp add: huge_mapped_lookup)
    qed
    with Cons.IH [OF rd _ _ Cons.prems(4,5) _ _ w] Cons.prems
    have IH: "paging_ready s' \<and> (\<forall>w. (\<forall>i\<in>set is. \<not> same_page s (v + i * PAGE_SIZE) w) \<longrightarrow> translation s' w = translation s1 w)
     \<and> (r = Ok () \<longrightarrow> (\<forall>w. \<forall>i\<in>set is. same_page s (v + i * PAGE_SIZE) w \<and> canonical s w \<longrightarrow>
           translation s' w = Some (p + i * PAGE_SIZE OR va_page_offset w)))" by (simp add: c1)
    have "translation s' w = Some (p + i * PAGE_SIZE OR va_page_offset w)"
      if sp: "same_page s (v + i * PAGE_SIZE) w" "canonical s w" for w
    proof -
      have "\<not> same_page s (v + j * PAGE_SIZE) w" if "j \<in> set is" for j
        using Cons.prems(6,7) that sp(1) by (auto simp: same_page_def)
      then have "translation s' w = translation s1 w" using IH by blast
      then show ?thesis using tr True sp by simp
    qed
    then show ?thesis using IH tr by auto
  qed
qed simp

lemma page_number_low: "v < 2 ^ 48 \<Longrightarrow> unat (page_number md v) = unat v div 4096"
proof -
  assume v: "v < 2 ^ 48"
  have u: "unat v < 2 ^ 48" using v by (simp add: word_less_nat_alt)
  have d: "unat (drop_bit 12 v) = unat v div 4096" by (simp add: unat_drop_bit_eq drop_bit_eq_div unat_div)
  have "unat v div 4096 < 2 ^ 36" using u by simp
  then show ?thesis
    by (cases md) (simp_all add: unsigned_take_bit_eq d take_bit_nat_eq_self)
qed

lemma canonical_low: "w < 2 ^ 48 \<Longrightarrow> canonical s w"
proof -
  assume w: "w < 2 ^ 48"
  have bw: "n < 48" if "bit w n" for n using w bit_small_u64 [of w 48 n] that by (simp add: word_less_nat_alt)
  have "drop_bit 48 w = 0" "drop_bit 57 w = 0" by (rule bit_eqI; use bw in \<open>force simp: bit_drop_bit_eq\<close>)+
  then show ?thesis by (cases "as_mode s") (simp_all add: canonical_def va_is_canonical_la48_def va_is_canonical_la57_def)
qed

lemma page_split: "x = x div 4096 * 4096 + (x AND 0xFFF)" for x :: u64
proof -
  have "x AND 0xFFF = x mod 4096" using take_bit_eq_mod [of 12 x] by (simp add: page_mask take_bit_eq_mask [symmetric])
  then show ?thesis using word_mod_div_equality [of x 4096] by (simp add: mult.commute)
qed

lemma aligned_page_base: "pa_is_aligned p \<longleftrightarrow> page_base p = p"
proof -
  have "p AND 0xFFF = 0 \<longleftrightarrow> page_base p = p" using page_base_plus_offset [of p] by (metis add.right_neutral add_left_cancel)
  then show ?thesis by (simp add: pa_is_aligned_def)
qed

lemma page_base_mult: "page_base (i * 4096 :: u64) = i * 4096"
proof -
  have "i * 4096 = push_bit 12 i" by (simp add: push_bit_eq_mult)
  then show ?thesis by (intro bit_eqI) (auto simp: bit_page_base bit_push_bit_iff)
qed

lemma page_base_unat: "page_base a = a \<longleftrightarrow> unat a mod 4096 = 0"
  unfolding page_base_iff_dvd by (simp add: word_unat_eq_iff unat_mod)

lemma page_base_sum:
  assumes "page_base a = a" "page_base b = b"
  shows "page_base (a + b) = a + b"
proof -
  have "unat (a + b) mod 4096 = (unat a + unat b) mod 2 ^ 64 mod 4096" by (simp add: unat_word_ariths)
  also have "\<dots> = (unat a + unat b) mod 4096" by (rule mod_mod_cancel) simp
  also have "\<dots> = 0" using assms unfolding page_base_unat by (simp add: mod_add_eq [symmetric])
  finally show ?thesis by (simp add: page_base_unat)
qed

lemma add_in_page:
  assumes "page_base p = p" "page_base v = v"
  shows "p + x div 4096 * 4096 OR va_page_offset (v + x) = p + x"
proof -
  let ?i = "x div 4096 * 4096" and ?o = "x AND 0xFFF :: u64"
  have x: "x = ?i + ?o" by (rule page_split)
  have "page_base (v + ?i) = v + ?i" using assms(2) page_base_mult by (rule page_base_sum)
  then have b: "page_base (v + ?i + ?o) = v + ?i" using page_offset_less by (rule page_base_add(1))
  have vx: "v + x = v + ?i + ?o" using x by (metis add.assoc)
  have "va_page_offset (v + x) = ?o"
    using page_base_plus_offset [of "v + ?i + ?o"] unfolding b vx va_page_offset_def by simp
  moreover have "page_base (p + ?i) = p + ?i" using assms(1) page_base_mult by (rule page_base_sum)
  then have "p + ?i OR ?o = p + ?i + ?o" using page_base_add(2) [OF _ page_offset_less] by metis
  ultimately show ?thesis using x by (metis add.assoc)
qed

text \<open>
  \<^verbatim>\<open>map_range\<close> from a page boundary, below \<open>2 ^ 48\<close> and clear of huge pages: when it succeeds,
  every byte of the range translates to the byte at the same distance from the physical start, and
  addresses outside the range translate as before; also when it fails on the way, the tables stay
  well-formed and addresses outside the range are not touched.
\<close>

theorem map_range_correct:
  assumes "paging_ready s" "page_base v = v" "pa_is_aligned p" "flags AND ADDRESS_MASK = 0" "ptf_contains flags PRESENT"
    and n: "n = (bytes + PAGE_SIZE - 1) div PAGE_SIZE" "unat v + unat n * 4096 \<le> 2 ^ 48" "unat p + unat n * 4096 \<le> 2 ^ 52"
    and "\<forall>i<n. \<not> huge_mapped s (v + i * PAGE_SIZE)" "map_range v p bytes flags s = (r, s')"
  shows "paging_ready s'
     \<and> (r = Ok () \<longrightarrow> (\<forall>x. unat x < unat n * 4096 \<longrightarrow> translation s' (v + x) = Some (p + x)))
     \<and> (\<forall>w<2 ^ 48. w < v \<or> unat v + unat n * 4096 \<le> unat w \<longrightarrow> translation s' w = translation s w)"
proof -
  have ix: "x \<in> set (range_w 0 n) \<longleftrightarrow> x < n" for x :: usize by (simp add: set_range_w)
  have u4: "unat (i * 4096) = unat i * 4096" if "i < n" for i
    using that n(2) by (subst unat_mult_lem [THEN iffD1]) (auto simp: word_less_nat_alt)
  have uv: "unat (v + x) = unat v + unat x" if "unat x < unat n * 4096" for x
    using that n(2) by (subst unat_add_lem [THEN iffD1]) auto
  have low: "v + x < 2 ^ 48" if "unat x < unat n * 4096" for x
    using uv [OF that] that n(2) by (simp add: word_less_nat_alt)
  have ui: "unat (i * 4096) < unat n * 4096" if "i < n" for i using that u4 [OF that] by (simp add: word_less_nat_alt)
  have va: "unat v = unat v div 4096 * 4096" 
  proof -
    have "unat v mod 4096 = 0" using assms(2) unfolding page_base_unat .
    then show ?thesis using div_mult_mod_eq [of "unat v" 4096] by simp
  qed
  have pn: "unat (page_number md (v + x)) = unat v div 4096 + unat x div 4096" if "unat x < unat n * 4096" for x md
  proof -
    have "unat (page_number md (v + x)) = (unat v div 4096 * 4096 + unat x) div 4096"
      using page_number_low [OF low [OF that]] uv [OF that] va by simp
    then show ?thesis by simp
  qed
  have sp: "same_page s (v + i * 4096) (v + x) \<longleftrightarrow> unat x div 4096 = unat i" if "i < n" "unat x < unat n * 4096" for i x
    using pn [OF ui [OF that(1)], of "as_mode s"] pn [OF that(2), of "as_mode s"] u4 [OF that(1)]
    by (simp add: same_page_def word_unat_eq_iff)
  have pl: "p + i * 4096 < 2 ^ 52" if "i < n" for i
  proof -
    have "unat (p + i * 4096) \<le> unat p + unat (i * 4096)" by (simp add: unat_plus_if')
    then show ?thesis using ui [OF that] n(3) by (simp add: word_less_nat_alt)
  qed
  have m: "map_pages (range_w 0 n) v p flags s = (r, s')" using assms(10) n(1) by (simp add: map_range_def)
  have dj: "\<not> same_page s (v + i * 4096) (v + j * 4096)" if "i < n" "j < n" "i \<noteq> j" for i j
    using sp [OF that(1) ui [OF that(2)]] u4 [OF that(2)] that(3) by (simp add: word_unat_eq_iff)
  have M: "paging_ready s' \<and> (\<forall>w. (\<forall>i\<in>set (range_w 0 n). \<not> same_page s (v + i * PAGE_SIZE) w) \<longrightarrow> translation s' w = translation s w)
     \<and> (r = Ok () \<longrightarrow> (\<forall>w. \<forall>i\<in>set (range_w 0 n). same_page s (v + i * PAGE_SIZE) w \<and> canonical s w \<longrightarrow>
           translation s' w = Some (p + i * PAGE_SIZE OR va_page_offset w)))"
    by (rule map_pages_correct [OF assms(1) _ _ assms(4,5) distinct_range_w _ m])
      (use assms(9) pl dj in \<open>auto simp: ix PAGE_SIZE_def\<close>)
  have "translation s' (v + x) = Some (p + x)" if "r = Ok ()" "unat x < unat n * 4096" for x
  proof -
    have i: "x div 4096 < n" "unat (x div 4096) = unat x div 4096"
      using that(2) by (simp_all add: word_less_nat_alt unat_div less_mult_imp_div_less)
    have "same_page s (v + x div 4096 * 4096) (v + x)" using sp [OF i(1) that(2)] i(2) by simp
    then have "translation s' (v + x) = Some (p + x div 4096 * 4096 OR va_page_offset (v + x))"
      using M that(1) i(1) canonical_low [OF low [OF that(2)]] unfolding PAGE_SIZE_def by (auto simp: set_range_w)
    then show ?thesis using add_in_page assms(2,3) aligned_page_base by metis
  qed
  moreover have "translation s' w = translation s w" if w: "w < 2 ^ 48" "w < v \<or> unat v + unat n * 4096 \<le> unat w" for w
  proof -
    have "\<not> same_page s (v + i * 4096) w" if i: "i < n" for i
    proof
      assume "same_page s (v + i * 4096) w"
      then have e: "unat w div 4096 = unat v div 4096 + unat i"
        using pn [OF ui [OF i], of "as_mode s"] page_number_low [OF w(1), of "as_mode s"] u4 [OF i] by (simp add: same_page_def)
      have "unat i < unat n" using i by (simp add: word_less_nat_alt)
      then have "unat v \<le> unat w \<and> unat w < unat v + unat n * 4096" using e va by linarith
      then show False using w(2) by (simp add: word_less_nat_alt)
    qed
    then show ?thesis using M by (simp add: ix PAGE_SIZE_def)
  qed
  ultimately show ?thesis using M by blast
qed

theorem map_range_correct_witness:
  "\<exists>r s'. map_range 0x400000 0x6000 0x2000 3 demo_paging = (r, s') \<and> paging_ready s'"
proof -
  obtain r s' where m: "map_range 0x400000 0x6000 0x2000 3 demo_paging = (r, s')" by fastforce
  have "page_base 0x400000 = 0x400000" "pa_is_aligned 0x6000" "(3 :: u64) AND ADDRESS_MASK = 0" "ptf_contains 3 PRESENT"
    "(2 :: u64) = (0x2000 + PAGE_SIZE - 1) div PAGE_SIZE" "unat (0x400000 :: u64) + unat (2 :: u64) * 4096 \<le> 2 ^ 48"
    "unat (0x6000 :: u64) + unat (2 :: u64) * 4096 \<le> 2 ^ 52" "\<forall>i<2. \<not> huge_mapped demo_paging (0x400000 + i * PAGE_SIZE)"
    by (simp_all add: page_base_def pa_is_aligned_def ADDRESS_MASK_def ptf_contains_def PRESENT_def PAGE_SIZE_def demo_not_huge)
  from map_range_correct [OF demo_paging_ready this m] m show ?thesis by blast
qed

section \<open>Changes outside the tables\<close>

text \<open>
  A change of memory outside the tables and of the free frames, as an allocation or a write to a
  page makes it, leaves the address space alone.
\<close>

lemma outside_tables:
  assumes rd: "paging_ready s" and pr: "pmm_ready s'" and sr: "same_rest s s'" and av: "avail s' \<subseteq> avail s"
    and fr: "\<forall>x. page_base x \<in> page_tables s \<longrightarrow> mem s' x = mem s x"
  shows "paging_ready s'" "as_lookup s' w = as_lookup s w" "page_tables s' = page_tables s"
    "translation s' = translation s" "huge_mapped s' = huge_mapped s"
proof -
  let ?L = "mode_levels (as_mode s)" and ?R = "as_root s"
  note D = tree_invD [OF paging_readyD(1) [OF rd]] and S = same_rest_as [OF sr]
  have F: "tree_ok (mem s') ?L ?R \<and> tables (mem s') ?L ?R = tables (mem s) ?L ?R
      \<and> (\<forall>w. lookup (mem s') ?L ?R w = lookup (mem s) ?L ?R w)"
    by (rule tree_frame [OF D(2)]) (use fr in \<open>simp add: page_tables_def\<close>)
  have inv: "tree_inv ?L ?R s'"
  proof (rule tree_invI)
    show "tables (mem s') ?L ?R \<subseteq> managed s'" using F D(3) same_restD(2) [OF sr] by simp
    show "tables (mem s') ?L ?R \<inter> avail s' = {}" using F D(4) av by auto
    show "page_base x \<notin> tables (mem s') ?L ?R \<and> page_base x \<notin> avail s'" if "x \<in> bitmap_area s'" for x
      using F D(5) [of x] that same_restD(1) [OF sr] av by auto
  qed (use F pr in simp_all)
  then show rd': "paging_ready s'" using rd S by (simp add: paging_ready_def)
  show lk: "as_lookup s' w = as_lookup s w" for w using F S by (simp add: as_lookup_def)
  show "page_tables s' = page_tables s" using F S by (simp add: page_tables_def)
  show "translation s' = translation s"
    using translation_lookup [of s'] translation_lookup [of s] paging_readyD(2) [OF rd] paging_readyD(2) [OF rd'] lk S
    by (auto simp: fun_eq_iff)
  show "huge_mapped s' = huge_mapped s" using lk by (simp add: huge_mapped_lookup fun_eq_iff)
qed

lemma bitmap_change:
  assumes "paging_ready s" "\<forall>x. x \<notin> bitmap_area s \<longrightarrow> mem s' x = mem s x"
  shows "\<forall>x. page_base x \<in> page_tables s \<longrightarrow> mem s' x = mem s x"
  using assms(2) tree_invD(5) [OF paging_readyD(1) [OF assms(1)]] unfolding page_tables_def by blast

lemma takes_outside:
  assumes rd: "paging_ready s" and t: "takes s a s'"
  shows "paging_ready s'" "as_lookup s' w = as_lookup s w" "page_tables s' = page_tables s"
    "translation s' = translation s" "huge_mapped s' = huge_mapped s"
proof -
  note T = takesD [OF t]
  have fr: "\<forall>x. page_base x \<in> page_tables s \<longrightarrow> mem s' x = mem s x"
    by (rule bitmap_change [OF rd]) (use T(4) in blast)
  show "paging_ready s'" "as_lookup s' w = as_lookup s w" "page_tables s' = page_tables s"
    "translation s' = translation s" "huge_mapped s' = huge_mapped s"
    by (rule outside_tables [OF rd T(1-3) fr])+
qed

lemma same_rest_more: "same_rest s s' \<Longrightarrow> paging_machine.more s' = paging_machine.more s"
proof -
  assume "same_rest s s'"
  then have s': "s' = s\<lparr>PMM_INSTANCE := PMM_INSTANCE s', mem := mem s'\<rparr>" by (simp add: same_rest_def)
  show ?thesis by (subst s') simp
qed

lemma invlpg_more [simp]: "paging_machine.more (invlpg v s) = paging_machine.more s"
  by (simp add: invlpg_def)

text \<open>The law of \<^verbatim>\<open>map_page\<close> in the contract of an address space.\<close>

definition mapping_flags :: "PageTableFlags \<Rightarrow> bool" where
  "mapping_flags flags \<longleftrightarrow> flags AND ADDRESS_MASK = 0 \<and> ptf_contains flags PRESENT"

lemma map_page_contract:
  assumes rd: "paging_ready s" and nh: "\<not> huge_mapped s v" and a: "a < 2 ^ 52" and f: "mapping_flags flags"
    and m: "map_page v a flags s = (r, s')"
  shows "paging_ready s' \<and> same_page s' = same_page s \<and> canonical s' = canonical s
     \<and> paging_machine.more s' = paging_machine.more s
     \<and> (\<forall>w. \<not> huge_mapped s w \<longrightarrow> \<not> huge_mapped s' w) \<and> avail s' \<subseteq> avail s
     \<and> page_tables s' \<subseteq> page_tables s \<union> (avail s - avail s')
     \<and> (\<forall>w. translation s' w = (if r = Ok () \<and> same_page s v w \<and> canonical s w then Some (a OR va_page_offset w) else translation s w))"
proof -
  obtain s1 where s1: "grows (mode_levels (as_mode s)) (as_root s) s s1" "s' = (if r = Ok () then invlpg v s1 else s1)"
    and lk: "\<And>w. as_lookup s1 w = (if r = Ok () \<and> same_page s v w then leaf a flags else as_lookup s w)"
    and al: "r = Ok () \<Longrightarrow> pa_is_aligned a \<and> canonical s v"
    using map_page_effect [OF rd nh m] by blast
  note S = same_rest_as [OF growsD(2) [OF s1(1)]]
  have rd1: "paging_ready s1" by (rule grows_ready [OF rd s1(1)])
  have lk': "as_lookup s' w = as_lookup s1 w" for w using s1(2) by simp
  have tr: "translation s1 w = (if r = Ok () \<and> same_page s v w \<and> canonical s w then Some (a OR va_page_offset w) else translation s w)" for w
    using translation_lookup [of s1 w] translation_lookup [of s w] paging_readyD(2) [OF rd1] paging_readyD(2) [OF rd]
      lk [of w] S leaf_phys [OF _ a, of flags w] al f by (auto simp: mapping_flags_def)
  have "\<not> huge_mapped s' w" if "\<not> huge_mapped s w" for w
    using that lk lk' by (auto simp: huge_mapped_lookup leaf_def split: if_splits)
  moreover have "paging_ready s'" "same_page s' = same_page s" "canonical s' = canonical s" "avail s' = avail s1"
    "page_tables s' = page_tables s1" "translation s' = translation s1" "paging_machine.more s' = paging_machine.more s1"
    using s1(2) rd1 S by simp_all
  moreover have "page_tables s1 \<subseteq> page_tables s \<union> (avail s - avail s1)" using growsD(5) [OF s1(1)] S by (simp add: page_tables_def)
  ultimately show ?thesis using tr growsD(3) [OF s1(1)] same_rest_more [OF growsD(2) [OF s1(1)]] by simp
qed

text \<open>Pages of the lower half: two addresses share a page when their quotients by 4096 agree.\<close>

lemma same_page_low:
  assumes "v < 2 ^ 48" "w < 2 ^ 48"
  shows "same_page s v w \<longleftrightarrow> unat v div 4096 = unat w div 4096"
  using page_number_low [OF assms(1)] page_number_low [OF assms(2)] unfolding same_page_def by (metis word_unat_eq_iff)

lemma page_slot:
  assumes v: "page_base v = v" and x: "unat x < n * 4096" and n: "unat v + n * 4096 \<le> 2 ^ 48"
  shows "v + x < 2 ^ 48" "unat (v + x) = unat v + unat x" "unat (v + x) div 4096 = unat v div 4096 + unat x div 4096"
proof -
  show u: "unat (v + x) = unat v + unat x" using x n by (subst unat_add_lem [THEN iffD1]) auto
  then show "v + x < 2 ^ 48" using x n by (simp add: word_less_nat_alt)
  have m: "unat v mod 4096 = 0" using v unfolding page_base_unat .
  have "unat v div 4096 * 4096 + unat x = unat v + unat x" using div_mult_mod_eq [of "unat v" 4096] m by simp
  then have "unat (v + x) div 4096 = (unat v div 4096 * 4096 + unat x) div 4096" using u by simp
  then show "unat (v + x) div 4096 = unat v div 4096 + unat x div 4096" by simp
qed

lemma unat_page_mult: "i < n \<Longrightarrow> n * 4096 \<le> 2 ^ 48 \<Longrightarrow> unat (word_of_nat i * 4096 :: u64) = i * 4096"
  by (simp add: unat_word_ariths unat_of_nat)

text \<open>The address space depends on memory, the frame allocator and the manager only, whatever else the state holds.\<close>

lemma address_space_cong:
  fixes s :: "'a paging_machine_scheme" and s' :: "'b paging_machine_scheme"
  assumes "mem s' = mem s" "PMM_INSTANCE s' = PMM_INSTANCE s" "PAGING_MANAGER s' = PAGING_MANAGER s"
  shows "avail s' = avail s" "low_memory s' = low_memory s" "pmm_ready s' = pmm_ready s" "page_tables s' = page_tables s" "huge_mapped s' = huge_mapped s"
    "same_page s' = same_page s" "canonical s' = canonical s" "paging_ready s' = paging_ready s" "translation s' = translation s"
    "as_mode s' = as_mode s"
proof -
  show b: "avail s' = avail s" using assms by (simp add: avail_def cong: option.case_cong)
  show "low_memory s' = low_memory s" using b by (simp add: low_memory_def)
  show r: "pmm_ready s' = pmm_ready s" using assms by (simp add: pmm_ready_def)
  have m: "managed s' = managed s" "bitmap_area s' = bitmap_area s" using assms by (simp_all add: managed_def bitmap_area_def cong: option.case_cong)
  show a: "as_mode s' = as_mode s" using assms by (simp add: as_mode_def)
  have o: "as_root s' = as_root s" using assms by (simp add: as_root_def)
  show "page_tables s' = page_tables s" using a o assms by (simp add: page_tables_def)
  show "huge_mapped s' = huge_mapped s" "same_page s' = same_page s" "canonical s' = canonical s"
    using a o assms(1) by (intro ext, simp add: huge_mapped_def same_page_def canonical_def)+
  show "paging_ready s' = paging_ready s" using a b o m r assms by (simp add: paging_ready_def tree_inv_def)
  show "translation s' = translation s" using assms by (intro ext) (simp add: translation_def translate_address_def cong: option.case_cong sum.case_cong)
qed

end
