(* ===== verification/Pat.thy ===== *)
theory Pat
  imports Paging_Correct
begin

text \<open>
  The page attribute table (\<^verbatim>\<open>memory/pat.rs\<close>): memory types, the value of the \<^verbatim>\<open>IA32_PAT\<close> register, its
  initialisation, and the page table flags that select a memory type. The serial output of the
  initialisation is left out.
\<close>

unbundle bit_operations_syntax

section \<open>Memory types\<close>

definition IA32_PAT_MSR :: u32 where "IA32_PAT_MSR = 0x277"

datatype MemoryType = UC | WC | Reserved2 | Reserved3 | WT | WP | WB | UCMinus

fun MemoryType_u8 :: "MemoryType \<Rightarrow> u8" where
  "MemoryType_u8 UC = 0x00"
| "MemoryType_u8 WC = 0x01"
| "MemoryType_u8 Reserved2 = 0x02"
| "MemoryType_u8 Reserved3 = 0x03"
| "MemoryType_u8 WT = 0x04"
| "MemoryType_u8 WP = 0x05"
| "MemoryType_u8 WB = 0x06"
| "MemoryType_u8 UCMinus = 0x07"

definition MemoryType_from_u8 :: "u8 \<Rightarrow> MemoryType option" where
  "MemoryType_from_u8 val =
     (if val = 0x00 then Some UC else if val = 0x01 then Some WC else if val = 0x04 then Some WT
      else if val = 0x05 then Some WP else if val = 0x06 then Some WB else if val = 0x07 then Some UCMinus
      else None)"

fun MemoryType_name :: "MemoryType \<Rightarrow> string" where
  "MemoryType_name UC = ''UC (Uncacheable)''"
| "MemoryType_name WC = ''WC (Write-Combining)''"
| "MemoryType_name WT = ''WT (Write-Through)''"
| "MemoryType_name WP = ''WP (Write-Protected)''"
| "MemoryType_name WB = ''WB (Write-Back)''"
| "MemoryType_name UCMinus = ''UC- (Uncacheable)''"
| "MemoryType_name Reserved2 = ''Reserved''"
| "MemoryType_name Reserved3 = ''Reserved''"

section \<open>Configurations\<close>

record PatConfig =
  pa0 :: MemoryType
  pa1 :: MemoryType
  pa2 :: MemoryType
  pa3 :: MemoryType
  pa4 :: MemoryType
  pa5 :: MemoryType
  pa6 :: MemoryType
  pa7 :: MemoryType

definition PatConfig_default :: PatConfig where
  "PatConfig_default = \<lparr>pa0 = WB, pa1 = WT, pa2 = UCMinus, pa3 = UC, pa4 = WB, pa5 = WT, pa6 = UCMinus, pa7 = UC\<rparr>"

definition PatConfig_optimized :: PatConfig where
  "PatConfig_optimized = \<lparr>pa0 = WB, pa1 = WT, pa2 = UC, pa3 = UC, pa4 = WB, pa5 = WC, pa6 = WP, pa7 = UC\<rparr>"

definition to_msr_value :: "PatConfig \<Rightarrow> u64" where
  "to_msr_value c =
     ucast (MemoryType_u8 (pa0 c)) OR push_bit 8 (ucast (MemoryType_u8 (pa1 c)))
     OR push_bit 16 (ucast (MemoryType_u8 (pa2 c))) OR push_bit 24 (ucast (MemoryType_u8 (pa3 c)))
     OR push_bit 32 (ucast (MemoryType_u8 (pa4 c))) OR push_bit 40 (ucast (MemoryType_u8 (pa5 c)))
     OR push_bit 48 (ucast (MemoryType_u8 (pa6 c))) OR push_bit 56 (ucast (MemoryType_u8 (pa7 c)))"

definition pat_byte :: "u64 \<Rightarrow> nat \<Rightarrow> MemoryType \<Rightarrow> MemoryType" where
  "pat_byte val shift dflt =
     (case MemoryType_from_u8 (ucast (drop_bit shift val AND 0xFF)) of Some t \<Rightarrow> t | None \<Rightarrow> dflt)"

definition from_msr_value :: "u64 \<Rightarrow> PatConfig" where
  "from_msr_value val =
     \<lparr>pa0 = pat_byte val 0 WB, pa1 = pat_byte val 8 WT, pa2 = pat_byte val 16 UCMinus, pa3 = pat_byte val 24 UC,
      pa4 = pat_byte val 32 WB, pa5 = pat_byte val 40 WT, pa6 = pat_byte val 48 UCMinus, pa7 = pat_byte val 56 UC\<rparr>"

record PatManager =
  pat_supported :: bool
  pat_enabled :: bool
  pat_config :: PatConfig

definition PatManager_new :: PatManager where
  "PatManager_new = \<lparr>pat_supported = False, pat_enabled = False, pat_config = PatConfig_default\<rparr>"

section \<open>The machine\<close>

text \<open>The model-specific registers and the global manager.\<close>

record pat_machine = paging_machine +
  msrs :: "u32 \<Rightarrow> u64"
  PAT_MANAGER :: "PatManager option"

definition check_pat_support :: "'a pat_machine_scheme \<Rightarrow> bool" where
  "check_pat_support s \<longleftrightarrow> cpuid_edx (cpuid s 0x01 0) AND push_bit 16 1 \<noteq> 0"

text \<open>\<^verbatim>\<open>rdmsr\<close> and \<^verbatim>\<open>wrmsr\<close> pass the value in two 32-bit halves.\<close>

definition rdmsr :: "u32 \<Rightarrow> 'a pat_machine_scheme \<Rightarrow> u64" where
  "rdmsr msr s = (let low = ucast (msrs s msr) :: u32; high = ucast (drop_bit 32 (msrs s msr)) :: u32
     in push_bit 32 (ucast high) OR ucast low)"

definition wrmsr :: "u32 \<Rightarrow> u64 \<Rightarrow> 'a pat_machine_scheme \<Rightarrow> 'a pat_machine_scheme" where
  "wrmsr msr v s = (let low = ucast (v AND 0xFFFFFFFF) :: u32; high = ucast (drop_bit 32 v) :: u32
     in s\<lparr>msrs := (msrs s)(msr := push_bit 32 (ucast high) OR ucast low)\<rparr>)"

definition read_pat :: "'a pat_machine_scheme \<Rightarrow> PatConfig" where
  "read_pat s = from_msr_value (rdmsr IA32_PAT_MSR s)"

definition write_pat :: "PatConfig \<Rightarrow> 'a pat_machine_scheme \<Rightarrow> 'a pat_machine_scheme" where
  "write_pat config s = wrmsr IA32_PAT_MSR (to_msr_value config) s"

definition pat_init :: "'a pat_machine_scheme \<Rightarrow> (string, unit) result \<times> 'a pat_machine_scheme" where
  "pat_init s =
     (if \<not> check_pat_support s then (Err ''PAT not supported'', s)
      else
        let s = write_pat PatConfig_optimized s;
            new_config = read_pat s
        in (Ok (), s\<lparr>PAT_MANAGER := Some \<lparr>pat_supported = True, pat_enabled = True, pat_config = new_config\<rparr>\<rparr>))"

definition is_pat_initialized :: "'a pat_machine_scheme \<Rightarrow> bool" where
  "is_pat_initialized s \<longleftrightarrow> PAT_MANAGER s \<noteq> None"

section \<open>C interface\<close>

definition pat_check_support :: "'a pat_machine_scheme \<Rightarrow> u8" where
  "pat_check_support s = (if check_pat_support s then 1 else 0)"

definition pat_init_c :: "'a pat_machine_scheme \<Rightarrow> i32 \<times> 'a pat_machine_scheme" where
  "pat_init_c s = apfst paging_status (pat_init s)"

definition pat_is_initialized :: "'a pat_machine_scheme \<Rightarrow> u8" where
  "pat_is_initialized s = (if is_pat_initialized s then 1 else 0)"

definition pat_get_entry :: "u8 \<Rightarrow> 'a pat_machine_scheme \<Rightarrow> u8" where
  "pat_get_entry index s =
     (if index > 7 then 0xFF
      else case PAT_MANAGER s of
        Some manager \<Rightarrow>
          let config = pat_config manager
          in if index = 0 then MemoryType_u8 (pa0 config)
             else if index = 1 then MemoryType_u8 (pa1 config)
             else if index = 2 then MemoryType_u8 (pa2 config)
             else if index = 3 then MemoryType_u8 (pa3 config)
             else if index = 4 then MemoryType_u8 (pa4 config)
             else if index = 5 then MemoryType_u8 (pa5 config)
             else if index = 6 then MemoryType_u8 (pa6 config)
             else if index = 7 then MemoryType_u8 (pa7 config)
             else 0xFF
      | None \<Rightarrow> 0xFF)"

definition pat_read_msr :: "'a pat_machine_scheme \<Rightarrow> u64" where
  "pat_read_msr s = rdmsr IA32_PAT_MSR s"

section \<open>Page table flags\<close>

fun memory_type_to_flags :: "MemoryType \<Rightarrow> u64" where
  "memory_type_to_flags WB = 0"
| "memory_type_to_flags WT = push_bit 3 1"
| "memory_type_to_flags UC = push_bit 4 1"
| "memory_type_to_flags WC = push_bit 7 1 OR push_bit 3 1"
| "memory_type_to_flags WP = push_bit 7 1 OR push_bit 4 1"
| "memory_type_to_flags _ = 0"

definition flags_normal_memory :: u64 where "flags_normal_memory = 0"
definition flags_write_through :: u64 where "flags_write_through = push_bit 3 1"
definition flags_uncacheable :: u64 where "flags_uncacheable = push_bit 4 1"
definition flags_write_combining :: u64 where "flags_write_combining = push_bit 7 1 OR push_bit 3 1"
definition flags_write_protected :: u64 where "flags_write_protected = push_bit 7 1 OR push_bit 4 1"

section \<open>Correctness\<close>

lemma halves: "push_bit 32 (ucast (ucast (drop_bit 32 v) :: u32)) OR ucast (ucast v :: u32) = (v :: u64)"
  by (rule bit_eqI) (auto simp: bit_simps not_less)

lemma rdmsr_value: "rdmsr r s = msrs s r"
  by (simp add: rdmsr_def halves)

lemma low_half: "(ucast (v AND 0xFFFFFFFF :: u64) :: u32) = ucast v"
proof -
  have eq: "(0xFFFFFFFF :: u64) = mask 32" by (simp add: mask_eq_exp_minus_1)
  show ?thesis unfolding eq by (rule bit_eqI) (auto simp: bit_simps)
qed

lemma wrmsr_value: "wrmsr r v s = s\<lparr>msrs := (msrs s)(r := v)\<rparr>"
  by (simp add: wrmsr_def low_half halves)

text \<open>The byte of an entry in the register: every entry is below 8, so the bytes do not mix.\<close>

lemma MemoryType_u8_small: "unat (MemoryType_u8 t) < 8"
  by (cases t) simp_all

lemma bit_MemoryType: "bit (MemoryType_u8 t) n \<Longrightarrow> n < 3"
proof -
  assume b: "bit (MemoryType_u8 t) n"
  have "unat (ucast (MemoryType_u8 t) :: u64) < 2 ^ 3" using MemoryType_u8_small [of t] by (simp add: unat_ucast_up)
  moreover have "bit (ucast (MemoryType_u8 t) :: u64) n" using b bit_imp_le_length [OF b] by (simp add: bit_ucast_iff)
  ultimately show ?thesis by (rule bit_small_u64)
qed

definition pat_entries :: "PatConfig \<Rightarrow> MemoryType list" where
  "pat_entries c = [pa0 c, pa1 c, pa2 c, pa3 c, pa4 c, pa5 c, pa6 c, pa7 c]"

lemma bit_0xFF: "bit (0xFF :: u64) n \<longleftrightarrow> n < 8"
proof -
  have eq: "(0xFF :: u64) = mask 8" by (simp add: mask_eq_exp_minus_1)
  show ?thesis unfolding eq by (auto simp: bit_simps)
qed

lemma msr_byte:
  assumes "k < 8"
  shows "(ucast (drop_bit (8 * k) (to_msr_value c) AND 0xFF) :: u8) = MemoryType_u8 (pat_entries c ! k)"
proof (rule bit_eqI)
  fix n assume "possible_bit TYPE(8 word) n"
  then have n: "n < 8" by simp
  have B: "bit (push_bit j (ucast (MemoryType_u8 t)) :: u64) i \<longleftrightarrow> j \<le> i \<and> i < 64 \<and> bit (MemoryType_u8 t) (i - j)" for i j t
    by (auto simp: bit_push_bit_iff bit_ucast_iff)
  have B0: "bit (ucast (MemoryType_u8 t) :: u64) i \<longleftrightarrow> bit (MemoryType_u8 t) i" for i t
    using bit_MemoryType [of t i] by (auto simp: bit_ucast_iff)
  have far: "\<not> bit (MemoryType_u8 t) i" if "3 \<le> i" for i t using that bit_MemoryType [of t i] by auto
  have "bit (ucast (drop_bit (8 * k) (to_msr_value c) AND 0xFF) :: u8) n \<longleftrightarrow> bit (to_msr_value c) (8 * k + n)"
    using n unfolding bit_ucast_iff bit_and_iff bit_drop_bit_eq bit_0xFF comp_def by auto
  also have "\<dots> \<longleftrightarrow> bit (MemoryType_u8 (pat_entries c ! k)) n"
  proof -
    have "k \<in> {0, 1, 2, 3, 4, 5, 6, 7}" using assms by auto
    then show ?thesis using n
      by (elim insertE) (auto simp: to_msr_value_def bit_or_iff B B0 pat_entries_def far)
  qed
  finally show "bit (ucast (drop_bit (8 * k) (to_msr_value c) AND 0xFF) :: u8) n = bit (MemoryType_u8 (pat_entries c ! k)) n" .
qed

lemma MemoryType_from_to: "t \<noteq> Reserved2 \<Longrightarrow> t \<noteq> Reserved3 \<Longrightarrow> MemoryType_from_u8 (MemoryType_u8 t) = Some t"
  by (cases t) (simp_all add: MemoryType_from_u8_def)

lemma pat_byte_entry:
  assumes "k < 8" "pat_entries c ! k \<noteq> Reserved2" "pat_entries c ! k \<noteq> Reserved3"
  shows "pat_byte (to_msr_value c) (8 * k) d = pat_entries c ! k"
  using msr_byte [OF assms(1)] MemoryType_from_to [OF assms(2,3)] by (simp add: pat_byte_def)

text \<open>
  writing a configuration to the register value and reading it back gives the same
  configuration, if no entry is one of the two reserved types.
\<close>

theorem pat_msr_round_trip:
  assumes "Reserved2 \<notin> set (pat_entries c)" "Reserved3 \<notin> set (pat_entries c)"
  shows "from_msr_value (to_msr_value c) = c"
proof -
  have e: "pat_byte (to_msr_value c) (8 * k) d = pat_entries c ! k" if "k < 8" for k d
  proof (rule pat_byte_entry [OF that])
    have "pat_entries c ! k \<in> set (pat_entries c)" using that by (intro nth_mem) (simp add: pat_entries_def)
    with assms show "pat_entries c ! k \<noteq> Reserved2" "pat_entries c ! k \<noteq> Reserved3" by auto
  qed
  from e [of 0 WB] e [of 1 WT] e [of 2 UCMinus] e [of 3 UC] e [of 4 WB] e [of 5 WT] e [of 6 UCMinus] e [of 7 UC]
  show ?thesis by (simp add: from_msr_value_def pat_entries_def)
qed

theorem pat_msr_round_trip_witness: "from_msr_value (to_msr_value PatConfig_optimized) = PatConfig_optimized"
  using pat_msr_round_trip [of PatConfig_optimized] by (simp add: pat_entries_def PatConfig_optimized_def)

text \<open>
  The entry the processor selects for a page: bit 7 (PAT), bit 4 (PCD) and bit 3 (PWT) of the page
  table entry, in this order, are the index.
\<close>

definition pat_selected :: "PatConfig \<Rightarrow> PageTableEntry \<Rightarrow> MemoryType" where
  "pat_selected c e = pat_entries c ! ((if bit e 7 then 4 else 0) + (if bit e 4 then 2 else 0) + (if bit e 3 then 1 else 0))"

text \<open>
  after a successful \<^verbatim>\<open>pat_init\<close> the register holds the optimised configuration, the manager
  reports it, and a kernel page mapped with the flags \<^verbatim>\<open>memory_type_to_flags\<close> gives for write-back,
  write-through, uncacheable, write-combining or write-protected memory has that memory type; the
  other three types give write-back memory. Without processor support nothing changes.
\<close>

theorem pat_init_selects:
  "case pat_init s of
     (Ok u, s') \<Rightarrow> check_pat_support s \<and> read_pat s' = PatConfig_optimized
        \<and> map (\<lambda>i. pat_get_entry i s') [0, 1, 2, 3, 4, 5, 6, 7] = map MemoryType_u8 (pat_entries PatConfig_optimized)
        \<and> (\<forall>t p.
             pat_selected (from_msr_value (pat_read_msr s')) (pte_make p (ptf_kernel_with_memory_type (memory_type_to_flags t)))
             = (if t \<in> {WB, WT, UC, WC, WP} then t else WB))
   | (Err e, s') \<Rightarrow> \<not> check_pat_support s \<and> s' = s"
proof (cases "check_pat_support s")
  case True
  define s1 where "s1 = write_pat PatConfig_optimized s"
  have opt: "from_msr_value (to_msr_value PatConfig_optimized) = PatConfig_optimized"
    by (simp add: PatConfig_optimized_def from_msr_value_def to_msr_value_def pat_byte_def MemoryType_from_u8_def)
  have m: "msrs s1 IA32_PAT_MSR = to_msr_value PatConfig_optimized" by (simp add: s1_def write_pat_def wrmsr_value)
  define s2 where "s2 = s1\<lparr>PAT_MANAGER := Some \<lparr>pat_supported = True, pat_enabled = True, pat_config = read_pat s1\<rparr>\<rparr>"
  have i: "pat_init s = (Ok (), s2)" using True by (simp add: pat_init_def s1_def s2_def Let_def)
  have r: "read_pat s1 = PatConfig_optimized" "read_pat s2 = PatConfig_optimized" "pat_read_msr s2 = to_msr_value PatConfig_optimized"
    using m opt by (simp_all add: read_pat_def rdmsr_value s2_def pat_read_msr_def)
  have e: "map (\<lambda>i. pat_get_entry i s2) [0, 1, 2, 3, 4, 5, 6, 7] = map MemoryType_u8 (pat_entries PatConfig_optimized)"
    by (simp add: pat_get_entry_def s2_def r pat_entries_def word_less_nat_alt)
  have "pat_selected PatConfig_optimized (pte_make p (ptf_kernel_with_memory_type (memory_type_to_flags t)))
      = (if t \<in> {WB, WT, UC, WC, WP} then t else WB)" for t p
    by (cases t) (simp_all add: pat_selected_def bit_pte_make ptf_kernel_with_memory_type_def PRESENT_def WRITABLE_def GLOBAL_def
        bit_or_iff bit_exp_iff pat_entries_def PatConfig_optimized_def)
  then show ?thesis using True i r e opt by simp
qed (simp add: pat_init_def)

end
