(* ===== verification/Page_Access.thy ===== *)
theory Page_Access
  imports Paging_Correct
begin

text \<open>
  The address space as two functions, the translation and the flags of an address, and what one
  replaced entry changes of them: the steps \<^verbatim>\<open>map_page\<close> and \<^verbatim>\<open>remap_page\<close> as the code on top uses them.
\<close>

unbundle bit_operations_syntax

section \<open>Translation and flags of a page\<close>

definition page_flags :: "'a paging_machine_scheme \<Rightarrow> VirtAddr \<Rightarrow> PageTableFlags option" where
  "page_flags s w = (case get_page_flags w s of Ok f \<Rightarrow> Some f | Err e \<Rightarrow> None)"

lemma page_flags_lookup:
  "PAGING_MANAGER s \<noteq> None \<Longrightarrow> page_flags s w = (if canonical s w then map_option (pte_flags \<circ> fst) (as_lookup s w) else None)"
  by (auto simp: page_flags_def get_page_flags_def canonical_def as_mode_def as_root_def as_lookup_def lookup_def
      split: option.splits sum.splits)

lemma page_flags_translation: "paging_ready s \<Longrightarrow> page_flags s w = None \<longleftrightarrow> translation s w = None"
  using page_flags_lookup [of s w] translation_lookup [of s w] paging_readyD(2) [of s] by auto

lemma page_flags_cong:
  fixes s :: "'a paging_machine_scheme" and s' :: "'b paging_machine_scheme"
  assumes "mem s' = mem s" "PAGING_MANAGER s' = PAGING_MANAGER s"
  shows "page_flags s' = page_flags s"
  using assms by (intro ext) (simp add: page_flags_def get_page_flags_def cong: option.case_cong sum.case_cong)

text \<open>
  What a change of one mapping leaves alone: the frame allocator's data, the notion of a page, the
  huge pages, the rest of the state, and all memory but tables, free frames and the bitmap.
\<close>

definition same_space :: "'a paging_machine_scheme \<Rightarrow> 'a paging_machine_scheme \<Rightarrow> bool" where
  "same_space s s' \<longleftrightarrow> paging_ready s' \<and> same_page s' = same_page s \<and> canonical s' = canonical s
     \<and> (\<forall>w. \<not> huge_mapped s w \<longrightarrow> \<not> huge_mapped s' w)
     \<and> paging_machine.more s' = paging_machine.more s \<and> bitmap_area s' = bitmap_area s \<and> managed s' = managed s
     \<and> avail s' \<subseteq> avail s \<and> page_tables s' \<subseteq> page_tables s \<union> (avail s - avail s')
     \<and> (\<forall>x. x \<notin> bitmap_area s \<and> page_base x \<notin> page_tables s \<union> avail s \<longrightarrow> mem s' x = mem s x)"

lemma same_spaceD:
  assumes "same_space s s'"
  shows "paging_ready s'" "same_page s' = same_page s" "canonical s' = canonical s" "\<not> huge_mapped s w \<Longrightarrow> \<not> huge_mapped s' w"
    "paging_machine.more s' = paging_machine.more s" "bitmap_area s' = bitmap_area s" "managed s' = managed s" "avail s' \<subseteq> avail s"
    "page_tables s' \<subseteq> page_tables s \<union> (avail s - avail s')"
    "x \<notin> bitmap_area s \<Longrightarrow> page_base x \<notin> page_tables s \<union> avail s \<Longrightarrow> mem s' x = mem s x"
  using assms unfolding same_space_def by simp_all

lemma same_space_trans:
  assumes "same_space s s'" "same_space s' s''"
  shows "same_space s s''"
proof -
  note A = same_spaceD [OF assms(1)] and B = same_spaceD [OF assms(2)]
  have "page_tables s'' \<subseteq> page_tables s \<union> (avail s - avail s'')" using A(8,9) B(8,9) by blast
  moreover have "mem s'' x = mem s x" if "x \<notin> bitmap_area s" "page_base x \<notin> page_tables s \<union> avail s" for x
    using that A(6,8,9) A(10) [of x] B(10) [of x] by auto
  ultimately show ?thesis using A(2-8) B(1-8) unfolding same_space_def by auto
qed

lemma grows_space:
  assumes rd: "paging_ready s" and g: "grows (mode_levels (as_mode s)) (as_root s) s s1"
    and lk: "\<And>w. as_lookup s1 w = (if c \<and> same_page s v w then leaf p flags else as_lookup s w)"
  shows "same_space s s1"
proof -
  note S = same_rest_as [OF growsD(2) [OF g]] and G = growsD [OF g]
  have "\<not> huge_mapped s1 w" if "\<not> huge_mapped s w" for w
    using that lk by (auto simp: huge_mapped_lookup leaf_def split: if_splits)
  then show ?thesis
    using grows_ready [OF rd g] S G(3,5,6) same_rest_more [OF G(2)] same_restD [OF G(2)]
    unfolding same_space_def page_tables_def S(4,5) by auto
qed

lemma invlpg_space: "same_space s s1 \<Longrightarrow> same_space s (invlpg v s1)"
proof -
  assume "same_space s s1"
  moreover have "huge_mapped (invlpg v s1) = huge_mapped s1" by (simp add: huge_mapped_lookup fun_eq_iff)
  ultimately show ?thesis by (simp add: same_space_def)
qed

lemma leaf_mapped:
  assumes "pa_is_aligned p" "p < 2 ^ 52" "mapping_flags flags"
  shows "map_option (phys_of w) (leaf p flags) = Some (p OR va_page_offset w)"
    "map_option (pte_flags \<circ> fst) (leaf p flags) = Some (flags AND 0xFFF)"
proof -
  show l: "map_option (phys_of w) (leaf p flags) = Some (p OR va_page_offset w)"
    using leaf_phys [OF assms(1,2)] assms(3) by (simp add: mapping_flags_def)
  then have "leaf p flags = Some (pte_make p flags, 0xFFF)" by (auto simp: leaf_def split: if_splits)
  then show "map_option (pte_flags \<circ> fst) (leaf p flags) = Some (flags AND 0xFFF)" using pte_flags_make [OF assms(1)] by simp
qed

text \<open>One entry replaced: the translation and the flags of one page change, of no other.\<close>

lemma space_step:
  assumes rd: "paging_ready s" "same_space s s1" and p: "c \<Longrightarrow> pa_is_aligned p" "p < 2 ^ 52" "mapping_flags flags"
    and lk: "\<And>w. as_lookup s1 w = (if c \<and> same_page s v w then leaf p flags else as_lookup s w)"
  shows "translation s1 w = (if c \<and> same_page s v w \<and> canonical s w then Some (p OR va_page_offset w) else translation s w)"
    "page_flags s1 w = (if c \<and> same_page s v w \<and> canonical s w then Some (flags AND 0xFFF) else page_flags s w)"
proof -
  have "map_option (phys_of w) (leaf p flags) = Some (p OR va_page_offset w)"
    "map_option (pte_flags \<circ> fst) (leaf p flags) = Some (flags AND 0xFFF)" if c
    using leaf_mapped [OF p(1) [OF that] p(2,3)] by simp_all
  then show "translation s1 w = (if c \<and> same_page s v w \<and> canonical s w then Some (p OR va_page_offset w) else translation s w)"
    "page_flags s1 w = (if c \<and> same_page s v w \<and> canonical s w then Some (flags AND 0xFFF) else page_flags s w)"
    using translation_lookup [of s w] translation_lookup [of s1 w] page_flags_lookup [of s w] page_flags_lookup [of s1 w]
      paging_readyD(2) [OF rd(1)] paging_readyD(2) [OF same_spaceD(1) [OF rd(2)]] same_spaceD(3) [OF rd(2)] lk [of w] by auto
qed

lemma invlpg_page_flags [simp]: "page_flags (invlpg v s) = page_flags s"
  by (rule page_flags_cong) simp_all

lemma remap_page_step:
  assumes rd: "paging_ready s" and nh: "\<not> huge_mapped s v" and p: "pa_is_aligned p" "p < 2 ^ 52" and f: "mapping_flags flags"
    and mapped: "translation s v \<noteq> None"
  obtains s' where "remap_page v p flags s = (Ok (), s')" "same_space s s'" "avail s' = avail s"
    "\<And>w. translation s' w = (if same_page s v w \<and> canonical s w then Some (p OR va_page_offset w) else translation s w)"
    "\<And>w. page_flags s' w = (if same_page s v w \<and> canonical s w then Some (flags AND 0xFFF) else page_flags s w)"
proof -
  have "as_lookup s v \<noteq> None" using mapped translation_None_iff [OF rd, of v] by auto
  then obtain s1 where s1: "remap_page v p flags s = (Ok (), invlpg v s1)" "grows (mode_levels (as_mode s)) (as_root s) s s1"
    "avail s1 = avail s" and lk: "\<And>w. as_lookup s1 w = (if True \<and> same_page s v w then leaf p flags else as_lookup s w)"
    using remap_page_effect [OF rd nh p(1)] by metis
  have sp: "same_space s s1" by (rule grows_space [OF rd s1(2) lk])
  note T = space_step [OF rd sp p f lk]
  show thesis by (rule that [OF s1(1) invlpg_space [OF sp]]) (simp_all add: s1(3) T)
qed

lemma map_page_step:
  assumes rd: "paging_ready s" and nh: "\<not> huge_mapped s v" and p: "p < 2 ^ 52" and f: "mapping_flags flags"
    and m: "map_page v p flags s = (r, s')"
  shows "same_space s s'" "r = Ok () \<Longrightarrow> pa_is_aligned p \<and> canonical s v"
    "translation s' w = (if r = Ok () \<and> same_page s v w \<and> canonical s w then Some (p OR va_page_offset w) else translation s w)"
    "page_flags s' w = (if r = Ok () \<and> same_page s v w \<and> canonical s w then Some (flags AND 0xFFF) else page_flags s w)"
proof -
  obtain s1 where s1: "grows (mode_levels (as_mode s)) (as_root s) s s1" "s' = (if r = Ok () then invlpg v s1 else s1)"
    and lk: "\<And>w. as_lookup s1 w = (if r = Ok () \<and> same_page s v w then leaf p flags else as_lookup s w)"
    and al: "r = Ok () \<Longrightarrow> pa_is_aligned p \<and> canonical s v"
    using map_page_effect [OF rd nh m] by blast
  have sp: "same_space s s1" by (rule grows_space [OF rd s1(1) lk])
  have al1: "r = Ok () \<Longrightarrow> pa_is_aligned p" using al by blast
  note T = space_step [OF rd sp al1 p f lk]
  show "same_space s s'" using s1(2) sp invlpg_space [OF sp] by simp
  show "r = Ok () \<Longrightarrow> pa_is_aligned p \<and> canonical s v" by (rule al)
  show "translation s' w = (if r = Ok () \<and> same_page s v w \<and> canonical s w then Some (p OR va_page_offset w) else translation s w)"
    "page_flags s' w = (if r = Ok () \<and> same_page s v w \<and> canonical s w then Some (flags AND 0xFFF) else page_flags s w)"
    using T s1(2) by simp_all
qed

section \<open>Taking and filling a frame\<close>

lemma frame_outside:
  assumes rd: "paging_ready s" and a: "a \<in> avail s"
  shows "page_base a = a" "a \<notin> page_tables s" "x \<in> bitmap_area s \<Longrightarrow> page_base x \<noteq> a"
proof -
  note D = tree_invD [OF paging_readyD(1) [OF rd]]
  show "page_base a = a" by (rule avail_frame(1) [OF D(1) a])
  show "a \<notin> page_tables s" using D(4) a by (auto simp: page_tables_def)
  show "page_base x \<noteq> a" if "x \<in> bitmap_area s" using D(5) [OF that] a by blast
qed

text \<open>A frame is taken from the free frames and its contents are written.\<close>

lemma fill_frame:
  assumes rd: "paging_ready s" and al: "pmm_alloc_frame s = (f, s1)" "f \<noteq> 0"
    and m: "\<forall>x. page_base x \<noteq> f \<longrightarrow> m' x = mem s1 x" and s2: "s2 = s1\<lparr>mem := m'\<rparr>"
  shows "same_space s s2" "translation s2 = translation s" "page_flags s2 = page_flags s" "huge_mapped s2 = huge_mapped s"
    "page_tables s2 = page_tables s" "avail s2 = avail s - {f}" "f \<in> avail s"
    "x \<notin> bitmap_area s \<Longrightarrow> mem s1 x = mem s x" "same_rest s s2"
proof -
  note D = tree_invD [OF paging_readyD(1) [OF rd]]
  have t: "takes s f s1" by (rule pmm_alloc_frame_takes(1) [OF D(1) al(1)])
  note T = takesD [OF t] and O = takes_outside [OF rd t]
  have f: "f \<in> avail s" "avail s1 = avail s - {f}" using T(5,6) al(2) by blast+
  note F = frame_outside [OF rd f(1)]
  have ba: "bitmap_area s1 = bitmap_area s" "managed s1 = managed s" using same_restD [OF T(2)] by blast+
  have m1: "\<forall>x\<in>bitmap_area s1. m' x = mem s1 x" using m F(3) ba by blast
  note U = mem_update_ready [OF T(1) m1, folded s2]
  have sr1: "same_rest s1 s2" unfolding same_rest_def U(3,4) by (simp add: s2)
  show sr: "same_rest s s2" by (rule same_rest_trans [OF T(2) sr1])
  have fr: "\<forall>x. page_base x \<in> page_tables s1 \<longrightarrow> mem s2 x = mem s1 x"
    using m F(2) O(3) by (auto simp: s2)
  have av: "avail s2 \<subseteq> avail s1" using U(2) by simp
  note W = outside_tables [OF O(1) U(1) sr1 av fr]
  show "translation s2 = translation s" "huge_mapped s2 = huge_mapped s" "page_tables s2 = page_tables s" using O W by simp_all
  show a2: "avail s2 = avail s - {f}" "f \<in> avail s" using f U(2) by simp_all
  show m0: "mem s1 x = mem s x" if "x \<notin> bitmap_area s" for x using T(4) that by blast
  show "page_flags s2 = page_flags s"
    using page_flags_lookup [of s] page_flags_lookup [of s2] paging_readyD(2) [OF rd] paging_readyD(2) [OF W(1)]
      W(2) O(2) same_rest_as(6) [OF sr] by (intro ext) simp
  have "mem s2 x = mem s x" if "x \<notin> bitmap_area s" "page_base x \<notin> page_tables s \<union> avail s" for x
    using that m m0 f(1) by (auto simp: s2) (metis)
  then show "same_space s s2"
    unfolding same_space_def using W O same_rest_as [OF sr] same_rest_more [OF sr] same_restD [OF sr] a2 by auto
qed

lemma in_page_base: "page_base f = f \<Longrightarrow> in_bytes f 4096 x \<Longrightarrow> page_base x = f"
  using in_page_iff by blast

end
