(* ===== verification/Address_Space.thy ===== *)
theory Address_Space
  imports Prelude
begin

text \<open>
  The contract of an address space as the code on top of the paging module relies on it: a frame is
  taken from the free frames, a page is mapped to a frame, and each of the two changes exactly what
  it says. Mapping a list of pages to fresh frames is verified from the contract; the paging module
  is shown to satisfy it.
\<close>

unbundle bit_operations_syntax

locale address_space =
  fixes ready :: "'s \<Rightarrow> bool"
    and trans :: "'s \<Rightarrow> u64 \<Rightarrow> u64 option"
    and paged :: "'s \<Rightarrow> u64 \<Rightarrow> u64 \<Rightarrow> bool"
    and valid :: "'s \<Rightarrow> u64 \<Rightarrow> bool"
    and plain :: "'s \<Rightarrow> u64 \<Rightarrow> bool"
    and free :: "'s \<Rightarrow> u64 set"
    and tabs :: "'s \<Rightarrow> u64 set"
    and rest :: "'s \<Rightarrow> 'r"
    and take_frame :: "'s \<Rightarrow> u64 \<times> 's"
    and good :: "'f \<Rightarrow> bool"
    and map_frame :: "u64 \<Rightarrow> u64 \<Rightarrow> 'f \<Rightarrow> 's \<Rightarrow> ('e, unit) result \<times> 's"
    and offset :: "u64 \<Rightarrow> u64"
  assumes paged_refl: "paged s v v"
    and paged_sym: "paged s v w \<Longrightarrow> paged s w v"
    and paged_trans: "paged s u v \<Longrightarrow> paged s v w \<Longrightarrow> paged s u w"
    and tabs_free: "ready s \<Longrightarrow> tabs s \<inter> free s = {}"
    and take_ok: "ready s \<Longrightarrow> take_frame s = (a, s') \<Longrightarrow>
        ready s' \<and> trans s' = trans s \<and> paged s' = paged s \<and> valid s' = valid s \<and> plain s' = plain s \<and> tabs s' = tabs s
        \<and> rest s' = rest s \<and> free s' \<subseteq> free s \<and> (a \<noteq> 0 \<longrightarrow> a \<in> free s - free s')"
    and map_ok: "ready s \<Longrightarrow> plain s v \<Longrightarrow> a < 2 ^ 52 \<Longrightarrow> good f \<Longrightarrow> map_frame v a f s = (r, s') \<Longrightarrow>
        ready s' \<and> paged s' = paged s \<and> valid s' = valid s \<and> rest s' = rest s
        \<and> (\<forall>w. plain s w \<longrightarrow> plain s' w) \<and> free s' \<subseteq> free s \<and> tabs s' \<subseteq> tabs s \<union> (free s - free s')
        \<and> (\<forall>w. trans s' w = (if r = Ok () \<and> paged s v w \<and> valid s w then Some (a OR offset w) else trans s w))"
begin

text \<open>Mapping a list of pages, each to a fresh frame, stopping at the first failure.\<close>

primrec map_fresh :: "'f \<Rightarrow> u64 list \<Rightarrow> 's \<Rightarrow> bool \<times> 's" where
  "map_fresh f [] s = (True, s)"
| "map_fresh f (v # vs) s =
     (let (a, s) = take_frame s
      in if a = 0 then (False, s)
         else case map_frame v a f s of (Err e, s') \<Rightarrow> (False, s') | (Ok u, s') \<Rightarrow> map_fresh f vs s')"

text \<open>What a list of fresh mappings from \<open>s\<close> to \<open>s'\<close> guarantees, with the frames \<open>fs\<close>.\<close>

definition mapped_fresh :: "u64 list \<Rightarrow> u64 list \<Rightarrow> 's \<Rightarrow> 's \<Rightarrow> bool" where
  "mapped_fresh vs fs s s' \<longleftrightarrow> length fs = length vs \<and> distinct fs \<and> set fs \<subseteq> free s - free s' \<and> set fs \<inter> tabs s' = {}
     \<and> (\<forall>k<length vs. \<forall>w. paged s (vs ! k) w \<and> valid s w \<longrightarrow> trans s' w = Some (fs ! k OR offset w))"

lemma fresh_step:
  assumes r: "ready s" and p: "plain s v" and b: "\<forall>a\<in>free s. a < 2 ^ 52" and g: "good f"
    and t: "take_frame s = (a, s1)" "a \<noteq> 0" and m: "map_frame v a f s1 = (r1, s2)"
  shows "ready s2" "paged s2 = paged s" "valid s2 = valid s" "rest s2 = rest s" "\<And>w. plain s w \<Longrightarrow> plain s2 w"
    "free s2 \<subseteq> free s" "tabs s2 \<subseteq> tabs s \<union> (free s - free s2)" "a \<in> free s - free s2" "a \<notin> tabs s2"
    "trans s2 w = (if r1 = Ok () \<and> paged s v w \<and> valid s w then Some (a OR offset w) else trans s w)"
proof -
  note T = take_ok [OF r t(1)]
  have a: "a \<in> free s" "a < 2 ^ 52" "a \<notin> free s1" using T t(2) b by blast+
  have r1: "ready s1" "plain s1 v" using T p by simp_all
  note M = map_ok [OF r1 a(2) g m]
  show "ready s2" "paged s2 = paged s" "valid s2 = valid s" "rest s2 = rest s" using M T by simp_all
  show "plain s2 w" if "plain s w" for w using M T that by simp
  show "free s2 \<subseteq> free s" "a \<in> free s - free s2" using M T a by blast+
  show "tabs s2 \<subseteq> tabs s \<union> (free s - free s2)" using M T by auto
  show "a \<notin> tabs s2" using M T a tabs_free [OF r] by auto
  show "trans s2 w = (if r1 = Ok () \<and> paged s v w \<and> valid s w then Some (a OR offset w) else trans s w)"
    using M T by simp
qed

lemma map_fresh_correct:
  assumes "ready s" "\<forall>v\<in>set vs. plain s v" "\<forall>a\<in>free s. a < 2 ^ 52" "map_fresh f vs s = (ok, s')" "good f"
    and "\<forall>i<length vs. \<forall>j<length vs. i \<noteq> j \<longrightarrow> \<not> paged s (vs ! i) (vs ! j)"
  shows "ready s' \<and> paged s' = paged s \<and> valid s' = valid s \<and> rest s' = rest s \<and> free s' \<subseteq> free s
     \<and> tabs s' \<subseteq> tabs s \<union> (free s - free s') \<and> (\<forall>w. plain s w \<longrightarrow> plain s' w)
     \<and> (\<forall>w. (\<forall>v\<in>set vs. \<not> paged s v w) \<longrightarrow> trans s' w = trans s w)
     \<and> (ok \<longrightarrow> (\<exists>fs. mapped_fresh vs fs s s'))"
  using assms
proof (induction vs arbitrary: s)
  case Nil
  then show ?case by (auto simp: mapped_fresh_def)
next
  case (Cons v vs)
  obtain a s1 where t: "take_frame s = (a, s1)" by fastforce
  show ?case
  proof (cases "a = 0")
    case True
    then have "\<not> ok" "s' = s1" using Cons.prems(4) t by auto
    then show ?thesis using take_ok [OF Cons.prems(1) t] by auto
  next
    case a: False
    obtain r2 s2 where m: "map_frame v a f s1 = (r2, s2)" by fastforce
    have p: "plain s v" using Cons.prems(2) by simp
    note F = fresh_step [OF Cons.prems(1) p Cons.prems(3,5) t a m]
    show ?thesis
    proof (cases r2)
      case (Inl e)
      then have "\<not> ok" "s' = s2" using Cons.prems(4) t a m by auto
      then show ?thesis using F Inl by auto
    next
      case (Inr u)
      then have w: "map_fresh f vs s2 = (ok, s')" using Cons.prems(4) t a m by auto
      have dj: "\<forall>i<length vs. \<forall>j<length vs. i \<noteq> j \<longrightarrow> \<not> paged s2 (vs ! i) (vs ! j)"
      proof (intro allI impI)
        fix i j assume "i < length vs" "j < length vs" "i \<noteq> j"
        then show "\<not> paged s2 (vs ! i) (vs ! j)" using Cons.prems(6) [rule_format, of "Suc i" "Suc j"] F(2) by simp
      qed
      have IH: "ready s' \<and> paged s' = paged s2 \<and> valid s' = valid s2 \<and> rest s' = rest s2 \<and> free s' \<subseteq> free s2
         \<and> tabs s' \<subseteq> tabs s2 \<union> (free s2 - free s') \<and> (\<forall>w. plain s2 w \<longrightarrow> plain s' w)
         \<and> (\<forall>w. (\<forall>v\<in>set vs. \<not> paged s2 v w) \<longrightarrow> trans s' w = trans s2 w)
         \<and> (ok \<longrightarrow> (\<exists>fs. mapped_fresh vs fs s2 s'))"
        by (rule Cons.IH [OF F(1) _ _ w Cons.prems(5) dj]) (use Cons.prems(2,3) F(5,6) in auto)
      have head: "trans s' w = Some (a OR offset w)" if w: "paged s v w" "valid s w" for w
      proof -
        have "\<not> paged s2 u w" if u: "u \<in> set vs" for u
        proof
          assume "paged s2 u w"
          then have vu: "paged s v u" using w(1) F(2) paged_sym paged_trans by metis
          obtain k where k: "k < length vs" "u = vs ! k" using u by (metis in_set_conv_nth)
          then show False using Cons.prems(6) [rule_format, of 0 "Suc k"] vu by simp
        qed
        then have "trans s' w = trans s2 w" using IH by blast
        then show ?thesis using F(10) w Inr by simp
      qed
      have "\<exists>fs. mapped_fresh (v # vs) fs s s'" if ok
      proof -
        obtain fs where fs: "mapped_fresh vs fs s2 s'" using IH \<open>ok\<close> by blast
        have "mapped_fresh (v # vs) (a # fs) s s'"
          unfolding mapped_fresh_def
        proof (intro conjI allI impI)
          show "distinct (a # fs)" using fs F(8) by (auto simp: mapped_fresh_def)
          show "set (a # fs) \<subseteq> free s - free s'" using fs F(6,8) IH by (auto simp: mapped_fresh_def)
          show "set (a # fs) \<inter> tabs s' = {}" using fs F(8,9) IH by (auto simp: mapped_fresh_def)
          show "trans s' w = Some ((a # fs) ! k OR offset w)"
            if "k < length (v # vs)" "paged s ((v # vs) ! k) w \<and> valid s w" for k w
            using that head fs F(2,3) by (cases k) (auto simp: mapped_fresh_def)
        qed (use fs in \<open>simp add: mapped_fresh_def\<close>)
        then show ?thesis by blast
      qed
      moreover have "trans s' w = trans s w" if "\<forall>u\<in>set (v # vs). \<not> paged s u w" for w
        using that IH F(2) F(10) by simp
      ultimately show ?thesis using IH F(2-7) by auto
    qed
  qed
qed

end

end
