(* ===== verification/Guard_Page.thy ===== *)
theory Guard_Page
  imports Paging_Correct Address_Space
begin

text \<open>
  Guard pages and kernel stacks, \<^verbatim>\<open>memory/guard_page.rs\<close>: the registry of guard pages as a set of pages, and
  the allocation of a stack, whose pages are mapped to fresh frames above a page that is left alone.
\<close>

unbundle bit_operations_syntax

section \<open>State and operations\<close>

definition MAX_GUARD_PAGES :: usize where "MAX_GUARD_PAGES = 64"
definition DEFAULT_STACK_PAGES :: usize where "DEFAULT_STACK_PAGES = 4"
definition KERNEL_STACK_AREA_BASE :: u64 where "KERNEL_STACK_AREA_BASE = 0x02000000"

record guard_machine = paging_machine +
  GUARD_REGISTRY :: "u64 list"
  GUARD_REGISTRY_COUNT :: usize
  NEXT_STACK_OFFSET :: usize

text \<open>\<^verbatim>\<open>GUARD_REGISTRY[idx]\<close> is in bounds after the check of the count.\<close>

definition register_guard_page :: "u64 \<Rightarrow> 'a guard_machine_scheme \<Rightarrow> bool \<times> 'a guard_machine_scheme" where
  "register_guard_page virt_addr s =
     (let base = virt_addr AND NOT (PAGE_SIZE - 1);
          idx = GUARD_REGISTRY_COUNT s
      in if idx \<ge> MAX_GUARD_PAGES then (False, s)
         else (True, s\<lparr>GUARD_REGISTRY := (GUARD_REGISTRY s)[unat idx := base], GUARD_REGISTRY_COUNT := idx + 1\<rparr>))"

definition is_guard_page :: "u64 \<Rightarrow> 'a guard_machine_scheme \<Rightarrow> bool" where
  "is_guard_page addr s \<longleftrightarrow>
     (let base = addr AND NOT (PAGE_SIZE - 1)
      in list_ex (\<lambda>i. GUARD_REGISTRY s ! unat i = base) (range_w 0 (GUARD_REGISTRY_COUNT s)))"

definition alloc_stack_frame :: "'a pmm_machine_scheme \<Rightarrow> u64 \<times> 'a pmm_machine_scheme" where
  "alloc_stack_frame s =
     (let (frame, s) = pmm_alloc_dma32_frame s
      in if frame \<noteq> 0 then (frame, s) else pmm_alloc_frame s)"

definition stack_flags :: PageTableFlags where
  "stack_flags = ptf_set ptf_kernel NO_EXECUTE"

text \<open>The loop over the usable pages; \<open>False\<close> stands for the early return of 0.\<close>

primrec map_stack_pages :: "usize list \<Rightarrow> u64 \<Rightarrow> 'a paging_machine_scheme \<Rightarrow> bool \<times> 'a paging_machine_scheme" where
  "map_stack_pages [] base_virt s = (True, s)"
| "map_stack_pages (i # is) base_virt s =
     (let virt = base_virt + PAGE_SIZE + i * PAGE_SIZE;
          (phys, s) = alloc_stack_frame s
      in if phys = 0 then (False, s)
         else case map_page virt phys stack_flags s of
           (Err e, s') \<Rightarrow> (False, s')
         | (Ok u, s') \<Rightarrow> map_stack_pages is base_virt s')"

definition allocate_kernel_stack :: "usize \<Rightarrow> 'a guard_machine_scheme \<Rightarrow> u64 \<times> 'a guard_machine_scheme" where
  "allocate_kernel_stack stack_pages s =
     (let slot_size = (stack_pages + 1) * PAGE_SIZE;
          slot_offset = NEXT_STACK_OFFSET s;
          s = s\<lparr>NEXT_STACK_OFFSET := slot_offset + slot_size\<rparr>;
          base_virt = KERNEL_STACK_AREA_BASE + slot_offset;
          (registered, s) = register_guard_page base_virt s;
          (mapped, s) = map_stack_pages (range_w 0 stack_pages) base_virt s
      in if mapped then (base_virt + (stack_pages + 1) * PAGE_SIZE, s) else (0, s))"

definition guard_page_register :: "u64 \<Rightarrow> 'a guard_machine_scheme \<Rightarrow> i32 \<times> 'a guard_machine_scheme" where
  "guard_page_register virt_addr s = apfst (\<lambda>b. if b then 1 else 0) (register_guard_page virt_addr s)"

definition guard_page_is_guard_page :: "u64 \<Rightarrow> 'a guard_machine_scheme \<Rightarrow> i32" where
  "guard_page_is_guard_page addr s = (if is_guard_page addr s then 1 else 0)"

definition guard_page_alloc_kernel_stack :: "'a guard_machine_scheme \<Rightarrow> u64 \<times> 'a guard_machine_scheme" where
  "guard_page_alloc_kernel_stack s = allocate_kernel_stack DEFAULT_STACK_PAGES s"

section \<open>The registry as a set of pages\<close>

definition guard_inv :: "'a guard_machine_scheme \<Rightarrow> bool" where
  "guard_inv s \<longleftrightarrow> length (GUARD_REGISTRY s) = 64 \<and> GUARD_REGISTRY_COUNT s \<le> 64"

definition guard_pages :: "'a guard_machine_scheme \<Rightarrow> u64 set" where
  "guard_pages s = set (take (unat (GUARD_REGISTRY_COUNT s)) (GUARD_REGISTRY s))"

lemma page_size_mask: "x AND NOT (PAGE_SIZE - 1) = page_base x"
  by (simp add: PAGE_SIZE_def page_base_def)

lemma is_guard_page_iff:
  assumes "guard_inv s"
  shows "is_guard_page a s \<longleftrightarrow> page_base a \<in> guard_pages s"
proof -
  have c: "unat (GUARD_REGISTRY_COUNT s) \<le> length (GUARD_REGISTRY s)"
    using assms by (simp add: guard_inv_def word_le_nat_alt)
  have "is_guard_page a s \<longleftrightarrow> (\<exists>k<unat (GUARD_REGISTRY_COUNT s). GUARD_REGISTRY s ! k = page_base a)"
    unfolding is_guard_page_def Let_def page_size_mask list_ex_iff set_range_w
    by (auto simp: word_less_nat_alt) (metis unat_of_nat_less)
  also have "\<dots> \<longleftrightarrow> page_base a \<in> guard_pages s"
    using c by (auto simp: guard_pages_def in_set_conv_nth)
  finally show ?thesis .
qed

lemma register_guard_page_step:
  assumes "guard_inv s" "register_guard_page v s = (b, s')"
  shows "guard_inv s'" "b \<longleftrightarrow> GUARD_REGISTRY_COUNT s < 64"
    "guard_pages s' = (if b then insert (page_base v) (guard_pages s) else guard_pages s)"
    "s' = s\<lparr>GUARD_REGISTRY := GUARD_REGISTRY s', GUARD_REGISTRY_COUNT := GUARD_REGISTRY_COUNT s'\<rparr>"
proof -
  let ?n = "unat (GUARD_REGISTRY_COUNT s)"
  have P: "guard_inv s' \<and> (b \<longleftrightarrow> GUARD_REGISTRY_COUNT s < 64)
     \<and> guard_pages s' = (if b then insert (page_base v) (guard_pages s) else guard_pages s)
     \<and> s' = s\<lparr>GUARD_REGISTRY := GUARD_REGISTRY s', GUARD_REGISTRY_COUNT := GUARD_REGISTRY_COUNT s'\<rparr>"
  proof (cases "GUARD_REGISTRY_COUNT s < 64")
    case True
    then have n: "?n < 64" by (simp add: word_less_nat_alt)
    have l: "length (GUARD_REGISTRY s) = 64" using assms(1) by (simp add: guard_inv_def)
    have u: "unat (GUARD_REGISTRY_COUNT s + 1) = Suc ?n" by (rule unat_add_1 [OF True])
    have "\<not> 64 \<le> GUARD_REGISTRY_COUNT s" using True by simp
    then have bs: "b" "s' = s\<lparr>GUARD_REGISTRY := (GUARD_REGISTRY s)[?n := page_base v], GUARD_REGISTRY_COUNT := GUARD_REGISTRY_COUNT s + 1\<rparr>"
      using assms(2) by (auto simp: register_guard_page_def MAX_GUARD_PAGES_def page_size_mask Let_def)
    have "take (Suc ?n) ((GUARD_REGISTRY s)[?n := page_base v]) = take ?n (GUARD_REGISTRY s) @ [page_base v]"
      using n l by (simp add: take_Suc_conv_app_nth)
    then have "guard_pages s' = insert (page_base v) (guard_pages s)" by (simp add: guard_pages_def bs u)
    moreover have "guard_inv s'" using l u n by (simp add: guard_inv_def bs word_le_nat_alt)
    ultimately show ?thesis using True bs by simp
  next
    case False
    then have "\<not> b" "s' = s" using assms(2) by (auto simp: register_guard_page_def MAX_GUARD_PAGES_def not_less Let_def)
    then show ?thesis using False assms(1) by simp
  qed
  then show "guard_inv s'" "b \<longleftrightarrow> GUARD_REGISTRY_COUNT s < 64"
    "guard_pages s' = (if b then insert (page_base v) (guard_pages s) else guard_pages s)"
    "s' = s\<lparr>GUARD_REGISTRY := GUARD_REGISTRY s', GUARD_REGISTRY_COUNT := GUARD_REGISTRY_COUNT s'\<rparr>" by blast+
qed

section \<open>The address space behind the stacks\<close>

lemma stack_flags_mapping: "mapping_flags stack_flags"
  by (simp add: mapping_flags_def stack_flags_def ptf_set_def ptf_kernel_def ptf_contains_def PRESENT_def WRITABLE_def
      GLOBAL_def NO_EXECUTE_def ADDRESS_MASK_def)

lemma alloc_stack_frame_effect:
  assumes rd: "paging_ready s" and al: "alloc_stack_frame s = (a, s')"
  shows "paging_ready s'" "translation s' = translation s" "page_tables s' = page_tables s" "huge_mapped s' = huge_mapped s"
    "same_rest s s'" "avail s' \<subseteq> avail s" "a \<noteq> 0 \<Longrightarrow> a \<in> avail s - avail s'"
    "low_memory s \<Longrightarrow> if a = 0 then avail s = {} else avail s' = avail s - {a}"
proof -
  obtain b s1 where d: "pmm_alloc_dma32_frame s = (b, s1)" by fastforce
  have e: "(if b = 0 then pmm_alloc_frame s1 else (b, s1)) = (a, s')" using al d by (auto simp: alloc_stack_frame_def)
  note A = alloc_table_frame [OF tree_invD(1) [OF paging_readyD(1) [OF rd]] d e]
  have fr: "\<forall>x. page_base x \<in> page_tables s \<longrightarrow> mem s' x = mem s x" by (rule bitmap_change [OF rd]) (use A(3) in blast)
  show "paging_ready s'" "translation s' = translation s" "page_tables s' = page_tables s" "huge_mapped s' = huge_mapped s"
    by (rule outside_tables [OF rd A(1,2,4) fr])+
  show "same_rest s s'" "avail s' \<subseteq> avail s" "a \<noteq> 0 \<Longrightarrow> a \<in> avail s - avail s'" using A by simp_all
  show "if a = 0 then avail s = {} else avail s' = avail s - {a}" if "low_memory s"
    using A(6) that by (auto simp: low_memory_def)
qed

interpretation stack_space: address_space paging_ready translation same_page canonical "\<lambda>s v. \<not> huge_mapped s v"
  avail page_tables paging_machine.more alloc_stack_frame mapping_flags map_page va_page_offset
proof (unfold_locales, goal_cases)
  case (4 s)
  then show ?case using tree_invD(4) [OF paging_readyD(1)] by (simp add: page_tables_def)
next
  case (5 s a s')
  note A = alloc_stack_frame_effect [OF 5]
  note S = same_rest_as [OF A(5)]
  show ?case using A(1-4,6,7) S same_rest_more [OF A(5)] by simp
next
  case (6 s v a f r s')
  then show ?case by (rule map_page_contract)
qed (simp_all add: same_page_def)

lemma map_stack_pages_fresh:
  "map_stack_pages is base_virt s = stack_space.map_fresh stack_flags (map (\<lambda>i. base_virt + PAGE_SIZE + i * PAGE_SIZE) is) s"
  by (induction "is" arbitrary: s) (simp_all add: Let_def split: prod.split sum.split)

lemmas stack_pages_correct = stack_space.map_fresh_correct [where f = stack_flags, unfolded stack_space.mapped_fresh_def]

lemma guard_fields:
  assumes "paging_machine.more s' = paging_machine.more s"
  shows "GUARD_REGISTRY s' = GUARD_REGISTRY s" "GUARD_REGISTRY_COUNT s' = GUARD_REGISTRY_COUNT s"
    "NEXT_STACK_OFFSET s' = NEXT_STACK_OFFSET s" "guard_machine.more s' = guard_machine.more s"
  using assms by (cases s; cases s'; simp)+

lemma guard_fields_inv:
  assumes "paging_machine.more s' = paging_machine.more s"
  shows "guard_inv s' = guard_inv s" "guard_pages s' = guard_pages s"
  using guard_fields [OF assms] by (simp_all add: guard_inv_def guard_pages_def)


section \<open>Allocating a stack\<close>

text \<open>The slot of a stack: base address, and the frames behind its usable pages.\<close>

definition stack_base :: "'a guard_machine_scheme \<Rightarrow> u64" where
  "stack_base s = KERNEL_STACK_AREA_BASE + NEXT_STACK_OFFSET s"

lemma stack_base_aligned: "page_base (NEXT_STACK_OFFSET s) = NEXT_STACK_OFFSET s \<Longrightarrow> page_base (stack_base s) = stack_base s"
  unfolding stack_base_def by (rule page_base_sum) (simp_all add: KERNEL_STACK_AREA_BASE_def page_base_def)

text \<open>The usable pages of a slot, by their number.\<close>

lemma stack_page:
  fixes b :: u64
  assumes b: "page_base b = b" and fit: "unat b + (n + 1) * 4096 < 2 ^ 48" and k: "k < n" and x: "x < 4096"
  defines "v \<equiv> b + 4096 + of_nat k * 4096"
  shows "v + x < 2 ^ 48" "unat (v + x) = unat b + (k + 1) * 4096 + unat x" "unat (v + x) div 4096 = unat b div 4096 + k + 1"
    "va_page_offset (v + x) = x" "page_base v = v"
proof -
  let ?y = "4096 + of_nat k * 4096 + x :: u64"
  have x': "unat x < 4096" using x by (simp add: word_less_nat_alt)
  have u: "unat ?y = (k + 1) * 4096 + unat x" using k fit x' by (simp add: unat_word_ariths unat_of_nat)
  have y: "unat ?y < (n + 1) * 4096" using u k x' by simp
  have v: "v + x = b + ?y" by (simp add: v_def)
  note P = page_slot [OF b y] 
  show "v + x < 2 ^ 48" "unat (v + x) = unat b + (k + 1) * 4096 + unat x" "unat (v + x) div 4096 = unat b div 4096 + k + 1"
    using P fit u x' unfolding v by simp_all
  have "page_base (4096 + of_nat k * 4096 :: u64) = 4096 + of_nat k * 4096"
    using page_base_mult [of "1 + of_nat k"] by (simp add: algebra_simps)
  then show vb: "page_base v = v" unfolding v_def add.assoc [of b] by (rule page_base_sum [OF b])
  show "va_page_offset (v + x) = x"
    using page_base_plus_offset [of "v + x"] page_base_add(1) [OF vb x'] by (simp add: va_page_offset_def)
qed

lemma div_page_iff: "(w :: nat) div 4096 = q \<longleftrightarrow> q * 4096 \<le> w \<and> w < (q + 1) * 4096"
  using div_mult_mod_eq [of w 4096] by (auto intro!: div_nat_eqI)

lemma map_stack_pages_correct:
  assumes rd: "paging_ready s" and b: "page_base b = b" and fit: "unat b + (unat n + 1) * 4096 < 2 ^ 48"
    and phys: "\<forall>a\<in>avail s. a < 2 ^ 52"
    and nh: "\<forall>w. b \<le> w \<and> unat w < unat b + (unat n + 1) * 4096 \<longrightarrow> \<not> huge_mapped s w"
    and m: "map_stack_pages (range_w 0 n) b s = (ok, s')"
  shows "paging_ready s'" "paging_machine.more s' = paging_machine.more s"
    "w < 2 ^ 48 \<Longrightarrow> unat w < unat b + 4096 \<or> unat b + (unat n + 1) * 4096 \<le> unat w \<Longrightarrow> translation s' w = translation s w"
    "ok \<Longrightarrow> \<exists>fs. length fs = unat n \<and> distinct fs \<and> set fs \<subseteq> avail s - avail s' \<and> set fs \<inter> page_tables s' = {}
       \<and> (\<forall>k<unat n. \<forall>x<4096. translation s' (b + 4096 + of_nat k * 4096 + x) = Some (fs ! k OR x))"
proof -
  let ?vs = "map (\<lambda>i. b + PAGE_SIZE + i * PAGE_SIZE) (range_w 0 n)"
  note P = stack_page [OF b fit]
  have len: "length ?vs = unat n" by (simp add: length_range_w_0)
  have vs: "?vs ! k = b + 4096 + of_nat k * 4096" if "k < unat n" for k
    using that by (simp add: range_w_def PAGE_SIZE_def)
  have inv: "\<exists>k<unat n. v = ?vs ! k" if "v \<in> set ?vs" for v using that len by (metis in_set_conv_nth)
  have sp: "same_page s (?vs ! k) w \<longleftrightarrow> unat w div 4096 = unat b div 4096 + k + 1" if "k < unat n" "w < 2 ^ 48" for k w
    using same_page_low [OF P(1) [OF that(1), of 0] that(2)] P(3) [OF that(1), of 0] vs [OF that(1)] by (simp add: eq_commute)
  have nh1: "\<forall>v\<in>set ?vs. \<not> huge_mapped s v"
  proof
    fix v assume "v \<in> set ?vs"
    then obtain k where k: "k < unat n" "v = ?vs ! k" using inv by blast
    have "unat v = unat b + (k + 1) * 4096" using P(2) [OF k(1), of 0] vs [OF k(1)] k(2) by simp
    then show "\<not> huge_mapped s v" using k(1) nh by (simp add: word_le_nat_alt)
  qed
  have dj: "\<forall>i<length ?vs. \<forall>j<length ?vs. i \<noteq> j \<longrightarrow> \<not> same_page s (?vs ! i) (?vs ! j)"
    using sp P(1,3) [where x = 0] vs unfolding len by simp
  note M = stack_pages_correct [OF rd nh1 phys m [unfolded map_stack_pages_fresh] stack_flags_mapping dj, unfolded len]
  show "paging_ready s'" "paging_machine.more s' = paging_machine.more s" using M by blast+
  show "translation s' w = translation s w"
    if w: "w < 2 ^ 48" "unat w < unat b + 4096 \<or> unat b + (unat n + 1) * 4096 \<le> unat w"
  proof -
    have b0: "unat b = unat b div 4096 * 4096" using b div_mult_mod_eq [of "unat b" 4096] unfolding page_base_unat by simp
    have "\<not> same_page s (?vs ! k) w" if k: "k < unat n" for k
    proof -
      have "\<not> unat w div 4096 = unat b div 4096 + k + 1"
        unfolding div_page_iff using w(2) k b0 by (auto simp: algebra_simps)
      then show ?thesis using sp [OF k w(1)] by blast
    qed
    then have "\<forall>v\<in>set ?vs. \<not> same_page s v w" using inv by metis
    moreover have "\<forall>w. (\<forall>v\<in>set ?vs. \<not> same_page s v w) \<longrightarrow> translation s' w = translation s w" using M by (elim conjE)
    ultimately show ?thesis by simp
  qed
  show "\<exists>fs. length fs = unat n \<and> distinct fs \<and> set fs \<subseteq> avail s - avail s' \<and> set fs \<inter> page_tables s' = {}
       \<and> (\<forall>k<unat n. \<forall>x<4096. translation s' (b + 4096 + of_nat k * 4096 + x) = Some (fs ! k OR x))" if success: ok
  proof -
    obtain fs where fs: "length fs = unat n" "distinct fs" "set fs \<subseteq> avail s - avail s'" "set fs \<inter> page_tables s' = {}"
      and tr: "\<forall>k<unat n. \<forall>w. same_page s (?vs ! k) w \<and> canonical s w \<longrightarrow> translation s' w = Some (fs ! k OR va_page_offset w)"
      using M success by (elim conjE impE exE)
    have "translation s' (b + 4096 + of_nat k * 4096 + x) = Some (fs ! k OR x)" if "k < unat n" "x < 4096" for k x
      using tr sp [OF that(1) P(1) [OF that]] P(3,4) [OF that] canonical_low [OF P(1) [OF that]] that(1) by metis
    then show ?thesis using fs by blast
  qed
qed

text \<open>What the allocation of a stack does to registry, translations and frames.\<close>

lemma kernel_stack_effect:
  fixes s :: "'a guard_machine_scheme"
  assumes rd: "paging_ready s" and gi: "guard_inv s" and al: "page_base (NEXT_STACK_OFFSET s) = NEXT_STACK_OFFSET s"
    and fit: "unat (stack_base s) + (unat n + 1) * 4096 < 2 ^ 48"
    and phys: "\<forall>a\<in>avail s. a < 2 ^ 52"
    and nh: "\<forall>w. stack_base s \<le> w \<and> unat w < unat (stack_base s) + (unat n + 1) * 4096 \<longrightarrow> \<not> huge_mapped s w"
    and st: "allocate_kernel_stack n s = (rsp, s')"
  shows "paging_ready s' \<and> guard_inv s' \<and> NEXT_STACK_OFFSET s' = NEXT_STACK_OFFSET s + (n + 1) * 4096
     \<and> guard_pages s' = (if GUARD_REGISTRY_COUNT s < 64 then insert (stack_base s) (guard_pages s) else guard_pages s)
     \<and> (\<forall>w<2 ^ 48. unat w < unat (stack_base s) + 4096 \<or> unat (stack_base s) + (unat n + 1) * 4096 \<le> unat w
           \<longrightarrow> translation s' w = translation s w)
     \<and> (rsp \<noteq> 0 \<longrightarrow> unat rsp = unat (stack_base s) + (unat n + 1) * 4096
          \<and> (\<exists>fs. length fs = unat n \<and> distinct fs \<and> set fs \<subseteq> avail s - avail s' \<and> set fs \<inter> page_tables s' = {}
               \<and> (\<forall>k<unat n. \<forall>x<4096. translation s' (stack_base s + 4096 + of_nat k * 4096 + x) = Some (fs ! k OR x))))"
proof -
  let ?b = "stack_base s"
  define s0 where "s0 = s\<lparr>NEXT_STACK_OFFSET := NEXT_STACK_OFFSET s + (n + 1) * PAGE_SIZE\<rparr>"
  obtain g s1 where g: "register_guard_page ?b s0 = (g, s1)" by fastforce
  obtain ok s2 where m: "map_stack_pages (range_w 0 n) ?b s1 = (ok, s2)" by fastforce
  have res: "s' = s2" "rsp = (if ok then ?b + (n + 1) * 4096 else 0)"
    using st g m by (auto simp: allocate_kernel_stack_def Let_def s0_def stack_base_def PAGE_SIZE_def split: if_splits)
  have gi0: "guard_inv s0" using gi by (simp add: s0_def guard_inv_def)
  note G = register_guard_page_step [OF gi0 g]
  have "mem s1 = mem s" "PMM_INSTANCE s1 = PMM_INSTANCE s" "PAGING_MANAGER s1 = PAGING_MANAGER s" "NEXT_STACK_OFFSET s1 = NEXT_STACK_OFFSET s0"
    by (subst G(4); simp add: s0_def)+
  note A = address_space_cong [OF this(1-3)] and off = this(4)
  have vb: "page_base ?b = ?b" by (rule stack_base_aligned [OF al])
  have "paging_ready s1" "\<forall>a\<in>avail s1. a < 2 ^ 52"
    "\<forall>w. ?b \<le> w \<and> unat w < unat ?b + (unat n + 1) * 4096 \<longrightarrow> \<not> huge_mapped s1 w" using rd phys nh A by simp_all
  note M = map_stack_pages_correct [OF this(1) vb fit this(2,3) m]
  have "(unat n + 1) * 4096 < 2 ^ 48" using fit by simp
  then have "unat ((n + 1) * 4096) = (unat n + 1) * 4096" by (simp add: unat_word_ariths)
  then have top: "unat (?b + (n + 1) * 4096) = unat ?b + (unat n + 1) * 4096" using fit by (simp add: unat_word_ariths)
  have "guard_pages s1 = (if GUARD_REGISTRY_COUNT s < 64 then insert ?b (guard_pages s) else guard_pages s)"
    using G(2,3) vb by (simp add: s0_def guard_pages_def)
  moreover have "NEXT_STACK_OFFSET s2 = NEXT_STACK_OFFSET s + (n + 1) * 4096"
    using guard_fields(3) [OF M(2)] off by (simp add: s0_def PAGE_SIZE_def)
  moreover have "ok" "unat rsp = unat ?b + (unat n + 1) * 4096" if "rsp \<noteq> 0" using that res(2) top by (auto split: if_splits)
  ultimately show ?thesis
    using G(1) guard_fields_inv [OF M(2)] M(1) M(3) [unfolded A(9)] M(4) [unfolded A(1)] unfolding res(1) by presburger
qed


text \<open>One page of a stack is mapped whenever the frame and the tables of its path are left.\<close>

lemma map_stack_page_succeeds:
  assumes rd: "paging_ready s" and low: "low_memory s" and fin: "finite (avail s)"
    and enough: "length (mode_levels (as_mode s)) \<le> card (avail s)"
    and v: "canonical s (b + PAGE_SIZE + i * PAGE_SIZE)" "\<not> huge_mapped s (b + PAGE_SIZE + i * PAGE_SIZE)"
  shows "fst (map_stack_pages [i] b s)"
proof -
  let ?v = "b + PAGE_SIZE + i * PAGE_SIZE"
  obtain a s1 where al: "alloc_stack_frame s = (a, s1)" by fastforce
  note A = alloc_stack_frame_effect [OF rd al] and S = same_rest_as [OF alloc_stack_frame_effect(5) [OF rd al]]
  have ne: "avail s \<noteq> {}" using enough mode_levels_ne(1) by (metis card.empty le_zero_eq length_0_conv)
  have a: "a \<noteq> 0" "avail s1 = avail s - {a}" using A(8) [OF low] ne by (auto split: if_splits)
  have av: "a \<in> avail s" using A(7) a(1) by blast
  obtain r s2 where m: "map_page ?v a stack_flags s1 = (r, s2)" by fastforce
  have "pa_is_aligned a" using avail_frame(1) [OF tree_invD(1) [OF paging_readyD(1) [OF rd]] av] by (simp add: aligned_page_base)
  moreover have "low_memory s1" using low a(2) by (simp add: low_memory_def)
  moreover have "length (mode_levels (as_mode s1)) \<le> Suc (card (avail s1))"
    using enough av fin S(4) a(2) by (simp add: card_Diff_singleton_if)
  moreover have "\<not> huge_mapped s1 ?v" "canonical s1 ?v" using A(4) v S(6) by simp_all
  ultimately have "r = Ok ()" using map_page_effect [OF A(1) _ m] by metis
  then show ?thesis using al a(1) m by simp
qed

definition demo_guard :: guard_machine where
  "demo_guard = paging_machine.extend demo_paging
     (guard_machine.fields (replicate 64 0) 0 0)"

lemma demo_guard_fields [simp]:
  "mem demo_guard = mem demo_paging" "PMM_INSTANCE demo_guard = PMM_INSTANCE demo_paging"
  "PAGING_MANAGER demo_guard = PAGING_MANAGER demo_paging" "NEXT_STACK_OFFSET demo_guard = 0"
  "GUARD_REGISTRY demo_guard = replicate 64 0" "GUARD_REGISTRY_COUNT demo_guard = 0"
  by (simp_all add: demo_guard_def paging_machine.defs guard_machine.defs)

lemmas demo_guard_as = address_space_cong [OF demo_guard_fields(1-3)]

lemma demo_stack: "fst (allocate_kernel_stack 1 demo_guard) \<noteq> 0"
proof -
  define s0 where "s0 = demo_guard\<lparr>NEXT_STACK_OFFSET := 2 * PAGE_SIZE\<rparr>"
  define s1 where "s1 = snd (register_guard_page KERNEL_STACK_AREA_BASE s0)"
  have gi: "guard_inv s0" by (simp add: guard_inv_def s0_def)
  note G = register_guard_page_step [OF gi surjective_pairing, of KERNEL_STACK_AREA_BASE, folded s1_def]
  have "mem s1 = mem demo_paging" "PMM_INSTANCE s1 = PMM_INSTANCE demo_paging" "PAGING_MANAGER s1 = PAGING_MANAGER demo_paging"
    by (subst G(4); simp add: s0_def)+
  note A = address_space_cong [OF this]
  have "fst (map_stack_pages [0] KERNEL_STACK_AREA_BASE s1)"
    by (rule map_stack_page_succeeds) (simp_all add: A demo_paging_ready demo_low demo_avail demo_as demo_not_huge demo_canonical
        va_is_canonical_la48_def KERNEL_STACK_AREA_BASE_def PAGE_SIZE_def)
  then obtain s2 where m: "map_stack_pages [0] KERNEL_STACK_AREA_BASE s1 = (True, s2)" by (metis prod.collapse)
  obtain g where g: "register_guard_page KERNEL_STACK_AREA_BASE s0 = (g, s1)" by (metis s1_def prod.collapse)
  have "range_w 0 1 = [0 :: usize]" by (simp add: range_w_def)
  then have "allocate_kernel_stack 1 demo_guard = (KERNEL_STACK_AREA_BASE + 2 * PAGE_SIZE, s2)"
    using g m by (simp add: allocate_kernel_stack_def s0_def Let_def del: map_stack_pages.simps)
  then show ?thesis by (simp add: KERNEL_STACK_AREA_BASE_def PAGE_SIZE_def)
qed


text \<open>
  the registry is a set of pages: from the empty registry of boot, after any sequence of
  registrations \<^verbatim>\<open>is_guard_page\<close> answers for exactly the pages of the first 64 addresses, every address of
  such a page included.
\<close>

theorem guard_registry_correct:
  assumes "GUARD_REGISTRY s = replicate 64 0" "GUARD_REGISTRY_COUNT s = 0"
  shows "is_guard_page a (fold (\<lambda>v s. snd (register_guard_page v s)) vs s) \<longleftrightarrow> page_base a \<in> page_base ` set (take 64 vs)"
proof -
  have "guard_inv (fold (\<lambda>v s. snd (register_guard_page v s)) vs s)
    \<and> guard_pages (fold (\<lambda>v s. snd (register_guard_page v s)) vs s)
       = guard_pages s \<union> page_base ` set (take (64 - unat (GUARD_REGISTRY_COUNT s)) vs)" if "guard_inv s" for s :: "'a guard_machine_scheme"
    using that
  proof (induction vs arbitrary: s)
    case (Cons v vs)
    obtain b s1 where r: "register_guard_page v s = (b, s1)" by fastforce
    note G = register_guard_page_step [OF Cons.prems r]
    have c: "unat (GUARD_REGISTRY_COUNT s1) = (if b then Suc (unat (GUARD_REGISTRY_COUNT s)) else unat (GUARD_REGISTRY_COUNT s))"
      using r G(2) unat_add_1 [of "GUARD_REGISTRY_COUNT s" 64] by (auto simp: register_guard_page_def Let_def split: if_splits)
    show ?case
    proof (cases b)
      case True
      then have "64 - unat (GUARD_REGISTRY_COUNT s) = Suc (64 - unat (GUARD_REGISTRY_COUNT s1))"
        using G(2) c by (simp add: word_less_nat_alt)
      then show ?thesis using Cons.IH [OF G(1)] G(3) True by (simp add: r)
    next
      case False
      then have "64 - unat (GUARD_REGISTRY_COUNT s) = 0" using G(2) by (simp add: word_less_nat_alt)
      then show ?thesis using Cons.IH [OF G(1)] G(3) False c by (simp add: r)
    qed
  qed simp
  from this [of s] assms show ?thesis by (simp add: is_guard_page_iff guard_inv_def guard_pages_def)
qed

theorem guard_registry_correct_witness:
  "is_guard_page 0x2000FFF (fold (\<lambda>v s. snd (register_guard_page v s)) [0x2000008] demo_guard)
   \<and> \<not> is_guard_page 0x2001000 (fold (\<lambda>v s. snd (register_guard_page v s)) [0x2000008] demo_guard)"
  using guard_registry_correct [OF demo_guard_fields(5,6), of "0x2000FFF" "[0x2000008]"]
    guard_registry_correct [OF demo_guard_fields(5,6), of "0x2001000" "[0x2000008]"]
  by (simp add: page_base_def)

end
