(* ===== verification/Cow.thy ===== *)
theory Cow
  imports Page_Access Guard_Page
begin

text \<open>
  Copy-on-write, \<^verbatim>\<open>memory/cow.rs\<close>: reference counts of frames, marking and sharing pages, and the fault
  that gives a writer its own copy of a shared page.
\<close>

unbundle bit_operations_syntax

section \<open>State and operations\<close>

definition MAX_FRAMES :: usize where "MAX_FRAMES = 1024 * 1024"

text \<open>
  The table of atomic counters as a function; every access is guarded by the test against
  \<^verbatim>\<open>MAX_FRAMES\<close>. The atomic additions and subtractions wrap around.
\<close>

record cow_machine = guard_machine +
  REFCOUNT_TABLE :: "usize \<Rightarrow> u32"

definition COW_BIT :: u64 where "COW_BIT = push_bit 9 1"

definition cow_init :: "'a cow_machine_scheme \<Rightarrow> 'a cow_machine_scheme" where
  "cow_init s = s\<lparr>REFCOUNT_TABLE := fold (\<lambda>i t. t(i := 0)) (range_w 0 MAX_FRAMES) (REFCOUNT_TABLE s)\<rparr>"

definition phys_to_frame_index :: "u64 \<Rightarrow> usize" where
  "phys_to_frame_index phys_addr = phys_addr div PAGE_SIZE"

definition get_refcount :: "PhysAddr \<Rightarrow> 'a cow_machine_scheme \<Rightarrow> u32" where
  "get_refcount phys_addr s =
     (let index = phys_to_frame_index phys_addr
      in if index \<ge> MAX_FRAMES then 0 else REFCOUNT_TABLE s index)"

definition inc_refcount :: "PhysAddr \<Rightarrow> 'a cow_machine_scheme \<Rightarrow> u32 \<times> 'a cow_machine_scheme" where
  "inc_refcount phys_addr s =
     (let index = phys_to_frame_index phys_addr
      in if index \<ge> MAX_FRAMES then (0, s)
         else (REFCOUNT_TABLE s index + 1,
               s\<lparr>REFCOUNT_TABLE := (REFCOUNT_TABLE s)(index := REFCOUNT_TABLE s index + 1)\<rparr>))"

definition dec_refcount :: "PhysAddr \<Rightarrow> 'a cow_machine_scheme \<Rightarrow> u32 \<times> 'a cow_machine_scheme" where
  "dec_refcount phys_addr s =
     (let index = phys_to_frame_index phys_addr
      in if index \<ge> MAX_FRAMES then (0, s)
         else let old = REFCOUNT_TABLE s index;
                  s' = s\<lparr>REFCOUNT_TABLE := (REFCOUNT_TABLE s)(index := old - 1)\<rparr>
              in if old > 0 then (old - 1, s') else (0, s'))"

definition set_refcount :: "PhysAddr \<Rightarrow> u32 \<Rightarrow> 'a cow_machine_scheme \<Rightarrow> 'a cow_machine_scheme" where
  "set_refcount phys_addr n s =
     (let index = phys_to_frame_index phys_addr
      in if index \<ge> MAX_FRAMES then s
         else s\<lparr>REFCOUNT_TABLE := (REFCOUNT_TABLE s)(index := n)\<rparr>)"

definition is_cow_page :: "PageTableFlags \<Rightarrow> bool" where
  "is_cow_page flags \<longleftrightarrow> flags AND COW_BIT \<noteq> 0"

definition mark_cow :: "VirtAddr \<Rightarrow> 'a cow_machine_scheme \<Rightarrow> (string, unit) result \<times> 'a cow_machine_scheme" where
  "mark_cow virt_addr s =
     (case get_page_flags virt_addr s of
        Err e \<Rightarrow> (Err e, s)
      | Ok current_flags \<Rightarrow>
          case translate_address virt_addr s of
            Err e \<Rightarrow> (Err e, s)
          | Ok phys_addr \<Rightarrow>
              let new_flags = ptf_clear current_flags WRITABLE OR COW_BIT;
                  (c, s) = inc_refcount phys_addr s
              in remap_page virt_addr phys_addr new_flags s)"

primrec mark_cow_pages :: "usize list \<Rightarrow> VirtAddr \<Rightarrow> 'a cow_machine_scheme \<Rightarrow> (string, unit) result \<times> 'a cow_machine_scheme" where
  "mark_cow_pages [] virt_start s = (Ok (), s)"
| "mark_cow_pages (i # is) virt_start s =
     (case mark_cow (virt_start + i * PAGE_SIZE) s of
        (Err e, s') \<Rightarrow> (Err e, s')
      | (Ok u, s') \<Rightarrow> mark_cow_pages is virt_start s')"

definition mark_cow_range :: "VirtAddr \<Rightarrow> usize \<Rightarrow> 'a cow_machine_scheme \<Rightarrow> (string, unit) result \<times> 'a cow_machine_scheme" where
  "mark_cow_range virt_start bytes s =
     mark_cow_pages (range_w 0 ((bytes + PAGE_SIZE - 1) div PAGE_SIZE)) virt_start s"

definition cow_phys_to_virt :: "u64 \<Rightarrow> u64" where
  "cow_phys_to_virt phys = phys"

definition copy_page :: "PhysAddr \<Rightarrow> PhysAddr \<Rightarrow> 'a pmm_machine_scheme \<Rightarrow> (string, unit) result \<times> 'a pmm_machine_scheme" where
  "copy_page src_phys dst_phys s =
     (if \<not> pa_is_aligned src_phys \<or> \<not> pa_is_aligned dst_phys then (Err ''Physical addresses must be page-aligned'', s)
      else let src_virt = cow_phys_to_virt src_phys;
               dst_virt = cow_phys_to_virt dst_phys
           in (Ok (), s\<lparr>mem := copy_bytes (mem s) src_virt dst_virt 4096\<rparr>))"

text \<open>
  \<^verbatim>\<open>alloc_frame()\<close> counts as failed when it returns an error or the address 0
  (\<^verbatim>\<open>unwrap_or_default() == 0\<close>), so the \<^verbatim>\<open>?\<close> behind the test never returns.
\<close>

definition handle_cow_fault :: "VirtAddr \<Rightarrow> 'a cow_machine_scheme \<Rightarrow> (string, unit) result \<times> 'a cow_machine_scheme" where
  "handle_cow_fault virt_addr s =
     (case get_page_flags virt_addr s of
        Err e \<Rightarrow> (Err e, s)
      | Ok current_flags \<Rightarrow>
          if \<not> is_cow_page current_flags then (Err ''Not a CoW page'', s)
          else case translate_address virt_addr s of
            Err e \<Rightarrow> (Err e, s)
          | Ok old_phys_addr \<Rightarrow>
              if get_refcount old_phys_addr s \<le> 1 then
                let new_flags = ptf_set current_flags WRITABLE AND NOT COW_BIT;
                    (c, s) = dec_refcount old_phys_addr s
                in remap_page virt_addr old_phys_addr new_flags s
              else
                let (new_phys_frame, s) = alloc_frame s
                in if unwrap_or 0 new_phys_frame = 0 then (Err ''Failed to allocate frame for CoW'', s)
                   else let new_phys_addr = unwrap_or 0 new_phys_frame
                     in case copy_page old_phys_addr new_phys_addr s of
                       (Err e, s) \<Rightarrow> (Err e, s)
                     | (Ok u, s) \<Rightarrow>
                         let new_flags = ptf_set current_flags WRITABLE AND NOT COW_BIT
                         in case remap_page virt_addr new_phys_addr new_flags s of
                           (Err e, s) \<Rightarrow> (Err e, s)
                         | (Ok u, s) \<Rightarrow>
                             let (new_refcount, s) = dec_refcount old_phys_addr s;
                                 s = (if new_refcount = 0 then snd (free_frame old_phys_addr s) else s)
                             in (Ok (), set_refcount new_phys_addr 1 s))"

definition share_page_cow :: "VirtAddr \<Rightarrow> VirtAddr \<Rightarrow> 'a cow_machine_scheme \<Rightarrow> (string, unit) result \<times> 'a cow_machine_scheme" where
  "share_page_cow src_virt dst_virt s =
     (case translate_address src_virt s of
        Err e \<Rightarrow> (Err e, s)
      | Ok phys_addr \<Rightarrow>
          case get_page_flags src_virt s of
            Err e \<Rightarrow> (Err e, s)
          | Ok src_flags \<Rightarrow>
              let cow_flags = ptf_clear src_flags WRITABLE OR COW_BIT
              in case remap_page src_virt phys_addr cow_flags s of
                (Err e, s) \<Rightarrow> (Err e, s)
              | (Ok u, s) \<Rightarrow>
                  case map_page dst_virt phys_addr cow_flags s of
                    (Err e, s) \<Rightarrow> (Err e, s)
                  | (Ok u, s) \<Rightarrow> (Ok (), snd (inc_refcount phys_addr s)))"

primrec clone_pages :: "usize list \<Rightarrow> VirtAddr \<Rightarrow> VirtAddr \<Rightarrow> 'a cow_machine_scheme \<Rightarrow> (string, unit) result \<times> 'a cow_machine_scheme" where
  "clone_pages [] src_virt_start dst_virt_start s = (Ok (), s)"
| "clone_pages (i # is) src_virt_start dst_virt_start s =
     (let src_virt = src_virt_start + i * PAGE_SIZE;
          dst_virt = dst_virt_start + i * PAGE_SIZE
      in case translate_address src_virt s of
        Err e \<Rightarrow> clone_pages is src_virt_start dst_virt_start s
      | Ok phys \<Rightarrow>
          case share_page_cow src_virt dst_virt s of
            (Err e, s') \<Rightarrow> (Err e, s')
          | (Ok u, s') \<Rightarrow> clone_pages is src_virt_start dst_virt_start s')"

definition clone_range_cow ::
  "VirtAddr \<Rightarrow> VirtAddr \<Rightarrow> usize \<Rightarrow> 'a cow_machine_scheme \<Rightarrow> (string, unit) result \<times> 'a cow_machine_scheme" where
  "clone_range_cow src_virt_start dst_virt_start bytes s =
     clone_pages (range_w 0 ((bytes + PAGE_SIZE - 1) div PAGE_SIZE)) src_virt_start dst_virt_start s"

definition unshare_cow_page :: "VirtAddr \<Rightarrow> 'a cow_machine_scheme \<Rightarrow> (string, unit) result \<times> 'a cow_machine_scheme" where
  "unshare_cow_page virt_addr s =
     (case get_page_flags virt_addr s of
        Err e \<Rightarrow> (Err e, s)
      | Ok current_flags \<Rightarrow>
          if \<not> is_cow_page current_flags then (Ok (), s)
          else case translate_address virt_addr s of
            Err e \<Rightarrow> (Err e, s)
          | Ok old_phys_addr \<Rightarrow>
              if get_refcount old_phys_addr s \<le> 1 then
                let new_flags = ptf_set current_flags WRITABLE AND NOT COW_BIT;
                    (c, s) = dec_refcount old_phys_addr s
                in remap_page virt_addr old_phys_addr new_flags s
              else
                let (new_phys_frame, s) = alloc_frame s
                in if unwrap_or 0 new_phys_frame = 0 then (Err ''Failed to allocate frame'', s)
                   else let new_phys_addr = unwrap_or 0 new_phys_frame
                     in case copy_page old_phys_addr new_phys_addr s of
                       (Err e, s) \<Rightarrow> (Err e, s)
                     | (Ok u, s) \<Rightarrow>
                         let new_flags = ptf_set current_flags WRITABLE AND NOT COW_BIT
                         in case remap_page virt_addr new_phys_addr new_flags s of
                           (Err e, s) \<Rightarrow> (Err e, s)
                         | (Ok u, s) \<Rightarrow>
                             let (new_refcount, s) = dec_refcount old_phys_addr s;
                                 s = (if new_refcount = 0 then snd (free_frame old_phys_addr s) else s)
                             in (Ok (), set_refcount new_phys_addr 1 s))"

definition cow_mark_page :: "u64 \<Rightarrow> 'a cow_machine_scheme \<Rightarrow> i32 \<times> 'a cow_machine_scheme" where
  "cow_mark_page virt_addr s = apfst paging_status (mark_cow virt_addr s)"

definition cow_handle_fault :: "u64 \<Rightarrow> 'a cow_machine_scheme \<Rightarrow> i32 \<times> 'a cow_machine_scheme" where
  "cow_handle_fault virt_addr s = apfst paging_status (handle_cow_fault virt_addr s)"

definition cow_get_refcount :: "u64 \<Rightarrow> 'a cow_machine_scheme \<Rightarrow> u32" where
  "cow_get_refcount phys_addr s = get_refcount phys_addr s"

definition cow_share_page :: "u64 \<Rightarrow> u64 \<Rightarrow> 'a cow_machine_scheme \<Rightarrow> i32 \<times> 'a cow_machine_scheme" where
  "cow_share_page src_virt dst_virt s = apfst paging_status (share_page_cow src_virt dst_virt s)"

definition cow_clone_range :: "u64 \<Rightarrow> u64 \<Rightarrow> u64 \<Rightarrow> 'a cow_machine_scheme \<Rightarrow> i32 \<times> 'a cow_machine_scheme" where
  "cow_clone_range src_virt_start dst_virt_start bytes s =
     apfst paging_status (clone_range_cow src_virt_start dst_virt_start bytes s)"

section \<open>Allocation and copies outside the tables\<close>

lemma alloc_frame_c: "alloc_frame s = (r, s') \<Longrightarrow> pmm_alloc_frame s = (unwrap_or 0 r, s')"
  by (cases "PMM_INSTANCE s") (auto simp: alloc_frame_def pmm_alloc_frame_def with_pmm_def unwrap_or_def pmm_not_initialized_def split: prod.splits)

section \<open>Reference counts\<close>

text \<open>The frame of an address has a counter when it lies below 4 GiB.\<close>

definition tracked :: "u64 \<Rightarrow> bool" where
  "tracked a \<longleftrightarrow> phys_to_frame_index a < MAX_FRAMES"

lemma tracked_low: "a < 0x100000000 \<Longrightarrow> tracked a"
proof -
  assume "a < 0x100000000"
  then have "unat a div 4096 < 1048576" by (simp add: word_less_nat_alt)
  then show ?thesis by (simp add: tracked_def phys_to_frame_index_def MAX_FRAMES_def PAGE_SIZE_def word_less_nat_alt unat_div)
qed

lemma refcount_values:
  "get_refcount q (snd (inc_refcount p s)) = (if tracked p \<and> phys_to_frame_index q = phys_to_frame_index p then get_refcount q s + 1 else get_refcount q s)"
  "get_refcount q (snd (dec_refcount p s)) = (if tracked p \<and> phys_to_frame_index q = phys_to_frame_index p then get_refcount q s - 1 else get_refcount q s)"
  "get_refcount q (set_refcount p n s) = (if tracked p \<and> phys_to_frame_index q = phys_to_frame_index p then n else get_refcount q s)"
  "tracked p \<Longrightarrow> fst (dec_refcount p s) = (if get_refcount p s = 0 then 0 else get_refcount p s - 1)"
  by (auto simp: tracked_def get_refcount_def inc_refcount_def dec_refcount_def set_refcount_def Let_def word_gt_0 not_le)

lemma refcount_tracked: "get_refcount p s \<noteq> 0 \<Longrightarrow> tracked p"
  by (auto simp: get_refcount_def tracked_def Let_def not_le split: if_splits)

lemma refcount_state [simp]:
  "mem (snd (inc_refcount p s)) = mem s" "PMM_INSTANCE (snd (inc_refcount p s)) = PMM_INSTANCE s"
  "PAGING_MANAGER (snd (inc_refcount p s)) = PAGING_MANAGER s"
  "mem (snd (dec_refcount p s)) = mem s" "PMM_INSTANCE (snd (dec_refcount p s)) = PMM_INSTANCE s"
  "PAGING_MANAGER (snd (dec_refcount p s)) = PAGING_MANAGER s"
  "mem (set_refcount p n s) = mem s" "PMM_INSTANCE (set_refcount p n s) = PMM_INSTANCE s"
  "PAGING_MANAGER (set_refcount p n s) = PAGING_MANAGER s"
  by (simp_all add: inc_refcount_def dec_refcount_def set_refcount_def Let_def)

lemmas inc_space = address_space_cong [OF refcount_state(1-3)] page_flags_cong [OF refcount_state(1,3)]
lemmas dec_space = address_space_cong [OF refcount_state(4-6)] page_flags_cong [OF refcount_state(4,6)]
lemmas set_space = address_space_cong [OF refcount_state(7-9)] page_flags_cong [OF refcount_state(7,9)]

lemma refcount_more:
  assumes "paging_machine.more s' = paging_machine.more s"
  shows "get_refcount p s' = get_refcount p s"
proof -
  have "REFCOUNT_TABLE s' = REFCOUNT_TABLE s" using assms by (cases s; cases s'; simp)
  then show ?thesis by (simp add: get_refcount_def Let_def)
qed

lemma frame_index_inj: "page_base a = a \<Longrightarrow> page_base b = b \<Longrightarrow> phys_to_frame_index a = phys_to_frame_index b \<longleftrightarrow> a = b"
  unfolding phys_to_frame_index_def PAGE_SIZE_def page_base_iff_dvd by (metis word_mod_div_equality)

section \<open>Flags of a shared page\<close>

lemma bit_COW_BIT: "bit COW_BIT n \<longleftrightarrow> n = 9"
  unfolding COW_BIT_def bit_push_bit_iff by (auto simp: bit_1_iff)

lemma bit_WRITABLE: "bit WRITABLE n \<longleftrightarrow> n = 1"
  unfolding WRITABLE_def bit_push_bit_iff by (auto simp: bit_1_iff)

lemma is_cow_page_bit: "is_cow_page f \<longleftrightarrow> bit f 9"
  using and_exp_eq_0 [of f 9] by (simp add: is_cow_page_def COW_BIT_def push_bit_eq_mult)

definition cow_flags_of :: "PageTableFlags \<Rightarrow> PageTableFlags" where
  "cow_flags_of f = ptf_clear f WRITABLE OR COW_BIT"

definition private_flags_of :: "PageTableFlags \<Rightarrow> PageTableFlags" where
  "private_flags_of f = ptf_set f WRITABLE AND NOT COW_BIT"

lemma flags_bits:
  "bit (cow_flags_of f) n \<longleftrightarrow> (if n = 1 then False else if n = 9 then True else bit f n)"
  "bit (private_flags_of f) n \<longleftrightarrow> (if n = 1 then True else if n = 9 then False else bit f n)"
  by (auto simp: cow_flags_of_def private_flags_of_def ptf_clear_def ptf_set_def bit_or_iff bit_and_iff bit_not_iff
      bit_COW_BIT bit_WRITABLE dest: bit_imp_le_length)

lemma leaf_entry_present: "leaf_entry m ls t v = Ok (e, msk) \<Longrightarrow> pte_is_present e"
  by (induction m ls t v rule: leaf_entry.induct) (auto simp: Let_def split: if_splits option.splits)

lemma page_flags_bits:
  assumes "paging_ready s" "page_flags s v = Some f"
  shows "bit f n \<Longrightarrow> n < 12" "bit f 0"
proof -
  obtain e msk where e: "as_lookup s v = Some (e, msk)" "f = pte_flags e"
    using assms page_flags_lookup [of s v] paging_readyD(2) [OF assms(1)] by (auto split: if_splits)
  then show "bit f n \<Longrightarrow> n < 12" by (simp add: pte_flags_def bit_page_offset)
  have "pte_is_present e" using e(1) by (auto simp: as_lookup_def lookup_def split: sum.splits dest: leaf_entry_present)
  then show "bit f 0" using e(2) by (simp add: pte_flags_def bit_page_offset pte_is_present_iff)
qed

lemma flags_mapping:
  assumes "paging_ready s" "page_flags s v = Some f"
  shows "mapping_flags (cow_flags_of f)" "mapping_flags (private_flags_of f)"
    "cow_flags_of f AND 0xFFF = cow_flags_of f" "private_flags_of f AND 0xFFF = private_flags_of f"
proof -
  note B = page_flags_bits [OF assms]
  have m: "g AND ADDRESS_MASK = 0" "g AND 0xFFF = g" if "\<And>n. bit g n \<Longrightarrow> n < 12" for g :: u64
  proof -
    show "g AND ADDRESS_MASK = 0" by (rule bit_eqI) (use that in \<open>force simp: bit_and_iff bit_ADDRESS_MASK\<close>)
    show "g AND 0xFFF = g" by (rule bit_eqI) (use that in \<open>auto simp: bit_page_offset\<close>)
  qed
  have c: "n < 12" if "bit (cow_flags_of f) n" for n using that B(1) by (simp add: flags_bits split: if_splits)
  have p: "n < 12" if "bit (private_flags_of f) n" for n using that B(1) by (simp add: flags_bits split: if_splits)
  have "ptf_contains g PRESENT" if "bit g 0" for g using that and_exp_eq_0 [of g 0] by (simp add: ptf_contains_def PRESENT_def)
  moreover have "bit (cow_flags_of f) 0" "bit (private_flags_of f) 0" using B(2) by (simp_all add: flags_bits)
  ultimately show "mapping_flags (cow_flags_of f)" "mapping_flags (private_flags_of f)"
    "cow_flags_of f AND 0xFFF = cow_flags_of f" "private_flags_of f AND 0xFFF = private_flags_of f"
    using m [OF c] m [OF p] by (simp_all add: mapping_flags_def)
qed

lemma translation_Some: "translation s v = Some p \<longleftrightarrow> translate_address v s = Ok p"
  by (auto simp: translation_def split: sum.splits)

lemma page_flags_Some: "page_flags s v = Some f \<longleftrightarrow> get_page_flags v s = Ok f"
  by (auto simp: page_flags_def split: sum.splits)

text \<open>The frame behind a page start is aligned and addressable; inside a page the translation is not aligned.\<close>

lemma page_frame:
  assumes "paging_ready s" "\<not> huge_mapped s v" "translation s v = Some p"
  shows "pa_is_aligned p \<longleftrightarrow> v AND 0xFFF = 0" "p < 2 ^ 52" "canonical s v"
proof -
  have c: "canonical s v" "as_lookup s v \<noteq> None" using translation_None_iff [OF assms(1), of v] assms(3) by auto
  then obtain e where e: "as_lookup s v = Some (e, 0xFFF)" using assms(2) by (auto simp: huge_mapped_lookup)
  have p: "p = pte_address e OR va_page_offset v"
    using assms(3) translation_lookup [of s v] paging_readyD(2) [OF assms(1)] e c(1) by simp
  then have "p AND 0xFFF = v AND 0xFFF"
    by (intro bit_eqI) (auto simp: bit_page_offset bit_or_iff bit_pte_address va_page_offset_def)
  then show "pa_is_aligned p \<longleftrightarrow> v AND 0xFFF = 0" by (simp add: pa_is_aligned_def)
  have "n < 52" if "bit p n" for n using that by (auto simp: p bit_or_iff bit_pte_address va_page_offset_def bit_page_offset)
  then have "take_bit 52 p = p" by (intro bit_eqI) (auto simp: bit_take_bit_iff)
  then have "unat p = take_bit 52 (unat p)" by (metis unsigned_take_bit_eq)
  then have "unat p < 2 ^ 52" by (metis take_bit_nat_less_exp)
  then show "p < 2 ^ 52" by (simp add: word_less_nat_alt)
  show "canonical s v" by (rule c(1))
qed

section \<open>A write to a shared page\<close>

lemma handle_cow_fault_unfold:
  assumes "page_flags s v = Some fl" "is_cow_page fl" "translation s v = Some p"
  shows "handle_cow_fault v s =
    (if get_refcount p s \<le> 1 then remap_page v p (private_flags_of fl) (snd (dec_refcount p s))
     else let (r, s1) = alloc_frame s
       in if unwrap_or 0 r = 0 then (Err ''Failed to allocate frame for CoW'', s1)
          else case copy_page p (unwrap_or 0 r) s1 of
            (Err e, s2) \<Rightarrow> (Err e, s2)
          | (Ok u, s2) \<Rightarrow> case remap_page v (unwrap_or 0 r) (private_flags_of fl) s2 of
              (Err e, s3) \<Rightarrow> (Err e, s3)
            | (Ok u, s3) \<Rightarrow>
                let (c, s4) = dec_refcount p s3
                in (Ok (), set_refcount (unwrap_or 0 r) 1 (if c = 0 then snd (free_frame p s4) else s4)))"
  using assms
  by (simp add: handle_cow_fault_def page_flags_Some translation_Some private_flags_of_def Let_def split: prod.split sum.split)

lemma low_frames: "low_memory s \<Longrightarrow> a \<in> avail s \<Longrightarrow> a \<noteq> 0 \<and> a < 0x100000000 \<and> a < 2 ^ 52"
  unfolding low_memory_def using order_less_trans [of a "0x100000000" "2 ^ 52"] by fastforce

text \<open>A private copy: a frame is taken and the page copied into it.\<close>

lemma copy_frame:
  assumes rd: "paging_ready s" and al: "alloc_frame s = (r, s1)" "unwrap_or 0 r = f" "f \<noteq> 0" and p: "pa_is_aligned p"
    and bm: "\<forall>x. page_base x = p \<longrightarrow> x \<notin> bitmap_area s"
  obtains s2 where "copy_page p f s1 = (Ok (), s2)" "same_space s s2" "translation s2 = translation s" "page_flags s2 = page_flags s"
    "huge_mapped s2 = huge_mapped s" "page_tables s2 = page_tables s" "avail s2 = avail s - {f}" "f \<in> avail s"
    "\<And>x. x < 4096 \<Longrightarrow> mem s2 (f + x) = mem s (p + x)"
proof -
  let ?m = "copy_bytes (mem s1) p f 4096" and ?s2 = "s1\<lparr>mem := copy_bytes (mem s1) p f 4096\<rparr>"
  have pa: "pmm_alloc_frame s = (f, s1)" using alloc_frame_c [OF al(1)] al(2) by simp
  have "takes s f s1" by (rule pmm_alloc_frame_takes(1) [OF tree_invD(1) [OF paging_readyD(1) [OF rd]] pa])
  then have "f \<in> avail s" using takesD(5) al(3) by blast
  note fb = frame_outside(1) [OF rd this]
  have m: "\<forall>x. page_base x \<noteq> f \<longrightarrow> ?m x = mem s1 x" using in_page_iff [OF fb] by (simp add: copy_bytes_def)
  note F = fill_frame [OF rd pa al(3) m refl]
  have "copy_page p f s1 = (Ok (), ?s2)"
    using p fb by (simp add: copy_page_def cow_phys_to_virt_def aligned_page_base)
  moreover have "mem ?s2 (f + x) = mem s (p + x)" if x: "x < 4096" for x
  proof -
    have x': "unat x < 4096" using x by (simp add: word_less_nat_alt)
    have "page_base (p + x) = p" using page_base_add(1) [OF _ x'] p aligned_page_base by blast
    then have "mem s1 (p + x) = mem s (p + x)" using F(8) bm by blast
    then show ?thesis using x' by (simp add: copy_bytes_def in_bytes_def)
  qed
  ultimately show thesis using F(1-7) by (intro that)
qed

text \<open>The translation of every address of a mapped page, from that of its start.\<close>

lemma page_translation:
  assumes rd: "paging_ready s" and nh: "\<not> huge_mapped s v" and v: "v AND 0xFFF = 0" and p: "translation s v = Some p"
    and w: "same_page s v w" "canonical s w"
  shows "translation s w = Some (p OR va_page_offset w)"
proof -
  obtain e where e: "as_lookup s v = Some (e, 0xFFF)"
    using nh p translation_None_iff [OF rd, of v] by (fastforce simp: huge_mapped_lookup)
  have "pte_address e = p" using aligned_translation(1) [OF e rd page_frame(3) [OF rd nh p] v] p by simp
  then show ?thesis using translation_lookup [of s w] paging_readyD(2) [OF rd] e as_lookup_same_page [OF w(1)] w(2) by simp
qed

lemma cow_fault_in_place:
  assumes rd: "paging_ready s" and nh: "\<not> huge_mapped s v" and v: "v AND 0xFFF = 0"
    and fl: "page_flags s v = Some fl" "is_cow_page fl" and p: "translation s v = Some p" and c: "get_refcount p s \<le> 1"
  obtains s' where "handle_cow_fault v s = (Ok (), s')" "same_space (snd (dec_refcount p s)) s'" "translation s' = translation s"
    "avail s' = avail s"
    "\<And>w. page_flags s' w = (if same_page s v w \<and> canonical s w then Some (private_flags_of fl) else page_flags s w)"
proof -
  note P = page_frame [OF rd nh p] and M = flags_mapping [OF rd fl(1)]
  have pa: "pa_is_aligned p" using P(1) v by blast
  let ?s = "snd (dec_refcount p s)"
  have h: "paging_ready ?s" "\<not> huge_mapped ?s v" "translation ?s v \<noteq> None" using rd nh p by (simp_all add: dec_space)
  obtain s' where s': "remap_page v p (private_flags_of fl) ?s = (Ok (), s')" "same_space ?s s'" "avail s' = avail ?s"
    "\<And>w. translation s' w = (if same_page ?s v w \<and> canonical ?s w then Some (p OR va_page_offset w) else translation ?s w)"
    "\<And>w. page_flags s' w = (if same_page ?s v w \<and> canonical ?s w then Some (private_flags_of fl AND 0xFFF) else page_flags ?s w)"
    by (rule remap_page_step [OF h(1,2) pa P(2) M(2) h(3)]) blast
  have "translation s' = translation s" using s'(4) page_translation [OF rd nh v p] by (auto simp: dec_space)
  moreover have "handle_cow_fault v s = (Ok (), s')" using handle_cow_fault_unfold [OF fl p] c s'(1) by simp
  ultimately show thesis using s'(2,3,5) by (intro that [of s']) (simp_all add: dec_space M(4))
qed

lemma cow_fault_copy:
  assumes rd: "paging_ready s" and nh: "\<not> huge_mapped s v" and v: "v AND 0xFFF = 0" and low: "low_memory s"
    and fl: "page_flags s v = Some fl" "is_cow_page fl" and p: "translation s v = Some p"
    and used: "p \<notin> avail s" "\<forall>x. page_base x = p \<longrightarrow> x \<notin> bitmap_area s"
    and c: "\<not> get_refcount p s \<le> 1" and av: "avail s \<noteq> {}"
  obtains s' f where "handle_cow_fault v s = (Ok (), s')" "paging_ready s'" "f \<in> avail s" "avail s' = avail s - {f}"
    "\<And>w. translation s' w = (if same_page s v w \<and> canonical s w then Some (f OR va_page_offset w) else translation s w)"
    "\<And>w. page_flags s' w = (if same_page s v w \<and> canonical s w then Some (private_flags_of fl) else page_flags s w)"
    "\<And>x. x < 4096 \<Longrightarrow> mem s' (f + x) = mem s (p + x)"
    "\<And>x. x \<notin> bitmap_area s \<Longrightarrow> page_base x \<notin> page_tables s \<union> avail s \<Longrightarrow> mem s' x = mem s x"
    "get_refcount p s' = get_refcount p s - 1" "get_refcount f s' = 1"
proof -
  note P = page_frame [OF rd nh p] and M = flags_mapping [OF rd fl(1)]
  have pa: "pa_is_aligned p" using P(1) v by blast
  obtain r s1 f where al: "alloc_frame s = (r, s1)" "unwrap_or 0 r = f" by fastforce
  have "f \<noteq> 0"
    using pmm_alloc_frame_takes(2) [OF tree_invD(1) [OF paging_readyD(1) [OF rd]] alloc_frame_c [OF al(1)]] av low al(2)
    by (auto simp: low_memory_def)
  obtain s2 where s2: "copy_page p f s1 = (Ok (), s2)" "same_space s s2" "translation s2 = translation s" "page_flags s2 = page_flags s"
    "huge_mapped s2 = huge_mapped s" "page_tables s2 = page_tables s" "avail s2 = avail s - {f}" "f \<in> avail s"
    and cp: "\<And>x. x < 4096 \<Longrightarrow> mem s2 (f + x) = mem s (p + x)"
    using copy_frame [OF rd al \<open>f \<noteq> 0\<close> pa used(2)] by blast
  note S2 = same_spaceD [OF s2(2)] and F = frame_outside [OF rd s2(8)] and L = low_frames [OF low s2(8)]
  have h: "\<not> huge_mapped s2 v" "pa_is_aligned f" "translation s2 v \<noteq> None" "f < 2 ^ 52"
    using nh s2(3,5) F(1) p L by (simp_all add: aligned_page_base)
  obtain s3 where s3: "remap_page v f (private_flags_of fl) s2 = (Ok (), s3)" "same_space s2 s3" "avail s3 = avail s2"
    "\<And>w. translation s3 w = (if same_page s2 v w \<and> canonical s2 w then Some (f OR va_page_offset w) else translation s2 w)"
    "\<And>w. page_flags s3 w = (if same_page s2 v w \<and> canonical s2 w then Some (private_flags_of fl AND 0xFFF) else page_flags s2 w)"
    by (rule remap_page_step [OF S2(1) h(1,2,4) M(2) h(3)]) blast
  have sp: "same_space s s3" by (rule same_space_trans [OF s2(2) s3(2)])
  define s' where "s' = set_refcount f 1 (snd (dec_refcount p s3))"
  have rc: "get_refcount q s3 = get_refcount q s" for q by (rule refcount_more [OF same_spaceD(5) [OF sp]])
  have tp: "tracked p" using c by (intro refcount_tracked [of p s]) auto
  have tf: "tracked f" using L by (intro tracked_low) simp
  have "fst (dec_refcount p s3) \<noteq> 0" using refcount_values(4) [OF tp, of s3] c rc by (auto simp: word_le_nat_alt)
  then have res: "handle_cow_fault v s = (Ok (), s')"
    using handle_cow_fault_unfold [OF fl p] c al \<open>f \<noteq> 0\<close> s2(1) s3(1) by (simp add: s'_def case_prod_beta)
  have A: "paging_ready s' = paging_ready s3" "translation s' = translation s3" "page_flags s' = page_flags s3"
    "avail s' = avail s3" "mem s' = mem s3" by (simp_all add: s'_def set_space dec_space)
  have "mem s' (f + x) = mem s (p + x)" if "x < 4096" for x
  proof -
    have "page_base (f + x) = f" using page_base_add(1) [OF F(1), of x] that by (simp add: word_less_nat_alt)
    then have "f + x \<notin> bitmap_area s2" "page_base (f + x) \<notin> page_tables s2 \<union> avail s2"
      using F(2) F(3) [of "f + x"] s2(6,7) S2(6) by auto
    then have "mem s3 (f + x) = mem s2 (f + x)" by (rule same_spaceD(10) [OF s3(2)])
    then show ?thesis using cp [OF that] A by simp
  qed
  moreover have "phys_to_frame_index p \<noteq> phys_to_frame_index f"
    using frame_index_inj [of p f] pa F(1) used(1) s2(8) by (auto simp: aligned_page_base)
  then have "get_refcount p s' = get_refcount p s - 1" "get_refcount f s' = 1"
    by (simp_all add: s'_def refcount_values(2,3) tp tf rc)
  ultimately show thesis
    using res A same_spaceD(1,10) [OF sp] s2 s3 S2(2,3) M(4) by (intro that [of s' f]) auto
qed


text \<open>
  a write fault at an address inside a copy-on-write page, as the processor reports it, is never
  resolved: the handler passes the translated address, page offset included, to \<^verbatim>\<open>copy_page\<close> or
  \<^verbatim>\<open>remap_page\<close>, which refuse it. The page stays read-only. With more than one reference a frame taken
  for the copy is lost each time; otherwise a reference is dropped each time, wrapping around at 0.
\<close>

theorem cow_fault_inside_page:
  assumes rd: "paging_ready s" and nh: "\<not> huge_mapped s v" and v: "v AND 0xFFF \<noteq> 0" and low: "low_memory s"
    and fl: "page_flags s v = Some fl" "is_cow_page fl" and p: "translation s v = Some p"
  shows "\<exists>e s'. handle_cow_fault v s = (Err e, s') \<and> translation s' = translation s \<and> page_flags s' = page_flags s
     \<and> (if get_refcount p s \<le> 1 then avail s' = avail s \<and> (tracked p \<longrightarrow> get_refcount p s' = get_refcount p s - 1)
        else avail s \<noteq> {} \<longrightarrow> (\<exists>f\<in>avail s. avail s' = avail s - {f}))"
proof -
  have pa: "\<not> pa_is_aligned p" using page_frame(1) [OF rd nh p] v by blast
  note U = handle_cow_fault_unfold [OF fl p]
  show ?thesis
  proof (cases "get_refcount p s \<le> 1")
    case True
    let ?s = "snd (dec_refcount p s)"
    have "paging_ready ?s" "\<not> huge_mapped ?s v" using rd nh by (simp_all add: dec_space)
    then obtain e where "remap_page v p (private_flags_of fl) ?s = (Err e, ?s)" using remap_page_refused pa by blast
    then show ?thesis using True U by (auto simp: dec_space refcount_values)
  next
    case False
    obtain r s1 where al: "alloc_frame s = (r, s1)" by fastforce
    note T = pmm_alloc_frame_takes [OF tree_invD(1) [OF paging_readyD(1) [OF rd]] alloc_frame_c [OF al]]
    note O = takes_outside [OF rd T(1)] and S = same_rest_as [OF takesD(2) [OF T(1)]]
    have fl1: "page_flags s1 = page_flags s"
      using page_flags_lookup [of s] page_flags_lookup [of s1] paging_readyD(2) [OF rd] O(2) S by (intro ext) simp
    have "\<exists>e. handle_cow_fault v s = (Err e, s1)" using False U al pa by (simp add: copy_page_def)
    moreover have "\<exists>f\<in>avail s. avail s1 = avail s - {f}" if "avail s \<noteq> {}"
      using T(2) takesD(5,6) [OF T(1)] low that by (metis low_frames)
    ultimately show ?thesis using False O(4) fl1 by auto
  qed
qed

section \<open>Sharing a page\<close>

lemma share_effect:
  assumes rd: "paging_ready s" and nh: "\<not> huge_mapped s src" "\<not> huge_mapped s dst" and v: "src AND 0xFFF = 0"
    and fl: "page_flags s src = Some fl" and p: "translation s src = Some p" and sh: "share_page_cow src dst s = (r, s')"
  obtains s2 where "same_space s s2" "s' = (if r = Ok () then snd (inc_refcount p s2) else s2)"
    "\<And>w. translation s2 w = (if r = Ok () \<and> same_page s dst w \<and> canonical s w then Some (p OR va_page_offset w) else translation s w)"
    "\<And>w. page_flags s2 w = (if (same_page s src w \<or> r = Ok () \<and> same_page s dst w) \<and> canonical s w
                                then Some (cow_flags_of fl) else page_flags s w)" "r = Ok () \<Longrightarrow> canonical s dst"
proof -
  note P = page_frame [OF rd nh(1) p] and M = flags_mapping [OF rd fl]
  have pa: "pa_is_aligned p" using P(1) v by blast
  have mp: "translation s src \<noteq> None" using p by simp
  obtain s1 where s1: "remap_page src p (cow_flags_of fl) s = (Ok (), s1)" "same_space s s1"
    "\<And>w. translation s1 w = (if same_page s src w \<and> canonical s w then Some (p OR va_page_offset w) else translation s w)"
    "\<And>w. page_flags s1 w = (if same_page s src w \<and> canonical s w then Some (cow_flags_of fl AND 0xFFF) else page_flags s w)"
    by (rule remap_page_step [OF rd nh(1) pa P(2) M(1) mp]) blast
  note S1 = same_spaceD [OF s1(2)]
  have t1: "translation s1 = translation s" using s1(3) page_translation [OF rd nh(1) v p] by auto
  obtain q s2 where m: "map_page dst p (cow_flags_of fl) s1 = (q, s2)" by fastforce
  note T = map_page_step [OF S1(1) S1(4) [OF nh(2)] P(2) M(1) m]
  have "r = q" "s' = (if r = Ok () then snd (inc_refcount p s2) else s2)"
    using sh fl p s1(1) m
    by (auto simp: share_page_cow_def page_flags_Some translation_Some cow_flags_of_def Let_def split: sum.splits)
  then show thesis using same_space_trans [OF s1(2) T(1)] T(2-4) t1 s1(4) S1(2,3) M(3) by (intro that [of s2]) auto
qed

text \<open>
  sharing a page: on success every address of the destination page translates into the frame of
  the source page, both pages are read-only and marked copy-on-write, and the frame has one more
  reference; all other translations, flags and counts stay. When the destination cannot be mapped,
  only the flags of the source page have changed.
\<close>

theorem share_page_cow_correct:
  assumes rd: "paging_ready s" and nh: "\<not> huge_mapped s src" "\<not> huge_mapped s dst" and v: "src AND 0xFFF = 0"
    and fl: "page_flags s src = Some fl" and p: "translation s src = Some p" and sh: "share_page_cow src dst s = (r, s')"
  shows "paging_ready s'
     \<and> (\<forall>w. translation s' w = (if r = Ok () \<and> same_page s dst w \<and> canonical s w then Some (p OR va_page_offset w) else translation s w))
     \<and> (\<forall>w. page_flags s' w = (if (same_page s src w \<or> r = Ok () \<and> same_page s dst w) \<and> canonical s w
                                then Some (cow_flags_of fl) else page_flags s w))
     \<and> (\<forall>q. get_refcount q s' = (if r = Ok () \<and> tracked p \<and> phys_to_frame_index q = phys_to_frame_index p
                                   then get_refcount q s + 1 else get_refcount q s))"
proof -
  obtain s2 where s2: "same_space s s2" "s' = (if r = Ok () then snd (inc_refcount p s2) else s2)"
    "\<And>w. translation s2 w = (if r = Ok () \<and> same_page s dst w \<and> canonical s w then Some (p OR va_page_offset w) else translation s w)"
    "\<And>w. page_flags s2 w = (if (same_page s src w \<or> r = Ok () \<and> same_page s dst w) \<and> canonical s w
                                then Some (cow_flags_of fl) else page_flags s w)"
    using share_effect [OF rd nh v fl p sh] by blast
  have A: "paging_ready s' = paging_ready s2" "translation s' = translation s2" "page_flags s' = page_flags s2"
    by (simp_all add: s2(2) inc_space)
  have "get_refcount x s2 = get_refcount x s" for x by (rule refcount_more [OF same_spaceD(5) [OF s2(1)]])
  then have "get_refcount x s' = (if r = Ok () \<and> tracked p \<and> phys_to_frame_index x = phys_to_frame_index p
      then get_refcount x s + 1 else get_refcount x s)" for x
    by (simp add: s2(2) refcount_values)
  then show ?thesis using A same_spaceD(1) [OF s2(1)] s2(3,4) by simp
qed

lemma more_references: "x \<noteq> 0 \<Longrightarrow> x \<noteq> 0xFFFFFFFF \<Longrightarrow> \<not> x + 1 \<le> (1 :: u32)"
proof -
  assume x: "x \<noteq> 0" "x \<noteq> 0xFFFFFFFF"
  have "unat x \<noteq> unat (0 :: u32)" "unat x \<noteq> unat (0xFFFFFFFF :: u32)" using x by (simp_all only: word_unat_eq_iff simp_thms)
  moreover have "unat x < 2 ^ 32" using unsigned_less [of x] by simp
  ultimately have "unat (x + 1) = unat x + 1" "0 < unat x" by (simp_all add: unat_word_ariths)
  then show "\<not> x + 1 \<le> 1" unfolding word_le_nat_alt by simp
qed

lemma private_of_cow: "private_flags_of (cow_flags_of f) = private_flags_of f" "is_cow_page (cow_flags_of f)"
  by (rule bit_eqI) (simp_all add: flags_bits is_cow_page_bit)

text \<open>
  the first write after sharing. When the frame had a reference before, the destination gets a
  copy: the two pages translate into different frames, with equal contents, and the source stays
  read-only. When the count was 0, as \<^verbatim>\<open>cow_init\<close> leaves it, the write makes the shared frame writable in
  place, and later writes through the destination change the source.
\<close>

theorem write_after_share:
  assumes rd: "paging_ready s" and nh: "\<not> huge_mapped s src" "\<not> huge_mapped s dst" and v: "src AND 0xFFF = 0" "dst AND 0xFFF = 0"
    and fl: "page_flags s src = Some fl" and p: "translation s src = Some p" and ne: "\<not> same_page s src dst"
    and low: "low_memory s" and used: "p \<notin> avail s" "\<forall>x. page_base x = p \<longrightarrow> x \<notin> bitmap_area s" "p \<notin> page_tables s" and tp: "tracked p"
    and sh: "share_page_cow src dst s = (Ok (), s1)" and av: "avail s1 \<noteq> {}" and mx: "get_refcount p s \<noteq> 0xFFFFFFFF"
  shows "\<exists>s2. handle_cow_fault dst s1 = (Ok (), s2) \<and> translation s2 src = Some p
     \<and> page_flags s2 src = Some (cow_flags_of fl) \<and> page_flags s2 dst = Some (private_flags_of fl)
     \<and> (if get_refcount p s = 0 then translation s2 dst = Some p
        else \<exists>f. f \<noteq> p \<and> translation s2 dst = Some f \<and> (\<forall>x<4096. mem s2 (f + x) = mem s (p + x)))"
proof -
  obtain s0 where s0: "same_space s s0" "s1 = snd (inc_refcount p s0)"
    "\<And>w. translation s0 w = (if same_page s dst w \<and> canonical s w then Some (p OR va_page_offset w) else translation s w)"
    "\<And>w. page_flags s0 w = (if (same_page s src w \<or> same_page s dst w) \<and> canonical s w then Some (cow_flags_of fl) else page_flags s w)"
    and cd: "canonical s dst"
    by (rule share_effect [OF rd nh v(1) fl p sh]) simp
  note S = same_spaceD [OF s0(1)] and cs = page_frame(3) [OF rd nh(1) p]
  have A: "paging_ready s1" "translation s1 = translation s0" "page_flags s1 = page_flags s0" "mem s1 = mem s0" "\<not> huge_mapped s1 dst"
    "avail s1 = avail s0" "same_page s1 = same_page s" "canonical s1 = canonical s" "bitmap_area s1 = bitmap_area s"
    using S(1-3) S(4) [OF nh(2)] S(6) by (simp_all add: s0(2) inc_space bitmap_area_def)
  have sp: "same_page s dst dst" "\<not> same_page s dst src" using ne by (auto simp: same_page_def)
  have d1: "page_flags s1 dst = Some (cow_flags_of fl)" "translation s1 dst = Some p"
    using A(2,3) s0(3,4) [of dst] sp(1) cd v(2) by (simp_all add: va_page_offset_def)
  have d2: "page_flags s1 src = Some (cow_flags_of fl)" "translation s1 src = Some p"
    using A(2,3) s0(3,4) [of src] sp(2) cs p by (simp_all add: same_page_def)
  have rc: "get_refcount p s1 = get_refcount p s + 1"
    using refcount_more [OF S(5), of p] tp by (simp add: s0(2) refcount_values)
  have low1: "low_memory s1" using low S(8) A(6) by (auto simp: low_memory_def)
  show ?thesis
  proof (cases "get_refcount p s = 0")
    case True
    then have "get_refcount p s1 \<le> 1" using rc by simp
    then obtain s2 where "handle_cow_fault dst s1 = (Ok (), s2)" "translation s2 = translation s1"
      "\<And>w. page_flags s2 w = (if same_page s1 dst w \<and> canonical s1 w then Some (private_flags_of (cow_flags_of fl)) else page_flags s1 w)"
      by (rule cow_fault_in_place [OF A(1,5) v(2) d1(1) private_of_cow(2) d1(2)]) blast
    then show ?thesis using True d1 d2 sp cd A(7,8) by (simp add: private_of_cow)
  next
    case False
    then have c: "\<not> get_refcount p s1 \<le> 1" unfolding rc using mx by (rule more_references)
    have "p \<notin> avail s1" "\<forall>x. page_base x = p \<longrightarrow> x \<notin> bitmap_area s1" using used(1,2) S(8) unfolding A(6,9) by blast+
    note C = cow_fault_copy [OF A(1,5) v(2) low1 d1(1) private_of_cow(2) d1(2) this c av]
    obtain s2 f where h: "handle_cow_fault dst s1 = (Ok (), s2)" "f \<in> avail s1"
      "\<And>w. translation s2 w = (if same_page s1 dst w \<and> canonical s1 w then Some (f OR va_page_offset w) else translation s1 w)"
      "\<And>w. page_flags s2 w = (if same_page s1 dst w \<and> canonical s1 w then Some (private_flags_of (cow_flags_of fl)) else page_flags s1 w)"
      "\<And>x. x < 4096 \<Longrightarrow> mem s2 (f + x) = mem s1 (p + x)" by (rule C) blast
    have "mem s1 (p + x) = mem s (p + x)" if "x < 4096" for x
    proof -
      have "page_base (p + x) = p"
        using page_base_add(1) [of p x] that page_frame(1) [OF rd nh(1) p] v(1) by (simp add: word_less_nat_alt aligned_page_base)
      moreover have "p + x \<notin> bitmap_area s" using used(2) calculation by blast
      ultimately show ?thesis using S(10) [of "p + x"] used(1,3) A(4) by simp
    qed
    moreover have "f \<noteq> p" using h(2) A(6) S(8) used(1) by blast
    moreover have "translation s2 dst = Some f" "translation s2 src = Some p" "page_flags s2 src = Some (cow_flags_of fl)"
      "page_flags s2 dst = Some (private_flags_of fl)"
      using h(3,4) d2 sp cd A(7,8) v(2) by (simp_all add: private_of_cow va_page_offset_def)
    ultimately show ?thesis using False h(1,5) by auto
  qed
qed

text \<open>A page mapped to the used frame \<open>0x7000\<close> of the demonstration machine, whose count is \<open>n\<close>.\<close>

definition demo_cow :: "u32 \<Rightarrow> cow_machine" where
  "demo_cow n = guard_machine.extend demo_guard (cow_machine.fields (\<lambda>_. n))"

lemma demo_cow_fields [simp]:
  "mem (demo_cow n) = mem demo_guard" "PMM_INSTANCE (demo_cow n) = PMM_INSTANCE demo_guard"
  "PAGING_MANAGER (demo_cow n) = PAGING_MANAGER demo_guard" "REFCOUNT_TABLE (demo_cow n) = (\<lambda>_. n)"
  by (simp_all add: demo_cow_def guard_machine.defs cow_machine.defs)

lemmas demo_cow_as = address_space_cong [OF demo_cow_fields(1-3)]

lemma demo_cow_mapped:
  assumes fl: "mapping_flags fl" "fl AND 0xFFF = fl"
  obtains s :: cow_machine where "paging_ready s" "low_memory s" "translation s 0x400000 = Some 0x7000" "page_flags s 0x400000 = Some fl"
    "\<And>w. \<not> huge_mapped s w" "0x7000 \<notin> avail s" "0x7000 \<notin> page_tables s" "\<forall>x. page_base x = 0x7000 \<longrightarrow> x \<notin> bitmap_area s"
    "5 \<le> card (avail s)" "get_refcount 0x7000 s = n" "as_mode s = FourLevel" "0x7000 \<in> managed s"
proof -
  let ?s = "demo_cow n"
  note A = demo_cow_as [of n, unfolded demo_guard_as]
  have rd: "paging_ready ?s" "low_memory ?s" "\<And>v. \<not> huge_mapped ?s v" "canonical ?s 0x400000"
    by (simp_all add: A demo_paging_ready demo_low demo_not_huge demo_canonical va_is_canonical_la48_def)
  have md: "mode_levels (as_mode ?s) = [PML4, PDPT, PD, PT]" "card (avail ?s) = 8" by (simp_all add: A demo_as demo_low)
  obtain r s where m: "map_page 0x400000 0x7000 fl ?s = (r, s)" by fastforce
  have pa: "pa_is_aligned 0x7000" by (simp add: pa_is_aligned_def)
  obtain s1 where s1: "grows (mode_levels (as_mode ?s)) (as_root ?s) ?s s1" "s = (if r = Ok () then invlpg 0x400000 s1 else s1)"
    and ok: "pa_is_aligned 0x7000 \<Longrightarrow> canonical ?s 0x400000 \<Longrightarrow> low_memory ?s \<Longrightarrow> length (mode_levels (as_mode ?s)) \<le> Suc (card (avail ?s)) \<Longrightarrow> r = Ok ()"
    and cd: "low_memory ?s \<Longrightarrow> Suc (card (avail ?s)) \<le> length (mode_levels (as_mode ?s)) + card (avail s1)"
    by (rule map_page_effect [OF rd(1,3) m]) blast
  have r: "r = Ok ()" using ok pa rd(2,4) md by simp
  have ne: "5 \<le> card (avail s)" using cd rd(2) md s1(2) by auto
  note T = map_page_step [OF rd(1,3) _ fl(1) m] and S = same_spaceD [OF map_page_step(1) [OF rd(1,3) _ fl(1) m]]
  have nb: "x \<notin> bitmap_area s" if "page_base x = 0x7000" for x
  proof -
    have "bitmap_area s \<subseteq> {0x1000, 0x1001}" using S(6) demo_bitmap_area by (simp add: bitmap_area_def)
    then show ?thesis using that by (auto simp: page_base_def)
  qed
  have pt: "page_tables ?s = {0x2000}" unfolding A(4) by (rule demo_page_tables)
  have "as_mode s = as_mode ?s" using same_rest_as(4) [OF growsD(2) [OF s1(1)]] s1(2) by simp
  then have "as_mode s = FourLevel" by (simp add: A demo_as)
  moreover have "get_refcount 0x7000 s = n"
    using refcount_more [OF S(5), of "0x7000"] by (simp add: get_refcount_def phys_to_frame_index_def MAX_FRAMES_def PAGE_SIZE_def)
  moreover have "low_memory s" "0x7000 \<notin> avail s" "0x7000 \<notin> page_tables s"
    using rd(2) S(8,9) pt by (auto simp: low_memory_def A demo_avail)
  moreover have "translation s 0x400000 = Some 0x7000" "page_flags s 0x400000 = Some fl"
    using T(3,4) [of "0x400000"] r rd(4) fl(2) by (simp_all add: same_page_def va_page_offset_def)
  moreover have "managed ?s = managed demo_paging" by (simp add: managed_def)
  then have "0x7000 \<in> managed s" using S(7) demo_managed [of "0x7000"] by simp
  ultimately show thesis using S(1) S(4) [OF _ rd(3)] nb ne by (intro that [of s]) auto
qed


lemma demo_flags: "mapping_flags 3" "(3 :: u64) AND 0xFFF = 3" "mapping_flags 0x201" "(0x201 :: u64) AND 0xFFF = 0x201"
  "is_cow_page 0x201" "private_flags_of 0x201 = 3" "cow_flags_of 3 = 0x201"
  by (simp_all add: mapping_flags_def ADDRESS_MASK_def ptf_contains_def PRESENT_def is_cow_page_def COW_BIT_def
      private_flags_of_def cow_flags_of_def ptf_set_def ptf_clear_def WRITABLE_def)


theorem cow_fault_inside_page_witness:
  "\<exists>(s :: cow_machine) e s' f. get_refcount 0x7010 s = 2 \<and> handle_cow_fault 0x400010 s = (Err e, s') \<and> page_flags s' 0x400010 = Some 0x201
     \<and> f \<in> avail s \<and> avail s' = avail s - {f}"
proof -
  obtain s :: cow_machine where s: "paging_ready s" "low_memory s" "translation s 0x400000 = Some 0x7000" "page_flags s 0x400000 = Some 0x201"
    "\<And>w. \<not> huge_mapped s w" "5 \<le> card (avail s)" "get_refcount 0x7000 s = 2" "as_mode s = FourLevel"
    by (rule demo_cow_mapped [OF demo_flags(3,4)]) blast
  have v: "(0x400000 :: u64) AND 0xFFF = 0" "(0x400010 :: u64) AND 0xFFF \<noteq> 0" "same_page s 0x400000 0x400010" "canonical s 0x400010"
    "canonical s 0x400000"
    by (simp_all add: same_page_def s(8) canonical_def va_is_canonical_la48_def)
  have t: "translation s 0x400010 = Some 0x7010"
    using page_translation [OF s(1,5) v(1) s(3) v(3,4)] by (simp add: va_page_offset_def)
  have f: "page_flags s 0x400010 = Some 0x201"
    using page_flags_lookup [of s "0x400010"] page_flags_lookup [of s "0x400000"] paging_readyD(2) [OF s(1)] v(4,5)
      as_lookup_same_page [OF v(3)] s(4) by simp
  have c: "get_refcount 0x7010 s = 2" using s(7) by (simp add: get_refcount_def phys_to_frame_index_def PAGE_SIZE_def)
  have c2: "\<not> get_refcount 0x7010 s \<le> 1" "avail s \<noteq> {}" using c s(6) by (auto simp: word_le_nat_alt)
  obtain e s' where "handle_cow_fault 0x400010 s = (Err e, s')" "page_flags s' 0x400010 = Some 0x201" "\<exists>f\<in>avail s. avail s' = avail s - {f}"
    using cow_fault_inside_page [OF s(1,5) v(2) s(2) f demo_flags(5) t, unfolded if_not_P [OF c2(1)]] c2(2) f by metis
  then show ?thesis using c by blast
qed

theorem share_page_cow_correct_witness:
  "\<exists>(s :: cow_machine) r s'. share_page_cow 0x400000 0x401000 s = (r, s') \<and> page_flags s 0x400000 = Some 3 \<and> page_flags s' 0x400000 = Some 0x201"
proof -
  obtain s :: cow_machine where s: "paging_ready s" "translation s 0x400000 = Some 0x7000" "page_flags s 0x400000 = Some 3"
    "\<And>w. \<not> huge_mapped s w" "get_refcount 0x7000 s = 0"
    by (rule demo_cow_mapped [OF demo_flags(1,2)]) blast
  have v: "(0x400000 :: u64) AND 0xFFF = 0" "canonical s 0x400000" using page_frame(3) [OF s(1,4,2)] by simp_all
  obtain r s' where h: "share_page_cow 0x400000 0x401000 s = (r, s')" by fastforce
  have "page_flags s' 0x400000 = Some 0x201"
    using share_page_cow_correct [OF s(1,4,4) v(1) s(3,2) h] v(2) demo_flags(7) by (simp add: same_page_def)
  then show ?thesis using h s(3) by blast
qed

text \<open>Sharing succeeds when the frames for the tables of the destination are left.\<close>

lemma share_succeeds:
  assumes rd: "paging_ready s" and nh: "\<not> huge_mapped s src" "\<not> huge_mapped s dst" and v: "src AND 0xFFF = 0"
    and fl: "page_flags s src = Some fl" and p: "translation s src = Some p"
    and low: "low_memory s" and cd: "canonical s dst" and enough: "5 \<le> card (avail s)"
  shows "fst (share_page_cow src dst s) = Ok ()" "avail (snd (share_page_cow src dst s)) \<noteq> {}"
proof -
  note P = page_frame [OF rd nh(1) p] and M = flags_mapping [OF rd fl]
  have pa: "pa_is_aligned p" using P(1) v by blast
  have mp: "translation s src \<noteq> None" using p by simp
  obtain s1 where s1: "remap_page src p (cow_flags_of fl) s = (Ok (), s1)" "same_space s s1" "avail s1 = avail s"
    by (rule remap_page_step [OF rd nh(1) pa P(2) M(1) mp]) blast
  note S1 = same_spaceD [OF s1(2)]
  obtain r s2 where m: "map_page dst p (cow_flags_of fl) s1 = (r, s2)" by fastforce
  have l: "length (mode_levels (as_mode s1)) \<le> 5" by (rule length_mode_levels)
  have low1: "low_memory s1" using low s1(3) by (simp add: low_memory_def)
  have h: "canonical s1 dst" "length (mode_levels (as_mode s1)) \<le> Suc (card (avail s1))" using cd S1(3) enough l s1(3) by simp_all
  obtain s3 where s3: "s2 = (if r = Ok () then invlpg dst s3 else s3)"
    and ok: "pa_is_aligned p \<Longrightarrow> canonical s1 dst \<Longrightarrow> low_memory s1 \<Longrightarrow> length (mode_levels (as_mode s1)) \<le> Suc (card (avail s1)) \<Longrightarrow> r = Ok ()"
    and c: "low_memory s1 \<Longrightarrow> Suc (card (avail s1)) \<le> length (mode_levels (as_mode s1)) + card (avail s3)"
    by (rule map_page_effect [OF S1(1) S1(4) [OF nh(2)] m]) blast
  have r: "r = Ok ()" by (rule ok [OF pa h(1) low1 h(2)])
  then have sh: "share_page_cow src dst s = (Ok (), snd (inc_refcount p s2))"
    using fl p s1(1) m by (simp add: share_page_cow_def page_flags_Some translation_Some cow_flags_of_def)
  have "avail s2 \<noteq> {}" using c [OF low1] l enough s1(3) s3 by auto
  then show "fst (share_page_cow src dst s) = Ok ()" "avail (snd (share_page_cow src dst s)) \<noteq> {}"
    by (simp_all add: sh inc_space)
qed

theorem write_after_share_witness:
  "\<exists>(s :: cow_machine) s1 s2 f. share_page_cow 0x400000 0x401000 s = (Ok (), s1) \<and> handle_cow_fault 0x401000 s1 = (Ok (), s2)
     \<and> translation s2 0x400000 = Some 0x7000 \<and> translation s2 0x401000 = Some f \<and> f \<noteq> 0x7000"
proof -
  obtain s :: cow_machine where s: "paging_ready s" "low_memory s" "translation s 0x400000 = Some 0x7000" "page_flags s 0x400000 = Some 3"
    "\<And>w. \<not> huge_mapped s w" "0x7000 \<notin> avail s" "0x7000 \<notin> page_tables s" "\<forall>x. page_base x = 0x7000 \<longrightarrow> x \<notin> bitmap_area s"
    "5 \<le> card (avail s)" "get_refcount 0x7000 s = 1" "as_mode s = FourLevel"
    by (rule demo_cow_mapped [OF demo_flags(1,2)]) blast
  have v: "(0x400000 :: u64) AND 0xFFF = 0" "(0x401000 :: u64) AND 0xFFF = 0" "\<not> same_page s 0x400000 0x401000" "canonical s 0x401000"
    by (simp_all add: same_page_def s(11) canonical_def va_is_canonical_la48_def)
  have t: "tracked 0x7000" by (rule tracked_low) simp
  have mx: "get_refcount 0x7000 s \<noteq> 0xFFFFFFFF" using s(10) by simp
  obtain s1 where s1: "share_page_cow 0x400000 0x401000 s = (Ok (), s1)" "avail s1 \<noteq> {}"
    using share_succeeds [OF s(1,5,5) v(1) s(4,3,2) v(4) s(9)] by (metis prod.collapse)
  have c: "get_refcount 0x7000 s \<noteq> 0" using s(10) by simp
  show ?thesis using write_after_share [OF s(1,5,5) v(1,2) s(4,3) v(3) s(2,6,8,7) t s1 mx, unfolded if_not_P [OF c]] s1(1) by blast
qed

section \<open>Unsharing\<close>

text \<open>
  \<^verbatim>\<open>unshare_cow_page\<close> and the write fault do the same: they leave the same state, and unsharing
  succeeds exactly when the fault is handled or the page is mapped and not copy-on-write.
\<close>

theorem unshare_handles_like_fault:
  "snd (unshare_cow_page v s) = snd (handle_cow_fault v s)
   \<and> (fst (unshare_cow_page v s) = Ok () \<longleftrightarrow>
        fst (handle_cow_fault v s) = Ok () \<or> (\<exists>fl. page_flags s v = Some fl \<and> \<not> is_cow_page fl))"
  by (auto simp: unshare_cow_page_def handle_cow_fault_def page_flags_def Let_def split: sum.split prod.split)

end
