(* ===== verification/Demand_Paging.thy ===== *)
theory Demand_Paging
  imports Cow
begin

text \<open>
  Demand paging, \<^verbatim>\<open>memory/demand_paging.rs\<close>: the registry of regions, \<^verbatim>\<open>mmap\<close>, \<^verbatim>\<open>munmap\<close> and the fault on a page not
  yet populated; the contract of the files behind a mapping; the registry as a map from addresses.
\<close>

unbundle bit_operations_syntax

section \<open>State and operations\<close>

definition MAX_REGIONS :: usize where "MAX_REGIONS = 64"

text \<open>
  The read callback of a file belongs to the file system: given context, file offset, destination and
  length it may change memory and returns the number of bytes read.
\<close>

type_synonym MmapReadAtFn = "u64 \<Rightarrow> u64 \<Rightarrow> u64 \<Rightarrow> usize \<Rightarrow> memory \<Rightarrow> usize \<times> memory"

record FileBacking =
  fb_ctx :: u64
  fb_read_at :: MmapReadAtFn
  fb_file_offset :: u64
  fb_file_size :: u64

datatype BackingKind = ZeroFill | FileBacked FileBacking

record VmRegion =
  vm_start :: u64
  vm_end :: u64
  vm_flags :: PageTableFlags
  vm_backing :: BackingKind

record demand_machine = cow_machine +
  REGIONS :: "VmRegion option list"

definition dp_align_down :: "u64 \<Rightarrow> u64" where
  "dp_align_down addr = addr AND NOT (PAGE_SIZE - 1)"

definition dp_align_up :: "u64 \<Rightarrow> u64" where
  "dp_align_up addr = (addr + PAGE_SIZE - 1) AND NOT (PAGE_SIZE - 1)"

definition ranges_overlap :: "u64 \<Rightarrow> u64 \<Rightarrow> u64 \<Rightarrow> u64 \<Rightarrow> bool" where
  "ranges_overlap a_start a_end b_start b_end \<longleftrightarrow> a_start < b_end \<and> b_start < a_end"

text \<open>The null pointer is 0.\<close>

definition dp_phys_to_virt :: "u64 \<Rightarrow> u64" where
  "dp_phys_to_virt phys_addr = (if phys_addr \<ge> 0x8000000 then 0 else phys_addr)"

text \<open>The scan for the first free slot; \<open>None\<close> when there is none.\<close>

fun store_region :: "VmRegion \<Rightarrow> VmRegion option list \<Rightarrow> VmRegion option list option" where
  "store_region r [] = None"
| "store_region r (None # slots) = Some (Some r # slots)"
| "store_region r (Some q # slots) = map_option ((#) (Some q)) (store_region r slots)"

definition register_region ::
  "VirtAddr \<Rightarrow> usize \<Rightarrow> PageTableFlags \<Rightarrow> BackingKind \<Rightarrow> 'a demand_machine_scheme \<Rightarrow> (string, unit) result \<times> 'a demand_machine_scheme" where
  "register_region start bytes flags backing s =
     (let start_addr = dp_align_down start
      in case checked_add start bytes of
        None \<Rightarrow> (Err ''Size overflow'', s)
      | Some lim \<Rightarrow>
          let end_addr = dp_align_up lim
          in if end_addr \<le> start_addr then (Err ''Invalid region size'', s)
             else case store_region \<lparr>vm_start = start_addr, vm_end = end_addr, vm_flags = flags, vm_backing = backing\<rparr> (REGIONS s) of
               Some regions \<Rightarrow> (Ok (), s\<lparr>REGIONS := regions\<rparr>)
             | None \<Rightarrow> (Err ''No free region slots'', s))"

definition register_file_region ::
  "VirtAddr \<Rightarrow> usize \<Rightarrow> PageTableFlags \<Rightarrow> FileBacking \<Rightarrow> 'a demand_machine_scheme \<Rightarrow> (string, unit) result \<times> 'a demand_machine_scheme" where
  "register_file_region start bytes flags file_backing s =
     (if fb_file_offset file_backing mod PAGE_SIZE \<noteq> 0 then (Err ''File offset must be page-aligned'', s)
      else register_region start bytes flags (FileBacked file_backing) s)"

fun overlaps_slot :: "u64 \<Rightarrow> u64 \<Rightarrow> VmRegion option \<Rightarrow> bool" where
  "overlaps_slot a b (Some region) \<longleftrightarrow> ranges_overlap a b (vm_start region) (vm_end region)"
| "overlaps_slot a b None \<longleftrightarrow> False"

fun unaligned_file :: "BackingKind \<Rightarrow> bool" where
  "unaligned_file (FileBacked file) \<longleftrightarrow> fb_file_offset file mod PAGE_SIZE \<noteq> 0"
| "unaligned_file ZeroFill \<longleftrightarrow> False"

definition mmap ::
  "VirtAddr \<Rightarrow> usize \<Rightarrow> PageTableFlags \<Rightarrow> BackingKind \<Rightarrow> 'a demand_machine_scheme \<Rightarrow> (string, VirtAddr) result \<times> 'a demand_machine_scheme" where
  "mmap start bytes flags backing s =
     (if bytes = 0 then (Err ''Invalid region size'', s)
      else if unaligned_file backing then (Err ''File offset must be page-aligned'', s)
      else let start_addr = dp_align_down start
        in case checked_add start bytes of
          None \<Rightarrow> (Err ''Size overflow'', s)
        | Some lim \<Rightarrow>
            let end_addr = dp_align_up lim
            in if end_addr \<le> start_addr then (Err ''Invalid region size'', s)
               else if list_ex (overlaps_slot start_addr end_addr) (REGIONS s) then (Err ''Region overlaps existing mapping'', s)
               else case store_region \<lparr>vm_start = start_addr, vm_end = end_addr, vm_flags = flags, vm_backing = backing\<rparr> (REGIONS s) of
                 Some regions \<Rightarrow> (Ok start_addr, s\<lparr>REGIONS := regions\<rparr>)
               | None \<Rightarrow> (Err ''No free region slots'', s))"

definition mmap_file ::
  "VirtAddr \<Rightarrow> usize \<Rightarrow> PageTableFlags \<Rightarrow> FileBacking \<Rightarrow> 'a demand_machine_scheme \<Rightarrow> (string, VirtAddr) result \<times> 'a demand_machine_scheme" where
  "mmap_file start bytes flags file_backing s =
     (if fb_file_offset file_backing mod PAGE_SIZE \<noteq> 0 then (Err ''File offset must be page-aligned'', s)
      else mmap start bytes flags (FileBacked file_backing) s)"

fun find_in :: "u64 \<Rightarrow> VmRegion option list \<Rightarrow> VmRegion option" where
  "find_in addr [] = None"
| "find_in addr (None # slots) = find_in addr slots"
| "find_in addr (Some region # slots) =
     (if addr \<ge> vm_start region \<and> addr < vm_end region then Some region else find_in addr slots)"

definition find_region :: "u64 \<Rightarrow> 'a demand_machine_scheme \<Rightarrow> VmRegion option" where
  "find_region addr s = find_in addr (REGIONS s)"

text \<open>
  The loop over the pages of an unmapped range. Both bounds are page aligned, so it visits the start
  plus 0, 1, 2 \<open>\<dots>\<close> pages, as many as the range has, without wrapping around.
\<close>

primrec unmap_loop :: "u64 list \<Rightarrow> 'a paging_machine_scheme \<Rightarrow> (string, unit) result \<times> 'a paging_machine_scheme" where
  "unmap_loop [] s = (Ok (), s)"
| "unmap_loop (addr # addrs) s =
     (case translate_address addr s of
        Err e \<Rightarrow> unmap_loop addrs s
      | Ok phys \<Rightarrow>
          case unmap_page addr s of
            (Err e, s) \<Rightarrow> (Err e, s)
          | (Ok u, s) \<Rightarrow>
              case free_frame (pa_align_down phys) s of
                (Err e, s) \<Rightarrow> (Err ''Failed to free frame'', s)
              | (Ok u, s) \<Rightarrow> unmap_loop addrs s)"

definition page_addrs :: "u64 \<Rightarrow> u64 \<Rightarrow> u64 list" where
  "page_addrs a b = map (\<lambda>i. a + i * PAGE_SIZE) (range_w 0 ((b - a) div PAGE_SIZE))"

text \<open>The registry after unmapping from \<open>a\<close> to \<open>b\<close>, slot by slot.\<close>

definition update_slot :: "u64 \<Rightarrow> u64 \<Rightarrow> nat \<Rightarrow> VmRegion option list \<Rightarrow> (string, unit) result \<times> VmRegion option list" where
  "update_slot a b i regions =
     (case regions ! i of
        None \<Rightarrow> (Ok (), regions)
      | Some region \<Rightarrow>
          if \<not> ranges_overlap a b (vm_start region) (vm_end region) then (Ok (), regions)
          else if a \<le> vm_start region \<and> b \<ge> vm_end region then (Ok (), regions[i := None])
          else if a \<le> vm_start region \<and> b < vm_end region then (Ok (), regions[i := Some (region\<lparr>vm_start := b\<rparr>)])
          else if a > vm_start region \<and> b \<ge> vm_end region then (Ok (), regions[i := Some (region\<lparr>vm_end := a\<rparr>)])
          else let right = region\<lparr>vm_start := b\<rparr>;
                   regions = regions[i := Some (region\<lparr>vm_end := a\<rparr>)]
               in case store_region right regions of
                 Some regions' \<Rightarrow> (Ok (), regions')
               | None \<Rightarrow> (Err ''No free region slots for split'', regions))"

primrec update_regions :: "u64 \<Rightarrow> u64 \<Rightarrow> nat list \<Rightarrow> VmRegion option list \<Rightarrow> (string, unit) result \<times> VmRegion option list" where
  "update_regions a b [] regions = (Ok (), regions)"
| "update_regions a b (i # is) regions =
     (case update_slot a b i regions of
        (Err e, regions) \<Rightarrow> (Err e, regions)
      | (Ok u, regions) \<Rightarrow> update_regions a b is regions)"

definition munmap :: "VirtAddr \<Rightarrow> usize \<Rightarrow> 'a demand_machine_scheme \<Rightarrow> (string, unit) result \<times> 'a demand_machine_scheme" where
  "munmap start bytes s =
     (if bytes = 0 then (Err ''Invalid region size'', s)
      else let unmap_start = dp_align_down start
        in case checked_add start bytes of
          None \<Rightarrow> (Err ''Size overflow'', s)
        | Some lim \<Rightarrow>
            let unmap_end = dp_align_up lim
            in if unmap_end \<le> unmap_start then (Err ''Invalid region size'', s)
               else if \<not> list_ex (overlaps_slot unmap_start unmap_end) (REGIONS s) then (Err ''Address not in demand region'', s)
               else case unmap_loop (page_addrs unmap_start unmap_end) s of
                 (Err e, s) \<Rightarrow> (Err e, s)
               | (Ok u, s) \<Rightarrow>
                   let (r, regions) = update_regions unmap_start unmap_end [0..<length (REGIONS s)] (REGIONS s)
                   in (r, s\<lparr>REGIONS := regions\<rparr>))"

text \<open>The contents of a fresh page; \<open>Err\<close> leaves memory as given back.\<close>

fun fill_page :: "VmRegion \<Rightarrow> u64 \<Rightarrow> u64 \<Rightarrow> memory \<Rightarrow> (string, unit) result \<times> memory" where
  "fill_page region base phys m =
     (case vm_backing region of
        ZeroFill \<Rightarrow>
          let virt = dp_phys_to_virt phys
          in if virt = 0 then (Err ''No identity mapping for frame'', m)
             else (Ok (), write_bytes m virt 0 4096)
      | FileBacked file \<Rightarrow>
          let virt = dp_phys_to_virt phys
          in if virt = 0 then (Err ''No identity mapping for frame'', m)
             else let m = write_bytes m virt 0 4096
               in case checked_sub base (vm_start region) of
                 None \<Rightarrow> (Err ''Fault outside region'', m)
               | Some page_offset \<Rightarrow>
                   case checked_add (fb_file_offset file) page_offset of
                     None \<Rightarrow> (Err ''File offset overflow'', m)
                   | Some file_offset \<Rightarrow>
                       if file_offset < fb_file_size file then
                         let remaining = fb_file_size file - file_offset;
                             to_read = min PAGE_SIZE remaining;
                             (bytes_read, m) = fb_read_at file (fb_ctx file) file_offset virt to_read m
                         in (Ok (), m)
                       else (Ok (), m))"

definition handle_demand_page_fault ::
  "VirtAddr \<Rightarrow> u64 \<Rightarrow> 'a demand_machine_scheme \<Rightarrow> (string, unit) result \<times> 'a demand_machine_scheme" where
  "handle_demand_page_fault fault_addr error_code s =
     (if error_code AND 1 \<noteq> 0 then (Err ''Page was present'', s)
      else case find_region fault_addr s of
        None \<Rightarrow> (Err ''Address not in demand region'', s)
      | Some region \<Rightarrow>
          let base = dp_align_down fault_addr
          in case alloc_frame s of
            (Err e, s) \<Rightarrow> (Err ''Failed to allocate frame'', s)
          | (Ok frame, s) \<Rightarrow>
              case fill_page region base frame (mem s) of
                (Err e, m) \<Rightarrow> (Err e, s\<lparr>mem := m\<rparr>)
              | (Ok u, m) \<Rightarrow> map_page base frame (ptf_set (vm_flags region) PRESENT) (s\<lparr>mem := m\<rparr>))"

text \<open>The C interface of \<^verbatim>\<open>memory/lib.rs\<close>.\<close>

definition memory_mmap_zero :: "u64 \<Rightarrow> usize \<Rightarrow> u64 \<Rightarrow> 'a demand_machine_scheme \<Rightarrow> u64 \<times> 'a demand_machine_scheme" where
  "memory_mmap_zero start bytes flags s = apfst (unwrap_or 0) (mmap start bytes flags ZeroFill s)"

definition memory_mmap_file ::
  "u64 \<Rightarrow> usize \<Rightarrow> u64 \<Rightarrow> u64 \<Rightarrow> MmapReadAtFn \<Rightarrow> u64 \<Rightarrow> u64 \<Rightarrow> 'a demand_machine_scheme \<Rightarrow> u64 \<times> 'a demand_machine_scheme" where
  "memory_mmap_file start bytes flags ctx read_at file_offset file_size s =
     apfst (unwrap_or 0) (mmap_file start bytes flags
       \<lparr>fb_ctx = ctx, fb_read_at = read_at, fb_file_offset = file_offset, fb_file_size = file_size\<rparr> s)"

definition memory_munmap :: "u64 \<Rightarrow> usize \<Rightarrow> 'a demand_machine_scheme \<Rightarrow> i32 \<times> 'a demand_machine_scheme" where
  "memory_munmap start bytes s = apfst paging_status (munmap start bytes s)"

text \<open>The test file of \<^verbatim>\<open>main.rs\<close>: 32 bytes at the address the context points to.\<close>

definition mmap_test_read_at :: MmapReadAtFn where
  "mmap_test_read_at ctx offset dst n m =
     (if ctx = 0 \<or> dst = 0 \<or> n = 0 then (0, m)
      else if offset \<ge> 32 then (0, m)
      else let available = 32 - offset;
               to_copy = min n available
           in (to_copy, copy_bytes m (ctx + offset) dst (unat to_copy)))"

section \<open>Files behind a mapping\<close>

text \<open>
  The contract of a read callback: for a valid context, a read within the file writes exactly the
  bytes of the file to the destination; the bytes depend on the file's own storage only.
\<close>

locale file_reader =
  fixes read_at :: MmapReadAtFn
    and valid :: "u64 \<Rightarrow> bool"
    and storage :: "u64 \<Rightarrow> u64 set"
    and fsize :: u64
    and contents :: "u64 \<Rightarrow> memory \<Rightarrow> u64 \<Rightarrow> u8"
  assumes reads: "valid c \<Longrightarrow> dst \<noteq> 0 \<Longrightarrow> 0 < n \<Longrightarrow> off < fsize \<Longrightarrow> n \<le> fsize - off \<Longrightarrow>
      read_at c off dst n m = (n, \<lambda>x. if in_bytes dst (unat n) x then contents c m (off + (x - dst)) else m x)"
    and contents_storage: "valid c \<Longrightarrow> \<forall>x\<in>storage c. m' x = m x \<Longrightarrow> k < fsize \<Longrightarrow> contents c m' k = contents c m k"
begin

lemma fill_file_page:
  assumes r: "vm_backing r = FileBacked file" "fb_read_at file = read_at" "fb_file_size file = fsize" "valid (fb_ctx file)"
    and f: "page_base f = f" "f \<noteq> 0" "f < 0x8000000" and st: "\<forall>x\<in>storage (fb_ctx file). page_base x \<noteq> f"
    and o: "vm_start r \<le> base" "unat (fb_file_offset file) + unat (base - vm_start r) + 4096 < 2 ^ 64"
    and off: "off = fb_file_offset file + (base - vm_start r)"
  shows "\<exists>m'. fill_page r base f m = (Ok (), m') \<and> (\<forall>x. page_base x \<noteq> f \<longrightarrow> m' x = m x)
     \<and> (\<forall>k<4096. m' (f + k) = (if off + k < fsize then contents (fb_ctx file) m (off + k) else 0))"
proof -
  let ?z = "write_bytes m f 0 4096" and ?n = "min PAGE_SIZE (fsize - off)" and ?c = "fb_ctx file"
  have v: "dp_phys_to_virt f = f" using f(3) by (auto simp: dp_phys_to_virt_def)
  have uo: "unat off = unat (fb_file_offset file) + unat (base - vm_start r)"
    using o(2) by (simp add: off unat_word_ariths)
  have ch: "checked_sub base (vm_start r) = Some (base - vm_start r)" "checked_add (fb_file_offset file) (base - vm_start r) = Some off"
    using o(1) uo by (auto simp: checked_sub_def checked_add_def off word_less_nat_alt word_le_nat_alt)
  have z: "?z x = (if page_base x = f then 0 else m x)" for x using in_page_iff [OF f(1)] by (simp add: write_bytes_def)
  have fk: "page_base (f + k) = f" if "k < 4096" for k
    using page_base_add(1) [OF f(1), of k] that by (simp add: word_less_nat_alt)
  have kk: "off + k < fsize \<longleftrightarrow> unat off + unat k < unat fsize" if "k < 4096" for k
    using that uo o(2) by (simp add: word_less_nat_alt unat_word_ariths)
  show ?thesis
  proof (cases "off < fsize")
    case False
    then have "fill_page r base f m = (Ok (), ?z)" using r v f(2) ch by (simp add: Let_def)
    moreover have "\<not> off + k < fsize" if "k < 4096" for k using kk [OF that] False by (simp add: word_less_nat_alt)
    ultimately show ?thesis using z fk by auto
  next
    case True
    define m' where "m' = (\<lambda>x. if in_bytes f (unat ?n) x then contents ?c ?z (off + (x - f)) else ?z x)"
    have n: "0 < ?n" "?n \<le> fsize - off" "?n \<le> 4096" using True by (auto simp: PAGE_SIZE_def min_def word_gt_0)
    have n': "unat ?n \<le> 4096" using n(3) by (simp add: word_le_nat_alt)
    have ms: "unat (fsize - off) = unat fsize - unat off" using True by (simp add: unat_sub)
    have "fill_page r base f m = (Ok (), m')"
      using r v f(2) ch True reads [OF r(4) f(2) n(1) True n(2), of ?z] by (simp add: Let_def m'_def)
    moreover have "m' x = m x" if "page_base x \<noteq> f" for x
    proof -
      have "\<not> in_bytes f 4096 x" using that in_page_iff [OF f(1)] by blast
      then have "\<not> in_bytes f (unat ?n) x" using n' by (simp add: in_bytes_def)
      then show ?thesis using z that by (simp add: m'_def)
    qed
    moreover have "m' (f + k) = (if off + k < fsize then contents ?c m (off + k) else 0)" if k: "k < 4096" for k
    proof -
      have k': "unat k < 4096" using k by (simp add: word_less_nat_alt)
      have "in_bytes f (unat ?n) (f + k) \<longleftrightarrow> off + k < fsize"
        unfolding kk [OF k] using k' ms True by (auto simp: in_bytes_def min_def PAGE_SIZE_def word_le_nat_alt word_less_nat_alt)
      moreover have "contents ?c ?z (off + k) = contents ?c m (off + k)" if "off + k < fsize"
        by (rule contents_storage [OF r(4) _ that]) (use st z in auto)
      ultimately show ?thesis using z fk [OF k] by (simp add: m'_def)
    qed
    ultimately show ?thesis by blast
  qed
qed

end

interpretation test_file: file_reader mmap_test_read_at "\<lambda>c. c \<noteq> 0" "\<lambda>c. {x. in_bytes c 32 x}" 32 "\<lambda>c m k. m (c + k)"
proof (unfold_locales, goal_cases)
  case (1 c dst n off m)
  have "min n (32 - off) = n" using 1(5) by (simp add: min_def)
  moreover have "\<not> 32 \<le> off" "n \<noteq> 0" using 1(3,4) by (auto simp: not_le)
  ultimately show ?case using 1(1,2) by (simp add: mmap_test_read_at_def copy_bytes_def fun_eq_iff Let_def add.assoc)
next
  case (2 c m' m k)
  have "in_bytes c 32 (c + k)" using 2(3) by (simp add: in_bytes_def word_less_nat_alt)
  then show ?case using 2(2) by blast
qed

section \<open>The registry as a map\<close>

lemma dp_align_down_base: "dp_align_down a = page_base a"
  by (simp add: dp_align_down_def page_base_def PAGE_SIZE_def)

text \<open>
  The registry refines a partial map from addresses to the flags and the backing of their region. Its
  invariant: regions have page-aligned bounds, are not empty and do not overlap.
\<close>

fun in_slot :: "u64 \<Rightarrow> VmRegion option \<Rightarrow> bool" where
  "in_slot x (Some r) \<longleftrightarrow> vm_start r \<le> x \<and> x < vm_end r"
| "in_slot x None \<longleftrightarrow> False"

definition region_ok :: "VmRegion \<Rightarrow> bool" where
  "region_ok r \<longleftrightarrow> page_base (vm_start r) = vm_start r \<and> page_base (vm_end r) = vm_end r \<and> vm_start r < vm_end r"

definition regions_inv :: "VmRegion option list \<Rightarrow> bool" where
  "regions_inv rs \<longleftrightarrow> (\<forall>i<length rs. \<forall>r. rs ! i = Some r \<longrightarrow> region_ok r
     \<and> (\<forall>j<length rs. j \<noteq> i \<longrightarrow> \<not> overlaps_slot (vm_start r) (vm_end r) (rs ! j)))"

definition region_map :: "VmRegion option list \<Rightarrow> u64 \<rightharpoonup> PageTableFlags \<times> BackingKind" where
  "region_map rs x = map_option (\<lambda>r. (vm_flags r, vm_backing r)) (find_in x rs)"

lemma store_region_Some:
  "store_region r rs = Some rs' \<Longrightarrow> \<exists>i<length rs. rs ! i = None \<and> rs' = rs[i := Some r]"
proof (induction r rs arbitrary: rs' rule: store_region.induct)
  case (3 r q slots)
  then obtain i where "i < length slots" "slots ! i = None" "rs' = Some q # slots[i := Some r]" by auto
  then show ?case by (intro exI [of _ "Suc i"]) simp
qed auto

lemma store_region_None: "store_region r rs = None \<longleftrightarrow> None \<notin> set rs"
  by (induction r rs rule: store_region.induct) auto

lemma find_in_SomeD: "find_in x rs = Some r \<Longrightarrow> \<exists>i<length rs. rs ! i = Some r \<and> in_slot x (Some r)"
  by (induction x rs rule: find_in.induct) (auto split: if_splits intro: exI [of _ 0] exI [of _ "Suc _"])

lemma find_in_None: "find_in x rs = None \<longleftrightarrow> (\<forall>i<length rs. \<not> in_slot x (rs ! i))"
  by (induction x rs rule: find_in.induct) (auto simp: less_Suc_eq_0_disj)

lemma overlaps_common: "in_slot x (Some r) \<Longrightarrow> in_slot x q \<Longrightarrow> overlaps_slot (vm_start r) (vm_end r) q"
  by (cases q) (auto simp: ranges_overlap_def)

lemma find_in_eq:
  assumes inv: "regions_inv rs" and i: "i < length rs" "rs ! i = Some r" "in_slot x (Some r)"
  shows "find_in x rs = Some r"
proof (cases "find_in x rs")
  case None
  then show ?thesis using i find_in_None by metis
next
  case (Some q)
  then obtain j where j: "j < length rs" "rs ! j = Some q" "in_slot x (Some q)" using find_in_SomeD by blast
  have "j = i" using inv i j overlaps_common [OF i(3), of "rs ! j"] unfolding regions_inv_def by metis
  then show ?thesis using Some i(2) j(2) by simp
qed

lemma find_in_update:
  assumes inv: "regions_inv rs" "regions_inv (rs[i := q])" and i: "i < length rs"
  shows "find_in x (rs[i := q]) = (if in_slot x q then q else if in_slot x (rs ! i) then None else find_in x rs)"
proof -
  have other: "find_in x (rs[i := q]) = find_in x rs" if n: "\<not> in_slot x q" "\<not> in_slot x (rs ! i)"
  proof (cases "find_in x rs")
    case None
    then have "\<not> in_slot x (rs[i := q] ! j)" if "j < length rs" for j
      using that n(1) i find_in_None [of x rs] by (cases "j = i") auto
    then show ?thesis using None find_in_None [of x "rs[i := q]"] by auto
  next
    case (Some r)
    then obtain j where j: "j < length rs" "rs ! j = Some r" "in_slot x (Some r)" using find_in_SomeD by blast
    then have "j \<noteq> i" using n(2) by auto
    then show ?thesis using find_in_eq [OF inv(2), of j r x] j Some by simp
  qed
  have here: "find_in x (rs[i := q]) = q" if "in_slot x q"
    using that find_in_eq [OF inv(2), of i] i by (cases q) auto
  have gone: "find_in x (rs[i := q]) = None" if n: "\<not> in_slot x q" and r: "in_slot x (rs ! i)"
  proof -
    obtain r where r': "rs ! i = Some r" using r by (cases "rs ! i") auto
    have "\<not> in_slot x (rs[i := q] ! j)" if "j < length rs" for j
    proof (cases "j = i")
      case False
      then show ?thesis using inv(1) i r' that overlaps_common [of x r "rs ! j"] r unfolding regions_inv_def by auto
    qed (use n i in simp)
    then show ?thesis using find_in_None [of x "rs[i := q]"] by auto
  qed
  show ?thesis using other here gone by auto
qed

lemma overlap_sym: "ranges_overlap a b c d = ranges_overlap c d a b"
  by (auto simp: ranges_overlap_def)

lemma regions_inv_update:
  assumes inv: "regions_inv rs" and i: "i < length rs"
    and q: "\<And>r. q = Some r \<Longrightarrow> region_ok r \<and> (\<forall>j<length rs. j \<noteq> i \<longrightarrow> \<not> overlaps_slot (vm_start r) (vm_end r) (rs ! j))"
  shows "regions_inv (rs[i := q])"
  unfolding regions_inv_def
proof (intro allI impI)
  fix k r assume k: "k < length (rs[i := q])" "rs[i := q] ! k = Some r"
  show "region_ok r \<and> (\<forall>j<length (rs[i := q]). j \<noteq> k \<longrightarrow> \<not> overlaps_slot (vm_start r) (vm_end r) (rs[i := q] ! j))"
  proof (cases "k = i")
    case True
    then show ?thesis using q [of r] k i by auto
  next
    case False
    then have r: "rs ! k = Some r" "k < length rs" using k by auto
    have "\<not> overlaps_slot (vm_start r) (vm_end r) q"
    proof (cases q)
      case (Some p)
      then have "\<not> overlaps_slot (vm_start p) (vm_end p) (Some r)" using q r False by metis
      then show ?thesis using Some overlap_sym by simp
    qed simp
    moreover have I: "region_ok r" "\<And>j. j < length rs \<Longrightarrow> j \<noteq> k \<Longrightarrow> \<not> overlaps_slot (vm_start r) (vm_end r) (rs ! j)"
      using inv r unfolding regions_inv_def by blast+
    ultimately have "\<not> overlaps_slot (vm_start r) (vm_end r) (rs[i := q] ! j)" if "j < length rs" "j \<noteq> k" for j
      using that I(2) [OF that] i by (cases "j = i") simp_all
    then show ?thesis using I(1) by simp
  qed
qed


text \<open>Unmapping a range, slot by slot.\<close>

lemma region_map_update:
  assumes "regions_inv rs" "regions_inv (rs[i := q])" "i < length rs"
    and "in_slot x q \<or> in_slot x (rs ! i) \<Longrightarrow> in_slot x q \<and> in_slot x (rs ! i)"
    and "\<And>r r'. q = Some r \<Longrightarrow> rs ! i = Some r' \<Longrightarrow> vm_flags r = vm_flags r' \<and> vm_backing r = vm_backing r'"
  shows "region_map (rs[i := q]) x = region_map rs x"
proof (cases "in_slot x q")
  case True
  then have "in_slot x (rs ! i)" using assms(4) by blast
  then obtain r r' where "q = Some r" "rs ! i = Some r'" using True by (metis in_slot.simps(2) option.exhaust)
  then show ?thesis
    using find_in_update [OF assms(1-3), of x] find_in_eq [OF assms(1,3)] assms(5) True \<open>in_slot x (rs ! i)\<close>
    by (simp add: region_map_def)
next
  case False
  then have "\<not> in_slot x (rs ! i)" using assms(4) by blast
  then show ?thesis using find_in_update [OF assms(1-3), of x] False by (simp add: region_map_def)
qed

lemma shrunk_region:
  assumes inv: "regions_inv rs" and i: "i < length rs" "rs ! i = Some r"
    and sub: "region_ok q" "vm_start r \<le> vm_start q" "vm_end q \<le> vm_end r"
  shows "\<forall>j<length rs. j \<noteq> i \<longrightarrow> \<not> overlaps_slot (vm_start q) (vm_end q) (rs ! j)"
proof (intro allI impI)
  fix j assume j: "j < length rs" "j \<noteq> i"
  then have "\<not> overlaps_slot (vm_start r) (vm_end r) (rs ! j)" using inv i unfolding regions_inv_def by blast
  then show "\<not> overlaps_slot (vm_start q) (vm_end q) (rs ! j)"
    using sub(2,3) by (cases "rs ! j") (auto simp: ranges_overlap_def)
qed

definition cut_slot :: "u64 \<Rightarrow> u64 \<Rightarrow> nat \<Rightarrow> VmRegion option list \<Rightarrow> VmRegion option list \<Rightarrow> bool" where
  "cut_slot a b i rs rs' \<longleftrightarrow> regions_inv rs' \<and> length rs' = length rs \<and> \<not> overlaps_slot a b (rs' ! i)
     \<and> (\<forall>j<length rs. j \<noteq> i \<longrightarrow> overlaps_slot a b (rs' ! j) \<longrightarrow> overlaps_slot a b (rs ! j))
     \<and> (\<forall>x. \<not> (a \<le> x \<and> x < b) \<longrightarrow> region_map rs' x = region_map rs x)"

lemma update_slot_replace:
  assumes inv: "regions_inv rs" and i: "i < length rs" "rs ! i = Some r"
    and q: "q = None \<or> (\<exists>q'. q = Some q' \<and> region_ok q' \<and> vm_start r \<le> vm_start q' \<and> vm_end q' \<le> vm_end r
       \<and> vm_flags q' = vm_flags r \<and> vm_backing q' = vm_backing r)"
  shows "regions_inv (rs[i := q])"
    and "in_slot x q \<longleftrightarrow> in_slot x (Some r) \<Longrightarrow> region_map (rs[i := q]) x = region_map rs x"
proof -
  show inv': "regions_inv (rs[i := q])"
    by (rule regions_inv_update [OF inv i(1)]) (use q shrunk_region [OF inv i] in auto)
  show "region_map (rs[i := q]) x = region_map rs x" if "in_slot x q \<longleftrightarrow> in_slot x (Some r)"
    by (rule region_map_update [OF inv inv' i(1)]) (use that q i(2) in auto)
qed

lemma split_slot:
  assumes inv: "regions_inv rs" and i: "i < length rs" "rs ! i = Some r" and ab: "page_base a = a" "page_base b = b" "a < b"
    and ok: "region_ok r" and in_r: "vm_start r < a" "b < vm_end r"
    and st: "store_region (r\<lparr>vm_start := b\<rparr>) (rs[i := Some (r\<lparr>vm_end := a\<rparr>)]) = Some rs'"
  shows "cut_slot a b i rs rs'"
proof -
  let ?left = "r\<lparr>vm_end := a\<rparr>" and ?right = "r\<lparr>vm_start := b\<rparr>"
  let ?rs = "rs[i := Some ?left]"
  obtain k where k: "k < length rs" "?rs ! k = None" "rs' = ?rs[k := Some ?right]" using store_region_Some [OF st] by auto
  have ki: "k \<noteq> i" using k i by auto
  have l: "Some ?left = None \<or> (\<exists>q'. Some ?left = Some q' \<and> region_ok q' \<and> vm_start r \<le> vm_start q' \<and> vm_end q' \<le> vm_end r
       \<and> vm_flags q' = vm_flags r \<and> vm_backing q' = vm_backing r)"
    using ok ab in_r by (auto simp: region_ok_def)
  note R = update_slot_replace [OF inv i l]
  have okr: "region_ok ?right" using ok ab in_r by (auto simp: region_ok_def)
  have "\<not> overlaps_slot b (vm_end r) (?rs ! j)" if j: "j < length rs" "j \<noteq> k" for j
  proof (cases "j = i")
    case True
    then show ?thesis using i ab(3) in_r by (auto simp: ranges_overlap_def)
  next
    case False
    then show ?thesis using shrunk_region [OF inv i okr] in_r ab(3) j by auto
  qed
  then have inv': "regions_inv (?rs[k := Some ?right])" using k(1) okr by (intro regions_inv_update [OF R(1)]) auto
  have find: "find_in x rs' = (if in_slot x (Some ?right) then Some ?right else find_in x ?rs)" for x
    using find_in_update [OF R(1) inv', of x] k by simp
  have "region_map rs' x = region_map rs x" if x: "\<not> (a \<le> x \<and> x < b)" for x
  proof (cases "in_slot x (Some ?right)")
    case True
    then have "in_slot x (Some r)" using in_r ab(3) by auto
    then show ?thesis using find True find_in_eq [OF inv i] by (simp add: region_map_def)
  next
    case False
    then have "in_slot x (Some ?left) \<longleftrightarrow> in_slot x (Some r)" using x in_r ab(3) by auto
    then have "region_map ?rs x = region_map rs x" by (rule R(2))
    moreover have "find_in x rs' = find_in x ?rs" unfolding find [of x] using False by (rule if_not_P)
    ultimately show ?thesis by (simp add: region_map_def)
  qed
  moreover have "\<not> overlaps_slot a b (rs' ! i)" using k i ki by (simp add: ranges_overlap_def)
  moreover have "overlaps_slot a b (rs ! j)" if "j < length rs" "j \<noteq> i" "overlaps_slot a b (rs' ! j)" for j
    using that k by (cases "j = k") (auto simp: ranges_overlap_def)
  ultimately show ?thesis using inv' k(3) by (simp add: cut_slot_def)
qed

lemma update_slot_cut:
  assumes inv: "regions_inv rs" and i: "i < length rs" and ab: "page_base a = a" "page_base b = b" "a < b"
    and u: "update_slot a b i rs = (Ok u, rs')"
  shows "cut_slot a b i rs rs'"
proof (cases "rs ! i")
  case None
  then show ?thesis using u inv by (simp add: update_slot_def cut_slot_def)
next
  case r: (Some r)
  have ok: "region_ok r" using inv i r unfolding regions_inv_def by blast
  show ?thesis
  proof (cases "ranges_overlap a b (vm_start r) (vm_end r)")
    case False
    then show ?thesis using u inv r by (simp add: update_slot_def cut_slot_def)
  next
    case ov: True
    note R = update_slot_replace [OF inv i r]
    consider "a \<le> vm_start r" "vm_end r \<le> b" | "a \<le> vm_start r" "b < vm_end r" | "vm_start r < a" "vm_end r \<le> b"
      | "vm_start r < a" "b < vm_end r" by fastforce
    then show ?thesis
    proof cases
      case 1
      then have "rs' = rs[i := None]" using u r ov by (simp add: update_slot_def)
      moreover have "region_map (rs[i := None]) x = region_map rs x" if "\<not> (a \<le> x \<and> x < b)" for x
        by (rule R(2)) (use that 1 in auto)
      ultimately show ?thesis using R(1) i by (simp add: cut_slot_def)
    next
      case 2
      let ?q = "r\<lparr>vm_start := b\<rparr>"
      have rs': "rs' = rs[i := Some ?q]" using u r ov 2 by (auto simp: update_slot_def split: if_splits)
      have q: "Some ?q = None \<or> (\<exists>q'. Some ?q = Some q' \<and> region_ok q' \<and> vm_start r \<le> vm_start q' \<and> vm_end q' \<le> vm_end r
         \<and> vm_flags q' = vm_flags r \<and> vm_backing q' = vm_backing r)"
        using ok ab(2) 2 ov by (auto simp: region_ok_def ranges_overlap_def)
      have "region_map rs' x = region_map rs x" if "\<not> (a \<le> x \<and> x < b)" for x
        unfolding rs' by (rule R(2) [OF q]) (use that 2 ov in \<open>auto simp: ranges_overlap_def\<close>)
      then show ?thesis using R(1) [OF q] i rs' by (simp add: cut_slot_def ranges_overlap_def)
    next
      case 3
      let ?q = "r\<lparr>vm_end := a\<rparr>"
      have rs': "rs' = rs[i := Some ?q]" using u r ov 3 by (auto simp: update_slot_def split: if_splits)
      have q: "Some ?q = None \<or> (\<exists>q'. Some ?q = Some q' \<and> region_ok q' \<and> vm_start r \<le> vm_start q' \<and> vm_end q' \<le> vm_end r
         \<and> vm_flags q' = vm_flags r \<and> vm_backing q' = vm_backing r)"
        using ok ab(1) 3 ov by (auto simp: region_ok_def ranges_overlap_def)
      have "region_map rs' x = region_map rs x" if "\<not> (a \<le> x \<and> x < b)" for x
        unfolding rs' by (rule R(2) [OF q]) (use that 3 ov in \<open>auto simp: ranges_overlap_def\<close>)
      then show ?thesis using R(1) [OF q] i rs' by (simp add: cut_slot_def ranges_overlap_def)
    next
      case 4
      then show ?thesis using split_slot [OF inv i r ab ok] u r ov by (auto simp: update_slot_def Let_def split: if_splits option.splits)
    qed
  qed
qed


lemma update_regions_cut:
  assumes "regions_inv rs" "\<forall>i\<in>set is. i < length rs" "\<forall>j<length rs. j \<notin> set is \<longrightarrow> \<not> overlaps_slot a b (rs ! j)" "distinct is"
    and ab: "page_base a = a" "page_base b = b" "a < b" and "update_regions a b is rs = (Ok u, rs')"
  shows "regions_inv rs' \<and> length rs' = length rs \<and> region_map rs' = (\<lambda>x. if a \<le> x \<and> x < b then None else region_map rs x)"
  using assms(1-4,8)
proof (induction "is" arbitrary: rs)
  case Nil
  then have "\<not> in_slot x (rs ! j)" if "a \<le> x" "x < b" "j < length rs" for x j
    using that by (cases "rs ! j") (fastforce simp: ranges_overlap_def)+
  then have "find_in x rs = None" if "a \<le> x" "x < b" for x using that find_in_None by blast
  then show ?case using Nil by (auto simp: region_map_def fun_eq_iff)
next
  case (Cons i "is")
  obtain r1 rs1 where s: "update_slot a b i rs = (r1, rs1)" by fastforce
  then have r1: "r1 = Ok ()" and w: "update_regions a b is rs1 = (Ok u, rs')" using Cons.prems(5) by (auto split: sum.splits)
  have i: "i < length rs" using Cons.prems(2) by simp
  have C: "cut_slot a b i rs rs1" by (rule update_slot_cut [OF Cons.prems(1) i ab s [unfolded r1]])
  have "\<forall>j<length rs1. j \<notin> set is \<longrightarrow> \<not> overlaps_slot a b (rs1 ! j)"
    using C Cons.prems(3) unfolding cut_slot_def by (metis list.set_intros(1) set_ConsD)
  then have "regions_inv rs' \<and> length rs' = length rs1 \<and> region_map rs' = (\<lambda>x. if a \<le> x \<and> x < b then None else region_map rs1 x)"
    using C Cons.prems(2,4) w by (intro Cons.IH) (simp_all add: cut_slot_def)
  then show ?case using C by (auto simp: cut_slot_def fun_eq_iff)
qed

lemma page_base_le: "page_base x \<le> x"
  by (simp add: page_base_def word_and_le2)

lemma dp_align_up_aligned: "page_base (dp_align_up x) = dp_align_up x"
  by (simp add: dp_align_up_def PAGE_SIZE_def page_base_idem [unfolded page_base_def] page_base_def)

lemma unat_u64: "unat (x :: u64) < 2 ^ 64"
  using unsigned_less [where ?'a = nat and w = x] by simp

lemma unat_page_base: "unat (page_base x) = unat x div 4096 * 4096"
proof -
  have "page_base x = x div 4096 * 4096"
    using page_split [of x] page_base_plus_offset [of x] by (metis add_right_cancel)
  then have "unat (page_base x) = (unat x div 4096 * 4096) mod 2 ^ 64" by (simp add: unat_word_ariths unat_div mod_mult_left_eq)
  also have "unat x div 4096 * 4096 \<le> unat x" by simp
  then have "(unat x div 4096 * 4096) mod 2 ^ 64 = unat x div 4096 * 4096"
    using unat_u64 [of x] by (intro mod_less) (rule order_le_less_trans)
  finally show ?thesis .
qed

text \<open>The pages of a request cover it, unless the end wraps around.\<close>

lemma request_covered:
  assumes c: "start \<le> start + bytes" and e: "page_base start < dp_align_up (start + bytes)" and x: "unat (x - start) < unat bytes"
  shows "page_base start \<le> x" "x < dp_align_up (start + bytes)"
proof -
  let ?l = "start + bytes"
  have l: "unat ?l = unat start + unat bytes" using c unat_u64 [of bytes] by (auto simp: word_le_nat_alt unat_plus_if' split: if_splits)
  have d: "dp_align_up ?l = page_base (?l + 4095)" by (simp add: dp_align_up_def page_base_def PAGE_SIZE_def add.commute)
  have nw: "unat ?l + 4095 < 2 ^ 64"
  proof (rule ccontr)
    assume "\<not> ?thesis"
    then have "unat (?l + 4095) = unat ?l + 4095 - 2 ^ 64" using unat_u64 [of ?l] by (simp add: unat_plus_if')
    then have "unat (?l + 4095) < 4096" using unat_u64 [of ?l] by simp
    then have "unat (dp_align_up ?l) = 0" using unat_page_base [of "?l + 4095"] d by simp
    then show False using e by (simp add: word_less_nat_alt)
  qed
  then have "unat (dp_align_up ?l) = (unat ?l + 4095) div 4096 * 4096" using unat_page_base [of "?l + 4095"] d by (simp add: unat_plus_if')
  then have up: "unat ?l \<le> unat (dp_align_up ?l)" by linarith
  have "unat (start + (x - start)) = unat start + unat (x - start)"
    using x l nw by (subst unat_add_lem [THEN iffD1]) auto
  then have ux: "unat x = unat start + unat (x - start)" by simp
  then show "page_base start \<le> x" "x < dp_align_up ?l"
    using up l x page_base_le [of start] by (simp_all add: word_le_nat_alt word_less_nat_alt)
qed

end
