(* ===== verification/Demand_Correct.thy ===== *)
theory Demand_Correct
  imports Demand_Paging
begin

text \<open>
  The correctness of demand paging: what a fault on an unpopulated page maps and writes, and what
  \<^verbatim>\<open>munmap\<close> gives back.
\<close>

unbundle bit_operations_syntax

section \<open>The fault on a page not yet populated\<close>

definition identity_frames :: "'a pmm_machine_scheme \<Rightarrow> bool" where
  "identity_frames s \<longleftrightarrow> (\<forall>a\<in>avail s. 0 < a \<and> a < 0x8000000)"

lemma identity_low: "identity_frames s \<Longrightarrow> low_memory s"
  unfolding identity_frames_def low_memory_def using order_less_trans [of _ "0x8000000" "0x100000000 :: u64"] by simp

lemma fill_zero_page:
  assumes "vm_backing r = ZeroFill" and f: "page_base f = f" "f \<noteq> 0" "f < 0x8000000"
  shows "\<exists>m'. fill_page r base f m = (Ok (), m') \<and> (\<forall>x. page_base x \<noteq> f \<longrightarrow> m' x = m x) \<and> (\<forall>k<4096. m' (f + k) = 0)"
proof -
  have "dp_phys_to_virt f = f" using f(3) by (auto simp: dp_phys_to_virt_def)
  then have "fill_page r base f m = (Ok (), write_bytes m f 0 4096)" using assms(1) f(2) by (simp add: Let_def)
  moreover have "in_bytes f 4096 (f + k)" if "k < 4096" for k using that by (simp add: in_bytes_def word_less_nat_alt)
  ultimately show ?thesis using in_page_iff [OF f(1)] by (auto simp: write_bytes_def)
qed

lemma page_number_base: "page_number md (page_base v) = page_number md v"
  by (cases md; rule bit_eqI) (auto simp: bit_take_bit_iff bit_drop_bit_eq bit_page_base)

lemma page_base_same_page: "same_page s v (page_base v)"
  by (simp add: same_page_def page_number_base)

text \<open>
  The fault with room for a frame and the tables of its path, when every frame can be filled with
  the bytes \<open>want\<close>.
\<close>

lemma demand_fault_effect:
  assumes rd: "paging_ready s" and r: "find_region v s = Some r" and e: "e AND 1 = 0"
    and nh: "\<not> huge_mapped s (page_base v)" and cv: "canonical s (page_base v)" and idf: "identity_frames s" and enough: "5 \<le> card (avail s)"
    and flags: "mapping_flags (ptf_set (vm_flags r) PRESENT)"
    and fill: "\<forall>f\<in>avail s. \<forall>m. (\<forall>x. x \<notin> bitmap_area s \<longrightarrow> m x = mem s x) \<longrightarrow>
       (\<exists>m'. fill_page r (page_base v) f m = (Ok (), m') \<and> (\<forall>x. page_base x \<noteq> f \<longrightarrow> m' x = m x) \<and> (\<forall>k<4096. m' (f + k) = want k))"
  shows "\<exists>s' f. handle_demand_page_fault v e s = (Ok (), s') \<and> same_space s s' \<and> f \<in> avail s - avail s' \<and> f \<notin> page_tables s'
     \<and> (\<forall>w. translation s' w = (if same_page s v w \<and> canonical s w then Some (f OR va_page_offset w) else translation s w))
     \<and> (\<forall>w. page_flags s' w = (if same_page s v w \<and> canonical s w then Some (ptf_set (vm_flags r) PRESENT AND 0xFFF) else page_flags s w))
     \<and> (\<forall>k<4096. mem s' (f + k) = want k)"
proof -
  note D = tree_invD [OF paging_readyD(1) [OF rd]]
  obtain q s1 where al: "alloc_frame s = (q, s1)" by fastforce
  note pm = alloc_frame_c [OF al] and low = identity_low [OF idf]
  define f where "f = unwrap_or 0 q"
  have f0: "f \<noteq> 0" using pmm_alloc_frame_takes(2) [OF D(1) pm] enough low by (auto simp: f_def low_memory_def)
  then have q: "q = Ok f" by (cases q) (simp_all add: f_def unwrap_or_def)
  have pf: "pmm_alloc_frame s = (f, s1)" using pm by (simp add: f_def)
  have fa: "f \<in> avail s" using takesD(5) [OF pmm_alloc_frame_takes(1) [OF D(1) pf]] f0 by blast
  have m1: "\<forall>x. x \<notin> bitmap_area s \<longrightarrow> mem s1 x = mem s x"
    using takesD(4) [OF pmm_alloc_frame_takes(1) [OF D(1) pf]] by blast
  then obtain m' where m': "fill_page r (page_base v) f (mem s1) = (Ok (), m')" "\<forall>x. page_base x \<noteq> f \<longrightarrow> m' x = mem s1 x"
    and w: "\<forall>k<4096. m' (f + k) = want k" using fill fa by blast
  define s2 where "s2 = s1\<lparr>mem := m'\<rparr>"
  note F = fill_frame [OF rd pf f0 m'(2) s2_def] and O = frame_outside [OF rd fa]
  note S2 = same_spaceD [OF F(1)]
  obtain res s' where m: "map_page (page_base v) f (ptf_set (vm_flags r) PRESENT) s2 = (res, s')" by fastforce
  have nh2: "\<not> huge_mapped s2 (page_base v)" using nh F(4) by simp
  have f52: "f < 2 ^ 52" using low_frames [OF low fa] by simp
  note T = map_page_step [OF S2(1) nh2 f52 flags m] and S = same_spaceD [OF map_page_step(1) [OF S2(1) nh2 f52 flags m]]
  have "card (avail s2) = card (avail s) - 1" using F(6) fa by simp
  then have "length (mode_levels (as_mode s2)) \<le> Suc (card (avail s2))" using enough length_mode_levels [of "as_mode s2"] by simp
  moreover have "low_memory s2" "pa_is_aligned f" "canonical s2 (page_base v)"
    using low F(6) O(1) cv S2(3) by (simp_all add: low_memory_def aligned_page_base)
  ultimately have ok: "res = Ok ()" using map_page_effect [OF S2(1) nh2 m] by metis
  have res: "handle_demand_page_fault v e s = (Ok (), s')"
    using e r al q m' m ok by (simp add: handle_demand_page_fault_def dp_align_down_base s2_def)
  have sp: "same_page s (page_base v) w \<longleftrightarrow> same_page s v w" for w using page_base_same_page [of s v] by (auto simp: same_page_def)
  have mf: "mem s' (f + k) = want k" if k: "k < 4096" for k
  proof -
    have "page_base (f + k) = f" using page_base_add(1) [OF O(1), of k] k by (simp add: word_less_nat_alt)
    then have "f + k \<notin> bitmap_area s2" "page_base (f + k) \<notin> page_tables s2 \<union> avail s2" using O(2) O(3) [of "f + k"] F(5,6) S2(6) by auto
    then have "mem s' (f + k) = mem s2 (f + k)" by (rule S(10))
    then show ?thesis using w k by (simp add: s2_def)
  qed
  have "f \<notin> avail s'" "f \<notin> page_tables s'" using S(8,9) F(5,6) O(2) by blast+
  then show ?thesis
    using res same_space_trans [OF F(1) T(1)] fa T(3,4) ok F(2,3) S2(2,3) mf by (intro exI [of _ s'] exI [of _ f]) (simp add: sp)
qed

section \<open>Giving a page back\<close>

text \<open>A frame that backs a page and nothing else: managed, in use, no table and not part of the bitmap.\<close>

definition data_frame :: "'a paging_machine_scheme \<Rightarrow> u64 \<Rightarrow> bool" where
  "data_frame s p \<longleftrightarrow> p \<in> managed s \<and> p \<notin> avail s \<and> p \<notin> page_tables s \<and> (\<forall>x\<in>bitmap_area s. page_base x \<noteq> p)"

lemma free_frame_returns:
  assumes rd: "paging_ready s" and p: "data_frame s p"
  obtains s' where "free_frame p s = (Ok (), s')" "paging_ready s'" "translation s' = translation s" "page_tables s' = page_tables s"
    "huge_mapped s' = huge_mapped s" "same_rest s s'" "avail s' = insert p (avail s)" "\<And>x. x \<notin> bitmap_area s \<Longrightarrow> mem s' x = mem s x"
proof -
  let ?L = "mode_levels (as_mode s)" and ?R = "as_root s"
  note D = tree_invD [OF paging_readyD(1) [OF rd]]
  obtain s' where f: "free_page_table p s = (Ok (), s')" "pmm_ready s'" "same_rest s s'" "avail s' = insert p (avail s)"
    "\<And>x. x \<notin> bitmap_area s \<Longrightarrow> mem s' x = mem s x"
    using free_page_table_returns [OF D(1)] p unfolding data_frame_def by metis
  have ff: "free_frame p s = (Ok (), s')" using f(1) by (auto simp: free_page_table_def split: prod.splits sum.splits)
  note S = same_rest_as [OF f(3)]
  have fr: "\<forall>x. page_base x \<in> page_tables s \<longrightarrow> mem s' x = mem s x" by (rule bitmap_change [OF rd]) (use f(5) in blast)
  have F: "tree_ok (mem s') ?L ?R \<and> tables (mem s') ?L ?R = tables (mem s) ?L ?R \<and> (\<forall>w. lookup (mem s') ?L ?R w = lookup (mem s) ?L ?R w)"
    by (rule tree_frame [OF D(2)]) (use fr in \<open>simp add: page_tables_def\<close>)
  have "tree_inv ?L ?R s'"
  proof (rule tree_invI)
    show "tables (mem s') ?L ?R \<subseteq> managed s'" using F D(3) same_restD(2) [OF f(3)] by simp
    show "tables (mem s') ?L ?R \<inter> avail s' = {}" using F D(4) p f(4) by (auto simp: data_frame_def page_tables_def)
    show "page_base x \<notin> tables (mem s') ?L ?R \<and> page_base x \<notin> avail s'" if "x \<in> bitmap_area s'" for x
      using F D(5) [of x] that same_restD(1) [OF f(3)] p f(4) by (auto simp: data_frame_def)
  qed (use F f(2) in simp_all)
  then have rd': "paging_ready s'" using rd S by (simp add: paging_ready_def)
  have lk: "as_lookup s' w = as_lookup s w" for w using F S by (simp add: as_lookup_def)
  have "translation s' = translation s"
    using translation_lookup [of s'] translation_lookup [of s] paging_readyD(2) [OF rd] paging_readyD(2) [OF rd'] lk S
    by (auto simp: fun_eq_iff)
  moreover have "huge_mapped s' = huge_mapped s" using lk by (simp add: huge_mapped_lookup fun_eq_iff)
  moreover have "page_tables s' = page_tables s" using F S by (simp add: page_tables_def)
  ultimately show thesis using ff rd' f(3-5) by (intro that [of s'])
qed

text \<open>One page of \<^verbatim>\<open>munmap\<close>: its mapping and its frame are given back.\<close>

definition releases :: "'a paging_machine_scheme \<Rightarrow> (VirtAddr \<Rightarrow> bool) \<Rightarrow> u64 set \<Rightarrow> 'a paging_machine_scheme \<Rightarrow> bool" where
  "releases s P F s' \<longleftrightarrow> paging_ready s' \<and> same_page s' = same_page s \<and> canonical s' = canonical s
     \<and> paging_machine.more s' = paging_machine.more s \<and> managed s' = managed s \<and> bitmap_area s' = bitmap_area s
     \<and> (\<forall>w. \<not> huge_mapped s w \<longrightarrow> \<not> huge_mapped s' w)
     \<and> (\<forall>w. translation s' w = (if P w then None else translation s w))
     \<and> page_tables s' \<subseteq> page_tables s \<and> avail s' = avail s \<union> F \<union> (page_tables s - page_tables s')"

lemma releases_trans:
  assumes "releases s P F s1" "releases s1 Q G s2"
  shows "releases s (\<lambda>w. P w \<or> Q w) (F \<union> G) s2"
proof -
  have "avail s2 = avail s \<union> (F \<union> G) \<union> (page_tables s - page_tables s2)" "page_tables s2 \<subseteq> page_tables s"
    using assms unfolding releases_def by blast+
  then show ?thesis using assms unfolding releases_def by simp
qed

lemma release_page:
  assumes rd: "paging_ready s" and nh: "\<not> huge_mapped s v" and p: "translation s v = Some p" "data_frame s (pa_align_down p)"
  obtains s1 s2 where "unmap_page v s = (Ok (), s1)" "free_frame (pa_align_down p) s1 = (Ok (), s2)"
    "releases s (same_page s v) {pa_align_down p} s2"
proof -
  have "canonical s v" "as_lookup s v \<noteq> None" using p(1) translation_None_iff [OF rd, of v] by auto
  then obtain s0 where s0: "unmap_page v s = (Ok (), invlpg v s0)" "shrinks (mode_levels (as_mode s)) (as_root s) s s0"
    and lk: "\<And>w. as_lookup s0 w = (if same_page s v w then None else as_lookup s w)"
    using unmap_page_effect [OF rd nh] by metis
  define s1 where "s1 = invlpg v s0"
  note H = shrinksD [OF s0(2)] and S = same_rest_as [OF shrinksD(2) [OF s0(2)]] and R = same_restD [OF shrinksD(2) [OF s0(2)]]
  have rd0: "paging_ready s0" by (rule shrinks_ready [OF rd s0(2)])
  have tr: "translation s1 w = (if same_page s v w then None else translation s w)" for w
    using translation_lookup [of s0 w] translation_lookup [of s w] paging_readyD(2) [OF rd0] paging_readyD(2) [OF rd]
      lk [of w] S by (auto simp: s1_def)
  have hg: "\<not> huge_mapped s1 w" if "\<not> huge_mapped s w" for w using that lk by (auto simp: huge_mapped_lookup s1_def)
  have pt: "page_tables s1 \<subseteq> page_tables s" "avail s1 = avail s \<union> (page_tables s - page_tables s1)"
    using H(3,4) S by (simp_all add: s1_def page_tables_def)
  have d: "paging_ready s1" "data_frame s1 (pa_align_down p)"
    using rd0 p(2) pt R by (auto simp: data_frame_def s1_def)
  obtain s2 where s2: "free_frame (pa_align_down p) s1 = (Ok (), s2)" "paging_ready s2" "translation s2 = translation s1"
    "page_tables s2 = page_tables s1" "huge_mapped s2 = huge_mapped s1" "same_rest s1 s2" "avail s2 = insert (pa_align_down p) (avail s1)"
    using free_frame_returns [OF d] by metis
  have "releases s (same_page s v) {pa_align_down p} s2"
    unfolding releases_def
    using s2 tr hg pt S R same_rest_as [OF s2(6)] same_rest_more [OF s2(6)] same_restD [OF s2(6)]
      same_rest_more [OF H(2)] by (auto simp: s1_def)
  then show thesis using s0(1) s2(1) by (intro that [of s1 s2]) (simp_all add: s1_def)
qed

definition frames_behind :: "'a paging_machine_scheme \<Rightarrow> VirtAddr list \<Rightarrow> u64 set" where
  "frames_behind s vs = pa_align_down ` {p. \<exists>v\<in>set vs. translation s v = Some p}"

definition apart :: "'a paging_machine_scheme \<Rightarrow> VirtAddr \<Rightarrow> VirtAddr \<Rightarrow> bool" where
  "apart s v w \<longleftrightarrow> \<not> same_page s v w \<and> (\<forall>p q. translation s v = Some p \<longrightarrow> translation s w = Some q \<longrightarrow> pa_align_down p \<noteq> pa_align_down q)"

lemma releases_nothing: "paging_ready s \<Longrightarrow> releases s (\<lambda>w. False) {} s"
  by (simp add: releases_def)

lemma unmap_loop_correct:
  assumes "paging_ready s" "\<forall>v\<in>set vs. \<not> huge_mapped s v" "\<forall>f\<in>frames_behind s vs. data_frame s f" "sorted_wrt (apart s) vs"
  shows "\<exists>s'. unmap_loop vs s = (Ok (), s')
     \<and> releases s (\<lambda>w. \<exists>v\<in>set vs. same_page s v w \<and> translation s v \<noteq> None) (frames_behind s vs) s'"
  using assms
proof (induction vs arbitrary: s)
  case Nil
  then show ?case using releases_nothing by (simp add: frames_behind_def)
next
  case (Cons v vs)
  show ?case
  proof (cases "translation s v")
    case None
    have "frames_behind s (v # vs) = frames_behind s vs" using None by (auto simp: frames_behind_def)
    moreover obtain e where "translate_address v s = Err e" using None by (auto simp: translation_def split: sum.splits)
    moreover have "(\<lambda>w. \<exists>v'\<in>set (v # vs). same_page s v' w \<and> translation s v' \<noteq> None) = (\<lambda>w. \<exists>v\<in>set vs. same_page s v w \<and> translation s v \<noteq> None)"
      using None by auto
    ultimately show ?thesis using Cons.IH [of s] Cons.prems by simp
  next
    case (Some p)
    let ?f = "pa_align_down p"
    have d: "data_frame s ?f" "\<not> huge_mapped s v" using Cons.prems(2,3) Some by (auto simp: frames_behind_def)
    obtain s1 s2 where u: "unmap_page v s = (Ok (), s1)" "free_frame ?f s1 = (Ok (), s2)" and R: "releases s (same_page s v) {?f} s2"
      using release_page [OF Cons.prems(1) d(2) Some d(1)] by blast
    have ap: "\<not> same_page s v w" "\<forall>q. translation s w = Some q \<longrightarrow> pa_align_down q \<noteq> ?f" if "w \<in> set vs" for w
      using Cons.prems(4) that Some by (auto simp: apart_def)
    have tr: "translation s2 w = translation s w" if "w \<in> set vs" for w using R ap(1) [OF that] by (simp add: releases_def)
    have fb: "frames_behind s2 vs = frames_behind s vs" by (simp add: frames_behind_def tr cong: bex_cong)
    have sp: "same_page s2 = same_page s" using R by (simp add: releases_def)
    have data: "data_frame s2 f" if f: "f \<in> frames_behind s2 vs" for f
    proof -
      have "f \<noteq> ?f" using f ap(2) fb by (auto simp: frames_behind_def)
      moreover have "data_frame s f" using f fb Cons.prems(3) by (auto simp: frames_behind_def)
      ultimately show ?thesis using R by (auto simp: data_frame_def releases_def)
    qed
    have sw: "sorted_wrt (apart s2) vs"
    proof (rule sorted_wrt_mono_rel)
      show "sorted_wrt (apart s) vs" using Cons.prems(4) by simp
    qed (simp add: apart_def tr sp)
    have "\<exists>s'. unmap_loop vs s2 = (Ok (), s')
       \<and> releases s2 (\<lambda>w. \<exists>v\<in>set vs. same_page s2 v w \<and> translation s2 v \<noteq> None) (frames_behind s2 vs) s'"
      by (rule Cons.IH) (use R Cons.prems(2) data sw in \<open>auto simp: releases_def\<close>)
    then obtain s' where s': "unmap_loop vs s2 = (Ok (), s')"
      "releases s2 (\<lambda>w. \<exists>v\<in>set vs. same_page s2 v w \<and> translation s2 v \<noteq> None) (frames_behind s2 vs) s'" by blast
    have P: "(\<lambda>w. same_page s v w \<or> (\<exists>v\<in>set vs. same_page s2 v w \<and> translation s2 v \<noteq> None))
        = (\<lambda>w. \<exists>v'\<in>set (v # vs). same_page s v' w \<and> translation s v' \<noteq> None)" using Some by (auto simp: sp tr)
    have F: "{?f} \<union> frames_behind s2 vs = frames_behind s (v # vs)" using fb Some by (auto simp: frames_behind_def)
    have "releases s (\<lambda>w. \<exists>v'\<in>set (v # vs). same_page s v' w \<and> translation s v' \<noteq> None) (frames_behind s (v # vs)) s'"
      using releases_trans [OF R s'(2)] unfolding P F .
    moreover have "translate_address v s = Ok p" using Some by (auto simp: translation_def split: sum.splits)
    ultimately show ?thesis using u s'(1) by auto
  qed
qed

text \<open>The loop over the registry only fails when a region has to be split and no slot is left.\<close>

lemma update_slot_ok:
  assumes inv: "regions_inv rs" and i: "i < length rs" and ab: "a < b" and free: "None \<in> set rs"
  shows "\<exists>rs'. update_slot a b i rs = (Ok (), rs') \<and> (None \<in> set rs' \<or> (\<forall>j<length rs. j \<noteq> i \<longrightarrow> \<not> overlaps_slot a b (rs ! j)))"
proof (cases "rs ! i")
  case None
  then show ?thesis using free by (auto simp: update_slot_def)
next
  case r: (Some r)
  have keep: "None \<in> set (rs[i := q])" for q
    using free i r by (metis in_set_conv_nth length_list_update nth_list_update_neq option.distinct(1))
  have "\<not> overlaps_slot a b (rs ! j)" if "vm_start r < a" "b < vm_end r" "j < length rs" "j \<noteq> i" for j
    using inv i r that ab unfolding regions_inv_def by (cases "rs ! j") (fastforce simp: ranges_overlap_def)+
  moreover have "store_region q (rs[i := x]) = None \<longleftrightarrow> False" for q x using keep store_region_None by metis
  note st = this
  ultimately show ?thesis using r keep free by (auto simp: update_slot_def Let_def not_le not_less st split: option.split)
qed


lemma update_regions_ok:
  assumes "regions_inv rs" "\<forall>i\<in>set is. i < length rs" "distinct is" and ab: "page_base a = a" "page_base b = b" "a < b"
    and "None \<in> set rs \<or> (\<forall>j\<in>set is. \<not> overlaps_slot a b (rs ! j))"
  shows "fst (update_regions a b is rs) = Ok ()"
  using assms(1-3,7)
proof (induction "is" arbitrary: rs)
  case (Cons i "is")
  have i: "i < length rs" using Cons.prems(2) by simp
  have "\<exists>rs1. update_slot a b i rs = (Ok (), rs1) \<and> (None \<in> set rs1 \<or> (\<forall>j\<in>set is. \<not> overlaps_slot a b (rs ! j)))"
  proof (cases "None \<in> set rs")
    case True
    then show ?thesis using update_slot_ok [OF Cons.prems(1) i ab(3) True] Cons.prems(2,3) by (metis distinct.simps(2) list.set_intros(2))
  next
    case False
    then show ?thesis using Cons.prems(4) by (cases "rs ! i") (auto simp: update_slot_def)
  qed
  then obtain rs1 where u: "update_slot a b i rs = (Ok (), rs1)" and f: "None \<in> set rs1 \<or> (\<forall>j\<in>set is. \<not> overlaps_slot a b (rs ! j))"
    by blast
  have C: "cut_slot a b i rs rs1" by (rule update_slot_cut [OF Cons.prems(1) i ab u])
  have "None \<in> set rs1 \<or> (\<forall>j\<in>set is. \<not> overlaps_slot a b (rs1 ! j))"
    using f C Cons.prems(2,3) by (auto simp: cut_slot_def)
  then have "fst (update_regions a b is rs1) = Ok ()" using C Cons.prems(2,3) by (intro Cons.IH) (auto simp: cut_slot_def)
  then show ?case using u by simp
qed simp

lemma set_page_addrs:
  assumes a: "page_base a = a" "page_base b = b" "a < b"
  shows "set (page_addrs a b) = {v. a \<le> v \<and> v < b \<and> page_base v = v}" "distinct (page_addrs a b)"
proof -
  let ?n = "(b - a) div 4096"
  have ab: "unat a < unat b" "unat (b - a) = unat b - unat a" using a(3) unat_sub [of a b] by (simp_all add: word_less_nat_alt word_le_nat_alt)
  have am: "unat a mod 4096 = 0" "unat b mod 4096 = 0" using a(1,2) unfolding page_base_unat by simp_all
  have n: "unat ?n * 4096 = unat b - unat a"
    using ab am by (simp add: unat_div mod_eq_0_iff_dvd dvd_diff_nat)
  have ui: "unat (a + i * 4096) = unat a + unat i * 4096" if "i < ?n" for i
  proof -
    have "unat i * 4096 < unat b - unat a" using that n by (metis mult_less_cancel2 word_less_nat_alt zero_less_numeral)
    moreover have "unat b < 2 ^ 64" by (rule unat_u64)
    ultimately show ?thesis by (simp add: unat_word_ariths)
  qed
  have s: "set (page_addrs a b) = (\<lambda>i. a + i * 4096) ` {i. i < ?n}" by (simp add: page_addrs_def set_range_w PAGE_SIZE_def)
  show "set (page_addrs a b) = {v. a \<le> v \<and> v < b \<and> page_base v = v}"
  proof (intro equalityI subsetI)
    fix v assume "v \<in> set (page_addrs a b)"
    then obtain i where i: "i < ?n" "v = a + i * 4096" using s by auto
    have "unat i * 4096 < unat b - unat a" using i(1) n by (metis mult_less_cancel2 word_less_nat_alt zero_less_numeral)
    then have "a \<le> v \<and> v < b" using ui [OF i(1)] i(2) by (simp add: word_le_nat_alt word_less_nat_alt)
    moreover have "page_base v = v" unfolding i(2) by (rule page_base_sum [OF a(1) page_base_mult])
    ultimately show "v \<in> {v. a \<le> v \<and> v < b \<and> page_base v = v}" by simp
  next
    fix v assume "v \<in> {v. a \<le> v \<and> v < b \<and> page_base v = v}"
    then have v: "unat a \<le> unat v" "unat v < unat b" "unat v mod 4096 = 0" by (simp_all add: word_le_nat_alt word_less_nat_alt page_base_unat)
    define i where "i = (v - a) div 4096"
    have va: "unat (v - a) = unat v - unat a" using v(1) unat_sub [of a v] by (simp add: word_le_nat_alt)
    have i4: "unat i * 4096 = unat v - unat a" using v am by (simp add: i_def unat_div va mod_eq_0_iff_dvd dvd_diff_nat)
    then have "unat i < unat ?n" using v n by (metis diff_less_mono mult_less_cancel2)
    then have lt: "i < ?n" by (simp add: word_less_nat_alt)
    have "v = a + i * 4096" using ui [OF lt] i4 v(1) by (simp add: word_unat_eq_iff)
    then show "v \<in> set (page_addrs a b)" using s lt by auto
  qed
  have "inj_on (\<lambda>i. a + i * PAGE_SIZE) (set (range_w 0 ?n))"
    using ui by (intro inj_onI) (auto simp: set_range_w PAGE_SIZE_def word_unat_eq_iff)
  then show "distinct (page_addrs a b)" by (simp add: page_addrs_def distinct_map distinct_range_w PAGE_SIZE_def)
qed

lemma sorted_wrt_all: "distinct xs \<Longrightarrow> \<forall>x\<in>set xs. \<forall>y\<in>set xs. x \<noteq> y \<longrightarrow> P x y \<Longrightarrow> sorted_wrt P xs"
  by (induction xs) auto

lemma low_page_eq:
  assumes "v < 2 ^ 48" "w < 2 ^ 48" "page_base v = v"
  shows "same_page s v w \<longleftrightarrow> page_base w = v"
proof -
  have "unat v = unat v div 4096 * 4096" using unat_page_base [of v] assms(3) by simp
  then show ?thesis unfolding same_page_low [OF assms(1,2)] using unat_page_base [of w] by (auto simp: word_unat_eq_iff)
qed

section \<open>Main results\<close>

lemma REGIONS_more:
  assumes "paging_machine.more s' = paging_machine.more s"
  shows "REGIONS s' = REGIONS s"
  using assms by (cases s; cases s'; simp)

lemma page_base_low: "w < 2 ^ 48 \<Longrightarrow> page_base w < 2 ^ 48"
  using page_base_le [of w] by (rule order_le_less_trans)

lemma low_translation_None:
  assumes "paging_ready s" "w < 2 ^ 48" "translation s (page_base w) = None"
  shows "translation s w = None"
proof -
  have "same_page s (page_base w) w" using low_page_eq [OF page_base_low [OF assms(2)] assms(2)] by (simp add: page_base_idem)
  then have "as_lookup s w = as_lookup s (page_base w)" by (rule as_lookup_same_page)
  moreover have "canonical s (page_base w)" using page_base_low [OF assms(2)] by (rule canonical_low)
  ultimately show ?thesis using assms(3) unfolding translation_None_iff [OF assms(1)] by auto
qed

lemma aligned_le_base:
  assumes "page_base a = a"
  shows "a \<le> page_base w \<longleftrightarrow> a \<le> w"
proof
  assume "a \<le> w"
  then have "unat a div 4096 \<le> unat w div 4096" by (intro div_le_mono) (simp add: word_le_nat_alt)
  then show "a \<le> page_base w" using unat_page_base [of w] unat_page_base [of a] assms by (simp add: word_le_nat_alt)
next
  assume "a \<le> page_base w"
  then show "a \<le> w" using page_base_le [of w] by (rule order_trans)
qed


lemma find_region_range: "find_region v s = Some r \<Longrightarrow> vm_start r \<le> v \<and> v < vm_end r"
  using find_in_SomeD [of v "REGIONS s" r] by (auto simp: find_region_def)

lemma find_region_ok: "regions_inv (REGIONS s) \<Longrightarrow> find_region v s = Some r \<Longrightarrow> region_ok r"
  using find_in_SomeD [of v "REGIONS s" r] by (auto simp: find_region_def regions_inv_def)

text \<open>
  a fault on a page of an anonymous region that is not present, with a free frame and four more
  for tables, all below 128 MiB: it is handled, every address of the page translates into a frame that
  was free and is now full of zeros, with the flags of the region and the present bit, and no other
  translation changes. The frame is neither free nor a table any more.
\<close>

theorem demand_zero_fault_correct:
  assumes rd: "paging_ready s" and r: "find_region v s = Some r" "vm_backing r = ZeroFill" and e: "e AND 1 = 0"
    and nh: "\<not> huge_mapped s (page_base v)" and cv: "canonical s (page_base v)" and idf: "identity_frames s" and enough: "5 \<le> card (avail s)"
    and flags: "mapping_flags (ptf_set (vm_flags r) PRESENT)"
  shows "\<exists>s' f. handle_demand_page_fault v e s = (Ok (), s') \<and> paging_ready s' \<and> REGIONS s' = REGIONS s
     \<and> f \<in> avail s - avail s' \<and> f \<notin> page_tables s'
     \<and> (\<forall>w. translation s' w = (if same_page s v w \<and> canonical s w then Some (f OR va_page_offset w) else translation s w))
     \<and> (\<forall>w. page_flags s' w = (if same_page s v w \<and> canonical s w then Some (ptf_set (vm_flags r) PRESENT AND 0xFFF) else page_flags s w))
     \<and> (\<forall>k<4096. mem s' (f + k) = 0)"
proof -
  have "\<forall>f\<in>avail s. \<forall>m. (\<forall>x. x \<notin> bitmap_area s \<longrightarrow> m x = mem s x) \<longrightarrow>
       (\<exists>m'. fill_page r (page_base v) f m = (Ok (), m') \<and> (\<forall>x. page_base x \<noteq> f \<longrightarrow> m' x = m x) \<and> (\<forall>k<4096. m' (f + k) = 0))"
    using fill_zero_page [OF r(2)] frame_outside(1) [OF rd] idf by (auto simp: identity_frames_def)
  note E = demand_fault_effect [OF rd r(1) e nh cv idf enough flags this]
  show ?thesis
  proof (rule exE [OF E], elim exE conjE)
    fix s' f assume h: "same_space s s'"
    have "paging_ready s'" "REGIONS s' = REGIONS s" using same_spaceD(1) [OF h] REGIONS_more [OF same_spaceD(5) [OF h]] by simp_all
    then show ?thesis if "handle_demand_page_fault v e s = (Ok (), s')" "f \<in> avail s - avail s'" "f \<notin> page_tables s'"
      "\<forall>w. translation s' w = (if same_page s v w \<and> canonical s w then Some (f OR va_page_offset w) else translation s w)"
      "\<forall>w. page_flags s' w = (if same_page s v w \<and> canonical s w then Some (ptf_set (vm_flags r) PRESENT AND 0xFFF) else page_flags s w)"
      "\<forall>k<4096. mem s' (f + k) = 0"
      using that by (intro exI conjI)
  qed
qed

lemma demand_file_fault:
  assumes rd: "paging_ready s" and inv: "regions_inv (REGIONS s)" and r: "find_region v s = Some r" "vm_backing r = FileBacked file"
    and rdr: "file_reader (fb_read_at file) valid storage (fb_file_size file) contents" "valid (fb_ctx file)"
    and st: "\<forall>x\<in>storage (fb_ctx file). page_base x \<notin> avail s \<and> x \<notin> bitmap_area s"
    and off: "off = fb_file_offset file + (page_base v - vm_start r)"
      "unat (fb_file_offset file) + unat (page_base v - vm_start r) + 4096 < 2 ^ 64"
    and e: "e AND 1 = 0" and nh: "\<not> huge_mapped s (page_base v)" and cv: "canonical s (page_base v)"
    and idf: "identity_frames s" and enough: "5 \<le> card (avail s)" and flags: "mapping_flags (ptf_set (vm_flags r) PRESENT)"
  shows "\<exists>s' f. handle_demand_page_fault v e s = (Ok (), s') \<and> paging_ready s' \<and> f \<in> avail s - avail s'
     \<and> (\<forall>w. translation s' w = (if same_page s v w \<and> canonical s w then Some (f OR va_page_offset w) else translation s w))
     \<and> (\<forall>k<4096. mem s' (f + k) = (if off + k < fb_file_size file then contents (fb_ctx file) (mem s) (off + k) else 0))"
proof -
  have base: "vm_start r \<le> page_base v"
    using find_region_range [OF r(1)] find_region_ok [OF inv r(1)] aligned_le_base [of "vm_start r" v] by (simp add: region_ok_def)
  let ?want = "\<lambda>k. if off + k < fb_file_size file then contents (fb_ctx file) (mem s) (off + k) else 0"
  have "\<exists>m'. fill_page r (page_base v) f m = (Ok (), m') \<and> (\<forall>x. page_base x \<noteq> f \<longrightarrow> m' x = m x) \<and> (\<forall>k<4096. m' (f + k) = ?want k)"
    if f: "f \<in> avail s" and m: "\<forall>x. x \<notin> bitmap_area s \<longrightarrow> m x = mem s x" for f m
  proof -
    have "page_base f = f" "f \<noteq> 0" "f < 0x8000000" using frame_outside(1) [OF rd f] idf f by (auto simp: identity_frames_def)
    moreover have "\<forall>x\<in>storage (fb_ctx file). page_base x \<noteq> f" using st f by blast
    moreover have "contents (fb_ctx file) m k = contents (fb_ctx file) (mem s) k" if "k < fb_file_size file" for k
      by (rule file_reader.contents_storage [OF rdr(1,2) _ that]) (use st m in blast)
    ultimately show ?thesis
      using file_reader.fill_file_page [OF rdr(1) r(2) refl refl rdr(2) _ _ _ _ base off(2,1), of f m] by auto
  qed
  then have "\<forall>f\<in>avail s. \<forall>m. (\<forall>x. x \<notin> bitmap_area s \<longrightarrow> m x = mem s x) \<longrightarrow>
       (\<exists>m'. fill_page r (page_base v) f m = (Ok (), m') \<and> (\<forall>x. page_base x \<noteq> f \<longrightarrow> m' x = m x) \<and> (\<forall>k<4096. m' (f + k) = ?want k))"
    by blast
  note E = demand_fault_effect [OF rd r(1) e nh cv idf enough flags this]
  show ?thesis
  proof (rule exE [OF E], elim exE conjE)
    fix s' f assume h: "same_space s s'"
    show ?thesis if "handle_demand_page_fault v e s = (Ok (), s')" "f \<in> avail s - avail s'"
      "\<forall>w. translation s' w = (if same_page s v w \<and> canonical s w then Some (f OR va_page_offset w) else translation s w)"
      "\<forall>k<4096. mem s' (f + k) = ?want k"
      using that same_spaceD(1) [OF h] by (intro exI conjI)
  qed
qed

text \<open>
  the same for a region backed by a file whose callback keeps its contract: byte \<open>k\<close> of the frame is
  byte \<open>k\<close> of the file from the page's position on, and zero behind the end of the file.
\<close>

theorem demand_file_fault_correct:
  assumes rd: "paging_ready s" and inv: "regions_inv (REGIONS s)" and r: "find_region v s = Some r" "vm_backing r = FileBacked file"
    and rdr: "file_reader (fb_read_at file) valid storage (fb_file_size file) contents" "valid (fb_ctx file)"
    and st: "\<forall>x\<in>storage (fb_ctx file). page_base x \<notin> avail s \<and> x \<notin> bitmap_area s"
    and off: "off = fb_file_offset file + (page_base v - vm_start r)"
      "unat (fb_file_offset file) + unat (page_base v - vm_start r) + 4096 < 2 ^ 64"
    and e: "e AND 1 = 0" and nh: "\<not> huge_mapped s (page_base v)" and cv: "canonical s (page_base v)"
    and idf: "identity_frames s" and enough: "5 \<le> card (avail s)" and flags: "mapping_flags (ptf_set (vm_flags r) PRESENT)"
  shows "\<exists>s' f. handle_demand_page_fault v e s = (Ok (), s') \<and> paging_ready s' \<and> f \<in> avail s - avail s'
     \<and> (\<forall>w. translation s' w = (if same_page s v w \<and> canonical s w then Some (f OR va_page_offset w) else translation s w))
     \<and> (\<forall>k<4096. mem s' (f + k) = (if off + k < fb_file_size file then contents (fb_ctx file) (mem s) (off + k) else 0))"
  using assms by (rule demand_file_fault)

text \<open>The position in the file an address of a region is read from.\<close>

definition file_position :: "FileBacking \<Rightarrow> VmRegion \<Rightarrow> u64 \<Rightarrow> u64" where
  "file_position file r x = fb_file_offset file + (page_base x - vm_start r)"

text \<open>
  a region backed by a file, shrunk from the front by \<^verbatim>\<open>munmap\<close>: the registry keeps the file offset
  but moves the start, so each address left in the region is read from a position in the file that is
  lower by the length of the part cut off.
\<close>

theorem munmap_front_moves_file:
  assumes inv: "regions_inv rs" and i: "i < length rs" "rs ! i = Some r" "vm_backing r = FileBacked file"
    and ab: "page_base a = a" "page_base b = b" "a \<le> vm_start r" "vm_start r < b" "b < vm_end r" and x: "b \<le> x" "x < vm_end r"
  shows "\<exists>rs' r'. update_slot a b i rs = (Ok (), rs') \<and> find_in x rs = Some r \<and> find_in x rs' = Some r'
     \<and> vm_backing r' = FileBacked file \<and> file_position file r' x = file_position file r x - (b - vm_start r)"
proof -
  let ?q = "r\<lparr>vm_start := b\<rparr>"
  have u: "update_slot a b i rs = (Ok (), rs[i := Some ?q])"
    using i ab by (auto simp: update_slot_def ranges_overlap_def not_le)
  have ok: "region_ok r" using inv i unfolding regions_inv_def by blast
  have q: "Some ?q = None \<or> (\<exists>q'. Some ?q = Some q' \<and> region_ok q' \<and> vm_start r \<le> vm_start q' \<and> vm_end q' \<le> vm_end r
       \<and> vm_flags q' = vm_flags r \<and> vm_backing q' = vm_backing r)"
    using ok ab by (auto simp: region_ok_def)
  have "find_in x rs = Some r" using find_in_eq [OF inv i(1,2)] x ab(4) by simp
  moreover have "find_in x (rs[i := Some ?q]) = Some ?q"
    using find_in_eq [OF update_slot_replace(1) [OF inv i(1,2) q], of i ?q] i x by simp
  moreover have "file_position file ?q x = file_position file r x - (b - vm_start r)" by (simp add: file_position_def)
  ultimately show ?thesis using u i(3) by auto
qed

text \<open>
  C19: \<^verbatim>\<open>mmap\<close> adds one region to the map of regions, from the start of the first page to the end of the
  last page of the request, with the given flags and backing, and nothing else; it refuses a request
  that is empty, overflows, has an unaligned file offset, or overlaps a region, and then changes
  nothing. The registry stays well-formed.
\<close>

theorem mmap_correct:
  assumes inv: "regions_inv (REGIONS s)"
  shows "case mmap start bytes flags backing s of
     (Ok a, s') \<Rightarrow> a = page_base start \<and> 0 < bytes \<and> regions_inv (REGIONS s')
        \<and> s' = s\<lparr>REGIONS := REGIONS s'\<rparr> \<and> (\<forall>x. a \<le> x \<and> x < dp_align_up (start + bytes) \<longrightarrow> region_map (REGIONS s) x = None)
        \<and> (\<forall>x. unat (x - start) < unat bytes \<longrightarrow> a \<le> x \<and> x < dp_align_up (start + bytes))
        \<and> region_map (REGIONS s') = (\<lambda>x. if a \<le> x \<and> x < dp_align_up (start + bytes) then Some (flags, backing) else region_map (REGIONS s) x)
   | (Err e, s') \<Rightarrow> s' = s"
proof (cases "mmap start bytes flags backing s")
  case (Pair q s')
  show ?thesis
  proof (cases q)
    case (Inl e)
    then show ?thesis using Pair by (auto simp: mmap_def Let_def split: if_splits option.splits)
  next
    case (Inr a)
    let ?e = "dp_align_up (start + bytes)"
    let ?r = "\<lparr>vm_start = page_base start, vm_end = ?e, vm_flags = flags, vm_backing = backing\<rparr>"
    obtain rs' where m: "a = page_base start" "bytes \<noteq> 0" "page_base start < ?e \<and> start \<le> start + bytes" "\<not> list_ex (overlaps_slot (page_base start) ?e) (REGIONS s)"
      "store_region ?r (REGIONS s) = Some rs'" "s' = s\<lparr>REGIONS := rs'\<rparr>"
      using Pair Inr by (auto simp: mmap_def Let_def dp_align_down_base checked_add_def not_le split: if_splits option.splits)
    obtain i where i: "i < length (REGIONS s)" "REGIONS s ! i = None" "rs' = (REGIONS s)[i := Some ?r]" using store_region_Some [OF m(5)] by blast
    note cov = request_covered [OF conjunct2 [OF m(3)] conjunct1 [OF m(3)]]
    have free: "\<not> overlaps_slot (page_base start) ?e (REGIONS s ! j)" if "j < length (REGIONS s)" for j
      using m(4) that by (auto simp: list_ex_iff)
    have inv': "regions_inv rs'"
      unfolding i(3) using m(3) free dp_align_up_aligned by (intro regions_inv_update [OF inv i(1)]) (auto simp: region_ok_def page_base_idem)
    have "\<not> in_slot x (REGIONS s ! j)" if "page_base start \<le> x" "x < ?e" "j < length (REGIONS s)" for x j
      using free [OF that(3)] overlaps_common [of x ?r] that by auto
    then have none: "region_map (REGIONS s) x = None" if "page_base start \<le> x" "x < ?e" for x
      using that find_in_None [of x "REGIONS s"] by (simp add: region_map_def)
    have "region_map rs' x = (if page_base start \<le> x \<and> x < ?e then Some (flags, backing) else region_map (REGIONS s) x)" for x
      using find_in_update [OF inv inv' [unfolded i(3)] i(1), of x] i by (simp add: region_map_def)
    then show ?thesis using Pair Inr m(1,2,6) inv' none cov by (auto simp: word_gt_0)
  qed
qed

text \<open>The demonstration machine with one region of two pages.\<close>

definition demo_region :: "BackingKind \<Rightarrow> VmRegion" where
  "demo_region k = \<lparr>vm_start = 0x400000, vm_end = 0x402000, vm_flags = 2, vm_backing = k\<rparr>"

definition demo_demand :: "BackingKind \<Rightarrow> demand_machine" where
  "demo_demand k = cow_machine.extend (demo_cow 0) (demand_machine.fields [Some (demo_region k), None])"

lemma demo_demand_fields [simp]:
  "mem (demo_demand k) = mem demo_paging" "PMM_INSTANCE (demo_demand k) = PMM_INSTANCE demo_paging"
  "PAGING_MANAGER (demo_demand k) = PAGING_MANAGER demo_paging" "REGIONS (demo_demand k) = [Some (demo_region k), None]"
  by (simp_all add: demo_demand_def cow_machine.defs demand_machine.defs)

lemmas demo_demand_as = address_space_cong [OF demo_demand_fields(1-3)]

lemma fault_base: "page_base 0x400123 = 0x400000" by (simp add: page_base_def)

lemma demo_demand_ready:
  "paging_ready (demo_demand k)" "identity_frames (demo_demand k)" "5 \<le> card (avail (demo_demand k))" "\<not> huge_mapped (demo_demand k) 0x400000"
  "canonical (demo_demand k) 0x400000" "regions_inv (REGIONS (demo_demand k))" "find_region 0x400123 (demo_demand k) = Some (demo_region k)"
  "mapping_flags (ptf_set (vm_flags (demo_region k)) PRESENT)"
proof -
  show "regions_inv (REGIONS (demo_demand k))"
    by (auto simp: regions_inv_def region_ok_def demo_region_def page_base_def less_Suc_eq)
  show "identity_frames (demo_demand k)" by (simp add: identity_frames_def demo_demand_as demo_avail)
  show "mapping_flags (ptf_set (vm_flags (demo_region k)) PRESENT)"
    by (simp add: demo_region_def mapping_flags_def ptf_set_def PRESENT_def ADDRESS_MASK_def ptf_contains_def)
qed (simp_all add: demo_demand_as demo_paging_ready demo_low demo_not_huge demo_canonical va_is_canonical_la48_def find_region_def
    demo_region_def page_base_def)

lemma demo_same_page: "same_page (demo_demand k) 0x400123 0x400000" "canonical (demo_demand k) 0x400123"
  by (simp_all add: same_page_def demo_demand_as demo_canonical demo_as va_is_canonical_la48_def)

theorem demand_zero_fault_correct_witness:
  "\<exists>s' f. handle_demand_page_fault 0x400123 2 (demo_demand ZeroFill) = (Ok (), s') \<and> translation s' 0x400000 = Some f \<and> mem s' (f + 5) = 0"
proof -
  note D = demo_demand_ready [of ZeroFill]
  have "vm_backing (demo_region ZeroFill) = ZeroFill" "(2 :: u64) AND 1 = 0" by (simp_all add: demo_region_def)
  from demand_zero_fault_correct [OF D(1,7) this D(4) [folded fault_base] D(5) [folded fault_base] D(2,3,8)]
  obtain s' f where h: "handle_demand_page_fault 0x400123 2 (demo_demand ZeroFill) = (Ok (), s')"
    "\<forall>w. translation s' w = (if same_page (demo_demand ZeroFill) 0x400123 w \<and> canonical (demo_demand ZeroFill) w then Some (f OR va_page_offset w) else translation (demo_demand ZeroFill) w)"
    "\<forall>k<4096. mem s' (f + k) = 0" by (elim exE conjE)
  have "translation s' 0x400000 = Some f" using h(2) demo_same_page D(5) by (simp add: va_page_offset_def)
  moreover have "mem s' (f + 5) = 0" using h(3) by simp
  ultimately show ?thesis using h(1) by blast
qed

definition demo_file :: FileBacking where
  "demo_file = \<lparr>fb_ctx = 0x5000, fb_read_at = mmap_test_read_at, fb_file_offset = 0, fb_file_size = 32\<rparr>"

theorem demand_file_fault_correct_witness:
  "\<exists>s' f. handle_demand_page_fault 0x400123 0 (demo_demand (FileBacked demo_file)) = (Ok (), s') \<and> translation s' 0x400000 = Some f
     \<and> mem s' (f + 7) = mem demo_paging 0x5007 \<and> mem s' (f + 40) = 0"
proof -
  let ?s = "demo_demand (FileBacked demo_file)"
  note D = demo_demand_ready [of "FileBacked demo_file"]
  have r: "vm_backing (demo_region (FileBacked demo_file)) = FileBacked demo_file" "(0 :: u64) AND 1 = 0" by (simp_all add: demo_region_def)
  have rdr: "file_reader (fb_read_at demo_file) (\<lambda>c. c \<noteq> 0) (\<lambda>c. {x. in_bytes c 32 x}) (fb_file_size demo_file) (\<lambda>c m k. m (c + k))" "fb_ctx demo_file \<noteq> 0"
    using test_file.file_reader_axioms by (simp_all add: demo_file_def)
  have "page_base x = 0x5000" if "in_bytes 0x5000 32 x" for x
    using that in_page_iff [of "0x5000" x] by (simp add: in_bytes_def page_base_def)
  moreover have "bitmap_area ?s \<subseteq> {0x1000, 0x1001}" using demo_bitmap_area by (simp add: bitmap_area_def)
  moreover have "page_base 0x1000 = 0x1000" "page_base 0x1001 = 0x1000" by (simp_all add: page_base_def)
  ultimately have st: "\<forall>x\<in>{x. in_bytes (fb_ctx demo_file) 32 x}. page_base x \<notin> avail ?s \<and> x \<notin> bitmap_area ?s"
    by (fastforce simp: demo_file_def demo_demand_as demo_avail)
  have off: "(0 :: u64) = fb_file_offset demo_file + (page_base 0x400123 - vm_start (demo_region (FileBacked demo_file)))"
    "unat (fb_file_offset demo_file) + unat (page_base 0x400123 - vm_start (demo_region (FileBacked demo_file))) + 4096 < 2 ^ 64"
    by (simp_all add: demo_file_def demo_region_def fault_base)
  from demand_file_fault_correct [OF D(1,6,7) r(1) rdr st off r(2) D(4) [folded fault_base] D(5) [folded fault_base] D(2,3,8)]
  obtain s' f where h: "handle_demand_page_fault 0x400123 0 ?s = (Ok (), s')"
    "\<forall>w. translation s' w = (if same_page ?s 0x400123 w \<and> canonical ?s w then Some (f OR va_page_offset w) else translation ?s w)"
    "\<forall>k<4096. mem s' (f + k) = (if 0 + k < fb_file_size demo_file then mem ?s (fb_ctx demo_file + (0 + k)) else 0)" by (elim exE conjE)
  have "translation s' 0x400000 = Some f" using h(2) demo_same_page D(5) by (simp add: va_page_offset_def)
  moreover have "mem s' (f + 7) = mem demo_paging 0x5007" "mem s' (f + 40) = 0" using h(3) by (simp_all add: demo_file_def)
  ultimately show ?thesis using h(1) by blast
qed

theorem mmap_correct_witness:
  "\<exists>s'. mmap 0x500010 0x1000 2 ZeroFill (demo_demand ZeroFill) = (Ok 0x500000, s') \<and> region_map (REGIONS s') 0x501FFF = Some (2, ZeroFill)
     \<and> region_map (REGIONS s') 0x400000 = region_map (REGIONS (demo_demand ZeroFill)) 0x400000"
proof -
  have m: "fst (mmap 0x500010 0x1000 2 ZeroFill (demo_demand ZeroFill)) = Ok 0x500000"
    by (simp add: mmap_def dp_align_down_def dp_align_up_def PAGE_SIZE_def checked_add_def ranges_overlap_def demo_region_def)
  then obtain s' where s': "mmap 0x500010 0x1000 2 ZeroFill (demo_demand ZeroFill) = (Ok 0x500000, s')" by (metis prod.collapse)
  have e: "dp_align_up 0x501010 = 0x502000" by (simp add: dp_align_up_def PAGE_SIZE_def)
  show ?thesis using mmap_correct [OF demo_demand_ready(6) [of ZeroFill], of "0x500010" "0x1000" 2 ZeroFill] s' by (simp add: e)
qed

theorem munmap_front_moves_file_witness:
  "\<exists>rs' r'. update_slot 0x400000 0x401000 0 (REGIONS (demo_demand (FileBacked demo_file))) = (Ok (), rs')
     \<and> find_in 0x401000 rs' = Some r' \<and> file_position demo_file r' 0x401000 = 0
     \<and> file_position demo_file (demo_region (FileBacked demo_file)) 0x401000 = 0x1000"
proof -
  let ?r = "demo_region (FileBacked demo_file)"
  have "0 < length (REGIONS (demo_demand (FileBacked demo_file)))" "REGIONS (demo_demand (FileBacked demo_file)) ! 0 = Some ?r"
    "vm_backing ?r = FileBacked demo_file" "page_base 0x400000 = 0x400000" "page_base 0x401000 = 0x401000" "0x400000 \<le> vm_start ?r"
    "vm_start ?r < 0x401000" "0x401000 < vm_end ?r" "(0x401000 :: u64) \<le> 0x401000" "0x401000 < vm_end ?r"
    by (simp_all add: demo_region_def page_base_def)
  from munmap_front_moves_file [OF demo_demand_ready(6) this] show ?thesis
    by (auto simp: file_position_def demo_file_def demo_region_def page_base_def)
qed



end
