(* ===== verification/Page_Fault.thy ===== *)
theory Page_Fault
  imports Demand_Correct
begin

text \<open>
  Page faults end to end: the handler of \<^verbatim>\<open>idt/handlers.rs\<close>, which tries demand paging and copy-on-write, and the
  exception handler of \<^verbatim>\<open>main.rs\<close>, which looks for stack overflows in the guard page registry. \<^verbatim>\<open>CR2\<close> is an argument; what the
  handlers print is left out.
\<close>

unbundle bit_operations_syntax

section \<open>The page fault handler of the interrupt module\<close>

text \<open>The handler returns to the faulting instruction or halts the processor.\<close>

datatype fault_outcome = Resumed | Halted

definition resumed_if_ok :: "(string, unit) result \<times> 's \<Rightarrow> fault_outcome \<times> 's" where
  "resumed_if_ok = apfst (\<lambda>r. if r = Ok () then Resumed else Halted)"

definition handle_page_fault :: "u64 \<Rightarrow> u64 \<Rightarrow> 'a demand_machine_scheme \<Rightarrow> fault_outcome \<times> 'a demand_machine_scheme" where
  "handle_page_fault faulting_addr error_code s =
     (let present = error_code AND 1 \<noteq> 0;
          wr = error_code AND 2 \<noteq> 0;
          reserved = error_code AND 8 \<noteq> 0;
          (demand, s) = (if \<not> present \<and> \<not> reserved then resumed_if_ok (handle_demand_page_fault faulting_addr error_code s) else (Halted, s))
      in if demand = Resumed then (Resumed, s)
         else if present \<and> wr \<and> \<not> reserved then
           (case get_page_flags faulting_addr s of
              Ok flags \<Rightarrow> if is_cow_page flags then resumed_if_ok (handle_cow_fault faulting_addr s) else (Halted, s)
            | Err e \<Rightarrow> (Halted, s))
         else (Halted, s))"

definition idt_exception_handler :: "u64 \<Rightarrow> u64 \<Rightarrow> u64 \<Rightarrow> 'a demand_machine_scheme \<Rightarrow> fault_outcome \<times> 'a demand_machine_scheme" where
  "idt_exception_handler vector error_code cr2 s = (if vector = 14 then handle_page_fault cr2 error_code s else (Halted, s))"

section \<open>The exception handler of the kernel\<close>

text \<open>What the handler reports before it halts. Names end with a NUL, as the strings of the kernel do.\<close>

datatype halt_report = StackOverflow u64 | PageFault u64 u64 | CpuException string u64 u64

definition exception_name :: "u64 \<Rightarrow> string" where
  "exception_name vector =
     (if vector = 0 then ''Divide Error'' else if vector = 1 then ''Debug'' else if vector = 2 then ''NMI''
      else if vector = 3 then ''Breakpoint'' else if vector = 4 then ''Overflow'' else if vector = 5 then ''Bound Range''
      else if vector = 6 then ''Invalid Opcode'' else if vector = 7 then ''Device Not Available'' else if vector = 8 then ''Double Fault''
      else if vector = 10 then ''Invalid TSS'' else if vector = 11 then ''Segment Not Present'' else if vector = 12 then ''Stack Fault''
      else if vector = 13 then ''General Protection Fault'' else if vector = 14 then ''Page Fault'' else if vector = 16 then ''FPU Error''
      else if vector = 17 then ''Alignment Check'' else if vector = 18 then ''Machine Check'' else if vector = 19 then ''SIMD Exception''
      else if vector = 20 then ''Virtualization'' else if vector = 21 then ''Control Protection'' else ''Unknown'') @ [CHR 0x00]"

definition exception_handler :: "u64 \<Rightarrow> u64 \<Rightarrow> u64 \<Rightarrow> 'a guard_machine_scheme \<Rightarrow> halt_report" where
  "exception_handler vector error_code cr2 s =
     (if vector = 14 then
        let is_not_present = (error_code AND 1 = 0)
        in if is_not_present \<and> guard_page_is_guard_page cr2 s \<noteq> 0 then StackOverflow cr2 else PageFault cr2 error_code
      else CpuException (exception_name vector) vector error_code)"

section \<open>The handlers and the memory they repair\<close>

text \<open>
  a fault on a page that is not present, in an anonymous region, with frames to spare: the handler resumes, and
  when the instruction is tried again its address translates into a frame of zeros that was free, with the flags
  of the region; a fault outside all regions halts and changes nothing.
\<close>

theorem anonymous_fault_resumes:
  assumes rd: "paging_ready s" and e: "e AND 1 = 0" "e AND 8 = 0"
    and nh: "\<not> huge_mapped s (page_base v)" and cv: "canonical s (page_base v)" "canonical s v" and idf: "identity_frames s" and enough: "5 \<le> card (avail s)"
    and r: "\<And>r. find_region v s = Some r \<Longrightarrow> vm_backing r = ZeroFill \<and> mapping_flags (ptf_set (vm_flags r) PRESENT)"
  shows "case find_region v s of
       None \<Rightarrow> handle_page_fault v e s = (Halted, s)
     | Some r \<Rightarrow> \<exists>s' f. handle_page_fault v e s = (Resumed, s') \<and> paging_ready s' \<and> f \<in> avail s
          \<and> translation s' v = Some (f OR va_page_offset v) \<and> page_flags s' v = Some (ptf_set (vm_flags r) PRESENT AND 0xFFF)
          \<and> mem s' (f OR va_page_offset v) = 0
          \<and> (\<forall>w. \<not> same_page s v w \<longrightarrow> translation s' w = translation s w)"
proof (cases "find_region v s")
  case None
  then show ?thesis using e by (simp add: handle_page_fault_def resumed_if_ok_def handle_demand_page_fault_def)
next
  case (Some r)
  note R = assms(9) [OF Some]
  have "\<forall>f\<in>avail s. \<forall>m. (\<forall>x. x \<notin> bitmap_area s \<longrightarrow> m x = mem s x) \<longrightarrow>
       (\<exists>m'. fill_page r (page_base v) f m = (Ok (), m') \<and> (\<forall>x. page_base x \<noteq> f \<longrightarrow> m' x = m x) \<and> (\<forall>k<4096. m' (f + k) = 0))"
    using fill_zero_page [OF conjunct1 [OF R]] frame_outside(1) [OF rd] idf by (auto simp: identity_frames_def)
  note E = demand_fault_effect [OF rd Some e(1) nh cv(1) idf enough conjunct2 [OF R] this]
  show ?thesis
  proof (rule exE [OF E], elim exE conjE)
    fix s' f
    assume h: "handle_demand_page_fault v e s = (Ok (), s')" "same_space s s'" "f \<in> avail s - avail s'"
      and t: "\<forall>w. translation s' w = (if same_page s v w \<and> canonical s w then Some (f OR va_page_offset w) else translation s w)"
      and g: "\<forall>w. page_flags s' w = (if same_page s v w \<and> canonical s w then Some (ptf_set (vm_flags r) PRESENT AND 0xFFF) else page_flags s w)"
      and m: "\<forall>k<4096. mem s' (f + k) = 0"
    have "handle_page_fault v e s = (Resumed, s')" using h(1) e by (simp add: handle_page_fault_def resumed_if_ok_def)
    moreover have "f OR va_page_offset v = f + va_page_offset v" "va_page_offset v < 4096"
      using page_base_add(2) [OF frame_outside(1) [OF rd, of f] page_offset_less, of v] page_offset_less [of v] h(3) by (simp_all add: va_page_offset_def word_less_nat_alt)
    moreover have "same_page s v v" by (simp add: same_page_def)
    ultimately show ?thesis using Some h t g m cv(2) same_spaceD(1) [OF h(2)] by auto
  qed
qed

text \<open>
  C22: a write to a present copy-on-write page, with a free frame for the copy: the handler resumes exactly when the
  faulting address is the first byte of the page, and then the page is writable; elsewhere in the page it halts.
\<close>

theorem cow_write_fault:
  assumes rd: "paging_ready s" and nh: "\<not> huge_mapped s v" and low: "low_memory s" and av: "avail s \<noteq> {}"
    and fl: "page_flags s v = Some fl" "is_cow_page fl" and p: "translation s v = Some p"
    and used: "p \<notin> avail s" "\<forall>x. page_base x = p \<longrightarrow> x \<notin> bitmap_area s"
    and e: "e AND 1 \<noteq> 0" "e AND 2 \<noteq> 0" "e AND 8 = 0" and h: "handle_page_fault v e s = (q, s')"
  shows "(q = Resumed \<longleftrightarrow> v AND 0xFFF = 0) \<and> (q = Resumed \<longrightarrow> page_flags s' v = Some (private_flags_of fl))"
proof -
  have u: "handle_page_fault v e s = resumed_if_ok (handle_cow_fault v s)"
    using e fl by (simp add: handle_page_fault_def page_flags_Some Let_def)
  have cv: "same_page s v v \<and> canonical s v" using page_frame(3) [OF rd nh p] by (simp add: same_page_def)
  have ok: "\<exists>s'. handle_cow_fault v s = (Ok (), s') \<and> page_flags s' v = Some (private_flags_of fl)" if v: "v AND 0xFFF = 0"
  proof (cases "get_refcount p s \<le> 1")
    case True
    show ?thesis by (rule cow_fault_in_place [OF rd nh v fl p True]) (use cv in auto)
  next
    case False
    show ?thesis by (rule cow_fault_copy [OF rd nh v low fl p used False av]) (use cv in auto)
  qed
  have bad: "fst (handle_cow_fault v s) \<noteq> Ok ()" if v: "v AND 0xFFF \<noteq> 0"
  proof -
    have pa: "\<not> pa_is_aligned p" using page_frame(1) [OF rd nh p] v by blast
    have "paging_ready (snd (dec_refcount p s))" "\<not> huge_mapped (snd (dec_refcount p s)) v" using rd nh by (simp_all add: dec_space)
    then have "fst (remap_page v p (private_flags_of fl) (snd (dec_refcount p s))) \<noteq> Ok ()" using remap_page_refused [of _ v p] pa by (metis fst_conv Inl_Inr_False)
    then show ?thesis using pa by (auto simp: handle_cow_fault_unfold [OF fl p] copy_page_def split: prod.split)
  qed
  show ?thesis
    using ok bad h u by (cases "handle_cow_fault v s") (force simp: resumed_if_ok_def)
qed

theorem cow_write_fault_witness:
  "\<exists>s s' :: demand_machine. handle_page_fault 0x400000 7 s = (Resumed, s') \<and> page_flags s' 0x400000 = Some 3"
proof -
  obtain c :: cow_machine where c: "paging_ready c" "low_memory c" "translation c 0x400000 = Some 0x7000" "page_flags c 0x400000 = Some 0x201"
    "\<And>w. \<not> huge_mapped c w" "0x7000 \<notin> avail c" "\<forall>x. page_base x = 0x7000 \<longrightarrow> x \<notin> bitmap_area c" "5 \<le> card (avail c)"
    by (rule demo_cow_mapped [OF demo_flags(3,4)]) blast
  define s where "s = cow_machine.extend c (demand_machine.fields [])"
  have fields: "mem s = mem c" "PMM_INSTANCE s = PMM_INSTANCE c" "PAGING_MANAGER s = PAGING_MANAGER c"
    by (simp_all add: s_def cow_machine.defs demand_machine.defs)
  note A = address_space_cong [OF fields]
  have "bitmap_area s = bitmap_area c" by (simp add: bitmap_area_def fields)
  moreover have "page_flags s = page_flags c" by (rule page_flags_cong [OF fields(1,3)])
  moreover have "avail s \<noteq> {}" using c(8) A(1) by auto
  ultimately have h: "paging_ready s" "\<not> huge_mapped s 0x400000" "low_memory s" "avail s \<noteq> {}" "page_flags s 0x400000 = Some 0x201" "is_cow_page 0x201"
    "translation s 0x400000 = Some 0x7000" "0x7000 \<notin> avail s" "\<forall>x. page_base x = 0x7000 \<longrightarrow> x \<notin> bitmap_area s"
    "(7 :: u64) AND 1 \<noteq> 0" "(7 :: u64) AND 2 \<noteq> 0" "(7 :: u64) AND 8 = 0"
    using c A demo_flags(5) by simp_all
  obtain q s' where "handle_page_fault 0x400000 7 s = (q, s')" by fastforce
  with cow_write_fault [OF h this] show ?thesis using demo_flags(6) by auto
qed



theorem anonymous_fault_resumes_witness:
  "\<exists>s' f. handle_page_fault 0x400123 2 (demo_demand ZeroFill) = (Resumed, s') \<and> translation s' 0x400123 = Some (f OR 0x123) \<and> mem s' (f OR 0x123) = 0"
proof -
  note D = demo_demand_ready [of ZeroFill]
  have "vm_backing r = ZeroFill \<and> mapping_flags (ptf_set (vm_flags r) PRESENT)" if "find_region 0x400123 (demo_demand ZeroFill) = Some r" for r
    using that D(7,8) by (auto simp: demo_region_def)
  moreover have "(2 :: u64) AND 1 = 0" "(2 :: u64) AND 8 = 0" by simp_all
  ultimately show ?thesis
    using anonymous_fault_resumes [OF D(1) _ _ D(4) [folded fault_base] D(5) [folded fault_base] demo_same_page(2) D(2,3), of 2] D(7)
    by (simp add: va_page_offset_def) blast
qed

end
