(* ===== verification/Ext4_Disk.thy ===== *)
theory Ext4_Disk
  imports Prelude
begin

text \<open>
  The structures of an ext4 filesystem and of its journal as they lie on disk, \<^verbatim>\<open>drivers/ext4journaling/ext4journaling.rs\<close>: layouts
  of the packed structures, their fields and the methods on them, the constants and the error values.
\<close>

unbundle bit_operations_syntax

section \<open>Bytes\<close>

type_synonym bytes = "u8 list"

definition sub_bytes :: "bytes \<Rightarrow> nat \<Rightarrow> nat \<Rightarrow> bytes" where
  "sub_bytes b i n = take n (drop i b)"

text \<open>\<^verbatim>\<open>ptr::copy_nonoverlapping\<close> of \<open>new\<close> into a buffer at \<open>i\<close>, where it fits.\<close>

definition overwrite :: "bytes \<Rightarrow> nat \<Rightarrow> bytes \<Rightarrow> bytes" where
  "overwrite b i new = take i b @ new @ drop (i + length new) b"

definition le_word :: "bytes \<Rightarrow> 'a::len word" where
  "le_word b = foldr (\<lambda>x acc. ucast x OR push_bit 8 acc) b 0"

primrec to_le :: "nat \<Rightarrow> 'a::len word \<Rightarrow> bytes" where
  "to_le 0 w = []"
| "to_le (Suc n) w = ucast w # to_le n (drop_bit 8 w)"

section \<open>Packed structures\<close>

text \<open>
  The structures on disk are \<^verbatim>\<open>repr(C, packed)\<close> and are only ever copied byte for byte, so a value is the list of
  its bytes. A layout names the fields in order with their sizes; a field is read little-endian at its offset.
\<close>

type_synonym layout = "(string \<times> nat) list"

definition size_of :: "layout \<Rightarrow> nat" where
  "size_of l = sum_list (map snd l)"

fun offset_of :: "layout \<Rightarrow> string \<Rightarrow> nat" where
  "offset_of [] f = 0"
| "offset_of ((g, n) # l) f = (if g = f then 0 else n + offset_of l f)"

fun width_of :: "layout \<Rightarrow> string \<Rightarrow> nat" where
  "width_of [] f = 0"
| "width_of ((g, n) # l) f = (if g = f then n else width_of l f)"

definition field_bytes :: "layout \<Rightarrow> string \<Rightarrow> bytes \<Rightarrow> bytes" where
  "field_bytes l f b = sub_bytes b (offset_of l f) (width_of l f)"

definition field :: "layout \<Rightarrow> string \<Rightarrow> bytes \<Rightarrow> 'a::len word" where
  "field l f b = le_word (field_bytes l f b)"

definition set_field :: "layout \<Rightarrow> string \<Rightarrow> 'a::len word \<Rightarrow> bytes \<Rightarrow> bytes" where
  "set_field l f w b = overwrite b (offset_of l f) (to_le (width_of l f) w)"

definition zeroed :: "layout \<Rightarrow> bytes" where
  "zeroed l = replicate (size_of l) 0"

definition Ext4Superblock :: layout where
  "Ext4Superblock =
    [(''s_inodes_count'', 4), (''s_blocks_count_lo'', 4), (''s_r_blocks_count_lo'', 4), (''s_free_blocks_count_lo'', 4),
     (''s_free_inodes_count'', 4), (''s_first_data_block'', 4), (''s_log_block_size'', 4), (''s_log_cluster_size'', 4),
     (''s_blocks_per_group'', 4), (''s_clusters_per_group'', 4), (''s_inodes_per_group'', 4), (''s_mtime'', 4),
     (''s_wtime'', 4), (''s_mnt_count'', 2), (''s_max_mnt_count'', 2), (''s_magic'', 2), (''s_state'', 2),
     (''s_errors'', 2), (''s_minor_rev_level'', 2), (''s_lastcheck'', 4), (''s_checkinterval'', 4), (''s_creator_os'', 4),
     (''s_rev_level'', 4), (''s_def_resuid'', 2), (''s_def_resgid'', 2), (''s_first_ino'', 4), (''s_inode_size'', 2),
     (''s_block_group_nr'', 2), (''s_feature_compat'', 4), (''s_feature_incompat'', 4), (''s_feature_ro_compat'', 4),
     (''s_uuid'', 16), (''s_volume_name'', 16), (''s_last_mounted'', 64), (''s_algorithm_usage_bitmap'', 4),
     (''s_prealloc_blocks'', 1), (''s_prealloc_dir_blocks'', 1), (''s_reserved_gdt_blocks'', 2), (''s_journal_uuid'', 16),
     (''s_journal_inum'', 4), (''s_journal_dev'', 4), (''s_last_orphan'', 4), (''s_hash_seed'', 4 * 4),
     (''s_def_hash_version'', 1), (''s_jnl_backup_type'', 1), (''s_desc_size'', 2), (''s_default_mount_opts'', 4),
     (''s_first_meta_bg'', 4), (''s_mkfs_time'', 4), (''s_jnl_blocks'', 4 * 17), (''s_blocks_count_hi'', 4),
     (''s_r_blocks_count_hi'', 4), (''s_free_blocks_count_hi'', 4), (''s_min_extra_isize'', 2), (''s_want_extra_isize'', 2),
     (''s_flags'', 4), (''s_raid_stride'', 2), (''s_mmp_interval'', 2), (''s_mmp_block'', 8), (''s_raid_stripe_width'', 4),
     (''s_log_groups_per_flex'', 1), (''s_checksum_type'', 1), (''s_reserved_pad'', 2), (''s_kbytes_written'', 8),
     (''s_snapshot_inum'', 4), (''s_snapshot_id'', 4), (''s_snapshot_r_blocks_count'', 8), (''s_snapshot_list'', 4),
     (''s_error_count'', 4), (''s_first_error_time'', 4), (''s_first_error_ino'', 4), (''s_first_error_block'', 8),
     (''s_first_error_func'', 32), (''s_first_error_line'', 4), (''s_last_error_time'', 4), (''s_last_error_ino'', 4),
     (''s_last_error_line'', 4), (''s_last_error_block'', 8), (''s_last_error_func'', 32), (''s_mount_opts'', 64),
     (''s_usr_quota_inum'', 4), (''s_grp_quota_inum'', 4), (''s_overhead_blocks'', 4), (''s_backup_bgs'', 4 * 2),
     (''s_encrypt_algos'', 4), (''s_encrypt_pw_salt'', 16), (''s_lpf_ino'', 4), (''s_prj_quota_inum'', 4),
     (''s_checksum_seed'', 4), (''s_reserved'', 4 * 98), (''s_checksum'', 4)]"

definition Ext4GroupDesc :: layout where
  "Ext4GroupDesc =
    [(''bg_block_bitmap_lo'', 4), (''bg_inode_bitmap_lo'', 4), (''bg_inode_table_lo'', 4), (''bg_free_blocks_count_lo'', 2),
     (''bg_free_inodes_count_lo'', 2), (''bg_used_dirs_count_lo'', 2), (''bg_flags'', 2), (''bg_exclude_bitmap_lo'', 4),
     (''bg_block_bitmap_csum_lo'', 2), (''bg_inode_bitmap_csum_lo'', 2), (''bg_itable_unused_lo'', 2), (''bg_checksum'', 2),
     (''bg_block_bitmap_hi'', 4), (''bg_inode_bitmap_hi'', 4), (''bg_inode_table_hi'', 4), (''bg_free_blocks_count_hi'', 2),
     (''bg_free_inodes_count_hi'', 2), (''bg_used_dirs_count_hi'', 2), (''bg_itable_unused_hi'', 2),
     (''bg_exclude_bitmap_hi'', 4), (''bg_block_bitmap_csum_hi'', 2), (''bg_inode_bitmap_csum_hi'', 2), (''bg_reserved'', 4)]"

definition Ext4Inode :: layout where
  "Ext4Inode =
    [(''i_mode'', 2), (''i_uid'', 2), (''i_size_lo'', 4), (''i_atime'', 4), (''i_ctime'', 4), (''i_mtime'', 4),
     (''i_dtime'', 4), (''i_gid'', 2), (''i_links_count'', 2), (''i_blocks_lo'', 4), (''i_flags'', 4), (''i_osd1'', 4),
     (''i_block'', 4 * 15), (''i_generation'', 4), (''i_file_acl_lo'', 4), (''i_size_hi'', 4), (''i_obso_faddr'', 4),
     (''i_blocks_hi'', 2), (''i_file_acl_hi'', 2), (''i_uid_hi'', 2), (''i_gid_hi'', 2), (''i_checksum_lo'', 2),
     (''i_reserved'', 2), (''i_extra_isize'', 2), (''i_checksum_hi'', 2), (''i_ctime_extra'', 4), (''i_mtime_extra'', 4),
     (''i_atime_extra'', 4), (''i_crtime'', 4), (''i_crtime_extra'', 4), (''i_version_hi'', 4), (''i_projid'', 4)]"

definition Ext4DirEntry :: layout where
  "Ext4DirEntry =
    [(''inode'', 4), (''rec_len'', 2), (''name_len'', 1), (''file_type'', 1), (''name'', 255)]"

definition Ext4ExtentHeader :: layout where
  "Ext4ExtentHeader =
    [(''eh_magic'', 2), (''eh_entries'', 2), (''eh_max'', 2), (''eh_depth'', 2), (''eh_generation'', 4)]"

definition Ext4ExtentIdx :: layout where
  "Ext4ExtentIdx =
    [(''ei_block'', 4), (''ei_leaf_lo'', 4), (''ei_leaf_hi'', 2), (''ei_unused'', 2)]"

definition Ext4Extent :: layout where
  "Ext4Extent =
    [(''ee_block'', 4), (''ee_len'', 2), (''ee_start_hi'', 2), (''ee_start_lo'', 4)]"

definition Jbd2Header :: layout where
  "Jbd2Header =
    [(''h_magic'', 4), (''h_blocktype'', 4), (''h_sequence'', 4)]"

definition Jbd2Superblock :: layout where
  "Jbd2Superblock =
    [(''s_header'', 12), (''s_blocksize'', 4), (''s_maxlen'', 4), (''s_first'', 4), (''s_sequence'', 4), (''s_start'', 4),
     (''s_errno'', 4), (''s_feature_compat'', 4), (''s_feature_incompat'', 4), (''s_feature_ro_compat'', 4),
     (''s_uuid'', 16), (''s_nr_users'', 4), (''s_dynsuper'', 4), (''s_max_transaction'', 4), (''s_max_trans_data'', 4),
     (''s_checksum_type'', 1), (''s_padding2'', 3), (''s_padding'', 4 * 42), (''s_checksum'', 4), (''s_users'', 768)]"

definition Jbd2BlockTag :: layout where
  "Jbd2BlockTag =
    [(''t_blocknr'', 4), (''t_checksum'', 2), (''t_flags'', 2), (''t_blocknr_hi'', 4)]"

section \<open>Constants\<close>

definition EXT4_SUPER_MAGIC :: u16 where "EXT4_SUPER_MAGIC = 0xEF53"
definition EXT4_SUPERBLOCK_OFFSET :: nat where "EXT4_SUPERBLOCK_OFFSET = 1024"
definition EXT4_ROOT_INODE :: u32 where "EXT4_ROOT_INODE = 2"
definition EXT4_EXTENTS_FL :: u32 where "EXT4_EXTENTS_FL = 0x00080000"
definition EXT4_FEATURE_COMPAT_HAS_JOURNAL :: u32 where "EXT4_FEATURE_COMPAT_HAS_JOURNAL = 0x0004"
definition EXT4_FEATURE_INCOMPAT_RECOVER :: u32 where "EXT4_FEATURE_INCOMPAT_RECOVER = 0x0004"
definition EXT4_FEATURE_INCOMPAT_EXTENTS :: u32 where "EXT4_FEATURE_INCOMPAT_EXTENTS = 0x0040"
definition EXT4_FEATURE_INCOMPAT_64BIT :: u32 where "EXT4_FEATURE_INCOMPAT_64BIT = 0x0080"
definition JBD2_MAGIC_NUMBER :: u32 where "JBD2_MAGIC_NUMBER = 0xC03B3998"
definition JBD2_DESCRIPTOR_BLOCK :: u32 where "JBD2_DESCRIPTOR_BLOCK = 1"
definition JBD2_COMMIT_BLOCK :: u32 where "JBD2_COMMIT_BLOCK = 2"
definition EXT4_MIN_BLOCK_SIZE :: u32 where "EXT4_MIN_BLOCK_SIZE = 1024"
definition EXT4_NAME_LEN :: nat where "EXT4_NAME_LEN = 255"
definition EXT4_NDIR_BLOCKS :: u64 where "EXT4_NDIR_BLOCKS = 12"
definition EXT4_IND_BLOCK :: nat where "EXT4_IND_BLOCK = 12"
definition EXT4_DIND_BLOCK :: nat where "EXT4_DIND_BLOCK = 13"
definition EXT4_TIND_BLOCK :: nat where "EXT4_TIND_BLOCK = 14"
definition EXT4_EXT_MAGIC :: u16 where "EXT4_EXT_MAGIC = 0xF30A"
definition EXT4_MMAP_SCRATCH_SIZE :: nat where "EXT4_MMAP_SCRATCH_SIZE = 4096"

section \<open>Errors\<close>

datatype Ext4Error = Success | InvalidMagic | Io | NoMem | NotFound | Invalid | JournalErr | NoSpace | Permission

text \<open>
  A call ends with an error value, with a panic (an index out of range, a division by zero), or with a read or
  write outside the buffer a raw pointer points into.
\<close>

datatype fault = Fail Ext4Error | Panic | OutOfBounds

type_synonym 'a Ext4Result = "(fault, 'a) result"

text \<open>The operator \<^verbatim>\<open>?\<close>.\<close>

definition and_then :: "('e, 'a) result \<Rightarrow> ('a \<Rightarrow> ('e, 'b) result) \<Rightarrow> ('e, 'b) result" where
  "and_then r f = (case r of Err e \<Rightarrow> Err e | Ok x \<Rightarrow> f x)"

text \<open>\<^verbatim>\<open>ptr::read_unaligned\<close> and \<^verbatim>\<open>copy_nonoverlapping\<close> of \<open>n\<close> bytes at offset \<open>i\<close> of a buffer.\<close>

definition read_raw :: "bytes \<Rightarrow> nat \<Rightarrow> nat \<Rightarrow> bytes Ext4Result" where
  "read_raw b i n = (if i + n \<le> length b then Ok (sub_bytes b i n) else Err OutOfBounds)"

definition write_raw :: "bytes \<Rightarrow> nat \<Rightarrow> bytes \<Rightarrow> bytes Ext4Result" where
  "write_raw b i new = (if i + length new \<le> length b then Ok (overwrite b i new) else Err OutOfBounds)"

section \<open>Fields\<close>

text \<open>The fields of the superblock the driver reads.\<close>

definition s_inodes_count :: "bytes \<Rightarrow> u32" where "s_inodes_count = field Ext4Superblock ''s_inodes_count''"
definition s_blocks_count_lo :: "bytes \<Rightarrow> u32" where "s_blocks_count_lo = field Ext4Superblock ''s_blocks_count_lo''"
definition s_free_blocks_count_lo :: "bytes \<Rightarrow> u32" where "s_free_blocks_count_lo = field Ext4Superblock ''s_free_blocks_count_lo''"
definition s_free_inodes_count :: "bytes \<Rightarrow> u32" where "s_free_inodes_count = field Ext4Superblock ''s_free_inodes_count''"
definition s_log_block_size :: "bytes \<Rightarrow> u32" where "s_log_block_size = field Ext4Superblock ''s_log_block_size''"
definition s_blocks_per_group :: "bytes \<Rightarrow> u32" where "s_blocks_per_group = field Ext4Superblock ''s_blocks_per_group''"
definition s_inodes_per_group :: "bytes \<Rightarrow> u32" where "s_inodes_per_group = field Ext4Superblock ''s_inodes_per_group''"
definition s_magic :: "bytes \<Rightarrow> u16" where "s_magic = field Ext4Superblock ''s_magic''"
definition s_inode_size :: "bytes \<Rightarrow> u16" where "s_inode_size = field Ext4Superblock ''s_inode_size''"
definition s_feature_compat :: "bytes \<Rightarrow> u32" where "s_feature_compat = field Ext4Superblock ''s_feature_compat''"
definition s_feature_incompat :: "bytes \<Rightarrow> u32" where "s_feature_incompat = field Ext4Superblock ''s_feature_incompat''"
definition s_journal_inum :: "bytes \<Rightarrow> u32" where "s_journal_inum = field Ext4Superblock ''s_journal_inum''"
definition s_desc_size :: "bytes \<Rightarrow> u16" where "s_desc_size = field Ext4Superblock ''s_desc_size''"
definition s_blocks_count_hi :: "bytes \<Rightarrow> u32" where "s_blocks_count_hi = field Ext4Superblock ''s_blocks_count_hi''"
definition s_free_blocks_count_hi :: "bytes \<Rightarrow> u32" where "s_free_blocks_count_hi = field Ext4Superblock ''s_free_blocks_count_hi''"

definition bg_inode_table_lo :: "bytes \<Rightarrow> u32" where "bg_inode_table_lo = field Ext4GroupDesc ''bg_inode_table_lo''"
definition bg_inode_table_hi :: "bytes \<Rightarrow> u32" where "bg_inode_table_hi = field Ext4GroupDesc ''bg_inode_table_hi''"

text \<open>An inode and its methods; \<^verbatim>\<open>i_block\<close> as bytes and as 15 block numbers.\<close>

definition i_mode :: "bytes \<Rightarrow> u16" where "i_mode = field Ext4Inode ''i_mode''"
definition i_flags :: "bytes \<Rightarrow> u32" where "i_flags = field Ext4Inode ''i_flags''"
definition i_block_bytes :: "bytes \<Rightarrow> bytes" where "i_block_bytes = field_bytes Ext4Inode ''i_block''"
definition i_block :: "bytes \<Rightarrow> nat \<Rightarrow> u32" where "i_block inode k = le_word (sub_bytes (i_block_bytes inode) (4 * k) 4)"

definition inode_size_of :: "bytes \<Rightarrow> u64" where
  "inode_size_of inode = ucast (field Ext4Inode ''i_size_lo'' inode :: u32) OR push_bit 32 (ucast (field Ext4Inode ''i_size_hi'' inode :: u32))"

definition inode_uid :: "bytes \<Rightarrow> u32" where
  "inode_uid inode = ucast (field Ext4Inode ''i_uid'' inode :: u16) OR push_bit 16 (ucast (field Ext4Inode ''i_uid_hi'' inode :: u16))"

definition inode_gid :: "bytes \<Rightarrow> u32" where
  "inode_gid inode = ucast (field Ext4Inode ''i_gid'' inode :: u16) OR push_bit 16 (ucast (field Ext4Inode ''i_gid_hi'' inode :: u16))"

definition uses_extents :: "bytes \<Rightarrow> bool" where "uses_extents inode \<longleftrightarrow> i_flags inode AND EXT4_EXTENTS_FL \<noteq> 0"
definition is_dir :: "bytes \<Rightarrow> bool" where "is_dir inode \<longleftrightarrow> i_mode inode AND 0xF000 = 0x4000"
definition is_file :: "bytes \<Rightarrow> bool" where "is_file inode \<longleftrightarrow> i_mode inode AND 0xF000 = 0x8000"
definition is_symlink :: "bytes \<Rightarrow> bool" where "is_symlink inode \<longleftrightarrow> i_mode inode AND 0xF000 = 0xA000"

text \<open>Directory entries, extent nodes and journal headers.\<close>

definition de_inode :: "bytes \<Rightarrow> u32" where "de_inode = field Ext4DirEntry ''inode''"
definition de_rec_len :: "bytes \<Rightarrow> u16" where "de_rec_len = field Ext4DirEntry ''rec_len''"
definition de_name_len :: "bytes \<Rightarrow> u8" where "de_name_len = field Ext4DirEntry ''name_len''"
definition name_bytes :: "bytes \<Rightarrow> bytes" where
  "name_bytes e = take (unat (de_name_len e)) (field_bytes Ext4DirEntry ''name'' e)"

definition eh_magic :: "bytes \<Rightarrow> u16" where "eh_magic = field Ext4ExtentHeader ''eh_magic''"
definition eh_entries :: "bytes \<Rightarrow> u16" where "eh_entries = field Ext4ExtentHeader ''eh_entries''"
definition eh_depth :: "bytes \<Rightarrow> u16" where "eh_depth = field Ext4ExtentHeader ''eh_depth''"
definition ei_block :: "bytes \<Rightarrow> u32" where "ei_block = field Ext4ExtentIdx ''ei_block''"

definition idx_leaf :: "bytes \<Rightarrow> u64" where
  "idx_leaf e = ucast (field Ext4ExtentIdx ''ei_leaf_lo'' e :: u32) OR push_bit 32 (ucast (field Ext4ExtentIdx ''ei_leaf_hi'' e :: u16))"

definition ee_block :: "bytes \<Rightarrow> u32" where "ee_block = field Ext4Extent ''ee_block''"
definition ee_len :: "bytes \<Rightarrow> u16" where "ee_len = field Ext4Extent ''ee_len''"

definition extent_start :: "bytes \<Rightarrow> u64" where
  "extent_start e = ucast (field Ext4Extent ''ee_start_lo'' e :: u32) OR push_bit 32 (ucast (field Ext4Extent ''ee_start_hi'' e :: u16))"

definition extent_len :: "bytes \<Rightarrow> u16" where "extent_len e = ee_len e AND 0x7FFF"
definition is_uninitialized :: "bytes \<Rightarrow> bool" where "is_uninitialized e \<longleftrightarrow> ee_len e AND 0x8000 \<noteq> 0"

definition h_magic :: "bytes \<Rightarrow> u32" where "h_magic = field Jbd2Header ''h_magic''"
definition js_maxlen :: "bytes \<Rightarrow> u32" where "js_maxlen = field Jbd2Superblock ''s_maxlen''"
definition js_sequence :: "bytes \<Rightarrow> u32" where "js_sequence = field Jbd2Superblock ''s_sequence''"
definition js_start :: "bytes \<Rightarrow> u32" where "js_start = field Jbd2Superblock ''s_start''"

text \<open>The header the journal writes, as the bytes of the packed structure.\<close>

definition jbd2_header :: "u32 \<Rightarrow> u32 \<Rightarrow> bytes" where
  "jbd2_header blocktype sequence = to_le 4 JBD2_MAGIC_NUMBER @ to_le 4 blocktype @ to_le 4 sequence"

lemma struct_sizes:
  "size_of Ext4Superblock = 1024" "size_of Ext4GroupDesc = 64" "size_of Ext4Inode = 160" "size_of Ext4DirEntry = 263"
  "size_of Ext4ExtentHeader = 12" "size_of Ext4ExtentIdx = 12" "size_of Ext4Extent = 12" "size_of Jbd2Header = 12" "size_of Jbd2Superblock = 1024"
  by (simp_all add: size_of_def Ext4Superblock_def Ext4GroupDesc_def Ext4Inode_def Ext4DirEntry_def Ext4ExtentHeader_def
      Ext4ExtentIdx_def Ext4Extent_def Jbd2Header_def Jbd2Superblock_def)

lemma field_offsets:
  "offset_of Ext4Superblock ''s_magic'' = 56" "width_of Ext4Superblock ''s_magic'' = 2"
  "offset_of Ext4Inode ''i_block'' = 40" "width_of Ext4Inode ''i_block'' = 60"
  "offset_of Ext4DirEntry ''name'' = 8" "width_of Ext4DirEntry ''name'' = 255"
  by (simp_all add: Ext4Superblock_def Ext4Inode_def Ext4DirEntry_def)

end
