(* ===== verification/Ext4_Fs.thy ===== *)
theory Ext4_Fs
  imports Ext4_Disk
begin

text \<open>
  The core of the ext4 driver: block access through the callbacks, inodes, the mapping from logical to physical blocks by
  extents and by indirect blocks, mounting, directories, paths and reading at an offset.
\<close>

unbundle bit_operations_syntax

section \<open>Callbacks and allocation\<close>

text \<open>
  What the driver finds around it: the allocator, as the pointer \<^verbatim>\<open>kmalloc\<close> returns for a size, and the static
  variables with the C callbacks. \<open>'d\<close> is the state of the device behind the opaque pointer \<^verbatim>\<open>device\<close>; reading does
  not change it.
\<close>

record 'd env =
  kmalloc_ptr :: "nat \<Rightarrow> u64"
  EXT4_C_READ :: "('d \<Rightarrow> u64 \<Rightarrow> bytes \<Rightarrow> i32 \<times> bytes) option"
  EXT4_C_WRITE :: "('d \<Rightarrow> u64 \<Rightarrow> bytes \<Rightarrow> i32 \<times> 'd) option"
  EXT4_C_SYNC :: "('d \<Rightarrow> i32 \<times> 'd) option"

type_synonym 'd ReadBlockFn = "'d env \<Rightarrow> 'd \<Rightarrow> u64 \<Rightarrow> bytes \<Rightarrow> (Ext4Error, unit) result \<times> bytes"
type_synonym 'd WriteBlockFn = "'d env \<Rightarrow> 'd \<Rightarrow> u64 \<Rightarrow> bytes \<Rightarrow> (Ext4Error, unit) result \<times> 'd"
type_synonym 'd SyncFn = "'d env \<Rightarrow> 'd \<Rightarrow> (Ext4Error, unit) result \<times> 'd"

record 'd Ext4BlockOps =
  ops_read_block :: "'d ReadBlockFn option"
  ops_write_block :: "'d WriteBlockFn option"
  ops_sync :: "'d SyncFn option"

definition kernel_alloc_bytes :: "'d env \<Rightarrow> nat \<Rightarrow> bytes option" where
  "kernel_alloc_bytes g sz = (if sz = 0 then None else if kmalloc_ptr g sz = 0 then None else Some (replicate sz 0))"

text \<open>A callback that gets a slice writes into it and cannot change its length.\<close>

definition fill_slice :: "bytes \<Rightarrow> bytes \<Rightarrow> bytes" where
  "fill_slice buf new = take (length buf) (new @ drop (length new) buf)"

definition read_block_trampoline :: "'d ReadBlockFn" where
  "read_block_trampoline g dev block buffer =
     (case EXT4_C_READ g of
        None \<Rightarrow> (Err Invalid, buffer)
      | Some cb \<Rightarrow> let (rc, buffer) = cb dev block buffer in (if rc = 0 then Ok () else Err Io, buffer))"

definition write_block_trampoline :: "'d WriteBlockFn" where
  "write_block_trampoline g dev block buffer =
     (case EXT4_C_WRITE g of
        None \<Rightarrow> (Err Invalid, dev)
      | Some cb \<Rightarrow> let (rc, dev) = cb dev block buffer in (if rc = 0 then Ok () else Err Io, dev))"

definition sync_trampoline :: "'d SyncFn" where
  "sync_trampoline g dev =
     (case EXT4_C_SYNC g of
        None \<Rightarrow> (Err Invalid, dev)
      | Some cb \<Rightarrow> let (rc, dev) = cb dev in (if rc = 0 then Ok () else Err Io, dev))"

section \<open>Journal and filesystem\<close>

record Transaction =
  tr_tid :: u32
  tr_blocks :: "u64 list"
  tr_data :: "bytes list"

definition Transaction_new :: "u32 \<Rightarrow> Transaction" where
  "Transaction_new tid = \<lparr>tr_tid = tid, tr_blocks = [], tr_data = []\<rparr>"

definition transaction_add_block :: "u64 \<Rightarrow> bytes \<Rightarrow> Transaction \<Rightarrow> Transaction" where
  "transaction_add_block block d t = t\<lparr>tr_blocks := tr_blocks t @ [block], tr_data := tr_data t @ [d]\<rparr>"

record Journal =
  jn_superblock :: bytes
  jn_start :: u64
  jn_length :: u32
  jn_current_sequence :: u32
  jn_head :: u32
  jn_tail :: u32
  jn_running :: bool
  jn_transaction :: "Transaction option"

definition Journal_new :: "bytes \<Rightarrow> u64 \<Rightarrow> Journal" where
  "Journal_new sb start = \<lparr>jn_superblock = sb, jn_start = start, jn_length = js_maxlen sb, jn_current_sequence = js_sequence sb,
     jn_head = js_start sb, jn_tail = js_start sb, jn_running = True, jn_transaction = None\<rparr>"

definition start_transaction :: "Journal \<Rightarrow> Journal" where
  "start_transaction j =
     (if jn_transaction j \<noteq> None then j
      else j\<lparr>jn_current_sequence := jn_current_sequence j + 1, jn_transaction := Some (Transaction_new (jn_current_sequence j))\<rparr>)"

definition journal_add_block :: "u64 \<Rightarrow> bytes \<Rightarrow> Journal \<Rightarrow> Journal" where
  "journal_add_block block d j =
     (let j = (if jn_transaction j = None then start_transaction j else j)
      in j\<lparr>jn_transaction := map_option (transaction_add_block block d) (jn_transaction j)\<rparr>)"

record 'd Ext4Filesystem =
  fs_device :: 'd
  fs_ops :: "'d Ext4BlockOps"
  fs_superblock :: bytes
  fs_group_descs :: "bytes list"
  fs_journal :: "Journal option"
  fs_block_size :: u32
  fs_blocks_per_group :: u32
  fs_inodes_per_group :: u32
  fs_inode_size :: u32
  fs_group_count :: u32
  fs_desc_size :: u32
  fs_total_blocks :: u64
  fs_readonly :: bool
  fs_use_extents :: bool
  fs_use_64bit :: bool

section \<open>Blocks\<close>

definition read_block :: "'d env \<Rightarrow> 'd Ext4Filesystem \<Rightarrow> u64 \<Rightarrow> bytes \<Rightarrow> unit Ext4Result \<times> bytes" where
  "read_block g fs block buffer =
     (case ops_read_block (fs_ops fs) of
        None \<Rightarrow> (Err (Fail Invalid), buffer)
      | Some read_fn \<Rightarrow>
          let (r, new) = read_fn g (fs_device fs) block buffer
          in (case r of Err e \<Rightarrow> Err (Fail e) | Ok u \<Rightarrow> Ok (), fill_slice buffer new))"

text \<open>A read into a buffer of the caller's own, dropped on error, and one into a new buffer.\<close>

definition reload :: "'d env \<Rightarrow> 'd Ext4Filesystem \<Rightarrow> u64 \<Rightarrow> bytes \<Rightarrow> bytes Ext4Result" where
  "reload g fs block buffer = (case read_block g fs block buffer of (Err e, b) \<Rightarrow> Err e | (Ok u, b) \<Rightarrow> Ok b)"

definition load_block :: "'d env \<Rightarrow> 'd Ext4Filesystem \<Rightarrow> u64 \<Rightarrow> bytes Ext4Result" where
  "load_block g fs block =
     (case kernel_alloc_bytes g (unat (fs_block_size fs)) of
        None \<Rightarrow> Err (Fail NoMem)
      | Some buffer \<Rightarrow> reload g fs block buffer)"

definition write_block :: "'d env \<Rightarrow> 'd Ext4Filesystem \<Rightarrow> u64 \<Rightarrow> bytes \<Rightarrow> unit Ext4Result \<times> 'd Ext4Filesystem" where
  "write_block g fs block buffer =
     (if fs_readonly fs then (Err (Fail Permission), fs)
      else case ops_write_block (fs_ops fs) of
        None \<Rightarrow> (Err (Fail Invalid), fs)
      | Some write_fn \<Rightarrow>
          let (r, dev) = write_fn g (fs_device fs) block buffer
          in (case r of Err e \<Rightarrow> Err (Fail e) | Ok u \<Rightarrow> Ok (), fs\<lparr>fs_device := dev\<rparr>))"

definition write_block_journaled :: "'d env \<Rightarrow> 'd Ext4Filesystem \<Rightarrow> u64 \<Rightarrow> bytes \<Rightarrow> unit Ext4Result \<times> 'd Ext4Filesystem" where
  "write_block_journaled g fs block d =
     (case fs_journal fs of
        Some journal \<Rightarrow>
          if jn_running journal then
            (case kernel_alloc_bytes g (length d) of
               None \<Rightarrow> (Err (Fail NoMem), fs)
             | Some data_copy \<Rightarrow> (Ok (), fs\<lparr>fs_journal := Some (journal_add_block block data_copy journal)\<rparr>))
          else write_block g fs block d
      | None \<Rightarrow> write_block g fs block d)"

section \<open>Inodes\<close>

text \<open>The block of an inode table an inode lies in and its offset there.\<close>

definition inode_place :: "'d Ext4Filesystem \<Rightarrow> u32 \<Rightarrow> (u64 \<times> nat) Ext4Result" where
  "inode_place fs inode_num =
     (if fs_inodes_per_group fs = 0 then Err Panic
      else
        let group = (inode_num - 1) div fs_inodes_per_group fs;
            index = (inode_num - 1) mod fs_inodes_per_group fs
        in if group \<ge> fs_group_count fs then Err (Fail Invalid)
           else if unat group \<ge> length (fs_group_descs fs) then Err Panic
           else
             let desc = fs_group_descs fs ! unat group;
                 inode_table = ucast (bg_inode_table_lo desc) OR (if fs_use_64bit fs then push_bit 32 (ucast (bg_inode_table_hi desc)) else 0)
             in if fs_block_size fs = 0 then Err Panic
                else Ok (inode_table + ucast ((index * fs_inode_size fs) div fs_block_size fs),
                         unat ((index * fs_inode_size fs) mod fs_block_size fs)))"

definition read_inode :: "'d env \<Rightarrow> 'd Ext4Filesystem \<Rightarrow> u32 \<Rightarrow> bytes Ext4Result" where
  "read_inode g fs inode_num =
     (if inode_num = 0 then Err (Fail Invalid)
      else and_then (inode_place fs inode_num) (\<lambda>(block, offset).
        and_then (load_block g fs block) (\<lambda>buffer. read_raw buffer offset (size_of Ext4Inode))))"

definition write_inode :: "'d env \<Rightarrow> 'd Ext4Filesystem \<Rightarrow> u32 \<Rightarrow> bytes \<Rightarrow> unit Ext4Result \<times> 'd Ext4Filesystem" where
  "write_inode g fs inode_num inode =
     (if inode_num = 0 \<or> fs_readonly fs then (Err (Fail Invalid), fs)
      else case inode_place fs inode_num of
        Err e \<Rightarrow> (Err e, fs)
      | Ok (block, offset) \<Rightarrow>
          case and_then (load_block g fs block) (\<lambda>buffer. write_raw buffer offset inode) of
            Err e \<Rightarrow> (Err e, fs)
          | Ok buffer \<Rightarrow> write_block_journaled g fs block buffer)"

section \<open>Block mapping\<close>

text \<open>The entries of an extent node follow its header of 12 bytes and take 12 bytes each; the first argument counts the entries left.\<close>

fun scan_idx :: "nat \<Rightarrow> bytes \<Rightarrow> u32 \<Rightarrow> nat \<Rightarrow> bytes option \<Rightarrow> bytes option Ext4Result" where
  "scan_idx 0 node lb i best = Ok best"
| "scan_idx (Suc n) node lb i best =
     and_then (read_raw node (size_of Ext4ExtentHeader + i * size_of Ext4ExtentIdx) (size_of Ext4ExtentIdx))
       (\<lambda>idx. if ei_block idx \<le> lb then scan_idx n node lb (Suc i) (Some idx) else Ok best)"

fun descend :: "'d env \<Rightarrow> 'd Ext4Filesystem \<Rightarrow> u64 \<Rightarrow> nat \<Rightarrow> bytes \<Rightarrow> bytes \<Rightarrow> (bytes \<times> bytes) Ext4Result" where
  "descend g fs lb 0 node header = Ok (node, header)"
| "descend g fs lb (Suc d) node header =
     and_then (scan_idx (unat (eh_entries header)) node (ucast lb) 0 None) (\<lambda>best.
       case best of
         None \<Rightarrow> Err (Fail NotFound)
       | Some best_idx \<Rightarrow>
           and_then (load_block g fs (idx_leaf best_idx)) (\<lambda>buffer.
             and_then (read_raw buffer 0 (size_of Ext4ExtentHeader)) (\<lambda>header. descend g fs lb d buffer header)))"

definition in_extent :: "u64 \<Rightarrow> bytes \<Rightarrow> bool" where
  "in_extent lb e \<longleftrightarrow> lb \<ge> ucast (ee_block e) \<and> lb < ucast (ee_block e + ucast (extent_len e))"

fun scan_extents :: "nat \<Rightarrow> bytes \<Rightarrow> u64 \<Rightarrow> nat \<Rightarrow> u64 Ext4Result" where
  "scan_extents 0 node lb i = Err (Fail NotFound)"
| "scan_extents (Suc n) node lb i =
     and_then (read_raw node (size_of Ext4ExtentHeader + i * size_of Ext4Extent) (size_of Ext4Extent))
       (\<lambda>e. if in_extent lb e then Ok (extent_start e + (lb - ucast (ee_block e))) else scan_extents n node lb (Suc i))"

definition get_block_from_extent :: "'d env \<Rightarrow> 'd Ext4Filesystem \<Rightarrow> bytes \<Rightarrow> u64 \<Rightarrow> u64 Ext4Result" where
  "get_block_from_extent g fs inode logical_block =
     (let node = i_block_bytes inode; header = sub_bytes node 0 (size_of Ext4ExtentHeader)
      in if eh_magic header \<noteq> EXT4_EXT_MAGIC then Err (Fail Invalid)
         else and_then (descend g fs logical_block (unat (eh_depth header)) node header)
           (\<lambda>(node, header). scan_extents (unat (eh_entries header)) node logical_block 0))"

text \<open>Element \<open>i\<close> of a block read as an array of \<open>n\<close> block numbers.\<close>

definition ptr_at :: "u64 \<Rightarrow> bytes \<Rightarrow> u64 \<Rightarrow> u64 Ext4Result" where
  "ptr_at n buffer i = (if i < n then Ok (ucast (le_word (sub_bytes buffer (4 * unat i) 4) :: u32)) else Err Panic)"

definition get_block_indirect :: "'d env \<Rightarrow> 'd Ext4Filesystem \<Rightarrow> bytes \<Rightarrow> u64 \<Rightarrow> u64 Ext4Result" where
  "get_block_indirect g fs inode logical_block =
     (let ppb = ucast (fs_block_size fs) div 4 :: u64
      in if logical_block < EXT4_NDIR_BLOCKS then Ok (ucast (i_block inode (unat logical_block)))
         else let lb = logical_block - EXT4_NDIR_BLOCKS
         in case kernel_alloc_bytes g (unat (fs_block_size fs)) of
              None \<Rightarrow> Err (Fail NoMem)
            | Some buffer \<Rightarrow>
                if lb < ppb then
                  and_then (reload g fs (ucast (i_block inode EXT4_IND_BLOCK)) buffer) (\<lambda>buffer. ptr_at ppb buffer lb)
                else let lb = lb - ppb
                in if lb < ppb * ppb then
                     and_then (reload g fs (ucast (i_block inode EXT4_DIND_BLOCK)) buffer) (\<lambda>buffer.
                       and_then (ptr_at ppb buffer (lb div ppb)) (\<lambda>ind_block.
                         and_then (reload g fs ind_block buffer) (\<lambda>buffer. ptr_at ppb buffer (lb mod ppb))))
                   else let lb = lb - ppb * ppb
                   in and_then (reload g fs (ucast (i_block inode EXT4_TIND_BLOCK)) buffer) (\<lambda>buffer.
                        if ppb * ppb = 0 then Err Panic
                        else and_then (ptr_at ppb buffer (lb div (ppb * ppb))) (\<lambda>dind_block.
                          and_then (reload g fs dind_block buffer) (\<lambda>buffer.
                            and_then (ptr_at ppb buffer (lb div ppb mod ppb)) (\<lambda>ind_block.
                              and_then (reload g fs ind_block buffer) (\<lambda>buffer. ptr_at ppb buffer (lb mod ppb)))))))"

definition get_block :: "'d env \<Rightarrow> 'd Ext4Filesystem \<Rightarrow> bytes \<Rightarrow> u64 \<Rightarrow> u64 Ext4Result" where
  "get_block g fs inode logical_block =
     (if uses_extents inode then get_block_from_extent g fs inode logical_block
      else get_block_indirect g fs inode logical_block)"

section \<open>Mounting\<close>

definition read_superblock :: "'d env \<Rightarrow> 'd Ext4Filesystem \<Rightarrow> 'd Ext4Filesystem Ext4Result" where
  "read_superblock g fs =
     (case kernel_alloc_bytes g (unat EXT4_MIN_BLOCK_SIZE * 2) of
        None \<Rightarrow> Err (Fail NoMem)
      | Some buffer \<Rightarrow> and_then (reload g fs 0 buffer) (\<lambda>buffer.
          let sb = sub_bytes buffer EXT4_SUPERBLOCK_OFFSET (size_of Ext4Superblock)
          in if s_magic sb \<noteq> EXT4_SUPER_MAGIC then Err (Fail InvalidMagic)
             else
               let use_64bit = s_feature_incompat sb AND EXT4_FEATURE_INCOMPAT_64BIT \<noteq> 0;
                   total_blocks = (if use_64bit then push_bit 32 (ucast (s_blocks_count_hi sb)) OR ucast (s_blocks_count_lo sb)
                                   else ucast (s_blocks_count_lo sb)) :: u64;
                   desc_size = (if use_64bit then max 32 (ucast (s_desc_size sb)) else 32);
                   bpg = s_blocks_per_group sb
               in if bpg = 0 then Err Panic
                  else Ok (fs\<lparr>fs_superblock := sb,
                    fs_block_size := push_bit (unat (s_log_block_size sb AND 31)) EXT4_MIN_BLOCK_SIZE,
                    fs_blocks_per_group := bpg, fs_inodes_per_group := s_inodes_per_group sb,
                    fs_inode_size := ucast (s_inode_size sb), fs_use_64bit := use_64bit, fs_total_blocks := total_blocks,
                    fs_desc_size := desc_size,
                    fs_group_count := ucast ((total_blocks + ucast bpg - 1) div ucast bpg),
                    fs_use_extents := (s_feature_incompat sb AND EXT4_FEATURE_INCOMPAT_EXTENTS \<noteq> 0)\<rparr>)))"

text \<open>The descriptors in one block, for \<open>j\<close> from 0 to \<^verbatim>\<open>desc_per_block\<close>, and in all blocks.\<close>

primrec descs_in_block :: "u32 list \<Rightarrow> 'd Ext4Filesystem \<Rightarrow> u32 \<Rightarrow> bytes \<Rightarrow> bytes list" where
  "descs_in_block [] fs base buffer = []"
| "descs_in_block (j # js) fs base buffer =
     (let idx = base + j
      in if idx \<ge> fs_group_count fs then []
         else overwrite (zeroed Ext4GroupDesc) 0
                (sub_bytes buffer (unat (j * fs_desc_size fs)) (min (size_of Ext4GroupDesc) (unat (fs_desc_size fs))))
              # descs_in_block js fs base buffer)"

primrec read_desc_blocks :: "u32 list \<Rightarrow> 'd env \<Rightarrow> 'd Ext4Filesystem \<Rightarrow> u32 \<Rightarrow> u64 \<Rightarrow> bytes \<Rightarrow> bytes list Ext4Result" where
  "read_desc_blocks [] g fs per_block start buffer = Ok []"
| "read_desc_blocks (i # is) g fs per_block start buffer =
     and_then (reload g fs (start + ucast i) buffer) (\<lambda>buffer.
       and_then (read_desc_blocks is g fs per_block start buffer) (\<lambda>rest.
         Ok (descs_in_block (range_w 0 per_block) fs (i * per_block) buffer @ rest)))"

definition read_group_descriptors :: "'d env \<Rightarrow> 'd Ext4Filesystem \<Rightarrow> 'd Ext4Filesystem Ext4Result" where
  "read_group_descriptors g fs =
     (if fs_desc_size fs = 0 then Err Panic
      else let desc_per_block = fs_block_size fs div fs_desc_size fs
      in if desc_per_block = 0 then Err Panic
         else let desc_blocks = (fs_group_count fs + desc_per_block - 1) div desc_per_block
         in case kernel_alloc_bytes g (unat (fs_block_size fs)) of
              None \<Rightarrow> Err (Fail NoMem)
            | Some buffer \<Rightarrow>
                let desc_start = (if fs_block_size fs = EXT4_MIN_BLOCK_SIZE then 2 else 1)
                in and_then (read_desc_blocks (range_w 0 desc_blocks) g fs desc_per_block desc_start buffer)
                     (\<lambda>descs. Ok (fs\<lparr>fs_group_descs := fs_group_descs fs @ descs\<rparr>)))"

definition journal_recover :: "'d Ext4Filesystem \<Rightarrow> unit Ext4Result \<times> 'd Ext4Filesystem" where
  "journal_recover fs =
     (Ok (), fs\<lparr>fs_superblock := set_field Ext4Superblock ''s_feature_incompat''
        (s_feature_incompat (fs_superblock fs) AND NOT EXT4_FEATURE_INCOMPAT_RECOVER) (fs_superblock fs)\<rparr>)"

definition init_journal :: "'d env \<Rightarrow> 'd Ext4Filesystem \<Rightarrow> 'd Ext4Filesystem Ext4Result" where
  "init_journal g fs =
     (if s_feature_compat (fs_superblock fs) AND EXT4_FEATURE_COMPAT_HAS_JOURNAL = 0 then Ok fs
      else and_then (read_inode g fs (s_journal_inum (fs_superblock fs))) (\<lambda>journal_inode.
        and_then (get_block g fs journal_inode 0) (\<lambda>journal_start.
          if journal_start = 0 then Err (Fail JournalErr)
          else and_then (load_block g fs journal_start) (\<lambda>buffer.
            and_then (read_raw buffer 0 (size_of Jbd2Superblock)) (\<lambda>jbd2_sb.
              if h_magic (field_bytes Jbd2Superblock ''s_header'' jbd2_sb) \<noteq> JBD2_MAGIC_NUMBER then Err (Fail JournalErr)
              else let fs = fs\<lparr>fs_journal := Some (Journal_new jbd2_sb journal_start)\<rparr>
                in if s_feature_incompat (fs_superblock fs) AND EXT4_FEATURE_INCOMPAT_RECOVER \<noteq> 0
                   then (case journal_recover fs of (Err e, fs) \<Rightarrow> Ok (fs\<lparr>fs_readonly := True\<rparr>) | (Ok u, fs) \<Rightarrow> Ok fs)
                   else Ok fs)))))"

definition mount :: "'d env \<Rightarrow> 'd \<Rightarrow> 'd Ext4BlockOps \<Rightarrow> 'd Ext4Filesystem Ext4Result" where
  "mount g dev ops =
     (let fs = \<lparr>fs_device = dev, fs_ops = ops, fs_superblock = zeroed Ext4Superblock, fs_group_descs = [], fs_journal = None,
           fs_block_size = 0, fs_blocks_per_group = 0, fs_inodes_per_group = 0, fs_inode_size = 0, fs_group_count = 0,
           fs_desc_size = 0, fs_total_blocks = 0, fs_readonly = False, fs_use_extents = False, fs_use_64bit = False\<rparr>
      in and_then (read_superblock g fs) (\<lambda>fs. and_then (read_group_descriptors g fs) (init_journal g)))"

section \<open>Directories and paths\<close>

lemma step_less: "(w :: 'a::len word) \<noteq> 0 \<Longrightarrow> off < bs \<Longrightarrow> bs - (off + unat w) < bs - off"
proof -
  assume h: "w \<noteq> 0" "off < bs"
  have "0 < unat w" using h(1) by (simp add: unat_gt_0)
  then show ?thesis using h(2) by linarith
qed

text \<open>The entries of a directory block from \<open>block_offset\<close> on; \<open>None\<close> when the name is not among them.\<close>

function scan_dir_block :: "bytes \<Rightarrow> bytes \<Rightarrow> nat \<Rightarrow> nat \<Rightarrow> u32 option Ext4Result" where
  "scan_dir_block buffer name bs block_offset =
     (if block_offset < bs then
        (case read_raw buffer block_offset (size_of Ext4DirEntry) of
           Err e \<Rightarrow> Err e
         | Ok entry \<Rightarrow>
             if de_rec_len entry = 0 then Ok None
             else if de_inode entry \<noteq> 0 \<and> unat (de_name_len entry) = length name \<and> name_bytes entry = name then Ok (Some (de_inode entry))
             else scan_dir_block buffer name bs (block_offset + unat (de_rec_len entry)))
      else Ok None)"
  by pat_completeness auto
termination
  by (relation "measure (\<lambda>(buffer, name, bs, off). bs - off)") (auto simp: step_less)

text \<open>The loop over the blocks of a directory; it need not end when the size is so close to the end of the address range that the offset wraps around.\<close>

partial_function (option) dir_loop :: "'d env \<Rightarrow> 'd Ext4Filesystem \<Rightarrow> bytes \<Rightarrow> bytes \<Rightarrow> bytes \<Rightarrow> u64 \<Rightarrow> u32 Ext4Result option" where
  "dir_loop g fs dir_inode name buffer offset =
     (if offset < inode_size_of dir_inode then
        (if fs_block_size fs = 0 then Some (Err Panic)
         else case get_block g fs dir_inode (offset div ucast (fs_block_size fs)) of
           Err e \<Rightarrow> Some (Err e)
         | Ok physical_block \<Rightarrow>
             if physical_block = 0 then dir_loop g fs dir_inode name buffer (offset + ucast (fs_block_size fs))
             else (case reload g fs physical_block buffer of
               Err e \<Rightarrow> Some (Err e)
             | Ok buffer \<Rightarrow>
                 (case scan_dir_block buffer name (unat (fs_block_size fs)) 0 of
                    Err e \<Rightarrow> Some (Err e)
                  | Ok (Some ino) \<Rightarrow> Some (Ok ino)
                  | Ok None \<Rightarrow> dir_loop g fs dir_inode name buffer (offset + ucast (fs_block_size fs)))))
      else Some (Err (Fail NotFound)))"

definition dir_find_entry :: "'d env \<Rightarrow> 'd Ext4Filesystem \<Rightarrow> bytes \<Rightarrow> bytes \<Rightarrow> u32 Ext4Result option" where
  "dir_find_entry g fs dir_inode name =
     (case kernel_alloc_bytes g (unat (fs_block_size fs)) of
        None \<Rightarrow> Some (Err (Fail NoMem))
      | Some buffer \<Rightarrow> dir_loop g fs dir_inode name buffer 0)"

definition skip_slashes :: "bytes \<Rightarrow> bytes" where
  "skip_slashes p = dropWhile (\<lambda>c. c = 0x2F) p"

text \<open>The length of the next component: up to a slash, the end of the path or 255 bytes.\<close>

definition component_len :: "bytes \<Rightarrow> nat" where
  "component_len p = length (takeWhile (\<lambda>c. c \<noteq> 0x2F) (take EXT4_NAME_LEN p))"

lemma skip_slashes_length: "length (skip_slashes p) \<le> length p"
  by (simp add: skip_slashes_def length_dropWhile_le)

function lookup_loop :: "'d env \<Rightarrow> 'd Ext4Filesystem \<Rightarrow> u32 \<Rightarrow> bytes \<Rightarrow> u32 Ext4Result option" where
  "lookup_loop g fs current_inode p =
     (if p = [] then Some (Ok current_inode)
      else let len = component_len p
        in if len = 0 then lookup_loop g fs current_inode (tl p)
           else case read_inode g fs current_inode of
             Err e \<Rightarrow> Some (Err e)
           | Ok inode \<Rightarrow>
               (case dir_find_entry g fs inode (take len p) of
                  None \<Rightarrow> None
                | Some (Err e) \<Rightarrow> Some (Err e)
                | Some (Ok ino) \<Rightarrow> lookup_loop g fs ino (skip_slashes (drop len p))))"
  by pat_completeness auto
termination
proof (relation "measure (\<lambda>(g, fs, c, p). length p)", goal_cases)
  case (3 g fs c p len inode r)
  then show ?case using skip_slashes_length [of "drop len p"] by (cases p) auto
qed auto

definition lookup_path :: "'d env \<Rightarrow> 'd Ext4Filesystem \<Rightarrow> bytes \<Rightarrow> u32 Ext4Result option" where
  "lookup_path g fs path =
     (let p = skip_slashes path
      in if p = [] then Some (Ok EXT4_ROOT_INODE) else lookup_loop g fs EXT4_ROOT_INODE p)"

text \<open>A call that may not return, followed by one that does.\<close>

definition then_call :: "'a Ext4Result option \<Rightarrow> ('a \<Rightarrow> 'b Ext4Result) \<Rightarrow> 'b Ext4Result option" where
  "then_call r f = map_option (\<lambda>r. and_then r f) r"

definition stat :: "'d env \<Rightarrow> 'd Ext4Filesystem \<Rightarrow> bytes \<Rightarrow> bytes Ext4Result option" where
  "stat g fs path = then_call (lookup_path g fs path) (read_inode g fs)"

record Ext4FsStats =
  st_total_blocks :: u64
  st_free_blocks :: u64
  st_total_inodes :: u64
  st_free_inodes :: u64

definition statfs :: "'d Ext4Filesystem \<Rightarrow> Ext4FsStats" where
  "statfs fs =
     (let sb = fs_superblock fs;
          free_blocks = (if fs_use_64bit fs then push_bit 32 (ucast (s_free_blocks_count_hi sb)) OR ucast (s_free_blocks_count_lo sb)
                         else ucast (s_free_blocks_count_lo sb))
      in \<lparr>st_total_blocks = fs_total_blocks fs, st_free_blocks = free_blocks,
          st_total_inodes = ucast (s_inodes_count sb), st_free_inodes = ucast (s_free_inodes_count sb)\<rparr>)"

section \<open>Reading at an offset\<close>

lemma unat_ucast_u32 [simp]: "unat (ucast (w :: u32) :: u64) = unat w"
  by (rule unat_ucast_up) simp

text \<open>Each round of a loop over blocks makes progress: the offset in a block is smaller than the block.\<close>

lemma chunk_less:
  assumes "(b :: u32) \<noteq> 0" "t < n"
  shows "n - (t + min (unat b - unat (c mod ucast b :: u64)) (n - t)) < n - t"
proof -
  have "0 < unat b" using assms(1) by (simp add: unat_gt_0)
  then have "unat (c mod ucast b :: u64) < unat b" by (simp add: unat_mod)
  then show ?thesis using assms(2) by linarith
qed

text \<open>The buffer and the static scratch buffer are passed through; on an error they keep what was written so far.\<close>

function read_loop ::
  "'d env \<Rightarrow> 'd Ext4Filesystem \<Rightarrow> bytes \<Rightarrow> u64 \<Rightarrow> nat \<Rightarrow> nat \<Rightarrow> bytes \<Rightarrow> bytes \<Rightarrow> nat Ext4Result \<times> bytes \<times> bytes" where
  "read_loop g fs inode offset to_read total_read dst scratch =
     (if total_read < to_read then
        if fs_block_size fs = 0 then (Err Panic, dst, scratch)
        else
          let current_offset = offset + of_nat total_read;
              logical_block = current_offset div ucast (fs_block_size fs);
              block_offset = unat (current_offset mod ucast (fs_block_size fs));
              chunk = min (unat (fs_block_size fs) - block_offset) (to_read - total_read)
          in case get_block g fs inode logical_block of
               Err e \<Rightarrow> (Err e, dst, scratch)
             | Ok physical_block \<Rightarrow>
                 if physical_block = 0 then
                   read_loop g fs inode offset to_read (total_read + chunk) (overwrite dst total_read (replicate chunk 0)) scratch
                 else if block_offset = 0 \<and> chunk = unat (fs_block_size fs) then
                   (case read_block g fs physical_block (sub_bytes dst total_read chunk) of
                      (Err e, b) \<Rightarrow> (Err e, overwrite dst total_read b, scratch)
                    | (Ok u, b) \<Rightarrow> read_loop g fs inode offset to_read (total_read + chunk) (overwrite dst total_read b) scratch)
                 else
                   (case read_block g fs physical_block (sub_bytes scratch 0 (unat (fs_block_size fs))) of
                      (Err e, b) \<Rightarrow> (Err e, dst, overwrite scratch 0 b)
                    | (Ok u, b) \<Rightarrow> read_loop g fs inode offset to_read (total_read + chunk)
                        (overwrite dst total_read (sub_bytes (overwrite scratch 0 b) block_offset chunk)) (overwrite scratch 0 b))
      else (Ok total_read, dst, scratch))"
  by pat_completeness auto
termination
proof (relation "measure (\<lambda>(g, fs, inode, offset, to_read, total_read, dst, scratch). to_read - total_read)", goal_cases)
  case 1
  show ?case by (rule wf_measure)
qed (unfold in_measure prod.case; hypsubst; rule chunk_less; assumption)+

definition read_at_into :: "'d env \<Rightarrow> 'd Ext4Filesystem \<Rightarrow> bytes \<Rightarrow> u64 \<Rightarrow> bytes \<Rightarrow> bytes \<Rightarrow> nat Ext4Result \<times> bytes \<times> bytes" where
  "read_at_into g fs inode offset dst scratch =
     (let file_size = inode_size_of inode
      in if offset \<ge> file_size \<or> dst = [] then (Ok 0, dst, scratch)
         else if fs_block_size fs = 0 then (Err (Fail Invalid), dst, scratch)
         else if unat (fs_block_size fs) > EXT4_MMAP_SCRATCH_SIZE then (Err (Fail NoMem), dst, scratch)
         else read_loop g fs inode offset (min (length dst) (unat (file_size - offset))) 0 dst scratch)"

declare scan_dir_block.simps [simp del] lookup_loop.simps [simp del] read_loop.simps [simp del]

end
