(* ===== verification/Ext4_File.thy ===== *)
theory Ext4_File
  imports Ext4_Fs
begin

text \<open>
  File handles, the journal commit, memory-mapped files with their C interface, and the directory iterator of the ext4 driver.
\<close>

unbundle bit_operations_syntax

section \<open>File handles\<close>

record 'd Ext4FileHandle =
  fh_fs :: "'d Ext4Filesystem"
  fh_inode_num :: u32
  fh_inode :: bytes
  fh_position :: u64
  fh_flags :: u32

definition open_file :: "'d env \<Rightarrow> 'd Ext4Filesystem \<Rightarrow> bytes \<Rightarrow> u32 \<Rightarrow> 'd Ext4FileHandle Ext4Result option" where
  "open_file g fs path flags =
     then_call (lookup_path g fs path) (\<lambda>inode_num.
       and_then (read_inode g fs inode_num) (\<lambda>inode.
         Ok \<lparr>fh_fs = fs, fh_inode_num = inode_num, fh_inode = inode, fh_position = 0, fh_flags = flags\<rparr>))"

text \<open>The loop of \<^verbatim>\<open>read\<close>: the position advances with every block, also when a later block fails.\<close>

function handle_read_loop ::
  "'d env \<Rightarrow> 'd Ext4Filesystem \<Rightarrow> bytes \<Rightarrow> nat \<Rightarrow> nat \<Rightarrow> u64 \<Rightarrow> bytes \<Rightarrow> bytes \<Rightarrow> nat Ext4Result \<times> bytes \<times> u64" where
  "handle_read_loop g fs inode sz total_read position buffer block_buffer =
     (if total_read < sz then
        if fs_block_size fs = 0 then (Err Panic, buffer, position)
        else
          let logical_block = position div ucast (fs_block_size fs);
              offset = unat (position mod ucast (fs_block_size fs));
              to_read = min (unat (fs_block_size fs) - offset) (sz - total_read)
          in case get_block g fs inode logical_block of
               Err e \<Rightarrow> (Err e, buffer, position)
             | Ok physical_block \<Rightarrow>
                 if physical_block = 0 then
                   handle_read_loop g fs inode sz (total_read + to_read) (position + of_nat to_read)
                     (overwrite buffer total_read (replicate to_read 0)) block_buffer
                 else
                   (case read_block g fs physical_block block_buffer of
                      (Err e, b) \<Rightarrow> (Err e, buffer, position)
                    | (Ok u, b) \<Rightarrow> handle_read_loop g fs inode sz (total_read + to_read) (position + of_nat to_read)
                        (overwrite buffer total_read (sub_bytes b offset to_read)) b)
      else (Ok total_read, buffer, position))"
  by pat_completeness auto
termination
proof (relation "measure (\<lambda>(g, fs, inode, sz, total_read, position, buffer, block_buffer). sz - total_read)", goal_cases)
  case 1
  show ?case by (rule wf_measure)
qed (unfold in_measure prod.case; hypsubst; rule chunk_less; assumption)+

definition handle_read :: "'d env \<Rightarrow> bytes \<Rightarrow> 'd Ext4FileHandle \<Rightarrow> nat Ext4Result \<times> bytes \<times> 'd Ext4FileHandle" where
  "handle_read g buffer h =
     (let file_size = inode_size_of (fh_inode h)
      in if fh_position h \<ge> file_size then (Ok 0, buffer, h)
         else let sz = min (length buffer) (unat (file_size - fh_position h))
         in case kernel_alloc_bytes g (unat (fs_block_size (fh_fs h))) of
              None \<Rightarrow> (Err (Fail NoMem), buffer, h)
            | Some block_buffer \<Rightarrow>
                let (r, buffer, position) = handle_read_loop g (fh_fs h) (fh_inode h) sz 0 (fh_position h) buffer block_buffer
                in (r, buffer, h\<lparr>fh_position := position\<rparr>))"

datatype SeekFrom = Start | Current | End

definition seek :: "i64 \<Rightarrow> SeekFrom \<Rightarrow> 'd Ext4FileHandle \<Rightarrow> u64 Ext4Result \<times> 'd Ext4FileHandle" where
  "seek offset whence h =
     (let new_pos = (case whence of Start \<Rightarrow> offset | Current \<Rightarrow> fh_position h + offset | End \<Rightarrow> inode_size_of (fh_inode h) + offset)
      in if sint new_pos < 0 then (Err (Fail Invalid), h)
         else (Ok new_pos, h\<lparr>fh_position := new_pos\<rparr>))"

definition tell :: "'d Ext4FileHandle \<Rightarrow> u64" where
  "tell h = fh_position h"

definition handle_read_at_into :: "'d env \<Rightarrow> 'd Ext4FileHandle \<Rightarrow> u64 \<Rightarrow> bytes \<Rightarrow> bytes \<Rightarrow> nat Ext4Result \<times> bytes \<times> bytes" where
  "handle_read_at_into g h offset dst scratch = read_at_into g (fh_fs h) (fh_inode h) offset dst scratch"

section \<open>Committing the journal\<close>

text \<open>The operator \<^verbatim>\<open>?\<close> on calls that change the filesystem, whatever their result.\<close>

definition then_fs :: "'a Ext4Result \<times> 's \<Rightarrow> ('a \<Rightarrow> 's \<Rightarrow> 'b Ext4Result \<times> 's) \<Rightarrow> 'b Ext4Result \<times> 's" where
  "then_fs r f = (case r of (Err e, fs) \<Rightarrow> (Err e, fs) | (Ok x, fs) \<Rightarrow> f x fs)"

text \<open>The data blocks go to the journal one after the other; past the end the position wraps to block 1 of the journal.\<close>

fun write_journal_data :: "'d env \<Rightarrow> bytes list \<Rightarrow> u64 \<Rightarrow> u64 \<Rightarrow> u64 \<Rightarrow> 'd Ext4Filesystem \<Rightarrow> u64 Ext4Result \<times> 'd Ext4Filesystem" where
  "write_journal_data g [] start len jb fs = (Ok jb, fs)"
| "write_journal_data g (d # ds) start len jb fs =
     then_fs (write_block g fs (start + jb) d)
       (\<lambda>u. write_journal_data g ds start len (if jb + 1 \<ge> len then 1 else jb + 1))"

fun write_home :: "'d env \<Rightarrow> (nat \<times> u64) list \<Rightarrow> bytes list \<Rightarrow> 'd Ext4Filesystem \<Rightarrow> unit Ext4Result \<times> 'd Ext4Filesystem" where
  "write_home g [] ds fs = (Ok (), fs)"
| "write_home g ((i, block) # bs) ds fs =
     (if i \<ge> length ds then (Err Panic, fs)
      else then_fs (write_block g fs block (ds ! i)) (\<lambda>u. write_home g bs ds))"

text \<open>A header block: a zeroed block that starts with the header.\<close>

definition header_block :: "'d env \<Rightarrow> 'd Ext4Filesystem \<Rightarrow> u32 \<Rightarrow> u32 \<Rightarrow> bytes Ext4Result" where
  "header_block g fs blocktype tid =
     (case kernel_alloc_bytes g (unat (fs_block_size fs)) of
        None \<Rightarrow> Err (Fail NoMem)
      | Some buffer \<Rightarrow> write_raw buffer 0 (jbd2_header blocktype tid))"

definition sync_device :: "'d env \<Rightarrow> 'd Ext4Filesystem \<Rightarrow> unit Ext4Result \<times> 'd Ext4Filesystem" where
  "sync_device g fs =
     (case ops_sync (fs_ops fs) of
        None \<Rightarrow> (Ok (), fs)
      | Some sync_fn \<Rightarrow>
          let (r, dev) = sync_fn g (fs_device fs)
          in (case r of Err e \<Rightarrow> Err (Fail e) | Ok u \<Rightarrow> Ok (), fs\<lparr>fs_device := dev\<rparr>))"

definition write_transaction ::
  "'d env \<Rightarrow> Transaction \<Rightarrow> u64 \<Rightarrow> u64 \<Rightarrow> u64 \<Rightarrow> 'd Ext4Filesystem \<Rightarrow> u64 Ext4Result \<times> 'd Ext4Filesystem" where
  "write_transaction g txn start len jb fs =
     then_fs (header_block g fs JBD2_DESCRIPTOR_BLOCK (tr_tid txn), fs) (\<lambda>desc fs.
     then_fs (write_block g fs (start + jb) desc) (\<lambda>u fs.
     then_fs (write_journal_data g (tr_data txn) start len (jb + 1) fs) (\<lambda>jb fs.
     then_fs (header_block g fs JBD2_COMMIT_BLOCK (tr_tid txn), fs) (\<lambda>commit fs.
     then_fs (write_block g fs (start + jb) commit) (\<lambda>u fs.
     then_fs (write_home g (enumerate 0 (tr_blocks txn)) (tr_data txn) fs) (\<lambda>u fs.
     then_fs (sync_device g fs) (\<lambda>u fs. (Ok jb, fs))))))))"

definition journal_commit :: "'d env \<Rightarrow> 'd Ext4Filesystem \<Rightarrow> unit Ext4Result \<times> 'd Ext4Filesystem" where
  "journal_commit g fs =
     (case fs_journal fs of
        None \<Rightarrow> (Ok (), fs)
      | Some journal \<Rightarrow> (case jn_transaction journal of
          None \<Rightarrow> (Ok (), fs)
        | Some txn \<Rightarrow>
            then_fs (write_transaction g txn (jn_start journal) (ucast (jn_length journal)) (ucast (jn_head journal))
                       (fs\<lparr>fs_journal := Some (journal\<lparr>jn_transaction := None\<rparr>)\<rparr>))
              (\<lambda>jb fs. (Ok (), fs\<lparr>fs_journal := map_option (\<lambda>j. j\<lparr>jn_head := ucast jb + 1\<rparr>) (fs_journal fs)\<rparr>))))"

definition unmount :: "'d env \<Rightarrow> 'd Ext4Filesystem \<Rightarrow> unit Ext4Result \<times> 'd Ext4Filesystem" where
  "unmount g fs =
     then_fs (journal_commit g fs) (\<lambda>u. sync_device g)"

section \<open>Memory-mapped files and the C interface\<close>

record 'd Ext4MmapFile =
  mf_fs :: "'d Ext4Filesystem"
  mf_inode :: bytes
  mf_file_size :: u64

definition mmap_file_read_at :: "'d env \<Rightarrow> 'd Ext4MmapFile \<Rightarrow> u64 \<Rightarrow> bytes \<Rightarrow> bytes \<Rightarrow> nat Ext4Result \<times> bytes \<times> bytes" where
  "mmap_file_read_at g f offset dst scratch = read_at_into g (mf_fs f) (mf_inode f) offset dst scratch"

definition open_mmap_file :: "'d env \<Rightarrow> 'd Ext4Filesystem \<Rightarrow> bytes \<Rightarrow> 'd Ext4MmapFile Ext4Result option" where
  "open_mmap_file g fs path =
     then_call (lookup_path g fs path) (\<lambda>inode_num.
       and_then (read_inode g fs inode_num) (\<lambda>inode.
         Ok \<lparr>mf_fs = fs, mf_inode = inode, mf_file_size = inode_size_of inode\<rparr>))"

text \<open>
  \<^verbatim>\<open>ext4_mmap_read_at\<close> as a callback on memory: \<open>files\<close> tells which open file lies at a pointer. An error reports 0
  bytes; a panic or an access outside a buffer has no result.
\<close>

definition ext4_mmap_read_at ::
  "'d env \<Rightarrow> (u64 \<Rightarrow> 'd Ext4MmapFile) \<Rightarrow> bytes \<Rightarrow> u64 \<Rightarrow> u64 \<Rightarrow> u64 \<Rightarrow> usize \<Rightarrow> memory \<Rightarrow> (usize \<times> memory) option" where
  "ext4_mmap_read_at g files scratch ctx offset dst len m =
     (if ctx = 0 \<or> dst = 0 \<or> len = 0 then Some (0, m)
      else
        let buffer = map (\<lambda>i. m (dst + of_nat i)) [0..<unat len];
            (r, buffer, scratch) = mmap_file_read_at g (files ctx) offset buffer scratch;
            m' = (\<lambda>x. if in_bytes dst (unat len) x then buffer ! unat (x - dst) else m x)
        in case r of
             Ok n \<Rightarrow> Some (of_nat n, m')
           | Err (Fail e) \<Rightarrow> Some (0, m')
           | Err f \<Rightarrow> None)"

text \<open>Mounting from C: the callbacks go to the static variables, the filesystem gets the trampolines.\<close>

definition ext4_mount_c ::
  "'d env \<Rightarrow> 'd \<Rightarrow> ('d \<Rightarrow> u64 \<Rightarrow> bytes \<Rightarrow> i32 \<times> bytes) option \<Rightarrow> ('d \<Rightarrow> u64 \<Rightarrow> bytes \<Rightarrow> i32 \<times> 'd) option
     \<Rightarrow> ('d \<Rightarrow> i32 \<times> 'd) option \<Rightarrow> 'd Ext4Filesystem option Ext4Result \<times> 'd env" where
  "ext4_mount_c g dev rd wr sy =
     (if rd = None then (Ok None, g)
      else
        let g = g\<lparr>EXT4_C_READ := rd, EXT4_C_WRITE := wr, EXT4_C_SYNC := sy\<rparr>;
            ops = \<lparr>ops_read_block = Some read_block_trampoline,
                   ops_write_block = (if wr \<noteq> None then Some write_block_trampoline else None),
                   ops_sync = (if sy \<noteq> None then Some sync_trampoline else None)\<rparr>
        in (case mount g dev ops of Ok fs \<Rightarrow> Ok (Some fs) | Err (Fail e) \<Rightarrow> Ok None | Err f \<Rightarrow> Err f, g))"

section \<open>Directory iterator\<close>

record 'd Ext4DirIterator =
  it_fs :: "'d Ext4Filesystem"
  it_inode :: bytes
  it_position :: u64
  it_size :: u64

definition Ext4DirIterator_new :: "'d env \<Rightarrow> 'd Ext4Filesystem \<Rightarrow> bytes \<Rightarrow> 'd Ext4DirIterator Ext4Result option" where
  "Ext4DirIterator_new g fs path =
     then_call (lookup_path g fs path) (\<lambda>inode_num.
       and_then (read_inode g fs inode_num) (\<lambda>inode.
         Ok \<lparr>it_fs = fs, it_inode = inode, it_position = 0, it_size = inode_size_of inode\<rparr>))"

partial_function (option) iterator_loop ::
  "'d env \<Rightarrow> 'd Ext4Filesystem \<Rightarrow> bytes \<Rightarrow> u64 \<Rightarrow> bytes \<Rightarrow> u64 \<Rightarrow> (bytes Ext4Result \<times> u64) option" where
  "iterator_loop g fs inode sz buffer position =
     (if position < sz then
        (if fs_block_size fs = 0 then Some (Err Panic, position)
         else case get_block g fs inode (position div ucast (fs_block_size fs)) of
           Err e \<Rightarrow> Some (Err e, position)
         | Ok physical_block \<Rightarrow>
             if physical_block = 0 then
               iterator_loop g fs inode sz buffer (position + (ucast (fs_block_size fs) - position mod ucast (fs_block_size fs)))
             else (case reload g fs physical_block buffer of
               Err e \<Rightarrow> Some (Err e, position)
             | Ok buffer \<Rightarrow>
                 (case read_raw buffer (unat (position mod ucast (fs_block_size fs))) (size_of Ext4DirEntry) of
                    Err e \<Rightarrow> Some (Err e, position)
                  | Ok entry \<Rightarrow>
                      if de_rec_len entry = 0 then
                        iterator_loop g fs inode sz buffer (position + (ucast (fs_block_size fs) - position mod ucast (fs_block_size fs)))
                      else if de_inode entry \<noteq> 0 then Some (Ok entry, position + ucast (de_rec_len entry))
                      else iterator_loop g fs inode sz buffer (position + ucast (de_rec_len entry)))))
      else Some (Err (Fail NotFound), position))"

definition iterator_read :: "'d env \<Rightarrow> 'd Ext4DirIterator \<Rightarrow> (bytes Ext4Result \<times> 'd Ext4DirIterator) option" where
  "iterator_read g it =
     (case kernel_alloc_bytes g (unat (fs_block_size (it_fs it))) of
        None \<Rightarrow> Some (Err (Fail NoMem), it)
      | Some buffer \<Rightarrow> map_option (\<lambda>(r, position). (r, it\<lparr>it_position := position\<rparr>))
          (iterator_loop g (it_fs it) (it_inode it) (it_size it) buffer (it_position it)))"

declare handle_read_loop.simps [simp del]

end
