(* ===== verification/Ext4_Read.thy ===== *)
theory Ext4_Read
  imports Ext4_File
begin

text \<open>
  Reading files: the search in extent trees agrees with a search through all extents, and the loops that read at an offset and
  through a file handle deliver exactly the bytes of the file.
\<close>

unbundle bit_operations_syntax

section \<open>Bytes\<close>

lemma length_sub_bytes: "length (sub_bytes b i n) = min n (length b - i)"
  by (simp add: sub_bytes_def)

lemma nth_sub_bytes: "k < n \<Longrightarrow> i + k < length b \<Longrightarrow> sub_bytes b i n ! k = b ! (i + k)"
  by (simp add: sub_bytes_def)

lemma length_overwrite [simp]: "i + length new \<le> length b \<Longrightarrow> length (overwrite b i new) = length b"
  by (simp add: overwrite_def)

lemma nth_overwrite: "i + length new \<le> length b \<Longrightarrow> k < length b \<Longrightarrow>
    overwrite b i new ! k = (if i \<le> k \<and> k < i + length new then new ! (k - i) else b ! k)"
  by (auto simp: overwrite_def nth_append min_def)

lemma sub_bytes_overwrite: "i + length new \<le> length b \<Longrightarrow> sub_bytes (overwrite b i new) i (length new) = new"
  by (simp add: sub_bytes_def overwrite_def)

lemma sub_bytes_all: "length b = n \<Longrightarrow> sub_bytes b 0 n = b"
  by (simp add: sub_bytes_def)

lemma overwrite_all: "length b = length new \<Longrightarrow> overwrite b 0 new = new"
  by (simp add: overwrite_def)

lemma and_then_simps [simp]: "and_then (Ok x) f = f x" "and_then (Err e) f = Err e"
  by (simp_all add: and_then_def)

lemma read_raw_Ok: "i + n \<le> length b \<Longrightarrow> read_raw b i n = Ok (sub_bytes b i n)"
  by (simp add: read_raw_def)

section \<open>A device that answers\<close>

text \<open>
  Reads of whole blocks succeed and give \<open>C block\<close>, and buffers of the size of a block can be allocated.
\<close>

definition device_ok :: "'d env \<Rightarrow> 'd Ext4Filesystem \<Rightarrow> (u64 \<Rightarrow> bytes) \<Rightarrow> bool" where
  "device_ok g fs C \<longleftrightarrow> fs_block_size fs \<noteq> 0 \<and> kmalloc_ptr g (unat (fs_block_size fs)) \<noteq> 0
     \<and> (\<forall>b. length (C b) = unat (fs_block_size fs))
     \<and> (\<forall>b buf. length buf = unat (fs_block_size fs) \<longrightarrow> read_block g fs b buf = (Ok (), C b))"

lemma device_okD:
  assumes "device_ok g fs C"
  shows "fs_block_size fs \<noteq> 0" "0 < unat (fs_block_size fs)" "length (C b) = unat (fs_block_size fs)"
    "length buf = unat (fs_block_size fs) \<Longrightarrow> read_block g fs b buf = (Ok (), C b)"
    "kernel_alloc_bytes g (unat (fs_block_size fs)) = Some (replicate (unat (fs_block_size fs)) 0)"
  using assms unsigned_0 by (auto simp: device_ok_def kernel_alloc_bytes_def unat_gt_0)

lemma reload_ok: "device_ok g fs C \<Longrightarrow> length buf = unat (fs_block_size fs) \<Longrightarrow> reload g fs b buf = Ok (C b)"
  by (simp add: reload_def device_okD)

lemma load_block_ok: "device_ok g fs C \<Longrightarrow> load_block g fs b = Ok (C b)"
  by (simp add: load_block_def device_okD reload_ok)

section \<open>Extent trees\<close>

text \<open>The extents of a tree, leaf by leaf; the nodes below the root are blocks of the disk \<open>C\<close>.\<close>

definition node_header :: "bytes \<Rightarrow> bytes" where
  "node_header node = sub_bytes node 0 12"

definition node_entries :: "bytes \<Rightarrow> bytes list" where
  "node_entries node = map (\<lambda>i. sub_bytes node (12 + i * 12) 12) [0..<unat (eh_entries (node_header node))]"

fun tree_extents :: "(u64 \<Rightarrow> bytes) \<Rightarrow> nat \<Rightarrow> bytes \<Rightarrow> bytes list" where
  "tree_extents C 0 node = node_entries node"
| "tree_extents C (Suc d) node = concat (map (\<lambda>idx. tree_extents C d (C (idx_leaf idx))) (node_entries node))"

definition extent_end :: "bytes \<Rightarrow> u64" where
  "extent_end e = ucast (ee_block e + ucast (extent_len e))"

text \<open>
  A tree in order: the entries of each node fit into it, the keys of an index node ascend, and the extents below
  an entry lie between its key and the key of the next entry.
\<close>

fun extent_tree_ok :: "(u64 \<Rightarrow> bytes) \<Rightarrow> nat \<Rightarrow> u64 \<Rightarrow> u64 \<Rightarrow> bytes \<Rightarrow> bool" where
  "extent_tree_ok C 0 lo hi node \<longleftrightarrow> 12 + length (node_entries node) * 12 \<le> length node
     \<and> list_all (\<lambda>e. lo \<le> ucast (ee_block e) \<and> extent_end e \<le> hi) (node_entries node)"
| "extent_tree_ok C (Suc d) lo hi node \<longleftrightarrow> 12 + length (node_entries node) * 12 \<le> length node
     \<and> sorted_wrt (<) (map ei_block (node_entries node))
     \<and> list_all (\<lambda>i. extent_tree_ok C d (ucast (ei_block (node_entries node ! i)))
           (if Suc i < length (node_entries node) then ucast (ei_block (node_entries node ! Suc i)) else hi)
           (C (idx_leaf (node_entries node ! i)))) [0..<length (node_entries node)]
     \<and> list_all (\<lambda>e. lo \<le> ucast (ei_block e) \<and> ucast (ei_block e) \<le> hi) (node_entries node)"

lemma ucast_mono_u32: "(a :: u32) \<le> b \<longleftrightarrow> (ucast a :: u64) \<le> ucast b" "(a :: u32) < b \<longleftrightarrow> (ucast a :: u64) < ucast b"
  by (simp_all add: word_le_nat_alt word_less_nat_alt)

lemma length_node_entries: "length (node_entries node) = unat (eh_entries (node_header node))"
  by (simp add: node_entries_def)

lemma nth_node_entries: "i < length (node_entries node) \<Longrightarrow> node_entries node ! i = sub_bytes node (12 + i * 12) 12"
  by (simp add: node_entries_def)

lemma read_entry:
  assumes "12 + length (node_entries node) * 12 \<le> length node" "i < length (node_entries node)"
  shows "read_raw node (12 + i * 12) 12 = Ok (node_entries node ! i)"
proof -
  have "(i + 1) * 12 \<le> length (node_entries node) * 12" by (rule mult_le_mono1) (use assms(2) in simp)
  then show ?thesis using assms by (simp add: read_raw_Ok nth_node_entries)
qed

text \<open>Scanning a node is a search in the list of its entries.\<close>

lemma scan_extents_find:
  assumes fits: "12 + length (node_entries node) * 12 \<le> length node" and "i + n = length (node_entries node)"
  shows "scan_extents n node lb i = (case find (in_extent lb) (drop i (node_entries node)) of
       None \<Rightarrow> Err (Fail NotFound) | Some e \<Rightarrow> Ok (extent_start e + (lb - ucast (ee_block e))))"
  using assms(2)
proof (induction n arbitrary: i)
  case (Suc n)
  then have i: "i < length (node_entries node)" by simp
  then have "drop i (node_entries node) = node_entries node ! i # drop (Suc i) (node_entries node)" by (rule Cons_nth_drop_Suc [symmetric])
  then show ?case using Suc.IH [of "Suc i"] Suc.prems read_entry [OF fits i] by (simp add: struct_sizes)
qed simp

lemma scan_idx_takeWhile:
  assumes fits: "12 + length (node_entries node) * 12 \<le> length node" and "i + n = length (node_entries node)"
  shows "scan_idx n node lb i best =
     Ok (let es = takeWhile (\<lambda>e. ei_block e \<le> lb) (drop i (node_entries node)) in if es = [] then best else Some (last es))"
  using assms(2)
proof (induction n arbitrary: i best)
  case (Suc n)
  then have i: "i < length (node_entries node)" by simp
  then have "drop i (node_entries node) = node_entries node ! i # drop (Suc i) (node_entries node)" by (rule Cons_nth_drop_Suc [symmetric])
  then show ?case using Suc.IH [of "Suc i" "Some (node_entries node ! i)"] Suc.prems read_entry [OF fits i] by (simp add: struct_sizes Let_def)
qed simp

lemma extent_child:
  assumes "extent_tree_ok C (Suc d) lo hi node" "i < length (node_entries node)"
  shows "extent_tree_ok C d (ucast (ei_block (node_entries node ! i)))
     (if Suc i < length (node_entries node) then ucast (ei_block (node_entries node ! Suc i)) else hi) (C (idx_leaf (node_entries node ! i)))"
proof -
  have "\<forall>i\<in>set [0..<length (node_entries node)]. extent_tree_ok C d (ucast (ei_block (node_entries node ! i)))
     (if Suc i < length (node_entries node) then ucast (ei_block (node_entries node ! Suc i)) else hi) (C (idx_leaf (node_entries node ! i)))"
    using assms(1) unfolding extent_tree_ok.simps(2) list_all_iff by (elim conjE)
  from bspec [OF this, of i] assms(2) show ?thesis by (simp del: extent_tree_ok.simps)
qed

lemma extent_node_length: "extent_tree_ok C d lo hi node \<Longrightarrow> 12 + length (node_entries node) * 12 \<le> length node"
  by (cases d) simp_all

lemma tree_extents_bounds:
  assumes "extent_tree_ok C d lo hi node" "e \<in> set (tree_extents C d node)"
  shows "lo \<le> ucast (ee_block e) \<and> extent_end e \<le> hi"
  using assms
proof (induction d arbitrary: lo hi node)
  case (Suc d)
  let ?es = "node_entries node"
  obtain idx where "idx \<in> set ?es" and idx: "e \<in> set (tree_extents C d (C (idx_leaf idx)))" using Suc.prems(2) by auto
  then obtain i where i: "i < length ?es" "idx = ?es ! i" by (auto simp: in_set_conv_nth)
  note IH = Suc.IH [OF extent_child [OF Suc.prems(1) i(1)] idx [unfolded i(2)]]
  have "lo \<le> ucast (ei_block (?es ! i))" "Suc i < length ?es \<Longrightarrow> ucast (ei_block (?es ! Suc i)) \<le> hi"
    using Suc.prems(1) i by (auto simp: list_all_length simp del: extent_tree_ok.simps(1))
  then show ?case using IH by (auto split: if_splits intro: order_trans)
qed (auto simp: list_all_iff)

lemma find_middle: "(\<forall>x\<in>set xs \<union> set zs. \<not> P x) \<Longrightarrow> find P (xs @ ys @ zs) = find P ys"
proof (induction xs)
  case Nil
  then have "find P zs = None" by (simp add: find_None_iff)
  then show ?case by (induction ys) auto
qed simp


lemma in_extent_end: "in_extent lb e \<longleftrightarrow> ucast (ee_block e) \<le> lb \<and> lb < extent_end e"
  by (auto simp: in_extent_def extent_end_def)

lemma in_extent_small: "in_extent lb e \<Longrightarrow> ucast (ucast lb :: u32) = lb"
proof -
  assume "in_extent lb e"
  then have "unat lb < unat (ee_block e + ucast (extent_len e))" by (simp add: in_extent_def word_less_nat_alt)
  then have "unat lb < 2 ^ 32" using unat_bound [of "ee_block e + ucast (extent_len e)"] by simp
  then have "unat (ucast lb :: u32) = unat lb" by (simp add: unsigned_ucast_eq take_bit_nat_eq_self)
  then show ?thesis unfolding word_unat_eq_iff unat_ucast_u32 .
qed

text \<open>Only the child chosen by the scan can hold the block.\<close>

lemma find_in_child:
  assumes ok: "extent_tree_ok C (Suc d) lo hi node" and es: "es = node_entries node" and n: "n = length (takeWhile (\<lambda>e. ei_block e \<le> ucast lb) es)"
  shows "find (in_extent lb) (tree_extents C (Suc d) node) =
     (if n = 0 then None else find (in_extent lb) (tree_extents C d (C (idx_leaf (es ! (n - 1))))))"
proof -
  let ?t = "\<lambda>e. tree_extents C d (C (idx_leaf e))"
  have srt: "sorted_wrt (<) (map ei_block es)" and le: "n \<le> length es" using ok by (simp_all add: es n length_takeWhile_le)
  note child = extent_child [OF ok, folded es]
  have late: "\<not> in_extent lb x" if i: "n \<le> i" "i < length es" and x: "x \<in> set (?t (es ! i))" for i x
  proof
    assume h: "in_extent lb x"
    have nl: "n < length es" using i by simp
    have "\<not> ei_block (es ! n) \<le> ucast lb" using nth_length_takeWhile [of "\<lambda>e. ei_block e \<le> ucast lb" es] nl by (simp add: n)
    moreover have "ei_block (es ! n) \<le> ei_block (es ! i)"
      using srt i nl by (cases "n = i") (auto simp: sorted_wrt_iff_nth_less less_imp_le)
    ultimately have "ucast lb < ei_block (es ! i)" by simp
    then have "lb < ucast (ei_block (es ! i))" unfolding ucast_mono_u32(2) in_extent_small [OF h] .
    then show False using tree_extents_bounds [OF child [OF i(2)] x] h by (auto simp: in_extent_end)
  qed
  have early: "\<not> in_extent lb x" if i: "Suc i < n" and x: "x \<in> set (?t (es ! i))" for i x
  proof
    assume h: "in_extent lb x"
    have "n - 1 < length (takeWhile (\<lambda>e. ei_block e \<le> ucast lb) es)" using i n by simp
    then have "ei_block (es ! (n - 1)) \<le> ucast lb" using nth_mem set_takeWhileD takeWhile_nth by metis
    moreover have "ei_block (es ! Suc i) \<le> ei_block (es ! (n - 1))"
      using srt i le by (cases "Suc i = n - 1") (auto simp: sorted_wrt_iff_nth_less less_imp_le)
    ultimately have "ei_block (es ! Suc i) \<le> ucast lb" by (rule order_trans [rotated])
    then have "ucast (ei_block (es ! Suc i)) \<le> lb" unfolding ucast_mono_u32(1) in_extent_small [OF h] .
    then show False using tree_extents_bounds [OF child x] i le h by (auto simp: in_extent_end)
  qed
  have after: "\<not> in_extent lb x" if e: "e \<in> set (drop n es)" and x: "x \<in> set (?t e)" for e x
  proof -
    obtain i where "i < length (drop n es)" "e = drop n es ! i" using e unfolding in_set_conv_nth by blast
    then show ?thesis using late [of "n + i" x] x by simp
  qed
  have before: "\<not> in_extent lb x" if e: "e \<in> set (take (n - 1) es)" and x: "x \<in> set (?t e)" for e x
  proof -
    obtain i where "i < length (take (n - 1) es)" "e = take (n - 1) es ! i" using e unfolding in_set_conv_nth by blast
    moreover from this have "Suc i < n" by auto
    ultimately show ?thesis using early [of i x] x by simp
  qed
  show ?thesis
  proof (cases "n = 0")
    case True
    then have "\<forall>x\<in>set (tree_extents C (Suc d) node). \<not> in_extent lb x" using after by (auto simp: es)
    then show ?thesis using True by (simp add: find_None_iff del: tree_extents.simps)
  next
    case False
    have "n - 1 < length es" "Suc (n - 1) = n" using False le by linarith+
    then have "es = take (n - 1) es @ es ! (n - 1) # drop n es" using id_take_nth_drop [of "n - 1" es] by simp
    then have "map ?t es = map ?t (take (n - 1) es) @ ?t (es ! (n - 1)) # map ?t (drop n es)"
      by (metis (no_types, lifting) list.simps(9) map_append)
    then have "tree_extents C (Suc d) node = concat (map ?t (take (n - 1) es)) @ ?t (es ! (n - 1)) @ concat (map ?t (drop n es))"
      by (simp add: es [symmetric])
    moreover have "\<forall>x\<in>set (concat (map ?t (take (n - 1) es))) \<union> set (concat (map ?t (drop n es))). \<not> in_extent lb x"
      using before after by auto
    ultimately show ?thesis using False by (simp only: find_middle if_False)
  qed
qed


lemma descend_find:
  assumes dev: "device_ok g fs C" and "extent_tree_ok C d lo hi node"
  shows "and_then (descend g fs lb d node (node_header node)) (\<lambda>(node, header). scan_extents (unat (eh_entries header)) node lb 0) =
     (case find (in_extent lb) (tree_extents C d node) of
        None \<Rightarrow> Err (Fail NotFound) | Some e \<Rightarrow> Ok (extent_start e + (lb - ucast (ee_block e))))"
  using assms(2)
proof (induction d arbitrary: lo hi node)
  case 0
  then show ?case using scan_extents_find [of node 0 "unat (eh_entries (node_header node))" lb] by (simp add: length_node_entries)
next
  case (Suc d)
  let ?es = "node_entries node" and ?c = "ucast lb :: u32"
  define n where "n = length (takeWhile (\<lambda>e. ei_block e \<le> ?c) ?es)"
  have fits: "12 + length ?es * 12 \<le> length node" using Suc.prems by simp
  have scan: "scan_idx (unat (eh_entries (node_header node))) node ?c 0 None =
      Ok (let es = takeWhile (\<lambda>e. ei_block e \<le> ?c) ?es in if es = [] then None else Some (last es))"
    using scan_idx_takeWhile [OF fits, of 0 "unat (eh_entries (node_header node))"] by (simp add: length_node_entries)
  have last: "last (takeWhile (\<lambda>e. ei_block e \<le> ?c) ?es) = ?es ! (n - 1)" if "n \<noteq> 0"
    using that takeWhile_nth [of "n - 1" "\<lambda>e. ei_block e \<le> ?c" ?es] by (simp add: last_conv_nth n_def)
  note F = find_in_child [OF Suc.prems refl n_def]
  show ?case
  proof (cases "n = 0")
    case True
    then show ?thesis using F scan by (simp add: n_def del: tree_extents.simps)
  next
    case False
    let ?child = "C (idx_leaf (?es ! (n - 1)))"
    have "n \<le> length ?es" unfolding n_def by (rule length_takeWhile_le)
    then have i: "n - 1 < length ?es" using False by linarith
    note ok = extent_child [OF Suc.prems i]
    have hd: "read_raw ?child 0 12 = Ok (node_header ?child)"
      using extent_node_length [OF ok] by (simp add: read_raw_Ok node_header_def)
    have ne: "takeWhile (\<lambda>e. ei_block e \<le> ?c) ?es \<noteq> []" using False by (auto simp: n_def)
    have "descend g fs lb (Suc d) node (node_header node) = descend g fs lb d ?child (node_header ?child)"
      using False scan last hd ne by (simp add: load_block_ok [OF dev] struct_sizes)
    then show ?thesis using Suc.IH [OF ok] F False by (simp del: tree_extents.simps descend.simps)
  qed
qed


text \<open>
  C26: on an extent tree in order, whatever its depth, \<^verbatim>\<open>get_block_from_extent\<close> finds what a search through all extents of the
  tree finds: the physical block in the extent that holds the logical one, and \<^verbatim>\<open>NotFound\<close> when no extent does.
\<close>

theorem get_block_from_extent_correct:
  assumes dev: "device_ok g fs C" and magic: "eh_magic (node_header (i_block_bytes inode)) = EXT4_EXT_MAGIC"
    and ok: "extent_tree_ok C (unat (eh_depth (node_header (i_block_bytes inode)))) 0 0x100000000 (i_block_bytes inode)"
  shows "get_block_from_extent g fs inode lb =
     (case find (in_extent lb) (tree_extents C (unat (eh_depth (node_header (i_block_bytes inode)))) (i_block_bytes inode)) of
        None \<Rightarrow> Err (Fail NotFound)
      | Some e \<Rightarrow> Ok (extent_start e + (lb - ucast (ee_block e))))"
  using descend_find [OF dev ok, of lb] magic by (simp add: get_block_from_extent_def node_header_def struct_sizes Let_def)

section \<open>A disk in memory\<close>

text \<open>A device whose state is the contents of its blocks, for the examples.\<close>

definition ram_ops :: "(u64 \<Rightarrow> bytes) Ext4BlockOps" where
  "ram_ops = \<lparr>ops_read_block = Some (\<lambda>g d b buf. (Ok (), d b)), ops_write_block = Some (\<lambda>g d b x. (Ok (), d(b := x))),
     ops_sync = Some (\<lambda>g d. (Ok (), d))\<rparr>"

definition ram_env :: "(u64 \<Rightarrow> bytes) env" where
  "ram_env = \<lparr>kmalloc_ptr = (\<lambda>_. 0x100000), EXT4_C_READ = None, EXT4_C_WRITE = None, EXT4_C_SYNC = None\<rparr>"

definition ram_fs :: "(u64 \<Rightarrow> bytes) \<Rightarrow> (u64 \<Rightarrow> bytes) Ext4Filesystem" where
  "ram_fs d = \<lparr>fs_device = d, fs_ops = ram_ops, fs_superblock = zeroed Ext4Superblock, fs_group_descs = [zeroed Ext4GroupDesc], fs_journal = None,
     fs_block_size = 1024, fs_blocks_per_group = 8192, fs_inodes_per_group = 16, fs_inode_size = 256, fs_group_count = 1,
     fs_desc_size = 32, fs_total_blocks = 64, fs_readonly = False, fs_use_extents = True, fs_use_64bit = False\<rparr>"

lemma ram_fs_simps [simp]:
  "fs_block_size (ram_fs d) = 1024" "fs_device (ram_fs d) = d" "fs_ops (ram_fs d) = ram_ops" "fs_journal (ram_fs d) = None"
  "fs_readonly (ram_fs d) = False" "kmalloc_ptr ram_env n = 0x100000"
  by (simp_all add: ram_fs_def ram_env_def)

lemma fill_slice_full [simp]: "length new = length buf \<Longrightarrow> fill_slice buf new = new"
  by (simp add: fill_slice_def)

lemma ram_device_ok: "(\<And>b. length (d b) = 1024) \<Longrightarrow> device_ok ram_env (ram_fs d) d"
  by (simp add: device_ok_def read_block_def ram_ops_def)

text \<open>A tree of depth 1 with one leaf in block 7: blocks 0 and 1 at 100, blocks 5 to 7 at 200.\<close>

definition demo_leaf :: bytes where
  "demo_leaf = [0x0A, 0xF3, 2, 0, 4, 0, 0, 0, 0, 0, 0, 0] @ [0, 0, 0, 0, 2, 0, 0, 0, 100, 0, 0, 0] @ [5, 0, 0, 0, 3, 0, 0, 0, 200, 0, 0, 0]
     @ replicate 988 0"

definition demo_disk :: "u64 \<Rightarrow> bytes" where
  "demo_disk b = (if b = 7 then demo_leaf else replicate 1024 (ucast b))"

definition demo_node :: bytes where
  "demo_node = [0x0A, 0xF3, 1, 0, 4, 0, 1, 0, 0, 0, 0, 0] @ [0, 0, 0, 0, 7, 0, 0, 0, 0, 0, 0, 0] @ replicate 36 0"

definition demo_inode :: bytes where
  "demo_inode = replicate 4 0 @ [0, 32, 0, 0] @ replicate 26 0 @ [8, 0] @ replicate 4 0 @ demo_node @ replicate 60 0"

lemma demo_disk_length: "length (demo_disk b) = 1024"
  by (simp add: demo_disk_def demo_leaf_def)

lemmas demo_device = ram_device_ok [of demo_disk, OF demo_disk_length]

lemma demo_inode_node: "i_block_bytes demo_inode = demo_node"
  by (simp add: i_block_bytes_def field_bytes_def field_offsets sub_bytes_def demo_inode_def demo_node_def)

lemma demo_node_simps:
  "eh_magic (node_header demo_node) = EXT4_EXT_MAGIC" "eh_depth (node_header demo_node) = 1" "eh_entries (node_header demo_node) = 1"
  "node_entries demo_node = [[0, 0, 0, 0, 7, 0, 0, 0, 0, 0, 0, 0]]" "length demo_node = 60"
  by (simp_all add: node_entries_def node_header_def eh_magic_def eh_depth_def eh_entries_def field_def field_bytes_def Ext4ExtentHeader_def
      sub_bytes_def demo_node_def le_word_def EXT4_EXT_MAGIC_def)

lemma demo_leaf_simps:
  "eh_entries (node_header demo_leaf) = 2"
  "node_entries demo_leaf = [[0, 0, 0, 0, 2, 0, 0, 0, 100, 0, 0, 0], [5, 0, 0, 0, 3, 0, 0, 0, 200, 0, 0, 0]]" "length demo_leaf = 1024"
  by (simp_all add: node_entries_def node_header_def eh_entries_def field_def field_bytes_def Ext4ExtentHeader_def
      sub_bytes_def demo_leaf_def le_word_def upt_rec)

lemma demo_entries:
  "ei_block [0, 0, 0, 0, 7, 0, 0, 0, 0, 0, 0, 0] = 0" "idx_leaf [0, 0, 0, 0, 7, 0, 0, 0, 0, 0, 0, 0] = 7"
  "ee_block [0, 0, 0, 0, 2, 0, 0, 0, 100, 0, 0, 0] = 0" "extent_len [0, 0, 0, 0, 2, 0, 0, 0, 100, 0, 0, 0] = 2"
  "ee_block [5, 0, 0, 0, 3, 0, 0, 0, 200, 0, 0, 0] = 5" "extent_len [5, 0, 0, 0, 3, 0, 0, 0, 200, 0, 0, 0] = 3"
  "extent_start [0, 0, 0, 0, 2, 0, 0, 0, 100, 0, 0, 0] = 100" "extent_start [5, 0, 0, 0, 3, 0, 0, 0, 200, 0, 0, 0] = 200"
  by (simp_all add: ei_block_def idx_leaf_def ee_block_def extent_len_def ee_len_def extent_start_def field_def field_bytes_def Ext4ExtentIdx_def
      Ext4Extent_def sub_bytes_def le_word_def)

theorem get_block_from_extent_correct_witness:
  "get_block_from_extent ram_env (ram_fs demo_disk) demo_inode 6 = Ok 201
   \<and> get_block_from_extent ram_env (ram_fs demo_disk) demo_inode 3 = Err (Fail NotFound)"
proof -
  have "extent_tree_ok demo_disk 1 0 0x100000000 demo_node"
    by (simp add: demo_node_simps demo_entries demo_disk_def demo_leaf_simps extent_end_def)
  then show ?thesis
    using get_block_from_extent_correct [OF demo_device, of demo_inode 6] get_block_from_extent_correct [OF demo_device, of demo_inode 3]
    by (simp add: demo_inode_node demo_node_simps demo_entries demo_disk_def demo_leaf_simps in_extent_def)
qed

section \<open>Reading files\<close>

text \<open>Byte \<open>k\<close> of a file whose logical blocks lie at the physical blocks \<open>bm\<close>; block 0 stands for a hole.\<close>

definition file_byte :: "(u64 \<Rightarrow> bytes) \<Rightarrow> (u64 \<Rightarrow> u64) \<Rightarrow> u32 \<Rightarrow> u64 \<Rightarrow> u8" where
  "file_byte C bm b k = (if bm (k div ucast b) = 0 then 0 else C (bm (k div ucast b)) ! unat (k mod ucast b))"

definition file_bytes :: "(u64 \<Rightarrow> bytes) \<Rightarrow> (u64 \<Rightarrow> u64) \<Rightarrow> u32 \<Rightarrow> u64 \<Rightarrow> nat \<Rightarrow> nat \<Rightarrow> bytes" where
  "file_bytes C bm b offset i j = map (\<lambda>k. file_byte C bm b (offset + of_nat k)) [i..<j]"

lemma file_bytes_append: "i \<le> j \<Longrightarrow> j \<le> k \<Longrightarrow> file_bytes C bm b offset i j @ file_bytes C bm b offset j k = file_bytes C bm b offset i k"
  using upt_add_eq_append [of i j "k - j"] by (simp add: file_bytes_def flip: map_append)

lemma overwrite_append:
  "i + length p + length q \<le> length b \<Longrightarrow> overwrite (overwrite b i p) (i + length p) q = overwrite b i (p @ q)"
  by (simp add: overwrite_def ac_simps)

lemma same_block:
  assumes "unat (c :: u64) + k < 2 ^ 64" "unat (c mod ucast (b :: u32)) + k < unat b"
  shows "(c + of_nat k) div ucast b = c div ucast b" "unat ((c + of_nat k) mod ucast b) = unat (c mod ucast b) + k"
proof -
  have u: "unat (c + of_nat k) = unat c + k" using assms(1) by (simp add: unat_word_ariths unat_of_nat)
  have m: "unat c mod unat b + k < unat b" using assms(2) by (simp add: unat_mod)
  have "(unat c + k) mod unat b = unat c mod unat b + k" using m by (metis mod_add_left_eq mod_less)
  then show "unat ((c + of_nat k) mod ucast b) = unat (c mod ucast b) + k" by (simp add: unat_mod u)
  have "unat c + k = unat b * (unat c div unat b) + (unat c mod unat b + k)" by simp
  then have "(unat c + k) div unat b = unat c div unat b" using m by (metis div_less div_mult_self4 add.commute add_0 not_less_zero)
  then show "(c + of_nat k) div ucast b = c div ucast b" by (simp add: word_unat_eq_iff unat_div u)
qed

text \<open>What one round of a read loop copies: the bytes from the current offset to the end of the block or of the request.\<close>

lemma round_bytes:
  assumes pb: "bm (c div ucast b) = pb" and c: "c = offset + of_nat t" "unat offset + (t + n) \<le> 2 ^ 64" and n: "unat (c mod ucast b) + n \<le> unat b"
    and len: "\<And>x. length (C x) = unat b"
  shows "file_bytes C bm b offset t (t + n) = (if pb = 0 then replicate n 0 else sub_bytes (C pb) (unat (c mod ucast b)) n)"
proof (rule nth_equalityI)
  show "length (file_bytes C bm b offset t (t + n)) = length (if pb = 0 then replicate n 0 else sub_bytes (C pb) (unat (c mod ucast b)) n)"
    using n len by (simp add: file_bytes_def length_sub_bytes)
  fix k assume "k < length (file_bytes C bm b offset t (t + n))"
  then have k: "k < n" by (simp add: file_bytes_def)
  have "unat c = unat offset + t" using c k by (simp add: unat_word_ariths unat_of_nat)
  then have "unat c + k < 2 ^ 64" "unat (c mod ucast b) + k < unat b" using c(2) n k by linarith+
  note S = same_block [OF this]
  have "file_bytes C bm b offset t (t + n) ! k = file_byte C bm b (c + of_nat k)" using k by (simp add: file_bytes_def c(1) add.assoc)
  then show "file_bytes C bm b offset t (t + n) ! k = (if pb = 0 then replicate n 0 else sub_bytes (C pb) (unat (c mod ucast b)) n) ! k"
    using k n len by (simp add: file_byte_def S pb nth_sub_bytes)
qed

lemma sub_bytes_overwrite_prefix:
  "i + n \<le> length p \<Longrightarrow> length p \<le> length b \<Longrightarrow> sub_bytes (overwrite b 0 p) i n = sub_bytes p i n"
  by (simp add: sub_bytes_def overwrite_def)

lemma round_bounds:
  assumes "(b :: u32) \<noteq> 0" "t < n" and m_def: "m = min (unat b - unat (c mod ucast b :: u64)) (n - t)"
  shows "0 < m" "t + m \<le> n" "unat (c mod ucast b :: u64) + m \<le> unat b"
proof -
  have "0 < unat b" using assms(1) by (simp add: unat_gt_0)
  then have "unat (c mod ucast b :: u64) < unat b" by (simp add: unat_mod)
  then show "0 < m" "t + m \<le> n" "unat (c mod ucast b :: u64) + m \<le> unat b" using assms(2) unfolding m_def by linarith+
qed

lemma read_loop_bytes:
  assumes dev: "device_ok g fs C" and n: "n \<le> length dst" "unat offset + n \<le> 2 ^ 64" and sc: "unat (fs_block_size fs) \<le> length scratch"
    and map: "\<forall>k<n. get_block g fs inode ((offset + of_nat k) div ucast (fs_block_size fs)) = Ok (bm ((offset + of_nat k) div ucast (fs_block_size fs)))"
    and t: "t \<le> n"
  shows "\<exists>scratch'. length scratch' = length scratch
    \<and> read_loop g fs inode offset n t dst scratch = (Ok n, overwrite dst t (file_bytes C bm (fs_block_size fs) offset t n), scratch')"
  using n(1) sc t
proof (induction "n - t" arbitrary: t dst scratch rule: less_induct)
  case less
  let ?b = "fs_block_size fs" and ?F = "file_bytes C bm (fs_block_size fs) offset"
  note D = device_okD [OF dev]
  show ?case
  proof (cases "t < n")
    case False
    then show ?thesis using less.prems by (subst read_loop.simps) (simp add: file_bytes_def overwrite_def)
  next
    case True
    define c where "c = offset + of_nat t"
    define m where "m = min (unat ?b - unat (c mod ucast ?b)) (n - t)"
    define pb where "pb = bm (c div ucast ?b)"
    note R = round_bounds [OF D(1) True m_def]
    have g: "get_block g fs inode (c div ucast ?b) = Ok pb" using map True by (simp add: c_def pb_def)
    have F: "?F t (t + m) = (if pb = 0 then replicate m 0 else sub_bytes (C pb) (unat (c mod ucast ?b)) m)"
      by (rule round_bytes [of bm c ?b pb offset t m C]) (use R n D(3) c_def pb_def in auto)
    have lF: "length (?F t (t + m)) = m" by (simp add: file_bytes_def)
    have step: "\<exists>scratch'. length scratch' = length scratch \<and> read_loop g fs inode offset n (t + m) (overwrite dst t (?F t (t + m))) sc = (Ok n, overwrite dst t (?F t n), scratch')"
      if "length sc = length scratch" for sc
    proof -
      have l: "length (overwrite dst t (?F t (t + m))) = length dst" using R less.prems(1) by (simp add: lF)
      have "overwrite (overwrite dst t (?F t (t + m))) (t + m) (?F (t + m) n) = overwrite dst t (?F t n)"
        using overwrite_append [of t "?F t (t + m)" "?F (t + m) n" dst] R less.prems(1) file_bytes_append [of t "t + m" n]
        by (simp add: lF) (simp add: file_bytes_def)
      then show ?thesis using less.hyps [of "t + m" "overwrite dst t (?F t (t + m))" sc] R less.prems that l True by auto
    qed
    have unfold: "read_loop g fs inode offset n t dst scratch =
        (if pb = 0 then read_loop g fs inode offset n (t + m) (overwrite dst t (replicate m 0)) scratch
         else if unat (c mod ucast ?b) = 0 \<and> m = unat ?b then read_loop g fs inode offset n (t + m) (overwrite dst t (C pb)) scratch
         else read_loop g fs inode offset n (t + m) (overwrite dst t (sub_bytes (overwrite scratch 0 (C pb)) (unat (c mod ucast ?b)) m)) (overwrite scratch 0 (C pb)))"
    proof -
      have "m = unat ?b \<Longrightarrow> read_block g fs pb (sub_bytes dst t m) = (Ok (), C pb)" using R less.prems by (intro D(4)) (simp add: length_sub_bytes)
      moreover have "read_block g fs pb (sub_bytes scratch 0 (unat ?b)) = (Ok (), C pb)" using less.prems by (intro D(4)) (simp add: length_sub_bytes)
      moreover have "read_loop g fs inode offset n t dst scratch = (case get_block g fs inode (c div ucast ?b) of
          Err e \<Rightarrow> (Err e, dst, scratch)
        | Ok pb \<Rightarrow>
            if pb = 0 then read_loop g fs inode offset n (t + m) (overwrite dst t (replicate m 0)) scratch
            else if unat (c mod ucast ?b) = 0 \<and> m = unat ?b then
              (case read_block g fs pb (sub_bytes dst t m) of
                 (Err e, b) \<Rightarrow> (Err e, overwrite dst t b, scratch)
               | (Ok u, b) \<Rightarrow> read_loop g fs inode offset n (t + m) (overwrite dst t b) scratch)
            else
              (case read_block g fs pb (sub_bytes scratch 0 (unat ?b)) of
                 (Err e, b) \<Rightarrow> (Err e, dst, overwrite scratch 0 b)
               | (Ok u, b) \<Rightarrow> read_loop g fs inode offset n (t + m)
                   (overwrite dst t (sub_bytes (overwrite scratch 0 b) (unat (c mod ucast ?b)) m)) (overwrite scratch 0 b)))"
        unfolding read_loop.simps [of g fs inode offset n t dst scratch] Let_def c_def m_def using True D(1) by (simp only: if_True if_False simp_thms)
      ultimately show ?thesis using g by simp
    qed
    show ?thesis
    proof (cases "pb = 0")
      case True
      then show ?thesis using unfold step [of scratch] F by simp
    next
      case False
      have "sub_bytes (C pb) 0 (unat ?b) = C pb" by (rule sub_bytes_all) (simp add: D(3))
      moreover have "sub_bytes (overwrite scratch 0 (C pb)) (unat (c mod ucast ?b)) m = sub_bytes (C pb) (unat (c mod ucast ?b)) m"
        using R less.prems(2) by (intro sub_bytes_overwrite_prefix) (simp_all add: D(3))
      moreover have "length (overwrite scratch 0 (C pb)) = length scratch" using less.prems(2) by (simp add: D(3))
      ultimately show ?thesis using unfold False F step [of scratch] step [of "overwrite scratch 0 (C pb)"] by auto
    qed
  qed
qed


lemma handle_read_loop_bytes:
  assumes dev: "device_ok g fs C" and n: "n \<le> length buf" "unat offset + n \<le> 2 ^ 64"
    and map: "\<forall>k<n. get_block g fs inode ((offset + of_nat k) div ucast (fs_block_size fs)) = Ok (bm ((offset + of_nat k) div ucast (fs_block_size fs)))"
    and t: "t \<le> n" and bb: "length bb = unat (fs_block_size fs)"
  shows "handle_read_loop g fs inode n t (offset + of_nat t) buf bb
    = (Ok n, overwrite buf t (file_bytes C bm (fs_block_size fs) offset t n), offset + of_nat n)"
  using n(1) t bb
proof (induction "n - t" arbitrary: t buf bb rule: less_induct)
  case less
  let ?b = "fs_block_size fs" and ?F = "file_bytes C bm (fs_block_size fs) offset"
  note D = device_okD [OF dev]
  show ?case
  proof (cases "t < n")
    case False
    then show ?thesis using less.prems by (subst handle_read_loop.simps) (simp add: file_bytes_def overwrite_def)
  next
    case True
    define c where "c = offset + of_nat t"
    define m where "m = min (unat ?b - unat (c mod ucast ?b)) (n - t)"
    define pb where "pb = bm (c div ucast ?b)"
    note R = round_bounds [OF D(1) True m_def]
    have g: "get_block g fs inode (c div ucast ?b) = Ok pb" using map True by (simp add: c_def pb_def)
    have F: "?F t (t + m) = (if pb = 0 then replicate m 0 else sub_bytes (C pb) (unat (c mod ucast ?b)) m)"
      by (rule round_bytes [of bm c ?b pb offset t m C]) (use R n D(3) c_def pb_def in auto)
    have lF: "length (?F t (t + m)) = m" by (simp add: file_bytes_def)
    have step: "handle_read_loop g fs inode n (t + m) (c + of_nat m) (overwrite buf t (?F t (t + m))) bb' = (Ok n, overwrite buf t (?F t n), offset + of_nat n)"
      if "length bb' = unat ?b" for bb'
    proof -
      have l: "length (overwrite buf t (?F t (t + m))) = length buf" using R less.prems(1) by (simp add: lF)
      have "overwrite (overwrite buf t (?F t (t + m))) (t + m) (?F (t + m) n) = overwrite buf t (?F t n)"
        using overwrite_append [of t "?F t (t + m)" "?F (t + m) n" buf] R less.prems(1) file_bytes_append [of t "t + m" n]
        by (simp add: lF) (simp add: file_bytes_def)
      then show ?thesis using less.hyps [of "t + m" "overwrite buf t (?F t (t + m))" bb'] R less.prems that l True by (simp add: c_def add.assoc)
    qed
    have "handle_read_loop g fs inode n t c buf bb = (case get_block g fs inode (c div ucast ?b) of
        Err e \<Rightarrow> (Err e, buf, c)
      | Ok pb \<Rightarrow>
          if pb = 0 then handle_read_loop g fs inode n (t + m) (c + of_nat m) (overwrite buf t (replicate m 0)) bb
          else (case read_block g fs pb bb of
             (Err e, b) \<Rightarrow> (Err e, buf, c)
           | (Ok u, b) \<Rightarrow> handle_read_loop g fs inode n (t + m) (c + of_nat m) (overwrite buf t (sub_bytes b (unat (c mod ucast ?b)) m)) b))"
      unfolding handle_read_loop.simps [of g fs inode n t c buf bb] Let_def m_def using True D(1) by (simp only: if_True if_False simp_thms)
    then show ?thesis using g F step [of bb] step [of "C pb"] less.prems(3) D(3,4) by (cases "pb = 0") (simp_all add: c_def [symmetric])
  qed
qed

lemma read_at_into_bytes:
  assumes dev: "device_ok g fs C" "unat (fs_block_size fs) \<le> EXT4_MMAP_SCRATCH_SIZE" "length scratch = EXT4_MMAP_SCRATCH_SIZE"
    and n: "n = (if offset < inode_size_of inode then min (length dst) (unat (inode_size_of inode - offset)) else 0)"
    and map: "\<forall>k<n. get_block g fs inode ((offset + of_nat k) div ucast (fs_block_size fs)) = Ok (bm ((offset + of_nat k) div ucast (fs_block_size fs)))"
  shows "\<exists>scratch'. read_at_into g fs inode offset dst scratch = (Ok n, file_bytes C bm (fs_block_size fs) offset 0 n @ drop n dst, scratch')"
proof (cases "offset < inode_size_of inode \<and> dst \<noteq> []")
  case False
  then show ?thesis by (auto simp: read_at_into_def n file_bytes_def not_less)
next
  case True
  have "n \<le> length dst" "n \<le> unat (inode_size_of inode - offset)" using n True by simp_all
  moreover have "unat (inode_size_of inode - offset) = unat (inode_size_of inode) - unat offset" using True by (intro unat_sub) (simp add: less_imp_le)
  ultimately have m: "n \<le> length dst" "unat offset + n \<le> 2 ^ 64"
    using unat_bound [of "inode_size_of inode"] True by (auto simp: word_less_nat_alt)
  have "unat (fs_block_size fs) \<le> length scratch" using dev by simp
  note L = read_loop_bytes [OF dev(1) m this map le0]
  have "read_at_into g fs inode offset dst scratch = read_loop g fs inode offset n 0 dst scratch"
    using True dev(2) n device_okD(1) [OF dev(1)] by (simp add: read_at_into_def Let_def not_le [symmetric])
  then show ?thesis using L by (auto simp: overwrite_def file_bytes_def)
qed


text \<open>
  reading through a file handle gives the same bytes as reading at its position, and moves the position past them; so
  reading on continues where the last read ended.
\<close>

theorem handle_read_correct:
  assumes dev: "device_ok g (fh_fs h) C"
    and n: "n = (if fh_position h < inode_size_of (fh_inode h) then min (length buf) (unat (inode_size_of (fh_inode h) - fh_position h)) else 0)"
    and map: "\<forall>k<n. get_block g (fh_fs h) (fh_inode h) ((fh_position h + of_nat k) div ucast (fs_block_size (fh_fs h)))
        = Ok (bm ((fh_position h + of_nat k) div ucast (fs_block_size (fh_fs h))))"
  shows "handle_read g buf h = (Ok n, file_bytes C bm (fs_block_size (fh_fs h)) (fh_position h) 0 n @ drop n buf,
     h\<lparr>fh_position := fh_position h + of_nat n\<rparr>)"
proof (cases "fh_position h < inode_size_of (fh_inode h)")
  case False
  then show ?thesis by (auto simp: handle_read_def n file_bytes_def not_less)
next
  case True
  have "n \<le> length buf" "n \<le> unat (inode_size_of (fh_inode h) - fh_position h)" using n True by simp_all
  moreover have "unat (inode_size_of (fh_inode h) - fh_position h) = unat (inode_size_of (fh_inode h)) - unat (fh_position h)"
    using True by (intro unat_sub) (simp add: less_imp_le)
  ultimately have m: "n \<le> length buf" "unat (fh_position h) + n \<le> 2 ^ 64"
    using unat_bound [of "inode_size_of (fh_inode h)"] True by (simp_all add: word_less_nat_alt)
  from handle_read_loop_bytes [OF dev m map le0, of "replicate (unat (fs_block_size (fh_fs h))) 0"] show ?thesis
    using True n device_okD(5) [OF dev] by (simp add: handle_read_def not_le [symmetric] Let_def overwrite_def file_bytes_def)
qed


text \<open>The file of the example is 8192 bytes long and its blocks 5 and 6 are filled with 200 and 201.\<close>

lemma funpow_push_bit: "(push_bit 8 ^^ n) (w :: 'a::len word) = push_bit (8 * n) w"
  by (induction n) (simp_all add: push_bit_push_bit)

lemma demo_inode_facts: "inode_size_of demo_inode = 8192" "uses_extents demo_inode"
  by (simp_all add: inode_size_of_def uses_extents_def i_flags_def field_def field_bytes_def Ext4Inode_def sub_bytes_def demo_inode_def
      demo_node_def le_word_def EXT4_EXTENTS_FL_def funpow_push_bit)

lemma demo_tree_ok: "extent_tree_ok demo_disk 1 0 0x100000000 demo_node"
  by (simp add: demo_node_simps demo_entries demo_disk_def demo_leaf_simps extent_end_def)

lemma demo_get_block: "get_block ram_env (ram_fs demo_disk) demo_inode 5 = Ok 200" "get_block ram_env (ram_fs demo_disk) demo_inode 6 = Ok 201"
  using descend_find [OF demo_device demo_tree_ok, of 5] descend_find [OF demo_device demo_tree_ok, of 6]
  by (simp_all add: get_block_def get_block_from_extent_def demo_inode_facts demo_inode_node demo_node_simps struct_sizes Let_def
      demo_entries demo_disk_def demo_leaf_simps in_extent_def flip: node_header_def)

lemma demo_blocks: "k < 4 \<Longrightarrow> (6142 + of_nat k :: u64) div 1024 = (if k < 2 then 5 else 6)"
proof -
  assume "k < 4"
  then consider "k = 0" | "k = 1" | "k = 2" | "k = 3" by linarith
  then show ?thesis by cases simp_all
qed


section \<open>A file through a handle\<close>

definition demo_handle :: "(u64 \<Rightarrow> bytes) Ext4FileHandle" where
  "demo_handle = \<lparr>fh_fs = ram_fs demo_disk, fh_inode_num = 12, fh_inode = demo_inode, fh_position = 6142, fh_flags = 0\<rparr>"

theorem handle_read_correct_witness:
  "handle_read ram_env [1, 2, 3, 4] demo_handle = (Ok 4, [200, 200, 201, 201], demo_handle\<lparr>fh_position := 6146\<rparr>)"
proof -
  have "handle_read ram_env [1, 2, 3, 4] demo_handle = (Ok 4,
      file_bytes demo_disk (\<lambda>b. b + 195) (fs_block_size (fh_fs demo_handle)) (fh_position demo_handle) 0 4 @ drop 4 [1, 2, 3, 4],
      demo_handle\<lparr>fh_position := fh_position demo_handle + of_nat 4\<rparr>)"
    using demo_device demo_get_block demo_blocks
    by (intro handle_read_correct) (auto simp: demo_handle_def demo_inode_facts)
  moreover have "file_bytes demo_disk (\<lambda>b. b + 195) 1024 6142 0 4 = [200, 200, 201, 201]"
    by (simp add: file_bytes_def file_byte_def upt_rec demo_disk_def)
  ultimately show ?thesis by (simp add: demo_handle_def)
qed

end
