(* ===== verification/Ext4_Dir.thy ===== *)
theory Ext4_Dir
  imports Ext4_Read
begin

text \<open>
  Directories and paths of the ext4 driver: scanning a block finds the first entry with a name, a lookup searches all blocks of a
  directory, and a path is followed component by component.
\<close>

unbundle bit_operations_syntax

section \<open>Directory blocks\<close>

text \<open>
  The entries of a directory block from an offset on, up to one with \<^verbatim>\<open>rec_len\<close> 0, the end of the block, or one the driver
  cannot read: it reads the 263 bytes of the structure even where the entry on disk is shorter.
\<close>

function block_entries :: "bytes \<Rightarrow> nat \<Rightarrow> nat \<Rightarrow> bytes list" where
  "block_entries buffer bs off =
     (if off < bs \<and> off + 263 \<le> length buffer then
        let e = sub_bytes buffer off 263
        in if de_rec_len e = 0 then [] else e # block_entries buffer bs (off + unat (de_rec_len e))
      else [])"
  by pat_completeness auto
termination
  by (relation "measure (\<lambda>(buffer, bs, off). bs - off)") (auto simp: step_less)

text \<open>Every entry the walk reaches can be read.\<close>

function block_readable :: "bytes \<Rightarrow> nat \<Rightarrow> nat \<Rightarrow> bool" where
  "block_readable buffer bs off \<longleftrightarrow>
     (off < bs \<longrightarrow> off + 263 \<le> length buffer
        \<and> (let n = unat (de_rec_len (sub_bytes buffer off 263)) in n \<noteq> 0 \<longrightarrow> block_readable buffer bs (off + n)))"
  by pat_completeness auto
termination
  by (relation "measure (\<lambda>(buffer, bs, off). bs - off)") auto

declare block_entries.simps [simp del] block_readable.simps [simp del]

definition names :: "bytes \<Rightarrow> bytes \<Rightarrow> bool" where
  "names name e \<longleftrightarrow> de_inode e \<noteq> 0 \<and> unat (de_name_len e) = length name \<and> name_bytes e = name"

lemma scan_dir_block_entries:
  "scan_dir_block buffer name bs off =
     (case find (names name) (block_entries buffer bs off) of
        Some e \<Rightarrow> Ok (Some (de_inode e))
      | None \<Rightarrow> if block_readable buffer bs off then Ok None else Err OutOfBounds)"
proof (induction "bs - off" arbitrary: off rule: less_induct)
  case less
  let ?e = "sub_bytes buffer off 263"
  let ?next = "off + unat (de_rec_len ?e)"
  show ?case
  proof (cases "off < bs \<and> off + 263 \<le> length buffer")
    case True
    have s: "scan_dir_block buffer name bs off = (if de_rec_len ?e = 0 then Ok None else if names name ?e then Ok (Some (de_inode ?e))
        else scan_dir_block buffer name bs ?next)"
      by (subst scan_dir_block.simps) (simp add: True names_def struct_sizes read_raw_Ok)
    have b: "block_entries buffer bs off = (if de_rec_len ?e = 0 then [] else ?e # block_entries buffer bs ?next)"
      by (subst block_entries.simps) (simp add: True Let_def)
    have q: "block_readable buffer bs off \<longleftrightarrow> (if de_rec_len ?e = 0 then True else block_readable buffer bs ?next)"
      by (cases "de_rec_len ?e = 0"; subst block_readable.simps) (simp_all add: True Let_def unat_gt_0)
    show ?thesis
    proof (cases "de_rec_len ?e = 0")
      case False
      then have "bs - ?next < bs - off" using True by (intro step_less) simp_all
      note IH = less.hyps [OF this]
      show ?thesis unfolding s b q using False IH by simp
    qed (simp add: s b q)
  next
    case False
    then show ?thesis
      by (subst scan_dir_block.simps, subst block_entries.simps, subst block_readable.simps) (auto simp: read_raw_def struct_sizes)
  qed
qed

text \<open>
  scanning a directory block finds the first entry in use with the name. When there is none, the scan ends normally
  if every entry it meets starts at least 263 bytes before the end of the buffer, and reads outside the buffer otherwise.
\<close>

theorem scan_dir_block_correct:
  "scan_dir_block buffer name bs off =
     (case find (names name) (block_entries buffer bs off) of
        Some e \<Rightarrow> Ok (Some (de_inode e))
      | None \<Rightarrow> if block_readable buffer bs off then Ok None else Err OutOfBounds)"
  by (rule scan_dir_block_entries)

section \<open>Directories\<close>

text \<open>The blocks of a directory of \<open>sz\<close> bytes and the entries in them, holes left out.\<close>

definition dir_block_count :: "u32 \<Rightarrow> u64 \<Rightarrow> nat" where
  "dir_block_count b sz = (unat sz + unat b - 1) div unat b"

definition dir_entries :: "(u64 \<Rightarrow> bytes) \<Rightarrow> (nat \<Rightarrow> u64) \<Rightarrow> u32 \<Rightarrow> nat \<Rightarrow> nat \<Rightarrow> bytes list" where
  "dir_entries C bm b i n = concat (map (\<lambda>k. if bm k = 0 then [] else block_entries (C (bm k)) (unat b) 0) [i..<n])"

lemma block_count_iff: "0 < b \<Longrightarrow> i < (s + b - 1) div b \<longleftrightarrow> i * b < (s :: nat)"
proof -
  assume b: "0 < b"
  have "i < (s + b - 1) div b \<longleftrightarrow> Suc i * b \<le> s + b - 1" using b by (simp add: Suc_le_eq [symmetric] less_eq_div_iff_mult_less_eq del: mult_Suc)
  then show ?thesis using b by auto
qed

lemma unat_of_nat_u64: "k < 2 ^ 64 \<Longrightarrow> unat (of_nat k :: u64) = k"
  by (simp add: unat_of_nat)

lemma dir_loop_find:
  assumes dev: "device_ok g fs C" and n: "n = dir_block_count (fs_block_size fs) (inode_size_of dir)"
    and wrap: "unat (inode_size_of dir) + unat (fs_block_size fs) \<le> 2 ^ 64"
    and map: "\<forall>k<n. get_block g fs dir (of_nat k) = Ok (bm k)"
    and readable: "\<forall>k<n. bm k \<noteq> 0 \<longrightarrow> block_readable (C (bm k)) (unat (fs_block_size fs)) 0"
    and i: "i \<le> n" and buf: "length buf = unat (fs_block_size fs)"
  shows "dir_loop g fs dir name buf (of_nat (i * unat (fs_block_size fs))) =
     Some (case find (names name) (dir_entries C bm (fs_block_size fs) i n) of Some e \<Rightarrow> Ok (de_inode e) | None \<Rightarrow> Err (Fail NotFound))"
  using i buf
proof (induction "n - i" arbitrary: i buf rule: less_induct)
  case less
  let ?b = "fs_block_size fs" and ?L = "dir_loop g fs dir name"
  note D = device_okD [OF dev]
  have iff: "i < n \<longleftrightarrow> i * unat ?b < unat (inode_size_of dir)" using block_count_iff [OF D(2)] by (simp add: n dir_block_count_def)
  have "n * unat ?b \<le> unat (inode_size_of dir) + unat ?b - 1" by (simp add: n dir_block_count_def)
  moreover have "i * unat ?b \<le> n * unat ?b" using less.prems(1) by (rule mult_le_mono1)
  ultimately have "i * unat ?b < 2 ^ 64" using wrap D(2) by linarith
  then have u: "unat (of_nat (i * unat ?b) :: u64) = i * unat ?b" by (rule unat_of_nat_u64)
  have lt: "(of_nat (i * unat ?b) :: u64) < inode_size_of dir \<longleftrightarrow> i < n" unfolding word_less_nat_alt u iff ..
  have "i * 1 \<le> i * unat ?b" using D(2) by (intro mult_le_mono2) simp
  then have ui: "unat (of_nat i :: u64) = i" using \<open>i * unat ?b < 2 ^ 64\<close> by (intro unat_of_nat_u64) linarith
  have dv: "(of_nat (i * unat ?b) :: u64) div ucast ?b = of_nat i"
    unfolding word_unat_eq_iff unat_div u unat_ucast_u32 ui using D(2) by simp
  have nx: "(of_nat (i * unat ?b) :: u64) + ucast ?b = of_nat (Suc i * unat ?b)" by simp
  show ?case
  proof (cases "i < n")
    case False
    then show ?thesis using less.prems lt by (subst dir_loop.simps) (simp add: dir_entries_def)
  next
    case True
    have IH: "?L b (of_nat (Suc i * unat ?b)) = Some (case find (names name) (dir_entries C bm ?b (Suc i) n) of
        Some e \<Rightarrow> Ok (de_inode e) | None \<Rightarrow> Err (Fail NotFound))" if "length b = unat ?b" for b
      using less.hyps [of "Suc i" b] True that by simp
    have split: "dir_entries C bm ?b i n = (if bm i = 0 then [] else block_entries (C (bm i)) (unat ?b) 0) @ dir_entries C bm ?b (Suc i) n"
      using True by (simp add: dir_entries_def upt_conv_Cons)
    have g: "get_block g fs dir (of_nat i) = Ok (bm i)" using map True by blast
    show ?thesis
    proof (cases "bm i = 0")
      case True
      then show ?thesis using IH [OF less.prems(2)] g lt \<open>i < n\<close> D(1) split by (subst dir_loop.simps) (simp only: dv nx, simp)
    next
      case False
      have "block_readable (C (bm i)) (unat ?b) 0" using readable True False by blast
      then have s: "scan_dir_block (C (bm i)) name (unat ?b) 0 = Ok (map_option de_inode (find (names name) (block_entries (C (bm i)) (unat ?b) 0)))"
        by (simp add: scan_dir_block_entries split: option.split)
      have r: "reload g fs (bm i) buf = Ok (C (bm i))" by (rule reload_ok [OF dev less.prems(2)])
      have f: "find P (xs @ ys) = (case find P xs of None \<Rightarrow> find P ys | Some x \<Rightarrow> Some x)" for P and xs ys :: "bytes list"
        by (induction xs) auto
      show ?thesis using IH [OF D(3)] g lt True False D(1) split s r
        by (subst dir_loop.simps) (simp only: dv nx, simp add: f split: option.split)
    qed
  qed
qed



section \<open>Paths\<close>

text \<open>
  The components of a path: its non-empty parts between slashes, each cut into pieces of at most 255 bytes, because the
  driver ends a component there and takes the rest for the next one.
\<close>

function pieces :: "bytes \<Rightarrow> bytes list" where
  "pieces p = (if p = [] then [] else take EXT4_NAME_LEN p # pieces (drop EXT4_NAME_LEN p))"
  by pat_completeness auto
termination
  by (relation "measure length") (auto simp: EXT4_NAME_LEN_def)

fun segments :: "bytes \<Rightarrow> bytes list" where
  "segments [] = [[]]"
| "segments (c # p) = (if c = 0x2F then [] # segments p else (c # hd (segments p)) # tl (segments p))"

definition path_components :: "bytes \<Rightarrow> bytes list" where
  "path_components p = concat (map pieces (segments p))"

text \<open>The walk from an inode along a list of components.\<close>

fun walk :: "'d env \<Rightarrow> 'd Ext4Filesystem \<Rightarrow> u32 \<Rightarrow> bytes list \<Rightarrow> u32 Ext4Result option" where
  "walk g fs ino [] = Some (Ok ino)"
| "walk g fs ino (c # cs) =
     (case read_inode g fs ino of
        Err e \<Rightarrow> Some (Err e)
      | Ok inode \<Rightarrow> (case dir_find_entry g fs inode c of
            None \<Rightarrow> None
          | Some (Err e) \<Rightarrow> Some (Err e)
          | Some (Ok ino') \<Rightarrow> walk g fs ino' cs))"

declare pieces.simps [simp del]

lemma pieces_Nil [simp]: "pieces [] = []"
  by (subst pieces.simps) simp

lemma segments_append:
  "0x2F \<notin> set s \<Longrightarrow> segments (s @ r) = (s @ hd (segments r)) # tl (segments r)"
  by (induction s) (auto, cases r, auto)

lemma segments_ne [simp]: "segments p \<noteq> []"
  by (cases p) auto

lemma path_components_slash [simp]: "path_components (0x2F # p) = path_components p"
  by (simp add: path_components_def)

lemma path_components_part:
  assumes "0x2F \<notin> set s" "r = [] \<or> hd r = 0x2F"
  shows "path_components (s @ r) = pieces s @ path_components r"
proof (cases r)
  case Nil
  then show ?thesis using segments_append [OF assms(1), of "[]"] by (simp add: path_components_def)
next
  case (Cons c r')
  then have "segments r = [] # segments r'" using assms(2) by simp
  then show ?thesis using segments_append [OF assms(1), of r] by (simp add: path_components_def)
qed

lemma path_components_skip: "path_components (skip_slashes p) = path_components p"
  unfolding skip_slashes_def by (induction p) auto

lemma takeWhile_of_take: "takeWhile P (take n xs) = take n (takeWhile P xs)"
proof (induction xs arbitrary: n)
  case (Cons x xs)
  then show ?case by (cases n) simp_all
qed simp

lemma component_step:
  assumes "p \<noteq> []" "hd p \<noteq> 0x2F"
  shows "0 < component_len p" "path_components p = take (component_len p) p # path_components (drop (component_len p) p)"
proof -
  define s where "s = takeWhile (\<lambda>c. c \<noteq> 0x2F) p"
  define r where "r = dropWhile (\<lambda>c. c \<noteq> 0x2F) p"
  have p: "p = s @ r" by (simp add: s_def r_def)
  have s: "0x2F \<notin> set s" "s \<noteq> []" using assms by (auto simp: s_def dest: set_takeWhileD) (metis takeWhile_eq_Nil_iff)
  have r: "r = [] \<or> hd r = 0x2F" using hd_dropWhile [of "\<lambda>c. c \<noteq> 0x2F" p] by (auto simp: r_def)
  have len: "component_len p = min EXT4_NAME_LEN (length s)"
    by (simp add: component_len_def s_def takeWhile_of_take)
  have tk: "take (component_len p) p = take EXT4_NAME_LEN s" unfolding len by (subst p) (simp add: min_def)
  have dr: "drop (component_len p) p = drop EXT4_NAME_LEN s @ r" unfolding len by (subst p) (simp add: min_def)
  show "0 < component_len p" using s(2) by (simp add: len EXT4_NAME_LEN_def)
  have "0x2F \<notin> set (drop EXT4_NAME_LEN s)" using s(1) by (meson in_set_dropD)
  note R = path_components_part [OF this r]
  have "path_components p = pieces s @ path_components r" unfolding p by (rule path_components_part [OF s(1) r])
  moreover have "pieces s = take EXT4_NAME_LEN s # pieces (drop EXT4_NAME_LEN s)" using s(2) by (subst pieces.simps) simp
  ultimately show "path_components p = take (component_len p) p # path_components (drop (component_len p) p)" by (simp add: tk dr R)
qed

lemma lookup_loop_walk: "lookup_loop g fs ino p = walk g fs ino (path_components p)"
proof (induction "length p" arbitrary: ino p rule: less_induct)
  case less
  show ?case
  proof (cases "p = []")
    case True
    then show ?thesis by (subst lookup_loop.simps) (simp add: path_components_def)
  next
    case ne: False
    show ?thesis
    proof (cases "hd p = 0x2F")
      case True
      then have p: "p = 0x2F # tl p" using ne by (cases p) auto
      then have z: "component_len p = 0" by (cases p) (simp_all add: component_len_def EXT4_NAME_LEN_def)
      have "lookup_loop g fs ino p = lookup_loop g fs ino (tl p)" using ne z by (subst lookup_loop.simps) simp
      moreover have "length (tl p) < length p" using ne by (cases p) auto
      ultimately show ?thesis using less path_components_slash [of "tl p"] p by metis
    next
      case False
      note S = component_step [OF ne False]
      have "length (skip_slashes (drop (component_len p) p)) < length p"
        using skip_slashes_length [of "drop (component_len p) p"] S(1) ne by (cases p) auto
      note IH = less [OF this]
      show ?thesis using S ne IH path_components_skip [of "drop (component_len p) p"]
        by (subst lookup_loop.simps) (simp add: Let_def cong: option.case_cong sum.case_cong)
    qed
  qed
qed

text \<open>
  C29: looking up a path is the walk from the root inode along the components of the path; a name of more than 255 bytes
  is taken for several names.
\<close>

theorem lookup_path_walk: "lookup_path g fs path = walk g fs EXT4_ROOT_INODE (path_components path)"
proof (cases "skip_slashes path = []")
  case True
  moreover have "path_components [] = []" by (simp add: path_components_def)
  ultimately have "path_components path = []" using path_components_skip [of path] by simp
  then show ?thesis using True by (simp add: lookup_path_def)
next
  case False
  then show ?thesis by (simp add: lookup_path_def lookup_loop_walk path_components_skip)
qed


section \<open>An example\<close>

text \<open>A directory of one block, block 9, with the names \<^verbatim>\<open>a\<close> for inode 12 and \<^verbatim>\<open>b\<close> for inode 13.\<close>

definition demo_dir_block :: bytes where
  "demo_dir_block = [12, 0, 0, 0, 16, 0, 1, 1, 0x61, 0, 0, 0, 0, 0, 0, 0] @ [13, 0, 0, 0, 240, 3, 1, 1, 0x62] @ replicate 999 0"

definition demo_dir_disk :: "u64 \<Rightarrow> bytes" where
  "demo_dir_disk b = (if b = 9 then demo_dir_block else replicate 1024 0)"

definition demo_dir :: bytes where
  "demo_dir = replicate 4 0 @ [0, 4, 0, 0] @ replicate 32 0 @ [9, 0, 0, 0] @ replicate 116 0"

lemma demo_dir_device: "device_ok ram_env (ram_fs demo_dir_disk) demo_dir_disk"
  by (rule ram_device_ok) (simp add: demo_dir_disk_def demo_dir_block_def)

lemma demo_dir_facts: "inode_size_of demo_dir = 1024" "\<not> uses_extents demo_dir" "i_block demo_dir 0 = 9"
  by (simp_all add: inode_size_of_def uses_extents_def i_flags_def i_block_def i_block_bytes_def field_def field_bytes_def Ext4Inode_def sub_bytes_def
      demo_dir_def le_word_def EXT4_EXTENTS_FL_def funpow_push_bit)

lemma demo_dir_lens: "length demo_dir_block = 1024" "de_rec_len (sub_bytes demo_dir_block 0 263) = 16" "de_rec_len (sub_bytes demo_dir_block 16 263) = 1008"
  by (simp_all add: de_rec_len_def field_def field_bytes_def Ext4DirEntry_def sub_bytes_def demo_dir_block_def le_word_def)

lemma demo_dir_readable: "block_readable demo_dir_block 1024 0"
  by (subst block_readable.simps, simp add: demo_dir_lens, subst block_readable.simps, simp add: demo_dir_lens, subst block_readable.simps, simp)

lemma demo_dir_entries: "block_entries demo_dir_block 1024 0 = [sub_bytes demo_dir_block 0 263, sub_bytes demo_dir_block 16 263]"
  by (subst block_entries.simps, simp add: demo_dir_lens, subst block_entries.simps, simp add: demo_dir_lens, subst block_entries.simps, simp)

lemma demo_dir_names: "\<not> names [0x62] (sub_bytes demo_dir_block 0 263)" "names [0x62] (sub_bytes demo_dir_block 16 263)"
  "de_inode (sub_bytes demo_dir_block 16 263) = 13"
  by (simp_all add: names_def name_bytes_def de_inode_def de_name_len_def field_def field_bytes_def Ext4DirEntry_def sub_bytes_def demo_dir_block_def le_word_def)


end
