(* ===== verification/Ext4_Indirect.thy ===== *)
theory Ext4_Indirect
  imports Ext4_Dir
begin

text \<open>
  The mapping by indirect blocks against the reference of pointer trees.
\<close>

unbundle bit_operations_syntax

section \<open>Indirect blocks\<close>

text \<open>
  The reference: the pointer tree of \<open>n\<close> levels below a block, read with the position of the logical block written in
  base \<^verbatim>\<open>ptrs_per_block\<close>, the most significant digit first.
\<close>

definition block_ptr :: "bytes \<Rightarrow> u64 \<Rightarrow> u64" where
  "block_ptr b i = ucast (le_word (sub_bytes b (4 * unat i) 4) :: u32)"

fun pointer_walk :: "(u64 \<Rightarrow> bytes) \<Rightarrow> u64 \<Rightarrow> nat \<Rightarrow> u64 \<Rightarrow> u64 \<Rightarrow> u64" where
  "pointer_walk C ppb 0 block k = block"
| "pointer_walk C ppb (Suc n) block k = pointer_walk C ppb n (block_ptr (C block) (k div ppb ^ n mod ppb)) k"

definition indirect_block :: "(u64 \<Rightarrow> bytes) \<Rightarrow> u64 \<Rightarrow> bytes \<Rightarrow> u64 \<Rightarrow> u64 Ext4Result" where
  "indirect_block C ppb inode lb =
     (if lb < 12 then Ok (ucast (i_block inode (unat lb)))
      else if lb - 12 < ppb then Ok (pointer_walk C ppb 1 (ucast (i_block inode 12)) (lb - 12))
      else if lb - 12 - ppb < ppb ^ 2 then Ok (pointer_walk C ppb 2 (ucast (i_block inode 13)) (lb - 12 - ppb))
      else if lb - 12 - ppb - ppb ^ 2 < ppb ^ 3 then Ok (pointer_walk C ppb 3 (ucast (i_block inode 14)) (lb - 12 - ppb - ppb ^ 2))
      else Err Panic)"

lemma ptr_at_if: "ptr_at n b i = (if i < n then Ok (block_ptr b i) else Err Panic)"
  by (simp add: ptr_at_def block_ptr_def)

text \<open>
  the block of a file without extents is found by the walk through its direct pointers and its pointer trees of one,
  two and three levels; a block past the largest file the trees can describe makes the driver panic.
\<close>

theorem get_block_indirect_correct:
  assumes dev: "device_ok g fs C" and ppb: "ppb = ucast (fs_block_size fs) div 4" "0 < ppb" "ppb < 2 ^ 20"
  shows "get_block_indirect g fs inode lb = indirect_block C ppb inode lb"
proof -
  note D = device_okD [OF dev]
  have r: "reload g fs b buf = Ok (C b)" if "length buf = unat (fs_block_size fs)" for b buf by (rule reload_ok [OF dev that])
  have m: "x mod ppb < ppb" for x using ppb(2) by (simp add: word_less_nat_alt unat_mod)
  have u: "unat ppb < 2 ^ 20" "0 < unat ppb" using ppb(2,3) by (simp_all add: word_less_nat_alt)
  have sq: "unat (ppb * ppb) = unat ppb * unat ppb"
  proof -
    have "unat ppb * unat ppb < 2 ^ 20 * 2 ^ 20" using u by (intro mult_strict_mono) auto
    then show ?thesis by (simp add: unat_word_ariths)
  qed
  then have sq0: "ppb * ppb \<noteq> 0" using u by (metis mult_is_0 not_less_zero unat_0)
  have cube: "unat (ppb ^ 3) = unat ppb * unat ppb * unat ppb"
  proof -
    have "unat ppb * unat ppb * unat ppb < 2 ^ 20 * 2 ^ 20 * 2 ^ 20" using u by (intro mult_strict_mono) auto
    then show ?thesis by (simp add: power3_eq_cube unat_word_ariths(2) [of "ppb * ppb"] sq)
  qed
  have dv: "x div ppb < ppb \<longleftrightarrow> x < ppb * ppb" for x
    using u by (simp add: word_less_nat_alt unat_div sq div_less_iff_less_mult)
  have dv2: "x div (ppb * ppb) < ppb \<longleftrightarrow> x < ppb ^ 3" for x
    using u by (simp add: word_less_nat_alt unat_div sq cube div_less_iff_less_mult mult.assoc)
  have small: "x < ppb \<Longrightarrow> x mod ppb = x" for x by (simp add: word_unat_eq_iff word_less_nat_alt unat_mod)
  have pw1: "pointer_walk C ppb 1 b x = block_ptr (C b) x" if "x < ppb" for b x using that by (simp add: small)
  have pw2: "pointer_walk C ppb 2 b x = block_ptr (C (block_ptr (C b) (x div ppb))) (x mod ppb)" if "x < ppb * ppb" for b x
    using that small [of "x div ppb"] dv [of x] by (simp add: numeral_2_eq_2)
  have pw3: "pointer_walk C ppb 3 b x = block_ptr (C (block_ptr (C (block_ptr (C b) (x div (ppb * ppb)))) (x div ppb mod ppb))) (x mod ppb)"
    if "x < ppb ^ 3" for b x
    using that small [of "x div (ppb * ppb)"] dv2 [of x] by (simp add: numeral_3_eq_3)
  show ?thesis
    unfolding get_block_indirect_def indirect_block_def ppb(1) [symmetric] Let_def EXT4_NDIR_BLOCKS_def EXT4_IND_BLOCK_def EXT4_DIND_BLOCK_def
      EXT4_TIND_BLOCK_def power2_eq_square
    by (simp add: D r ptr_at_if m dv dv2 sq0 pw1 pw2 pw3 del: pointer_walk.simps One_nat_def)
qed

theorem get_block_indirect_correct_witness:
  "get_block_indirect ram_env (ram_fs demo_dir_disk) demo_dir 0 = Ok 9 \<and> get_block_indirect ram_env (ram_fs demo_dir_disk) demo_dir (12 + 256 + 256 ^ 2 + 256 ^ 3) = Err Panic"
  using get_block_indirect_correct [OF demo_dir_device, of 256 demo_dir 0]
    get_block_indirect_correct [OF demo_dir_device, of 256 demo_dir "12 + 256 + 256 ^ 2 + 256 ^ 3"]
  by (simp add: indirect_block_def demo_dir_facts)

end
