(* ===== verification/Ext4_Journal.thy ===== *)
theory Ext4_Journal
  imports Ext4_Indirect
begin

text \<open>
  The journal: what a commit writes and in which order, where in the journal it writes, and what becomes of a block that is
  written through the journal.
\<close>

unbundle bit_operations_syntax

section \<open>What a commit writes\<close>

text \<open>
  A device that keeps a log of its writes: a successful write adds its block and data, a failed one adds nothing. The device
  may fail at any write.
\<close>

definition logs_writes :: "'d env \<Rightarrow> 'd Ext4BlockOps \<Rightarrow> ('d \<Rightarrow> (u64 \<times> bytes) list) \<Rightarrow> bool" where
  "logs_writes g ops lg \<longleftrightarrow>
     (\<forall>wf. ops_write_block ops = Some wf \<longrightarrow> (\<forall>d b x. lg (snd (wf g d b x)) = (if fst (wf g d b x) = Ok () then lg d @ [(b, x)] else lg d)))
     \<and> (\<forall>sf. ops_sync ops = Some sf \<longrightarrow> (\<forall>d. lg (snd (sf g d)) = lg d))"

definition next_slot :: "u64 \<Rightarrow> u64 \<Rightarrow> u64" where
  "next_slot len jb = (if jb + 1 \<ge> len then 1 else jb + 1)"

definition header_bytes :: "u32 \<Rightarrow> u32 \<Rightarrow> u32 \<Rightarrow> bytes" where
  "header_bytes bs blocktype tid = jbd2_header blocktype tid @ replicate (unat bs - 12) 0"

text \<open>The writes of a commit in order: descriptor, data, commit record, and only then the blocks at their home.\<close>

definition data_writes :: "u64 \<Rightarrow> u64 \<Rightarrow> u64 \<Rightarrow> bytes list \<Rightarrow> (u64 \<times> bytes) list" where
  "data_writes start len jb ds = zip (map (\<lambda>i. start + (next_slot len ^^ i) jb) [0..<length ds]) ds"

definition commit_writes :: "u32 \<Rightarrow> Transaction \<Rightarrow> u64 \<Rightarrow> u64 \<Rightarrow> u64 \<Rightarrow> (u64 \<times> bytes) list" where
  "commit_writes bs txn start len jb =
     (start + jb, header_bytes bs JBD2_DESCRIPTOR_BLOCK (tr_tid txn)) # data_writes start len (jb + 1) (tr_data txn)
     @ (start + (next_slot len ^^ length (tr_data txn)) (jb + 1), header_bytes bs JBD2_COMMIT_BLOCK (tr_tid txn)) # zip (tr_blocks txn) (tr_data txn)"

text \<open>A call has written a prefix of a list, and all of it when it succeeds; everything but the device stays.\<close>

definition writes_prefix :: "('d \<Rightarrow> (u64 \<times> bytes) list) \<Rightarrow> (u64 \<times> bytes) list \<Rightarrow> 'd Ext4Filesystem \<Rightarrow> 'a Ext4Result \<times> 'd Ext4Filesystem \<Rightarrow> bool" where
  "writes_prefix lg ws fs r \<longleftrightarrow>
     (\<exists>k\<le>length ws. lg (fs_device (snd r)) = lg (fs_device fs) @ take k ws \<and> (\<forall>x. fst r = Ok x \<longrightarrow> k = length ws))
     \<and> snd r = fs\<lparr>fs_device := fs_device (snd r)\<rparr>"

lemma writes_prefix_then:
  assumes "writes_prefix lg ws fs r" "\<And>x fs'. r = (Ok x, fs') \<Longrightarrow> writes_prefix lg ws' fs' (f x fs')"
  shows "writes_prefix lg (ws @ ws') fs (then_fs r f)"
proof (cases r)
  case (Pair q fs')
  show ?thesis
  proof (cases q)
    case (Inl e)
    obtain k where "k \<le> length ws" "lg (fs_device fs') = lg (fs_device fs) @ take k ws" "fs' = fs\<lparr>fs_device := fs_device fs'\<rparr>"
      using assms(1) Pair by (auto simp: writes_prefix_def)
    then show ?thesis using Pair Inl unfolding writes_prefix_def then_fs_def by (auto intro!: exI [of _ k])
  next
    case (Inr x)
    note P = assms(1) [unfolded writes_prefix_def Pair Inr] and Q = assms(2) [unfolded Pair Inr, OF refl, unfolded writes_prefix_def]
    obtain k where k: "k \<le> length ws'" "lg (fs_device (snd (f x fs'))) = lg (fs_device fs') @ take k ws'"
      "\<forall>y. fst (f x fs') = Ok y \<longrightarrow> k = length ws'" using Q by blast
    have "lg (fs_device (snd (f x fs'))) = lg (fs_device fs) @ take (length ws + k) (ws @ ws')" using P k by auto
    moreover have "snd (f x fs') = fs\<lparr>fs_device := fs_device (snd (f x fs'))\<rparr>"
      using P Q by (metis Ext4Filesystem.surjective Ext4Filesystem.update_convs(1) snd_conv)
    ultimately show ?thesis using k Pair Inr unfolding writes_prefix_def then_fs_def
      by (auto intro!: exI [of _ "length ws + k"])
  qed
qed

lemma writes_prefix_nil: "writes_prefix lg [] fs (q, fs)"
  by (simp add: writes_prefix_def)

lemma write_block_logs:
  assumes "logs_writes g (fs_ops fs) lg"
  shows "writes_prefix lg [(b, x)] fs (write_block g fs b x)"
proof (cases "fs_readonly fs \<or> ops_write_block (fs_ops fs) = None")
  case True
  then show ?thesis by (auto simp: write_block_def writes_prefix_def)
next
  case False
  then obtain wf where wf: "ops_write_block (fs_ops fs) = Some wf" by blast
  then have l: "lg (snd (wf g (fs_device fs) b x)) = (if fst (wf g (fs_device fs) b x) = Ok () then lg (fs_device fs) @ [(b, x)] else lg (fs_device fs))"
    using assms by (simp add: logs_writes_def)
  show ?thesis
    using False wf l by (cases "wf g (fs_device fs) b x"; cases "fst (wf g (fs_device fs) b x)") (auto simp: write_block_def writes_prefix_def)
qed

lemma writes_prefix_ops: "writes_prefix lg ws fs r \<Longrightarrow> fs_ops (snd r) = fs_ops fs"
  by (metis Ext4Filesystem.select_convs(2) Ext4Filesystem.surjective Ext4Filesystem.update_convs(1) writes_prefix_def)

lemma write_journal_data_logs:
  assumes "logs_writes g (fs_ops fs) lg"
  shows "writes_prefix lg (data_writes start len jb ds) fs (write_journal_data g ds start len jb fs)
    \<and> (\<forall>jb'. fst (write_journal_data g ds start len jb fs) = Ok jb' \<longrightarrow> jb' = (next_slot len ^^ length ds) jb)"
  using assms
proof (induction ds arbitrary: jb fs)
  case Nil
  then show ?case by (simp add: data_writes_def writes_prefix_nil)
next
  case (Cons d ds)
  note W = write_block_logs [OF Cons.prems, of "start + jb" d]
  have shift: "data_writes start len jb (d # ds) = [(start + jb, d)] @ data_writes start len (next_slot len jb) ds"
    by (simp add: data_writes_def upt_conv_Cons map_Suc_upt [symmetric] funpow_swap1 comp_def del: upt_Suc)
  have ih: "writes_prefix lg (data_writes start len (next_slot len jb) ds) fs' (write_journal_data g ds start len (next_slot len jb) fs')
      \<and> (\<forall>jb'. fst (write_journal_data g ds start len (next_slot len jb) fs') = Ok jb' \<longrightarrow> jb' = (next_slot len ^^ length ds) (next_slot len jb))"
    if "write_block g fs (start + jb) d = (Ok x, fs')" for x fs'
    using Cons.IH [of fs' "next_slot len jb"] Cons.prems writes_prefix_ops [OF W] that by simp
  have u: "write_journal_data g (d # ds) start len jb fs = then_fs (write_block g fs (start + jb) d) (\<lambda>u. write_journal_data g ds start len (next_slot len jb))"
    by (simp add: next_slot_def)
  show ?case unfolding u shift using writes_prefix_then [OF W] ih
    by (auto simp: then_fs_def funpow_swap1 split: prod.splits sum.splits)
qed


lemma write_home_logs:
  assumes "logs_writes g (fs_ops fs) lg" "i + length bs = length ds"
  shows "writes_prefix lg (zip bs (drop i ds)) fs (write_home g (enumerate i bs) ds fs)"
  using assms
proof (induction bs arbitrary: i fs)
  case Nil
  then show ?case by (simp add: writes_prefix_nil)
next
  case (Cons b bs)
  then have i: "i < length ds" by simp
  note W = write_block_logs [OF Cons.prems(1), of b "ds ! i"]
  have split: "zip (b # bs) (drop i ds) = [(b, ds ! i)] @ zip bs (drop (Suc i) ds)" using i by (simp add: Cons_nth_drop_Suc [symmetric])
  have u: "write_home g (enumerate i (b # bs)) ds fs = then_fs (write_block g fs b (ds ! i)) (\<lambda>u. write_home g (enumerate (Suc i) bs) ds)"
    using i by simp
  show ?case unfolding u split
    by (rule writes_prefix_then [OF W]) (use Cons.IH [of _ "Suc i"] Cons.prems writes_prefix_ops [OF W] in auto)
qed

lemma header_block_bytes: "header_block g fs bt tid = Ok x \<Longrightarrow> x = header_bytes (fs_block_size fs) bt tid"
  by (auto simp: header_block_def kernel_alloc_bytes_def write_raw_def overwrite_def jbd2_header_def header_bytes_def numeral_eq_Suc
      split: if_splits option.splits)

lemma sync_device_logs: "logs_writes g (fs_ops fs) lg \<Longrightarrow> writes_prefix lg [] fs (sync_device g fs)"
  by (auto simp: sync_device_def writes_prefix_def logs_writes_def split: option.split prod.split) (metis snd_conv)

lemma same_size: "writes_prefix lg ws fs (q, fs') \<Longrightarrow> fs_block_size fs' = fs_block_size fs \<and> fs_ops fs' = fs_ops fs \<and> fs_journal fs' = fs_journal fs"
  unfolding writes_prefix_def snd_conv by (elim conjE) (erule ssubst, simp)

lemma writes_prefix_value: "(\<And>x. q = Ok x \<Longrightarrow> writes_prefix lg ws fs (f x fs)) \<Longrightarrow> writes_prefix lg ws fs (then_fs (q, fs) f)"
  using writes_prefix_then [OF writes_prefix_nil, of q fs lg ws f] by simp

text \<open>The same with what is known of the value, as a rule that walks through the calls of a commit.\<close>

definition writes_value :: "('d \<Rightarrow> (u64 \<times> bytes) list) \<Rightarrow> (u64 \<times> bytes) list \<Rightarrow> ('a \<Rightarrow> bool) \<Rightarrow> 'd Ext4Filesystem \<Rightarrow> 'a Ext4Result \<times> 'd Ext4Filesystem \<Rightarrow> bool" where
  "writes_value lg ws P fs r \<longleftrightarrow> writes_prefix lg ws fs r \<and> (\<forall>x. fst r = Ok x \<longrightarrow> P x)"

lemma writes_value_then:
  assumes "writes_value lg ws P fs r"
    "\<And>x fs'. P x \<Longrightarrow> fs_ops fs' = fs_ops fs \<Longrightarrow> fs_block_size fs' = fs_block_size fs \<Longrightarrow> writes_value lg ws' Q fs' (f x fs')"
  shows "writes_value lg (ws @ ws') Q fs (then_fs r f)"
proof -
  have c: "writes_value lg ws' Q fs' (f x fs')" if "r = (Ok x, fs')" for x fs'
    using assms same_size that by (metis fst_conv writes_value_def)
  then have "writes_prefix lg (ws @ ws') fs (then_fs r f)"
    using assms(1) by (intro writes_prefix_then) (auto simp: writes_value_def dest!: c)
  moreover have "\<forall>y. fst (then_fs r f) = Ok y \<longrightarrow> Q y"
    using c by (auto simp: then_fs_def writes_value_def split: prod.splits sum.splits)
  ultimately show ?thesis by (simp add: writes_value_def)
qed

lemma writes_value_header: "writes_value lg [] (\<lambda>x. x = header_bytes (fs_block_size fs) bt tid) fs (header_block g fs bt tid, fs)"
  by (simp add: writes_value_def writes_prefix_nil header_block_bytes)

lemma write_transaction_value:
  assumes lg: "logs_writes g (fs_ops fs) lg" and n: "length (tr_blocks txn) = length (tr_data txn)"
  shows "writes_value lg (commit_writes (fs_block_size fs) txn start len jb) (\<lambda>jb'. jb' = (next_slot len ^^ length (tr_data txn)) (jb + 1)) fs
    (write_transaction g txn start len jb fs)" (is "writes_value _ _ (\<lambda>jb'. jb' = ?jb) _ _")
proof -
  let ?D = "header_bytes (fs_block_size fs) JBD2_DESCRIPTOR_BLOCK (tr_tid txn)" and ?C = "header_bytes (fs_block_size fs) JBD2_COMMIT_BLOCK (tr_tid txn)"
  have block: "writes_value lg [(b, x)] (\<lambda>u. True) fs' (write_block g fs' b x)" if "fs_ops fs' = fs_ops fs" for fs' b x
    using write_block_logs lg that by (metis writes_value_def)
  have cw: "commit_writes (fs_block_size fs) txn start len jb =
      [] @ [(start + jb, ?D)] @ data_writes start len (jb + 1) (tr_data txn) @ [] @ [(start + ?jb, ?C)] @ zip (tr_blocks txn) (drop 0 (tr_data txn)) @ [] @ []"
    by (simp add: commit_writes_def)
  have sync: "writes_value lg [] (\<lambda>u. True) fs' (sync_device g fs')" if "fs_ops fs' = fs_ops fs" for fs'
    using sync_device_logs lg that by (metis writes_value_def)
  have home: "writes_value lg (zip (tr_blocks txn) (drop 0 (tr_data txn))) (\<lambda>u. True) fs' (write_home g (enumerate 0 (tr_blocks txn)) (tr_data txn) fs')"
    if "fs_ops fs' = fs_ops fs" for fs'
    using write_home_logs [of g fs' lg 0] lg n that by (simp add: writes_value_def)
  have data: "writes_value lg (data_writes start len (jb + 1) (tr_data txn)) (\<lambda>jb'. jb' = ?jb) fs' (write_journal_data g (tr_data txn) start len (jb + 1) fs')"
    if "fs_ops fs' = fs_ops fs" for fs'
    using write_journal_data_logs [of g fs'] lg that by (simp add: writes_value_def)
  show ?thesis unfolding write_transaction_def cw
    apply (rule writes_value_then [OF writes_value_header])
    apply (simp only:)
    apply (rule writes_value_then [OF block], simp)
    apply (rule writes_value_then [OF data], simp)
    apply (rule writes_value_then [OF writes_value_header])
    apply (simp only:)
    apply (rule writes_value_then [OF block], simp)
    apply (rule writes_value_then [OF home], simp)
    apply (rule writes_value_then [OF sync], simp)
    by (simp add: writes_value_def writes_prefix_nil)
qed

text \<open>A running transaction keeps one piece of data for every block.\<close>

definition journal_pairs :: "'d Ext4Filesystem \<Rightarrow> bool" where
  "journal_pairs fs \<longleftrightarrow> (\<forall>j txn. fs_journal fs = Some j \<longrightarrow> jn_transaction j = Some txn \<longrightarrow> length (tr_blocks txn) = length (tr_data txn))"

lemma journal_commit_value:
  assumes "logs_writes g (fs_ops fs) lg" "fs_journal fs = Some j" "jn_transaction j = Some txn" "length (tr_blocks txn) = length (tr_data txn)"
    "ws = commit_writes (fs_block_size fs) txn (jn_start j) (ucast (jn_length j)) (ucast (jn_head j))"
  shows "\<exists>k\<le>length ws. lg (fs_device (snd (journal_commit g fs))) = lg (fs_device fs) @ take k ws
    \<and> (fst (journal_commit g fs) = Ok () \<longrightarrow> k = length ws
        \<and> fs_journal (snd (journal_commit g fs)) = Some (j\<lparr>jn_transaction := None,
              jn_head := ucast ((next_slot (ucast (jn_length j)) ^^ length (tr_data txn)) (ucast (jn_head j) + 1)) + 1\<rparr>))"
proof -
  let ?fs = "fs\<lparr>fs_journal := Some (j\<lparr>jn_transaction := None\<rparr>)\<rparr>"
  let ?r = "write_transaction g txn (jn_start j) (ucast (jn_length j)) (ucast (jn_head j)) ?fs"
  have w: "writes_value lg ws (\<lambda>jb'. jb' = (next_slot (ucast (jn_length j)) ^^ length (tr_data txn)) (ucast (jn_head j) + 1)) ?fs ?r"
    using write_transaction_value [of g ?fs lg txn "jn_start j" "ucast (jn_length j)" "ucast (jn_head j)"] assms by simp
  obtain q fs' where r: "?r = (q, fs')" by force
  note W = w [unfolded r writes_value_def writes_prefix_def fst_conv snd_conv]
  obtain k where k: "k \<le> length ws" "lg (fs_device fs') = lg (fs_device fs) @ take k ws" "\<forall>x. q = Ok x \<longrightarrow> k = length ws"
    using W by auto
  have j: "fs_journal fs' = Some (j\<lparr>jn_transaction := None\<rparr>)" using W by (elim conjE) (erule ssubst, simp)
  have c: "journal_commit g fs = then_fs (q, fs') (\<lambda>jb fs. (Ok (), fs\<lparr>fs_journal := map_option (\<lambda>j. j\<lparr>jn_head := ucast jb + 1\<rparr>) (fs_journal fs)\<rparr>))"
    by (simp add: journal_commit_def assms r)
  show ?thesis using k j W by (cases q) (auto simp: c then_fs_def intro!: exI [of _ k])
qed

text \<open>The positions in the journal.\<close>

lemma next_slot_inside: "1 \<le> jb \<Longrightarrow> jb < len \<Longrightarrow> 1 \<le> next_slot len jb \<and> next_slot len jb < len"
proof -
  assume h: "1 \<le> jb" "jb < len"
  then have "unat (jb + 1) = unat jb + 1" by (auto intro: unat_add_1)
  then show ?thesis using h by (auto simp: next_slot_def word_le_nat_alt word_less_nat_alt)
qed

lemma next_slots_inside: "1 \<le> jb \<Longrightarrow> jb < len \<Longrightarrow> 1 \<le> (next_slot len ^^ i) jb \<and> (next_slot len ^^ i) jb < len"
  by (induction i) (auto dest: next_slot_inside)

lemma shift_inside: "unat (start :: u64) + unat len < 2 ^ 64 \<Longrightarrow> 1 \<le> jb \<and> jb < len \<Longrightarrow> start < start + jb \<and> start + jb < start + len"
  by (auto simp: word_le_nat_alt word_less_nat_alt unat_word_ariths)

lemma commit_writes_inside:
  assumes "1 \<le> unat jb" "unat jb + 1 < unat len" "unat start + unat len < 2 ^ 64"
    "w \<in> set (take (length (tr_data txn) + 2) (commit_writes bs txn start len jb))"
  shows "start < fst w \<and> fst w < start + len"
proof -
  have "jb < len" using assms(2) by (simp add: word_less_nat_alt)
  then have "unat (jb + 1) = unat jb + 1" by (simp add: unat_add_1)
  then have jb: "1 \<le> jb" "jb < len" "1 \<le> jb + 1" "jb + 1 < len" using assms(1,2) by (simp_all add: word_le_nat_alt word_less_nat_alt)
  have n: "length (data_writes start len (jb + 1) (tr_data txn)) = length (tr_data txn)" by (simp add: data_writes_def)
  have "w \<in> set ((start + jb, header_bytes bs JBD2_DESCRIPTOR_BLOCK (tr_tid txn)) # data_writes start len (jb + 1) (tr_data txn)
     @ [(start + (next_slot len ^^ length (tr_data txn)) (jb + 1), header_bytes bs JBD2_COMMIT_BLOCK (tr_tid txn))])"
    using assms(4) n by (simp add: commit_writes_def)
  moreover have "\<exists>i. fst w = start + (next_slot len ^^ i) (jb + 1)" if "w \<in> set (data_writes start len (jb + 1) (tr_data txn))"
    using that by (auto simp: data_writes_def in_set_zip eq_commute [of _ "fst w"])
  ultimately show ?thesis
    using shift_inside [OF assms(3)] next_slots_inside [OF jb(3,4)] jb(1,2) by fastforce
qed

lemma next_head_inside:
  assumes "unat (h :: u32) + 1 < unat len" "(h' :: u32) = ucast ((next_slot (ucast len) ^^ n) (ucast h + 1) :: u64) + 1"
  shows "2 \<le> unat h' \<and> unat h' \<le> unat (len :: u32)"
proof -
  let ?e = "(next_slot (ucast len) ^^ n) (ucast h + 1) :: u64"
  have u: "unat (ucast h :: u64) = unat h" "unat (ucast len :: u64) = unat len" by simp_all
  have "(ucast h :: u64) < ucast len" using assms(1) u by (simp add: word_less_nat_alt)
  then have "unat (ucast h + 1 :: u64) = unat h + 1" by (simp add: unat_add_1 u)
  then have "1 \<le> ?e \<and> ?e < ucast len" using assms(1) u by (intro next_slots_inside) (simp_all add: word_le_nat_alt word_less_nat_alt)
  then have e: "1 \<le> unat ?e" "unat ?e < unat len" using u by (simp_all add: word_le_nat_alt word_less_nat_alt)
  moreover have "unat len < 2 ^ 32" using unsigned_less [of len, where ?'a = nat] by simp
  ultimately have c: "unat (ucast ?e :: u32) = unat ?e" by (simp add: unsigned_ucast_eq take_bit_nat_eq_self)
  then have "(ucast ?e :: u32) < len" using e by (simp add: word_less_nat_alt)
  then have "unat h' = unat ?e + 1" using c unat_add_1 [of "ucast ?e :: u32" len] by (simp add: assms(2))
  then show ?thesis using e by simp
qed

section \<open>Properties of the journal\<close>

text \<open>
  C32: A commit writes ahead: whatever write or flush of the device fails, what reached the device is a prefix of descriptor, data,
  commit record and home blocks in this order, so no block is changed at its home before the commit record is written; a commit
  that succeeds has written all of it, drops the transaction and moves the head behind the commit record.
\<close>

theorem journal_commit_write_ahead:
  assumes "logs_writes g (fs_ops fs) lg" "fs_journal fs = Some j" "jn_transaction j = Some txn" "length (tr_blocks txn) = length (tr_data txn)"
    "ws = commit_writes (fs_block_size fs) txn (jn_start j) (ucast (jn_length j)) (ucast (jn_head j))"
  shows "\<exists>k\<le>length ws. lg (fs_device (snd (journal_commit g fs))) = lg (fs_device fs) @ take k ws
    \<and> (fst (journal_commit g fs) = Ok () \<longrightarrow> k = length ws
        \<and> fs_journal (snd (journal_commit g fs)) = Some (j\<lparr>jn_transaction := None,
              jn_head := ucast ((next_slot (ucast (jn_length j)) ^^ length (tr_data txn)) (ucast (jn_head j) + 1)) + 1\<rparr>))"
  using assms by (rule journal_commit_value)

text \<open>A journal of 8 blocks at block 100 whose device logs the writes and fails from the \<open>n\<close>-th write on.\<close>

definition log_ops :: "nat \<Rightarrow> (u64 \<times> bytes) list Ext4BlockOps" where
  "log_ops n = \<lparr>ops_read_block = Some (\<lambda>g d b buf. (Ok (), buf)),
     ops_write_block = Some (\<lambda>g d b x. if length d < n then (Ok (), d @ [(b, x)]) else (Err Io, d)), ops_sync = Some (\<lambda>g d. (Ok (), d))\<rparr>"

definition log_env :: "(u64 \<times> bytes) list env" where
  "log_env = \<lparr>kmalloc_ptr = (\<lambda>_. 0x100000), EXT4_C_READ = None, EXT4_C_WRITE = None, EXT4_C_SYNC = None\<rparr>"

definition demo_journal :: "u32 \<Rightarrow> Transaction option \<Rightarrow> Journal" where
  "demo_journal h txn = \<lparr>jn_superblock = zeroed Jbd2Superblock, jn_start = 100, jn_length = 8, jn_current_sequence = 5, jn_head = h, jn_tail = 1,
     jn_running = True, jn_transaction = txn\<rparr>"

definition log_fs :: "nat \<Rightarrow> Journal \<Rightarrow> (u64 \<times> bytes) list Ext4Filesystem" where
  "log_fs n j = \<lparr>fs_device = [], fs_ops = log_ops n, fs_superblock = zeroed Ext4Superblock, fs_group_descs = [zeroed Ext4GroupDesc],
     fs_journal = Some j, fs_block_size = 16, fs_blocks_per_group = 8192, fs_inodes_per_group = 16, fs_inode_size = 256,
     fs_group_count = 1, fs_desc_size = 32, fs_total_blocks = 64, fs_readonly = False, fs_use_extents = True, fs_use_64bit = False\<rparr>"

lemma log_fs_simps [simp]:
  "fs_ops (log_fs n j) = log_ops n" "fs_journal (log_fs n j) = Some j" "fs_block_size (log_fs n j) = 16" "fs_device (log_fs n j) = []"
  "fs_readonly (log_fs n j) = False" "kmalloc_ptr log_env k = 0x100000"
  by (simp_all add: log_fs_def log_env_def)

lemma log_ops_logs: "logs_writes log_env (log_ops n) (\<lambda>d. d)"
  by (simp add: logs_writes_def log_ops_def)

lemmas journal_eval = journal_commit_def write_transaction_def then_fs_def header_block_def kernel_alloc_bytes_def write_raw_def jbd2_header_def
  write_block_def write_journal_data.simps write_home.simps enumerate_simps sync_device_def

text \<open>The device takes the descriptor and one data block and fails: no home block is written.\<close>

definition demo_txn :: Transaction where
  "demo_txn = \<lparr>tr_tid = 5, tr_blocks = [40, 41], tr_data = [replicate 16 1, replicate 16 2]\<rparr>"

theorem journal_commit_write_ahead_witness:
  "\<exists>k\<le>6. fs_device (snd (journal_commit log_env (log_fs 2 (demo_journal 6 (Some demo_txn))))) =
    take k (commit_writes 16 demo_txn 100 8 6)"
proof -
  have "length (commit_writes 16 demo_txn 100 8 6) = 6" by (simp add: commit_writes_def demo_txn_def data_writes_def)
  then show ?thesis
    using journal_commit_write_ahead [of log_env "log_fs 2 (demo_journal 6 (Some demo_txn))" "\<lambda>d. d", OF _ _ _ _ refl, of "demo_journal 6 (Some demo_txn)" demo_txn]
    by (auto simp: log_ops_logs demo_journal_def demo_txn_def)
qed


lemma demo_fields:
  "jn_start (demo_journal h t) = 100" "jn_length (demo_journal h t) = 8" "jn_head (demo_journal h t) = h"
  "jn_transaction (demo_journal h t) = t" "length (tr_data demo_txn) = 2"
  by (simp_all add: demo_journal_def demo_txn_def)

text \<open>A commit into the blocks 104 to 107 leaves the head at 8, behind the last block of the journal.\<close>

lemma demo_commit:
  "fst (journal_commit log_env (log_fs 9 (demo_journal 4 (Some demo_txn)))) = Ok ()"
  "map_option jn_head (fs_journal (snd (journal_commit log_env (log_fs 9 (demo_journal 4 (Some demo_txn)))))) = Some 8"
  by (simp_all add: journal_eval log_ops_def demo_journal_def demo_txn_def log_fs_def log_env_def to_le_def)


lemma write_block_journaled_running:
  assumes "fs_journal fs = Some j" "jn_running j" "jn_transaction j = None" "write_block_journaled g fs b d = (Ok (), fs')"
  shows "fs' = fs\<lparr>fs_journal := Some (j\<lparr>jn_current_sequence := jn_current_sequence j + 1,
    jn_transaction := Some \<lparr>tr_tid = jn_current_sequence j, tr_blocks = [b], tr_data = [replicate (length d) 0]\<rparr>\<rparr>)\<rparr>"
  using assms by (auto simp: write_block_journaled_def kernel_alloc_bytes_def journal_add_block_def start_transaction_def
      transaction_add_block_def Transaction_new_def split: if_splits)

text \<open>
  C34: A write through a running journal is lost: the copy that goes into the transaction is the zeroed buffer of its length, so the
  commit puts zeros into the journal and then over the block at its home, and the data is nowhere.
\<close>

theorem journaled_write_commits_zeros:
  assumes lg: "logs_writes g (fs_ops fs) lg"
    and j: "fs_journal fs = Some j" "jn_running j" "jn_transaction j = None"
    and w: "write_block_journaled g fs b d = (Ok (), fs')" and c: "journal_commit g fs' = (Ok (), fs'')"
    and p: "h = ucast (jn_head j)" "len = ucast (jn_length j)"
  shows "fs_device fs' = fs_device fs
    \<and> lg (fs_device fs'') = lg (fs_device fs) @
        [(jn_start j + h, header_bytes (fs_block_size fs) JBD2_DESCRIPTOR_BLOCK (jn_current_sequence j)),
         (jn_start j + (h + 1), replicate (length d) 0),
         (jn_start j + next_slot len (h + 1), header_bytes (fs_block_size fs) JBD2_COMMIT_BLOCK (jn_current_sequence j)),
         (b, replicate (length d) 0)]"
  using journal_commit_value [of g fs' lg, OF _ _ _ _ refl] lg p
  unfolding write_block_journaled_running [OF j w] c [unfolded write_block_journaled_running [OF j w]]
  by (simp add: commit_writes_def data_writes_def)

theorem journaled_write_commits_zeros_witness:
  "\<exists>fs' fs''. write_block_journaled log_env (log_fs 9 (demo_journal 1 None)) 40 (replicate 16 7) = (Ok (), fs')
    \<and> journal_commit log_env fs' = (Ok (), fs'') \<and> last (fs_device fs'') = (40, replicate 16 0)"
proof -
  define fs' where "fs' = snd (write_block_journaled log_env (log_fs 9 (demo_journal 1 None)) 40 (replicate 16 7))"
  define fs'' where "fs'' = snd (journal_commit log_env fs')"
  have w: "write_block_journaled log_env (log_fs 9 (demo_journal 1 None)) 40 (replicate 16 7) = (Ok (), fs')"
    by (simp add: fs'_def write_block_journaled_def kernel_alloc_bytes_def demo_journal_def)
  have "fst (journal_commit log_env fs') = Ok ()"
    by (simp add: fs'_def write_block_journaled_def demo_journal_def journal_add_block_def start_transaction_def transaction_add_block_def
        Transaction_new_def journal_eval log_ops_def log_fs_def log_env_def to_le_def)
  then have c: "journal_commit log_env fs' = (Ok (), fs'')" by (simp add: fs''_def prod_eq_iff)
  have "last (fs_device fs'') = (40, replicate 16 0)"
    using journaled_write_commits_zeros [OF _ _ _ _ w c refl refl, of "\<lambda>d. d" "demo_journal 1 None"]
    by (simp add: log_ops_logs demo_journal_def)
  then show ?thesis using w c by blast
qed

end
