(* ===== verification/Ext4_Mount.thy ===== *)
theory Ext4_Mount
  imports Ext4_Indirect
begin

text \<open>
  Mounting, with the shape of a mounted filesystem, and the round trip of inodes through their table on a device that keeps what
  is written.
\<close>

unbundle bit_operations_syntax

section \<open>A device that keeps what is written\<close>

text \<open>Reads of whole blocks succeed, and a write that succeeds changes its block and no other.\<close>

definition device_keeps :: "'d env \<Rightarrow> 'd Ext4Filesystem \<Rightarrow> ('d \<Rightarrow> u64 \<Rightarrow> bytes) \<Rightarrow> bool" where
  "device_keeps g fs disk \<longleftrightarrow> (\<forall>d. device_ok g (fs\<lparr>fs_device := d\<rparr>) (disk d))
     \<and> (\<forall>wf. ops_write_block (fs_ops fs) = Some wf \<longrightarrow> (\<forall>d b x d'. length x = unat (fs_block_size fs) \<longrightarrow> wf g d b x = (Ok (), d') \<longrightarrow> disk d' = (disk d)(b := x)))"

lemma device_keeps_ok: "device_keeps g fs disk \<Longrightarrow> device_ok g (fs\<lparr>fs_device := d\<rparr>) (disk d)"
  by (simp add: device_keeps_def)

lemma device_keeps_here: "device_keeps g fs disk \<Longrightarrow> device_ok g fs (disk (fs_device fs))"
  using device_keeps_ok [of g fs disk "fs_device fs"] by simp

lemma write_block_keeps:
  assumes "device_keeps g fs disk" "write_block g fs b x = (Ok (), fs')" "length x = unat (fs_block_size fs)"
  obtains d' where "fs' = fs\<lparr>fs_device := d'\<rparr>" "disk d' = (disk (fs_device fs))(b := x)"
proof -
  obtain wf where wf: "ops_write_block (fs_ops fs) = Some wf" using assms(2) by (auto simp: write_block_def split: if_splits option.splits)
  obtain q d' where "wf g (fs_device fs) b x = (q, d')" by force
  then have "wf g (fs_device fs) b x = (Ok (), d') \<and> fs' = fs\<lparr>fs_device := d'\<rparr>"
    using assms(2) wf by (auto simp: write_block_def split: if_splits sum.splits)
  then show thesis using that assms(1,3) wf by (auto simp: device_keeps_def)
qed

lemma inode_place_device [simp]: "inode_place (fs\<lparr>fs_device := d\<rparr>) n = inode_place fs n"
  by (simp add: inode_place_def Let_def cong: if_cong)

lemma read_inode_at:
  assumes "device_ok g fs C" "inode_place fs n = Ok (b, i)" "n \<noteq> 0"
  shows "read_inode g fs n = read_raw (C b) i (size_of Ext4Inode)"
  using assms by (simp add: read_inode_def load_block_ok)

lemma sub_bytes_overwrite_other:
  assumes "i + length new \<le> length b" "i + length new \<le> k \<or> k + n \<le> i" "k + n \<le> length b"
  shows "sub_bytes (overwrite b i new) k n = sub_bytes b k n"
  using assms by (intro nth_equalityI) (auto simp: length_sub_bytes nth_sub_bytes nth_overwrite)

lemma write_inode_at:
  assumes "device_keeps g fs disk" "fs_journal fs = None" "write_inode g fs n inode = (Ok (), fs')"
  obtains b i d' where "n \<noteq> 0" "inode_place fs n = Ok (b, i)" "i + length inode \<le> length (disk (fs_device fs) b)" "fs' = fs\<lparr>fs_device := d'\<rparr>"
    "disk d' = (disk (fs_device fs))(b := overwrite (disk (fs_device fs) b) i inode)"
proof -
  note dev = device_keeps_here [OF assms(1)]
  obtain b i where p: "n \<noteq> 0" "inode_place fs n = Ok (b, i)"
    using assms(3) by (cases "inode_place fs n") (auto simp: write_inode_def split: if_splits)
  then have w: "i + length inode \<le> length (disk (fs_device fs) b)" "write_block g fs b (overwrite (disk (fs_device fs) b) i inode) = (Ok (), fs')"
    using assms(2,3) by (auto simp: write_inode_def load_block_ok [OF dev] write_raw_def write_block_journaled_def split: if_splits)
  have "length (overwrite (disk (fs_device fs) b) i inode) = unat (fs_block_size fs)" using w(1) device_okD(3) [OF dev] by simp
  from write_block_keeps [OF assms(1) w(2) this] show thesis using that p w(1) by metis
qed

text \<open>
  C31: An inode written without a journal is read back, and every inode whose bytes do not overlap its own reads as before.
\<close>

theorem inode_round_trip:
  assumes "device_keeps g fs disk" "fs_journal fs = None" "length inode = size_of Ext4Inode" "write_inode g fs n inode = (Ok (), fs')"
  shows "read_inode g fs' n = Ok inode
    \<and> (\<forall>m b i b' i'. inode_place fs n = Ok (b, i) \<longrightarrow> inode_place fs m = Ok (b', i')
        \<longrightarrow> (if b' = b then i + size_of Ext4Inode \<le> i' \<or> i' + size_of Ext4Inode \<le> i else True)
        \<longrightarrow> read_inode g fs' m = read_inode g fs m)"
proof -
  note dev = device_keeps_here [OF assms(1)]
  obtain b i d' where n: "n \<noteq> 0" "inode_place fs n = Ok (b, i)" "i + length inode \<le> length (disk (fs_device fs) b)" "fs' = fs\<lparr>fs_device := d'\<rparr>"
    "disk d' = (disk (fs_device fs))(b := overwrite (disk (fs_device fs) b) i inode)"
    using write_inode_at [OF assms(1,2,4)] .
  have dev': "device_ok g fs' (disk d')" using device_keeps_ok [OF assms(1)] n(4) by simp
  have "read_inode g fs' n = Ok inode"
    using read_inode_at [OF dev', of n] n assms(3) sub_bytes_overwrite [of i inode] by (simp add: read_raw_def)
  moreover have "read_inode g fs' m = read_inode g fs m"
    if m: "inode_place fs m = Ok (b', i')" "if b' = b then i + size_of Ext4Inode \<le> i' \<or> i' + size_of Ext4Inode \<le> i else True" for m b' i'
  proof (cases "m = 0")
    case False
    have "read_raw (disk d' b') i' (size_of Ext4Inode) = read_raw (disk (fs_device fs) b') i' (size_of Ext4Inode)"
      using n(3,5) m(2) assms(3) sub_bytes_overwrite_other [of i inode] by (auto simp: read_raw_def split: if_splits)
    then show ?thesis using read_inode_at [OF dev', of m] read_inode_at [OF dev, of m] m(1) n(4) False by simp
  qed (simp add: read_inode_def)
  ultimately show ?thesis using n(2) by simp
qed

text \<open>A device in memory with blocks of 1024 bytes.\<close>

definition disk_block :: "(u64 \<Rightarrow> bytes) \<Rightarrow> u64 \<Rightarrow> bytes" where
  "disk_block d b = fill_slice (replicate 1024 0) (d b)"

definition disk_ops :: "(u64 \<Rightarrow> bytes) Ext4BlockOps" where
  "disk_ops = \<lparr>ops_read_block = Some (\<lambda>g d b buf. (Ok (), disk_block d b)), ops_write_block = Some (\<lambda>g d b x. (Ok (), d(b := x))),
     ops_sync = Some (\<lambda>g d. (Ok (), d))\<rparr>"

definition disk_fs :: "(u64 \<Rightarrow> bytes) \<Rightarrow> (u64 \<Rightarrow> bytes) Ext4Filesystem" where
  "disk_fs d = (ram_fs d)\<lparr>fs_ops := disk_ops\<rparr>"

lemma length_fill_slice [simp]: "length (fill_slice buf new) = length buf"
  by (simp add: fill_slice_def)

lemma disk_fs_simps [simp]:
  "fs_ops (disk_fs d) = disk_ops" "fs_journal (disk_fs d) = None" "fs_readonly (disk_fs d) = False" "fs_block_size (disk_fs d) = 1024"
  "fs_device (disk_fs d) = d"
  by (simp_all add: disk_fs_def)

lemma disk_keeps: "device_keeps ram_env (disk_fs d) disk_block"
  by (auto simp: device_keeps_def device_ok_def disk_fs_def disk_ops_def read_block_def disk_block_def fun_eq_iff)

text \<open>Inode 3 is written; inode 4 of the same block reads as before.\<close>

theorem inode_round_trip_witness:
  "\<exists>fs'. write_inode ram_env (disk_fs (\<lambda>b. [])) 3 (replicate 160 5) = (Ok (), fs') \<and> read_inode ram_env fs' 3 = Ok (replicate 160 5)
    \<and> read_inode ram_env fs' 4 = read_inode ram_env (disk_fs (\<lambda>b. [])) 4"
proof -
  let ?fs = "disk_fs (\<lambda>b. [])"
  have p: "inode_place ?fs 3 = Ok (0, 512)" "inode_place ?fs 4 = Ok (0, 768)"
    by (simp_all add: inode_place_def disk_fs_def ram_fs_def zeroed_def size_of_def Ext4GroupDesc_def bg_inode_table_lo_def field_def field_bytes_def
        sub_bytes_def le_word_def funpow_push_bit)
  obtain q fs' where w: "write_inode ram_env ?fs 3 (replicate 160 5) = (q, fs')" by force
  have "q = Ok ()"
    using w by (auto simp: write_inode_def p load_block_ok [OF device_keeps_here [OF disk_keeps]] write_raw_def disk_block_def write_block_journaled_def
        write_block_def disk_ops_def)
  then have w: "write_inode ram_env ?fs 3 (replicate 160 5) = (Ok (), fs')" using w by simp
  have "fs_journal ?fs = None" "length (replicate 160 5 :: bytes) = size_of Ext4Inode" by (simp_all add: struct_sizes)
  then show ?thesis using inode_round_trip [OF disk_keeps _ _ w] w p by (auto simp: struct_sizes)
qed

section \<open>Group descriptors\<close>

lemma descs_in_block_size: "d \<in> set (descs_in_block js fs base buffer) \<Longrightarrow> unat (fs_desc_size fs) \<ge> 32 \<Longrightarrow> length d = size_of Ext4GroupDesc"
proof (induction js)
  case (Cons j js)
  have "min (size_of Ext4GroupDesc) (unat (fs_desc_size fs)) \<le> 64" by (simp add: struct_sizes)
  then show ?case using Cons by (auto simp: Let_def zeroed_def length_sub_bytes struct_sizes split: if_splits)
qed simp

lemma descs_in_block_length:
  assumes "unat base + p \<le> 2 ^ 32" "a \<le> p"
  shows "length (descs_in_block (map word_of_nat [a..<p]) fs base buffer) = min (p - a) (unat (fs_group_count fs) - (unat base + a))"
  using assms(2)
proof (induction "p - a" arbitrary: a)
  case (Suc n)
  then have a: "a < p" by simp
  then have l: "[a..<p] = a # [Suc a..<p]" by (simp add: upt_conv_Cons)
  have "unat (base + word_of_nat a) = unat base + a"
    using assms(1) a by (simp add: unat_word_ariths unat_of_nat)
  then have g: "base + word_of_nat a \<ge> fs_group_count fs \<longleftrightarrow> unat (fs_group_count fs) \<le> unat base + a" by (simp add: word_le_nat_alt)
  have "length (descs_in_block (map word_of_nat [Suc a..<p]) fs base buffer) = min (p - Suc a) (unat (fs_group_count fs) - (unat base + Suc a))"
    using Suc a by simp
  then show ?case using a g by (simp add: l Let_def) linarith
qed simp

lemma read_desc_blocks_size:
  assumes "read_desc_blocks is g fs pb start buffer = Ok ds" "unat (fs_desc_size fs) \<ge> 32" "d \<in> set ds"
  shows "length d = size_of Ext4GroupDesc"
  using assms
proof (induction "is" arbitrary: buffer ds)
  case (Cons i is')
  then show ?case using descs_in_block_size by (fastforce simp: and_then_def split: sum.splits)
qed simp

lemma read_desc_blocks_length:
  assumes "read_desc_blocks (map word_of_nat [i..<n]) g fs pb start buffer = Ok ds" "n * unat pb < 2 ^ 32" "i \<le> n" "0 < unat pb"
  shows "length ds = min (unat (fs_group_count fs)) (n * unat pb) - i * unat pb"
  using assms(1,3)
proof (induction "n - i" arbitrary: i ds buffer)
  case 0
  then show ?case by simp
next
  case (Suc k)
  then have i: "i < n" by simp
  then have l: "[i..<n] = i # [Suc i..<n]" by (simp add: upt_conv_Cons)
  obtain buffer' rest where r: "read_desc_blocks (map word_of_nat [Suc i..<n]) g fs pb start buffer' = Ok rest"
    "ds = descs_in_block (range_w 0 pb) fs (word_of_nat i * pb) buffer' @ rest"
    using Suc.prems(1) by (auto simp: l and_then_def split: sum.splits)
  have ih: "length rest = min (unat (fs_group_count fs)) (n * unat pb) - Suc i * unat pb" using Suc.hyps(1) [of "Suc i", OF _ r(1)] Suc.hyps(2) i by simp
  have m: "Suc i * unat pb \<le> n * unat pb" using i by (intro mult_right_mono) auto
  then have b: "i * unat pb + unat pb < 2 ^ 32" using assms(2) by simp
  then have u: "unat (word_of_nat i * pb) = i * unat pb"
    using assms(4) by (simp add: unat_word_ariths unat_of_nat mod_mult_left_eq)
  have "length (descs_in_block (range_w 0 pb) fs (word_of_nat i * pb) buffer') = min (unat pb) (unat (fs_group_count fs) - i * unat pb)"
    using descs_in_block_length [of "word_of_nat i * pb" "unat pb" 0] b u by (simp add: range_w_def)
  then have "length ds = min (unat pb) (unat (fs_group_count fs) - i * unat pb) + (min (unat (fs_group_count fs)) (n * unat pb) - Suc i * unat pb)"
    using ih r(2) by simp
  then show ?case using m unfolding mult_Suc by linarith
qed

section \<open>Mounting\<close>

lemma and_then_Ok: "and_then r f = Ok y \<longleftrightarrow> (\<exists>x. r = Ok x \<and> f x = Ok y)"
  by (auto simp: and_then_def split: sum.split)

lemma reload_length: "reload g fs b buf = Ok x \<Longrightarrow> length x = length buf"
  by (auto simp: reload_def read_block_def fill_slice_def split: option.splits prod.splits sum.splits)

lemma read_superblock_Ok:
  assumes "read_superblock g fs = Ok fs'"
  shows "length (fs_superblock fs') = size_of Ext4Superblock" "s_magic (fs_superblock fs') = EXT4_SUPER_MAGIC"
    "fs_block_size fs' = push_bit (unat (s_log_block_size (fs_superblock fs') AND 31)) EXT4_MIN_BLOCK_SIZE"
    "fs_blocks_per_group fs' \<noteq> 0" "unat (fs_desc_size fs') \<ge> 32" "fs_group_descs fs' = fs_group_descs fs" "fs_journal fs' = fs_journal fs"
    "fs_readonly fs' = fs_readonly fs"
proof -
  obtain buf buffer where b: "kernel_alloc_bytes g (unat EXT4_MIN_BLOCK_SIZE * 2) = Some buf" "reload g fs 0 buf = Ok buffer"
    using assms by (auto simp: read_superblock_def and_then_Ok split: option.splits)
  then have l: "length buffer = 2048" using reload_length by (fastforce simp: kernel_alloc_bytes_def EXT4_MIN_BLOCK_SIZE_def split: if_splits)
  define sb where "sb = sub_bytes buffer EXT4_SUPERBLOCK_OFFSET (size_of Ext4Superblock)"
  note U = assms [unfolded read_superblock_def b option.case and_then_simps Let_def, folded sb_def]
  show "length (fs_superblock fs') = size_of Ext4Superblock" "s_magic (fs_superblock fs') = EXT4_SUPER_MAGIC"
    "fs_block_size fs' = push_bit (unat (s_log_block_size (fs_superblock fs') AND 31)) EXT4_MIN_BLOCK_SIZE"
    "fs_blocks_per_group fs' \<noteq> 0" "fs_group_descs fs' = fs_group_descs fs" "fs_journal fs' = fs_journal fs" "fs_readonly fs' = fs_readonly fs"
    using U l by (auto split: if_splits simp: sb_def length_sub_bytes struct_sizes EXT4_SUPERBLOCK_OFFSET_def)
  show "unat (fs_desc_size fs') \<ge> 32"
    using U by (auto split: if_splits simp: max_def word_le_nat_alt)
qed

lemma read_group_descriptors_Ok:
  assumes "read_group_descriptors g fs = Ok fs'" "unat (fs_desc_size fs) \<ge> 32" "fs_group_descs fs = []"
  shows "fs' = fs\<lparr>fs_group_descs := fs_group_descs fs'\<rparr>" "fs_block_size fs div fs_desc_size fs \<noteq> 0"
    "\<forall>d \<in> set (fs_group_descs fs'). length d = size_of Ext4GroupDesc"
    "unat (fs_group_count fs) + unat (fs_block_size fs div fs_desc_size fs) \<le> 2 ^ 32 \<Longrightarrow> length (fs_group_descs fs') = unat (fs_group_count fs)"
proof -
  let ?pb = "fs_block_size fs div fs_desc_size fs"
  let ?n = "(fs_group_count fs + ?pb - 1) div ?pb"
  obtain st buf ds where r: "?pb \<noteq> 0" "read_desc_blocks (range_w 0 ?n) g fs ?pb st buf = Ok ds" "fs' = fs\<lparr>fs_group_descs := ds\<rparr>"
    using assms by (auto simp: read_group_descriptors_def Let_def and_then_Ok split: if_splits option.splits)
  show "fs' = fs\<lparr>fs_group_descs := fs_group_descs fs'\<rparr>" "?pb \<noteq> 0" using r by simp_all
  show "\<forall>d \<in> set (fs_group_descs fs'). length d = size_of Ext4GroupDesc" using read_desc_blocks_size [OF r(2) assms(2)] r(3) by simp
  assume c: "unat (fs_group_count fs) + unat ?pb \<le> 2 ^ 32"
  have pb: "0 < unat ?pb" using r(1) unat_gt_0 by blast
  have u: "unat (fs_group_count fs + ?pb - 1) = unat (fs_group_count fs) + unat ?pb - 1"
  proof -
    have "unat (?pb - 1) = unat ?pb - 1" using pb by (subst unat_sub) (simp_all add: word_le_nat_alt Suc_le_eq)
    then have "unat (fs_group_count fs + (?pb - 1)) = unat (fs_group_count fs) + (unat ?pb - 1)"
      using c pb by (simp add: unat_word_ariths)
    then show ?thesis using pb by (simp add: algebra_simps)
  qed
  let ?N = "unat (fs_group_count fs) + unat ?pb - 1"
  have n: "unat ?n = ?N div unat ?pb" by (simp add: unat_div u)
  have "?N = ?N div unat ?pb * unat ?pb + ?N mod unat ?pb" "?N mod unat ?pb < unat ?pb" using pb by simp_all
  then have "unat ?n * unat ?pb < 2 ^ 32" "unat (fs_group_count fs) \<le> unat ?n * unat ?pb"
    unfolding n using c pb by linarith+
  then show "length (fs_group_descs fs') = unat (fs_group_count fs)"
    using read_desc_blocks_length [OF r(2) [unfolded range_w_def unsigned_0] _ le0 pb] r(3) by simp
qed

lemma init_journal_Ok:
  assumes "init_journal g fs = Ok fs'" "fs_journal fs = None" "length (fs_superblock fs) = size_of Ext4Superblock"
  shows "fs' = fs\<lparr>fs_superblock := fs_superblock fs', fs_journal := fs_journal fs'\<rparr> \<and> length (fs_superblock fs') = size_of Ext4Superblock
    \<and> s_magic (fs_superblock fs') = s_magic (fs_superblock fs) \<and> s_log_block_size (fs_superblock fs') = s_log_block_size (fs_superblock fs)
    \<and> (\<forall>x. fs_journal fs' = Some x \<longrightarrow> h_magic (field_bytes Jbd2Superblock ''s_header'' (jn_superblock x)) = JBD2_MAGIC_NUMBER
          \<and> jn_start x \<noteq> 0 \<and> jn_running x \<and> jn_transaction x = None)"
proof -
  have s: "length (set_field Ext4Superblock ''s_feature_incompat'' w sb) = size_of Ext4Superblock"
    "s_magic (set_field Ext4Superblock ''s_feature_incompat'' w sb) = s_magic sb"
    "s_log_block_size (set_field Ext4Superblock ''s_feature_incompat'' w sb) = s_log_block_size sb"
    if "length sb = size_of Ext4Superblock" for w :: u32 and sb
  proof -
    have o: "offset_of Ext4Superblock ''s_feature_incompat'' = 96" "width_of Ext4Superblock ''s_feature_incompat'' = 4"
      "offset_of Ext4Superblock ''s_log_block_size'' = 24" "width_of Ext4Superblock ''s_log_block_size'' = 4"
      by (simp_all add: Ext4Superblock_def)
    have t: "length (to_le 4 w) = 4" by (simp add: to_le_def)
    show "length (set_field Ext4Superblock ''s_feature_incompat'' w sb) = size_of Ext4Superblock"
      "s_magic (set_field Ext4Superblock ''s_feature_incompat'' w sb) = s_magic sb"
      "s_log_block_size (set_field Ext4Superblock ''s_feature_incompat'' w sb) = s_log_block_size sb"
      using that by (simp_all add: set_field_def o t struct_sizes s_magic_def s_log_block_size_def field_def field_bytes_def field_offsets
          sub_bytes_overwrite_other)
  qed
  show ?thesis
    using assms s [OF assms(3)]
    by (auto simp: init_journal_def and_then_Ok journal_recover_def Let_def Journal_new_def split: if_splits)
qed

text \<open>What a mounted filesystem looks like.\<close>

definition fs_well_formed :: "'d Ext4Filesystem \<Rightarrow> bool" where
  "fs_well_formed fs \<longleftrightarrow>
     length (fs_superblock fs) = size_of Ext4Superblock \<and> s_magic (fs_superblock fs) = EXT4_SUPER_MAGIC
     \<and> fs_block_size fs = push_bit (unat (s_log_block_size (fs_superblock fs) AND 31)) EXT4_MIN_BLOCK_SIZE
     \<and> fs_desc_size fs \<le> fs_block_size fs \<and> 32 \<le> unat (fs_desc_size fs) \<and> fs_blocks_per_group fs \<noteq> 0
     \<and> (\<forall>d \<in> set (fs_group_descs fs). length d = size_of Ext4GroupDesc)
     \<and> \<not> fs_readonly fs
     \<and> (case fs_journal fs of None \<Rightarrow> True
        | Some j \<Rightarrow> h_magic (field_bytes Jbd2Superblock ''s_header'' (jn_superblock j)) = JBD2_MAGIC_NUMBER
            \<and> jn_start j \<noteq> 0 \<and> jn_running j \<and> jn_transaction j = None)"

definition descs_complete :: "'d Ext4Filesystem \<Rightarrow> bool" where
  "descs_complete fs \<longleftrightarrow> (if unat (fs_group_count fs) + unat (fs_block_size fs div fs_desc_size fs) \<le> 2 ^ 32
     then length (fs_group_descs fs) = unat (fs_group_count fs) else True)"

lemma mount_result:
  assumes "mount g dev ops = Ok fs"
  shows "fs_well_formed fs" "descs_complete fs"
proof -
  obtain fs1 fs2 fs0 where r: "read_superblock g fs0 = Ok fs1" "read_group_descriptors g fs1 = Ok fs2" "init_journal g fs2 = Ok fs"
    and f0: "fs_group_descs fs0 = []" "fs_journal fs0 = None" "\<not> fs_readonly fs0"
    using assms unfolding mount_def Let_def and_then_Ok by (elim exE conjE) (erule (2) that, simp_all)
  note S = read_superblock_Ok [OF r(1)]
  have d1: "fs_group_descs fs1 = []" using S f0 by simp
  note G = read_group_descriptors_Ok [OF r(2) S(5) d1]
  obtain ds where fs2: "fs2 = fs1\<lparr>fs_group_descs := ds\<rparr>" using G(1) by blast
  have f2: "fs_journal fs2 = None" "fs_superblock fs2 = fs_superblock fs1" by (simp_all add: fs2 S f0)
  have I: "fs = fs2\<lparr>fs_superblock := fs_superblock fs, fs_journal := fs_journal fs\<rparr>" "length (fs_superblock fs) = size_of Ext4Superblock"
    "s_magic (fs_superblock fs) = EXT4_SUPER_MAGIC" "s_log_block_size (fs_superblock fs) = s_log_block_size (fs_superblock fs1)"
    "\<forall>x. fs_journal fs = Some x \<longrightarrow> h_magic (field_bytes Jbd2Superblock ''s_header'' (jn_superblock x)) = JBD2_MAGIC_NUMBER
          \<and> jn_start x \<noteq> 0 \<and> jn_running x \<and> jn_transaction x = None"
    using init_journal_Ok [OF r(3) f2(1)] f2(2) S(1,2) by auto
  obtain sb j where J: "fs = fs2\<lparr>fs_superblock := sb, fs_journal := j\<rparr>" using I(1) by blast
  have le: "fs_desc_size fs1 \<le> fs_block_size fs1" using G(2) by (metis div_word_less not_less)
  show "fs_well_formed fs"
    using I(2-5) G(3) S f0 le by (simp add: fs_well_formed_def J fs2 split: option.split)
  show "descs_complete fs" using G(4) by (simp add: descs_complete_def J fs2)
qed


text \<open>An image with block 1024, one group and no journal.\<close>

definition demo_superblock :: bytes where
  "demo_superblock = [64, 0, 0, 0, 64, 0, 0, 0] @ replicate 16 0 @ replicate 8 0 @ [0, 32, 0, 0] @ replicate 4 0 @ [64, 0, 0, 0]
     @ replicate 12 0 @ [0x53, 0xEF] @ replicate 30 0 @ [0, 1] @ replicate 934 0"

definition demo_image :: "(u64 \<Rightarrow> bytes) Ext4BlockOps" where
  "demo_image = \<lparr>ops_read_block = Some (\<lambda>g d b buf. (Ok (), if b = 0 then replicate 1024 0 @ demo_superblock else replicate 1024 0)),
     ops_write_block = None, ops_sync = None\<rparr>"

lemma demo_superblock_facts:
  "s_magic demo_superblock = EXT4_SUPER_MAGIC" "s_feature_incompat demo_superblock = 0" "s_feature_compat demo_superblock = 0"
  "s_blocks_count_lo demo_superblock = 64" "s_blocks_per_group demo_superblock = 8192" "s_inodes_per_group demo_superblock = 64"
  "s_log_block_size demo_superblock = 0" "length demo_superblock = 1024"
  by (simp_all add: s_magic_def s_feature_incompat_def s_feature_compat_def s_blocks_count_lo_def s_blocks_per_group_def s_inodes_per_group_def
      s_log_block_size_def field_def field_bytes_def Ext4Superblock_def sub_bytes_def demo_superblock_def le_word_def funpow_push_bit EXT4_SUPER_MAGIC_def)

lemma demo_mount:
  "\<exists>fs. mount ram_env (\<lambda>b. []) demo_image = Ok fs \<and> fs_inodes_per_group fs = 64 \<and> fs_group_count fs = 1 \<and> fs_block_size fs = 1024 \<and> fs_desc_size fs = 32"
proof -
  let ?c = "zeroed Ext4Superblock"
  have sb: "sub_bytes (replicate 1024 0 @ demo_superblock) EXT4_SUPERBLOCK_OFFSET (size_of Ext4Superblock) = demo_superblock"
    by (simp add: sub_bytes_def EXT4_SUPERBLOCK_OFFSET_def struct_sizes demo_superblock_facts)
  have k: "kernel_alloc_bytes ram_env n = (if n = 0 then None else Some (replicate n 0))" for n by (simp add: kernel_alloc_bytes_def)
  show ?thesis
    by (simp add: mount_def read_superblock_def k EXT4_MIN_BLOCK_SIZE_def reload_def read_block_def demo_image_def sb demo_superblock_facts
        read_group_descriptors_def init_journal_def range_w_def Let_def)
qed


end
