(* ===== verification/Ext4_Mmap.thy ===== *)
theory Ext4_Mmap
  imports Demand_Correct Ext4_Read
begin

text \<open>
  The ext4 driver as the file behind a mapping: its read callback keeps the contract of the demand pager, so a page fault in a
  mapped file brings in the bytes of the file.
\<close>

unbundle bit_operations_syntax

section \<open>The driver as a file behind a mapping\<close>

text \<open>\<^verbatim>\<open>ext4_mmap_read_at\<close> as the total function a region keeps: a panic, which never returns, is 0 bytes.\<close>

definition ext4_callback :: "'d env \<Rightarrow> (u64 \<Rightarrow> 'd Ext4MmapFile) \<Rightarrow> bytes \<Rightarrow> MmapReadAtFn" where
  "ext4_callback g files scratch ctx offset dst len m =
     (case ext4_mmap_read_at g files scratch ctx offset dst len m of None \<Rightarrow> (0, m) | Some r \<Rightarrow> r)"

text \<open>A file of \<open>sz\<close> bytes on a device that answers, every block of it mapped by \<open>bm\<close>.\<close>

definition mapped_file :: "'d env \<Rightarrow> u64 \<Rightarrow> (u64 \<Rightarrow> bytes) \<Rightarrow> (u64 \<Rightarrow> u64) \<Rightarrow> 'd Ext4MmapFile \<Rightarrow> bool" where
  "mapped_file g sz C bm f \<longleftrightarrow> device_ok g (mf_fs f) C \<and> unat (fs_block_size (mf_fs f)) \<le> EXT4_MMAP_SCRATCH_SIZE
     \<and> inode_size_of (mf_inode f) = sz
     \<and> (\<forall>k. k < sz \<longrightarrow> get_block g (mf_fs f) (mf_inode f) (k div ucast (fs_block_size (mf_fs f))) = Ok (bm (k div ucast (fs_block_size (mf_fs f)))))"

lemma mmap_read_mapped:
  assumes f: "mapped_file g sz C bm (files ctx)" and sc: "length scratch = EXT4_MMAP_SCRATCH_SIZE"
    and c: "ctx \<noteq> 0" "dst \<noteq> 0" "0 < n" "off < sz" "n \<le> sz - off"
  shows "ext4_mmap_read_at g files scratch ctx off dst n m
    = Some (n, \<lambda>x. if in_bytes dst (unat n) x then file_byte C bm (fs_block_size (mf_fs (files ctx))) (off + (x - dst)) else m x)"
proof -
  let ?f = "files ctx"
  note F = f [unfolded mapped_file_def]
  define buffer where "buffer = map (\<lambda>i. m (dst + of_nat i)) [0..<unat n]"
  have n: "min (length buffer) (unat (sz - off)) = unat n" using c(5) by (simp add: buffer_def word_le_nat_alt)
  have b: "off + of_nat k < sz" if "k < unat n" for k
  proof -
    have "unat (of_nat k :: u64) = k" using that unat_bound [of n] by (simp add: unat_of_nat)
    moreover have "unat (sz - off) = unat sz - unat off" using c(4) by (intro unat_sub) simp
    ultimately show ?thesis using that c(4,5) unat_bound [of sz] by (simp add: word_less_nat_alt word_le_nat_alt unat_word_ariths)
  qed
  obtain scratch' where r: "read_at_into g (mf_fs ?f) (mf_inode ?f) off buffer scratch
      = (Ok (unat n), file_bytes C bm (fs_block_size (mf_fs ?f)) off 0 (unat n) @ drop (unat n) buffer, scratch')"
    using read_at_into_bytes [of g "mf_fs ?f" C scratch "unat n" off "mf_inode ?f" buffer bm] F sc n c(4) b by auto
  have "(if in_bytes dst (unat n) x then (file_bytes C bm (fs_block_size (mf_fs ?f)) off 0 (unat n) @ drop (unat n) buffer) ! unat (x - dst) else m x)
      = (if in_bytes dst (unat n) x then file_byte C bm (fs_block_size (mf_fs ?f)) (off + (x - dst)) else m x)" for x
    by (simp add: in_bytes_def file_bytes_def nth_append)
  moreover have "n \<noteq> 0" using c(3) by auto
  ultimately show ?thesis
    using c r by (simp add: ext4_mmap_read_at_def mmap_file_read_at_def buffer_def [symmetric] Let_def)
qed

interpretation ext4_file: file_reader "ext4_callback g files scratch"
  "\<lambda>c. c \<noteq> 0 \<and> length scratch = EXT4_MMAP_SCRATCH_SIZE \<and> mapped_file g sz C bm (files c)" "\<lambda>c. {}" sz
  "\<lambda>c m k. file_byte C bm (fs_block_size (mf_fs (files c))) k"
proof (unfold_locales, goal_cases)
  case (1 c dst n off m)
  then show ?case using mmap_read_mapped [of g sz C bm files c scratch dst n off m] by (simp add: ext4_callback_def)
qed simp

text \<open>
  C20: A fault in a region whose backing is a file of an ext4 filesystem: the demand pager takes a free frame, has the driver read
  into it, maps it, and byte \<open>k\<close> of the frame is then the byte of the file at the position of the page plus \<open>k\<close>, and zero
  behind the end of the file.
\<close>

theorem demand_ext4_fault_correct:
  assumes rd: "paging_ready s" and inv: "regions_inv (REGIONS s)" and r: "find_region v s = Some r" "vm_backing r = FileBacked file"
    and fl: "fb_read_at file = ext4_callback g files scratch" "fb_ctx file \<noteq> 0" "length scratch = EXT4_MMAP_SCRATCH_SIZE"
      "mapped_file g (fb_file_size file) C bm (files (fb_ctx file))"
    and off: "off = fb_file_offset file + (page_base v - vm_start r)"
      "unat (fb_file_offset file) + unat (page_base v - vm_start r) + 4096 < 2 ^ 64"
    and e: "e AND 1 = 0" and nh: "\<not> huge_mapped s (page_base v)" and cv: "canonical s (page_base v)"
    and idf: "identity_frames s" and enough: "5 \<le> card (avail s)" and flags: "mapping_flags (ptf_set (vm_flags r) PRESENT)"
  shows "\<exists>s' f. handle_demand_page_fault v e s = (Ok (), s') \<and> paging_ready s' \<and> f \<in> avail s - avail s'
     \<and> (\<forall>w. translation s' w = (if same_page s v w \<and> canonical s w then Some (f OR va_page_offset w) else translation s w))
     \<and> (\<forall>k<4096. mem s' (f + k) = (if off + k < fb_file_size file
          then file_byte C bm (fs_block_size (mf_fs (files (fb_ctx file)))) (off + k) else 0))"
proof -
  have "file_reader (fb_read_at file)
      (\<lambda>c. c \<noteq> 0 \<and> length scratch = EXT4_MMAP_SCRATCH_SIZE \<and> mapped_file g (fb_file_size file) C bm (files c)) (\<lambda>c. {}) (fb_file_size file)
      (\<lambda>c m k. file_byte C bm (fs_block_size (mf_fs (files c))) k)"
    unfolding fl(1) by (rule ext4_file.file_reader_axioms)
  from demand_file_fault [OF rd inv r this _ _ off e nh cv idf enough flags] show ?thesis using fl(2-4) by simp
qed

text \<open>A file of 2000 bytes in the blocks 100 and 101 of the demonstration disk, mapped at \<open>0x400000\<close>.\<close>

definition demo_small_inode :: bytes where
  "demo_small_inode = replicate 4 0 @ [0xD0, 7, 0, 0] @ replicate 26 0 @ [8, 0] @ replicate 4 0 @ demo_node @ replicate 60 0"

definition demo_ext4_file :: "u64 \<Rightarrow> (u64 \<Rightarrow> bytes) Ext4MmapFile" where
  "demo_ext4_file c = \<lparr>mf_fs = ram_fs demo_disk, mf_inode = demo_small_inode, mf_file_size = 2000\<rparr>"

definition demo_mapping :: FileBacking where
  "demo_mapping = \<lparr>fb_ctx = 0x5000, fb_read_at = ext4_callback ram_env demo_ext4_file (replicate 4096 0), fb_file_offset = 0, fb_file_size = 2000\<rparr>"

lemma demo_small_facts: "inode_size_of demo_small_inode = 2000" "uses_extents demo_small_inode" "i_block_bytes demo_small_inode = demo_node"
  by (simp_all add: inode_size_of_def uses_extents_def i_flags_def i_block_bytes_def field_offsets field_def field_bytes_def Ext4Inode_def sub_bytes_def
      demo_small_inode_def demo_node_def le_word_def EXT4_EXTENTS_FL_def funpow_push_bit)

lemma demo_first_blocks: "get_block ram_env (ram_fs demo_disk) demo_small_inode 0 = Ok 100" "get_block ram_env (ram_fs demo_disk) demo_small_inode 1 = Ok 101"
  using descend_find [OF demo_device demo_tree_ok, of 0] descend_find [OF demo_device demo_tree_ok, of 1]
  by (simp_all add: get_block_def get_block_from_extent_def demo_small_facts demo_node_simps struct_sizes Let_def
      demo_entries demo_disk_def demo_leaf_simps in_extent_def flip: node_header_def)

lemma demo_small_blocks: "lb < 2 \<Longrightarrow> get_block ram_env (ram_fs demo_disk) demo_small_inode lb = Ok (lb + 100)"
proof -
  assume "lb < 2"
  then have "lb = 0 \<or> lb = 1" by (auto simp: word_less_nat_alt word_unat_eq_iff)
  then show ?thesis using demo_first_blocks by auto
qed

lemma demo_ext4_mapped: "mapped_file ram_env 2000 demo_disk (\<lambda>b. b + 100) (demo_ext4_file c)"
proof -
  have "k div 1024 < (2 :: u64)" if "k < 2000" for k :: u64
    using that by (simp add: word_less_nat_alt unat_div less_mult_imp_div_less)
  then show ?thesis
    using demo_device demo_small_blocks by (simp add: mapped_file_def demo_ext4_file_def demo_small_facts EXT4_MMAP_SCRATCH_SIZE_def)
qed

theorem demand_ext4_fault_correct_witness:
  "\<exists>s' f. handle_demand_page_fault 0x400123 0 (demo_demand (FileBacked demo_mapping)) = (Ok (), s') \<and> translation s' 0x400000 = Some f
     \<and> mem s' (f + 7) = 100 \<and> mem s' (f + 1030) = 101 \<and> mem s' (f + 2001) = 0"
proof -
  let ?s = "demo_demand (FileBacked demo_mapping)"
  note D = demo_demand_ready [of "FileBacked demo_mapping"]
  have r: "vm_backing (demo_region (FileBacked demo_mapping)) = FileBacked demo_mapping" "(0 :: u64) AND 1 = 0" by (simp_all add: demo_region_def)
  have fl: "fb_read_at demo_mapping = ext4_callback ram_env demo_ext4_file (replicate 4096 0)" "fb_ctx demo_mapping \<noteq> 0"
    "length (replicate 4096 (0 :: u8)) = EXT4_MMAP_SCRATCH_SIZE"
    "mapped_file ram_env (fb_file_size demo_mapping) demo_disk (\<lambda>b. b + 100) (demo_ext4_file (fb_ctx demo_mapping))"
    using demo_ext4_mapped by (simp_all add: demo_mapping_def EXT4_MMAP_SCRATCH_SIZE_def)
  have off: "(0 :: u64) = fb_file_offset demo_mapping + (page_base 0x400123 - vm_start (demo_region (FileBacked demo_mapping)))"
    "unat (fb_file_offset demo_mapping) + unat (page_base 0x400123 - vm_start (demo_region (FileBacked demo_mapping))) + 4096 < 2 ^ 64"
    by (simp_all add: demo_mapping_def demo_region_def fault_base)
  from demand_ext4_fault_correct [OF D(1,6,7) r(1) fl off r(2) D(4) [folded fault_base] D(5) [folded fault_base] D(2,3,8)]
  obtain s' f where h: "handle_demand_page_fault 0x400123 0 ?s = (Ok (), s')"
    "\<forall>w. translation s' w = (if same_page ?s 0x400123 w \<and> canonical ?s w then Some (f OR va_page_offset w) else translation ?s w)"
    "\<forall>k<4096. mem s' (f + k) = (if 0 + k < fb_file_size demo_mapping
        then file_byte demo_disk (\<lambda>b. b + 100) (fs_block_size (mf_fs (demo_ext4_file (fb_ctx demo_mapping)))) (0 + k) else 0)" by (elim exE conjE)
  have "translation s' 0x400000 = Some f" using h(2) demo_same_page D(5) by (simp add: va_page_offset_def)
  moreover have "mem s' (f + 7) = 100" "mem s' (f + 1030) = 101" "mem s' (f + 2001) = 0"
    using h(3) by (simp_all add: demo_mapping_def demo_ext4_file_def file_byte_def demo_disk_def)
  ultimately show ?thesis using h(1) by blast
qed

end
