(* ===== verification/Port_Io.thy ===== *)
theory Port_Io
  imports Prelude "HOL-Library.State_Monad"
begin

text \<open>
  The instructions the drivers reach the hardware with: port and memory-mapped accesses, model specific registers and
  \<^verbatim>\<open>cpuid\<close>, as a record of state transformers on a hardware state.
\<close>

unbundle bit_operations_syntax

section \<open>The instructions\<close>

text \<open>
  What the assembly wrappers \<^verbatim>\<open>outb\<close>, \<^verbatim>\<open>inb\<close>, \<^verbatim>\<open>outl\<close>, \<^verbatim>\<open>inl\<close>, \<^verbatim>\<open>rdmsr\<close>, \<^verbatim>\<open>wrmsr\<close>, \<^verbatim>\<open>cpuid\<close> and the volatile accesses do to the
  hardware, whose state is \<open>'h\<close>. \<^verbatim>\<open>rdmsr\<close> gives the low and the high half.
\<close>

record 'h io =
  outb :: "u16 \<Rightarrow> u8 \<Rightarrow> ('h, unit) state"
  inb :: "u16 \<Rightarrow> ('h, u8) state"
  outl :: "u16 \<Rightarrow> u32 \<Rightarrow> ('h, unit) state"
  inl :: "u16 \<Rightarrow> ('h, u32) state"
  write_volatile_u32 :: "u64 \<Rightarrow> u32 \<Rightarrow> ('h, unit) state"
  read_volatile_u32 :: "u64 \<Rightarrow> ('h, u32) state"
  read_volatile_u64 :: "u64 \<Rightarrow> ('h, u64) state"
  write_volatile_u16 :: "u64 \<Rightarrow> u16 \<Rightarrow> ('h, unit) state"
  read_volatile_u16 :: "u64 \<Rightarrow> ('h, u16) state"
  write_volatile_u8 :: "u64 \<Rightarrow> u8 \<Rightarrow> ('h, unit) state"
  read_volatile_u8 :: "u64 \<Rightarrow> ('h, u8) state"
  asm_rdmsr :: "u32 \<Rightarrow> ('h, u32 \<times> u32) state"
  asm_wrmsr :: "u32 \<Rightarrow> u32 \<Rightarrow> u32 \<Rightarrow> ('h, unit) state"
  asm_cpuid :: "u32 \<Rightarrow> ('h, u32 \<times> u32 \<times> u32 \<times> u32) state"

text \<open>Hardware that does nothing and reads as 0, from which the examples are made.\<close>

definition null_io :: "'h io" where
  "null_io = \<lparr>outb = \<lambda>p v. State_Monad.return (), inb = \<lambda>p. State_Monad.return 0, outl = \<lambda>p v. State_Monad.return (),
     inl = \<lambda>p. State_Monad.return 0, write_volatile_u32 = \<lambda>a v. State_Monad.return (), read_volatile_u32 = \<lambda>a. State_Monad.return 0,
     read_volatile_u64 = \<lambda>a. State_Monad.return 0, write_volatile_u16 = \<lambda>a v. State_Monad.return (),
     read_volatile_u16 = \<lambda>a. State_Monad.return 0, write_volatile_u8 = \<lambda>a v. State_Monad.return (),
     read_volatile_u8 = \<lambda>a. State_Monad.return 0, asm_rdmsr = \<lambda>r. State_Monad.return (0, 0),
     asm_wrmsr = \<lambda>r l h. State_Monad.return (), asm_cpuid = \<lambda>l. State_Monad.return (0, 0, 0, 0)\<rparr>"

text \<open>A wide value from its halves.\<close>

definition join_u32 :: "u32 \<Rightarrow> u32 \<Rightarrow> u64" where
  "join_u32 high low = push_bit 32 (ucast high) OR ucast low"

definition high_half :: "u64 \<Rightarrow> u32" where
  "high_half v = ucast (drop_bit 32 v)"

lemma bit_join_u32: "bit (join_u32 hi lo) n \<longleftrightarrow> (if n < 32 then bit lo n else n < 64 \<and> bit hi (n - 32))"
  by (auto simp: join_u32_def bit_simps dest: bit_imp_le_length)

lemma join_halves: "join_u32 (high_half v) (ucast v) = v"
  by (rule bit_word_eqI) (auto simp: bit_join_u32 high_half_def bit_simps)

lemma low_masks: "(0xFF :: u32) = mask 8" "(0xFFFF :: u32) = mask 16" "(0xFF :: u16) = mask 8" "(0xFF :: u8) = mask 8"
  by (simp_all add: mask_eq_exp_minus_1)

lemma bit_low_masks: "bit (0xFF :: u32) n \<longleftrightarrow> n < 8" "bit (0xFFFF :: u32) n \<longleftrightarrow> n < 16" "bit (0xFF :: u16) n \<longleftrightarrow> n < 8"
  unfolding low_masks by (auto simp: bit_mask_iff)

end
