(* ===== verification/Pic.thy ===== *)
theory Pic
  imports Port_Io
begin

text \<open>
  The interrupt controllers, \<^verbatim>\<open>drivers/pic/lib.rs\<close> and \<^verbatim>\<open>drivers/pic/pic.rs\<close>: the pair of 8259, the local APIC and the I/O APIC; masking of
  lines and routing of interrupts.
\<close>

unbundle bit_operations_syntax

section \<open>The 8259 controllers\<close>

definition PIC1_COMMAND :: u16 where "PIC1_COMMAND = 0x20"
definition PIC1_DATA :: u16 where "PIC1_DATA = 0x21"
definition PIC2_COMMAND :: u16 where "PIC2_COMMAND = 0xA0"
definition PIC2_DATA :: u16 where "PIC2_DATA = 0xA1"
definition ICW1_ICW4 :: u8 where "ICW1_ICW4 = 0x01"
definition ICW1_INIT :: u8 where "ICW1_INIT = 0x10"
definition ICW4_8086 :: u8 where "ICW4_8086 = 0x01"
definition CASCADE_IRQ :: u8 where "CASCADE_IRQ = 2"
definition PIC_EOI :: u8 where "PIC_EOI = 0x20"

definition io_wait :: "'h io \<Rightarrow> ('h, unit) state" where
  "io_wait io = outb io 0x80 0"

definition remap :: "'h io \<Rightarrow> u8 \<Rightarrow> u8 \<Rightarrow> ('h, unit) state" where
  "remap io offset1 offset2 = do {
     outb io PIC1_COMMAND (ICW1_INIT OR ICW1_ICW4); io_wait io;
     outb io PIC2_COMMAND (ICW1_INIT OR ICW1_ICW4); io_wait io;
     outb io PIC1_DATA offset1; io_wait io;
     outb io PIC2_DATA offset2; io_wait io;
     outb io PIC1_DATA (push_bit (unat CASCADE_IRQ) 1); io_wait io;
     outb io PIC2_DATA CASCADE_IRQ; io_wait io;
     outb io PIC1_DATA ICW4_8086; io_wait io;
     outb io PIC2_DATA ICW4_8086; io_wait io;
     outb io PIC1_DATA 0;
     outb io PIC2_DATA 0
   }"

definition pic_init :: "'h io \<Rightarrow> ('h, unit) state" where
  "pic_init io = remap io 0x20 0x28"

definition send_eoi :: "'h io \<Rightarrow> u8 \<Rightarrow> ('h, unit) state" where
  "send_eoi io irq = do {
     (if irq \<ge> 8 then outb io PIC2_COMMAND PIC_EOI else State_Monad.return ());
     outb io PIC1_COMMAND PIC_EOI
   }"

definition disable :: "'h io \<Rightarrow> ('h, unit) state" where
  "disable io = do { outb io PIC1_DATA 0xFF; outb io PIC2_DATA 0xFF }"

definition set_mask :: "'h io \<Rightarrow> u8 \<Rightarrow> ('h, unit) state" where
  "set_mask io irq_line = do {
     let port = (if irq_line < 8 then PIC1_DATA else PIC2_DATA);
     let irq = irq_line mod 8;
     old \<leftarrow> inb io port;
     let value = old OR push_bit (unat irq) 1;
     outb io port value
   }"

definition clear_mask :: "'h io \<Rightarrow> u8 \<Rightarrow> ('h, unit) state" where
  "clear_mask io irq_line = do {
     let port = (if irq_line < 8 then PIC1_DATA else PIC2_DATA);
     let irq = irq_line mod 8;
     old \<leftarrow> inb io port;
     let value = old AND NOT (push_bit (unat irq) 1);
     outb io port value
   }"

section \<open>The local APIC\<close>

definition APIC_ID :: u32 where "APIC_ID = 0x020"
definition APIC_EOI :: u32 where "APIC_EOI = 0x0B0"
definition APIC_SPURIOUS :: u32 where "APIC_SPURIOUS = 0x0F0"
definition APIC_TIMER_LVT :: u32 where "APIC_TIMER_LVT = 0x320"
definition APIC_TIMER_INITIAL :: u32 where "APIC_TIMER_INITIAL = 0x380"
definition APIC_TIMER_DIVIDE :: u32 where "APIC_TIMER_DIVIDE = 0x3E0"
definition APIC_SPURIOUS_ENABLE :: u32 where "APIC_SPURIOUS_ENABLE = 0x100"
definition APIC_TIMER_PERIODIC :: u32 where "APIC_TIMER_PERIODIC = 0x20000"
definition APIC_TIMER_MASKED :: u32 where "APIC_TIMER_MASKED = 0x10000"
definition IA32_APIC_BASE_MSR :: u32 where "IA32_APIC_BASE_MSR = 0x1B"
definition IA32_APIC_BASE_ENABLE :: u64 where "IA32_APIC_BASE_ENABLE = push_bit 11 1"

definition apic_rdmsr :: "'h io \<Rightarrow> u32 \<Rightarrow> ('h, u64) state" where
  "apic_rdmsr io msr = do { (low, high) \<leftarrow> asm_rdmsr io msr; State_Monad.return (join_u32 high low) }"

definition apic_wrmsr :: "'h io \<Rightarrow> u32 \<Rightarrow> u64 \<Rightarrow> ('h, unit) state" where
  "apic_wrmsr io msr value = do {
     let low = ucast value;
     let high = high_half value;
     asm_wrmsr io msr low high
   }"

definition has_apic :: "'h io \<Rightarrow> ('h, bool) state" where
  "has_apic io = do { (eax, ebx, ecx, edx) \<leftarrow> asm_cpuid io 1; State_Monad.return (edx AND push_bit 9 1 \<noteq> 0) }"

definition has_x2apic :: "'h io \<Rightarrow> ('h, bool) state" where
  "has_x2apic io = do { (eax, ebx, ecx, edx) \<leftarrow> asm_cpuid io 1; State_Monad.return (ecx AND push_bit 21 1 \<noteq> 0) }"

definition get_local_apic_base :: "'h io \<Rightarrow> ('h, u64) state" where
  "get_local_apic_base io = do {
     apic_base_msr \<leftarrow> apic_rdmsr io IA32_APIC_BASE_MSR;
     State_Monad.return (apic_base_msr AND 0xFFFFFFFFFFFFF000)
   }"

definition enable_local_apic :: "'h io \<Rightarrow> ('h, unit) state" where
  "enable_local_apic io = do {
     apic_base_msr \<leftarrow> apic_rdmsr io IA32_APIC_BASE_MSR;
     apic_wrmsr io IA32_APIC_BASE_MSR (apic_base_msr OR IA32_APIC_BASE_ENABLE);
     apic_base \<leftarrow> get_local_apic_base io;
     let spurious_reg = apic_base + ucast APIC_SPURIOUS;
     spurious_value \<leftarrow> read_volatile_u32 io spurious_reg;
     write_volatile_u32 io spurious_reg (spurious_value OR APIC_SPURIOUS_ENABLE OR 0xFF)
   }"

definition disable_local_apic :: "'h io \<Rightarrow> ('h, unit) state" where
  "disable_local_apic io = do {
     apic_base \<leftarrow> get_local_apic_base io;
     let spurious_reg = apic_base + ucast APIC_SPURIOUS;
     spurious_value \<leftarrow> read_volatile_u32 io spurious_reg;
     write_volatile_u32 io spurious_reg (spurious_value AND NOT APIC_SPURIOUS_ENABLE)
   }"

definition local_apic_eoi :: "'h io \<Rightarrow> ('h, unit) state" where
  "local_apic_eoi io = do {
     apic_base \<leftarrow> get_local_apic_base io;
     let eoi_reg = apic_base + ucast APIC_EOI;
     write_volatile_u32 io eoi_reg 0
   }"

definition local_apic_read :: "'h io \<Rightarrow> u32 \<Rightarrow> ('h, u32) state" where
  "local_apic_read io offset = do { apic_base \<leftarrow> get_local_apic_base io; read_volatile_u32 io (apic_base + ucast offset) }"

definition local_apic_write :: "'h io \<Rightarrow> u32 \<Rightarrow> u32 \<Rightarrow> ('h, unit) state" where
  "local_apic_write io offset value = do { apic_base \<leftarrow> get_local_apic_base io; write_volatile_u32 io (apic_base + ucast offset) value }"

definition get_local_apic_id :: "'h io \<Rightarrow> ('h, u32) state" where
  "get_local_apic_id io = do { v \<leftarrow> local_apic_read io APIC_ID; State_Monad.return (drop_bit 24 v AND 0xFF) }"

definition divide_value :: "u32 \<Rightarrow> u32" where
  "divide_value divider =
     (if divider = 1 then 0b1011 else if divider = 2 then 0b0000 else if divider = 4 then 0b0001 else if divider = 8 then 0b0010
      else if divider = 16 then 0b0011 else if divider = 32 then 0b1000 else if divider = 64 then 0b1001
      else if divider = 128 then 0b1010 else 0b0000)"

definition local_apic_timer_init :: "'h io \<Rightarrow> u8 \<Rightarrow> u32 \<Rightarrow> u32 \<Rightarrow> ('h, unit) state" where
  "local_apic_timer_init io vector divider initial_count = do {
     local_apic_write io APIC_TIMER_DIVIDE (divide_value divider);
     local_apic_write io APIC_TIMER_LVT (APIC_TIMER_PERIODIC OR ucast vector);
     local_apic_write io APIC_TIMER_INITIAL initial_count
   }"

definition local_apic_timer_stop :: "'h io \<Rightarrow> ('h, unit) state" where
  "local_apic_timer_stop io = do {
     local_apic_write io APIC_TIMER_LVT APIC_TIMER_MASKED;
     local_apic_write io APIC_TIMER_INITIAL 0
   }"

section \<open>The I/O APIC\<close>

definition IOAPIC_REG_ID :: u32 where "IOAPIC_REG_ID = 0x00"
definition IOAPIC_REG_VERSION :: u32 where "IOAPIC_REG_VERSION = 0x01"
definition IOAPIC_REG_REDTBL_BASE :: u32 where "IOAPIC_REG_REDTBL_BASE = 0x10"
definition IOAPIC_MASKED :: u64 where "IOAPIC_MASKED = push_bit 16 1"
definition IOAPIC_LEVEL_TRIGGERED :: u64 where "IOAPIC_LEVEL_TRIGGERED = push_bit 15 1"
definition IOAPIC_ACTIVE_LOW :: u64 where "IOAPIC_ACTIVE_LOW = push_bit 13 1"
definition IOAPIC_DEFAULT_BASE :: u64 where "IOAPIC_DEFAULT_BASE = 0xFEC00000"

record IoApic =
  base_addr :: u64

definition IoApic_new :: "u64 \<Rightarrow> IoApic" where
  "IoApic_new base = \<lparr>base_addr = base\<rparr>"

definition ioapic_read :: "'h io \<Rightarrow> IoApic \<Rightarrow> u32 \<Rightarrow> ('h, u32) state" where
  "ioapic_read io a reg = do {
     write_volatile_u32 io (base_addr a) reg;
     read_volatile_u32 io (base_addr a + 0x10)
   }"

definition ioapic_write :: "'h io \<Rightarrow> IoApic \<Rightarrow> u32 \<Rightarrow> u32 \<Rightarrow> ('h, unit) state" where
  "ioapic_write io a reg value = do {
     write_volatile_u32 io (base_addr a) reg;
     write_volatile_u32 io (base_addr a + 0x10) value
   }"

definition ioapic_get_id :: "'h io \<Rightarrow> IoApic \<Rightarrow> ('h, u32) state" where
  "ioapic_get_id io a = do { v \<leftarrow> ioapic_read io a IOAPIC_REG_ID; State_Monad.return (drop_bit 24 v AND 0xFF) }"

definition ioapic_get_version :: "'h io \<Rightarrow> IoApic \<Rightarrow> ('h, u8 \<times> u8) state" where
  "ioapic_get_version io a = do {
     version_reg \<leftarrow> ioapic_read io a IOAPIC_REG_VERSION;
     let version = ucast (version_reg AND 0xFF);
     let max_entries = ucast (drop_bit 16 version_reg AND 0xFF);
     State_Monad.return (version, max_entries)
   }"

definition read_redirection_entry :: "'h io \<Rightarrow> IoApic \<Rightarrow> u8 \<Rightarrow> ('h, u64) state" where
  "read_redirection_entry io a irq = do {
     let low_reg = IOAPIC_REG_REDTBL_BASE + ucast irq * 2;
     let high_reg = low_reg + 1;
     low \<leftarrow> ioapic_read io a low_reg;
     high \<leftarrow> ioapic_read io a high_reg;
     State_Monad.return (join_u32 high low)
   }"

definition write_redirection_entry :: "'h io \<Rightarrow> IoApic \<Rightarrow> u8 \<Rightarrow> u64 \<Rightarrow> ('h, unit) state" where
  "write_redirection_entry io a irq entry = do {
     let low_reg = IOAPIC_REG_REDTBL_BASE + ucast irq * 2;
     let high_reg = low_reg + 1;
     ioapic_write io a high_reg (high_half entry);
     ioapic_write io a low_reg (ucast entry)
   }"

definition irq_entry :: "u8 \<Rightarrow> u8 \<Rightarrow> bool \<Rightarrow> bool \<Rightarrow> bool \<Rightarrow> u64" where
  "irq_entry vector apic_id masked level_triggered active_low =
     ucast vector OR push_bit 56 (ucast apic_id) OR (if masked then IOAPIC_MASKED else 0)
     OR (if level_triggered then IOAPIC_LEVEL_TRIGGERED else 0) OR (if active_low then IOAPIC_ACTIVE_LOW else 0)"

definition configure_irq :: "'h io \<Rightarrow> IoApic \<Rightarrow> u8 \<Rightarrow> u8 \<Rightarrow> u8 \<Rightarrow> bool \<Rightarrow> bool \<Rightarrow> bool \<Rightarrow> ('h, unit) state" where
  "configure_irq io a irq vector apic_id masked level_triggered active_low =
     write_redirection_entry io a irq (irq_entry vector apic_id masked level_triggered active_low)"

definition mask_irq :: "'h io \<Rightarrow> IoApic \<Rightarrow> u8 \<Rightarrow> ('h, unit) state" where
  "mask_irq io a irq = do {
     entry \<leftarrow> read_redirection_entry io a irq;
     write_redirection_entry io a irq (entry OR IOAPIC_MASKED)
   }"

definition unmask_irq :: "'h io \<Rightarrow> IoApic \<Rightarrow> u8 \<Rightarrow> ('h, unit) state" where
  "unmask_irq io a irq = do {
     entry \<leftarrow> read_redirection_entry io a irq;
     write_redirection_entry io a irq (entry AND NOT IOAPIC_MASKED)
   }"

definition create_default_ioapic :: IoApic where
  "create_default_ioapic = IoApic_new IOAPIC_DEFAULT_BASE"

section \<open>Routing through the I/O APIC\<close>

text \<open>
  The documented access to the registers: the word at the base selects a register, the window 16 bytes above reads and writes
  it; a write keeps the read-only bits \<open>ro\<close> of the register. \<open>sel\<close> and \<open>regs\<close> are the selector and the registers of a hardware
  state.
\<close>

definition ioapic_window :: "'h io \<Rightarrow> u64 \<Rightarrow> ('h \<Rightarrow> u32) \<Rightarrow> ('h \<Rightarrow> u32 \<Rightarrow> u32) \<Rightarrow> (u32 \<Rightarrow> u32) \<Rightarrow> bool" where
  "ioapic_window io base sel regs ro \<longleftrightarrow>
     (\<forall>h r. sel (snd (run_state (write_volatile_u32 io base r) h)) = r \<and> regs (snd (run_state (write_volatile_u32 io base r) h)) = regs h)
     \<and> (\<forall>h. fst (run_state (read_volatile_u32 io (base + 0x10)) h) = regs h (sel h)
          \<and> regs (snd (run_state (read_volatile_u32 io (base + 0x10)) h)) = regs h)
     \<and> (\<forall>h v. regs (snd (run_state (write_volatile_u32 io (base + 0x10) v) h))
          = (regs h)(sel h := (regs h (sel h) AND ro (sel h)) OR (v AND NOT (ro (sel h)))))"

text \<open>The entry of an interrupt line in the registers.\<close>

definition redirection :: "(u32 \<Rightarrow> u32) \<Rightarrow> u8 \<Rightarrow> u64" where
  "redirection rs irq = join_u32 (rs (0x11 + ucast irq * 2)) (rs (0x10 + ucast irq * 2))"

lemma ioapic_read_regs:
  assumes "ioapic_window io (base_addr a) sel regs ro"
  shows "fst (run_state (ioapic_read io a r) h) = regs h r" "regs (snd (run_state (ioapic_read io a r) h)) = regs h"
  using assms unfolding ioapic_window_def by (simp_all add: ioapic_read_def split_def)

lemma ioapic_write_regs:
  assumes "ioapic_window io (base_addr a) sel regs ro"
  shows "regs (snd (run_state (ioapic_write io a r v) h)) = (regs h)(r := (regs h r AND ro r) OR (v AND NOT (ro r)))"
  using assms unfolding ioapic_window_def by (simp add: ioapic_write_def split_def)

lemma read_entry_regs:
  assumes "ioapic_window io (base_addr a) sel regs ro"
  shows "fst (run_state (read_redirection_entry io a irq) h) = redirection (regs h) irq"
    "regs (snd (run_state (read_redirection_entry io a irq) h)) = regs h"
  using ioapic_read_regs [OF assms]
  by (simp_all add: read_redirection_entry_def redirection_def IOAPIC_REG_REDTBL_BASE_def Let_def split_def ac_simps)

lemma entry_register:
  "0x10 + ucast (i :: u8) * 2 = (0x10 + ucast j * 2 :: u32) \<longleftrightarrow> i = j"
  "0x11 + ucast i * 2 = (0x11 + ucast j * 2 :: u32) \<longleftrightarrow> i = j"
  "0x10 + ucast i * 2 \<noteq> (0x11 + ucast j * 2 :: u32)" "0x11 + ucast i * 2 \<noteq> (0x10 + ucast j * 2 :: u32)"
proof -
  have u: "unat (0x10 + ucast k * 2 :: u32) = 16 + 2 * unat k" "unat (0x11 + ucast k * 2 :: u32) = 17 + 2 * unat k" for k :: u8
  proof -
    have k: "unat k < 256" using unsigned_less [of k, where ?'a = nat] by simp
    then have "unat (ucast k :: u32) = unat k" by (simp add: unsigned_ucast_eq take_bit_nat_eq_self)
    then show "unat (0x10 + ucast k * 2 :: u32) = 16 + 2 * unat k" "unat (0x11 + ucast k * 2 :: u32) = 17 + 2 * unat k"
      using k by (simp_all add: unat_word_ariths)
  qed
  show "0x10 + ucast i * 2 = (0x10 + ucast j * 2 :: u32) \<longleftrightarrow> i = j" "0x11 + ucast i * 2 = (0x11 + ucast j * 2 :: u32) \<longleftrightarrow> i = j"
    unfolding word_unat_eq_iff u by simp_all
  show "0x10 + ucast i * 2 \<noteq> (0x11 + ucast j * 2 :: u32)" "0x11 + ucast i * 2 \<noteq> (0x10 + ucast j * 2 :: u32)"
    unfolding word_unat_eq_iff u by presburger+
qed

lemma join_ops:
  "join_u32 (a AND b) (c AND d) = join_u32 a c AND join_u32 b d" "join_u32 (a OR b) (c OR d) = join_u32 a c OR join_u32 b d"
  by (rule bit_word_eqI; auto simp: bit_join_u32 bit_simps)+

lemma join_not: "join_u32 (NOT a) (NOT b) = NOT (join_u32 a b)"
  by (rule bit_word_eqI) (auto simp: bit_join_u32 bit_simps)

text \<open>What a write of an entry leaves: the read-only bits of the old entry and the other bits of the new one.\<close>

definition merged :: "u64 \<Rightarrow> u64 \<Rightarrow> u64 \<Rightarrow> u64" where
  "merged ro old new = (old AND ro) OR (new AND NOT ro)"

lemma write_entry_regs:
  assumes "ioapic_window io (base_addr a) sel regs ro"
  shows "redirection (regs (snd (run_state (write_redirection_entry io a irq e) h))) irq'
    = (if irq' = irq then merged (redirection ro irq) (redirection (regs h) irq) e else redirection (regs h) irq')"
proof -
  have r: "regs (snd (run_state (write_redirection_entry io a irq e) h)) =
      (let g = (regs h)(0x11 + ucast irq * 2 := (regs h (0x11 + ucast irq * 2) AND ro (0x11 + ucast irq * 2)) OR (high_half e AND NOT (ro (0x11 + ucast irq * 2))))
       in g(0x10 + ucast irq * 2 := (g (0x10 + ucast irq * 2) AND ro (0x10 + ucast irq * 2)) OR (ucast e AND NOT (ro (0x10 + ucast irq * 2)))))"
    using ioapic_write_regs [OF assms]
    by (simp add: write_redirection_entry_def IOAPIC_REG_REDTBL_BASE_def Let_def split_def ac_simps)
  have "join_u32 (high_half e AND NOT x) (ucast e AND NOT y) = e AND NOT (join_u32 x y)" for x y
    unfolding join_ops join_not join_halves ..
  then show ?thesis
    unfolding r redirection_def Let_def using entry_register by (simp add: merged_def join_ops)
qed

lemma bit_u8: "bit (w :: u8) n \<Longrightarrow> n < 8"
  using bit_imp_le_length by fastforce

lemma bit_flag: "bit (push_bit k 1 :: u64) n \<longleftrightarrow> n = k \<and> k < 64"
  by (auto simp: bit_simps)

lemma bit_if_flag: "bit (if b then push_bit k 1 else 0 :: u64) n \<longleftrightarrow> b \<and> n = k \<and> k < 64"
  using bit_flag [of k n] by simp

lemma bit_irq_entry:
  "bit (irq_entry vector apic_id masked level low) n \<longleftrightarrow>
     bit vector n \<or> (56 \<le> n \<and> bit apic_id (n - 56)) \<or> (masked \<and> n = 16) \<or> (level \<and> n = 15) \<or> (low \<and> n = 13)"
proof -
  have "bit (ucast vector :: u64) n \<longleftrightarrow> bit vector n" using bit_u8 [of vector n] by (auto simp: bit_ucast_iff)
  moreover have "bit (push_bit 56 (ucast apic_id) :: u64) n \<longleftrightarrow> 56 \<le> n \<and> bit apic_id (n - 56)"
    using bit_u8 [of apic_id "n - 56"] by (auto simp: bit_push_bit_iff bit_ucast_iff)
  ultimately show ?thesis
    unfolding irq_entry_def IOAPIC_MASKED_def IOAPIC_LEVEL_TRIGGERED_def IOAPIC_ACTIVE_LOW_def bit_or_iff bit_if_flag by simp
qed

lemma irq_entry_fields:
  "ucast (irq_entry vector apic_id masked level low) = vector" "ucast (drop_bit 56 (irq_entry vector apic_id masked level low)) = apic_id"
  "bit (irq_entry vector apic_id masked level low) 16 \<longleftrightarrow> masked" "bit (irq_entry vector apic_id masked level low) 15 \<longleftrightarrow> level"
  "bit (irq_entry vector apic_id masked level low) 13 \<longleftrightarrow> low"
proof -
  show "ucast (irq_entry vector apic_id masked level low) = vector" "ucast (drop_bit 56 (irq_entry vector apic_id masked level low)) = apic_id"
    by (rule bit_word_eqI; auto simp: bit_irq_entry bit_ucast_iff bit_drop_bit_eq dest: bit_u8)+
qed (auto simp: bit_irq_entry dest: bit_u8)

text \<open>
  C37: Configuring an interrupt line: up to the read-only bits, the entry of the line has the given vector, destination, mask, trigger
  mode and polarity, in physical mode with fixed delivery, the entry of no other line changes, and reading the entry back gives it.
\<close>

theorem configure_irq_correct:
  assumes io: "ioapic_window io (base_addr a) sel regs ro"
    and h': "h' = snd (run_state (configure_irq io a irq vector apic_id masked level low) h)"
    and e: "e = irq_entry vector apic_id masked level low"
  shows "(\<forall>i. redirection (regs h') i = (if i = irq then merged (redirection ro irq) (redirection (regs h) irq) e else redirection (regs h) i))
    \<and> fst (run_state (read_redirection_entry io a irq) h') = merged (redirection ro irq) (redirection (regs h) irq) e
    \<and> ucast e = vector \<and> ucast (drop_bit 56 e) = apic_id \<and> bit e 16 = masked \<and> bit e 15 = level \<and> bit e 13 = low
    \<and> \<not> bit e 8 \<and> \<not> bit e 9 \<and> \<not> bit e 10 \<and> \<not> bit e 11"
  using write_entry_regs [OF io] read_entry_regs(1) [OF io]
  unfolding h' e configure_irq_def irq_entry_fields by (auto simp: bit_irq_entry dest: bit_u8)

lemma merged_mask: "merged ro e (e OR m) = e OR (m AND NOT ro)" "merged ro e (e AND NOT m) = e AND NOT (m AND NOT ro)"
  by (rule bit_word_eqI; auto simp: merged_def bit_simps)+

text \<open>
  Masking a line sets bit 16 of its entry and unmasking clears it; no other bit and no other line changes, so unmasking restores
  the entry of a line that was not masked.
\<close>

theorem mask_irq_round_trip:
  assumes io: "ioapic_window io (base_addr a) sel regs ro" and w: "\<not> bit (redirection ro irq) 16"
    and h1: "h1 = snd (run_state (mask_irq io a irq) h)" and h2: "h2 = snd (run_state (unmask_irq io a irq) h1)"
  shows "(\<forall>i. redirection (regs h1) i = (if i = irq then redirection (regs h) i OR IOAPIC_MASKED else redirection (regs h) i))
    \<and> (\<forall>i. redirection (regs h2) i = (if i = irq then redirection (regs h) i AND NOT IOAPIC_MASKED else redirection (regs h) i))"
proof -
  have m: "IOAPIC_MASKED AND NOT (redirection ro irq) = IOAPIC_MASKED"
    unfolding IOAPIC_MASKED_def using w by (intro bit_word_eqI) (auto simp: bit_and_iff bit_not_iff bit_flag simp del: push_bit_of_1)
  have a: "(x OR IOAPIC_MASKED) AND NOT IOAPIC_MASKED = x AND NOT IOAPIC_MASKED" for x
    by (rule bit_word_eqI) (auto simp: bit_simps)
  have c: "merged (redirection ro irq) (x OR IOAPIC_MASKED) (x AND NOT IOAPIC_MASKED) = x AND NOT IOAPIC_MASKED" for x
    using merged_mask(2) [of "redirection ro irq" "x OR IOAPIC_MASKED" IOAPIC_MASKED] by (simp add: m a)
  show ?thesis
    using write_entry_regs [OF io] read_entry_regs [OF io]
    unfolding h1 h2 mask_irq_def unmask_irq_def by (simp add: split_def merged_mask m a c)
qed

text \<open>An I/O APIC with bits 12 and 14 of each entry read-only, at the default address.\<close>

definition demo_ro :: "u32 \<Rightarrow> u32" where
  "demo_ro r = (if 0x10 \<le> r \<and> even (unat r) then 0x5000 else 0)"

definition demo_ioapic :: "(u32 \<times> (u32 \<Rightarrow> u32)) io" where
  "demo_ioapic = null_io\<lparr>
     write_volatile_u32 := \<lambda>a v. State (\<lambda>(s, g). ((), if a = 0xFEC00000 then (v, g)
        else if a = 0xFEC00010 then (s, g(s := (g s AND demo_ro s) OR (v AND NOT (demo_ro s)))) else (s, g))),
     read_volatile_u32 := \<lambda>a. State (\<lambda>(s, g). (g s, s, g))\<rparr>"

lemma demo_window: "ioapic_window demo_ioapic (base_addr create_default_ioapic) fst snd demo_ro"
  by (simp add: ioapic_window_def demo_ioapic_def create_default_ioapic_def IoApic_new_def IOAPIC_DEFAULT_BASE_def split_def)

theorem configure_irq_correct_witness:
  "ucast (fst (run_state (do { configure_irq demo_ioapic create_default_ioapic 9 0x31 2 False True True;
     read_redirection_entry demo_ioapic create_default_ioapic 9 }) (0, \<lambda>r. 0)) AND 0xFF) = (0x31 :: u8)"
proof -
  let ?a = create_default_ioapic
  let ?h' = "snd (run_state (configure_irq demo_ioapic ?a 9 0x31 2 False True True) (0, \<lambda>r. 0))"
  have "redirection demo_ro 9 = 0x5000" "redirection (\<lambda>r. 0) 9 = 0" by (simp_all add: redirection_def demo_ro_def join_u32_def)
  moreover have "irq_entry 0x31 2 False True True = 0x020000000000A031"
    by (simp add: irq_entry_def IOAPIC_LEVEL_TRIGGERED_def IOAPIC_ACTIVE_LOW_def)
  ultimately have "fst (run_state (read_redirection_entry demo_ioapic ?a 9) ?h') = 0x020000000000A031"
    using configure_irq_correct [OF demo_window refl refl, of 9 "0x31" 2 False True True "(0, \<lambda>r. 0)"] by (simp add: merged_def)
  then show ?thesis by (simp add: split_def)
qed

theorem mask_irq_round_trip_witness:
  "redirection (snd (snd (run_state (do { mask_irq demo_ioapic create_default_ioapic 4; unmask_irq demo_ioapic create_default_ioapic 4 }) (0, \<lambda>r. 0x24)))) 4
    = redirection (\<lambda>r. 0x24) 4"
proof -
  have "\<not> bit (redirection demo_ro 4) 16" by (simp add: redirection_def demo_ro_def join_u32_def)
  moreover have "redirection (\<lambda>r. 0x24) 4 AND NOT IOAPIC_MASKED = redirection (\<lambda>r. 0x24) 4" by (simp add: redirection_def join_u32_def IOAPIC_MASKED_def)
  ultimately show ?thesis using mask_irq_round_trip [OF demo_window _ refl refl, of 4 "(0, \<lambda>r. 0x24)"] by (simp add: split_def)
qed

section \<open>Masks of the 8259 controllers\<close>

text \<open>The data ports of an initialised pair keep the masks.\<close>

definition mask_ports :: "'h io \<Rightarrow> ('h \<Rightarrow> u16 \<Rightarrow> u8) \<Rightarrow> bool" where
  "mask_ports io masks \<longleftrightarrow>
     (\<forall>h. \<forall>p \<in> {PIC1_DATA, PIC2_DATA}. run_state (inb io p) h = (masks h p, h) \<and> (\<forall>v. masks (snd (run_state (outb io p v) h)) = (masks h)(p := v)))"

definition line_masked :: "(u16 \<Rightarrow> u8) \<Rightarrow> u8 \<Rightarrow> bool" where
  "line_masked masks irq = bit (masks (if irq < 8 then PIC1_DATA else PIC2_DATA)) (unat (irq mod 8))"

lemma line_port: "irq < 16 \<Longrightarrow> i < 16 \<Longrightarrow> (irq < 8) = (i < 8) \<Longrightarrow> unat (irq mod 8) = unat (i mod 8) \<Longrightarrow> irq = (i :: u8)"
  unfolding word_unat_eq_iff word_less_nat_alt unat_mod by (cases "unat irq < 8"; cases "unat i < 8") (auto simp: mod_if split: if_splits)

lemma upd_bit:
  fixes f :: "u16 \<Rightarrow> u8" assumes "n < 8"
  shows "bit ((f(p := f p OR push_bit k 1)) q) n \<longleftrightarrow> (q = p \<and> n = k) \<or> bit (f q) n"
    "bit ((f(p := f p AND NOT (push_bit k 1))) q) n \<longleftrightarrow> \<not> (q = p \<and> n = k) \<and> bit (f q) n"
  using assms by (auto simp: bit_or_iff bit_and_iff bit_not_iff bit_exp_iff)

text \<open>
  \<^verbatim>\<open>set_mask\<close> masks exactly its line and \<^verbatim>\<open>clear_mask\<close> unmasks exactly its line, for the 16 lines of the pair.
\<close>

theorem set_clear_mask_correct:
  assumes io: "mask_ports io masks" and irq: "irq < 16" "i < 16"
  shows "line_masked (masks (snd (run_state (set_mask io irq) h))) i = (i = irq \<or> line_masked (masks h) i)
    \<and> line_masked (masks (snd (run_state (clear_mask io irq) h))) i = (i \<noteq> irq \<and> line_masked (masks h) i)"
proof -
  have p: "PIC1_DATA \<noteq> PIC2_DATA" by (simp add: PIC1_DATA_def PIC2_DATA_def)
  have b: "unat (irq mod 8) < 8" "unat (i mod 8) < 8" by (simp_all add: unat_mod)
  have e: "unat (irq mod 8) = unat (i mod 8) \<Longrightarrow> (irq < 8) = (i < 8) \<Longrightarrow> irq = i" using line_port [OF irq] by blast
  let ?p = "if irq < 8 then PIC1_DATA else PIC2_DATA" and ?q = "if i < 8 then PIC1_DATA else PIC2_DATA"
  have q: "?p \<in> {PIC1_DATA, PIC2_DATA}" by simp
  have "masks (snd (run_state (outb io ?p v) h)) = (masks h)(?p := v)" "run_state (inb io ?p) h = (masks h ?p, h)" for v
    using io q unfolding mask_ports_def by blast+
  then have "masks (snd (run_state (set_mask io irq) h)) = (masks h)(?p := masks h ?p OR push_bit (unat (irq mod 8)) 1)"
    "masks (snd (run_state (clear_mask io irq) h)) = (masks h)(?p := masks h ?p AND NOT (push_bit (unat (irq mod 8)) 1))"
    unfolding set_mask_def clear_mask_def Let_def run_state_bind by (simp_all only: prod.case)
  moreover have "?q = ?p \<and> unat (i mod 8) = unat (irq mod 8) \<longleftrightarrow> i = irq" using p e by metis
  ultimately show ?thesis unfolding line_masked_def by (simp only: upd_bit [OF b(2)] simp_thms)
qed

definition demo_pic :: "(u16 \<Rightarrow> u8) io" where
  "demo_pic = null_io\<lparr>outb := \<lambda>p v. State (\<lambda>h. ((), h(p := v))), inb := \<lambda>p. State (\<lambda>h. (h p, h))\<rparr>"

theorem set_clear_mask_correct_witness:
  "line_masked (snd (run_state (set_mask demo_pic 12) (\<lambda>p. 0))) 12 \<and> \<not> line_masked (snd (run_state (set_mask demo_pic 12) (\<lambda>p. 0))) 4"
proof -
  have "mask_ports demo_pic (\<lambda>h. h)" by (simp add: mask_ports_def demo_pic_def)
  from set_clear_mask_correct [OF this, of 12 12 "\<lambda>p. 0"] set_clear_mask_correct [OF this, of 12 4 "\<lambda>p. 0"]
  show ?thesis by (simp add: line_masked_def)
qed

end
