(* ===== verification/Pci.thy ===== *)
theory Pci
  imports Port_Io
begin

text \<open>
  The PCI driver, \<^verbatim>\<open>drivers/pci/lib.rs\<close>: configuration space, base address registers, capabilities, devices and the
  enumeration of the buses; the contract of the two ports to configuration space.
\<close>

unbundle bit_operations_syntax

section \<open>Constants\<close>

definition PCI_CONFIG_ADDRESS :: u16 where "PCI_CONFIG_ADDRESS = 0xCF8"
definition PCI_CONFIG_DATA :: u16 where "PCI_CONFIG_DATA = 0xCFC"
definition PCI_VENDOR_ID :: u8 where "PCI_VENDOR_ID = 0x00"
definition PCI_DEVICE_ID :: u8 where "PCI_DEVICE_ID = 0x02"
definition PCI_COMMAND :: u8 where "PCI_COMMAND = 0x04"
definition PCI_STATUS :: u8 where "PCI_STATUS = 0x06"
definition PCI_REVISION_ID :: u8 where "PCI_REVISION_ID = 0x08"
definition PCI_PROG_IF :: u8 where "PCI_PROG_IF = 0x09"
definition PCI_SUBCLASS :: u8 where "PCI_SUBCLASS = 0x0A"
definition PCI_CLASS :: u8 where "PCI_CLASS = 0x0B"
definition PCI_HEADER_TYPE :: u8 where "PCI_HEADER_TYPE = 0x0E"
definition PCI_BAR0 :: u8 where "PCI_BAR0 = 0x10"
definition PCI_CAPABILITIES_PTR :: u8 where "PCI_CAPABILITIES_PTR = 0x34"
definition PCI_COMMAND_IO_SPACE :: u16 where "PCI_COMMAND_IO_SPACE = push_bit 0 1"
definition PCI_COMMAND_MEMORY_SPACE :: u16 where "PCI_COMMAND_MEMORY_SPACE = push_bit 1 1"
definition PCI_COMMAND_BUS_MASTER :: u16 where "PCI_COMMAND_BUS_MASTER = push_bit 2 1"
definition PCI_COMMAND_INTERRUPT_DISABLE :: u16 where "PCI_COMMAND_INTERRUPT_DISABLE = push_bit 10 1"
definition PCI_STATUS_CAPABILITIES_LIST :: u16 where "PCI_STATUS_CAPABILITIES_LIST = push_bit 4 1"
definition PCI_CAP_ID_MSI :: u8 where "PCI_CAP_ID_MSI = 0x05"
definition PCI_CAP_ID_MSIX :: u8 where "PCI_CAP_ID_MSIX = 0x11"
definition PCI_HEADER_TYPE_MULTI_FUNCTION :: u8 where "PCI_HEADER_TYPE_MULTI_FUNCTION = 0x80"
definition PCI_VENDOR_ID_INVALID :: u16 where "PCI_VENDOR_ID_INVALID = 0xFFFF"

section \<open>Addresses\<close>

record PciAddress =
  pa_bus :: u8
  pa_device :: u8
  pa_function :: u8

definition PciAddress_new :: "u8 \<Rightarrow> u8 \<Rightarrow> u8 \<Rightarrow> PciAddress" where
  "PciAddress_new bus device function = \<lparr>pa_bus = bus, pa_device = device AND 0x1F, pa_function = function AND 0x07\<rparr>"

definition config_address :: "PciAddress \<Rightarrow> u8 \<Rightarrow> u32" where
  "config_address a offset =
     (let offset = offset AND 0xFC
      in 0x80000000 OR push_bit 16 (ucast (pa_bus a)) OR push_bit 11 (ucast (pa_device a)) OR push_bit 8 (ucast (pa_function a)) OR ucast offset)"

definition ecam_address :: "PciAddress \<Rightarrow> u64 \<Rightarrow> u16 \<Rightarrow> u64" where
  "ecam_address a ecam_base offset =
     ecam_base + push_bit 20 (ucast (pa_bus a)) + push_bit 15 (ucast (pa_device a)) + push_bit 12 (ucast (pa_function a)) + ucast offset"

section \<open>Configuration space\<close>

definition pci_config_read32 :: "'h io \<Rightarrow> PciAddress \<Rightarrow> u8 \<Rightarrow> ('h, u32) state" where
  "pci_config_read32 io a offset = do { outl io PCI_CONFIG_ADDRESS (config_address a offset); inl io PCI_CONFIG_DATA }"

definition pci_config_read16 :: "'h io \<Rightarrow> PciAddress \<Rightarrow> u8 \<Rightarrow> ('h, u16) state" where
  "pci_config_read16 io a offset = do {
     outl io PCI_CONFIG_ADDRESS (config_address a offset);
     v \<leftarrow> inl io PCI_CONFIG_DATA;
     State_Monad.return (ucast (drop_bit (unat ((offset AND 2) * 8)) v AND 0xFFFF))
   }"

definition pci_config_read8 :: "'h io \<Rightarrow> PciAddress \<Rightarrow> u8 \<Rightarrow> ('h, u8) state" where
  "pci_config_read8 io a offset = do {
     outl io PCI_CONFIG_ADDRESS (config_address a offset);
     v \<leftarrow> inl io PCI_CONFIG_DATA;
     State_Monad.return (ucast (drop_bit (unat ((offset AND 3) * 8)) v AND 0xFF))
   }"

definition pci_config_write32 :: "'h io \<Rightarrow> PciAddress \<Rightarrow> u8 \<Rightarrow> u32 \<Rightarrow> ('h, unit) state" where
  "pci_config_write32 io a offset value = do {
     outl io PCI_CONFIG_ADDRESS (config_address a offset);
     outl io PCI_CONFIG_DATA value
   }"

definition pci_config_write16 :: "'h io \<Rightarrow> PciAddress \<Rightarrow> u8 \<Rightarrow> u16 \<Rightarrow> ('h, unit) state" where
  "pci_config_write16 io a offset value = do {
     outl io PCI_CONFIG_ADDRESS (config_address a offset);
     let shift = unat ((offset AND 2) * 8);
     d \<leftarrow> inl io PCI_CONFIG_DATA;
     let keep = NOT (push_bit shift 0xFFFF);
     outl io PCI_CONFIG_DATA ((d AND keep) OR push_bit shift (ucast value))
   }"

definition pci_config_write8 :: "'h io \<Rightarrow> PciAddress \<Rightarrow> u8 \<Rightarrow> u8 \<Rightarrow> ('h, unit) state" where
  "pci_config_write8 io a offset value = do {
     outl io PCI_CONFIG_ADDRESS (config_address a offset);
     let shift = unat ((offset AND 3) * 8);
     d \<leftarrow> inl io PCI_CONFIG_DATA;
     let keep = NOT (push_bit shift 0xFF);
     outl io PCI_CONFIG_DATA ((d AND keep) OR push_bit shift (ucast value))
   }"

definition pci_ecam_read32 :: "'h io \<Rightarrow> u64 \<Rightarrow> PciAddress \<Rightarrow> u16 \<Rightarrow> ('h, u32) state" where
  "pci_ecam_read32 io ecam_base a offset = read_volatile_u32 io (ecam_address a ecam_base (offset AND 0xFFC))"

definition pci_ecam_read16 :: "'h io \<Rightarrow> u64 \<Rightarrow> PciAddress \<Rightarrow> u16 \<Rightarrow> ('h, u16) state" where
  "pci_ecam_read16 io ecam_base a offset = read_volatile_u16 io (ecam_address a ecam_base (offset AND 0xFFE))"

definition pci_ecam_read8 :: "'h io \<Rightarrow> u64 \<Rightarrow> PciAddress \<Rightarrow> u16 \<Rightarrow> ('h, u8) state" where
  "pci_ecam_read8 io ecam_base a offset = read_volatile_u8 io (ecam_address a ecam_base offset)"

definition pci_ecam_write32 :: "'h io \<Rightarrow> u64 \<Rightarrow> PciAddress \<Rightarrow> u16 \<Rightarrow> u32 \<Rightarrow> ('h, unit) state" where
  "pci_ecam_write32 io ecam_base a offset value = write_volatile_u32 io (ecam_address a ecam_base (offset AND 0xFFC)) value"

definition pci_ecam_write16 :: "'h io \<Rightarrow> u64 \<Rightarrow> PciAddress \<Rightarrow> u16 \<Rightarrow> u16 \<Rightarrow> ('h, unit) state" where
  "pci_ecam_write16 io ecam_base a offset value = write_volatile_u16 io (ecam_address a ecam_base (offset AND 0xFFE)) value"

definition pci_ecam_write8 :: "'h io \<Rightarrow> u64 \<Rightarrow> PciAddress \<Rightarrow> u16 \<Rightarrow> u8 \<Rightarrow> ('h, unit) state" where
  "pci_ecam_write8 io ecam_base a offset value = write_volatile_u8 io (ecam_address a ecam_base offset) value"

section \<open>Base address registers\<close>

datatype BarType = IoSpace | Memory32 | Memory64 | BarType_None

record Bar =
  bar_type :: BarType
  base_address :: u64
  bar_size :: u64
  prefetchable :: bool

definition Bar_none :: Bar where
  "Bar_none = \<lparr>bar_type = BarType_None, base_address = 0, bar_size = 0, prefetchable = False\<rparr>"

definition pci_read_bar :: "'h io \<Rightarrow> PciAddress \<Rightarrow> u8 \<Rightarrow> ('h, Bar) state" where
  "pci_read_bar io a bar_index =
     (if bar_index \<ge> 6 then State_Monad.return Bar_none
      else do {
        let bar_offset = PCI_BAR0 + bar_index * 4;
        bar_value \<leftarrow> pci_config_read32 io a bar_offset;
        if bar_value = 0 then State_Monad.return Bar_none
        else if bar_value AND 0x01 \<noteq> 0 then do {
          let base = ucast (bar_value AND 0xFFFFFFFC);
          pci_config_write32 io a bar_offset 0xFFFFFFFF;
          size_mask \<leftarrow> pci_config_read32 io a bar_offset;
          pci_config_write32 io a bar_offset bar_value;
          let sz = NOT (ucast (size_mask AND 0xFFFFFFFC)) + 1;
          State_Monad.return \<lparr>bar_type = IoSpace, base_address = base, bar_size = sz AND 0xFFFF, prefetchable = False\<rparr>
        }
        else do {
          let bar_type_bits = drop_bit 1 bar_value AND 0x03;
          let prefetch = (bar_value AND 0x08 \<noteq> 0);
          if bar_type_bits = 0b00 then do {
            let base = ucast (bar_value AND 0xFFFFFFF0);
            pci_config_write32 io a bar_offset 0xFFFFFFFF;
            size_mask \<leftarrow> pci_config_read32 io a bar_offset;
            pci_config_write32 io a bar_offset bar_value;
            let sz = NOT (ucast (size_mask AND 0xFFFFFFF0)) + 1;
            State_Monad.return \<lparr>bar_type = Memory32, base_address = base, bar_size = sz, prefetchable = prefetch\<rparr>
          }
          else if bar_type_bits = 0b10 then
            (if bar_index \<ge> 5 then State_Monad.return Bar_none
             else do {
               let bar_high_offset = bar_offset + 4;
               bar_high \<leftarrow> pci_config_read32 io a bar_high_offset;
               let base = join_u32 bar_high (bar_value AND 0xFFFFFFF0);
               pci_config_write32 io a bar_offset 0xFFFFFFFF;
               pci_config_write32 io a bar_high_offset 0xFFFFFFFF;
               size_mask_low \<leftarrow> pci_config_read32 io a bar_offset;
               size_mask_high \<leftarrow> pci_config_read32 io a bar_high_offset;
               pci_config_write32 io a bar_offset bar_value;
               pci_config_write32 io a bar_high_offset bar_high;
               let size_mask = join_u32 size_mask_high (size_mask_low AND 0xFFFFFFF0);
               let sz = NOT size_mask + 1;
               State_Monad.return \<lparr>bar_type = Memory64, base_address = base, bar_size = sz, prefetchable = prefetch\<rparr>
             })
          else State_Monad.return Bar_none
        }
      })"

section \<open>Capabilities\<close>

text \<open>The loop of \<^verbatim>\<open>pci_find_capability\<close>; the first argument counts the iterations left of 48.\<close>

fun cap_loop :: "'h io \<Rightarrow> PciAddress \<Rightarrow> u8 \<Rightarrow> nat \<Rightarrow> u8 \<Rightarrow> ('h, u8 option) state" where
  "cap_loop io a cap_id 0 cap_offset = State_Monad.return None"
| "cap_loop io a cap_id (Suc n) cap_offset =
     (if cap_offset = 0 then State_Monad.return None
      else do {
        cap_header \<leftarrow> pci_config_read16 io a cap_offset;
        let current_id = ucast (cap_header AND 0xFF);
        if current_id = cap_id then State_Monad.return (Some cap_offset)
        else cap_loop io a cap_id n (ucast (drop_bit 8 cap_header AND 0xFC))
      })"

definition pci_find_capability :: "'h io \<Rightarrow> PciAddress \<Rightarrow> u8 \<Rightarrow> ('h, u8 option) state" where
  "pci_find_capability io a cap_id = do {
     status \<leftarrow> pci_config_read16 io a PCI_STATUS;
     if status AND PCI_STATUS_CAPABILITIES_LIST = 0 then State_Monad.return None
     else do {
       p \<leftarrow> pci_config_read8 io a PCI_CAPABILITIES_PTR;
       cap_loop io a cap_id 48 (p AND 0xFC)
     }
   }"

record CapabilityIterator =
  ci_addr :: PciAddress
  next_offset :: u8
  ci_iterations :: u8

record Capability =
  cap_id_of :: u8
  cap_offset_of :: u8

definition CapabilityIterator_new :: "'h io \<Rightarrow> PciAddress \<Rightarrow> ('h, CapabilityIterator option) state" where
  "CapabilityIterator_new io a = do {
     status \<leftarrow> pci_config_read16 io a PCI_STATUS;
     if status AND PCI_STATUS_CAPABILITIES_LIST = 0 then State_Monad.return None
     else do {
       p \<leftarrow> pci_config_read8 io a PCI_CAPABILITIES_PTR;
       State_Monad.return (Some \<lparr>ci_addr = a, next_offset = p AND 0xFC, ci_iterations = 0\<rparr>)
     }
   }"

definition CapabilityIterator_next :: "'h io \<Rightarrow> CapabilityIterator \<Rightarrow> ('h, Capability option \<times> CapabilityIterator) state" where
  "CapabilityIterator_next io it =
     (if next_offset it = 0 \<or> ci_iterations it \<ge> 48 then State_Monad.return (None, it)
      else do {
        let it = it\<lparr>ci_iterations := ci_iterations it + 1\<rparr>;
        cap_header \<leftarrow> pci_config_read16 io (ci_addr it) (next_offset it);
        State_Monad.return (Some \<lparr>cap_id_of = ucast (cap_header AND 0xFF), cap_offset_of = next_offset it\<rparr>,
          it\<lparr>next_offset := ucast (drop_bit 8 cap_header AND 0xFC)\<rparr>)
      })"

section \<open>Devices\<close>

record PciDevice =
  pd_address :: PciAddress
  vendor_id :: u16
  device_id :: u16
  class_code :: u8
  pci_subclass :: u8
  prog_if :: u8
  revision_id :: u8
  header_type :: u8
  msi_cap_offset :: u8
  msix_cap_offset :: u8

definition PciDevice_exists :: "'h io \<Rightarrow> PciAddress \<Rightarrow> ('h, bool) state" where
  "PciDevice_exists io a = do { v \<leftarrow> pci_config_read16 io a PCI_VENDOR_ID; State_Monad.return (v \<noteq> PCI_VENDOR_ID_INVALID) }"

definition unwrap_or_0 :: "u8 option \<Rightarrow> u8" where
  "unwrap_or_0 x = (case x of None \<Rightarrow> 0 | Some v \<Rightarrow> v)"

definition PciDevice_read :: "'h io \<Rightarrow> PciAddress \<Rightarrow> ('h, PciDevice option) state" where
  "PciDevice_read io a = do {
     vendor \<leftarrow> pci_config_read16 io a PCI_VENDOR_ID;
     if vendor = PCI_VENDOR_ID_INVALID then State_Monad.return None
     else do {
       device \<leftarrow> pci_config_read16 io a PCI_DEVICE_ID;
       cls \<leftarrow> pci_config_read8 io a PCI_CLASS;
       subcls \<leftarrow> pci_config_read8 io a PCI_SUBCLASS;
       prog \<leftarrow> pci_config_read8 io a PCI_PROG_IF;
       revision \<leftarrow> pci_config_read8 io a PCI_REVISION_ID;
       header \<leftarrow> pci_config_read8 io a PCI_HEADER_TYPE;
       msi \<leftarrow> pci_find_capability io a PCI_CAP_ID_MSI;
       msix \<leftarrow> pci_find_capability io a PCI_CAP_ID_MSIX;
       State_Monad.return (Some \<lparr>pd_address = a, vendor_id = vendor, device_id = device, class_code = cls, pci_subclass = subcls, prog_if = prog,
         revision_id = revision, header_type = header, msi_cap_offset = unwrap_or_0 msi, msix_cap_offset = unwrap_or_0 msix\<rparr>)
     }
   }"

definition is_multi_function :: "PciDevice \<Rightarrow> bool" where
  "is_multi_function d \<longleftrightarrow> header_type d AND PCI_HEADER_TYPE_MULTI_FUNCTION \<noteq> 0"

definition supports_msi :: "PciDevice \<Rightarrow> bool" where "supports_msi d \<longleftrightarrow> msi_cap_offset d \<noteq> 0"
definition supports_msix :: "PciDevice \<Rightarrow> bool" where "supports_msix d \<longleftrightarrow> msix_cap_offset d \<noteq> 0"

definition enable_bus_master :: "'h io \<Rightarrow> PciDevice \<Rightarrow> ('h, unit) state" where
  "enable_bus_master io d = do {
     cmd \<leftarrow> pci_config_read16 io (pd_address d) PCI_COMMAND;
     pci_config_write16 io (pd_address d) PCI_COMMAND (cmd OR PCI_COMMAND_BUS_MASTER)
   }"

definition enable_memory_space :: "'h io \<Rightarrow> PciDevice \<Rightarrow> ('h, unit) state" where
  "enable_memory_space io d = do {
     cmd \<leftarrow> pci_config_read16 io (pd_address d) PCI_COMMAND;
     pci_config_write16 io (pd_address d) PCI_COMMAND (cmd OR PCI_COMMAND_MEMORY_SPACE)
   }"

definition enable_io_space :: "'h io \<Rightarrow> PciDevice \<Rightarrow> ('h, unit) state" where
  "enable_io_space io d = do {
     cmd \<leftarrow> pci_config_read16 io (pd_address d) PCI_COMMAND;
     pci_config_write16 io (pd_address d) PCI_COMMAND (cmd OR PCI_COMMAND_IO_SPACE)
   }"

definition disable_legacy_interrupts :: "'h io \<Rightarrow> PciDevice \<Rightarrow> ('h, unit) state" where
  "disable_legacy_interrupts io d = do {
     cmd \<leftarrow> pci_config_read16 io (pd_address d) PCI_COMMAND;
     pci_config_write16 io (pd_address d) PCI_COMMAND (cmd OR PCI_COMMAND_INTERRUPT_DISABLE)
   }"

definition enable_legacy_interrupts :: "'h io \<Rightarrow> PciDevice \<Rightarrow> ('h, unit) state" where
  "enable_legacy_interrupts io d = do {
     cmd \<leftarrow> pci_config_read16 io (pd_address d) PCI_COMMAND;
     pci_config_write16 io (pd_address d) PCI_COMMAND (cmd AND NOT PCI_COMMAND_INTERRUPT_DISABLE)
   }"

definition device_read_bar :: "'h io \<Rightarrow> PciDevice \<Rightarrow> u8 \<Rightarrow> ('h, Bar) state" where
  "device_read_bar io d bar_index = pci_read_bar io (pd_address d) bar_index"

section \<open>Enumeration\<close>

text \<open>The static variables of the driver beside the hardware.\<close>

record 'h pci =
  pci_hw :: 'h
  PCI_DEVICES :: "PciDevice option list"
  PCI_DEVICE_COUNT :: usize

definition MAX_PCI_DEVICES :: usize where "MAX_PCI_DEVICES = 256"

definition on_hw :: "('h, 'a) state \<Rightarrow> 'h pci \<Rightarrow> 'a \<times> 'h pci" where
  "on_hw m s = (case run_state m (pci_hw s) of (x, h) \<Rightarrow> (x, s\<lparr>pci_hw := h\<rparr>))"

text \<open>
  The functions of the enumeration call each other without a bound; \<open>scan_bus\<close> is the call of \<^verbatim>\<open>pci_enumerate_bus\<close> they end in, and
  None is the result of running out of stack.
\<close>

primrec for_each :: "('a \<Rightarrow> 's \<Rightarrow> 's option) \<Rightarrow> 'a list \<Rightarrow> 's \<Rightarrow> 's option" where
  "for_each f [] s = Some s"
| "for_each f (x # xs) s = (case f x s of None \<Rightarrow> None | Some s \<Rightarrow> for_each f xs s)"

definition store_device :: "PciDevice \<Rightarrow> 'h pci \<Rightarrow> 'h pci" where
  "store_device d s =
     (if PCI_DEVICE_COUNT s < MAX_PCI_DEVICES
      then s\<lparr>PCI_DEVICES := (PCI_DEVICES s)[unat (PCI_DEVICE_COUNT s) := Some d], PCI_DEVICE_COUNT := PCI_DEVICE_COUNT s + 1\<rparr>
      else s)"

definition pci_enumerate_function :: "'h io \<Rightarrow> (u8 \<Rightarrow> 'h pci \<Rightarrow> 'h pci option) \<Rightarrow> u8 \<Rightarrow> u8 \<Rightarrow> u8 \<Rightarrow> 'h pci \<Rightarrow> 'h pci option" where
  "pci_enumerate_function io scan_bus bus device function s =
     (let a = PciAddress_new bus device function in
      case on_hw (PciDevice_read io a) s of
        (None, s) \<Rightarrow> Some s
      | (Some pci_dev, s) \<Rightarrow>
          let s = store_device pci_dev s in
          if class_code pci_dev = 0x06 \<and> pci_subclass pci_dev = 0x04
          then case on_hw (pci_config_read8 io a 0x19) s of (secondary_bus, s) \<Rightarrow> scan_bus secondary_bus s
          else Some s)"

definition pci_enumerate_device :: "'h io \<Rightarrow> (u8 \<Rightarrow> 'h pci \<Rightarrow> 'h pci option) \<Rightarrow> u8 \<Rightarrow> u8 \<Rightarrow> 'h pci \<Rightarrow> 'h pci option" where
  "pci_enumerate_device io scan_bus bus device s =
     (let a = PciAddress_new bus device 0 in
      case on_hw (PciDevice_exists io a) s of (present, s) \<Rightarrow>
        if \<not> present then Some s
        else case pci_enumerate_function io scan_bus bus device 0 s of
          None \<Rightarrow> None
        | Some s \<Rightarrow> (case on_hw (pci_config_read8 io a PCI_HEADER_TYPE) s of (header, s) \<Rightarrow>
            if header AND PCI_HEADER_TYPE_MULTI_FUNCTION \<noteq> 0
            then for_each (\<lambda>function s.
                   case on_hw (PciDevice_exists io (PciAddress_new bus device function)) s of (present, s) \<Rightarrow>
                     if present then pci_enumerate_function io scan_bus bus device function s else Some s) (range_w 1 8) s
            else Some s))"

fun pci_enumerate_bus :: "'h io \<Rightarrow> nat \<Rightarrow> u8 \<Rightarrow> 'h pci \<Rightarrow> 'h pci option" where
  "pci_enumerate_bus io 0 bus s = None"
| "pci_enumerate_bus io (Suc stack) bus s =
     for_each (\<lambda>device. pci_enumerate_device io (pci_enumerate_bus io stack) bus device) (range_w 0 32) s"

definition pci_enumerate :: "'h io \<Rightarrow> nat \<Rightarrow> 'h pci \<Rightarrow> (usize \<times> 'h pci) option" where
  "pci_enumerate io stack s =
     (let s = s\<lparr>PCI_DEVICE_COUNT := 0\<rparr> in
      case on_hw (pci_config_read8 io (PciAddress_new 0 0 0) PCI_HEADER_TYPE) s of (host_header, s) \<Rightarrow>
        map_option (\<lambda>s. (PCI_DEVICE_COUNT s, s))
          (if host_header AND PCI_HEADER_TYPE_MULTI_FUNCTION \<noteq> 0
           then for_each (\<lambda>function s.
                  case on_hw (PciDevice_exists io (PciAddress_new 0 0 function)) s of (present, s) \<Rightarrow>
                    if present then pci_enumerate_bus io stack function s else Some s) (range_w 0 8) s
           else pci_enumerate_bus io stack 0 s))"

definition pci_init :: "'h io \<Rightarrow> nat \<Rightarrow> 'h pci \<Rightarrow> (usize \<times> 'h pci) option" where
  "pci_init io stack s = pci_enumerate io stack s"

definition pci_get_device_count :: "'h pci \<Rightarrow> usize" where
  "pci_get_device_count s = PCI_DEVICE_COUNT s"

definition pci_get_device :: "usize \<Rightarrow> 'h pci \<Rightarrow> PciDevice option" where
  "pci_get_device index s =
     (if index < PCI_DEVICE_COUNT s \<and> index < MAX_PCI_DEVICES then PCI_DEVICES s ! unat index else None)"

text \<open>The search loops run over the slots below both the count and the size of the array.\<close>

fun device_scan :: "(PciDevice \<Rightarrow> bool) \<Rightarrow> PciDevice option list \<Rightarrow> PciDevice option" where
  "device_scan P [] = None"
| "device_scan P (None # ds) = device_scan P ds"
| "device_scan P (Some d # ds) = (if P d then Some d else device_scan P ds)"

definition known_slots :: "'h pci \<Rightarrow> PciDevice option list" where
  "known_slots s = take (unat (min (PCI_DEVICE_COUNT s) MAX_PCI_DEVICES)) (PCI_DEVICES s)"

definition pci_find_device :: "u16 \<Rightarrow> u16 \<Rightarrow> 'h pci \<Rightarrow> PciDevice option" where
  "pci_find_device vendor device s = device_scan (\<lambda>d. vendor_id d = vendor \<and> device_id d = device) (known_slots s)"

definition pci_find_device_by_class :: "u8 \<Rightarrow> u8 \<Rightarrow> 'h pci \<Rightarrow> PciDevice option" where
  "pci_find_device_by_class cls subcls s = device_scan (\<lambda>d. class_code d = cls \<and> pci_subclass d = subcls) (known_slots s)"

section \<open>The ports to configuration space\<close>

text \<open>
  The documented access through the two ports: a write to the address port selects a register, the data port reads and writes
  it. What a write of a value does to a register is the device's own matter: \<open>wr\<close> gives the new contents from the register, its old
  contents and the value written. Reads change nothing but the selection.
\<close>

definition config_ports :: "'h io \<Rightarrow> ('h \<Rightarrow> u32) \<Rightarrow> ('h \<Rightarrow> u32 \<Rightarrow> u32) \<Rightarrow> (u32 \<Rightarrow> u32 \<Rightarrow> u32 \<Rightarrow> u32) \<Rightarrow> bool" where
  "config_ports io sel cfg wr \<longleftrightarrow>
     (\<forall>h r. sel (snd (run_state (outl io PCI_CONFIG_ADDRESS r) h)) = r \<and> cfg (snd (run_state (outl io PCI_CONFIG_ADDRESS r) h)) = cfg h)
     \<and> (\<forall>h. fst (run_state (inl io PCI_CONFIG_DATA) h) = cfg h (sel h)
          \<and> sel (snd (run_state (inl io PCI_CONFIG_DATA) h)) = sel h \<and> cfg (snd (run_state (inl io PCI_CONFIG_DATA) h)) = cfg h)
     \<and> (\<forall>h v. cfg (snd (run_state (outl io PCI_CONFIG_DATA v) h)) = (cfg h)(sel h := wr (sel h) (cfg h (sel h)) v))"

definition reg :: "(u32 \<Rightarrow> u32) \<Rightarrow> PciAddress \<Rightarrow> u8 \<Rightarrow> u32" where
  "reg c a offset = c (config_address a offset)"

definition reg16 :: "(u32 \<Rightarrow> u32) \<Rightarrow> PciAddress \<Rightarrow> u8 \<Rightarrow> u16" where
  "reg16 c a offset = ucast (drop_bit (unat ((offset AND 2) * 8)) (reg c a offset))"

definition reg8 :: "(u32 \<Rightarrow> u32) \<Rightarrow> PciAddress \<Rightarrow> u8 \<Rightarrow> u8" where
  "reg8 c a offset = ucast (drop_bit (unat ((offset AND 3) * 8)) (reg c a offset))"

lemma config_read:
  assumes "config_ports io sel cfg wr"
  shows "fst (run_state (pci_config_read32 io a off) h) = reg (cfg h) a off" "cfg (snd (run_state (pci_config_read32 io a off) h)) = cfg h"
    "fst (run_state (pci_config_read16 io a off) h) = reg16 (cfg h) a off" "cfg (snd (run_state (pci_config_read16 io a off) h)) = cfg h"
    "fst (run_state (pci_config_read8 io a off) h) = reg8 (cfg h) a off" "cfg (snd (run_state (pci_config_read8 io a off) h)) = cfg h"
proof -
  have m: "ucast (x AND 0xFFFF) = (ucast x :: u16)" "ucast (x AND 0xFF) = (ucast x :: u8)" for x :: u32
    by (rule bit_word_eqI; simp only: bit_ucast_iff bit_and_iff bit_low_masks; auto)+
  show "fst (run_state (pci_config_read32 io a off) h) = reg (cfg h) a off" "cfg (snd (run_state (pci_config_read32 io a off) h)) = cfg h"
    "fst (run_state (pci_config_read16 io a off) h) = reg16 (cfg h) a off" "cfg (snd (run_state (pci_config_read16 io a off) h)) = cfg h"
    "fst (run_state (pci_config_read8 io a off) h) = reg8 (cfg h) a off" "cfg (snd (run_state (pci_config_read8 io a off) h)) = cfg h"
    using assms by (simp_all add: config_ports_def pci_config_read32_def pci_config_read16_def pci_config_read8_def split_def reg_def reg16_def reg8_def m)
qed

lemma config_write:
  assumes "config_ports io sel cfg wr"
  shows "cfg (snd (run_state (pci_config_write32 io a off v) h)) = (let r = config_address a off in (cfg h)(r := wr r (cfg h r) v))"
    "cfg (snd (run_state (pci_config_write16 io a off v16) h)) = (let r = config_address a off; k = unat ((off AND 2) * 8)
       in (cfg h)(r := wr r (cfg h r) ((cfg h r AND NOT (push_bit k 0xFFFF)) OR push_bit k (ucast v16))))"
    "cfg (snd (run_state (pci_config_write8 io a off v8) h)) = (let r = config_address a off; k = unat ((off AND 3) * 8)
       in (cfg h)(r := wr r (cfg h r) ((cfg h r AND NOT (push_bit k 0xFF)) OR push_bit k (ucast v8))))"
  using assms by (simp_all add: config_ports_def pci_config_write32_def pci_config_write16_def pci_config_write8_def split_def Let_def)

section \<open>Examples\<close>

text \<open>A machine that is nothing but its configuration space, with the given effect of writes.\<close>

definition demo_pci :: "(u32 \<Rightarrow> u32 \<Rightarrow> u32 \<Rightarrow> u32) \<Rightarrow> (u32 \<times> (u32 \<Rightarrow> u32)) io" where
  "demo_pci wr = null_io\<lparr>outl := \<lambda>p v. State (\<lambda>(s, c). ((), if p = PCI_CONFIG_ADDRESS then (v, c)
       else if p = PCI_CONFIG_DATA then (s, c(s := wr s (c s) v)) else (s, c))),
     inl := \<lambda>p. State (\<lambda>(s, c). (c s, s, c))\<rparr>"

lemma demo_config_ports: "config_ports (demo_pci wr) fst snd wr"
  by (simp add: config_ports_def demo_pci_def PCI_CONFIG_ADDRESS_def PCI_CONFIG_DATA_def split_def)

end
