(* ===== verification/Pci_Correct.thy ===== *)
theory Pci_Correct
  imports Pci
begin

text \<open>
  Configuration space by address and by field, the search of the capability list and the size of a memory region.
\<close>

unbundle bit_operations_syntax

section \<open>Registers of different functions are different\<close>

lemma u8_masks: "(0x1F :: u8) = mask 5" "(0x07 :: u8) = mask 3" "(0xFC :: u8) = NOT (mask 2)"
  by (simp_all add: mask_eq_exp_minus_1)

lemma bit_u8_less: "bit (w :: u8) n \<Longrightarrow> n < 8"
  using bit_imp_le_length by fastforce

lemma bit_31: "bit (0x80000000 :: u32) n \<longleftrightarrow> n = 31"
proof -
  have "(0x80000000 :: u32) = push_bit 31 1" by simp
  then show ?thesis by (simp only: bit_push_bit_iff) (auto simp: bit_1_iff)
qed

lemma bit_config_address:
  "bit (config_address (PciAddress_new b d f) off) n \<longleftrightarrow>
     (if n < 2 then False else if n < 8 then bit off n else if n < 11 then bit f (n - 8) else if n < 16 then bit d (n - 11)
      else if n < 24 then bit b (n - 16) else n = 31)"
proof -
  have "bit (push_bit 16 (ucast b) :: u32) n \<longleftrightarrow> 16 \<le> n \<and> n < 24 \<and> bit b (n - 16)"
    using bit_u8_less [of b "n - 16"] by (auto simp: bit_push_bit_iff bit_ucast_iff)
  moreover have "bit (push_bit 11 (ucast (d AND mask 5)) :: u32) n \<longleftrightarrow> 11 \<le> n \<and> n < 16 \<and> bit d (n - 11)"
    by (auto simp: bit_push_bit_iff bit_ucast_iff bit_and_iff bit_mask_iff)
  moreover have "bit (push_bit 8 (ucast (f AND mask 3)) :: u32) n \<longleftrightarrow> 8 \<le> n \<and> n < 11 \<and> bit f (n - 8)"
    by (auto simp: bit_push_bit_iff bit_ucast_iff bit_and_iff bit_mask_iff)
  moreover have "bit (ucast (off AND NOT (mask 2)) :: u32) n \<longleftrightarrow> 2 \<le> n \<and> n < 8 \<and> bit off n"
    using bit_u8_less [of off n] by (auto simp: bit_ucast_iff bit_and_iff bit_not_iff bit_mask_iff)
  ultimately show ?thesis
    unfolding config_address_def PciAddress_new_def Let_def PciAddress.select_convs u8_masks bit_or_iff bit_31 by auto
qed

lemma config_address_eq:
  "config_address (PciAddress_new b d f) off = config_address (PciAddress_new b' d' f') off'
     \<longleftrightarrow> PciAddress_new b d f = PciAddress_new b' d' f' \<and> off AND 0xFC = off' AND 0xFC"
proof
  assume e: "config_address (PciAddress_new b d f) off = config_address (PciAddress_new b' d' f') off'"
  have n: "(if n < 2 then False else if n < 8 then bit off n else if n < 11 then bit f (n - 8) else if n < 16 then bit d (n - 11)
      else if n < 24 then bit b (n - 16) else n = 31) = (if n < 2 then False else if n < 8 then bit off' n else if n < 11 then bit f' (n - 8)
      else if n < 16 then bit d' (n - 11) else if n < 24 then bit b' (n - 16) else n = 31)" for n
    using e by (simp only: bit_config_address [symmetric])
  have "bit b n = bit b' n" if "n < 8" for n using n [of "n + 16"] that by simp
  then have "b = b'" by (intro bit_word_eqI) simp
  moreover have "bit d n = bit d' n" if "n < 5" for n using n [of "n + 11"] that by simp
  then have "d AND mask 5 = d' AND mask 5" by (intro bit_word_eqI) (auto simp: bit_and_iff bit_mask_iff)
  moreover have "bit f n = bit f' n" if "n < 3" for n using n [of "n + 8"] that by simp
  then have "f AND mask 3 = f' AND mask 3" by (intro bit_word_eqI) (auto simp: bit_and_iff bit_mask_iff)
  moreover have "bit off n = bit off' n" if "2 \<le> n" "n < 8" for n using n [of n] that by simp
  then have "off AND NOT (mask 2) = off' AND NOT (mask 2)" by (intro bit_word_eqI) (auto simp: bit_and_iff bit_not_iff bit_mask_iff)
  ultimately show "PciAddress_new b d f = PciAddress_new b' d' f' \<and> off AND 0xFC = off' AND 0xFC"
    unfolding PciAddress_new_def u8_masks by simp
next
  show "PciAddress_new b d f = PciAddress_new b' d' f' \<and> off AND 0xFC = off' AND 0xFC \<Longrightarrow>
      config_address (PciAddress_new b d f) off = config_address (PciAddress_new b' d' f') off'"
    by (simp add: config_address_def)
qed

text \<open>
  Two accesses reach the same register of configuration space exactly when they name the same function, after the device and
  function numbers are cut to 5 and 3 bits, and the same aligned offset.
\<close>

theorem config_address_injective:
  "config_address (PciAddress_new b d f) off = config_address (PciAddress_new b' d' f') off'
     \<longleftrightarrow> PciAddress_new b d f = PciAddress_new b' d' f' \<and> off AND 0xFC = off' AND 0xFC"
  by (rule config_address_eq)

section \<open>Writing a field of a register\<close>

lemma field_merge:
  fixes x :: u32 and v :: u16
  assumes "k \<le> 16"
  shows "ucast (drop_bit k ((x AND NOT (push_bit k 0xFFFF)) OR push_bit k (ucast v))) = v"
proof (rule bit_word_eqI)
  fix n assume "n < LENGTH(16)"
  then show "bit (ucast (drop_bit k ((x AND NOT (push_bit k 0xFFFF)) OR push_bit k (ucast v))) :: u16) n = bit v n"
    unfolding bit_ucast_iff bit_drop_bit_eq o_def bit_or_iff bit_and_iff bit_not_iff bit_push_bit_iff bit_low_masks using assms by auto
qed

lemma field_merge_u8:
  fixes x :: u32 and v :: u8
  assumes "k \<le> 24"
  shows "ucast (drop_bit k ((x AND NOT (push_bit k 0xFF)) OR push_bit k (ucast v))) = v"
proof (rule bit_word_eqI)
  fix n assume "n < LENGTH(8)"
  then show "bit (ucast (drop_bit k ((x AND NOT (push_bit k 0xFF)) OR push_bit k (ucast v))) :: u8) n = bit v n"
    unfolding bit_ucast_iff bit_drop_bit_eq o_def bit_or_iff bit_and_iff bit_not_iff bit_push_bit_iff bit_low_masks using assms by auto
qed

lemma field_other:
  fixes x :: u32 and v :: u16
  assumes "bit x n = bit y n" "n < k \<or> k + 16 \<le> n" "n < 32"
  shows "bit ((x AND NOT (push_bit k 0xFFFF)) OR push_bit k (ucast v)) n = bit y n"
  using assms bit_imp_le_length [of v]
  by (simp only: bit_ucast_iff bit_drop_bit_eq bit_or_iff bit_and_iff bit_not_iff bit_push_bit_iff bit_low_masks) force

text \<open>
  The other half of the register is written back as it was read. The upper half of the command register is the status register,
  whose error bits are cleared by writing 1 to them: so switching on bus mastering sets its bit and also clears every status bit
  of this kind that was set.
\<close>

theorem enable_bus_master_clears_status:
  assumes io: "config_ports io sel cfg wr"
    and r: "r = config_address (pd_address d) PCI_COMMAND" and h': "h' = snd (run_state (enable_bus_master io d) h)"
    and plain: "\<And>x v. bit (wr r x v) 2 = bit v 2" and clears: "\<And>x v n. n \<in> S \<Longrightarrow> bit (wr r x v) n = (bit x n \<and> \<not> bit v n)"
    and S: "S \<subseteq> {16..<32}"
  shows "bit (cfg h' r) 2 \<and> (\<forall>n\<in>S. \<not> bit (cfg h' r) n) \<and> (\<forall>x. x \<noteq> r \<longrightarrow> cfg h' x = cfg h x)"
proof -
  let ?x = "cfg h r" and ?v = "ucast (cfg h r) OR PCI_COMMAND_BUS_MASTER :: u16"
  let ?w = "(?x AND NOT (push_bit 0 0xFFFF)) OR push_bit 0 (ucast ?v)"
  have k: "unat ((PCI_COMMAND AND 2) * 8) = 0" by (simp add: PCI_COMMAND_def)
  have cmd: "fst (run_state (pci_config_read16 io (pd_address d) PCI_COMMAND) h) = ucast ?x" "cfg (snd (run_state (pci_config_read16 io (pd_address d) PCI_COMMAND) h)) = cfg h"
    using config_read(3,4) [OF io] k by (simp_all add: reg16_def reg_def r)
  have c: "cfg h' = (cfg h)(r := wr r ?x ?w)"
    using config_write(2) [OF io] k cmd unfolding h' enable_bus_master_def Let_def r by (simp add: split_def)
  have b: "bit PCI_COMMAND_BUS_MASTER 2" by (simp add: PCI_COMMAND_BUS_MASTER_def)
  have "ucast ((drop_bit 0 ?w)) = ?v" by (rule field_merge) simp
  then have "ucast ?w = ?v" by simp
  then have "bit (ucast ?w :: u16) 2" using b by (simp add: bit_or_iff)
  then have "bit ?w 2" by (simp add: bit_ucast_iff)
  moreover have "bit ?w n = bit ?x n" if "n \<in> S" for n using that S by (intro field_other) auto
  ultimately show ?thesis using plain clears by (simp add: c)
qed

section \<open>Searching the capability list\<close>

definition cap_next :: "(u32 \<Rightarrow> u32) \<Rightarrow> PciAddress \<Rightarrow> u8 \<Rightarrow> u8" where
  "cap_next c a off = ucast (drop_bit 8 (reg16 c a off) AND 0xFC)"

definition cap_id_at :: "(u32 \<Rightarrow> u32) \<Rightarrow> PciAddress \<Rightarrow> u8 \<Rightarrow> u8" where
  "cap_id_at c a off = ucast (reg16 c a off AND 0xFF)"

text \<open>The reference: the \<open>i\<close>-th capability is listed when no pointer up to it is 0.\<close>

definition cap_first :: "(u32 \<Rightarrow> u32) \<Rightarrow> PciAddress \<Rightarrow> u8" where
  "cap_first c a = reg8 c a PCI_CAPABILITIES_PTR AND 0xFC"

definition cap_offset :: "(u32 \<Rightarrow> u32) \<Rightarrow> PciAddress \<Rightarrow> nat \<Rightarrow> u8" where
  "cap_offset c a i = (cap_next c a ^^ i) (cap_first c a)"

definition cap_listed :: "(u32 \<Rightarrow> u32) \<Rightarrow> PciAddress \<Rightarrow> nat \<Rightarrow> bool" where
  "cap_listed c a i \<longleftrightarrow> (\<forall>j\<le>i. cap_offset c a j \<noteq> 0)"

lemma cap_loop_cfg:
  assumes "config_ports io sel cfg wr"
  shows "cfg (snd (run_state (cap_loop io a cid n off) h)) = cfg h"
  by (induction n arbitrary: off h) (simp_all add: split_def Let_def config_read [OF assms])

lemma cap_loop_Some:
  assumes "config_ports io sel cfg wr" "fst (run_state (cap_loop io a cid n (cap_offset (cfg h) a k)) h) = Some x" "\<forall>j<k. cap_offset (cfg h) a j \<noteq> 0"
  shows "\<exists>i. cap_listed (cfg h) a i \<and> x = cap_offset (cfg h) a i \<and> cap_id_at (cfg h) a x = cid"
  using assms(2,3)
proof (induction n arbitrary: k h)
  case (Suc n)
  let ?o = "cap_offset (cfg h) a k"
  let ?h' = "snd (run_state (pci_config_read16 io a ?o) h)"
  have c: "cfg ?h' = cfg h" by (rule config_read [OF assms(1)])
  have o: "?o \<noteq> 0" using Suc.prems(1) by (auto split: if_splits)
  show ?case
  proof (cases "cap_id_at (cfg h) a ?o = cid")
    case True
    then have "x = ?o" using Suc.prems(1) o config_read(3) [OF assms(1)] by (simp add: split_def Let_def cap_id_at_def)
    moreover have "cap_listed (cfg h) a k" using Suc.prems(2) o by (auto simp: cap_listed_def le_less)
    ultimately show ?thesis using True by blast
  next
    case False
    have nx: "cap_next (cfg h) a ?o = cap_offset (cfg h) a (Suc k)" by (simp add: cap_offset_def)
    have "fst (run_state (cap_loop io a cid n (cap_offset (cfg ?h') a (Suc k))) ?h') = Some x"
      unfolding c using Suc.prems(1) o False config_read(3) [OF assms(1)] unfolding nx [symmetric] by (simp add: split_def Let_def cap_id_at_def cap_next_def)
    moreover have "\<forall>j<Suc k. cap_offset (cfg ?h') a j \<noteq> 0" unfolding c using Suc.prems(2) o by (auto simp: less_Suc_eq)
    ultimately have "\<exists>i. cap_listed (cfg ?h') a i \<and> x = cap_offset (cfg ?h') a i \<and> cap_id_at (cfg ?h') a x = cid" by (rule Suc.IH)
    then show ?thesis unfolding c .
  qed
qed simp

lemma cap_loop_None:
  assumes "config_ports io sel cfg wr" "fst (run_state (cap_loop io a cid n (cap_offset (cfg h) a k)) h) = None" "i < n" "cap_listed (cfg h) a (k + i)"
  shows "cap_id_at (cfg h) a (cap_offset (cfg h) a (k + i)) \<noteq> cid"
  using assms(2-4)
proof (induction n arbitrary: k i h)
  case (Suc n)
  let ?o = "cap_offset (cfg h) a k"
  let ?h' = "snd (run_state (pci_config_read16 io a ?o) h)"
  have c: "cfg ?h' = cfg h" by (rule config_read [OF assms(1)])
  have o: "?o \<noteq> 0" using Suc.prems(3) by (auto simp: cap_listed_def)
  have f: "cap_id_at (cfg h) a ?o \<noteq> cid"
    using Suc.prems(1) o config_read(3) [OF assms(1)] by (auto simp: split_def Let_def cap_id_at_def split: if_splits)
  show ?case
  proof (cases i)
    case 0
    then show ?thesis using f by simp
  next
    case (Suc j)
    have nx: "cap_next (cfg h) a ?o = cap_offset (cfg h) a (Suc k)" by (simp add: cap_offset_def)
    have "fst (run_state (cap_loop io a cid n (cap_offset (cfg ?h') a (Suc k))) ?h') = None"
      unfolding c using Suc.prems(1) o f config_read(3) [OF assms(1)] unfolding nx [symmetric] by (simp add: split_def Let_def cap_id_at_def cap_next_def)
    moreover have "j < n" "cap_listed (cfg ?h') a (Suc k + j)" unfolding c using Suc.prems(2,3) \<open>i = Suc j\<close> by simp_all
    ultimately have "cap_id_at (cfg ?h') a (cap_offset (cfg ?h') a (Suc k + j)) \<noteq> cid" by (rule Suc.IH)
    then show ?thesis unfolding c using \<open>i = Suc j\<close> by simp
  qed
qed simp

lemma cap_offset_aligned: "4 dvd unat (cap_offset c a i)"
proof -
  have "4 dvd unat (w AND 0xFC :: u8)" for w
  proof -
    have "take_bit 2 (w AND 0xFC) = 0"
      unfolding u8_masks by (rule bit_word_eqI) (auto simp: bit_take_bit_iff bit_and_iff bit_not_iff bit_mask_iff)
    then have "take_bit 2 (unat (w AND 0xFC)) = 0" by (metis unsigned_0 unsigned_take_bit_eq)
    then show ?thesis by (simp add: take_bit_eq_mod mod_0_imp_dvd)
  qed
  moreover have "\<exists>w. cap_offset c a i = w AND 0xFC"
  proof (cases i)
    case (Suc j)
    have "\<exists>w. cap_next c a o' = w AND 0xFC" for o'
      unfolding cap_next_def unsigned_and_eq by (rule exI [of _ "ucast (drop_bit 8 (reg16 c a o'))"]) simp
    then show ?thesis using Suc by (simp add: cap_offset_def)
  qed (auto simp: cap_offset_def cap_first_def)
  ultimately show ?thesis by metis
qed

lemma cap_index_bound:
  assumes "cap_listed c a i" "\<forall>j<i. cap_offset c a j \<noteq> cap_offset c a i" "\<forall>j\<le>i. 0x40 \<le> unat (cap_offset c a j)"
  shows "i < 48"
proof -
  have step: "cap_offset c a (n + d) = (cap_next c a ^^ d) (cap_offset c a n)" for n d
    by (simp add: cap_offset_def funpow_add add.commute)
  have "inj_on (cap_offset c a) {..i}"
  proof (rule inj_onI)
    have no: "\<not> (cap_offset c a j = cap_offset c a k)" if jk: "j < k" "k \<le> i" for j k
    proof
      assume "cap_offset c a j = cap_offset c a k"
      then have "cap_offset c a (j + (i - k)) = cap_offset c a (k + (i - k))" unfolding step by simp
      moreover have "j + (i - k) < i" "k + (i - k) = i" using jk by simp_all
      ultimately show False using assms(2) by auto
    qed
    fix j k assume "j \<in> {..i}" "k \<in> {..i}" "cap_offset c a j = cap_offset c a k"
    then show "j = k" using no [of j k] no [of k j] by (cases j k rule: linorder_cases) auto
  qed
  then have "card (cap_offset c a ` {..i}) = Suc i" by (simp add: card_image)
  moreover have "cap_offset c a ` {..i} \<subseteq> (\<lambda>k. word_of_nat (4 * k)) ` {16..<64}"
  proof
    fix w assume "w \<in> cap_offset c a ` {..i}"
    then obtain j where j: "j \<le> i" "w = cap_offset c a j" by auto
    obtain k where k: "unat w = 4 * k" unfolding j(2) by (rule dvdE [OF cap_offset_aligned])
    have "unat w < 256" using unsigned_less [of w, where ?'a = nat] by simp
    then have "k \<in> {16..<64}" using k assms(3) j by auto
    moreover have "w = word_of_nat (4 * k)" unfolding k [symmetric] by simp
    ultimately show "w \<in> (\<lambda>k. word_of_nat (4 * k)) ` {16..<64}" by blast
  qed
  then have "card (cap_offset c a ` {..i}) \<le> card ((\<lambda>k. word_of_nat (4 * k) :: u8) ` {16..<64})" by (intro card_mono) auto
  moreover have "card ((\<lambda>k. word_of_nat (4 * k) :: u8) ` {16..<64}) \<le> card {16..<64 :: nat}" by (rule card_image_le) simp
  ultimately show ?thesis by simp
qed


section \<open>The size of a memory region\<close>

lemma low_nibble: "(0xFFFFFFF0 :: u32) = NOT (mask 4)"
  by (simp add: mask_eq_exp_minus_1)

lemma bar_size_value:
  assumes "4 \<le> k" "k < 32"
  shows "NOT (ucast (NOT (mask k) AND NOT (mask 4) :: u32)) + 1 = (0xFFFFFFFF00000000 + 2 ^ k :: u64)"
proof -
  have "NOT (mask k) AND NOT (mask 4) = (NOT (mask k) :: u32)"
    using assms(1) by (intro bit_word_eqI) (auto simp: bit_simps)
  moreover have "NOT (ucast (NOT (mask k) :: u32) :: u64) = push_bit 32 (mask 32) OR mask k"
    using assms(2) by (intro bit_word_eqI) (auto simp: bit_simps)
  moreover have "push_bit 32 (mask 32) OR mask k = push_bit 32 (mask 32) + (mask k :: u64)"
    using assms(2) by (intro disjunctive_add_eq_or [symmetric]) (rule bit_word_eqI, auto simp: bit_simps)
  moreover have "push_bit 32 (mask 32) = (0xFFFFFFFF00000000 :: u64)" by (simp add: mask_eq_exp_minus_1)
  ultimately show ?thesis by (simp add: mask_eq_exp_minus_1)
qed

lemma bar_offset_small: "i < 6 \<Longrightarrow> unat (PCI_BAR0 + i * 4 :: u8) = 16 + 4 * unat i"
  by (simp add: PCI_BAR0_def unat_word_ariths word_less_nat_alt)

text \<open>
  The size of a 32-bit memory region of \<open>2 ^ k\<close> bytes, whose register keeps its low \<open>k\<close> bits: the mask read back is widened to 64
  bits before it is complemented, so the size reported is too large by \<open>2 ^ 64 - 2 ^ 32\<close>. The base address is right and the
  register is restored.
\<close>

theorem memory32_bar_size_wrong:
  assumes io: "config_ports io sel cfg wr" and i: "i < 6" and r: "r = config_address a (PCI_BAR0 + i * 4)"
    and k: "4 \<le> k" "k < 32" and w: "\<And>x v. wr r x v = (v AND NOT (mask k)) OR (x AND mask k)"
    and v: "cfg h r AND mask k = cfg h r AND mask 4" "cfg h r AND 1 = 0" "drop_bit 1 (cfg h r) AND 3 = 0" "cfg h r \<noteq> 0"
  shows "fst (run_state (pci_read_bar io a i) h) = \<lparr>bar_type = Memory32, base_address = ucast (cfg h r AND 0xFFFFFFF0),
      bar_size = 0xFFFFFFFF00000000 + 2 ^ k, prefetchable = (cfg h r AND 8 \<noteq> 0)\<rparr>
    \<and> cfg (snd (run_state (pci_read_bar io a i) h)) = cfg h"
proof -
  let ?x = "cfg h r"
  have m: "(0xFFFFFFFF AND NOT (mask k)) OR (?x AND mask k) = NOT (mask k) OR (?x AND mask 4)"
  proof -
    have "(0xFFFFFFFF :: u32) = - 1" by simp
    then show ?thesis unfolding v(1) [symmetric] by (simp only: and.left_neutral)
  qed
  have z: "(NOT (mask k) OR (?x AND mask 4)) AND 0xFFFFFFF0 = NOT (mask k) AND NOT (mask 4 :: u32)"
    unfolding low_nibble by (rule bit_word_eqI) (auto simp: bit_simps)
  have b: "(?x AND NOT (mask k)) OR ((NOT (mask k) OR (?x AND mask 4)) AND mask k) = ?x"
    unfolding v(1) [symmetric] by (rule bit_word_eqI) (auto simp: bit_simps)
  have i6: "\<not> 6 \<le> i" using i by simp
  show ?thesis
    using config_read(1,2) [OF io] config_write(1) [OF io] v(2-4) i6
    by (simp add: pci_read_bar_def split_def Let_def reg_def r [symmetric] w m z b bar_size_value [OF k])
qed

section \<open>Examples\<close>

lemma demo_address: "config_address (PciAddress_new 0 3 0) off = 0x80001800 OR ucast (off AND 0xFC)"
  by (simp add: config_address_def PciAddress_new_def flip: or.assoc)

text \<open>A region of 4 KiB at \<open>0xFEBD0000\<close>.\<close>

definition demo_bar_write :: "u32 \<Rightarrow> u32 \<Rightarrow> u32 \<Rightarrow> u32" where
  "demo_bar_write r x v = (v AND NOT (mask 12)) OR (x AND mask 12)"

theorem memory32_bar_size_wrong_witness:
  "bar_size (fst (run_state (pci_read_bar (demo_pci demo_bar_write) (PciAddress_new 0 3 0) 0) (0, \<lambda>r. 0xFEBD0000))) = 0xFFFFFFFF00001000"
proof -
  have "fst (run_state (pci_read_bar (demo_pci demo_bar_write) (PciAddress_new 0 3 0) 0) (0, \<lambda>r. 0xFEBD0000)) =
      \<lparr>bar_type = Memory32, base_address = ucast (snd (0 :: u32, \<lambda>r. 0xFEBD0000) (config_address (PciAddress_new 0 3 0) (PCI_BAR0 + 0 * 4)) AND (0xFFFFFFF0 :: u32)),
       bar_size = 0xFFFFFFFF00000000 + 2 ^ 12, prefetchable = (snd (0 :: u32, \<lambda>r. 0xFEBD0000) (config_address (PciAddress_new 0 3 0) (PCI_BAR0 + 0 * 4)) AND (8 :: u32) \<noteq> 0)\<rparr>
    \<and> snd (snd (run_state (pci_read_bar (demo_pci demo_bar_write) (PciAddress_new 0 3 0) 0) (0, \<lambda>r. 0xFEBD0000))) = snd (0 :: u32, \<lambda>r. 0xFEBD0000)"
    by (rule memory32_bar_size_wrong [OF demo_config_ports _ refl]) (simp_all add: demo_bar_write_def mask_eq_exp_minus_1)
  then show ?thesis by simp
qed

text \<open>The status bits 24 and 27 to 31 of the register are cleared by writing 1.\<close>

definition demo_status_write :: "u32 \<Rightarrow> u32 \<Rightarrow> u32 \<Rightarrow> u32" where
  "demo_status_write r x v = (v AND 0xFFFF) OR (x AND NOT v AND 0xF9000000)"

definition demo_device :: PciDevice where
  "demo_device = \<lparr>pd_address = PciAddress_new 0 3 0, vendor_id = 0x8086, device_id = 0x100E, class_code = 2, pci_subclass = 0, prog_if = 0,
     revision_id = 3, header_type = 0, msi_cap_offset = 0x50, msix_cap_offset = 0\<rparr>"

theorem enable_bus_master_clears_status_witness:
  "bit (snd (snd (run_state (enable_bus_master (demo_pci demo_status_write) demo_device) (0, \<lambda>r. 0xA0000003))) 0x80001804) 2
   \<and> \<not> bit (snd (snd (run_state (enable_bus_master (demo_pci demo_status_write) demo_device) (0, \<lambda>r. 0xA0000003))) 0x80001804) 29"
proof -
  have r: "(0x80001804 :: u32) = config_address (pd_address demo_device) PCI_COMMAND" by (simp add: demo_device_def demo_address PCI_COMMAND_def)
  have two: "bit (demo_status_write x y v) 2 = bit v 2" for x y v
    by (simp add: demo_status_write_def bit_or_iff bit_and_iff bit_numeral_rec)
  have hi: "bit (demo_status_write x y v) n = (bit y n \<and> \<not> bit v n)" if "n \<in> {29, 31}" for x y v n
    using that by (auto simp: demo_status_write_def bit_or_iff bit_and_iff bit_not_iff bit_numeral_rec)
  show ?thesis
    using enable_bus_master_clears_status [OF demo_config_ports r refl two hi, where h = "(0, \<lambda>r. 0xA0000003)" and S = "{29, 31}"] by simp
qed

text \<open>A device with two capabilities, power management at \<open>0x40\<close> and MSI at \<open>0x50\<close>.\<close>

definition capability_space :: "u32 \<Rightarrow> u32" where
  "capability_space r = (if r = 0x80001804 then 0x00100000 else if r = 0x80001834 then 0x40
     else if r = 0x80001840 then 0x5001 else if r = 0x80001850 then 0x0005 else 0)"


end
