(* ===== verification/Pci_Enumerate.thy ===== *)
theory Pci_Enumerate
  imports Pci_Correct
begin

text \<open>
  The enumeration of the buses: what it finds, and when it returns.
\<close>

unbundle bit_operations_syntax

section \<open>Enumeration\<close>

definition present :: "(u32 \<Rightarrow> u32) \<Rightarrow> PciAddress \<Rightarrow> bool" where
  "present c a \<longleftrightarrow> reg16 c a PCI_VENDOR_ID \<noteq> PCI_VENDOR_ID_INVALID"

definition multi_function :: "(u32 \<Rightarrow> u32) \<Rightarrow> PciAddress \<Rightarrow> bool" where
  "multi_function c a \<longleftrightarrow> reg8 c a PCI_HEADER_TYPE AND PCI_HEADER_TYPE_MULTI_FUNCTION \<noteq> 0"

definition bridge_bus :: "(u32 \<Rightarrow> u32) \<Rightarrow> PciAddress \<Rightarrow> u8 option" where
  "bridge_bus c a = (if present c a \<and> reg8 c a PCI_CLASS = 0x06 \<and> reg8 c a PCI_SUBCLASS = 0x04 then Some (reg8 c a 0x19) else None)"

text \<open>The functions a scan of a bus visits, and those it finds on the bus and behind its bridges.\<close>

definition visited :: "(u32 \<Rightarrow> u32) \<Rightarrow> u8 \<Rightarrow> u8 \<Rightarrow> u8 \<Rightarrow> bool" where
  "visited c b d f \<longleftrightarrow> d < 32 \<and> f < 8 \<and> present c (PciAddress_new b d 0)
     \<and> (if f = 0 then True else multi_function c (PciAddress_new b d 0) \<and> present c (PciAddress_new b d f))"

inductive found :: "(u32 \<Rightarrow> u32) \<Rightarrow> u8 \<Rightarrow> PciAddress \<Rightarrow> bool" for c where
  found_here: "visited c b d f \<Longrightarrow> found c b (PciAddress_new b d f)"
| found_behind: "visited c b d f \<Longrightarrow> bridge_bus c (PciAddress_new b d f) = Some sb \<Longrightarrow> found c sb a \<Longrightarrow> found c b a"

definition device_of :: "(u32 \<Rightarrow> u32) \<Rightarrow> PciDevice \<Rightarrow> bool" where
  "device_of c d \<longleftrightarrow> present c (pd_address d) \<and> vendor_id d = reg16 c (pd_address d) PCI_VENDOR_ID
     \<and> device_id d = reg16 c (pd_address d) PCI_DEVICE_ID \<and> class_code d = reg8 c (pd_address d) PCI_CLASS
     \<and> pci_subclass d = reg8 c (pd_address d) PCI_SUBCLASS \<and> header_type d = reg8 c (pd_address d) PCI_HEADER_TYPE"

text \<open>The table: the slots below the count hold devices that are there, and a function is seen when it has a slot or the table is full.\<close>

definition table_ok :: "('h \<Rightarrow> u32 \<Rightarrow> u32) \<Rightarrow> (u32 \<Rightarrow> u32) \<Rightarrow> 'h pci \<Rightarrow> bool" where
  "table_ok cfg c s \<longleftrightarrow> cfg (pci_hw s) = c \<and> length (PCI_DEVICES s) = 256 \<and> unat (PCI_DEVICE_COUNT s) \<le> 256
     \<and> (\<forall>i<unat (PCI_DEVICE_COUNT s). \<exists>d. PCI_DEVICES s ! i = Some d \<and> device_of c d)"

definition seen :: "'h pci \<Rightarrow> PciAddress \<Rightarrow> bool" where
  "seen s a \<longleftrightarrow> PCI_DEVICE_COUNT s = MAX_PCI_DEVICES
     \<or> (\<exists>i<unat (PCI_DEVICE_COUNT s). \<exists>d. PCI_DEVICES s ! i = Some d \<and> pd_address d = a)"

definition step_ok :: "('h \<Rightarrow> u32 \<Rightarrow> u32) \<Rightarrow> (u32 \<Rightarrow> u32) \<Rightarrow> 'h pci \<Rightarrow> 'h pci \<Rightarrow> bool" where
  "step_ok cfg c s s' \<longleftrightarrow> table_ok cfg c s' \<and> (\<forall>a. seen s a \<longrightarrow> seen s' a)"

lemma for_each_steps:
  assumes "\<And>x s. x \<in> set xs \<Longrightarrow> table_ok cfg c s \<Longrightarrow> \<exists>s'. f x s = Some s' \<and> step_ok cfg c s s' \<and> (\<forall>a\<in>A x. seen s' a)" "table_ok cfg c s"
  shows "\<exists>s'. for_each f xs s = Some s' \<and> step_ok cfg c s s' \<and> (\<forall>x\<in>set xs. \<forall>a\<in>A x. seen s' a)"
  using assms
proof (induction xs arbitrary: s)
  case Nil
  then show ?case by (simp add: step_ok_def)
next
  case (Cons x xs)
  obtain s1 where s1: "f x s = Some s1" "step_ok cfg c s s1" "\<forall>a\<in>A x. seen s1 a" using Cons.prems(1) [of x s] Cons.prems(2) by auto
  then have "table_ok cfg c s1" by (simp add: step_ok_def)
  then obtain s2 where "for_each f xs s1 = Some s2" "step_ok cfg c s1 s2" "\<forall>x\<in>set xs. \<forall>a\<in>A x. seen s2 a"
    using Cons.IH [of s1] Cons.prems(1) by auto
  then show ?case using s1 by (auto simp: step_ok_def)
qed

lemma on_hw_eq: "on_hw m s = (fst (run_state m (pci_hw s)), s\<lparr>pci_hw := snd (run_state m (pci_hw s))\<rparr>)"
  by (simp add: on_hw_def split_def)

lemma table_hw: "table_ok cfg c s \<Longrightarrow> cfg h = c \<Longrightarrow> table_ok cfg c (s\<lparr>pci_hw := h\<rparr>)"
  by (simp add: table_ok_def)

lemma seen_hw [simp]: "seen (s\<lparr>pci_hw := h\<rparr>) a = seen s a"
  by (simp add: seen_def)

lemma find_capability_cfg: "config_ports io sel cfg wr \<Longrightarrow> cfg (snd (run_state (pci_find_capability io a cid) h)) = cfg h"
  by (simp add: pci_find_capability_def split_def config_read cap_loop_cfg)

lemma device_exists_run:
  assumes "config_ports io sel cfg wr"
  shows "fst (run_state (PciDevice_exists io a) h) = present (cfg h) a" "cfg (snd (run_state (PciDevice_exists io a) h)) = cfg h"
  using config_read(3,4) [OF assms] by (simp_all add: PciDevice_exists_def present_def split_def)

lemma device_read_run:
  assumes "config_ports io sel cfg wr"
  shows "fst (run_state (PciDevice_read io a) h) = None \<longleftrightarrow> \<not> present (cfg h) a"
    "fst (run_state (PciDevice_read io a) h) = Some d \<Longrightarrow> pd_address d = a \<and> device_of (cfg h) d"
    "cfg (snd (run_state (PciDevice_read io a) h)) = cfg h"
proof -
  note R = config_read [OF assms] find_capability_cfg [OF assms]
  show "fst (run_state (PciDevice_read io a) h) = None \<longleftrightarrow> \<not> present (cfg h) a" "cfg (snd (run_state (PciDevice_read io a) h)) = cfg h"
    by (simp_all add: PciDevice_read_def split_def R present_def)
  show "fst (run_state (PciDevice_read io a) h) = Some d \<Longrightarrow> pd_address d = a \<and> device_of (cfg h) d"
    by (auto simp: PciDevice_read_def split_def R present_def device_of_def split: if_splits)
qed

lemma store_device_ok:
  assumes "table_ok cfg c s" "device_of c d"
  shows "step_ok cfg c s (store_device d s)" "seen (store_device d s) (pd_address d)"
proof -
  have "step_ok cfg c s (store_device d s) \<and> seen (store_device d s) (pd_address d)"
  proof (cases "PCI_DEVICE_COUNT s < MAX_PCI_DEVICES")
    case True
    then have n: "unat (PCI_DEVICE_COUNT s) < 256" by (simp add: word_less_nat_alt MAX_PCI_DEVICES_def)
    then have u: "unat (PCI_DEVICE_COUNT s + 1) = Suc (unat (PCI_DEVICE_COUNT s))" by (simp add: unat_word_ariths)
    have "seen s a \<Longrightarrow> seen (store_device d s) a" for a
      using True u by (auto simp: seen_def store_device_def nth_list_update less_Suc_eq)
    moreover have "table_ok cfg c (store_device d s)"
      using True u n assms by (auto simp: table_ok_def store_device_def nth_list_update less_Suc_eq)
    moreover have "seen (store_device d s) (pd_address d)"
      using True u n assms(1) by (auto simp: seen_def store_device_def table_ok_def)
    ultimately show ?thesis by (simp add: step_ok_def)
  next
    case False
    then have "unat (PCI_DEVICE_COUNT s) = 256" using assms(1) by (simp add: table_ok_def MAX_PCI_DEVICES_def word_less_nat_alt)
    then have "PCI_DEVICE_COUNT s = MAX_PCI_DEVICES" by (simp add: MAX_PCI_DEVICES_def word_unat_eq_iff)
    then show ?thesis using assms(1) by (simp add: store_device_def step_ok_def seen_def)
  qed
  then show "step_ok cfg c s (store_device d s)" "seen (store_device d s) (pd_address d)" by simp_all
qed

lemma step_trans: "step_ok cfg c s s1 \<Longrightarrow> step_ok cfg c s1 s2 \<Longrightarrow> step_ok cfg c s s2"
  by (simp add: step_ok_def)

lemma step_refl: "table_ok cfg c s \<Longrightarrow> step_ok cfg c s s"
  by (simp add: step_ok_def)

text \<open>What a scan of the buses behind a bridge owes to the scan of the function.\<close>

definition scans :: "('h \<Rightarrow> u32 \<Rightarrow> u32) \<Rightarrow> (u32 \<Rightarrow> u32) \<Rightarrow> (u8 \<Rightarrow> 'h pci \<Rightarrow> 'h pci option) \<Rightarrow> u8 \<Rightarrow> bool" where
  "scans cfg c scan_bus b \<longleftrightarrow> (\<forall>s. table_ok cfg c s \<longrightarrow> (\<exists>s'. scan_bus b s = Some s' \<and> step_ok cfg c s s' \<and> (\<forall>a. found c b a \<longrightarrow> seen s' a)))"

definition behind :: "(u32 \<Rightarrow> u32) \<Rightarrow> PciAddress \<Rightarrow> PciAddress set" where
  "behind c a = insert a {x. \<exists>sb. bridge_bus c a = Some sb \<and> found c sb x}"

lemma enumerate_function_ok:
  assumes io: "config_ports io sel cfg wr" and s: "table_ok cfg c s" and p: "present c (PciAddress_new b d f)"
    and scan: "\<And>sb. bridge_bus c (PciAddress_new b d f) = Some sb \<Longrightarrow> scans cfg c scan_bus sb"
  shows "\<exists>s'. pci_enumerate_function io scan_bus b d f s = Some s' \<and> step_ok cfg c s s' \<and> (\<forall>x\<in>behind c (PciAddress_new b d f). seen s' x)"
proof -
  let ?a = "PciAddress_new b d f"
  have c: "cfg (pci_hw s) = c" using s by (simp add: table_ok_def)
  note R = device_read_run [OF io, of ?a "pci_hw s", unfolded c]
  obtain dev where dev: "fst (run_state (PciDevice_read io ?a) (pci_hw s)) = Some dev" "pd_address dev = ?a" "device_of c dev"
    using R p by (metis not_Some_eq)
  let ?s1 = "s\<lparr>pci_hw := snd (run_state (PciDevice_read io ?a) (pci_hw s))\<rparr>"
  have s1: "table_ok cfg c ?s1" using table_hw [OF s] R(3) .
  note S2 = store_device_ok [OF s1 dev(3)]
  let ?s2 = "store_device dev ?s1"
  have s2: "table_ok cfg c ?s2" "cfg (pci_hw ?s2) = c" using S2(1) by (simp_all add: step_ok_def table_ok_def)
  have st: "step_ok cfg c s ?s2" using S2(1) by (auto simp: step_ok_def)
  have e: "pci_enumerate_function io scan_bus b d f s =
      (if class_code dev = 0x06 \<and> pci_subclass dev = 0x04
       then case on_hw (pci_config_read8 io ?a 0x19) ?s2 of (sb, s) \<Rightarrow> scan_bus sb s else Some ?s2)"
    by (simp add: pci_enumerate_function_def on_hw_eq dev(1) Let_def)
  have br: "bridge_bus c ?a = (if class_code dev = 0x06 \<and> pci_subclass dev = 0x04 then Some (reg8 c ?a 0x19) else None)"
    using dev(2,3) p by (simp add: bridge_bus_def device_of_def)
  show ?thesis
  proof (cases "bridge_bus c ?a")
    case None
    then show ?thesis using e br st S2(2) dev(2) by (auto simp: behind_def split: if_splits)
  next
    case (Some sb)
    let ?s3 = "?s2\<lparr>pci_hw := snd (run_state (pci_config_read8 io ?a 0x19) (pci_hw ?s2))\<rparr>"
    have s3: "table_ok cfg c ?s3" using table_hw [OF s2(1)] config_read(6) [OF io] s2(2) by simp
    have "pci_enumerate_function io scan_bus b d f s = scan_bus sb ?s3"
      using e br Some config_read(5) [OF io, of ?a "0x19" "pci_hw ?s2"] s2(2) by (auto simp: on_hw_eq split: if_splits)
    moreover obtain s' where "scan_bus sb ?s3 = Some s'" "step_ok cfg c ?s3 s'" "\<forall>x. found c sb x \<longrightarrow> seen s' x"
      using scan [OF Some] s3 unfolding scans_def by blast
    moreover from this(2) have "step_ok cfg c ?s2 s'" by (simp add: step_ok_def)
    ultimately show ?thesis using step_trans [OF st] S2(2) dev(2) Some by (auto simp: behind_def step_ok_def)
  qed
qed

definition device_functions :: "(u32 \<Rightarrow> u32) \<Rightarrow> u8 \<Rightarrow> u8 \<Rightarrow> PciAddress set" where
  "device_functions c b d = {x. \<exists>f. visited c b d f \<and> x \<in> behind c (PciAddress_new b d f)}"

lemma enumerate_device_ok:
  assumes io: "config_ports io sel cfg wr" and s: "table_ok cfg c s" and d: "d < 32"
    and scan: "\<And>f sb. bridge_bus c (PciAddress_new b d f) = Some sb \<Longrightarrow> scans cfg c scan_bus sb"
  shows "\<exists>s'. pci_enumerate_device io scan_bus b d s = Some s' \<and> step_ok cfg c s s' \<and> (\<forall>x\<in>device_functions c b d. seen s' x)"
proof -
  let ?a = "PciAddress_new b d 0"
  have c: "cfg (pci_hw s) = c" using s by (simp add: table_ok_def)
  let ?s1 = "s\<lparr>pci_hw := snd (run_state (PciDevice_exists io ?a) (pci_hw s))\<rparr>"
  have s1: "table_ok cfg c ?s1" "step_ok cfg c s ?s1"
    using table_hw [OF s] device_exists_run(2) [OF io, of ?a "pci_hw s"] c by (simp_all add: step_ok_def)
  have x: "fst (run_state (PciDevice_exists io ?a) (pci_hw s)) = present c ?a" using device_exists_run(1) [OF io] c by simp
  show ?thesis
  proof (cases "present c ?a")
    case False
    then show ?thesis using s1 x by (auto simp: pci_enumerate_device_def on_hw_eq device_functions_def visited_def Let_def)
  next
    case True
    obtain s2 where s2: "pci_enumerate_function io scan_bus b d 0 ?s1 = Some s2" "step_ok cfg c ?s1 s2" "\<forall>x\<in>behind c ?a. seen s2 x"
      using enumerate_function_ok [OF io s1(1) True scan [of 0]] by blast
    have c2: "table_ok cfg c s2" "cfg (pci_hw s2) = c" using s2(2) by (simp_all add: step_ok_def table_ok_def)
    let ?s3 = "s2\<lparr>pci_hw := snd (run_state (pci_config_read8 io ?a PCI_HEADER_TYPE) (pci_hw s2))\<rparr>"
    have s3: "table_ok cfg c ?s3" using table_hw [OF c2(1)] config_read(6) [OF io] c2(2) by simp
    have st: "step_ok cfg c s ?s3" using step_trans [OF s1(2) s2(2)] s3 by (auto simp: step_ok_def)
    have hd: "fst (run_state (pci_config_read8 io ?a PCI_HEADER_TYPE) (pci_hw s2)) = reg8 c ?a PCI_HEADER_TYPE"
      using config_read(5) [OF io] c2(2) by simp
    let ?F = "\<lambda>f s. case on_hw (PciDevice_exists io (PciAddress_new b d f)) s of (there, s) \<Rightarrow>
        if there then pci_enumerate_function io scan_bus b d f s else Some s"
    have e: "pci_enumerate_device io scan_bus b d s = (if multi_function c ?a then for_each ?F (range_w 1 8) ?s3 else Some ?s3)"
      using x True s2(1) hd by (simp add: pci_enumerate_device_def on_hw_eq multi_function_def Let_def)
    have F: "\<exists>t'. ?F f t = Some t' \<and> step_ok cfg c t t' \<and> (\<forall>x\<in>{x. present c (PciAddress_new b d f) \<and> x \<in> behind c (PciAddress_new b d f)}. seen t' x)"
      if t: "table_ok cfg c t" for f t
    proof -
      let ?b = "PciAddress_new b d f"
      let ?t1 = "t\<lparr>pci_hw := snd (run_state (PciDevice_exists io ?b) (pci_hw t))\<rparr>"
      have ct: "cfg (pci_hw t) = c" using t by (simp add: table_ok_def)
      have t1: "table_ok cfg c ?t1" "step_ok cfg c t ?t1"
        using table_hw [OF t] device_exists_run(2) [OF io, of ?b "pci_hw t"] ct by (simp_all add: step_ok_def)
      have xt: "fst (run_state (PciDevice_exists io ?b) (pci_hw t)) = present c ?b" using device_exists_run(1) [OF io] ct by simp
      show ?thesis
      proof (cases "present c ?b")
        case True
        then show ?thesis using enumerate_function_ok [OF io t1(1) True scan [of f]] step_trans [OF t1(2)] xt by (fastforce simp: on_hw_eq)
      next
        case False
        then show ?thesis using t1 xt by (auto simp: on_hw_eq)
      qed
    qed
    have fs: "visited c b d f \<Longrightarrow> f = 0 \<or> multi_function c ?a \<and> f \<in> set (range_w 1 8) \<and> present c (PciAddress_new b d f)" for f
      by (cases "f = 0") (auto simp: visited_def set_range_w word_le_nat_alt Suc_le_eq unat_gt_0)
    show ?thesis
    proof (cases "multi_function c ?a")
      case True
      obtain s4 where s4: "for_each ?F (range_w 1 8) ?s3 = Some s4" "step_ok cfg c ?s3 s4"
        "\<forall>f\<in>set (range_w 1 8). \<forall>x\<in>{x. present c (PciAddress_new b d f) \<and> x \<in> behind c (PciAddress_new b d f)}. seen s4 x"
        using for_each_steps [of "range_w 1 8" cfg c ?F "\<lambda>f. {x. present c (PciAddress_new b d f) \<and> x \<in> behind c (PciAddress_new b d f)}" ?s3, OF F s3] by blast
      have "seen s4 x" if x: "x \<in> device_functions c b d" for x
      proof -
        obtain f where f: "visited c b d f" "x \<in> behind c (PciAddress_new b d f)" using x by (auto simp: device_functions_def)
        show ?thesis
        proof (cases "f = 0")
          case True
          then have "seen ?s3 x" using f(2) s2(3) by simp
          then show ?thesis using s4(2) unfolding step_ok_def by blast
        next
          case False
          then have "f \<in> set (range_w 1 8)" "present c (PciAddress_new b d f)" using fs [OF f(1)] by simp_all
          then show ?thesis using s4(3) f(2) by blast
        qed
      qed
      then show ?thesis using e True s4(1) step_trans [OF st s4(2)] by simp
    next
      case False
      then have "seen ?s3 x" if "x \<in> device_functions c b d" for x using that fs s2(3) by (auto simp: device_functions_def)
      then show ?thesis using e st False by simp
    qed
  qed
qed

lemma enumerate_bus_ok:
  assumes io: "config_ports io sel cfg wr"
    and up: "\<And>b d f sb. bridge_bus c (PciAddress_new b d f) = Some sb \<Longrightarrow> b < sb"
  shows "256 \<le> unat b + stack \<Longrightarrow> scans cfg c (pci_enumerate_bus io stack) b"
proof (induction stack arbitrary: b)
  case 0
  then show ?case using unsigned_less [of b, where ?'a = nat] by simp
next
  case (Suc stack)
  have scan: "scans cfg c (pci_enumerate_bus io stack) sb" if "bridge_bus c (PciAddress_new b d f) = Some sb" for d f sb
    using up [OF that] Suc.prems by (intro Suc.IH) (simp add: word_less_nat_alt)
  show ?case unfolding scans_def
  proof (intro allI impI)
    fix s assume s: "table_ok cfg c s"
    let ?D = "\<lambda>d. pci_enumerate_device io (pci_enumerate_bus io stack) b d"
    obtain s' where s': "for_each ?D (range_w 0 32) s = Some s'" "step_ok cfg c s s'" "\<forall>d\<in>set (range_w 0 32). \<forall>x\<in>device_functions c b d. seen s' x"
      using for_each_steps [of "range_w 0 32" cfg c ?D "device_functions c b" s] enumerate_device_ok [OF io _ _ scan] s
      by (auto simp: set_range_w_0)
    have "seen s' a" if "found c b a" for a
      using that s'(3) by (cases rule: found.cases) (fastforce simp: device_functions_def behind_def visited_def set_range_w_0)+
    then show "\<exists>s'. pci_enumerate_bus io (Suc stack) b s = Some s' \<and> step_ok cfg c s s' \<and> (\<forall>a. found c b a \<longrightarrow> seen s' a)"
      using s' by auto
  qed
qed

lemma for_each_keeps:
  assumes "\<And>x s s'. I s \<Longrightarrow> f x s = Some s' \<Longrightarrow> I s'" "I s" "for_each f xs s = Some s'"
  shows "I s'"
  using assms(2,3)
proof (induction xs arbitrary: s)
  case (Cons x xs)
  then show ?case using assms(1) by (auto split: option.splits)
qed simp

lemma for_each_None:
  assumes "\<And>y s s'. I s \<Longrightarrow> f y s = Some s' \<Longrightarrow> I s'" "\<And>s. I s \<Longrightarrow> f x s = None" "x \<in> set xs" "I s"
  shows "for_each f xs s = None"
  using assms(3,4)
proof (induction xs arbitrary: s)
  case (Cons y ys)
  then show ?case using assms(1,2) by (cases "f y s") (auto split: option.splits)
qed simp

lemma store_device_hw [simp]: "pci_hw (store_device d s) = pci_hw s"
  by (simp add: store_device_def)

lemma function_keeps:
  assumes io: "config_ports io sel cfg wr" and scan: "\<And>sb s s'. cfg (pci_hw s) = c \<Longrightarrow> scan_bus sb s = Some s' \<Longrightarrow> cfg (pci_hw s') = c"
    and s: "cfg (pci_hw s) = c" "pci_enumerate_function io scan_bus b d f s = Some s'"
  shows "cfg (pci_hw s') = c"
proof (cases "fst (run_state (PciDevice_read io (PciAddress_new b d f)) (pci_hw s))")
  case None
  then show ?thesis using s by (auto simp: pci_enumerate_function_def on_hw_eq Let_def device_read_run(3) [OF io])
next
  case (Some dev)
  let ?s2 = "store_device dev (s\<lparr>pci_hw := snd (run_state (PciDevice_read io (PciAddress_new b d f)) (pci_hw s))\<rparr>)"
  have c2: "cfg (pci_hw ?s2) = c" using s(1) by (simp add: device_read_run(3) [OF io])
  show ?thesis
  proof (cases "class_code dev = 0x06 \<and> pci_subclass dev = 0x04")
    case True
    let ?s3 = "?s2\<lparr>pci_hw := snd (run_state (pci_config_read8 io (PciAddress_new b d f) 0x19) (pci_hw ?s2))\<rparr>"
    have "cfg (pci_hw ?s3) = c" using c2 by (simp add: config_read(6) [OF io])
    moreover have "scan_bus (fst (run_state (pci_config_read8 io (PciAddress_new b d f) 0x19) (pci_hw ?s2))) ?s3 = Some s'"
      using s(2) Some True by (simp add: pci_enumerate_function_def on_hw_eq Let_def)
    ultimately show ?thesis by (rule scan)
  next
    case False
    then have "s' = ?s2" using s(2) Some by (auto simp: pci_enumerate_function_def on_hw_eq Let_def split: if_split_asm)
    then show ?thesis using c2 by simp
  qed
qed

lemma device_keeps:
  assumes io: "config_ports io sel cfg wr" and scan: "\<And>sb s s'. cfg (pci_hw s) = c \<Longrightarrow> scan_bus sb s = Some s' \<Longrightarrow> cfg (pci_hw s') = c"
    and s: "cfg (pci_hw s) = c" "pci_enumerate_device io scan_bus b d s = Some s'"
  shows "cfg (pci_hw s') = c"
proof -
  have F: "cfg (pci_hw t') = c" if t: "cfg (pci_hw t) = c" "(case on_hw (PciDevice_exists io (PciAddress_new b d f)) t of (there, t) \<Rightarrow>
      if there then pci_enumerate_function io scan_bus b d f t else Some t) = Some t'" for f t t'
  proof -
    let ?t1 = "t\<lparr>pci_hw := snd (run_state (PciDevice_exists io (PciAddress_new b d f)) (pci_hw t))\<rparr>"
    have t1: "cfg (pci_hw ?t1) = c" using t(1) by (simp add: device_exists_run(2) [OF io])
    show ?thesis
    proof (cases "fst (run_state (PciDevice_exists io (PciAddress_new b d f)) (pci_hw t))")
      case True
      then have x: "pci_enumerate_function io scan_bus b d f ?t1 = Some t'" using t(2) by (simp add: on_hw_eq)
      show ?thesis by (rule function_keeps [OF io _ t1 x]) (rule scan)
    next
      case False
      then show ?thesis using t(2) t1 by (simp add: on_hw_eq)
    qed
  qed
  let ?s1 = "s\<lparr>pci_hw := snd (run_state (PciDevice_exists io (PciAddress_new b d 0)) (pci_hw s))\<rparr>"
  have s1: "cfg (pci_hw ?s1) = c" using s(1) by (simp add: device_exists_run(2) [OF io])
  show ?thesis
  proof (cases "fst (run_state (PciDevice_exists io (PciAddress_new b d 0)) (pci_hw s))")
    case False
    then have "s' = ?s1" using s(2) by (simp add: pci_enumerate_device_def on_hw_eq Let_def)
    then show ?thesis using s1 by simp
  next
    case True
    then obtain s2 where s2: "pci_enumerate_function io scan_bus b d 0 ?s1 = Some s2"
      using s(2) by (cases "pci_enumerate_function io scan_bus b d 0 ?s1") (simp_all add: pci_enumerate_device_def on_hw_eq Let_def)
    have c2: "cfg (pci_hw s2) = c" by (rule function_keeps [OF io _ s1 s2]) (rule scan)
    let ?s3 = "s2\<lparr>pci_hw := snd (run_state (pci_config_read8 io (PciAddress_new b d 0) PCI_HEADER_TYPE) (pci_hw s2))\<rparr>"
    have s3: "cfg (pci_hw ?s3) = c" using c2 by (simp add: config_read(6) [OF io])
    let ?F = "\<lambda>f t. case on_hw (PciDevice_exists io (PciAddress_new b d f)) t of (there, t) \<Rightarrow>
        if there then pci_enumerate_function io scan_bus b d f t else Some t"
    have "Some s' = (if fst (run_state (pci_config_read8 io (PciAddress_new b d 0) PCI_HEADER_TYPE) (pci_hw s2)) AND PCI_HEADER_TYPE_MULTI_FUNCTION \<noteq> 0
        then for_each ?F (range_w 1 8) ?s3 else Some ?s3)"
      using s(2) True s2 by (simp add: pci_enumerate_device_def on_hw_eq Let_def)
    then have "s' = ?s3 \<or> for_each ?F (range_w 1 8) ?s3 = Some s'" by (auto split: if_splits)
    then consider "s' = ?s3" | (loop) "for_each ?F (range_w 1 8) ?s3 = Some s'" by blast
    then show ?thesis
    proof cases
      case loop
      show ?thesis by (rule for_each_keeps [of "\<lambda>s. cfg (pci_hw s) = c" ?F, OF _ s3 loop]) (rule F)
    qed (use s3 in simp)
  qed
qed

lemma bus_keeps:
  assumes io: "config_ports io sel cfg wr"
  shows "cfg (pci_hw s) = c \<Longrightarrow> pci_enumerate_bus io stack b s = Some s' \<Longrightarrow> cfg (pci_hw s') = c"
proof (induction stack arbitrary: b s s')
  case (Suc stack)
  let ?D = "\<lambda>d. pci_enumerate_device io (pci_enumerate_bus io stack) b d"
  have "cfg (pci_hw t') = c" if "cfg (pci_hw t) = c" "?D d t = Some t'" for d t t'
    by (rule device_keeps [OF io _ that]) (rule Suc.IH)
  then show ?case using for_each_keeps [of "\<lambda>s. cfg (pci_hw s) = c" ?D s "range_w 0 32" s'] Suc.prems by simp
qed simp

lemma function_bridge_None:
  assumes io: "config_ports io sel cfg wr" and s: "cfg (pci_hw s) = c" and br: "bridge_bus c (PciAddress_new b d f) = Some sb"
    and scan: "\<And>s. cfg (pci_hw s) = c \<Longrightarrow> scan_bus sb s = None"
  shows "pci_enumerate_function io scan_bus b d f s = None"
proof -
  let ?a = "PciAddress_new b d f"
  note R = device_read_run [OF io, of ?a "pci_hw s", unfolded s]
  have p: "present c ?a" using br by (auto simp: bridge_bus_def split: if_splits)
  obtain dev where dev: "fst (run_state (PciDevice_read io ?a) (pci_hw s)) = Some dev" "pd_address dev = ?a" "device_of c dev"
    using R p by (metis not_Some_eq)
  have "class_code dev = 0x06" "pci_subclass dev = 0x04" "sb = reg8 c ?a 0x19"
    using br dev(2,3) by (auto simp: bridge_bus_def device_of_def split: if_splits)
  moreover have "cfg (pci_hw (store_device dev (s\<lparr>pci_hw := snd (run_state (PciDevice_read io ?a) (pci_hw s))\<rparr>))) = c" using R(3) by simp
  ultimately show ?thesis
    using dev(1) scan by (simp add: pci_enumerate_function_def on_hw_eq Let_def config_read(5,6) [OF io])
qed

lemma enumerate_bus_loops:
  assumes io: "config_ports io sel cfg wr" and d: "d < 32" and br: "bridge_bus c (PciAddress_new b d 0) = Some b"
  shows "cfg (pci_hw s) = c \<Longrightarrow> pci_enumerate_bus io stack b s = None"
proof (induction stack arbitrary: s)
  case (Suc stack)
  let ?D = "\<lambda>d. pci_enumerate_device io (pci_enumerate_bus io stack) b d"
  have "?D d t = None" if t: "cfg (pci_hw t) = c" for t
  proof -
    let ?t = "t\<lparr>pci_hw := snd (run_state (PciDevice_exists io (PciAddress_new b d 0)) (pci_hw t))\<rparr>"
    have "cfg (pci_hw ?t) = c" using t device_exists_run(2) [OF io] by simp
    then have "pci_enumerate_function io (pci_enumerate_bus io stack) b d 0 ?t = None" using Suc.IH by (intro function_bridge_None [OF io _ br])
    moreover have "present c (PciAddress_new b d 0)" using br by (auto simp: bridge_bus_def split: if_splits)
    ultimately show ?thesis using device_exists_run(1) [OF io] t by (simp add: pci_enumerate_device_def on_hw_eq Let_def)
  qed
  moreover have "cfg (pci_hw t') = c" if "cfg (pci_hw t) = c" "?D y t = Some t'" for y t t'
    by (rule device_keeps [OF io _ that]) (rule bus_keeps [OF io])
  moreover have "d \<in> set (range_w 0 32)" using d by (simp add: set_range_w_0)
  ultimately have "for_each ?D (range_w 0 32) s = None" using for_each_None [of "\<lambda>s. cfg (pci_hw s) = c" ?D d "range_w 0 32" s] Suc.prems by blast
  then show ?case by simp
qed simp

text \<open>
  C39: The enumeration of a bus returns if every bridge leads to a bus of a higher number, with a stack of at most 256 calls: every
  function on the bus and behind its bridges is then in the table, or the table of 256 entries is full, and the entries are devices
  that are there with the values of their registers. If instead a bridge leads back to its own bus, as one does whose secondary bus
  number was never set and which sits on bus 0, no stack is enough: the calls never return.
\<close>

theorem pci_enumerate_bus_returns:
  assumes io: "config_ports io sel cfg wr" and s: "table_ok cfg c s"
  shows "((\<forall>b d f sb. bridge_bus c (PciAddress_new b d f) = Some sb \<longrightarrow> b < sb) \<longrightarrow>
      (\<exists>s'. pci_enumerate_bus io 256 bus s = Some s' \<and> table_ok cfg c s' \<and> (\<forall>a. found c bus a \<longrightarrow> seen s' a)))
    \<and> ((\<exists>d<32. bridge_bus c (PciAddress_new bus d 0) = Some bus) \<longrightarrow> (\<forall>stack. pci_enumerate_bus io stack bus s = None))"
proof (intro conjI impI)
  assume up: "\<forall>b d f sb. bridge_bus c (PciAddress_new b d f) = Some sb \<longrightarrow> b < sb"
  have "scans cfg c (pci_enumerate_bus io 256) bus" by (rule enumerate_bus_ok [OF io]) (use up in auto)
  then show "\<exists>s'. pci_enumerate_bus io 256 bus s = Some s' \<and> table_ok cfg c s' \<and> (\<forall>a. found c bus a \<longrightarrow> seen s' a)"
    using s unfolding scans_def step_ok_def by blast
next
  assume "\<exists>d<32. bridge_bus c (PciAddress_new bus d 0) = Some bus"
  then show "\<forall>stack. pci_enumerate_bus io stack bus s = None"
    using enumerate_bus_loops [OF io] s unfolding table_ok_def by blast
qed

section \<open>Examples\<close>

text \<open>A bridge at device 3 of bus 0, to the bus \<open>sb\<close>.\<close>

definition bridge_space :: "u32 \<Rightarrow> u32 \<Rightarrow> u32" where
  "bridge_space sb r = (if r = 0x80001800 then 0x71118086 else if r = 0x80001808 then 0x06040001 else if r = 0x8000180C then 0x00010000
     else if r = 0x80001818 then push_bit 8 sb else 0xFFFFFFFF)"

definition demo_pci_state :: "(u32 \<Rightarrow> u32) \<Rightarrow> (u32 \<times> (u32 \<Rightarrow> u32)) pci" where
  "demo_pci_state c = \<lparr>pci_hw = (0, c), PCI_DEVICES = replicate 256 None, PCI_DEVICE_COUNT = 0\<rparr>"

lemma demo_table: "table_ok snd c (demo_pci_state c)"
  by (simp add: table_ok_def demo_pci_state_def)

lemma demo_bridge:
  "bridge_bus (bridge_space 0) (PciAddress_new 0 3 0) = Some 0" "bridge_bus (bridge_space 1) (PciAddress_new 0 3 0) = Some 1"
  by (simp_all add: bridge_bus_def present_def reg16_def reg8_def reg_def demo_address bridge_space_def PCI_VENDOR_ID_def PCI_VENDOR_ID_INVALID_def
      PCI_CLASS_def PCI_SUBCLASS_def)

lemma demo_only_bridge: "bridge_bus (bridge_space sb) (PciAddress_new b d f) = Some x \<Longrightarrow> PciAddress_new b d f = PciAddress_new 0 3 0"
proof (rule ccontr)
  assume h: "bridge_bus (bridge_space sb) (PciAddress_new b d f) = Some x" "PciAddress_new b d f \<noteq> PciAddress_new 0 3 0"
  let ?r = "config_address (PciAddress_new b d f) 0"
  have "?r \<noteq> 0x80001800" using h(2) config_address_eq [of b d f 0 0 3 0 0] by (simp add: demo_address)
  moreover have "?r \<noteq> 0x80001808" using bit_config_address [of b d f 0 3] by (auto simp: bit_numeral_rec)
  moreover have "?r \<noteq> 0x8000180C" using bit_config_address [of b d f 0 3] by (auto simp: bit_numeral_rec)
  moreover have "?r \<noteq> 0x80001818" using bit_config_address [of b d f 0 3] by (auto simp: bit_numeral_rec)
  ultimately have "bridge_space sb ?r = 0xFFFFFFFF" by (simp add: bridge_space_def)
  then have "\<not> present (bridge_space sb) (PciAddress_new b d f)"
    by (simp add: present_def reg16_def reg_def PCI_VENDOR_ID_def PCI_VENDOR_ID_INVALID_def)
  then show False using h(1) by (simp add: bridge_bus_def)
qed

theorem pci_enumerate_bus_returns_witness:
  "pci_enumerate_bus (demo_pci (\<lambda>r x v. v)) 1000 0 (demo_pci_state (bridge_space 0)) = None
   \<and> (\<exists>s'. pci_enumerate_bus (demo_pci (\<lambda>r x v. v)) 256 0 (demo_pci_state (bridge_space 1)) = Some s' \<and> seen s' (PciAddress_new 0 3 0))"
proof -
  note T = pci_enumerate_bus_returns [OF demo_config_ports demo_table]
  have "bridge_bus (bridge_space 0) (PciAddress_new 0 3 0) = Some 0" "(3 :: u8) < 32" using demo_bridge by simp_all
  then have l: "pci_enumerate_bus (demo_pci (\<lambda>r x v. v)) 1000 0 (demo_pci_state (bridge_space 0)) = None" using T by blast
  have one: "bridge_bus (bridge_space 1) (PciAddress_new 0 3 0) = Some 1" using demo_bridge by simp
  have "b < sb" if "bridge_bus (bridge_space 1) (PciAddress_new b d f) = Some sb" for b d f sb
  proof -
    have "PciAddress_new b d f = PciAddress_new 0 3 0" by (rule demo_only_bridge [OF that])
    then show ?thesis using that one by (auto simp: PciAddress_new_def)
  qed
  then obtain s' where s': "pci_enumerate_bus (demo_pci (\<lambda>r x v. v)) 256 0 (demo_pci_state (bridge_space 1)) = Some s'"
    "\<forall>a. found (bridge_space 1) 0 a \<longrightarrow> seen s' a" using T [where c = "bridge_space 1" and wr = "\<lambda>r x v. v"] by blast
  have "visited (bridge_space 1) 0 3 0" using one by (auto simp: visited_def bridge_bus_def split: if_splits)
  then show ?thesis using l s' found_here by blast
qed

end
