(* ===== verification/Msi.thy ===== *)
theory Msi
  imports Pci
begin

text \<open>
  Message signalled interrupts, \<^verbatim>\<open>drivers/pci/msi.rs\<close>: messages, the MSI and MSI-X capabilities and their registers, the MSI-X table,
  the configuration of a device and the allocation of vectors.
\<close>

unbundle bit_operations_syntax

section \<open>Constants\<close>

definition MSI_CONTROL :: u8 where "MSI_CONTROL = 0x02"
definition MSI_MESSAGE_ADDRESS_LOW :: u8 where "MSI_MESSAGE_ADDRESS_LOW = 0x04"
definition MSI_MESSAGE_ADDRESS_HIGH :: u8 where "MSI_MESSAGE_ADDRESS_HIGH = 0x08"
definition MSI_MESSAGE_DATA_32 :: u8 where "MSI_MESSAGE_DATA_32 = 0x08"
definition MSI_MESSAGE_DATA_64 :: u8 where "MSI_MESSAGE_DATA_64 = 0x0C"
definition MSI_MASK_BITS_32 :: u8 where "MSI_MASK_BITS_32 = 0x0C"
definition MSI_MASK_BITS_64 :: u8 where "MSI_MASK_BITS_64 = 0x10"
definition MSI_PENDING_BITS_32 :: u8 where "MSI_PENDING_BITS_32 = 0x10"
definition MSI_PENDING_BITS_64 :: u8 where "MSI_PENDING_BITS_64 = 0x14"
definition MSI_CONTROL_ENABLE :: u16 where "MSI_CONTROL_ENABLE = push_bit 0 1"
definition MSI_CONTROL_MMC_MASK :: u16 where "MSI_CONTROL_MMC_MASK = push_bit 1 0b111"
definition MSI_CONTROL_MMC_SHIFT :: nat where "MSI_CONTROL_MMC_SHIFT = 1"
definition MSI_CONTROL_MME_MASK :: u16 where "MSI_CONTROL_MME_MASK = push_bit 4 0b111"
definition MSI_CONTROL_MME_SHIFT :: nat where "MSI_CONTROL_MME_SHIFT = 4"
definition MSI_CONTROL_64BIT :: u16 where "MSI_CONTROL_64BIT = push_bit 7 1"
definition MSI_CONTROL_PER_VECTOR_MASK :: u16 where "MSI_CONTROL_PER_VECTOR_MASK = push_bit 8 1"
definition MSIX_CONTROL :: u8 where "MSIX_CONTROL = 0x02"
definition MSIX_TABLE_OFFSET :: u8 where "MSIX_TABLE_OFFSET = 0x04"
definition MSIX_PBA_OFFSET :: u8 where "MSIX_PBA_OFFSET = 0x08"
definition MSIX_CONTROL_TABLE_SIZE_MASK :: u16 where "MSIX_CONTROL_TABLE_SIZE_MASK = 0x07FF"
definition MSIX_CONTROL_FUNC_MASK :: u16 where "MSIX_CONTROL_FUNC_MASK = push_bit 14 1"
definition MSIX_CONTROL_ENABLE :: u16 where "MSIX_CONTROL_ENABLE = push_bit 15 1"
definition MSIX_ENTRY_VECTOR_CTRL_MASK :: u32 where "MSIX_ENTRY_VECTOR_CTRL_MASK = push_bit 0 1"
definition MSIX_TABLE_BIR_MASK :: u32 where "MSIX_TABLE_BIR_MASK = 0x07"
definition MSIX_TABLE_OFFSET_MASK :: u32 where "MSIX_TABLE_OFFSET_MASK = NOT 0x07"
definition MSI_ADDRESS_BASE :: u32 where "MSI_ADDRESS_BASE = 0xFEE00000"
definition MSI_ADDRESS_DEST_ID_SHIFT :: nat where "MSI_ADDRESS_DEST_ID_SHIFT = 12"
definition MSI_ADDRESS_REDIRECT_HINT :: u32 where "MSI_ADDRESS_REDIRECT_HINT = push_bit 3 1"
definition MSI_ADDRESS_DEST_MODE_LOGICAL :: u32 where "MSI_ADDRESS_DEST_MODE_LOGICAL = push_bit 2 1"
definition MSI_DATA_DELIVERY_MODE_SHIFT :: nat where "MSI_DATA_DELIVERY_MODE_SHIFT = 8"
definition MSI_DATA_LEVEL_ASSERT :: u16 where "MSI_DATA_LEVEL_ASSERT = push_bit 14 1"
definition MSI_DATA_TRIGGER_LEVEL :: u16 where "MSI_DATA_TRIGGER_LEVEL = push_bit 15 1"

section \<open>Messages\<close>

datatype MsiDeliveryMode = Fixed | LowestPriority | Smi | Nmi | Init | ExtInt
datatype MsiDestinationMode = Physical | Logical
datatype MsiTriggerMode = Edge | Level

fun delivery_code :: "MsiDeliveryMode \<Rightarrow> u16" where
  "delivery_code Fixed = 0b000"
| "delivery_code LowestPriority = 0b001"
| "delivery_code Smi = 0b010"
| "delivery_code Nmi = 0b100"
| "delivery_code Init = 0b101"
| "delivery_code ExtInt = 0b111"

record MsiMessage =
  msg_vector :: u8
  dest_id :: u8
  delivery_mode :: MsiDeliveryMode
  dest_mode :: MsiDestinationMode
  trigger_mode :: MsiTriggerMode
  redirect_hint :: bool

definition MsiMessage_new :: "u8 \<Rightarrow> u8 \<Rightarrow> MsiMessage" where
  "MsiMessage_new vector dest = \<lparr>msg_vector = vector, dest_id = dest, delivery_mode = Fixed, dest_mode = Physical, trigger_mode = Edge,
     redirect_hint = False\<rparr>"

definition lowest_priority :: "u8 \<Rightarrow> MsiMessage" where
  "lowest_priority vector = \<lparr>msg_vector = vector, dest_id = 0, delivery_mode = LowestPriority, dest_mode = Logical, trigger_mode = Edge,
     redirect_hint = True\<rparr>"

definition address_low :: "MsiMessage \<Rightarrow> u32" where
  "address_low m = MSI_ADDRESS_BASE OR push_bit MSI_ADDRESS_DEST_ID_SHIFT (ucast (dest_id m))
     OR (if redirect_hint m then MSI_ADDRESS_REDIRECT_HINT else 0)
     OR (if dest_mode m = Logical then MSI_ADDRESS_DEST_MODE_LOGICAL else 0)"

definition address_high :: "MsiMessage \<Rightarrow> u32" where "address_high m = 0"

definition message_address :: "MsiMessage \<Rightarrow> u64" where "message_address m = ucast (address_low m)"

definition message_data :: "MsiMessage \<Rightarrow> u16" where
  "message_data m = ucast (msg_vector m) OR push_bit MSI_DATA_DELIVERY_MODE_SHIFT (delivery_code (delivery_mode m))
     OR (if trigger_mode m = Level then MSI_DATA_TRIGGER_LEVEL OR MSI_DATA_LEVEL_ASSERT else 0)"

section \<open>Capabilities\<close>

record MsiCapability =
  mc_offset :: u8
  max_vectors :: u8
  is_64bit :: bool
  per_vector_mask :: bool

definition MsiCapability_read :: "'h io \<Rightarrow> PciAddress \<Rightarrow> u8 \<Rightarrow> ('h, MsiCapability) state" where
  "MsiCapability_read io a offset = do {
     control \<leftarrow> pci_config_read16 io a (offset + MSI_CONTROL);
     let mmc = (ucast (drop_bit MSI_CONTROL_MMC_SHIFT (control AND MSI_CONTROL_MMC_MASK)) :: u8);
     State_Monad.return \<lparr>mc_offset = offset, max_vectors = push_bit (unat mmc) 1, is_64bit = (control AND MSI_CONTROL_64BIT \<noteq> 0),
       per_vector_mask = (control AND MSI_CONTROL_PER_VECTOR_MASK \<noteq> 0)\<rparr>
   }"

definition msi_is_enabled :: "'h io \<Rightarrow> MsiCapability \<Rightarrow> PciAddress \<Rightarrow> ('h, bool) state" where
  "msi_is_enabled io c a = do {
     control \<leftarrow> pci_config_read16 io a (mc_offset c + MSI_CONTROL);
     State_Monad.return (control AND MSI_CONTROL_ENABLE \<noteq> 0)
   }"

definition allocated_vectors :: "'h io \<Rightarrow> MsiCapability \<Rightarrow> PciAddress \<Rightarrow> ('h, u8) state" where
  "allocated_vectors io c a = do {
     control \<leftarrow> pci_config_read16 io a (mc_offset c + MSI_CONTROL);
     let mme = (ucast (drop_bit MSI_CONTROL_MME_SHIFT (control AND MSI_CONTROL_MME_MASK)) :: u8);
     State_Monad.return (push_bit (unat mme) 1)
   }"

record MsixTableEntry =
  te_address_low :: u32
  te_address_high :: u32
  te_data :: u32
  vector_ctrl :: u32

definition from_message :: "MsiMessage \<Rightarrow> MsixTableEntry" where
  "from_message m = \<lparr>te_address_low = address_low m, te_address_high = address_high m, te_data = ucast (message_data m), vector_ctrl = 0\<rparr>"

definition from_message_masked :: "MsiMessage \<Rightarrow> MsixTableEntry" where
  "from_message_masked m = \<lparr>te_address_low = address_low m, te_address_high = address_high m, te_data = ucast (message_data m), vector_ctrl = 1\<rparr>"

definition entry_is_masked :: "MsixTableEntry \<Rightarrow> bool" where
  "entry_is_masked e \<longleftrightarrow> vector_ctrl e AND MSIX_ENTRY_VECTOR_CTRL_MASK \<noteq> 0"

record MsixCapability =
  xc_offset :: u8
  table_size :: u16
  table_bar :: u8
  table_offset :: u32
  pba_bar :: u8
  pba_offset :: u32

definition MsixCapability_read :: "'h io \<Rightarrow> PciAddress \<Rightarrow> u8 \<Rightarrow> ('h, MsixCapability) state" where
  "MsixCapability_read io a offset = do {
     control \<leftarrow> pci_config_read16 io a (offset + MSIX_CONTROL);
     table_bir \<leftarrow> pci_config_read32 io a (offset + MSIX_TABLE_OFFSET);
     pba_bir \<leftarrow> pci_config_read32 io a (offset + MSIX_PBA_OFFSET);
     State_Monad.return \<lparr>xc_offset = offset, table_size = (control AND MSIX_CONTROL_TABLE_SIZE_MASK) + 1,
       table_bar = ucast (table_bir AND MSIX_TABLE_BIR_MASK), table_offset = table_bir AND MSIX_TABLE_OFFSET_MASK,
       pba_bar = ucast (pba_bir AND MSIX_TABLE_BIR_MASK), pba_offset = pba_bir AND MSIX_TABLE_OFFSET_MASK\<rparr>
   }"

definition msix_is_enabled :: "'h io \<Rightarrow> MsixCapability \<Rightarrow> PciAddress \<Rightarrow> ('h, bool) state" where
  "msix_is_enabled io c a = do {
     control \<leftarrow> pci_config_read16 io a (xc_offset c + MSIX_CONTROL);
     State_Monad.return (control AND MSIX_CONTROL_ENABLE \<noteq> 0)
   }"

definition is_function_masked :: "'h io \<Rightarrow> MsixCapability \<Rightarrow> PciAddress \<Rightarrow> ('h, bool) state" where
  "is_function_masked io c a = do {
     control \<leftarrow> pci_config_read16 io a (xc_offset c + MSIX_CONTROL);
     State_Monad.return (control AND MSIX_CONTROL_FUNC_MASK \<noteq> 0)
   }"

section \<open>MSI\<close>

definition msi_enable_single :: "'h io \<Rightarrow> PciDevice \<Rightarrow> MsiMessage \<Rightarrow> ('h, bool) state" where
  "msi_enable_single io device message =
     (if msi_cap_offset device = 0 then State_Monad.return False
      else do {
        let offset = msi_cap_offset device;
        let a = pd_address device;
        control \<leftarrow> pci_config_read16 io a (offset + MSI_CONTROL);
        let wide = (control AND MSI_CONTROL_64BIT \<noteq> 0);
        let control = control AND NOT MSI_CONTROL_ENABLE;
        pci_config_write16 io a (offset + MSI_CONTROL) control;
        cmd \<leftarrow> pci_config_read16 io a PCI_COMMAND;
        pci_config_write16 io a PCI_COMMAND (cmd OR PCI_COMMAND_INTERRUPT_DISABLE);
        pci_config_write32 io a (offset + MSI_MESSAGE_ADDRESS_LOW) (address_low message);
        (if wide then do {
           pci_config_write32 io a (offset + MSI_MESSAGE_ADDRESS_HIGH) (address_high message);
           pci_config_write16 io a (offset + MSI_MESSAGE_DATA_64) (message_data message)
         }
         else pci_config_write16 io a (offset + MSI_MESSAGE_DATA_32) (message_data message));
        let control = (control AND NOT MSI_CONTROL_MME_MASK) OR MSI_CONTROL_ENABLE;
        pci_config_write16 io a (offset + MSI_CONTROL) control;
        State_Monad.return True
      })"

text \<open>\<^verbatim>\<open>next_power_of_two\<close> and \<^verbatim>\<open>trailing_zeros\<close> of a byte; past 128 the first wraps around to 0.\<close>

definition next_power_of_two :: "u8 \<Rightarrow> u8" where
  "next_power_of_two x =
     (if x \<le> 1 then 1 else if x \<le> 2 then 2 else if x \<le> 4 then 4 else if x \<le> 8 then 8 else if x \<le> 16 then 16
      else if x \<le> 32 then 32 else if x \<le> 64 then 64 else if x \<le> 128 then 128 else 0)"

definition trailing_zeros :: "u8 \<Rightarrow> nat" where
  "trailing_zeros x = length (takeWhile (\<lambda>n. \<not> bit x n) [0..<8])"

definition vectors_granted :: "u8 \<Rightarrow> u8 \<Rightarrow> u8" where
  "vectors_granted requested supported = min (next_power_of_two (min requested supported)) 32"

definition msi_enable_multi :: "'h io \<Rightarrow> PciDevice \<Rightarrow> MsiMessage \<Rightarrow> u8 \<Rightarrow> ('h, u8) state" where
  "msi_enable_multi io device base_message requested_vectors =
     (if msi_cap_offset device = 0 then State_Monad.return 0
      else do {
        let offset = msi_cap_offset device;
        let a = pd_address device;
        c \<leftarrow> MsiCapability_read io a offset;
        let vectors = vectors_granted requested_vectors (max_vectors c);
        let mme = trailing_zeros vectors;
        control \<leftarrow> pci_config_read16 io a (offset + MSI_CONTROL);
        let control = control AND NOT MSI_CONTROL_ENABLE;
        pci_config_write16 io a (offset + MSI_CONTROL) control;
        cmd \<leftarrow> pci_config_read16 io a PCI_COMMAND;
        pci_config_write16 io a PCI_COMMAND (cmd OR PCI_COMMAND_INTERRUPT_DISABLE);
        pci_config_write32 io a (offset + MSI_MESSAGE_ADDRESS_LOW) (address_low base_message);
        (if is_64bit c then do {
           pci_config_write32 io a (offset + MSI_MESSAGE_ADDRESS_HIGH) (address_high base_message);
           pci_config_write16 io a (offset + MSI_MESSAGE_DATA_64) (message_data base_message)
         }
         else pci_config_write16 io a (offset + MSI_MESSAGE_DATA_32) (message_data base_message));
        let control = (control AND NOT MSI_CONTROL_MME_MASK) OR push_bit MSI_CONTROL_MME_SHIFT (of_nat mme);
        let control = control OR MSI_CONTROL_ENABLE;
        pci_config_write16 io a (offset + MSI_CONTROL) control;
        State_Monad.return vectors
      })"

definition msi_disable :: "'h io \<Rightarrow> PciDevice \<Rightarrow> ('h, bool) state" where
  "msi_disable io device =
     (if msi_cap_offset device = 0 then State_Monad.return False
      else do {
        let offset = msi_cap_offset device;
        let a = pd_address device;
        control \<leftarrow> pci_config_read16 io a (offset + MSI_CONTROL);
        pci_config_write16 io a (offset + MSI_CONTROL) (control AND NOT MSI_CONTROL_ENABLE);
        cmd \<leftarrow> pci_config_read16 io a PCI_COMMAND;
        pci_config_write16 io a PCI_COMMAND (cmd AND NOT PCI_COMMAND_INTERRUPT_DISABLE);
        State_Monad.return True
      })"

text \<open>The shift \<^verbatim>\<open>1 << vector\<close> of a 32-bit value takes its count modulo 32.\<close>

definition msi_mask_vector :: "'h io \<Rightarrow> PciDevice \<Rightarrow> u8 \<Rightarrow> ('h, bool) state" where
  "msi_mask_vector io device vector =
     (if msi_cap_offset device = 0 then State_Monad.return False
      else do {
        let offset = msi_cap_offset device;
        let a = pd_address device;
        c \<leftarrow> MsiCapability_read io a offset;
        if \<not> per_vector_mask c then State_Monad.return False
        else do {
          let mask_offset = (if is_64bit c then MSI_MASK_BITS_64 else MSI_MASK_BITS_32);
          m \<leftarrow> pci_config_read32 io a (offset + mask_offset);
          pci_config_write32 io a (offset + mask_offset) (m OR push_bit (unat vector mod 32) 1);
          State_Monad.return True
        }
      })"

definition msi_unmask_vector :: "'h io \<Rightarrow> PciDevice \<Rightarrow> u8 \<Rightarrow> ('h, bool) state" where
  "msi_unmask_vector io device vector =
     (if msi_cap_offset device = 0 then State_Monad.return False
      else do {
        let offset = msi_cap_offset device;
        let a = pd_address device;
        c \<leftarrow> MsiCapability_read io a offset;
        if \<not> per_vector_mask c then State_Monad.return False
        else do {
          let mask_offset = (if is_64bit c then MSI_MASK_BITS_64 else MSI_MASK_BITS_32);
          m \<leftarrow> pci_config_read32 io a (offset + mask_offset);
          pci_config_write32 io a (offset + mask_offset) (m AND NOT (push_bit (unat vector mod 32) 1));
          State_Monad.return True
        }
      })"

definition msi_is_pending :: "'h io \<Rightarrow> PciDevice \<Rightarrow> u8 \<Rightarrow> ('h, bool) state" where
  "msi_is_pending io device vector =
     (if msi_cap_offset device = 0 then State_Monad.return False
      else do {
        let offset = msi_cap_offset device;
        let a = pd_address device;
        c \<leftarrow> MsiCapability_read io a offset;
        if \<not> per_vector_mask c then State_Monad.return False
        else do {
          let pending_offset = (if is_64bit c then MSI_PENDING_BITS_64 else MSI_PENDING_BITS_32);
          pending \<leftarrow> pci_config_read32 io a (offset + pending_offset);
          State_Monad.return (pending AND push_bit (unat vector mod 32) 1 \<noteq> 0)
        }
      })"

definition msi_get_capability :: "'h io \<Rightarrow> PciDevice \<Rightarrow> ('h, MsiCapability option) state" where
  "msi_get_capability io device =
     (if msi_cap_offset device = 0 then State_Monad.return None
      else do { c \<leftarrow> MsiCapability_read io (pd_address device) (msi_cap_offset device); State_Monad.return (Some c) })"

section \<open>MSI-X\<close>

record MsixController =
  capability :: MsixCapability
  table_addr :: u64
  pba_addr :: u64

definition usable_bar :: "Bar \<Rightarrow> bool" where
  "usable_bar b \<longleftrightarrow> \<not> (bar_type b = BarType_None \<or> bar_type b = IoSpace)"

definition MsixController_new :: "'h io \<Rightarrow> PciDevice \<Rightarrow> ('h, MsixController option) state" where
  "MsixController_new io device =
     (if msix_cap_offset device = 0 then State_Monad.return None
      else do {
        c \<leftarrow> MsixCapability_read io (pd_address device) (msix_cap_offset device);
        t \<leftarrow> pci_read_bar io (pd_address device) (table_bar c);
        if \<not> usable_bar t then State_Monad.return None
        else do {
          p \<leftarrow> (if pba_bar c = table_bar c then State_Monad.return t else pci_read_bar io (pd_address device) (pba_bar c));
          if \<not> usable_bar p then State_Monad.return None
          else State_Monad.return (Some \<lparr>capability = c, table_addr = base_address t + ucast (table_offset c),
            pba_addr = base_address p + ucast (pba_offset c)\<rparr>)
        }
      })"

definition entry_addr :: "MsixController \<Rightarrow> u16 \<Rightarrow> u64" where
  "entry_addr x index = table_addr x + ucast index * 16"

definition pba_qword_addr :: "MsixController \<Rightarrow> u16 \<Rightarrow> u64" where
  "pba_qword_addr x index = pba_addr x + (ucast index div 64) * 8"

definition msix_enable :: "'h io \<Rightarrow> PciDevice \<Rightarrow> ('h, bool) state" where
  "msix_enable io device =
     (if msix_cap_offset device = 0 then State_Monad.return False
      else do {
        let offset = msix_cap_offset device;
        let a = pd_address device;
        cmd \<leftarrow> pci_config_read16 io a PCI_COMMAND;
        pci_config_write16 io a PCI_COMMAND (cmd OR PCI_COMMAND_INTERRUPT_DISABLE);
        control \<leftarrow> pci_config_read16 io a (offset + MSIX_CONTROL);
        pci_config_write16 io a (offset + MSIX_CONTROL) (control OR (MSIX_CONTROL_ENABLE OR MSIX_CONTROL_FUNC_MASK));
        State_Monad.return True
      })"

definition msix_disable :: "'h io \<Rightarrow> PciDevice \<Rightarrow> ('h, bool) state" where
  "msix_disable io device =
     (if msix_cap_offset device = 0 then State_Monad.return False
      else do {
        let offset = msix_cap_offset device;
        let a = pd_address device;
        control \<leftarrow> pci_config_read16 io a (offset + MSIX_CONTROL);
        pci_config_write16 io a (offset + MSIX_CONTROL) (control AND NOT MSIX_CONTROL_ENABLE);
        cmd \<leftarrow> pci_config_read16 io a PCI_COMMAND;
        pci_config_write16 io a PCI_COMMAND (cmd AND NOT PCI_COMMAND_INTERRUPT_DISABLE);
        State_Monad.return True
      })"

definition msix_set_function_mask :: "'h io \<Rightarrow> PciDevice \<Rightarrow> bool \<Rightarrow> ('h, bool) state" where
  "msix_set_function_mask io device masked =
     (if msix_cap_offset device = 0 then State_Monad.return False
      else do {
        let offset = msix_cap_offset device;
        let a = pd_address device;
        control \<leftarrow> pci_config_read16 io a (offset + MSIX_CONTROL);
        pci_config_write16 io a (offset + MSIX_CONTROL)
          (if masked then control OR MSIX_CONTROL_FUNC_MASK else control AND NOT MSIX_CONTROL_FUNC_MASK);
        State_Monad.return True
      })"

definition msix_write_entry :: "'h io \<Rightarrow> MsixController \<Rightarrow> u16 \<Rightarrow> MsixTableEntry \<Rightarrow> ('h, bool) state" where
  "msix_write_entry io x index entry =
     (if index \<ge> table_size (capability x) then State_Monad.return False
      else do {
        let e = entry_addr x index;
        write_volatile_u32 io e (te_address_low entry);
        write_volatile_u32 io (e + 4) (te_address_high entry);
        write_volatile_u32 io (e + 8) (te_data entry);
        write_volatile_u32 io (e + 12) (vector_ctrl entry);
        State_Monad.return True
      })"

definition msix_read_entry :: "'h io \<Rightarrow> MsixController \<Rightarrow> u16 \<Rightarrow> ('h, MsixTableEntry option) state" where
  "msix_read_entry io x index =
     (if index \<ge> table_size (capability x) then State_Monad.return None
      else do {
        let e = entry_addr x index;
        lo \<leftarrow> read_volatile_u32 io e;
        hi \<leftarrow> read_volatile_u32 io (e + 4);
        d \<leftarrow> read_volatile_u32 io (e + 8);
        c \<leftarrow> read_volatile_u32 io (e + 12);
        State_Monad.return (Some \<lparr>te_address_low = lo, te_address_high = hi, te_data = d, vector_ctrl = c\<rparr>)
      })"

definition msix_configure_vector :: "'h io \<Rightarrow> MsixController \<Rightarrow> u16 \<Rightarrow> MsiMessage \<Rightarrow> bool \<Rightarrow> ('h, bool) state" where
  "msix_configure_vector io x index message masked =
     msix_write_entry io x index (if masked then from_message_masked message else from_message message)"

definition msix_mask_vector :: "'h io \<Rightarrow> MsixController \<Rightarrow> u16 \<Rightarrow> ('h, bool) state" where
  "msix_mask_vector io x index =
     (if index \<ge> table_size (capability x) then State_Monad.return False
      else do {
        let vector_ctrl_addr = entry_addr x index + 12;
        ctrl \<leftarrow> read_volatile_u32 io vector_ctrl_addr;
        write_volatile_u32 io vector_ctrl_addr (ctrl OR MSIX_ENTRY_VECTOR_CTRL_MASK);
        State_Monad.return True
      })"

definition msix_unmask_vector :: "'h io \<Rightarrow> MsixController \<Rightarrow> u16 \<Rightarrow> ('h, bool) state" where
  "msix_unmask_vector io x index =
     (if index \<ge> table_size (capability x) then State_Monad.return False
      else do {
        let vector_ctrl_addr = entry_addr x index + 12;
        ctrl \<leftarrow> read_volatile_u32 io vector_ctrl_addr;
        write_volatile_u32 io vector_ctrl_addr (ctrl AND NOT MSIX_ENTRY_VECTOR_CTRL_MASK);
        State_Monad.return True
      })"

definition msix_is_vector_masked :: "'h io \<Rightarrow> MsixController \<Rightarrow> u16 \<Rightarrow> ('h, bool) state" where
  "msix_is_vector_masked io x index =
     (if index \<ge> table_size (capability x) then State_Monad.return True
      else do {
        let vector_ctrl_addr = entry_addr x index + 12;
        ctrl \<leftarrow> read_volatile_u32 io vector_ctrl_addr;
        State_Monad.return (ctrl AND MSIX_ENTRY_VECTOR_CTRL_MASK \<noteq> 0)
      })"

definition msix_is_pending :: "'h io \<Rightarrow> MsixController \<Rightarrow> u16 \<Rightarrow> ('h, bool) state" where
  "msix_is_pending io x index =
     (if index \<ge> table_size (capability x) then State_Monad.return False
      else do {
        let qword_index = index div 64;
        let bit_index = index mod 64;
        let p = pba_qword_addr x qword_index;
        pending \<leftarrow> read_volatile_u64 io p;
        State_Monad.return (pending AND push_bit (unat bit_index) 1 \<noteq> 0)
      })"

primrec run_all :: "('h, 'a) state list \<Rightarrow> ('h, unit) state" where
  "run_all [] = State_Monad.return ()"
| "run_all (m # ms) = do { m; run_all ms }"

definition msix_mask_all :: "'h io \<Rightarrow> MsixController \<Rightarrow> ('h, unit) state" where
  "msix_mask_all io x = run_all (map (msix_mask_vector io x) (range_w 0 (table_size (capability x))))"

definition msix_unmask_all :: "'h io \<Rightarrow> MsixController \<Rightarrow> ('h, unit) state" where
  "msix_unmask_all io x = run_all (map (msix_unmask_vector io x) (range_w 0 (table_size (capability x))))"

definition msix_get_capability :: "'h io \<Rightarrow> PciDevice \<Rightarrow> ('h, MsixCapability option) state" where
  "msix_get_capability io device =
     (if msix_cap_offset device = 0 then State_Monad.return None
      else do { c \<leftarrow> MsixCapability_read io (pd_address device) (msix_cap_offset device); State_Monad.return (Some c) })"

definition msix_get_table_size :: "'h io \<Rightarrow> PciDevice \<Rightarrow> ('h, u16) state" where
  "msix_get_table_size io device =
     (if msix_cap_offset device = 0 then State_Monad.return 0
      else do {
        control \<leftarrow> pci_config_read16 io (pd_address device) (msix_cap_offset device + MSIX_CONTROL);
        State_Monad.return ((control AND MSIX_CONTROL_TABLE_SIZE_MASK) + 1)
      })"

section \<open>Configuring a device and allocating vectors\<close>

definition device_supports_msi_or_msix :: "PciDevice \<Rightarrow> bool" where
  "device_supports_msi_or_msix device \<longleftrightarrow> supports_msi device \<or> supports_msix device"

definition configure_msix :: "'h io \<Rightarrow> PciDevice \<Rightarrow> MsiMessage list \<Rightarrow> MsixController \<Rightarrow> ('h, u16) state" where
  "configure_msix io device messages x = do {
     msix_enable io device;
     let n = min (length messages) (unat (table_size (capability x)));
     run_all (map (\<lambda>(i, msg). msix_configure_vector io x (of_nat i) msg False) (enumerate 0 (take n messages)));
     msix_set_function_mask io device False;
     State_Monad.return (of_nat n)
   }"

definition configure_msi :: "'h io \<Rightarrow> PciDevice \<Rightarrow> MsiMessage list \<Rightarrow> ('h, u16) state" where
  "configure_msi io device messages =
     (if supports_msi device \<and> messages \<noteq> []
      then if length messages = 1
           then do { ok \<leftarrow> msi_enable_single io device (messages ! 0); State_Monad.return (if ok then 1 else 0) }
           else do { n \<leftarrow> msi_enable_multi io device (messages ! 0) (of_nat (length messages));
                     State_Monad.return (if n > 0 then ucast n else 0) }
      else State_Monad.return 0)"

definition configure_device_interrupts :: "'h io \<Rightarrow> PciDevice \<Rightarrow> MsiMessage list \<Rightarrow> MsixController option \<Rightarrow> ('h, u16) state" where
  "configure_device_interrupts io device messages controller =
     (case (supports_msix device, controller) of
        (True, Some x) \<Rightarrow> configure_msix io device messages x
      | _ \<Rightarrow> configure_msi io device messages)"

text \<open>The allocator of vectors; the state is \<^verbatim>\<open>NEXT_VECTOR\<close>, which starts at 48.\<close>

definition allocate_vectors :: "u8 \<Rightarrow> (u8, u8 option) state" where
  "allocate_vectors n = State (\<lambda>NEXT_VECTOR.
     if checked_add NEXT_VECTOR n = None \<or> NEXT_VECTOR + n > 224 then (None, NEXT_VECTOR)
     else (Some NEXT_VECTOR, saturating_add NEXT_VECTOR n))"

definition create_msi_messages :: "u8 \<Rightarrow> u8 \<Rightarrow> u8 \<Rightarrow> MsiMessage list" where
  "create_msi_messages base_vector n target_cpu =
     map (\<lambda>i. if i < min (unat n) 32 then MsiMessage_new (base_vector + of_nat i) target_cpu else MsiMessage_new 0 0) [0..<32]"

definition create_msi_messages_lowest_priority :: "u8 \<Rightarrow> u8 \<Rightarrow> MsiMessage list" where
  "create_msi_messages_lowest_priority base_vector n =
     map (\<lambda>i. if i < min (unat n) 32 then lowest_priority (base_vector + of_nat i) else MsiMessage_new 0 0) [0..<32]"

end
