(* ===== verification/Msi_Correct.thy ===== *)
theory Msi_Correct
  imports Msi Pci_Correct
begin

text \<open>
  Messages as the APIC decodes them, the allocation of vectors, the MSI-X table as memory, masking and pending bits, and the
  configuration of a device.
\<close>

unbundle bit_operations_syntax

section \<open>Messages in the form the APIC reads them\<close>

definition decode_delivery :: "u16 \<Rightarrow> MsiDeliveryMode option" where
  "decode_delivery c = (if c = 0 then Some Fixed else if c = 1 then Some LowestPriority else if c = 2 then Some Smi
     else if c = 4 then Some Nmi else if c = 5 then Some Init else if c = 7 then Some ExtInt else None)"

text \<open>
  The message the local APIC takes from an address and a data word: the destination in bits 12 to 19 of an address
  of the range at \<open>0xFEE00000\<close>, the redirection hint and the destination mode in bits 3 and 2; the vector, the delivery mode, the
  level and the trigger mode in bits 0 to 7, 8 to 10, 14 and 15 of the data.
\<close>

definition apic_decode :: "u32 \<Rightarrow> u16 \<Rightarrow> MsiMessage option" where
  "apic_decode addr d =
     (if drop_bit 20 addr \<noteq> 0xFEE then None
      else case decode_delivery (drop_bit 8 d AND 7) of None \<Rightarrow> None
        | Some dm \<Rightarrow> Some \<lparr>msg_vector = ucast d, dest_id = ucast (drop_bit 12 addr), delivery_mode = dm,
            dest_mode = (if bit addr 2 then Logical else Physical),
            trigger_mode = (if bit d 15 \<and> bit d 14 then Level else Edge), redirect_hint = bit addr 3\<rparr>)"

lemma bit_address_low:
  "bit (address_low m) n \<longleftrightarrow> (if n = 2 then dest_mode m = Logical else if n = 3 then redirect_hint m
     else if n < 12 then False else if n < 20 then bit (dest_id m) (n - 12) else n < 32 \<and> bit (0xFEE :: u32) (n - 20))"
proof -
  have b: "(0xFEE00000 :: u32) = push_bit 20 0xFEE" by simp
  have p: "MSI_ADDRESS_REDIRECT_HINT = push_bit 3 1" "MSI_ADDRESS_DEST_MODE_LOGICAL = push_bit 2 1"
    by (simp_all only: MSI_ADDRESS_REDIRECT_HINT_def MSI_ADDRESS_DEST_MODE_LOGICAL_def)
  have d: "bit (push_bit 12 (ucast (dest_id m)) :: u32) n \<longleftrightarrow> 12 \<le> n \<and> n < 20 \<and> bit (dest_id m) (n - 12)"
    using bit_u8_less [of "dest_id m" "n - 12"] by (auto simp: bit_push_bit_iff bit_ucast_iff)
  have e: "bit (push_bit 20 0xFEE :: u32) n \<longleftrightarrow> 20 \<le> n \<and> n < 32 \<and> bit (0xFEE :: u32) (n - 20)"
    unfolding bit_push_bit_iff possible_bit_word by auto
  have h: "bit (if redirect_hint m then MSI_ADDRESS_REDIRECT_HINT else 0) n \<longleftrightarrow> n = 3 \<and> redirect_hint m"
    unfolding p by (auto simp: bit_simps simp del: push_bit_of_1)
  have l: "bit (if dest_mode m = Logical then MSI_ADDRESS_DEST_MODE_LOGICAL else 0) n \<longleftrightarrow> n = 2 \<and> dest_mode m = Logical"
    unfolding p by (auto simp: bit_simps simp del: push_bit_of_1)
  show ?thesis
    unfolding address_low_def MSI_ADDRESS_BASE_def MSI_ADDRESS_DEST_ID_SHIFT_def b bit_or_iff d e h l by auto
qed


lemma bit_message_data:
  "bit (message_data m) n \<longleftrightarrow> (if n < 8 then bit (msg_vector m) n else if n < 11 then bit (delivery_code (delivery_mode m)) (n - 8)
     else (n = 14 \<or> n = 15) \<and> trigger_mode m = Level)"
proof -
  have p: "MSI_DATA_TRIGGER_LEVEL = push_bit 15 1" "MSI_DATA_LEVEL_ASSERT = push_bit 14 1"
    by (simp_all only: MSI_DATA_TRIGGER_LEVEL_def MSI_DATA_LEVEL_ASSERT_def)
  have v: "bit (ucast (msg_vector m) :: u16) n \<longleftrightarrow> n < 8 \<and> bit (msg_vector m) n"
    using bit_u8_less [of "msg_vector m" n] by (auto simp: bit_ucast_iff)
  have three: "bit (delivery_code d) k \<Longrightarrow> k < 3" for d k by (cases d) (auto simp: bit_numeral_rec bit_1_iff split: nat.splits)
  have d: "bit (push_bit 8 (delivery_code (delivery_mode m))) n \<longleftrightarrow> 8 \<le> n \<and> n < 11 \<and> bit (delivery_code (delivery_mode m)) (n - 8)"
    using three [of "delivery_mode m" "n - 8"] by (auto simp: bit_push_bit_iff)
  have l: "bit (if trigger_mode m = Level then MSI_DATA_TRIGGER_LEVEL OR MSI_DATA_LEVEL_ASSERT else 0) n \<longleftrightarrow> (n = 14 \<or> n = 15) \<and> trigger_mode m = Level"
    unfolding p by (auto simp: bit_simps simp del: push_bit_of_1)
  show ?thesis
    unfolding message_data_def MSI_DATA_DELIVERY_MODE_SHIFT_def bit_or_iff v d l by auto
qed

lemma decode_delivery_code: "decode_delivery (delivery_code d) = Some d"
  by (cases d) (simp_all add: decode_delivery_def)

lemma apic_decode_message: "apic_decode (address_low m) (message_data m) = Some m"
proof -
  have a: "drop_bit 20 (address_low m) = 0xFEE"
  proof (rule bit_word_eqI)
    fix n assume "n < LENGTH(32)"
    have hi: "\<not> bit (0xFEE :: u32) n" if "12 \<le> n"
    proof -
      have "(0xFEE :: u32) = 0xFEE AND mask 12" by (simp add: mask_eq_exp_minus_1)
      then show ?thesis using that by (metis bit_and_iff bit_mask_iff not_le)
    qed
    then show "bit (drop_bit 20 (address_low m)) n = bit (0xFEE :: u32) n"
      by (cases "n < 12") (simp_all add: bit_drop_bit_eq bit_address_low)
  qed
  have v: "ucast (message_data m) = msg_vector m" by (rule bit_word_eqI) (simp add: bit_ucast_iff bit_message_data)
  have d: "ucast (drop_bit 12 (address_low m)) = dest_id m"
    by (rule bit_word_eqI) (simp add: bit_ucast_iff bit_drop_bit_eq bit_address_low)
  have "drop_bit 8 (message_data m) AND mask 3 = delivery_code (delivery_mode m)"
  proof (rule bit_word_eqI)
    fix n assume "n < LENGTH(16)"
    have "n < 3" if "bit (delivery_code (delivery_mode m)) n"
      using that by (cases "delivery_mode m") (auto simp: bit_numeral_rec bit_1_iff split: nat.splits)
    then show "bit (drop_bit 8 (message_data m) AND mask 3) n = bit (delivery_code (delivery_mode m)) n"
      by (auto simp: bit_and_iff bit_mask_iff bit_drop_bit_eq bit_message_data)
  qed
  then have c: "drop_bit 8 (message_data m) AND 7 = delivery_code (delivery_mode m)" by (simp add: mask_eq_exp_minus_1)
  have "dest_mode m = Logical \<or> dest_mode m = Physical" "trigger_mode m = Level \<or> trigger_mode m = Edge"
    by (metis MsiDestinationMode.exhaust) (metis MsiTriggerMode.exhaust)
  then show ?thesis
    unfolding apic_decode_def a v d c decode_delivery_code bit_message_data bit_address_low by auto
qed

text \<open>
  The address and the data of a message say everything about it: the APIC takes back the vector, the destination, the delivery,
  destination and trigger modes and the redirection hint they were made from.
\<close>

theorem msi_message_round_trip: "apic_decode (address_low m) (message_data m) = Some m"
  by (rule apic_decode_message)

section \<open>Vectors\<close>

text \<open>The ranges granted to a series of requests.\<close>

primrec vector_grants :: "u8 list \<Rightarrow> u8 \<Rightarrow> (u8 \<times> u8) list \<times> u8" where
  "vector_grants [] s = ([], s)"
| "vector_grants (n # ns) s = (case run_state (allocate_vectors n) s of (r, s) \<Rightarrow>
     case vector_grants ns s of (gs, s) \<Rightarrow> ((case r of None \<Rightarrow> gs | Some base \<Rightarrow> (base, n) # gs), s))"

lemma allocate_vectors_step:
  assumes "unat s \<le> 224"
  shows "run_state (allocate_vectors n) s = (if unat s + unat n \<le> 224 then (Some s, s + n) else (None, s))"
    and "unat s + unat n \<le> 224 \<Longrightarrow> unat (s + n) = unat s + unat n"
proof -
  show u: "unat (s + n) = unat s + unat n" if "unat s + unat n \<le> 224" using that by (simp add: unat_word_ariths)
  have m: "unat (s + n) = (unat s + unat n) mod 256" by (simp add: unat_word_ariths)
  have "s + n < s" if g: "\<not> unat s + unat n < 256"
  proof -
    have l: "unat s < 256" "unat n < 256" using unsigned_less [of s] unsigned_less [of n] by simp_all
    have "(unat s + unat n) mod 256 = (unat s + unat n - 256) mod 256" by (rule le_mod_geq) (use g in simp)
    also have "\<dots> = unat s + unat n - 256" by (rule mod_less) (use l in simp)
    finally show ?thesis using g l unfolding word_less_nat_alt m by arith
  qed
  then show "run_state (allocate_vectors n) s = (if unat s + unat n \<le> 224 then (Some s, s + n) else (None, s))"
    by (cases "unat s + unat n < 256")
      (simp_all add: allocate_vectors_def checked_add_def saturating_add_def word_less_nat_alt m)
qed

lemma vector_grants_tile:
  "unat s \<le> 224 \<Longrightarrow> vector_grants ns s = (gs, t) \<Longrightarrow>
     concat (map (\<lambda>(b, n). [unat b..<unat b + unat n]) gs) = [unat s..<unat t] \<and> unat s \<le> unat t \<and> unat t \<le> 224"
proof (induction ns arbitrary: s gs)
  case (Cons n ns)
  show ?case
  proof (cases "unat s + unat n \<le> 224")
    case True
    then obtain gs' where g: "vector_grants ns (s + n) = (gs', t)" "gs = (s, n) # gs'"
      using Cons.prems allocate_vectors_step(1) [OF Cons.prems(1), of n] by (auto split: prod.splits)
    have u: "unat (s + n) = unat s + unat n" using allocate_vectors_step(2) [OF Cons.prems(1) True] .
    have "[unat s..<unat s + unat n] @ [unat s + unat n..<k] = [unat s..<k]" if "unat s + unat n \<le> k" for k
      using upt_add_eq_append [of "unat s" "unat s + unat n" "k - (unat s + unat n)"] that by simp
    then show ?thesis using Cons.IH [OF _ g(1)] True unfolding u g(2) by simp
  next
    case False
    then have "vector_grants ns s = (gs, t)" using Cons.prems allocate_vectors_step(1) [OF Cons.prems(1), of n] by (auto split: prod.splits)
    then show ?thesis using Cons by blast
  qed
qed simp

text \<open>
  The interrupt vectors: the ranges granted to any series of requests, one after the other, are exactly the vectors from 48 up to
  the next free one, which is at most 224; so no vector is granted twice and none of an exception is granted. A request is refused
  exactly when the vectors left below 224 do not suffice.
\<close>

theorem allocate_vectors_disjoint:
  "case vector_grants ns 48 of (gs, t) \<Rightarrow>
     concat (map (\<lambda>(b, n). [unat b..<unat b + unat n]) gs) = [48..<unat t] \<and> unat t \<le> 224
     \<and> (fst (run_state (allocate_vectors n) t) = None \<longleftrightarrow> 224 < unat t + unat n)"
proof -
  obtain gs t where g: "vector_grants ns 48 = (gs, t)" by fastforce
  have "concat (map (\<lambda>(b, n). [unat b..<unat b + unat n]) gs) = [48..<unat t]" "unat t \<le> 224"
    using vector_grants_tile [OF _ g] by simp_all
  then show ?thesis using allocate_vectors_step(1) [of t n] unfolding g by simp
qed

lemma trailing_zeros_powers: "trailing_zeros 1 = 0" "trailing_zeros 2 = 1" "trailing_zeros 4 = 2" "trailing_zeros 8 = 3"
    "trailing_zeros 16 = 4" "trailing_zeros 32 = 5"
  by (simp_all add: trailing_zeros_def upt_rec bit_numeral_rec bit_1_iff)

text \<open>
  The vectors a device with MSI gets, where it supports a power of two of them up to 32: the smallest power of two that holds the
  request, or all it supports if the request is larger; the field written to the device is its logarithm.
\<close>

theorem vectors_granted_bounds:
  assumes "s \<in> {1, 2, 4, 8, 16, 32}"
  shows "unat (vectors_granted r s) = 2 ^ trailing_zeros (vectors_granted r s) \<and> vectors_granted r s \<le> s
    \<and> min (unat r) (unat s) \<le> unat (vectors_granted r s)
    \<and> unat (vectors_granted r s) < 2 * max 1 (unat r)"
proof -
  have n: "unat (32 :: u8) = 32" "unat (16 :: u8) = 16" "unat (8 :: u8) = 8" "unat (4 :: u8) = 4" "unat (2 :: u8) = 2" by simp_all
  show ?thesis
    using assms
    by (auto simp: vectors_granted_def next_power_of_two_def min_def max_def word_le_nat_alt trailing_zeros_powers)
qed

theorem vectors_granted_bounds_witness: "vectors_granted 5 16 \<le> 16 \<and> 5 \<le> unat (vectors_granted 5 16)"
  using vectors_granted_bounds [of 16 5] by simp
section \<open>The MSI-X table\<close>

text \<open>The words of the table, and an entry of it in a memory of 32-bit words.\<close>

definition table_words :: "MsixController \<Rightarrow> u64 set" where
  "table_words x = {entry_addr x i + o4 | i o4. i < table_size (capability x) \<and> o4 \<in> {0, 4, 8, 12}}"

definition entry_at :: "(u64 \<Rightarrow> u32) \<Rightarrow> MsixController \<Rightarrow> u16 \<Rightarrow> MsixTableEntry" where
  "entry_at m x i = \<lparr>te_address_low = m (entry_addr x i), te_address_high = m (entry_addr x i + 4), te_data = m (entry_addr x i + 8),
     vector_ctrl = m (entry_addr x i + 12)\<rparr>"

text \<open>The table is memory: an aligned word reads as it was last written and accesses change nothing else of it.\<close>

definition table_ram :: "'h io \<Rightarrow> ('h \<Rightarrow> u64 \<Rightarrow> u32) \<Rightarrow> MsixController \<Rightarrow> bool" where
  "table_ram io mm x \<longleftrightarrow> (\<forall>a\<in>table_words x. \<forall>h.
     fst (run_state (read_volatile_u32 io a) h) = mm h a \<and> mm (snd (run_state (read_volatile_u32 io a) h)) = mm h
     \<and> (\<forall>v. mm (snd (run_state (write_volatile_u32 io a v) h)) = (mm h)(a := v)))"

lemma table_ram_word:
  assumes "table_ram io mm x" "a \<in> table_words x"
  shows "fst (run_state (read_volatile_u32 io a) h) = mm h a" "mm (snd (run_state (read_volatile_u32 io a) h)) = mm h"
    "mm (snd (run_state (write_volatile_u32 io a v) h)) = (mm h)(a := v)"
  using assms by (auto simp: table_ram_def)

lemma table_wordsI: "i < table_size (capability x) \<Longrightarrow> entry_addr x i \<in> table_words x"
    "i < table_size (capability x) \<Longrightarrow> entry_addr x i + 4 \<in> table_words x"
    "i < table_size (capability x) \<Longrightarrow> entry_addr x i + 8 \<in> table_words x"
    "i < table_size (capability x) \<Longrightarrow> entry_addr x i + 12 \<in> table_words x"
  by (force simp: table_words_def)+

lemma u16_bound: "unat (w :: u16) < 65536"
  using unsigned_less [of w] by simp

lemma entry_word_eq:
  assumes "o4 \<in> {0, 4, 8, 12}" "p4 \<in> {0, 4, 8, 12}"
  shows "entry_addr x i + o4 = entry_addr x j + p4 \<longleftrightarrow> i = j \<and> o4 = p4"
proof
  assume "entry_addr x i + o4 = entry_addr x j + p4"
  then have e: "ucast i * 16 + o4 = ucast j * 16 + p4" by (simp add: entry_addr_def algebra_simps)
  have "unat (ucast k * 16 + q4 :: u64) = unat k * 16 + unat q4 \<and> unat q4 < 16" if "q4 \<in> {0, 4, 8, 12}" for k :: u16 and q4 :: u64
  proof -
    have "unat (ucast k :: u64) = unat k" by (simp add: unat_ucast_up)
    moreover have "unat k < 65536" by (rule u16_bound)
    ultimately show ?thesis using that by (auto simp: unat_word_ariths)
  qed
  then have "unat i * 16 + unat o4 = unat j * 16 + unat p4" "unat o4 < 16" "unat p4 < 16" using e assms by metis+
  then have "unat i = unat j" "unat o4 = unat p4" by presburger+
  then show "i = j \<and> o4 = p4" by (simp add: word_unat_eq_iff)
qed simp

lemmas entry_word_simps =
  entry_word_eq [of 0 0, simplified] entry_word_eq [of 0 4, simplified] entry_word_eq [of 0 8, simplified] entry_word_eq [of 0 12, simplified]
  entry_word_eq [of 4 0, simplified] entry_word_eq [of 4 4, simplified] entry_word_eq [of 4 8, simplified] entry_word_eq [of 4 12, simplified]
  entry_word_eq [of 8 0, simplified] entry_word_eq [of 8 4, simplified] entry_word_eq [of 8 8, simplified] entry_word_eq [of 8 12, simplified]
  entry_word_eq [of 12 0, simplified] entry_word_eq [of 12 4, simplified] entry_word_eq [of 12 8, simplified] entry_word_eq [of 12 12, simplified]

lemma msix_write_entry_mem:
  assumes io: "table_ram io mm x" and i: "i < table_size (capability x)"
  shows "fst (run_state (msix_write_entry io x i e) h) = True"
    and "entry_at (mm (snd (run_state (msix_write_entry io x i e) h))) x j = (if j = i then e else entry_at (mm h) x j)"
proof -
  note w = table_ram_word [OF io table_wordsI(1) [OF i]] table_ram_word [OF io table_wordsI(2) [OF i]]
    table_ram_word [OF io table_wordsI(3) [OF i]] table_ram_word [OF io table_wordsI(4) [OF i]]
  show "fst (run_state (msix_write_entry io x i e) h) = True" using i by (simp add: msix_write_entry_def Let_def split_def not_le [symmetric])
  have m: "mm (snd (run_state (msix_write_entry io x i e) h)) = (mm h)(entry_addr x i := te_address_low e, entry_addr x i + 4 := te_address_high e,
      entry_addr x i + 8 := te_data e, entry_addr x i + 12 := vector_ctrl e)"
    using i by (simp add: msix_write_entry_def Let_def split_def w not_le [symmetric])
  show "entry_at (mm (snd (run_state (msix_write_entry io x i e) h))) x j = (if j = i then e else entry_at (mm h) x j)"
    unfolding m by (simp add: entry_at_def entry_word_simps)
qed

lemma msix_read_entry_mem:
  assumes io: "table_ram io mm x" and i: "i < table_size (capability x)"
  shows "fst (run_state (msix_read_entry io x i) h) = Some (entry_at (mm h) x i)" "mm (snd (run_state (msix_read_entry io x i) h)) = mm h"
proof -
  note w = table_ram_word [OF io table_wordsI(1) [OF i]] table_ram_word [OF io table_wordsI(2) [OF i]]
    table_ram_word [OF io table_wordsI(3) [OF i]] table_ram_word [OF io table_wordsI(4) [OF i]]
  show "fst (run_state (msix_read_entry io x i) h) = Some (entry_at (mm h) x i)" "mm (snd (run_state (msix_read_entry io x i) h)) = mm h"
    using i by (simp_all add: msix_read_entry_def Let_def split_def w entry_at_def not_le [symmetric])
qed

text \<open>
  The MSI-X table: an entry written with an index below the size of the table is read back as written and every other entry keeps
  its contents; an index from the size on is refused by both and the hardware is not touched.
\<close>

theorem msix_entry_round_trip:
  assumes io: "table_ram io mm x"
  shows "if i < table_size (capability x)
    then fst (run_state (msix_write_entry io x i e) h)
      \<and> fst (run_state (msix_read_entry io x i) (snd (run_state (msix_write_entry io x i e) h))) = Some e
      \<and> (\<forall>j. j \<noteq> i \<longrightarrow> entry_at (mm (snd (run_state (msix_write_entry io x i e) h))) x j = entry_at (mm h) x j)
    else run_state (msix_write_entry io x i e) h = (False, h) \<and> run_state (msix_read_entry io x i) h = (None, h)"
proof (cases "i < table_size (capability x)")
  case True
  then show ?thesis using msix_write_entry_mem [OF io True] msix_read_entry_mem(1) [OF io True] by simp
next
  case False
  then show ?thesis by (simp add: msix_write_entry_def msix_read_entry_def not_le [symmetric])
qed

section \<open>Masking vectors\<close>

lemma run_all_Cons: "run_state (run_all (m # ms)) h = run_state (run_all ms) (snd (run_state m h))"
  by (simp add: split_def)

lemma msix_set_mask_mem:
  assumes io: "table_ram io mm x" and i: "i < table_size (capability x)"
  shows "entry_at (mm (snd (run_state (msix_mask_vector io x i) h))) x j =
      (if j = i then (entry_at (mm h) x j)\<lparr>vector_ctrl := vector_ctrl (entry_at (mm h) x j) OR 1\<rparr> else entry_at (mm h) x j)"
    and "entry_at (mm (snd (run_state (msix_unmask_vector io x i) h))) x j =
      (if j = i then (entry_at (mm h) x j)\<lparr>vector_ctrl := vector_ctrl (entry_at (mm h) x j) AND NOT 1\<rparr> else entry_at (mm h) x j)"
    and "fst (run_state (msix_is_vector_masked io x i) h) = entry_is_masked (entry_at (mm h) x i)"
proof -
  note w = table_ram_word [OF io table_wordsI(4) [OF i]]
  have m: "mm (snd (run_state (msix_mask_vector io x i) h)) = (mm h)(entry_addr x i + 12 := mm h (entry_addr x i + 12) OR 1)"
    "mm (snd (run_state (msix_unmask_vector io x i) h)) = (mm h)(entry_addr x i + 12 := mm h (entry_addr x i + 12) AND NOT 1)"
    using i by (simp_all add: msix_mask_vector_def msix_unmask_vector_def MSIX_ENTRY_VECTOR_CTRL_MASK_def Let_def split_def w not_le [symmetric])
  show "entry_at (mm (snd (run_state (msix_mask_vector io x i) h))) x j =
      (if j = i then (entry_at (mm h) x j)\<lparr>vector_ctrl := vector_ctrl (entry_at (mm h) x j) OR 1\<rparr> else entry_at (mm h) x j)"
    "entry_at (mm (snd (run_state (msix_unmask_vector io x i) h))) x j =
      (if j = i then (entry_at (mm h) x j)\<lparr>vector_ctrl := vector_ctrl (entry_at (mm h) x j) AND NOT 1\<rparr> else entry_at (mm h) x j)"
    unfolding m by (simp_all add: entry_at_def entry_word_simps)
  show "fst (run_state (msix_is_vector_masked io x i) h) = entry_is_masked (entry_at (mm h) x i)"
    using i by (simp add: msix_is_vector_masked_def entry_is_masked_def entry_at_def Let_def split_def w not_le [symmetric])
qed

lemma msix_mask_run:
  assumes io: "table_ram io mm x"
  shows "\<forall>i\<in>set is'. i < table_size (capability x) \<Longrightarrow>
     entry_at (mm (snd (run_state (run_all (map (msix_mask_vector io x) is')) h))) x j =
      (if j \<in> set is' then (entry_at (mm h) x j)\<lparr>vector_ctrl := vector_ctrl (entry_at (mm h) x j) OR 1\<rparr> else entry_at (mm h) x j)"
    and "\<forall>i\<in>set is'. i < table_size (capability x) \<Longrightarrow>
     entry_at (mm (snd (run_state (run_all (map (msix_unmask_vector io x) is')) h))) x j =
      (if j \<in> set is' then (entry_at (mm h) x j)\<lparr>vector_ctrl := vector_ctrl (entry_at (mm h) x j) AND NOT 1\<rparr> else entry_at (mm h) x j)"
  by (induction is' arbitrary: h) (simp_all add: run_all_Cons msix_set_mask_mem [OF io] or.assoc and.assoc del: run_all.simps(2))

text \<open>
  Masking all vectors of a device sets the mask bit of every entry of its table, also of the last one, and unmasking all clears
  every one; addresses, data and the other control bits stay as they are, and the test of a vector then answers accordingly.
\<close>

theorem msix_mask_all_correct:
  assumes io: "table_ram io mm x" and i: "i < table_size (capability x)"
    and h': "h' = snd (run_state (if masked then msix_mask_all io x else msix_unmask_all io x) h)"
  shows "entry_at (mm h') x i = (entry_at (mm h) x i)\<lparr>vector_ctrl :=
      (if masked then vector_ctrl (entry_at (mm h) x i) OR 1 else vector_ctrl (entry_at (mm h) x i) AND NOT 1)\<rparr>
    \<and> fst (run_state (msix_is_vector_masked io x i) h') = masked"
proof -
  have s: "\<forall>k\<in>set (range_w 0 (table_size (capability x))). k < table_size (capability x)" "i \<in> set (range_w 0 (table_size (capability x)))"
    using i by (simp_all add: set_range_w_0)
  have e: "entry_at (mm h') x i = (entry_at (mm h) x i)\<lparr>vector_ctrl :=
      (if masked then vector_ctrl (entry_at (mm h) x i) OR 1 else vector_ctrl (entry_at (mm h) x i) AND NOT 1)\<rparr>"
    unfolding h' using msix_mask_run [OF io s(1)] s(2) by (simp add: msix_mask_all_def msix_unmask_all_def)
  have "(v OR 1) AND 1 = (1 :: u32)" "(v AND NOT 1) AND 1 = (0 :: u32)" for v
    by (rule bit_word_eqI; auto simp: bit_simps)+
  then show ?thesis
    using e msix_set_mask_mem(3) [OF io i, of h'] by (simp add: entry_is_masked_def MSIX_ENTRY_VECTOR_CTRL_MASK_def)
qed

section \<open>Pending vectors\<close>

text \<open>
  The pending bits of the vectors lie in one quadword for each 64 vectors. The index is divided by 64 twice, so for the up to
  2048 vectors of a device always the first quadword is read: the answer for a vector is the one for the vector of its residue modulo
  64, whatever its own quadword holds.
\<close>

theorem msix_is_pending_wrong:
  assumes i: "i < table_size (capability x)" and two: "table_size (capability x) \<le> 2048"
  shows "run_state (msix_is_pending io x i) h = run_state (msix_is_pending io x (i mod 64)) h
    \<and> run_state (msix_is_pending io x i) h = (case run_state (read_volatile_u64 io (pba_addr x)) h of (q, h) \<Rightarrow> (bit q (unat i mod 64), h))"
proof -
  have u: "unat i < 2048" using i two by (simp add: word_less_nat_alt word_le_nat_alt)
  have k: "unat (i mod 64) = unat i mod 64" "unat (i div 64) = unat i div 64" by (simp_all add: unat_mod unat_div)
  have m: "i mod 64 < table_size (capability x)" using i by (simp add: word_less_nat_alt k order_le_less_trans [OF mod_less_eq_dividend])
  have q: "pba_qword_addr x (j div 64) = pba_addr x" if "unat j < 2048" for j
  proof -
    have "unat (ucast (j div 64) div (64 :: u64)) = unat j div 64 div 64" by (simp add: unat_div unat_ucast_up)
    also have "\<dots> = 0" using that by (simp add: less_mult_imp_div_less flip: div_mult2_eq)
    finally have "ucast (j div 64) div (64 :: u64) = 0" by (simp add: unat_eq_zero)
    then show ?thesis by (simp add: pba_qword_addr_def)
  qed
  have b: "(v AND push_bit n 1 \<noteq> 0) = bit v n" for v :: u64 and n by (simp add: bit_iff_and_push_bit_not_eq_0 del: push_bit_of_1)
  have "run_state (msix_is_pending io x j) h = (case run_state (read_volatile_u64 io (pba_addr x)) h of (q, h) \<Rightarrow> (bit q (unat j mod 64), h))"
    if "j < table_size (capability x)" "unat j < 2048" for j
    using that q [OF that(2)] by (simp add: msix_is_pending_def Let_def split_def b unat_mod not_le [symmetric])
  then show ?thesis using i m u k by simp
qed

section \<open>Configuring a device\<close>

text \<open>The ports to configuration space do not reach the table.\<close>

definition ports_keep :: "'h io \<Rightarrow> ('h \<Rightarrow> 'm) \<Rightarrow> bool" where
  "ports_keep io mm \<longleftrightarrow> (\<forall>p v h. mm (snd (run_state (outl io p v) h)) = mm h) \<and> (\<forall>p h. mm (snd (run_state (inl io p) h)) = mm h)"

lemma ports_keep_config:
  assumes "ports_keep io mm"
  shows "mm (snd (run_state (pci_config_read16 io a off) h)) = mm h" "mm (snd (run_state (pci_config_write16 io a off v) h)) = mm h"
  using assms by (simp_all add: ports_keep_def pci_config_read16_def pci_config_write16_def Let_def split_def)

lemma msix_control_mem:
  assumes "ports_keep io mm"
  shows "mm (snd (run_state (msix_enable io d) h)) = mm h" "mm (snd (run_state (msix_set_function_mask io d b) h)) = mm h"
  by (simp_all add: msix_enable_def msix_set_function_mask_def Let_def split_def ports_keep_config [OF assms])

lemma configure_run:
  assumes io: "table_ram io mm x"
  shows "k + length ms \<le> unat (table_size (capability x)) \<Longrightarrow>
     entry_at (mm (snd (run_state (run_all (map (\<lambda>(i, msg). msix_configure_vector io x (of_nat i) msg False) (enumerate k ms))) h))) x j =
      (if k \<le> unat j \<and> unat j < k + length ms then from_message (ms ! (unat j - k)) else entry_at (mm h) x j)"
proof (induction ms arbitrary: k h)
  case (Cons m ms)
  have u: "unat (of_nat k :: u16) = k" using Cons.prems u16_bound [of "table_size (capability x)"] by (simp add: unat_of_nat)
  then have "of_nat k < table_size (capability x)" using Cons.prems by (simp add: word_less_nat_alt)
  from msix_write_entry_mem(2) [OF io this]
  have w: "entry_at (mm (snd (run_state (msix_configure_vector io x (of_nat k) m False) h))) x j = (if unat j = k then from_message m else entry_at (mm h) x j)"
    using u by (simp add: msix_configure_vector_def) (metis word_unat_eq_iff)
  have n: "(m # ms) ! (unat j - k) = ms ! (unat j - Suc k)" if "unat j \<noteq> k" "k \<le> unat j"
    proof -
    have "unat j - k = Suc (unat j - Suc k)" using that by linarith
    then show ?thesis by simp
  qed
  show ?case using Cons.prems Cons.IH [of "Suc k" "snd (run_state (msix_configure_vector io x (of_nat k) m False) h)"] n
    by (auto simp: run_all_Cons w simp del: run_all.simps(2))
qed auto

text \<open>
  C40: A device with MSI-X and a controller for its table gets one entry per message, as many as the table holds, and the number of them
  is returned: the APIC finds in the entry of each of these vectors the message given for it, unmasked, and the other entries are as
  they were.
\<close>

theorem configure_msix_correct:
  assumes io: "table_ram io mm x" "ports_keep io mm" and d: "supports_msix d"
    and r: "run_state (configure_device_interrupts io d ms (Some x)) h = (n, h')"
  shows "unat n = min (length ms) (unat (table_size (capability x)))
    \<and> (\<forall>i. entry_at (mm h') x i = (if i < n then from_message (ms ! unat i) else entry_at (mm h) x i)
       \<and> (i < n \<longrightarrow> \<not> entry_is_masked (entry_at (mm h') x i)
            \<and> apic_decode (te_address_low (entry_at (mm h') x i)) (ucast (te_data (entry_at (mm h') x i))) = Some (ms ! unat i)))"
proof -
  let ?n = "min (length ms) (unat (table_size (capability x)))"
  let ?h = "snd (run_state (msix_enable io d) h)"
  let ?run = "run_all (map (\<lambda>(i, msg). msix_configure_vector io x (of_nat i) msg False) (enumerate 0 (take ?n ms)))"
  have n: "n = of_nat ?n" and h: "h' = snd (run_state (msix_set_function_mask io d False) (snd (run_state ?run ?h)))"
    using r d by (simp_all add: configure_device_interrupts_def configure_msix_def Let_def split_def)
  have u: "unat n = ?n" using u16_bound [of "table_size (capability x)"] unfolding n by (auto simp: unat_of_nat min_def)
  have l: "0 + length (take ?n ms) \<le> unat (table_size (capability x))" by simp
  have e: "entry_at (mm h') x i = (if i < n then from_message (ms ! unat i) else entry_at (mm h) x i)" for i
    using configure_run [OF io(1) l, of ?h i] u unfolding h by (simp add: msix_control_mem [OF io(2)] word_less_nat_alt)
  have "ucast (ucast v :: u32) = (v :: u16)" for v by (rule bit_word_eqI) (simp add: bit_ucast_iff)
  then have "\<not> entry_is_masked (from_message m)" "apic_decode (te_address_low (from_message m)) (ucast (te_data (from_message m))) = Some m" for m
    by (simp_all add: from_message_def entry_is_masked_def apic_decode_message)
  then show ?thesis using u e by simp
qed

section \<open>Examples\<close>

text \<open>A machine that is nothing but a memory of words, and a table of three vectors in it.\<close>

definition demo_ram :: "(u64 \<Rightarrow> u32) io" where
  "demo_ram = null_io\<lparr>write_volatile_u32 := \<lambda>a v. State (\<lambda>m. ((), m(a := v))), read_volatile_u32 := \<lambda>a. State (\<lambda>m. (m a, m)),
     read_volatile_u64 := \<lambda>a. State (\<lambda>m. (join_u32 (m (a + 4)) (m a), m))\<rparr>"

definition demo_controller :: "u16 \<Rightarrow> MsixController" where
  "demo_controller n = \<lparr>capability = \<lparr>xc_offset = 0x70, table_size = n, table_bar = 0, table_offset = 0, pba_bar = 0, pba_offset = 0x800\<rparr>,
     table_addr = 0xFEBD0000, pba_addr = 0xFEBD0800\<rparr>"

definition demo_msix_device :: PciDevice where
  "demo_msix_device = \<lparr>pd_address = PciAddress_new 0 3 0, vendor_id = 0x8086, device_id = 0x10D3, class_code = 2, pci_subclass = 0, prog_if = 0,
     revision_id = 3, header_type = 0, msi_cap_offset = 0x50, msix_cap_offset = 0x70\<rparr>"

lemma demo_table_ram: "table_ram demo_ram (\<lambda>m. m) x"
  by (simp add: table_ram_def demo_ram_def)

lemma demo_ports_keep: "ports_keep demo_ram (\<lambda>m. m)"
  by (simp add: ports_keep_def demo_ram_def null_io_def)

theorem msix_entry_round_trip_witness:
  "fst (run_state (msix_read_entry demo_ram (demo_controller 3) 2) (snd (run_state
       (msix_write_entry demo_ram (demo_controller 3) 2 (from_message (MsiMessage_new 50 0))) (\<lambda>a. 7)))) = Some (from_message (MsiMessage_new 50 0))
   \<and> run_state (msix_read_entry demo_ram (demo_controller 3) 3) (\<lambda>a. 7) = (None, \<lambda>a. 7)"
  using msix_entry_round_trip [OF demo_table_ram, of 2 "demo_controller 3" "from_message (MsiMessage_new 50 0)" "\<lambda>a. 7"]
    msix_entry_round_trip [OF demo_table_ram, of 3 "demo_controller 3" "from_message (MsiMessage_new 50 0)" "\<lambda>a. 7"]
  by (simp add: demo_controller_def)

theorem msix_mask_all_correct_witness:
  "fst (run_state (msix_is_vector_masked demo_ram (demo_controller 3) 2) (snd (run_state (msix_mask_all demo_ram (demo_controller 3)) (\<lambda>a. 6))))"
  using msix_mask_all_correct [OF demo_table_ram _ refl, of 2 "demo_controller 3" True "\<lambda>a. 6"] by (simp add: demo_controller_def)

theorem msix_is_pending_wrong_witness:
  "fst (run_state (msix_is_pending demo_ram (demo_controller 128) 65) (\<lambda>a. if a = 0xFEBD0800 then 2 else 0))
   \<and> \<not> fst (run_state (msix_is_pending demo_ram (demo_controller 128) 65) (\<lambda>a. if a = 0xFEBD0808 then 2 else 0))"
proof -
  have "run_state (msix_is_pending demo_ram (demo_controller 128) 65) h =
      (case run_state (read_volatile_u64 demo_ram (pba_addr (demo_controller 128))) h of (q, h) \<Rightarrow> (bit q (unat (65 :: u16) mod 64), h))" for h
    by (rule msix_is_pending_wrong [THEN conjunct2]) (simp_all add: demo_controller_def)
  then show ?thesis by (simp add: demo_controller_def demo_ram_def bit_join_u32 bit_numeral_rec)
qed

theorem configure_msix_correct_witness:
  "case run_state (configure_device_interrupts demo_ram demo_msix_device [MsiMessage_new 48 0, MsiMessage_new 49 1] (Some (demo_controller 3))) (\<lambda>a. 7)
   of (n, h) \<Rightarrow> n = 2 \<and> entry_at h (demo_controller 3) 1 = from_message (MsiMessage_new 49 1)
     \<and> entry_at h (demo_controller 3) 2 = entry_at (\<lambda>a. 7) (demo_controller 3) 2"
proof -
  obtain n h where r: "run_state (configure_device_interrupts demo_ram demo_msix_device [MsiMessage_new 48 0, MsiMessage_new 49 1] (Some (demo_controller 3))) (\<lambda>a. 7) = (n, h)"
    by fastforce
  note c = configure_msix_correct [OF demo_table_ram demo_ports_keep _ r]
  have d: "supports_msix demo_msix_device" by (simp add: supports_msix_def demo_msix_device_def)
  have "unat n = 2" using c [OF d] by (simp add: demo_controller_def)
  then have n: "n = 2" by (simp add: word_unat_eq_iff)
  show ?thesis using c [OF d] unfolding r n by (auto dest: spec [of _ 1] spec [of _ 2])
qed

end
