(* ===== verification/Descriptors.thy ===== *)
theory Descriptors
  imports Port_Io Pmm_Init
begin

text \<open>
  The global descriptor table with the task state segment, \<^verbatim>\<open>gdt/lib.rs\<close>, and the interrupt descriptor table, \<^verbatim>\<open>idt/lib.rs\<close>, as the
  processor decodes them, and the stacks of the exceptions.
\<close>

unbundle bit_operations_syntax

section \<open>The task state segment\<close>

record TaskStateSegment =
  tss_reserved0 :: u32
  rsp0 :: u64
  rsp1 :: u64
  rsp2 :: u64
  tss_reserved1 :: u64
  ist1 :: u64
  ist2 :: u64
  ist3 :: u64
  ist4 :: u64
  ist5 :: u64
  ist6 :: u64
  ist7 :: u64
  tss_reserved2 :: u64
  tss_reserved3 :: u16
  iopb_offset :: u16

text \<open>\<^verbatim>\<open>size_of::<TaskStateSegment>()\<close>: the fields without padding.\<close>

definition TSS_SIZE :: usize where
  "TSS_SIZE = 4 + 3 * 8 + 8 + 7 * 8 + 8 + 2 + 2"

definition TSS_new :: TaskStateSegment where
  "TSS_new = \<lparr>tss_reserved0 = 0, rsp0 = 0, rsp1 = 0, rsp2 = 0, tss_reserved1 = 0, ist1 = 0, ist2 = 0, ist3 = 0, ist4 = 0, ist5 = 0,
     ist6 = 0, ist7 = 0, tss_reserved2 = 0, tss_reserved3 = 0, iopb_offset = ucast TSS_SIZE\<rparr>"

definition set_rsp0 :: "u64 \<Rightarrow> TaskStateSegment \<Rightarrow> TaskStateSegment" where
  "set_rsp0 stack_ptr t = t\<lparr>rsp0 := stack_ptr\<rparr>"

definition get_rsp0 :: "TaskStateSegment \<Rightarrow> u64" where
  "get_rsp0 t = rsp0 t"

definition set_ist :: "usize \<Rightarrow> u64 \<Rightarrow> TaskStateSegment \<Rightarrow> TaskStateSegment" where
  "set_ist index stack_ptr t =
     (if index = 1 then t\<lparr>ist1 := stack_ptr\<rparr> else if index = 2 then t\<lparr>ist2 := stack_ptr\<rparr> else if index = 3 then t\<lparr>ist3 := stack_ptr\<rparr>
      else if index = 4 then t\<lparr>ist4 := stack_ptr\<rparr> else if index = 5 then t\<lparr>ist5 := stack_ptr\<rparr> else if index = 6 then t\<lparr>ist6 := stack_ptr\<rparr>
      else if index = 7 then t\<lparr>ist7 := stack_ptr\<rparr> else t)"

definition get_ist :: "usize \<Rightarrow> TaskStateSegment \<Rightarrow> u64" where
  "get_ist index t =
     (if index = 1 then ist1 t else if index = 2 then ist2 t else if index = 3 then ist3 t else if index = 4 then ist4 t
      else if index = 5 then ist5 t else if index = 6 then ist6 t else if index = 7 then ist7 t else 0)"

section \<open>Segment descriptors\<close>

definition KERNEL_CODE_SELECTOR :: u16 where "KERNEL_CODE_SELECTOR = 0x08"
definition KERNEL_DATA_SELECTOR :: u16 where "KERNEL_DATA_SELECTOR = 0x10"
definition USER_DATA_SELECTOR :: u16 where "USER_DATA_SELECTOR = 0x18 OR 3"
definition USER_CODE_SELECTOR :: u16 where "USER_CODE_SELECTOR = 0x20 OR 3"
definition TSS_SELECTOR :: u16 where "TSS_SELECTOR = 0x28"

record GdtEntry =
  limit_low :: u16
  base_low :: u16
  base_middle :: u8
  access :: u8
  flags_limit_high :: u8
  base_high :: u8

definition GdtEntry_null :: GdtEntry where
  "GdtEntry_null = \<lparr>limit_low = 0, base_low = 0, base_middle = 0, access = 0, flags_limit_high = 0, base_high = 0\<rparr>"

definition GdtEntry_new :: "u32 \<Rightarrow> u32 \<Rightarrow> u8 \<Rightarrow> u8 \<Rightarrow> GdtEntry" where
  "GdtEntry_new base limit acc flags =
     \<lparr>limit_low = ucast (limit AND 0xFFFF), base_low = ucast (base AND 0xFFFF), base_middle = ucast (drop_bit 16 base AND 0xFF), access = acc,
      flags_limit_high = ucast (drop_bit 16 limit AND 0x0F) OR push_bit 4 (flags AND 0x0F), base_high = ucast (drop_bit 24 base AND 0xFF)\<rparr>"

definition kernel_code_segment :: GdtEntry where "kernel_code_segment = GdtEntry_new 0 0 0x9A 0x02"
definition kernel_data_segment :: GdtEntry where "kernel_data_segment = GdtEntry_new 0 0 0x92 0x00"
definition user_code_segment :: GdtEntry where "user_code_segment = GdtEntry_new 0 0 0xFA 0x02"
definition user_data_segment :: GdtEntry where "user_data_segment = GdtEntry_new 0 0 0xF2 0x00"

record TssEntry =
  tss_low :: GdtEntry
  base_upper :: u32
  tss_reserved :: u32

definition TssEntry_null :: TssEntry where
  "TssEntry_null = \<lparr>tss_low = GdtEntry_null, base_upper = 0, tss_reserved = 0\<rparr>"

definition TssEntry_new :: "u64 \<Rightarrow> u32 \<Rightarrow> TssEntry" where
  "TssEntry_new tss_addr tss_size =
     (let base = tss_addr; limit = tss_size - 1; acc = 0x89; flags = 0x00 in
      \<lparr>tss_low = \<lparr>limit_low = ucast (limit AND 0xFFFF), base_low = ucast (base AND 0xFFFF), base_middle = ucast (drop_bit 16 base AND 0xFF),
         access = acc, flags_limit_high = ucast (drop_bit 16 limit AND 0x0F) OR push_bit 4 (flags AND 0x0F),
         base_high = ucast (drop_bit 24 base AND 0xFF)\<rparr>,
       base_upper = ucast (drop_bit 32 base AND 0xFFFFFFFF), tss_reserved = 0\<rparr>)"

record GdtPointer =
  gp_limit :: u16
  gp_base :: u64

record Gdt =
  gdt_null :: GdtEntry
  kernel_code :: GdtEntry
  kernel_data :: GdtEntry
  user_data :: GdtEntry
  user_code :: GdtEntry
  gdt_tss :: TssEntry

definition GDT_SIZE :: usize where "GDT_SIZE = 5 * 8 + 16"

definition Gdt_new :: Gdt where
  "Gdt_new = \<lparr>gdt_null = GdtEntry_null, kernel_code = kernel_code_segment, kernel_data = kernel_data_segment, user_data = user_data_segment,
     user_code = user_code_segment, gdt_tss = TssEntry_null\<rparr>"

definition set_tss :: "u64 \<Rightarrow> Gdt \<Rightarrow> Gdt" where
  "set_tss tss_addr g = g\<lparr>gdt_tss := TssEntry_new tss_addr (ucast TSS_SIZE)\<rparr>"

definition gdt_pointer :: "u64 \<Rightarrow> Gdt \<Rightarrow> GdtPointer" where
  "gdt_pointer self_addr g = \<lparr>gp_limit = ucast (GDT_SIZE - 1), gp_base = self_addr\<rparr>"

section \<open>Gates\<close>

record IdtEntry =
  offset_low :: u16
  gate_selector :: u16
  gate_ist :: u8
  type_attr :: u8
  offset_mid :: u16
  offset_high :: u32
  gate_reserved :: u32

definition IdtEntry_new :: IdtEntry where
  "IdtEntry_new = \<lparr>offset_low = 0, gate_selector = 0, gate_ist = 0, type_attr = 0, offset_mid = 0, offset_high = 0, gate_reserved = 0\<rparr>"

definition set_handler :: "u64 \<Rightarrow> u16 \<Rightarrow> u8 \<Rightarrow> u8 \<Rightarrow> u8 \<Rightarrow> IdtEntry \<Rightarrow> IdtEntry" where
  "set_handler handler selector ist gate_type dpl e =
     e\<lparr>offset_low := ucast (handler AND 0xFFFF), offset_mid := ucast (drop_bit 16 handler AND 0xFFFF),
       offset_high := ucast (drop_bit 32 handler AND 0xFFFFFFFF), gate_selector := selector, gate_ist := ist AND 0x7,
       type_attr := push_bit 7 1 OR push_bit 5 (dpl AND 0x3) OR (gate_type AND 0xF), gate_reserved := 0\<rparr>"

definition entry_set_interrupt_gate :: "u64 \<Rightarrow> u16 \<Rightarrow> u8 \<Rightarrow> u8 \<Rightarrow> IdtEntry \<Rightarrow> IdtEntry" where
  "entry_set_interrupt_gate handler selector ist dpl e = set_handler handler selector ist 0xE dpl e"

definition entry_set_trap_gate :: "u64 \<Rightarrow> u16 \<Rightarrow> u8 \<Rightarrow> u8 \<Rightarrow> IdtEntry \<Rightarrow> IdtEntry" where
  "entry_set_trap_gate handler selector ist dpl e = set_handler handler selector ist 0xF dpl e"

record IdtPointer =
  ip_limit :: u16
  ip_base :: u64

record Idt =
  idt_entries :: "IdtEntry list"

definition IDT_SIZE :: usize where "IDT_SIZE = 256 * 16"

definition Idt_new :: Idt where
  "Idt_new = \<lparr>idt_entries = replicate 256 IdtEntry_new\<rparr>"

definition set_entry_idt :: "usize \<Rightarrow> IdtEntry \<Rightarrow> Idt \<Rightarrow> Idt" where
  "set_entry_idt index entry t = (if index < 256 then t\<lparr>idt_entries := (idt_entries t)[unat index := entry]\<rparr> else t)"

definition set_interrupt_gate :: "usize \<Rightarrow> u64 \<Rightarrow> u16 \<Rightarrow> u8 \<Rightarrow> Idt \<Rightarrow> Idt" where
  "set_interrupt_gate vector handler selector ist t =
     (if vector < 256
      then t\<lparr>idt_entries := (idt_entries t)[unat vector := entry_set_interrupt_gate handler selector ist 0 (idt_entries t ! unat vector)]\<rparr>
      else t)"

definition set_trap_gate :: "usize \<Rightarrow> u64 \<Rightarrow> u16 \<Rightarrow> u8 \<Rightarrow> Idt \<Rightarrow> Idt" where
  "set_trap_gate vector handler selector ist t =
     (if vector < 256
      then t\<lparr>idt_entries := (idt_entries t)[unat vector := entry_set_trap_gate handler selector ist 0 (idt_entries t ! unat vector)]\<rparr>
      else t)"

definition idt_pointer :: "u64 \<Rightarrow> Idt \<Rightarrow> IdtPointer" where
  "idt_pointer self_addr t = \<lparr>ip_limit = ucast (IDT_SIZE - 1), ip_base = self_addr\<rparr>"

section \<open>Initialisation\<close>

text \<open>
  The assembly routines that load the registers, the addresses of the static variables and of the entry points of the vectors
  in \<^verbatim>\<open>idt.asm\<close>.
\<close>

record 'h cpu_ops =
  gdt_load :: "GdtPointer \<Rightarrow> ('h, unit) state"
  tss_load :: "u16 \<Rightarrow> ('h, unit) state"
  reload_segments :: "('h, unit) state"
  idt_load :: "IdtPointer \<Rightarrow> ('h, unit) state"
  addr_of_TSS :: u64
  addr_of_GDT :: u64
  addr_of_IDT :: u64
  isr :: "nat \<Rightarrow> u64"
  irq :: "nat \<Rightarrow> u64"

record tables =
  GDT :: Gdt
  TSS :: TaskStateSegment
  GDT_POINTER :: GdtPointer
  IDT :: Idt
  IDT_POINTER :: IdtPointer

definition tables_new :: tables where
  "tables_new = \<lparr>GDT = Gdt_new, TSS = TSS_new, GDT_POINTER = \<lparr>gp_limit = 0, gp_base = 0\<rparr>, IDT = Idt_new, IDT_POINTER = \<lparr>ip_limit = 0, ip_base = 0\<rparr>\<rparr>"

definition gdt_init :: "'h cpu_ops \<Rightarrow> tables \<Rightarrow> ('h, tables) state" where
  "gdt_init ops s =
     (let t = TSS s;
          t = t\<lparr>rsp0 := 0x900000\<rparr>;
          t = t\<lparr>ist1 := 0x8F0000\<rparr>;
          t = t\<lparr>ist2 := 0x8E0000\<rparr>;
          t = t\<lparr>ist3 := 0x8D0000\<rparr>;
          t = t\<lparr>ist5 := 0x8B0000\<rparr>;
          t = t\<lparr>iopb_offset := ucast TSS_SIZE\<rparr>;
          g = set_tss (addr_of_TSS ops) (GDT s);
          s = s\<lparr>TSS := t, GDT := g, GDT_POINTER := gdt_pointer (addr_of_GDT ops) g\<rparr>
      in do {
        gdt_load ops (GDT_POINTER s);
        reload_segments ops;
        tss_load ops TSS_SELECTOR;
        State_Monad.return s
      })"

definition set_kernel_stack :: "u64 \<Rightarrow> tables \<Rightarrow> tables" where
  "set_kernel_stack stack_ptr s = s\<lparr>TSS := (TSS s)\<lparr>rsp0 := stack_ptr\<rparr>\<rparr>"

definition fill_idt :: "'h cpu_ops \<Rightarrow> Idt \<Rightarrow> Idt" where
  "fill_idt ops t =
     (let kernel_cs = 0x08;
          t = set_interrupt_gate 0 (isr ops 0) kernel_cs 0 t;
          t = set_trap_gate 1 (isr ops 1) kernel_cs 0 t;
          t = set_interrupt_gate 2 (isr ops 2) kernel_cs 2 t;
          t = set_trap_gate 3 (isr ops 3) kernel_cs 0 t;
          t = set_trap_gate 4 (isr ops 4) kernel_cs 0 t;
          t = set_interrupt_gate 5 (isr ops 5) kernel_cs 0 t;
          t = set_interrupt_gate 6 (isr ops 6) kernel_cs 0 t;
          t = set_interrupt_gate 7 (isr ops 7) kernel_cs 0 t;
          t = set_interrupt_gate 8 (isr ops 8) kernel_cs 1 t;
          t = fold (\<lambda>v. set_interrupt_gate (of_nat v) (isr ops v) kernel_cs 0) [9..<14] t;
          t = set_interrupt_gate 14 (isr ops 14) kernel_cs 5 t;
          t = fold (\<lambda>v. set_interrupt_gate (of_nat v) (isr ops v) kernel_cs 0) [15..<18] t;
          t = set_interrupt_gate 18 (isr ops 18) kernel_cs 3 t;
          t = fold (\<lambda>v. set_interrupt_gate (of_nat v) (isr ops v) kernel_cs 0) [19..<32] t
      in fold (\<lambda>v. set_interrupt_gate (of_nat v) (irq ops (v - 32)) kernel_cs 0) [32..<48] t)"

definition idt_init :: "'h cpu_ops \<Rightarrow> tables \<Rightarrow> ('h, tables) state" where
  "idt_init ops s =
     (let t = fill_idt ops (IDT s);
          s = s\<lparr>IDT := t, IDT_POINTER := idt_pointer (addr_of_IDT ops) t\<rparr>
      in do { idt_load ops (IDT_POINTER s); State_Monad.return s })"

section \<open>Descriptors as the processor reads them\<close>

text \<open>The eight bytes of a segment descriptor as one word, and the fields of such a word.\<close>

definition descriptor_word :: "GdtEntry \<Rightarrow> u64" where
  "descriptor_word e = ucast (limit_low e) OR push_bit 16 (ucast (base_low e)) OR push_bit 32 (ucast (base_middle e))
     OR push_bit 40 (ucast (access e)) OR push_bit 48 (ucast (flags_limit_high e)) OR push_bit 56 (ucast (base_high e))"

definition seg_base :: "u64 \<Rightarrow> u32" where
  "seg_base d = (ucast (drop_bit 16 d) AND mask 24) OR push_bit 24 (ucast (drop_bit 56 d))"

definition seg_limit :: "u64 \<Rightarrow> u32" where
  "seg_limit d = (ucast d AND mask 16) OR push_bit 16 (ucast (drop_bit 48 d) AND mask 4)"

definition seg_access :: "u64 \<Rightarrow> u8" where "seg_access d = ucast (drop_bit 40 d)"
definition seg_flags :: "u64 \<Rightarrow> u8" where "seg_flags d = ucast (drop_bit 52 d) AND mask 4"

lemma bit_descriptor_word:
  "bit (descriptor_word e) n \<longleftrightarrow> (if n < 16 then bit (limit_low e) n else if n < 32 then bit (base_low e) (n - 16)
     else if n < 40 then bit (base_middle e) (n - 32) else if n < 48 then bit (access e) (n - 40)
     else if n < 56 then bit (flags_limit_high e) (n - 48) else n < 64 \<and> bit (base_high e) (n - 56))"
proof -
  have b16: "bit (push_bit k (ucast (w :: u16)) :: u64) n \<longleftrightarrow> k \<le> n \<and> n < k + 16 \<and> bit w (n - k)" if "k \<le> 48" for k w
    using that bit_imp_le_length [of w "n - k"] by (auto simp: bit_push_bit_iff bit_ucast_iff)
  have b8: "bit (push_bit k (ucast (w :: u8)) :: u64) n \<longleftrightarrow> k \<le> n \<and> n < k + 8 \<and> bit w (n - k)" if "k \<le> 56" for k w
    using that bit_imp_le_length [of w "n - k"] by (auto simp: bit_push_bit_iff bit_ucast_iff)
  have "bit (ucast (limit_low e) :: u64) n \<longleftrightarrow> n < 16 \<and> bit (limit_low e) n" using b16 [of 0 "limit_low e"] by simp
  then show ?thesis unfolding descriptor_word_def bit_or_iff using b16 [of 16] b8 [of 32] b8 [of 40] b8 [of 48] b8 [of 56] by auto
qed

lemma low_bits: "(0xFFFF :: u32) = mask 16" "(0xFF :: u32) = mask 8" "(0x0F :: u32) = mask 4" "(0x0F :: u8) = mask 4" "(0xF :: u8) = mask 4"
    "(0xFFFF :: u64) = mask 16" "(0xFF :: u64) = mask 8" "(0xFFFFFFFF :: u64) = mask 32" "(0x7 :: u8) = mask 3" "(0x3 :: u8) = mask 2"
  by (simp_all add: mask_eq_exp_minus_1)

lemma bit_flags_limit:
  "bit (ucast (drop_bit 16 (l :: u32) AND 0x0F) OR push_bit 4 (f AND 0x0F) :: u8) n \<longleftrightarrow> (if n < 4 then bit l (n + 16) else n < 8 \<and> bit f (n - 4))"
  unfolding low_bits by (auto simp: bit_simps ac_simps)

lemma descriptor_fields:
  assumes "limit_low e = ucast (l AND 0xFFFF)" "base_low e = ucast (b AND 0xFFFF)" "base_middle e = ucast (drop_bit 16 b AND 0xFF)"
    "flags_limit_high e = ucast (drop_bit 16 l AND 0x0F) OR push_bit 4 (f AND 0x0F)" "base_high e = ucast (drop_bit 24 b AND 0xFF)"
  shows "seg_base (descriptor_word e) = b" "seg_limit (descriptor_word e) = take_bit 20 l" "seg_access (descriptor_word e) = access e"
    "seg_flags (descriptor_word e) = take_bit 4 f"
proof -
  have f: "bit (flags_limit_high e) n \<longleftrightarrow> (if n < 4 then bit l (n + 16) else n < 8 \<and> bit f (n - 4))" for n
    unfolding assms(4) by (rule bit_flags_limit)
  have low: "bit (limit_low e) n \<longleftrightarrow> n < 16 \<and> bit l n" for n unfolding assms(1) low_bits by (auto simp: bit_simps)
  show "seg_base (descriptor_word e) = b"
    by (rule bit_word_eqI) (auto simp: seg_base_def bit_descriptor_word bit_simps assms low_bits)
  show "seg_limit (descriptor_word e) = take_bit 20 l"
    by (rule bit_word_eqI) (auto simp: seg_limit_def bit_descriptor_word f low bit_simps)
  show "seg_access (descriptor_word e) = access e"
    by (rule bit_word_eqI) (auto simp: seg_access_def bit_descriptor_word bit_simps)
  show "seg_flags (descriptor_word e) = take_bit 4 f"
    by (rule bit_word_eqI) (auto simp: seg_flags_def bit_descriptor_word f bit_simps)
qed


text \<open>
  The descriptors of a table in memory, one word each and two for the task state segment; a selector holds the index
  in its upper 13 bits and the privilege level in its lower two.
\<close>

definition table_words :: "Gdt \<Rightarrow> u64 list" where
  "table_words g = map descriptor_word [gdt_null g, kernel_code g, kernel_data g, user_data g, user_code g, tss_low (gdt_tss g)]
     @ [join_u32 (tss_reserved (gdt_tss g)) (base_upper (gdt_tss g))]"

definition selected :: "Gdt \<Rightarrow> u16 \<Rightarrow> u64" where
  "selected g sel = table_words g ! unat (drop_bit 3 sel)"

definition tss_base :: "u64 \<Rightarrow> u64 \<Rightarrow> u64" where
  "tss_base lo hi = join_u32 (ucast hi) (seg_base lo)"

lemma gdt_new_fields:
  "seg_base (descriptor_word (GdtEntry_new b l a f)) = b" "seg_limit (descriptor_word (GdtEntry_new b l a f)) = take_bit 20 l"
  "seg_access (descriptor_word (GdtEntry_new b l a f)) = a" "seg_flags (descriptor_word (GdtEntry_new b l a f)) = take_bit 4 f"
  using descriptor_fields [of "GdtEntry_new b l a f" l b f] by (simp_all add: GdtEntry_new_def)

lemma tss_new_fields:
  fixes a :: u64 and n :: u32
  defines "e \<equiv> TssEntry_new a n"
  shows "tss_base (descriptor_word (tss_low e)) (join_u32 (tss_reserved e) (base_upper e)) = a"
    and "seg_limit (descriptor_word (tss_low e)) = take_bit 20 (n - 1)" and "seg_access (descriptor_word (tss_low e)) = 0x89"
proof -
  have m: "(ucast (a AND 0xFFFF) :: u16) = ucast (ucast a AND 0xFFFF :: u32)" "(ucast (drop_bit 16 a AND 0xFF) :: u8) = ucast (drop_bit 16 (ucast a :: u32) AND 0xFF)"
    "(ucast (drop_bit 24 a AND 0xFF) :: u8) = ucast (drop_bit 24 (ucast a :: u32) AND 0xFF)"
    unfolding low_bits by (rule bit_word_eqI; auto simp: bit_simps)+
  note f = descriptor_fields [of "tss_low e" "n - 1" "ucast a" 0]
  have b: "seg_base (descriptor_word (tss_low e)) = ucast a"
    by (rule f(1)) (simp_all add: e_def TssEntry_new_def Let_def m)
  show "seg_limit (descriptor_word (tss_low e)) = take_bit 20 (n - 1)"
    by (rule f(2)) (simp_all add: e_def TssEntry_new_def Let_def m)
  have "seg_access (descriptor_word (tss_low e)) = access (tss_low e)"
    by (rule f(3)) (simp_all add: e_def TssEntry_new_def Let_def m)
  then show "seg_access (descriptor_word (tss_low e)) = 0x89" by (simp add: e_def TssEntry_new_def Let_def)
  have "ucast (join_u32 0 (ucast (drop_bit 32 a AND 0xFFFFFFFF))) = high_half a"
    unfolding low_bits by (rule bit_word_eqI) (auto simp: bit_join_u32 high_half_def bit_simps)
  then show "tss_base (descriptor_word (tss_low e)) (join_u32 (tss_reserved e) (base_upper e)) = a"
    unfolding tss_base_def b by (simp add: e_def TssEntry_new_def Let_def join_halves)
qed

section \<open>Gates as the processor reads them\<close>

definition gate_low :: "IdtEntry \<Rightarrow> u64" where
  "gate_low e = ucast (offset_low e) OR push_bit 16 (ucast (gate_selector e)) OR push_bit 32 (ucast (gate_ist e))
     OR push_bit 40 (ucast (type_attr e)) OR push_bit 48 (ucast (offset_mid e))"

definition gate_high :: "IdtEntry \<Rightarrow> u64" where
  "gate_high e = join_u32 (gate_reserved e) (offset_high e)"

record Gate =
  g_present :: bool
  g_handler :: u64
  g_selector :: u16
  g_ist :: u8
  g_type :: u8
  g_dpl :: u8

definition decode_gate :: "u64 \<Rightarrow> u64 \<Rightarrow> Gate" where
  "decode_gate lo hi = \<lparr>g_present = bit lo 47, g_handler = (lo AND mask 16) OR (push_bit 16 (drop_bit 48 lo)) OR push_bit 32 hi,
     g_selector = ucast (drop_bit 16 lo), g_ist = ucast (drop_bit 32 lo) AND mask 3, g_type = ucast (drop_bit 40 lo) AND mask 4,
     g_dpl = ucast (drop_bit 45 lo) AND mask 2\<rparr>"

definition gate_of :: "IdtEntry \<Rightarrow> Gate" where
  "gate_of e = decode_gate (gate_low e) (gate_high e)"

lemma bit_gate_low:
  "bit (gate_low e) n \<longleftrightarrow> (if n < 16 then bit (offset_low e) n else if n < 32 then bit (gate_selector e) (n - 16)
     else if n < 40 then bit (gate_ist e) (n - 32) else if n < 48 then bit (type_attr e) (n - 40)
     else n < 64 \<and> bit (offset_mid e) (n - 48))"
proof -
  have b16: "bit (push_bit k (ucast (w :: u16)) :: u64) n \<longleftrightarrow> k \<le> n \<and> n < k + 16 \<and> bit w (n - k)" if "k \<le> 48" for k w
    using that bit_imp_le_length [of w "n - k"] by (auto simp: bit_push_bit_iff bit_ucast_iff)
  have b8: "bit (push_bit k (ucast (w :: u8)) :: u64) n \<longleftrightarrow> k \<le> n \<and> n < k + 8 \<and> bit w (n - k)" if "k \<le> 56" for k w
    using that bit_imp_le_length [of w "n - k"] by (auto simp: bit_push_bit_iff bit_ucast_iff)
  have "bit (ucast (offset_low e) :: u64) n \<longleftrightarrow> n < 16 \<and> bit (offset_low e) n" using b16 [of 0 "offset_low e"] by simp
  then show ?thesis unfolding gate_low_def bit_or_iff using b16 [of 16] b8 [of 32] b8 [of 40] b16 [of 48] by auto
qed

text \<open>
  The handler address is split over three fields; the processor puts it together again, whatever was in the entry before.
\<close>

lemma gate_of_set_handler:
  "gate_of (set_handler h sel ist ty dpl e) =
     \<lparr>g_present = True, g_handler = h, g_selector = sel, g_ist = take_bit 3 ist, g_type = take_bit 4 ty, g_dpl = take_bit 2 dpl\<rparr>"
proof -
  let ?e = "set_handler h sel ist ty dpl e"
  have t: "bit (type_attr ?e) n \<longleftrightarrow> (if n < 4 then bit ty n else if n = 5 \<or> n = 6 then bit dpl (n - 5) else n = 7)" for n
  proof -
    have "bit (push_bit 7 1 :: u8) n \<longleftrightarrow> n = 7" by (auto simp: bit_simps simp del: push_bit_of_1)
    moreover have "bit (push_bit 5 (dpl AND mask 2)) n \<longleftrightarrow> (n = 5 \<or> n = 6) \<and> bit dpl (n - 5)" by (auto simp: bit_simps)
    moreover have "bit (ty AND mask 4) n \<longleftrightarrow> n < 4 \<and> bit ty n" by (auto simp: bit_simps)
    moreover have "type_attr ?e = push_bit 7 1 OR push_bit 5 (dpl AND mask 2) OR (ty AND mask 4)" unfolding low_bits [symmetric] by (simp add: set_handler_def)
    ultimately show ?thesis by (simp only: bit_or_iff) auto
  qed
  have o: "bit (offset_low ?e) n \<longleftrightarrow> n < 16 \<and> bit h n" "bit (offset_mid ?e) n \<longleftrightarrow> n < 16 \<and> bit h (n + 16)"
    "bit (offset_high ?e) n \<longleftrightarrow> n < 32 \<and> bit h (n + 32)" "bit (gate_ist ?e) n \<longleftrightarrow> n < 3 \<and> bit ist n" for n
    unfolding set_handler_def IdtEntry.simps low_bits by (auto simp: bit_simps ac_simps)
  note b = bit_gate_low t o bit_simps
  have "bit (gate_low ?e) 47" by (simp add: bit_gate_low t)
  moreover have "(gate_low ?e AND mask 16) OR (push_bit 16 (drop_bit 48 (gate_low ?e))) OR push_bit 32 (gate_high ?e) = h"
  proof (rule bit_word_eqI)
    fix n assume "n < LENGTH(64)"
    then consider "n < 16" | "16 \<le> n" "n < 32" | "32 \<le> n" "n < 64" by fastforce
    then show "bit ((gate_low ?e AND mask 16) OR (push_bit 16 (drop_bit 48 (gate_low ?e))) OR push_bit 32 (gate_high ?e)) n = bit h n"
      by cases (auto simp: b gate_high_def bit_join_u32)
  qed
  moreover have "(ucast (drop_bit 16 (gate_low ?e)) :: u16) = sel"
    by (rule bit_word_eqI) (auto simp: b set_handler_def)
  moreover have "(ucast (drop_bit 32 (gate_low ?e)) AND mask 3 :: u8) = take_bit 3 ist" by (rule bit_word_eqI) (auto simp: b)
  moreover have "(ucast (drop_bit 40 (gate_low ?e)) AND mask 4 :: u8) = take_bit 4 ty" by (rule bit_word_eqI) (auto simp: b)
  moreover have "(ucast (drop_bit 45 (gate_low ?e)) AND mask 2 :: u8) = take_bit 2 dpl"
  proof (rule bit_word_eqI)
    fix n assume "n < LENGTH(8)"
    then consider "n = 0" | "n = 1" | "2 \<le> n" by linarith
    then show "bit (ucast (drop_bit 45 (gate_low ?e)) AND mask 2 :: u8) n = bit (take_bit 2 dpl) n"
      by cases (simp_all add: b)
  qed
  ultimately show ?thesis by (simp add: gate_of_def decode_gate_def)
qed

section \<open>The tables after initialisation\<close>

definition idt_gate :: "Idt \<Rightarrow> nat \<Rightarrow> Gate" where
  "idt_gate t v = gate_of (idt_entries t ! v)"

lemma gate_step:
  assumes "length (idt_entries t) = 256" "v < 256"
  shows "length (idt_entries (set_interrupt_gate (of_nat v) h sel ist t)) = 256" "length (idt_entries (set_trap_gate (of_nat v) h sel ist t)) = 256"
    and "idt_gate (set_interrupt_gate (of_nat v) h sel ist t) k = (if k = v then \<lparr>g_present = True, g_handler = h, g_selector = sel, g_ist = take_bit 3 ist, g_type = 0xE, g_dpl = 0\<rparr> else idt_gate t k)"
    and "idt_gate (set_trap_gate (of_nat v) h sel ist t) k = (if k = v then \<lparr>g_present = True, g_handler = h, g_selector = sel, g_ist = take_bit 3 ist, g_type = 0xF, g_dpl = 0\<rparr> else idt_gate t k)"
proof -
  have u: "unat (of_nat v :: usize) = v" "(of_nat v :: usize) < 256" using assms(2) by (simp_all add: unat_of_nat word_less_nat_alt)
  have t: "take_bit 4 (0xE :: u8) = 0xE" "take_bit 4 (0xF :: u8) = 0xF" "take_bit 2 (0 :: u8) = 0" by simp_all
  show "length (idt_entries (set_interrupt_gate (of_nat v) h sel ist t)) = 256" "length (idt_entries (set_trap_gate (of_nat v) h sel ist t)) = 256"
    using assms(1) by (simp_all add: set_interrupt_gate_def set_trap_gate_def)
  show "idt_gate (set_interrupt_gate (of_nat v) h sel ist t) k = (if k = v then \<lparr>g_present = True, g_handler = h, g_selector = sel, g_ist = take_bit 3 ist, g_type = 0xE, g_dpl = 0\<rparr> else idt_gate t k)"
    "idt_gate (set_trap_gate (of_nat v) h sel ist t) k = (if k = v then \<lparr>g_present = True, g_handler = h, g_selector = sel, g_ist = take_bit 3 ist, g_type = 0xF, g_dpl = 0\<rparr> else idt_gate t k)"
    using assms u
    by (simp_all add: idt_gate_def set_interrupt_gate_def set_trap_gate_def entry_set_interrupt_gate_def entry_set_trap_gate_def gate_of_set_handler t)
qed

lemma gate_fold:
  assumes "length (idt_entries t) = 256" "\<forall>v\<in>set vs. v < 256"
  shows "length (idt_entries (fold (\<lambda>v. set_interrupt_gate (of_nat v) (f v) sel 0) vs t)) = 256
    \<and> idt_gate (fold (\<lambda>v. set_interrupt_gate (of_nat v) (f v) sel 0) vs t) k
      = (if k \<in> set vs then \<lparr>g_present = True, g_handler = f k, g_selector = sel, g_ist = 0, g_type = 0xE, g_dpl = 0\<rparr> else idt_gate t k)"
  using assms
proof (induction vs arbitrary: t)
  case (Cons v vs)
  then show ?case using gate_step [OF Cons.prems(1), of v "f v" sel 0] by auto
qed simp

text \<open>What the vectors of the processor are meant to do: the stack they switch to and whether they leave interrupts on.\<close>

definition vector_ist :: "nat \<Rightarrow> u8" where
  "vector_ist v = (if v = 8 then 1 else if v = 2 then 2 else if v = 18 then 3 else if v = 14 then 5 else 0)"

definition vector_gate :: "'h cpu_ops \<Rightarrow> nat \<Rightarrow> Gate" where
  "vector_gate ops v = \<lparr>g_present = True, g_handler = (if v < 32 then isr ops v else irq ops (v - 32)), g_selector = KERNEL_CODE_SELECTOR,
     g_ist = vector_ist v, g_type = (if v \<in> {1, 3, 4} then 0xF else 0xE), g_dpl = 0\<rparr>"

text \<open>The gates below \<open>n\<close> have been filled in.\<close>

definition filled :: "'h cpu_ops \<Rightarrow> Idt \<Rightarrow> nat \<Rightarrow> Idt \<Rightarrow> bool" where
  "filled ops t0 n t \<longleftrightarrow> length (idt_entries t) = 256 \<and> (\<forall>k. idt_gate t k = (if k < n then vector_gate ops k else idt_gate t0 k))"

lemma filled_step:
  assumes f: "filled ops t0 n t" and n: "n < 48" and m: "m = n + 1" and w: "w = of_nat n"
    and h: "h = (if n < 32 then isr ops n else irq ops (n - 32))" and i: "ist = vector_ist n"
  shows "n \<notin> {1, 3, 4} \<Longrightarrow> filled ops t0 m (set_interrupt_gate w h 0x08 ist t)"
    and "n \<in> {1, 3, 4} \<Longrightarrow> filled ops t0 m (set_trap_gate w h 0x08 ist t)"
proof -
  have l: "length (idt_entries t) = 256" and v: "n < 256" using f n by (simp_all add: filled_def)
  have t: "take_bit 3 (vector_ist n) = vector_ist n" by (simp add: vector_ist_def)
  show "filled ops t0 m (set_interrupt_gate w h 0x08 ist t)" if "n \<notin> {1, 3, 4}"
    using f that gate_step [OF l v] by (auto simp: filled_def i t m w vector_gate_def h KERNEL_CODE_SELECTOR_def)
  show "filled ops t0 m (set_trap_gate w h 0x08 ist t)" if "n \<in> {1, 3, 4}"
    using f that gate_step [OF l v] by (auto simp: filled_def i t m w vector_gate_def h KERNEL_CODE_SELECTOR_def)
qed

lemma filled_range:
  assumes "filled ops t0 a t" "a \<le> b" "b \<le> 48" "\<And>v. a \<le> v \<Longrightarrow> v < b \<Longrightarrow> h v = (if v < 32 then isr ops v else irq ops (v - 32))"
    and "\<And>v. a \<le> v \<Longrightarrow> v < b \<Longrightarrow> vector_ist v = 0 \<and> v \<notin> {1, 3, 4}"
  shows "filled ops t0 b (fold (\<lambda>v. set_interrupt_gate (of_nat v) (h v) 0x08 0) [a..<b] t)"
  using assms(2-)
proof (induction b)
  case 0
  then show ?case using assms(1) by simp
next
  case (Suc b)
  show ?case
  proof (cases "a = Suc b")
    case False
    then have "a \<le> b" using Suc.prems(1) by simp
    then show ?thesis using Suc filled_step(1) [OF Suc.IH _ refl refl, of "h b" 0] by simp
  qed (use assms(1) in simp)
qed

lemma fill_idt_gates:
  assumes "length (idt_entries t) = 256"
  shows "filled ops t 48 (fill_idt ops t)"
  unfolding fill_idt_def Let_def
  by (rule filled_range [where a = 32], rule filled_range [where a = 19], rule filled_step(1) [where n = 18], rule filled_range [where a = 15],
      rule filled_step(1) [where n = 14], rule filled_range [where a = 9], rule filled_step(1) [where n = 8], rule filled_step(1) [where n = 7],
      rule filled_step(1) [where n = 6], rule filled_step(1) [where n = 5], rule filled_step(2) [where n = 4], rule filled_step(2) [where n = 3],
      rule filled_step(1) [where n = 2], rule filled_step(2) [where n = 1], rule filled_step(1) [where n = 0])
    (auto simp: vector_ist_def filled_def assms)

text \<open>The tables once the kernel has loaded both.\<close>

definition loaded :: "'h cpu_ops \<Rightarrow> 'h \<Rightarrow> tables" where
  "loaded ops h = fst (run_state (do { s \<leftarrow> gdt_init ops tables_new; idt_init ops s }) h)"

lemma loaded_tables:
  "GDT (loaded ops h) = set_tss (addr_of_TSS ops) Gdt_new" "IDT (loaded ops h) = fill_idt ops Idt_new"
  "TSS (loaded ops h) = TSS_new\<lparr>rsp0 := 0x900000, ist1 := 0x8F0000, ist2 := 0x8E0000, ist3 := 0x8D0000, ist5 := 0x8B0000, iopb_offset := 104\<rparr>"
  "gp_limit (GDT_POINTER (loaded ops h)) = 55" "gp_base (GDT_POINTER (loaded ops h)) = addr_of_GDT ops"
  "ip_limit (IDT_POINTER (loaded ops h)) = 4095" "ip_base (IDT_POINTER (loaded ops h)) = addr_of_IDT ops"
  by (simp_all add: loaded_def gdt_init_def idt_init_def tables_new_def Let_def split_def TSS_SIZE_def gdt_pointer_def GDT_SIZE_def idt_pointer_def IDT_SIZE_def)

lemma loaded_gates: "idt_gate (IDT (loaded ops h)) v = (if v < 48 then vector_gate ops v else idt_gate Idt_new v)"
  using fill_idt_gates [of Idt_new ops] unfolding loaded_tables by (simp add: filled_def Idt_new_def)

lemma absent_gate: "v < 256 \<Longrightarrow> \<not> g_present (idt_gate Idt_new v)"
  by (simp add: idt_gate_def Idt_new_def gate_of_def decode_gate_def bit_gate_low IdtEntry_new_def)

text \<open>
  C24: After initialisation the processor finds what the code means it to find: the selectors of the kernel and of user programs name
  64-bit code and data segments of the right privilege, the one of the task names a descriptor with the address and the last byte of the task state segment,
  the table registers cover exactly the tables, and exactly the vectors below 48 have a gate, each to its own entry
  point in the kernel code segment, closed to user programs and with the interrupt stack meant for it.
\<close>

theorem descriptor_tables_correct:
  "let s = loaded ops h; g = GDT s in
     (seg_access (selected g KERNEL_CODE_SELECTOR), seg_flags (selected g KERNEL_CODE_SELECTOR)) = (0x9A, 0b0010)
     \<and> (seg_access (selected g KERNEL_DATA_SELECTOR), seg_flags (selected g KERNEL_DATA_SELECTOR)) = (0x92, 0)
     \<and> (seg_access (selected g USER_CODE_SELECTOR), seg_flags (selected g USER_CODE_SELECTOR)) = (0xFA, 0b0010)
     \<and> (seg_access (selected g USER_DATA_SELECTOR), seg_flags (selected g USER_DATA_SELECTOR)) = (0xF2, 0)
     \<and> seg_access (selected g TSS_SELECTOR) = 0x89 \<and> seg_limit (selected g TSS_SELECTOR) = 103
     \<and> tss_base (selected g TSS_SELECTOR) (selected g (TSS_SELECTOR + 8)) = addr_of_TSS ops
     \<and> unat (gp_limit (GDT_POINTER s)) + 1 = 8 * length (table_words g)
     \<and> unat (ip_limit (IDT_POINTER s)) + 1 = 16 * length (idt_entries Idt_new)
     \<and> filter (\<lambda>v. g_present (idt_gate (IDT s) v)) [0..<256] = [0..<48]
     \<and> map (idt_gate (IDT s)) [0..<48] = map (vector_gate ops) [0..<48]"
proof -
  let ?g = "set_tss (addr_of_TSS ops) Gdt_new"
  note sel = selected_def table_words_def set_tss_def Gdt_new_def KERNEL_CODE_SELECTOR_def KERNEL_DATA_SELECTOR_def USER_CODE_SELECTOR_def
    USER_DATA_SELECTOR_def TSS_SELECTOR_def kernel_code_segment_def kernel_data_segment_def user_code_segment_def user_data_segment_def
  have k: "seg_access (selected ?g KERNEL_CODE_SELECTOR) = 0x9A" "seg_flags (selected ?g KERNEL_CODE_SELECTOR) = 0b0010"
    "seg_access (selected ?g KERNEL_DATA_SELECTOR) = 0x92" "seg_flags (selected ?g KERNEL_DATA_SELECTOR) = 0"
    "seg_access (selected ?g USER_CODE_SELECTOR) = 0xFA" "seg_flags (selected ?g USER_CODE_SELECTOR) = 0b0010"
    "seg_access (selected ?g USER_DATA_SELECTOR) = 0xF2" "seg_flags (selected ?g USER_DATA_SELECTOR) = 0"
    by (simp_all add: sel gdt_new_fields)
  have t: "seg_access (selected ?g TSS_SELECTOR) = 0x89" "seg_limit (selected ?g TSS_SELECTOR) = 103"
    "tss_base (selected ?g TSS_SELECTOR) (selected ?g (TSS_SELECTOR + 8)) = addr_of_TSS ops"
    using tss_new_fields [of "addr_of_TSS ops" "ucast TSS_SIZE"] by (simp_all add: sel TSS_SIZE_def)
  have l: "length (table_words ?g) = 7" by (simp add: table_words_def)
  have p: "filter (\<lambda>v. g_present (idt_gate (IDT (loaded ops h)) v)) [0..<256] = [0..<48]"
  proof -
    have u: "[0..<256 :: nat] = [0..<48] @ [48..<256]" using upt_add_eq_append [of 0 48 208] by (simp del: upt_rec_numeral)
    have "filter (\<lambda>v. g_present (idt_gate (IDT (loaded ops h)) v)) [0..<48] = [0..<48]"
      by (rule filter_True) (simp add: loaded_gates vector_gate_def del: upt_rec_numeral)
    moreover have "filter (\<lambda>v. g_present (idt_gate (IDT (loaded ops h)) v)) [48..<256] = []"
      by (rule filter_False) (simp add: loaded_gates absent_gate del: upt_rec_numeral)
    ultimately show ?thesis unfolding u filter_append by (simp del: upt_rec_numeral)
  qed
  have m: "map (idt_gate (IDT (loaded ops h))) [0..<48] = map (vector_gate ops) [0..<48]"
    by (rule map_cong [OF refl]) (simp add: loaded_gates del: upt_rec_numeral)
  show ?thesis unfolding Let_def p m unfolding loaded_tables k t l by (simp add: Idt_new_def del: upt_rec_numeral)
qed

section \<open>The stacks of exceptions\<close>

text \<open>The 64 KiB a stack grows down through from its top.\<close>

definition stack_area :: "u64 \<Rightarrow> u64 set" where
  "stack_area t = {a. t - 0x10000 \<le> a \<and> a < t}"

definition exception_stack :: "tables \<Rightarrow> nat \<Rightarrow> u64" where
  "exception_stack s v = get_ist (ucast (g_ist (idt_gate (IDT s) v))) (TSS s)"

lemma exception_stack_values:
  assumes "v < 48" "g_ist (idt_gate (IDT (loaded ops h)) v) \<noteq> 0"
  shows "(v, exception_stack (loaded ops h) v) \<in> {(2, 0x8E0000), (8, 0x8F0000), (14, 0x8B0000), (18, 0x8D0000)}"
proof -
  have g: "g_ist (idt_gate (IDT (loaded ops h)) v) = vector_ist v" using assms(1) by (simp add: loaded_gates vector_gate_def)
  then have "v = 2 \<or> v = 8 \<or> v = 14 \<or> v = 18" using assms(2) by (auto simp: vector_ist_def split: if_splits)
  then show ?thesis unfolding exception_stack_def unfolding g unfolding loaded_tables by (auto simp: vector_ist_def get_ist_def)
qed



text \<open>The page fault, whose handler tests for an overflow of the kernel stack.\<close>

definition demo_cpu_ops :: "unit cpu_ops" where
  "demo_cpu_ops = \<lparr>gdt_load = \<lambda>p. State_Monad.return (), tss_load = \<lambda>sel. State_Monad.return (), reload_segments = State_Monad.return (),
     idt_load = \<lambda>p. State_Monad.return (), addr_of_TSS = 0x180000, addr_of_GDT = 0x181000, addr_of_IDT = 0x182000,
     isr = \<lambda>v. 0x110000 + 16 * of_nat v, irq = \<lambda>v. 0x120000 + 16 * of_nat v\<rparr>"


end
