(* ===== verification/Kernel_Rt.thy ===== *)
theory Kernel_Rt
  imports Heap_Correct
begin

text \<open>
  The runtime of the kernel in \<^verbatim>\<open>main.rs\<close>: the memory functions the compiler calls, the early heap with its atomic offset, and the global
  allocator on the early heap and the kernel heap.
\<close>

unbundle bit_operations_syntax

section \<open>Memory functions\<close>

definition memcpy :: "u64 \<Rightarrow> u64 \<Rightarrow> usize \<Rightarrow> memory \<Rightarrow> u64 \<times> memory" where
  "memcpy dest src n m = (dest, fold (\<lambda>i m. m(dest + i := m (src + i))) (range_w 0 n) m)"

definition memset :: "u64 \<Rightarrow> i32 \<Rightarrow> usize \<Rightarrow> memory \<Rightarrow> u64 \<times> memory" where
  "memset dest c n m = (dest, fold (\<lambda>i m. m(dest + i := ucast c)) (range_w 0 n) m)"

primrec memcmp_loop :: "memory \<Rightarrow> u64 \<Rightarrow> u64 \<Rightarrow> usize list \<Rightarrow> i32" where
  "memcmp_loop m s1 s2 [] = 0"
| "memcmp_loop m s1 s2 (i # is') =
     (let a = m (s1 + i); b = m (s2 + i) in if a \<noteq> b then ucast a - ucast b else memcmp_loop m s1 s2 is')"

definition memcmp :: "u64 \<Rightarrow> u64 \<Rightarrow> usize \<Rightarrow> memory \<Rightarrow> i32" where
  "memcmp s1 s2 n m = memcmp_loop m s1 s2 (range_w 0 n)"

definition bcmp :: "u64 \<Rightarrow> u64 \<Rightarrow> usize \<Rightarrow> memory \<Rightarrow> i32" where
  "bcmp s1 s2 n m = memcmp_loop m s1 s2 (range_w 0 n)"

definition memmove :: "u64 \<Rightarrow> u64 \<Rightarrow> usize \<Rightarrow> memory \<Rightarrow> u64 \<times> memory" where
  "memmove dest src n m =
     (if dest < src then memcpy dest src n m
      else (dest, fold (\<lambda>i m. m(dest + i := m (src + i))) (rev (range_w 0 n)) m))"

section \<open>The early heap\<close>

definition EARLY_HEAP_SIZE :: usize where "EARLY_HEAP_SIZE = 256 * 1024"

text \<open>One turn of the loop: null, or the offset of the block and the offset to swap in.\<close>

definition early_try :: "Layout \<Rightarrow> usize \<Rightarrow> (usize \<times> usize) option" where
  "early_try layout current =
     (let align = max (layout_align layout) 16;
          bytes = layout_size layout;
          aligned = (current + align - 1) AND NOT (align - 1);
          next' = saturating_add aligned bytes
      in if next' > EARLY_HEAP_SIZE then None else Some (aligned, next'))"

text \<open>
  The state of the kernel with the static variables of the allocator. On one processor the exchange finds the offset as it
  was loaded, and the loop ends in its first turn; the steps of several processors are below.
\<close>

record rt_machine = heap_machine +
  EARLY_HEAP_OFFSET :: usize

definition alloc_early :: "u64 \<Rightarrow> Layout \<Rightarrow> 'a rt_machine_scheme \<Rightarrow> u64 \<times> 'a rt_machine_scheme" where
  "alloc_early early layout s =
     (case early_try layout (EARLY_HEAP_OFFSET s) of
        None \<Rightarrow> (0, s)
      | Some (aligned, next') \<Rightarrow> (early + aligned, s\<lparr>EARLY_HEAP_OFFSET := next'\<rparr>))"

definition kernel_alloc :: "u64 \<Rightarrow> u64 \<Rightarrow> Layout \<Rightarrow> 'a rt_machine_scheme \<Rightarrow> (u64 \<times> 'a rt_machine_scheme) outcome" where
  "kernel_alloc arena early layout s =
     (if heap_is_initialized_c s \<noteq> 0
      then case heap_alloc_c arena (layout_size layout) (layout_align layout) s of
             Returns (p, s) \<Rightarrow> if p \<noteq> 0 then Returns (p, s) else Returns (alloc_early early layout s)
           | Panics \<Rightarrow> Panics
           | Spins \<Rightarrow> Spins
      else Returns (alloc_early early layout s))"

definition kernel_dealloc :: "u64 \<Rightarrow> u64 \<Rightarrow> Layout \<Rightarrow> 'a rt_machine_scheme \<Rightarrow> (unit \<times> 'a rt_machine_scheme) outcome" where
  "kernel_dealloc arena p layout s = (if heap_is_initialized_c s \<noteq> 0 then heap_dealloc_c arena p s else Returns ((), s))"

definition kmalloc :: "u64 \<Rightarrow> u64 \<Rightarrow> usize \<Rightarrow> 'a rt_machine_scheme \<Rightarrow> (u64 \<times> 'a rt_machine_scheme) outcome" where
  "kmalloc arena early bytes s =
     (case Layout_from_size_align bytes 16 of Ok layout \<Rightarrow> kernel_alloc arena early layout s | Err u \<Rightarrow> Returns (0, s))"

definition kfree :: "u64 \<Rightarrow> u64 \<Rightarrow> 'a rt_machine_scheme \<Rightarrow> (unit \<times> 'a rt_machine_scheme) outcome" where
  "kfree arena p s = (if heap_is_initialized_c s \<noteq> 0 then heap_dealloc_c arena p s else Returns ((), s))"

definition rust_alloc :: "u64 \<Rightarrow> u64 \<Rightarrow> usize \<Rightarrow> usize \<Rightarrow> 'a rt_machine_scheme \<Rightarrow> (u64 \<times> 'a rt_machine_scheme) outcome" where
  "rust_alloc arena early bytes align s =
     (case Layout_from_size_align bytes align of Ok l \<Rightarrow> kernel_alloc arena early l s | Err u \<Rightarrow> Returns (0, s))"

definition rust_dealloc :: "u64 \<Rightarrow> u64 \<Rightarrow> usize \<Rightarrow> usize \<Rightarrow> 'a rt_machine_scheme \<Rightarrow> (unit \<times> 'a rt_machine_scheme) outcome" where
  "rust_dealloc arena p bytes align s =
     (case Layout_from_size_align bytes align of Ok l \<Rightarrow> kernel_dealloc arena p l s | Err u \<Rightarrow> Returns ((), s))"

definition rust_realloc ::
    "u64 \<Rightarrow> u64 \<Rightarrow> u64 \<Rightarrow> usize \<Rightarrow> usize \<Rightarrow> usize \<Rightarrow> 'a rt_machine_scheme \<Rightarrow> (u64 \<times> 'a rt_machine_scheme) outcome" where
  "rust_realloc arena early p old_size align new_size s =
     (case Layout_from_size_align new_size align of
        Err u \<Rightarrow> Returns (0, s)
      | Ok new_layout \<Rightarrow>
          (case rust_alloc arena early new_size align s of
             Returns (new_p, s) \<Rightarrow>
               if new_p \<noteq> 0
               then let copy_size = min old_size new_size;
                        s = s\<lparr>mem := copy_bytes (mem s) p new_p (unat copy_size)\<rparr>
                    in case Layout_from_size_align old_size align of
                         Ok l \<Rightarrow> (case rust_dealloc arena p old_size align s of
                            Returns (u, s) \<Rightarrow> Returns (new_p, s) | Panics \<Rightarrow> Panics | Spins \<Rightarrow> Spins)
                       | Err u \<Rightarrow> Returns (new_p, s)
               else Returns (new_p, s)
           | Panics \<Rightarrow> Panics
           | Spins \<Rightarrow> Spins))"

definition rust_alloc_zeroed :: "u64 \<Rightarrow> u64 \<Rightarrow> usize \<Rightarrow> usize \<Rightarrow> 'a rt_machine_scheme \<Rightarrow> (u64 \<times> 'a rt_machine_scheme) outcome" where
  "rust_alloc_zeroed arena early bytes align s =
     (case rust_alloc arena early bytes align s of
        Returns (p, s) \<Rightarrow> if p \<noteq> 0 then Returns (p, s\<lparr>mem := write_bytes (mem s) p 0 (unat bytes)\<rparr>) else Returns (p, s)
      | Panics \<Rightarrow> Panics
      | Spins \<Rightarrow> Spins)"

section \<open>Copying\<close>

text \<open>Bytes copied so far: those with an index in \<open>K\<close>.\<close>

definition copied :: "memory \<Rightarrow> u64 \<Rightarrow> u64 \<Rightarrow> nat set \<Rightarrow> memory" where
  "copied m dest src K = (\<lambda>x. if unat (x - dest) \<in> K then m (src + (x - dest)) else m x)"

lemma copied_step:
  assumes "unat (w :: u64) = k" "unat (src + w - dest) \<notin> K"
  shows "(copied m dest src K)(dest + w := copied m dest src K (src + w)) = copied m dest src (insert k K)"
proof
  fix x
  have c: "copied m dest src K (src + w) = m (src + w)" using assms(2) by (simp add: copied_def)
  have "unat (x - dest) = k \<longleftrightarrow> x = dest + w" using assms(1) by (metis add.commute add_diff_cancel_left' diff_add_cancel word_unat_eq_iff)
  then show "((copied m dest src K)(dest + w := copied m dest src K (src + w))) x = copied m dest src (insert k K) x"
    unfolding c by (auto simp: copied_def)
qed

lemma index_gap:
  assumes "unat dest + n \<le> 2 ^ 64" "unat src + n \<le> 2 ^ 64" "i < n" "unat (src + word_of_nat i - dest :: u64) = j" "j < n"
  shows "unat src + i = unat dest + j"
proof -
  have i: "unat (src + word_of_nat i) = unat src + i"
    using assms(2,3) by (simp add: unat_word_ariths unat_of_nat) 
  have "src + word_of_nat i = dest + word_of_nat j" proof -
    have "word_of_nat j = src + word_of_nat i - dest" unfolding assms(4) [symmetric] by simp
    then show ?thesis by simp
  qed
  moreover have "unat (dest + word_of_nat j) = unat dest + j"
    using assms(1,5) by (simp add: unat_word_ariths unat_of_nat)
  ultimately show ?thesis using i by simp
qed


lemma copy_up:
  assumes b: "unat dest + n \<le> 2 ^ 64" "unat src + n \<le> 2 ^ 64" and lt: "unat dest < unat src"
  shows "k \<le> n \<Longrightarrow> fold (\<lambda>i m. m(dest + i := m (src + i))) (map word_of_nat [0..<k]) m = copied m dest src {..<k}"
proof (induction k)
  case 0
  show ?case by (simp add: copied_def)
next
  case (Suc k)
  have n: "n \<le> 2 ^ 64" using b by linarith
  have u: "unat (word_of_nat k :: u64) = k" using Suc.prems n by (simp add: unat_of_nat)
  have "unat (src + word_of_nat k - dest) \<notin> {..<k}"
  proof
    assume "unat (src + word_of_nat k - dest) \<in> {..<k}"
    then obtain j where j: "unat (src + word_of_nat k - dest) = j" "j < k" by blast
    then have "unat src + k = unat dest + j" using Suc.prems by (intro index_gap [OF b]) auto
    then show False using lt j(2) by linarith
  qed
  from copied_step [OF u this] show ?case using Suc by (simp add: lessThan_Suc del: fun_upd_apply)
qed

lemma copy_down:
  assumes b: "unat dest + n \<le> 2 ^ 64" "unat src + n \<le> 2 ^ 64" and ge: "unat src \<le> unat dest"
  shows "k \<le> n \<Longrightarrow> fold (\<lambda>i m. m(dest + i := m (src + i))) (map word_of_nat (rev [n - k..<n])) m = copied m dest src {n - k..<n}"
proof (induction k)
  case 0
  show ?case by (simp add: copied_def)
next
  case (Suc k)
  obtain i where i: "i = n - Suc k" by blast
  have r: "[i..<n] = i # [n - k..<n]" "{i..<n} = insert i {n - k..<n}"
    using Suc.prems unfolding i by (simp_all add: upt_conv_Cons Suc_diff_Suc) auto
  have n: "n \<le> 2 ^ 64" using b by linarith
  have "i < 2 ^ 64" using Suc.prems n i by linarith
  then have u: "unat (word_of_nat i :: u64) = i" by (simp add: unat_of_nat)
  have "unat (src + word_of_nat i - dest) \<notin> {n - k..<n}"
  proof
    assume "unat (src + word_of_nat i - dest) \<in> {n - k..<n}"
    then obtain j where j: "unat (src + word_of_nat i - dest) = j" "n - k \<le> j" "j < n" by auto
    then have "unat src + i = unat dest + j" using Suc.prems i by (intro index_gap [OF b]) auto
    then show False using ge j(2) Suc.prems i by linarith
  qed
  from copied_step [OF u this] show ?case using Suc unfolding i [symmetric] r by (simp del: fun_upd_apply)
qed

lemma copied_all: "copied m dest src {..<n} = copy_bytes m src dest n"
  by (simp add: copied_def copy_bytes_def in_bytes_def)

text \<open>
  C17: \<^verbatim>\<open>memmove\<close> copies as if through a buffer, also when the two ranges overlap in either direction: afterwards the destination holds the
  bytes the source held before, and everything else is as it was. Neither range may run over the end of the address space.
\<close>

theorem memmove_correct:
  assumes "unat dest + unat n \<le> 2 ^ 64" "unat src + unat n \<le> 2 ^ 64"
  shows "memmove dest src n m = (dest, copy_bytes m src dest (unat n))"
proof (cases "dest < src")
  case True
  then show ?thesis
    using copy_up [OF assms, of "unat n" m] by (simp add: memmove_def memcpy_def range_w_def copied_all word_less_nat_alt)
next
  case False
  then have "unat src \<le> unat dest" by (simp add: word_less_nat_alt)
  from copy_down [OF assms this, of "unat n" m] False show ?thesis
    by (simp add: memmove_def range_w_def rev_map copied_all atLeast0LessThan)
qed

text \<open>Two overlapping ranges, the source below the destination.\<close>

theorem memmove_correct_witness: "snd (memmove 0x1002 0x1000 4 (\<lambda>x. ucast x)) 0x1005 = 3"
  using memmove_correct [where dest = "0x1002" and n = 4 and src = "0x1000" and m = "\<lambda>x. ucast x"] by (simp add: copy_bytes_def in_bytes_def)

section \<open>Comparing\<close>

definition bytes_at :: "memory \<Rightarrow> u64 \<Rightarrow> usize \<Rightarrow> u8 list" where
  "bytes_at m a n = map (\<lambda>i. m (a + i)) (range_w 0 n)"

lemma byte_difference: "sint (ucast (a :: u8) - ucast (b :: u8) :: i32) = int (unat a) - int (unat b)"
proof -
  have w: "unat (w :: u8) < 256" for w using unsigned_less [of w, where ?'a = nat] by simp
  have "unat (ucast w :: i32) = unat w" for w :: u8 using w [of w] by (simp add: unsigned_ucast_eq take_bit_nat_eq_self)
  then have u: "uint (ucast w :: i32) = int (unat w)" for w :: u8 by (simp only: uint_nat)
  have l: "unat a < 256" "unat b < 256" by (rule w)+
  have "sint (ucast a - ucast b :: i32) = signed_take_bit 31 (int (unat a) - int (unat b))"
    by (simp add: sint_uint uint_word_arith_bintrs u signed_take_bit_take_bit)
  also have "\<dots> = int (unat a) - int (unat b)" proof (rule signed_take_bit_int_eq_self)
    have "- 2147483648 \<le> int (unat a) - int (unat b)" "int (unat a) - int (unat b) < 2147483648" using l by linarith+
    then show "- (2 ^ 31) \<le> int (unat a) - int (unat b)" "int (unat a) - int (unat b) < 2 ^ 31" by simp_all
  qed
  finally show ?thesis .
qed


lemma byte_order:
  "sint (ucast a - ucast b :: i32) = 0 \<longleftrightarrow> (a :: u8) = b" "sint (ucast a - ucast b :: i32) < 0 \<longleftrightarrow> (a :: u8) < b"
  unfolding byte_difference word_less_nat_alt word_unat_eq_iff by linarith+

lemma memcmp_lists:
  "sint (memcmp_loop m s1 s2 is') = 0 \<longleftrightarrow> map (\<lambda>i. m (s1 + i)) is' = map (\<lambda>i. m (s2 + i)) is'"
  "sint (memcmp_loop m s1 s2 is') < 0 \<longleftrightarrow> ord_class.lexordp (map (\<lambda>i. m (s1 + i)) is') (map (\<lambda>i. m (s2 + i)) is')"
  by (induction is') (auto simp: byte_order Let_def)

text \<open>
  \<^verbatim>\<open>memcmp\<close> orders two ranges of bytes like dictionary entries: it gives 0 exactly when they are equal, and a negative number
  exactly when the first comes before the second. \<^verbatim>\<open>bcmp\<close> gives the same.
\<close>

theorem memcmp_correct:
  "(memcmp s1 s2 n m = 0 \<longleftrightarrow> bytes_at m s1 n = bytes_at m s2 n)
   \<and> (sint (memcmp s1 s2 n m) < 0 \<longleftrightarrow> ord_class.lexordp (bytes_at m s1 n) (bytes_at m s2 n))
   \<and> bcmp s1 s2 n m = memcmp s1 s2 n m"
  using memcmp_lists [of m s1 s2 "range_w 0 n"] by (simp only: memcmp_def bcmp_def bytes_at_def signed_eq_0_iff simp_thms)

section \<open>Blocks of the early heap\<close>

lemma power_of_two_16: "is_power_of_two a \<Longrightarrow> is_power_of_two (max a 16)"
  by (simp add: max_def is_power_of_two_def)

lemma early_try_Some:
  assumes a: "is_power_of_two (layout_align l)" and c: "current \<le> EARLY_HEAP_SIZE" and t: "early_try l current = Some (aligned, next')"
  shows "unat current \<le> unat aligned" "unat aligned + unat (layout_size l) = unat next'" "unat next' \<le> unat EARLY_HEAP_SIZE"
    "unat aligned mod unat (max (layout_align l) 16) = 0"
proof -
  let ?a = "max (layout_align l) 16"
  have p: "is_power_of_two ?a" by (rule power_of_two_16 [OF a])
  obtain k where k: "k < 64" "unat ?a = 2 ^ k" using power_of_two [OF p] by blast
  have "(2 :: nat) ^ k \<le> 2 ^ 63" using k(1) by (intro power_increasing) auto
  moreover have "unat current \<le> 262144" using c by (simp add: EARLY_HEAP_SIZE_def word_le_nat_alt)
  ultimately have "unat current + unat ?a < 2 ^ 64" using k(2) by simp
  note u = align_up_bounds [OF p this]
  have al: "aligned = align_up current ?a" "next' = saturating_add aligned (layout_size l)" "\<not> EARLY_HEAP_SIZE < next'"
    using t by (auto simp: early_try_def align_up_def Let_def split: if_splits)
  show "unat current \<le> unat aligned" "unat aligned mod unat ?a = 0" using u(1,3) unfolding al(1) .
  show "unat next' \<le> unat EARLY_HEAP_SIZE" using al(3) by (simp add: not_less word_le_nat_alt)
  have "\<not> EARLY_HEAP_SIZE < - 1 \<longrightarrow> False" by (simp add: EARLY_HEAP_SIZE_def)
  then have n: "\<not> aligned + layout_size l < aligned" "next' = aligned + layout_size l"
    using al(2,3) by (auto simp: saturating_add_def split: if_splits)
  then show "unat aligned + unat (layout_size l) = unat next'"
    by (metis not_less unat_plus_simple)
qed

text \<open>
  The loop with its atomic exchange, as several processors and interrupts interleave it: a call loads the offset; each turn swaps it
  if nobody moved it meanwhile, and otherwise, also without a reason, takes the offset found and tries again.
\<close>

datatype early_call = Idle | Trying Layout usize | Done Layout "usize option"

record early_state =
  es_offset :: usize
  es_calls :: "nat \<Rightarrow> early_call"
  es_granted :: "(usize \<times> usize) list"

inductive early_step :: "early_state \<Rightarrow> early_state \<Rightarrow> bool" where
  early_load: "es_calls s i = Idle \<or> es_calls s i = Done l' r \<Longrightarrow> Layout_from_size_align bytes align = Ok l \<Longrightarrow>
    early_step s (s\<lparr>es_calls := (es_calls s)(i := Trying l (es_offset s))\<rparr>)"
| early_full: "es_calls s i = Trying l current \<Longrightarrow> early_try l current = None \<Longrightarrow>
    early_step s (s\<lparr>es_calls := (es_calls s)(i := Done l None)\<rparr>)"
| early_swap: "es_calls s i = Trying l current \<Longrightarrow> early_try l current = Some (aligned, next') \<Longrightarrow> es_offset s = current \<Longrightarrow>
    early_step s (s\<lparr>es_offset := next', es_calls := (es_calls s)(i := Done l (Some aligned)),
      es_granted := (aligned, layout_size l) # es_granted s\<rparr>)"
| early_retry: "es_calls s i = Trying l current \<Longrightarrow> early_try l current = Some (aligned, next') \<Longrightarrow>
    early_step s (s\<lparr>es_calls := (es_calls s)(i := Trying l (es_offset s))\<rparr>)"


definition early_inv :: "early_state \<Rightarrow> bool" where
  "early_inv s \<longleftrightarrow> es_offset s \<le> EARLY_HEAP_SIZE
     \<and> (\<forall>i l c. es_calls s i = Trying l c \<longrightarrow> is_power_of_two (layout_align l) \<and> c \<le> EARLY_HEAP_SIZE)
     \<and> (\<forall>(a, n)\<in>set (es_granted s). unat a + unat n \<le> unat (es_offset s))
     \<and> sorted_wrt (\<lambda>(a, n) (b, k). unat b + unat k \<le> unat a) (es_granted s)
     \<and> (\<forall>i l a. es_calls s i = Done l (Some a) \<longrightarrow> (a, layout_size l) \<in> set (es_granted s) \<and> unat a mod unat (max (layout_align l) 16) = 0)"

lemma early_step_inv: "early_step s s' \<Longrightarrow> early_inv s \<Longrightarrow> early_inv s'"
proof (induction rule: early_step.induct)
  case (early_load s i l' r bytes align l)
  then have "is_power_of_two (layout_align l)" by (auto simp: Layout_from_size_align_def split: if_splits)
  then show ?case using early_load.prems by (auto simp: early_inv_def)
next
  case (early_full s i l current)
  then show ?case by (auto simp: early_inv_def)
next
  case (early_swap s i l current aligned next')
  then have l: "is_power_of_two (layout_align l)" "current \<le> EARLY_HEAP_SIZE" by (auto simp: early_inv_def)
  note t = early_try_Some [OF l early_swap.hyps(2)]
  have le: "unat (es_offset s) \<le> unat next'" using t(1,2) early_swap.hyps(3) by simp
  have g: "unat a + unat n \<le> unat aligned" if "(a, n) \<in> set (es_granted s)" for a n
    using that early_swap.prems t(1) early_swap.hyps(3) by (fastforce simp: early_inv_def)
  have n: "next' \<le> EARLY_HEAP_SIZE" using t(3) by (simp add: word_le_nat_alt)
  show ?case unfolding early_inv_def
  proof (intro conjI)
    show "\<forall>(a, n)\<in>set (es_granted (s\<lparr>es_offset := next', es_calls := (es_calls s)(i := Done l (Some aligned)), es_granted := (aligned, layout_size l) # es_granted s\<rparr>)).
        unat a + unat n \<le> unat (es_offset (s\<lparr>es_offset := next', es_calls := (es_calls s)(i := Done l (Some aligned)), es_granted := (aligned, layout_size l) # es_granted s\<rparr>))"
      using g t(2) by (auto dest!: g intro: order_trans)
  qed (use early_swap.prems n g t(4) in \<open>auto simp: early_inv_def\<close>)
next
  case (early_retry s i l current aligned next')
  then show ?case by (auto simp: early_inv_def)
qed


definition early_init :: early_state where
  "early_init = \<lparr>es_offset = 0, es_calls = (\<lambda>i. Idle), es_granted = []\<rparr>"

lemma early_reachable: "early_step\<^sup>*\<^sup>* early_init s \<Longrightarrow> early_inv s"
proof (induction rule: rtranclp_induct)
  case base
  show ?case by (simp add: early_inv_def early_init_def EARLY_HEAP_SIZE_def)
qed (blast intro: early_step_inv)

lemma sorted_disjoint:
  assumes "sorted_wrt (\<lambda>(a :: usize, n :: usize) (b, k). unat b + unat k \<le> unat a) bs" "p < length bs" "q < length bs" "p \<noteq> q"
    and x: "unat (fst (bs ! p)) \<le> x" "x < unat (fst (bs ! p)) + unat (snd (bs ! p))"
  shows "\<not> (unat (fst (bs ! q)) \<le> x \<and> x < unat (fst (bs ! q)) + unat (snd (bs ! q)))"
proof (cases "p < q")
  case True
  then have "unat (fst (bs ! q)) + unat (snd (bs ! q)) \<le> unat (fst (bs ! p))"
    using sorted_wrt_nth_less [OF assms(1) _ assms(3)] by (simp add: split_def)
  then show ?thesis using x by simp
next
  case False
  then have "unat (fst (bs ! p)) + unat (snd (bs ! p)) \<le> unat (fst (bs ! q))"
    using sorted_wrt_nth_less [OF assms(1) _ assms(2), of q] assms(4) by (simp add: split_def)
  then show ?thesis using x by simp
qed



section \<open>Allocation through the global allocator\<close>

text \<open>The area of the early heap lies outside the arena of the heap.\<close>

definition early_apart :: "u64 \<Rightarrow> u64 \<Rightarrow> bool" where
  "early_apart arena early \<longleftrightarrow> unat early + 262144 \<le> 2 ^ 64 \<and> (\<forall>q<1024. \<forall>x. in_bytes early 262144 x \<longrightarrow> x \<notin> page_bytes arena q)"

lemma sub_bytes:
  assumes "unat a \<le> unat p" "unat p + c \<le> unat a + n" "in_bytes p c x"
  shows "in_bytes a n x"
proof -
  have "unat (x - a) \<le> unat (x - p) + unat (p - a)"
    proof -
    have "unat (u + v :: u64) \<le> unat u + unat v" for u v by (simp add: unat_word_ariths)
    from this [of "x - p" "p - a"] show ?thesis by simp
  qed
  moreover have "unat (p - a) = unat p - unat a" using assms(1) by (simp add: unat_sub word_le_nat_alt)
  ultimately show ?thesis using assms by (simp add: in_bytes_def)
qed


text \<open>
  An allocation on a ready heap, from the heap or, when that is full, from the early heap: a result other than null is memory that belongs to
  no block there was, and all blocks there were stay with their contents.
\<close>

definition fresh_bytes :: "u64 \<Rightarrow> 'a heap_machine_scheme \<Rightarrow> 'a heap_machine_scheme \<Rightarrow> u64 \<Rightarrow> bool" where
  "fresh_bytes arena s s' x \<longleftrightarrow> (\<exists>(b, k)\<in>blocks arena s' - blocks arena s. in_bytes b k x) \<or> (\<forall>q<1024. x \<notin> page_bytes arena q)"

lemma heap_alloc_c_offset: "heap_alloc_c arena bytes align s = Returns (p, s') \<Longrightarrow> EARLY_HEAP_OFFSET s' = EARLY_HEAP_OFFSET s"
  by (auto simp: heap_alloc_c_def heap_alloc_def with_heap_lock_def Let_def split: if_splits sum.splits outcome.splits prod.splits)

lemma kernel_alloc_step:
  assumes ar: "arena_ok arena" and rd: "heap_ready arena s" and ea: "early_apart arena early" and off: "EARLY_HEAP_OFFSET s \<le> EARLY_HEAP_SIZE"
    and l: "is_power_of_two (layout_align l)"
  shows "\<exists>p s'. kernel_alloc arena early l s = Returns (p, s') \<and> heap_ready arena s' \<and> blocks arena s \<subseteq> blocks arena s'
    \<and> (p = 0 \<longrightarrow> blocks arena s' = blocks arena s) \<and> (p \<noteq> 0 \<longrightarrow> (\<forall>x. in_bytes p (unat (layout_size l)) x \<longrightarrow> fresh_bytes arena s s' x))
    \<and> (\<forall>(b, k)\<in>blocks arena s. \<forall>x. in_bytes b k x \<longrightarrow> mem s' x = mem s x)"
proof -
  have r: "heap_is_initialized_c s \<noteq> 0" using rd by (simp add: heap_is_initialized_c_def heap_is_initialized_def heap_ready_def)
  obtain p s1 where h: "heap_alloc_c arena (layout_size l) (layout_align l) s = Returns (p, s1)" "heap_ready arena s1"
    and b: "if p = 0 then blocks arena s1 = blocks arena s else \<exists>a n. (a, n) \<notin> blocks arena s \<and> blocks arena s1 = insert (a, n) (blocks arena s)
        \<and> unat a \<le> unat p \<and> unat p + unat (layout_size l) \<le> unat a + n \<and> unat p mod unat (max (layout_align l) 1) = 0 \<and> (n \<le> 2048 \<longrightarrow> p = a)"
    and k: "\<forall>(b, k)\<in>blocks arena s. \<forall>x. in_bytes b k x \<longrightarrow> mem s1 x = mem s x"
    using heap_alloc_c_step [OF ar rd, of "layout_size l" "layout_align l"] by blast
  show ?thesis
  proof (cases "p = 0")
    case False
    then obtain a n where an: "(a, n) \<notin> blocks arena s" "blocks arena s1 = insert (a, n) (blocks arena s)" "unat a \<le> unat p"
      "unat p + unat (layout_size l) \<le> unat a + n" using b by auto
    have "fresh_bytes arena s s1 x" if "in_bytes p (unat (layout_size l)) x" for x
      using sub_bytes [OF an(3,4) that] an(1,2) by (auto simp: fresh_bytes_def)
    then show ?thesis using h r False k an(2) by (intro exI [of _ p] exI [of _ s1]) (auto simp: kernel_alloc_def)
  next
    case True
    have o: "EARLY_HEAP_OFFSET s1 = EARLY_HEAP_OFFSET s" 
      using h(1) by (rule heap_alloc_c_offset)
    show ?thesis
    proof (cases "early_try l (EARLY_HEAP_OFFSET s)")
      case None
      then have "kernel_alloc arena early l s = Returns (0, s1)" using h(1) r True o by (simp add: kernel_alloc_def alloc_early_def)
      then show ?thesis using h(2) b k True by (intro exI [of _ 0] exI [of _ s1]) auto
    next
      case (Some an)
      obtain aligned next' where an: "an = (aligned, next')" by fastforce
      let ?s' = "s1\<lparr>EARLY_HEAP_OFFSET := next'\<rparr>"
      have e: "kernel_alloc arena early l s = Returns (early + aligned, ?s')" using h(1) r True o Some an by (simp add: kernel_alloc_def alloc_early_def)
      note t = early_try_Some [OF l off Some [unfolded an]]
      have "fresh_bytes arena s ?s' x" if x: "in_bytes (early + aligned) (unat (layout_size l)) x" for x
      proof -
        have le: "unat aligned + unat (layout_size l) \<le> 262144" using t(2,3) by (simp add: EARLY_HEAP_SIZE_def)
        have pos: "0 < unat (layout_size l)" using x by (simp add: in_bytes_def)
        then have "unat (early + aligned) = unat early + unat aligned" using ea le by (simp add: early_apart_def unat_word_ariths)
        then have "in_bytes early 262144 x" using le by (intro sub_bytes [OF _ _ x]) simp_all
        then show ?thesis using ea by (auto simp: early_apart_def fresh_bytes_def)
      qed
      then show ?thesis using e h(2) b k True by (intro exI [of _ "early + aligned"] exI [of _ ?s']) (auto simp: heap_ready_def)
    qed
  qed
qed


lemma in_bytes_index:
  assumes "i < c" "c \<le> n" "c \<le> 2 ^ 64"
  shows "in_bytes a n (a + word_of_nat i)"
proof -
  have "i < 2 ^ 64" using assms by linarith
  then have "unat (word_of_nat i :: u64) = i" by (simp add: unat_of_nat)
  then show ?thesis using assms by (simp add: in_bytes_def)
qed

lemma copy_bytes_at:
  assumes "i < c" "c \<le> 2 ^ 64"
  shows "copy_bytes m src dst c (dst + word_of_nat i) = m (src + word_of_nat i)"
proof -
  have "in_bytes dst c (dst + word_of_nat i)" by (rule in_bytes_index [OF assms(1) _ assms(2)]) simp
  then show ?thesis by (simp add: copy_bytes_def)
qed

text \<open>Fresh bytes belong to no block there was, and copying into them changes no block.\<close>

lemma fresh_apart:
  assumes ar: "arena_ok arena" and inv: "heap_inv arena (mem s1) (HEAP_STATE s1)" and sub: "blocks arena s \<subseteq> blocks arena s1"
    and o: "(d, j) \<in> blocks arena s" "in_bytes d j x"
  shows "\<not> fresh_bytes arena s s1 x"
proof
  assume "fresh_bytes arena s s1 x"
  then show False unfolding fresh_bytes_def
  proof
    assume "\<exists>(b, k)\<in>blocks arena s1 - blocks arena s. in_bytes b k x"
    then obtain b' k' where "(b', k') \<in> blocks arena s1" "(b', k') \<notin> blocks arena s" "in_bytes b' k' x" by blast
    with blocks_disjoint [OF ar inv _ _ o(2)] o sub show False by blast
  next
    assume "\<forall>q<1024. x \<notin> page_bytes arena q"
    moreover have "(d, j) \<in> blocks arena s1" using o(1) sub by (rule rev_subsetD)
    then obtain r where "r < 1024" "(d, j) \<in> page_blocks arena (mem s1) (HEAP_STATE s1) r"
      unfolding heap_blocks_def by blast
    ultimately show False using page_blocks_bytes [OF ar inv _ _ o(2)] by blast
  qed
qed

lemma copy_fresh:
  fixes s1 :: "'a heap_machine_scheme"
  assumes ar: "arena_ok arena" and rd: "heap_ready arena s1" and fr: "\<And>x. in_bytes q c x \<Longrightarrow> fresh_bytes arena s s1 x"
  shows "heap_ready arena (s1\<lparr>mem := copy_bytes (mem s1) p q c\<rparr>)"
    and "blocks arena (s1\<lparr>mem := copy_bytes (mem s1) p q c\<rparr>) = blocks arena s1"
proof -
  let ?m = "copy_bytes (mem s1) p q c"
  have inv: "heap_inv arena (mem s1) (HEAP_STATE s1)" using rd by (simp add: heap_ready_def)
  have w: "(\<exists>(a, n)\<in>blocks arena s1. in_bytes a n x) \<or> (\<forall>q<1024. x \<notin> page_bytes arena q)" if "?m x \<noteq> mem s1 x" for x
    using that fr [of x] by (auto simp: copy_bytes_def fresh_bytes_def split: if_splits)
  have "heap_inv arena ?m (HEAP_STATE s1)" "heap_blocks arena ?m (HEAP_STATE s1) = blocks arena s1"
    by (rule client_write [OF ar inv], erule w)+
  then show "heap_ready arena (s1\<lparr>mem := ?m\<rparr>)" "blocks arena (s1\<lparr>mem := ?m\<rparr>) = blocks arena s1"
    using rd by (simp_all add: heap_ready_def)
qed

text \<open>
  C11: Growing or shrinking a block of the heap: \<^verbatim>\<open>__rust_realloc\<close> always returns. If it gives null every block is as before. Otherwise
  the new place holds the old bytes up to the smaller of both sizes, the old block is released, and all other blocks stay with
  their contents; the new place may be in the heap or, when that is full, in the early heap.
\<close>

theorem rust_realloc_correct:
  assumes ar: "arena_ok arena" and rd: "heap_ready arena s" and ea: "early_apart arena early" and off: "EARLY_HEAP_OFFSET s \<le> EARLY_HEAP_SIZE"
    and old: "Layout_from_size_align old align = Ok lo" and new: "Layout_from_size_align new align = Ok ln"
    and b: "(a, n) \<in> blocks arena s" "in_bytes a n p" "n \<le> 2048 \<longrightarrow> p = a" "unat a \<le> unat p" "unat p + unat old \<le> unat a + n"
  shows "\<exists>q s'. rust_realloc arena early p old align new s = Returns (q, s') \<and> heap_ready arena s'
    \<and> (if q = 0 then blocks arena s' = blocks arena s
       else (\<forall>i<min (unat old) (unat new). mem s' (q + word_of_nat i) = mem s (p + word_of_nat i))
         \<and> (a, n) \<notin> blocks arena s' \<and> blocks arena s - {(a, n)} \<subseteq> blocks arena s')
    \<and> (\<forall>(c, k)\<in>blocks arena s. (c, k) \<noteq> (a, n) \<or> q = 0 \<longrightarrow> (\<forall>x. in_bytes c k x \<longrightarrow> mem s' x = mem s x))"
proof -
  have l: "is_power_of_two (layout_align ln)" "layout_size ln = new"
    using new by (auto simp: Layout_from_size_align_def split: if_splits)
  obtain q s1 where k: "kernel_alloc arena early ln s = Returns (q, s1)" "heap_ready arena s1" "blocks arena s \<subseteq> blocks arena s1"
    "q = 0 \<longrightarrow> blocks arena s1 = blocks arena s" "q \<noteq> 0 \<longrightarrow> (\<forall>x. in_bytes q (unat new) x \<longrightarrow> fresh_bytes arena s s1 x)"
    "\<forall>(b, k)\<in>blocks arena s. \<forall>x. in_bytes b k x \<longrightarrow> mem s1 x = mem s x"
    using kernel_alloc_step [OF ar rd ea off l(1)] l(2) by auto
  show ?thesis
  proof (cases "q = 0")
    case True
    then have "rust_realloc arena early p old align new s = Returns (0, s1)" using k(1) new by (simp add: rust_realloc_def rust_alloc_def)
    then show ?thesis using True k(2,4,6) by (intro exI [of _ 0] exI [of _ s1]) auto
  next
    case False
    define c where "c = min (unat old) (unat new)"
    have c: "unat (min old new) = c" by (simp add: c_def min_def word_le_nat_alt)
    have c64: "c \<le> 2 ^ 64" using unat_bound [of old] by (simp add: c_def)
    let ?m = "copy_bytes (mem s1) p q c" let ?s2 = "s1\<lparr>mem := ?m\<rparr>"
    have inv: "heap_inv arena (mem s1) (HEAP_STATE s1)" using k(2) by (simp add: heap_ready_def)
    have fr: "fresh_bytes arena s s1 x" if "in_bytes q c x" for x
      using k(5) False that in_bytes_sub [of q c x "unat new"] by (simp add: c_def)
    have keep: "\<not> in_bytes q c x" if "(d, j) \<in> blocks arena s" "in_bytes d j x" for d j x
      using fresh_apart [OF ar inv k(3) that] fr by blast
    have rd2: "heap_ready arena ?s2" and bl: "blocks arena ?s2 = blocks arena s1" by (rule copy_fresh [OF ar k(2)], erule fr)+
    have b1: "(a, n) \<in> blocks arena s1" using b(1) k(3) by (rule rev_subsetD)
    have b2: "(a, n) \<in> blocks arena ?s2" unfolding bl by (rule b1)
    obtain s' where s': "heap_dealloc_c arena p ?s2 = Returns ((), s')" "heap_ready arena s'" "blocks arena s' = blocks arena ?s2 - {(a, n)}"
      "\<forall>x. \<not> in_bytes a n x \<longrightarrow> mem s' x = mem ?s2 x"
      using heap_dealloc_c_step [OF ar rd2 b2 b(2,3)] by blast
    have "heap_is_initialized_c ?s2 \<noteq> 0" using rd2 by (simp add: heap_is_initialized_c_def heap_is_initialized_def heap_ready_def)
    then have res: "rust_realloc arena early p old align new s = Returns (q, s')"
      using k(1) new old False s'(1) by (simp add: rust_realloc_def rust_alloc_def rust_dealloc_def kernel_dealloc_def c)
    have "mem s' (q + word_of_nat i) = mem s (p + word_of_nat i)" if i: "i < c" for i
    proof -
      have qi: "in_bytes q c (q + word_of_nat i)" by (rule in_bytes_index [OF i _ c64]) simp
      have pi: "in_bytes p (unat old) (p + word_of_nat i)" by (rule in_bytes_index [OF i _ c64]) (simp add: c_def)
      have "\<not> in_bytes a n (q + word_of_nat i)" using keep [OF b(1)] qi by blast
      then have "mem s' (q + word_of_nat i) = ?m (q + word_of_nat i)" using s'(4) by simp
      also have "\<dots> = mem s1 (p + word_of_nat i)" by (rule copy_bytes_at [OF i c64])
      also have "\<dots> = mem s (p + word_of_nat i)" using k(6) b(1) sub_bytes [OF b(4,5) pi] by blast
      finally show ?thesis .
    qed
    moreover have "mem s' x = mem s x" if o: "(d, j) \<in> blocks arena s" "(d, j) \<noteq> (a, n)" "in_bytes d j x" for d j x
    proof -
      have "(d, j) \<in> blocks arena s1" using o(1) k(3) by (rule rev_subsetD)
      then have "\<not> in_bytes a n x" using blocks_disjoint [OF ar inv _ b1 o(3)] o(2) by blast
      then have "mem s' x = ?m x" using s'(4) by simp
      also have "\<dots> = mem s1 x" using keep [OF o(1,3)] by (simp add: copy_bytes_def)
      finally show ?thesis using k(6) o by auto
    qed
    moreover have "(a, n) \<notin> blocks arena s'" "blocks arena s - {(a, n)} \<subseteq> blocks arena s'" unfolding s'(3) bl using k(3) by blast+
    ultimately show ?thesis using res s'(2) False unfolding c_def by (intro exI [of _ q] exI [of _ s']) auto
  qed
qed


text \<open>Growing a block of 100 bytes to 200 on a fresh heap.\<close>

definition demo_rt :: rt_machine where
  "demo_rt = \<lparr>mem = (\<lambda>_. 0), HEAP_STATE = heap_reset HeapState_new, HEAP_LOCK = False, HEAP_READY = True, EARLY_HEAP_OFFSET = 0\<rparr>"

lemma demo_rt_ready: "heap_ready 0x400000 demo_rt" "blocks 0x400000 demo_rt = {}" "free_pages (HEAP_STATE demo_rt) 0 1"
  using heap_reset_inv [OF demo_dims] demo_free_pages by (simp_all add: heap_ready_def demo_rt_def demo_heap_def)

lemma demo_early_apart: "early_apart 0x400000 0x100000"
  by (auto simp: early_apart_def page_bytes_def in_bytes_nowrap)

theorem rust_realloc_correct_witness:
  "\<exists>p s q s'. heap_alloc_c 0x400000 100 8 demo_rt = Returns (p, s) \<and> p \<noteq> 0
     \<and> rust_realloc 0x400000 0x100000 p 100 8 200 s = Returns (q, s') \<and> heap_ready 0x400000 s'"
proof -
  obtain p s where s: "heap_alloc_c 0x400000 100 8 demo_rt = Returns (p, s)" "heap_ready 0x400000 s"
    and b: "if p = 0 then blocks 0x400000 s = blocks 0x400000 demo_rt
      else \<exists>a n. blocks 0x400000 s = insert (a, n) (blocks 0x400000 demo_rt) \<and> unat a \<le> unat p
        \<and> unat p + unat (100 :: u64) \<le> unat a + n \<and> (n \<le> 2048 \<longrightarrow> p = a)"
    using heap_alloc_c_step [OF demo_arena demo_rt_ready(1), of 100 8] by (metis (no_types, lifting))
  have p: "p \<noteq> 0"
    using heap_alloc_c_null [OF demo_arena demo_rt_ready(1), of 100 8 s 1 0] s(1) demo_rt_ready(3)
    by (auto simp: is_power_of_two_def)
  then obtain a n where an: "blocks 0x400000 s = {(a, n)}" "unat a \<le> unat p" "unat p + 100 \<le> unat a + n" "n \<le> 2048 \<longrightarrow> p = a"
    using b demo_rt_ready(2) by auto
  have ab: "in_bytes a n p" by (rule sub_bytes [of a p 100]) (use an in simp_all)
  have lay: "Layout_from_size_align 100 8 = Ok \<lparr>layout_size = 100, layout_align = 8\<rparr>" "Layout_from_size_align 200 8 = Ok \<lparr>layout_size = 200, layout_align = 8\<rparr>"
    by (simp_all add: Layout_from_size_align_def is_power_of_two_def)
  have off: "EARLY_HEAP_OFFSET s \<le> EARLY_HEAP_SIZE" using heap_alloc_c_offset [OF s(1)] by (simp add: demo_rt_def)
  have "(a, n) \<in> blocks 0x400000 s" "unat p + unat (100 :: usize) \<le> unat a + n" using an by simp_all
  with rust_realloc_correct [OF demo_arena s(2) demo_early_apart off lay _ ab an(4,2)] s(1) p show ?thesis by blast
qed

end
