(* ===== verification/Ata.thy ===== *)
theory Ata
  imports Port_Io
begin

text \<open>
  The disk driver below ext4, \<^verbatim>\<open>drivers/ata.rs\<close>: polled transfers of sectors with 28 and 48 bit addresses, and the callbacks
  for blocks. The drive is a parameter, specified by its registers and what its commands do.
\<close>

unbundle bit_operations_syntax

section \<open>Registers, status bits and commands\<close>

definition ATA_PRIMARY_DATA :: u16 where "ATA_PRIMARY_DATA = 0x1F0"
definition ATA_PRIMARY_SECCOUNT :: u16 where "ATA_PRIMARY_SECCOUNT = 0x1F2"
definition ATA_PRIMARY_LBA_LO :: u16 where "ATA_PRIMARY_LBA_LO = 0x1F3"
definition ATA_PRIMARY_LBA_MID :: u16 where "ATA_PRIMARY_LBA_MID = 0x1F4"
definition ATA_PRIMARY_LBA_HI :: u16 where "ATA_PRIMARY_LBA_HI = 0x1F5"
definition ATA_PRIMARY_DRIVE :: u16 where "ATA_PRIMARY_DRIVE = 0x1F6"
definition ATA_PRIMARY_STATUS :: u16 where "ATA_PRIMARY_STATUS = 0x1F7"
definition ATA_PRIMARY_CMD :: u16 where "ATA_PRIMARY_CMD = 0x1F7"
definition ATA_STATUS_ERR :: u8 where "ATA_STATUS_ERR = 0x01"
definition ATA_STATUS_DRQ :: u8 where "ATA_STATUS_DRQ = 0x08"
definition ATA_STATUS_RDY :: u8 where "ATA_STATUS_RDY = 0x40"
definition ATA_STATUS_BSY :: u8 where "ATA_STATUS_BSY = 0x80"
definition ATA_CMD_READ_SECTORS :: u8 where "ATA_CMD_READ_SECTORS = 0x20"
definition ATA_CMD_READ_SECTORS_EXT :: u8 where "ATA_CMD_READ_SECTORS_EXT = 0x24"
definition ATA_CMD_WRITE_SECTORS :: u8 where "ATA_CMD_WRITE_SECTORS = 0x30"
definition ATA_CMD_WRITE_SECTORS_EXT :: u8 where "ATA_CMD_WRITE_SECTORS_EXT = 0x34"
definition ATA_CMD_FLUSH_CACHE :: u8 where "ATA_CMD_FLUSH_CACHE = 0xE7"
definition ATA_CMD_FLUSH_CACHE_EXT :: u8 where "ATA_CMD_FLUSH_CACHE_EXT = 0xEA"

lemmas ata_ports_defs = ATA_PRIMARY_DATA_def ATA_PRIMARY_SECCOUNT_def ATA_PRIMARY_LBA_LO_def ATA_PRIMARY_LBA_MID_def ATA_PRIMARY_LBA_HI_def
  ATA_PRIMARY_DRIVE_def ATA_PRIMARY_STATUS_def ATA_PRIMARY_CMD_def
lemmas ata_cmd_defs = ATA_CMD_READ_SECTORS_def ATA_CMD_READ_SECTORS_EXT_def ATA_CMD_WRITE_SECTORS_def ATA_CMD_WRITE_SECTORS_EXT_def
  ATA_CMD_FLUSH_CACHE_def ATA_CMD_FLUSH_CACHE_EXT_def
lemmas ata_status_defs = ATA_STATUS_ERR_def ATA_STATUS_DRQ_def ATA_STATUS_RDY_def ATA_STATUS_BSY_def

text \<open>The 16-bit port instructions; \<^verbatim>\<open>rep insw\<close> and \<^verbatim>\<open>rep outsw\<close> repeat them over a buffer.\<close>

record 'h ata_io = "'h io" +
  inw :: "u16 \<Rightarrow> ('h, u16) state"
  outw :: "u16 \<Rightarrow> u16 \<Rightarrow> ('h, unit) state"

primrec insw :: "'h ata_io \<Rightarrow> u16 \<Rightarrow> u64 \<Rightarrow> nat \<Rightarrow> memory \<Rightarrow> ('h, memory) state" where
  "insw io port a 0 m = State_Monad.return m"
| "insw io port a (Suc n) m = do { w \<leftarrow> inw io port; insw io port (a + 2) n (write_u16 m a w) }"

primrec outsw :: "'h ata_io \<Rightarrow> u16 \<Rightarrow> u64 \<Rightarrow> nat \<Rightarrow> memory \<Rightarrow> ('h, unit) state" where
  "outsw io port a 0 m = State_Monad.return ()"
| "outsw io port a (Suc n) m = do { outw io port (read_u16 m a); outsw io port (a + 2) n m }"

section \<open>Waiting\<close>

primrec wait_ready_loop :: "'h ata_io \<Rightarrow> nat \<Rightarrow> ('h, bool) state" where
  "wait_ready_loop io 0 = State_Monad.return False"
| "wait_ready_loop io (Suc timeout) = do {
     status \<leftarrow> inb io ATA_PRIMARY_STATUS;
     (if status AND ATA_STATUS_ERR \<noteq> 0 then State_Monad.return False
      else if status AND ATA_STATUS_BSY \<noteq> 0 then wait_ready_loop io timeout
      else if status AND ATA_STATUS_RDY \<noteq> 0 then State_Monad.return True
      else wait_ready_loop io timeout)
   }"

definition ata_wait_ready :: "'h ata_io \<Rightarrow> ('h, bool) state" where
  "ata_wait_ready io = wait_ready_loop io 100000"

primrec wait_drq_loop :: "'h ata_io \<Rightarrow> nat \<Rightarrow> ('h, bool) state" where
  "wait_drq_loop io 0 = State_Monad.return False"
| "wait_drq_loop io (Suc timeout) = do {
     status \<leftarrow> inb io ATA_PRIMARY_STATUS;
     (if status AND ATA_STATUS_BSY \<noteq> 0 then wait_drq_loop io timeout
      else if status AND ATA_STATUS_ERR \<noteq> 0 then State_Monad.return False
      else if status AND ATA_STATUS_DRQ \<noteq> 0 then State_Monad.return True
      else wait_drq_loop io timeout)
   }"

definition ata_wait_drq :: "'h ata_io \<Rightarrow> ('h, bool) state" where
  "ata_wait_drq io = wait_drq_loop io 100000"

section \<open>Transfers\<close>

text \<open>Selecting the drive and programming the registers for one sector, as both directions do it.\<close>

definition start_lba28 :: "'h ata_io \<Rightarrow> u8 \<Rightarrow> u64 \<Rightarrow> ('h, unit) state" where
  "start_lba28 io cmd current_lba = do {
     let drive_select = 0xE0 OR ucast (drop_bit 24 current_lba AND 0x0F);
     outb io ATA_PRIMARY_DRIVE drive_select;
     outb io ATA_PRIMARY_SECCOUNT 1;
     outb io ATA_PRIMARY_LBA_LO (ucast (current_lba AND 0xFF));
     outb io ATA_PRIMARY_LBA_MID (ucast (drop_bit 8 current_lba AND 0xFF));
     outb io ATA_PRIMARY_LBA_HI (ucast (drop_bit 16 current_lba AND 0xFF));
     outb io ATA_PRIMARY_CMD cmd
   }"

definition start_lba48 :: "'h ata_io \<Rightarrow> u8 \<Rightarrow> u64 \<Rightarrow> ('h, unit) state" where
  "start_lba48 io cmd current_lba = do {
     let drive_select = 0xE0;
     outb io ATA_PRIMARY_DRIVE drive_select;
     outb io ATA_PRIMARY_SECCOUNT 0;
     outb io ATA_PRIMARY_LBA_LO (ucast (drop_bit 24 current_lba AND 0xFF));
     outb io ATA_PRIMARY_LBA_MID (ucast (drop_bit 32 current_lba AND 0xFF));
     outb io ATA_PRIMARY_LBA_HI (ucast (drop_bit 40 current_lba AND 0xFF));
     outb io ATA_PRIMARY_SECCOUNT 1;
     outb io ATA_PRIMARY_LBA_LO (ucast (current_lba AND 0xFF));
     outb io ATA_PRIMARY_LBA_MID (ucast (drop_bit 8 current_lba AND 0xFF));
     outb io ATA_PRIMARY_LBA_HI (ucast (drop_bit 16 current_lba AND 0xFF));
     outb io ATA_PRIMARY_CMD cmd
   }"

text \<open>The loops over the sectors; \<open>start\<close> is one of the two above with its command.\<close>

primrec ata_read_loop :: "'h ata_io \<Rightarrow> (u64 \<Rightarrow> ('h, unit) state) \<Rightarrow> nat \<Rightarrow> u64 \<Rightarrow> u64 \<Rightarrow> memory \<Rightarrow> ('h, bool \<times> memory) state" where
  "ata_read_loop io start 0 buffer current_lba m = State_Monad.return (True, m)"
| "ata_read_loop io start (Suc n) buffer current_lba m = do {
     ready \<leftarrow> ata_wait_ready io;
     (if \<not> ready then State_Monad.return (False, m) else do {
        start current_lba;
        drq \<leftarrow> ata_wait_drq io;
        (if \<not> drq then State_Monad.return (False, m) else do {
           m \<leftarrow> insw io ATA_PRIMARY_DATA buffer 256 m;
           ata_read_loop io start n (buffer + 512) (current_lba + 1) m
         })
      })
   }"

primrec ata_write_loop :: "'h ata_io \<Rightarrow> (u64 \<Rightarrow> ('h, unit) state) \<Rightarrow> nat \<Rightarrow> u64 \<Rightarrow> u64 \<Rightarrow> memory \<Rightarrow> ('h, bool) state" where
  "ata_write_loop io start 0 buffer current_lba m = State_Monad.return True"
| "ata_write_loop io start (Suc n) buffer current_lba m = do {
     ready \<leftarrow> ata_wait_ready io;
     (if \<not> ready then State_Monad.return False else do {
        start current_lba;
        drq \<leftarrow> ata_wait_drq io;
        (if \<not> drq then State_Monad.return False else do {
           outsw io ATA_PRIMARY_DATA buffer 256 m;
           ata_write_loop io start n (buffer + 512) (current_lba + 1) m
         })
      })
   }"

definition ata_read_sectors_lba28 :: "'h ata_io \<Rightarrow> u64 \<Rightarrow> u64 \<Rightarrow> u32 \<Rightarrow> memory \<Rightarrow> ('h, bool \<times> memory) state" where
  "ata_read_sectors_lba28 io dest lba cnt m =
     (if cnt = 0 then State_Monad.return (True, m)
      else if lba > 0x0FFFFFFF then State_Monad.return (False, m)
      else ata_read_loop io (start_lba28 io ATA_CMD_READ_SECTORS) (unat cnt) dest lba m)"

definition ata_read_sectors_lba48 :: "'h ata_io \<Rightarrow> u64 \<Rightarrow> u64 \<Rightarrow> u32 \<Rightarrow> memory \<Rightarrow> ('h, bool \<times> memory) state" where
  "ata_read_sectors_lba48 io dest lba cnt m =
     (if cnt = 0 then State_Monad.return (True, m)
      else if lba > 0x0000FFFFFFFFFFFF then State_Monad.return (False, m)
      else if cnt > 0xFFFF then State_Monad.return (False, m)
      else ata_read_loop io (start_lba48 io ATA_CMD_READ_SECTORS_EXT) (unat cnt) dest lba m)"

definition ata_read_sectors :: "'h ata_io \<Rightarrow> u64 \<Rightarrow> u64 \<Rightarrow> u32 \<Rightarrow> memory \<Rightarrow> ('h, bool \<times> memory) state" where
  "ata_read_sectors io dest lba cnt m =
     (if lba > 0x0FFFFFFF then ata_read_sectors_lba48 io dest lba cnt m else ata_read_sectors_lba28 io dest lba cnt m)"

definition ata_write_sectors_lba28 :: "'h ata_io \<Rightarrow> u64 \<Rightarrow> u64 \<Rightarrow> u32 \<Rightarrow> memory \<Rightarrow> ('h, bool) state" where
  "ata_write_sectors_lba28 io src lba cnt m =
     (if cnt = 0 then State_Monad.return True
      else if lba > 0x0FFFFFFF then State_Monad.return False
      else ata_write_loop io (start_lba28 io ATA_CMD_WRITE_SECTORS) (unat cnt) src lba m)"

definition ata_write_sectors_lba48 :: "'h ata_io \<Rightarrow> u64 \<Rightarrow> u64 \<Rightarrow> u32 \<Rightarrow> memory \<Rightarrow> ('h, bool) state" where
  "ata_write_sectors_lba48 io src lba cnt m =
     (if cnt = 0 then State_Monad.return True
      else if lba > 0x0000FFFFFFFFFFFF then State_Monad.return False
      else if cnt > 0xFFFF then State_Monad.return False
      else ata_write_loop io (start_lba48 io ATA_CMD_WRITE_SECTORS_EXT) (unat cnt) src lba m)"

definition ata_write_sectors :: "'h ata_io \<Rightarrow> u64 \<Rightarrow> u64 \<Rightarrow> u32 \<Rightarrow> memory \<Rightarrow> ('h, bool) state" where
  "ata_write_sectors io src lba cnt m =
     (if lba > 0x0FFFFFFF then ata_write_sectors_lba48 io src lba cnt m else ata_write_sectors_lba28 io src lba cnt m)"

definition ata_flush_cache :: "'h ata_io \<Rightarrow> bool \<Rightarrow> ('h, bool) state" where
  "ata_flush_cache io use_lba48 = do {
     ready \<leftarrow> ata_wait_ready io;
     (if \<not> ready then State_Monad.return False else do {
        outb io ATA_PRIMARY_CMD (if use_lba48 then ATA_CMD_FLUSH_CACHE_EXT else ATA_CMD_FLUSH_CACHE);
        ata_wait_ready io
      })
   }"

section \<open>The block callbacks\<close>

definition EXT4_PARTITION_LBA :: u64 where "EXT4_PARTITION_LBA = 2048"

text \<open>The descriptor of the device in memory has one field.\<close>

definition partition_lba :: "memory \<Rightarrow> u64 \<Rightarrow> u64" where
  "partition_lba m dev = read_u64 m dev"

definition ext4_read_block_ata :: "'h ata_io \<Rightarrow> u64 \<Rightarrow> u64 \<Rightarrow> u64 \<Rightarrow> usize \<Rightarrow> memory \<Rightarrow> ('h, i32 \<times> memory) state" where
  "ext4_read_block_ata io dev block buffer len m =
     (if dev = 0 \<or> buffer = 0 \<or> len = 0 then State_Monad.return (-1, m)
      else if len mod 512 \<noteq> 0 then State_Monad.return (-1, m)
      else do {
        let sectors = (ucast (len div 512) :: u32);
        let lba = partition_lba m dev + block * ucast sectors;
        (ok, m) \<leftarrow> ata_read_sectors io buffer lba sectors m;
        State_Monad.return (if ok then 0 else -1, m)
      })"

definition ext4_write_block_ata :: "'h ata_io \<Rightarrow> u64 \<Rightarrow> u64 \<Rightarrow> u64 \<Rightarrow> usize \<Rightarrow> memory \<Rightarrow> ('h, i32) state" where
  "ext4_write_block_ata io dev block buffer len m =
     (if dev = 0 \<or> buffer = 0 \<or> len = 0 then State_Monad.return (-1)
      else if len mod 512 \<noteq> 0 then State_Monad.return (-1)
      else do {
        let sectors = (ucast (len div 512) :: u32);
        let lba = partition_lba m dev + block * ucast sectors;
        ok \<leftarrow> ata_write_sectors io buffer lba sectors m;
        State_Monad.return (if ok then 0 else -1)
      })"

definition ext4_sync_ata :: "'h ata_io \<Rightarrow> u64 \<Rightarrow> ('h, i32) state" where
  "ext4_sync_ata io dev =
     (if dev = 0 then State_Monad.return (-1)
      else do {
        ok \<leftarrow> ata_flush_cache io True;
        State_Monad.return (if ok then 0 else -1)
      })"

end
