(* ===== verification/Ata_Correct.thy ===== *)
theory Ata_Correct
  imports Ata
begin

text \<open>
  What the disk driver does to a drive: the specification of the drive and its ports, triples over the state monad, and the
  block callbacks: reading gives the sectors of the block, writing and then synchronising stores them, whatever fails in between.
\<close>

unbundle bit_operations_syntax

section \<open>The drive\<close>

text \<open>
  The registers of a drive as the command set has them: the count and address registers keep the value written last and the one before, \<open>dv_busy\<close> is how often
  the status still reads busy. A sector is 256 words.
\<close>

datatype transfer = No_Transfer | To_Host "u16 list" | From_Host u64 "u16 list"

record drive =
  dv_select :: u8
  dv_count :: "u8 \<times> u8"
  dv_low :: "u8 \<times> u8"
  dv_mid :: "u8 \<times> u8"
  dv_high :: "u8 \<times> u8"
  dv_busy :: nat
  dv_error :: bool
  dv_transfer :: transfer
  dv_sectors :: "u64 \<Rightarrow> u16 list"

definition set_register :: "u16 \<Rightarrow> u8 \<Rightarrow> drive \<Rightarrow> drive" where
  "set_register p v d =
     (if p = 0x1F2 then d\<lparr>dv_count := (v, fst (dv_count d))\<rparr>
      else if p = 0x1F3 then d\<lparr>dv_low := (v, fst (dv_low d))\<rparr>
      else if p = 0x1F4 then d\<lparr>dv_mid := (v, fst (dv_mid d))\<rparr>
      else if p = 0x1F5 then d\<lparr>dv_high := (v, fst (dv_high d))\<rparr>
      else if p = 0x1F6 then d\<lparr>dv_select := v\<rparr>
      else d)"

definition address28 :: "drive \<Rightarrow> u64" where
  "address28 d = ucast (fst (dv_low d)) OR push_bit 8 (ucast (fst (dv_mid d))) OR push_bit 16 (ucast (fst (dv_high d)))
     OR push_bit 24 (ucast (dv_select d AND 0x0F))"

definition address48 :: "drive \<Rightarrow> u64" where
  "address48 d = ucast (fst (dv_low d)) OR push_bit 8 (ucast (fst (dv_mid d))) OR push_bit 16 (ucast (fst (dv_high d)))
     OR push_bit 24 (ucast (snd (dv_low d))) OR push_bit 32 (ucast (snd (dv_mid d))) OR push_bit 40 (ucast (snd (dv_high d)))"

text \<open>What a command asks for, for the commands of the driver and requests of one sector to the first drive with sector addresses.\<close>

definition requested :: "u8 \<Rightarrow> drive \<Rightarrow> transfer option" where
  "requested cmd d =
     (if cmd = 0xE7 \<or> cmd = 0xEA then Some No_Transfer
      else if bit (dv_select d) 4 \<or> \<not> bit (dv_select d) 6 \<or> fst (dv_count d) \<noteq> 1 then None
      else if cmd = 0x20 then Some (To_Host (dv_sectors d (address28 d)))
      else if cmd = 0x30 then Some (From_Host (address28 d) [])
      else if snd (dv_count d) \<noteq> 0 then None
      else if cmd = 0x24 then Some (To_Host (dv_sectors d (address48 d)))
      else if cmd = 0x34 then Some (From_Host (address48 d) [])
      else None)"

definition idle :: "drive \<Rightarrow> bool" where
  "idle d \<longleftrightarrow> dv_busy d = 0 \<and> dv_transfer d = No_Transfer"

text \<open>
  The ports lead to a drive. A command may fail, may take any time, and the drive may fail after the last word of a sector is written; the sector then
  holds anything. A \<open>good\<close> drive does not fail, answers before the driver gives up, and shows no error bit while busy.
\<close>

definition ata_ports :: "bool \<Rightarrow> 'h ata_io \<Rightarrow> ('h \<Rightarrow> drive) \<Rightarrow> bool" where
  "ata_ports good io view \<longleftrightarrow>
     (\<forall>h l. length (dv_sectors (view h) l) = 256)
   \<and> (\<forall>h p v. idle (view h) \<and> p \<in> {0x1F2, 0x1F3, 0x1F4, 0x1F5, 0x1F6} \<longrightarrow> view (snd (run_state (outb io p v) h)) = set_register p v (view h))
   \<and> (\<forall>h v t. idle (view h) \<and> requested v (view h) = Some t \<longrightarrow>
        (\<exists>b e. (good \<longrightarrow> \<not> e \<and> b < 100000) \<and>
           view (snd (run_state (outb io 0x1F7 v) h)) = (view h)\<lparr>dv_busy := b, dv_error := e, dv_transfer := (if e then No_Transfer else t)\<rparr>))
   \<and> (\<forall>h. view (snd (run_state (inb io 0x1F7) h)) = (view h)\<lparr>dv_busy := dv_busy (view h) - 1\<rparr>
        \<and> (if 0 < dv_busy (view h) then bit (fst (run_state (inb io 0x1F7) h)) 7 \<and> (good \<longrightarrow> \<not> bit (fst (run_state (inb io 0x1F7) h)) 0)
           else \<not> bit (fst (run_state (inb io 0x1F7) h)) 7 \<and> (bit (fst (run_state (inb io 0x1F7) h)) 0 \<longleftrightarrow> dv_error (view h))
             \<and> (bit (fst (run_state (inb io 0x1F7) h)) 3 \<longleftrightarrow> dv_transfer (view h) \<noteq> No_Transfer) \<and> (good \<longrightarrow> bit (fst (run_state (inb io 0x1F7) h)) 6)))
   \<and> (\<forall>h w ws. dv_busy (view h) = 0 \<and> dv_transfer (view h) = To_Host (w # ws) \<longrightarrow>
        fst (run_state (inw io 0x1F0) h) = w \<and>
        view (snd (run_state (inw io 0x1F0) h)) = (view h)\<lparr>dv_transfer := (if ws = [] then No_Transfer else To_Host ws)\<rparr>)
   \<and> (\<forall>h l w ws. dv_busy (view h) = 0 \<and> dv_transfer (view h) = From_Host l ws \<and> length ws < 256 \<longrightarrow>
        (if length ws < 255 then view (snd (run_state (outw io 0x1F0 w) h)) = (view h)\<lparr>dv_transfer := From_Host l (ws @ [w])\<rparr>
         else \<exists>b e x. (good \<longrightarrow> \<not> e \<and> b < 100000) \<and>
           view (snd (run_state (outw io 0x1F0 w) h)) =
             (view h)\<lparr>dv_busy := b, dv_error := e, dv_transfer := No_Transfer, dv_sectors := (dv_sectors (view h))(l := if e then x else ws @ [w])\<rparr>))"

section \<open>Triples\<close>

definition valid :: "('h \<Rightarrow> bool) \<Rightarrow> ('h, 'a) state \<Rightarrow> ('a \<Rightarrow> 'h \<Rightarrow> bool) \<Rightarrow> bool" where
  "valid P c Q \<longleftrightarrow> (\<forall>h. P h \<longrightarrow> Q (fst (run_state c h)) (snd (run_state c h)))"

lemma valid_bind: "valid P c R \<Longrightarrow> (\<And>x. valid (R x) (f x) Q) \<Longrightarrow> valid P (State_Monad.bind c f) Q"
  by (simp add: valid_def State_Monad.bind_def split_def)

lemma valid_return: "(\<And>h. P h \<Longrightarrow> Q x h) \<Longrightarrow> valid P (State_Monad.return x) Q"
  by (simp add: valid_def)

lemma valid_if: "(b \<Longrightarrow> valid P c Q) \<Longrightarrow> (\<not> b \<Longrightarrow> valid P d Q) \<Longrightarrow> valid P (if b then c else d) Q"
  by simp

lemma valid_conseq: "valid P' c Q' \<Longrightarrow> (\<And>h. P h \<Longrightarrow> P' h) \<Longrightarrow> (\<And>x h. Q' x h \<Longrightarrow> Q x h) \<Longrightarrow> valid P c Q"
  by (auto simp: valid_def)

lemma valid_point: "(\<And>d. P d \<Longrightarrow> valid (\<lambda>h. view h = d) c Q) \<Longrightarrow> valid (\<lambda>h. P (view h)) c Q"
  by (auto simp: valid_def)

lemma validD: "valid P c Q \<Longrightarrow> run_state c h = (x, h') \<Longrightarrow> P h \<Longrightarrow> Q x h'"
  by (auto simp: valid_def)

lemma status_bits: "(s AND ATA_STATUS_ERR \<noteq> 0) = bit s 0" "(s AND ATA_STATUS_BSY \<noteq> 0) = bit s 7" "(s AND ATA_STATUS_RDY \<noteq> 0) = bit s 6"
  "(s AND ATA_STATUS_DRQ \<noteq> 0) = bit (s :: u8) 3"
  using and_exp_eq_0 [of s 0] and_exp_eq_0 [of s 7] and_exp_eq_0 [of s 6] and_exp_eq_0 [of s 3] by (simp_all add: ata_status_defs)

section \<open>Polling the status\<close>

lemma status_read:
  assumes "ata_ports good io view"
  shows "view (snd (run_state (inb io 0x1F7) h)) = (view h)\<lparr>dv_busy := dv_busy (view h) - 1\<rparr>"
    and "if 0 < dv_busy (view h) then bit (fst (run_state (inb io 0x1F7) h)) 7 \<and> (good \<longrightarrow> \<not> bit (fst (run_state (inb io 0x1F7) h)) 0)
      else \<not> bit (fst (run_state (inb io 0x1F7) h)) 7 \<and> bit (fst (run_state (inb io 0x1F7) h)) 0 = dv_error (view h)
        \<and> bit (fst (run_state (inb io 0x1F7) h)) 3 = (dv_transfer (view h) \<noteq> No_Transfer) \<and> (good \<longrightarrow> bit (fst (run_state (inb io 0x1F7) h)) 6)"
  using assms unfolding ata_ports_def by blast+

lemma wait_ready_loop_run:
  assumes io: "ata_ports good io view"
  shows "\<exists>b x h'. run_state (wait_ready_loop io t) h = (x, h') \<and> view h' = (view h)\<lparr>dv_busy := b\<rparr> \<and> b \<le> dv_busy (view h) \<and> (x \<longrightarrow> b = 0 \<and> \<not> dv_error (view h))
    \<and> (good \<and> \<not> dv_error (view h) \<and> dv_busy (view h) < t \<longrightarrow> x)"
proof (induction t arbitrary: h)
  case 0
  then show ?case by (intro exI [of _ "dv_busy (view h)"] exI [of _ False] exI [of _ h]) simp
next
  case (Suc t)
  obtain s h1 where s: "run_state (inb io 0x1F7) h = (s, h1)" by force
  have v: "view h1 = (view h)\<lparr>dv_busy := dv_busy (view h) - 1\<rparr>"
    "if 0 < dv_busy (view h) then bit s 7 \<and> (good \<longrightarrow> \<not> bit s 0) else \<not> bit s 7 \<and> bit s 0 = dv_error (view h) \<and> (good \<longrightarrow> bit s 6)"
    using status_read [OF io, of h] s by (simp_all split: if_splits)
  obtain b x h' where r: "run_state (wait_ready_loop io t) h1 = (x, h')" "view h' = (view h1)\<lparr>dv_busy := b\<rparr>" "b \<le> dv_busy (view h1)"
    "x \<longrightarrow> b = 0 \<and> \<not> dv_error (view h1)" "good \<and> \<not> dv_error (view h1) \<and> dv_busy (view h1) < t \<longrightarrow> x"
    using Suc.IH [of h1] by blast
  have u: "run_state (wait_ready_loop io (Suc t)) h = (if bit s 0 then (False, h1) else if bit s 7 then (x, h') else if bit s 6 then (True, h1) else (x, h'))"
    using s r(1) by (simp add: ATA_PRIMARY_STATUS_def status_bits)
  show ?case
  proof (cases "bit s 0 \<or> \<not> bit s 7 \<and> bit s 6")
    case True
    then show ?thesis using u v by (intro exI [of _ "dv_busy (view h) - 1"]) (auto split: if_splits)
  next
    case False
    then show ?thesis using u v r(2-5) by (intro exI [of _ b]) (auto split: if_splits)
  qed
qed

lemma wait_drq_loop_run:
  assumes io: "ata_ports good io view"
  shows "\<exists>b x h'. run_state (wait_drq_loop io t) h = (x, h') \<and> view h' = (view h)\<lparr>dv_busy := b\<rparr> \<and> b \<le> dv_busy (view h)
    \<and> (x \<longrightarrow> b = 0 \<and> \<not> dv_error (view h) \<and> dv_transfer (view h) \<noteq> No_Transfer)
    \<and> (\<not> dv_error (view h) \<and> dv_transfer (view h) \<noteq> No_Transfer \<and> dv_busy (view h) < t \<longrightarrow> x)"
proof (induction t arbitrary: h)
  case 0
  then show ?case by (intro exI [of _ "dv_busy (view h)"] exI [of _ False] exI [of _ h]) simp
next
  case (Suc t)
  obtain s h1 where s: "run_state (inb io 0x1F7) h = (s, h1)" by force
  have v: "view h1 = (view h)\<lparr>dv_busy := dv_busy (view h) - 1\<rparr>"
    "if 0 < dv_busy (view h) then bit s 7 else \<not> bit s 7 \<and> bit s 0 = dv_error (view h) \<and> bit s 3 = (dv_transfer (view h) \<noteq> No_Transfer)"
    using status_read [OF io, of h] s by (simp_all split: if_splits)
  obtain b x h' where r: "run_state (wait_drq_loop io t) h1 = (x, h')" "view h' = (view h1)\<lparr>dv_busy := b\<rparr>" "b \<le> dv_busy (view h1)"
    "x \<longrightarrow> b = 0 \<and> \<not> dv_error (view h1) \<and> dv_transfer (view h1) \<noteq> No_Transfer"
    "\<not> dv_error (view h1) \<and> dv_transfer (view h1) \<noteq> No_Transfer \<and> dv_busy (view h1) < t \<longrightarrow> x"
    using Suc.IH [of h1] by blast
  have u: "run_state (wait_drq_loop io (Suc t)) h = (if bit s 7 then (x, h') else if bit s 0 then (False, h1) else if bit s 3 then (True, h1) else (x, h'))"
    using s r(1) by (simp add: ATA_PRIMARY_STATUS_def status_bits)
  show ?case
  proof (cases "\<not> bit s 7 \<and> (bit s 0 \<or> bit s 3)")
    case True
    then show ?thesis using u v by (intro exI [of _ "dv_busy (view h) - 1"]) (auto split: if_splits)
  next
    case False
    then have "run_state (wait_drq_loop io (Suc t)) h = (x, h')" using u by auto
    moreover have "view h' = (view h)\<lparr>dv_busy := b\<rparr>" using r(2) v(1) by simp
    moreover have "b \<le> dv_busy (view h)" using r(3) v(1) by simp
    moreover have "x \<longrightarrow> b = 0 \<and> \<not> dv_error (view h) \<and> dv_transfer (view h) \<noteq> No_Transfer" using r(4) v(1) by simp
    moreover have "x" if "\<not> dv_error (view h) \<and> dv_transfer (view h) \<noteq> No_Transfer \<and> dv_busy (view h) < Suc t"
    proof -
      have "0 < dv_busy (view h)" using False v(2) that by (auto split: if_splits)
      then have "dv_busy (view h1) < t" using v(1) that by auto
      then show x using r(5) v(1) that by simp
    qed
    ultimately show ?thesis by blast
  qed
qed

section \<open>Commands\<close>

text \<open>A transfer is under way, or the drive has refused it.\<close>

definition started :: "bool \<Rightarrow> (u64 \<Rightarrow> u16 list) \<Rightarrow> transfer \<Rightarrow> drive \<Rightarrow> bool" where
  "started good S t d \<longleftrightarrow> dv_sectors d = S \<and> dv_transfer d = (if dv_error d then No_Transfer else t)
     \<and> (good \<longrightarrow> \<not> dv_error d \<and> dv_busy d < 100000)"

definition starts :: "bool \<Rightarrow> ('h \<Rightarrow> drive) \<Rightarrow> (u64 \<Rightarrow> ('h, unit) state) \<Rightarrow> ((u64 \<Rightarrow> u16 list) \<Rightarrow> u64 \<Rightarrow> transfer) \<Rightarrow> bool" where
  "starts good view start t \<longleftrightarrow>
     (\<forall>lba S. valid (\<lambda>h. idle (view h) \<and> dv_sectors (view h) = S) (start lba) (\<lambda>u h. started good S (t S lba) (view h)))"

lemma valid_register:
  assumes "ata_ports good io view" "idle d" "p \<in> {0x1F2, 0x1F3, 0x1F4, 0x1F5, 0x1F6}"
  shows "valid (\<lambda>h. view h = d) (outb io p v) (\<lambda>u h. view h = set_register p v d)"
  using assms unfolding ata_ports_def valid_def by simp

lemma valid_command:
  assumes "ata_ports good io view" "idle d" "requested v d = Some t"
  shows "valid (\<lambda>h. view h = d) (outb io 0x1F7 v) (\<lambda>u h. started good (dv_sectors d) t (view h))"
  unfolding valid_def
proof (intro allI impI)
  fix h assume h: "view h = d"
  then obtain b e where "good \<longrightarrow> \<not> e \<and> b < 100000"
    "view (snd (run_state (outb io 0x1F7 v) h)) = d\<lparr>dv_busy := b, dv_error := e, dv_transfer := (if e then No_Transfer else t)\<rparr>"
    using assms unfolding ata_ports_def by blast
  then show "started good (dv_sectors d) t (view (snd (run_state (outb io 0x1F7 v) h)))" by (simp add: started_def)
qed

lemma set_register_idle [simp]: "idle (set_register p v d) = idle d" "dv_sectors (set_register p v d) = dv_sectors d"
  by (simp_all add: set_register_def idle_def)

lemma byte_bits: "bit (ucast (drop_bit k (lba :: u64) AND 0xFF) :: u8) n \<longleftrightarrow> n < 8 \<and> bit lba (k + n)"
proof -
  have m: "(0xFF :: u64) = mask 8" by (simp add: mask_eq_exp_minus_1)
  show ?thesis unfolding m by (auto simp: bit_simps)
qed

lemma low_byte_bits: "bit (ucast ((lba :: u64) AND 0xFF) :: u8) n \<longleftrightarrow> n < 8 \<and> bit lba n"
  using byte_bits [of 0 lba n] by simp

lemma join_bytes28:
  assumes "\<And>n. bit l n \<longleftrightarrow> n < 8 \<and> bit lba n" "\<And>n. bit m n \<longleftrightarrow> n < 8 \<and> bit lba (8 + n)" "\<And>n. bit h n \<longleftrightarrow> n < 8 \<and> bit lba (16 + n)"
    "\<And>n. bit s n \<longleftrightarrow> n < 4 \<and> bit lba (24 + n)"
  shows "(ucast (l :: u8) OR push_bit 8 (ucast (m :: u8)) OR push_bit 16 (ucast (h :: u8)) OR push_bit 24 (ucast (s :: u8)) :: u64) = take_bit 28 lba"
proof (rule bit_word_eqI)
  fix n assume "n < LENGTH(64)"
  then show "bit (ucast l OR push_bit 8 (ucast m) OR push_bit 16 (ucast h) OR push_bit 24 (ucast s) :: u64) n = bit (take_bit 28 lba) n"
    by (cases "n < 8"; cases "n < 16"; cases "n < 24") (auto simp: bit_or_iff bit_push_bit_iff bit_ucast_iff bit_take_bit_iff assms)
qed

lemma join_bytes48:
  assumes "\<And>n. bit l n \<longleftrightarrow> n < 8 \<and> bit lba n" "\<And>n. bit m n \<longleftrightarrow> n < 8 \<and> bit lba (8 + n)" "\<And>n. bit h n \<longleftrightarrow> n < 8 \<and> bit lba (16 + n)"
    "\<And>n. bit l' n \<longleftrightarrow> n < 8 \<and> bit lba (24 + n)" "\<And>n. bit m' n \<longleftrightarrow> n < 8 \<and> bit lba (32 + n)" "\<And>n. bit h' n \<longleftrightarrow> n < 8 \<and> bit lba (40 + n)"
  shows "(ucast (l :: u8) OR push_bit 8 (ucast (m :: u8)) OR push_bit 16 (ucast (h :: u8)) OR push_bit 24 (ucast (l' :: u8))
    OR push_bit 32 (ucast (m' :: u8)) OR push_bit 40 (ucast (h' :: u8)) :: u64) = take_bit 48 lba"
proof (rule bit_word_eqI)
  fix n assume "n < LENGTH(64)"
  then show "bit (ucast l OR push_bit 8 (ucast m) OR push_bit 16 (ucast h) OR push_bit 24 (ucast l') OR push_bit 32 (ucast m') OR push_bit 40 (ucast h') :: u64) n
      = bit (take_bit 48 lba) n"
    by (cases "n < 8"; cases "n < 16"; cases "n < 24"; cases "n < 32"; cases "n < 40")
      (auto simp: bit_or_iff bit_push_bit_iff bit_ucast_iff bit_take_bit_iff assms)
qed

lemma nibble_bits: "bit ((0xE0 OR ucast (drop_bit 24 (lba :: u64) AND 0x0F) :: u8) AND 0x0F) n \<longleftrightarrow> n < 4 \<and> bit lba (24 + n)"
  "bit (0xE0 OR ucast (drop_bit 24 lba AND 0x0F) :: u8) 4 = False" "bit (0xE0 OR ucast (drop_bit 24 lba AND 0x0F) :: u8) 6 = True"
proof -
  have m: "(0x0F :: u64) = mask 4" "(0x0F :: u8) = mask 4" by (simp_all add: mask_eq_exp_minus_1)
  have "(0xE0 :: u8) AND 0x0F = 0" by simp
  then have "(0xE0 OR ucast (drop_bit 24 lba AND 0x0F) :: u8) AND 0x0F = ucast (drop_bit 24 lba AND 0x0F) AND 0x0F" 
    by (simp add: bit.conj_disj_distrib2)
  then show "bit ((0xE0 OR ucast (drop_bit 24 lba AND 0x0F) :: u8) AND 0x0F) n \<longleftrightarrow> n < 4 \<and> bit lba (24 + n)"
    unfolding m by (auto simp: bit_simps)
  show "bit (0xE0 OR ucast (drop_bit 24 lba AND 0x0F) :: u8) 4 = False" "bit (0xE0 OR ucast (drop_bit 24 lba AND 0x0F) :: u8) 6 = True"
    unfolding m by (simp_all add: bit_simps)
qed

definition ready28 :: "u64 \<Rightarrow> drive \<Rightarrow> drive" where
  "ready28 lba d = set_register 0x1F5 (ucast (drop_bit 16 lba AND 0xFF)) (set_register 0x1F4 (ucast (drop_bit 8 lba AND 0xFF))
     (set_register 0x1F3 (ucast (lba AND 0xFF)) (set_register 0x1F2 1 (set_register 0x1F6 (0xE0 OR ucast (drop_bit 24 lba AND 0x0F)) d))))"

definition ready48 :: "u64 \<Rightarrow> drive \<Rightarrow> drive" where
  "ready48 lba d = set_register 0x1F5 (ucast (drop_bit 16 lba AND 0xFF)) (set_register 0x1F4 (ucast (drop_bit 8 lba AND 0xFF))
     (set_register 0x1F3 (ucast (lba AND 0xFF)) (set_register 0x1F2 1
     (set_register 0x1F5 (ucast (drop_bit 40 lba AND 0xFF)) (set_register 0x1F4 (ucast (drop_bit 32 lba AND 0xFF))
     (set_register 0x1F3 (ucast (drop_bit 24 lba AND 0xFF)) (set_register 0x1F2 0 (set_register 0x1F6 0xE0 d))))))))"

lemma ready_simps:
  "idle (ready28 lba d) = idle d" "dv_sectors (ready28 lba d) = dv_sectors d" "idle (ready48 lba d) = idle d" "dv_sectors (ready48 lba d) = dv_sectors d"
  by (simp_all add: ready28_def ready48_def)

lemma ready_address: "address28 (ready28 lba d) = take_bit 28 lba" "address48 (ready48 lba d) = take_bit 48 lba"
proof -
  have f: "fst (dv_low (ready28 lba d)) = ucast (lba AND 0xFF)" "fst (dv_mid (ready28 lba d)) = ucast (drop_bit 8 lba AND 0xFF)"
    "fst (dv_high (ready28 lba d)) = ucast (drop_bit 16 lba AND 0xFF)" "dv_select (ready28 lba d) = 0xE0 OR ucast (drop_bit 24 lba AND 0x0F)"
    by (simp_all add: ready28_def set_register_def)
  show "address28 (ready28 lba d) = take_bit 28 lba"
    unfolding address28_def f by (rule join_bytes28) (rule low_byte_bits byte_bits nibble_bits(1))+
  have g: "dv_low (ready48 lba d) = (ucast (lba AND 0xFF), ucast (drop_bit 24 lba AND 0xFF))"
    "dv_mid (ready48 lba d) = (ucast (drop_bit 8 lba AND 0xFF), ucast (drop_bit 32 lba AND 0xFF))"
    "dv_high (ready48 lba d) = (ucast (drop_bit 16 lba AND 0xFF), ucast (drop_bit 40 lba AND 0xFF))"
    by (simp_all add: ready48_def set_register_def)
  show "address48 (ready48 lba d) = take_bit 48 lba"
    unfolding address48_def g fst_conv snd_conv by (rule join_bytes48) (rule low_byte_bits byte_bits)+
qed

lemma requested_ready:
  "requested 0x20 (ready28 lba d) = Some (To_Host (dv_sectors d (take_bit 28 lba)))" "requested 0x30 (ready28 lba d) = Some (From_Host (take_bit 28 lba) [])"
  "requested 0x24 (ready48 lba d) = Some (To_Host (dv_sectors d (take_bit 48 lba)))" "requested 0x34 (ready48 lba d) = Some (From_Host (take_bit 48 lba) [])"
  "requested 0xEA d = Some No_Transfer"
proof -
  have 28: "dv_select (ready28 lba d) = 0xE0 OR ucast (drop_bit 24 lba AND 0x0F)" "fst (dv_count (ready28 lba d)) = 1"
    and 48: "dv_select (ready48 lba d) = 0xE0" "dv_count (ready48 lba d) = (1, 0)"
    by (simp_all add: ready28_def ready48_def set_register_def)
  show "requested 0x20 (ready28 lba d) = Some (To_Host (dv_sectors d (take_bit 28 lba)))" "requested 0x30 (ready28 lba d) = Some (From_Host (take_bit 28 lba) [])"
    unfolding requested_def 28 nibble_bits(2,3) by (simp_all add: ready_address ready_simps)
  show "requested 0x24 (ready48 lba d) = Some (To_Host (dv_sectors d (take_bit 48 lba)))" "requested 0x34 (ready48 lba d) = Some (From_Host (take_bit 48 lba) [])"
    unfolding requested_def 48 by (simp_all add: ready_address ready_simps)
  show "requested 0xEA d = Some No_Transfer" by (simp add: requested_def)
qed

lemma start28_ready:
  assumes io: "ata_ports good io view" and i: "idle d" and t: "requested cmd (ready28 lba d) = Some t"
  shows "valid (\<lambda>h. view h = d) (start_lba28 io cmd lba) (\<lambda>u h. started good (dv_sectors d) t (view h))"
  unfolding start_lba28_def Let_def ata_ports_defs
  by (rule valid_bind, rule valid_register [OF io], simp add: i, simp)+
    (use valid_command [OF io _ t] i in \<open>simp add: ready28_def\<close>)

lemma start48_ready:
  assumes io: "ata_ports good io view" and i: "idle d" and t: "requested cmd (ready48 lba d) = Some t"
  shows "valid (\<lambda>h. view h = d) (start_lba48 io cmd lba) (\<lambda>u h. started good (dv_sectors d) t (view h))"
  unfolding start_lba48_def Let_def ata_ports_defs
  by (rule valid_bind, rule valid_register [OF io], simp add: i, simp)+
    (use valid_command [OF io _ t] i in \<open>simp add: ready48_def\<close>)

lemma starts_from:
  assumes "\<And>lba d. idle d \<Longrightarrow> valid (\<lambda>h. view h = d) (start lba) (\<lambda>u h. started good (dv_sectors d) (t (dv_sectors d) lba) (view h))"
  shows "starts good view start t"
  unfolding starts_def
proof (intro allI)
  fix lba S
  show "valid (\<lambda>h. idle (view h) \<and> dv_sectors (view h) = S) (start lba) (\<lambda>u h. started good S (t S lba) (view h))"
    by (rule valid_point [of "\<lambda>d. idle d \<and> dv_sectors d = S"]) (use assms in blast)
qed

lemma starts_commands:
  assumes io: "ata_ports good io view"
  shows "starts good view (start_lba28 io ATA_CMD_READ_SECTORS) (\<lambda>S lba. To_Host (S (take_bit 28 lba)))"
    and "starts good view (start_lba28 io ATA_CMD_WRITE_SECTORS) (\<lambda>S lba. From_Host (take_bit 28 lba) [])"
    and "starts good view (start_lba48 io ATA_CMD_READ_SECTORS_EXT) (\<lambda>S lba. To_Host (S (take_bit 48 lba)))"
    and "starts good view (start_lba48 io ATA_CMD_WRITE_SECTORS_EXT) (\<lambda>S lba. From_Host (take_bit 48 lba) [])"
  unfolding ata_cmd_defs by (rule starts_from, rule start28_ready start48_ready, rule io, assumption, simp add: requested_ready)+

section \<open>Words in memory\<close>

definition words_at :: "memory \<Rightarrow> u64 \<Rightarrow> nat \<Rightarrow> u16 list" where
  "words_at m a n = map (\<lambda>j. read_u16 m (a + 2 * word_of_nat j)) [0..<n]"

primrec write_words :: "memory \<Rightarrow> u64 \<Rightarrow> u16 list \<Rightarrow> memory" where
  "write_words m a [] = m"
| "write_words m a (w # ws) = write_words (write_u16 m a w) (a + 2) ws"

lemma words_at_Suc: "words_at m a (Suc n) = read_u16 m a # words_at m (a + 2) n"
  by (simp add: words_at_def upt_conv_Cons map_Suc_upt [symmetric] comp_def algebra_simps del: upt_Suc)

lemma words_at_append: "words_at m a (k + n) = words_at m a k @ words_at m (a + 2 * word_of_nat k) n"
  by (induction k arbitrary: a) (simp_all add: words_at_Suc algebra_simps, simp add: words_at_def)

lemma length_words_at [simp]: "length (words_at m a n) = n"
  by (simp add: words_at_def)

lemma in_bytes_after:
  assumes "in_bytes (a + 2) k x" "2 + k \<le> 2 ^ 64"
  shows "in_bytes a (2 + k) x \<and> \<not> in_bytes a 2 x"
proof -
  obtain i where i: "i < k" "x = a + 2 + word_of_nat i" using assms in_bytes_iff [of k "a + 2" x] by auto
  then have "x - a = word_of_nat (2 + i)" by simp
  moreover have "2 + i < 2 ^ 64" using i(1) assms(2) by linarith
  then have "unat (word_of_nat (2 + i) :: u64) = 2 + i" unfolding unat_of_nat by simp
  ultimately have "unat (x - a) = 2 + i" by simp
  then show ?thesis using i(1) by (simp add: in_bytes_def)
qed

lemma write_words_outside: "2 * length ws \<le> 2 ^ 64 \<Longrightarrow> \<not> in_bytes a (2 * length ws) x \<Longrightarrow> write_words m a ws x = m x"
proof (induction ws arbitrary: m a)
  case (Cons w ws)
  have "\<not> in_bytes (a + 2) (2 * length ws) x" using in_bytes_after [of a "2 * length ws" x] Cons.prems by auto
  moreover have "\<not> in_bytes a 2 x" using Cons.prems in_bytes_sub [of a 2 x "2 * length (w # ws)"] by auto
  ultimately show ?case using Cons by (simp add: write_u16_outside)
qed simp

lemma write_words_append: "write_words m a (vs @ ws) = write_words (write_words m a vs) (a + 2 * word_of_nat (length vs)) ws"
  by (induction vs arbitrary: m a) (simp_all add: algebra_simps)

lemma words_at_written: "2 * length ws \<le> 2 ^ 64 \<Longrightarrow> words_at (write_words m a ws) a (length ws) = ws"
proof (induction ws arbitrary: m a)
  case (Cons w ws)
  have "write_words (write_u16 m a w) (a + 2) ws x = write_u16 m a w x" if "in_bytes a 2 x" for x
    using that in_bytes_after [of a "2 * length ws" x] Cons.prems by (intro write_words_outside) auto
  then have "read_u16 (write_words (write_u16 m a w) (a + 2) ws) a = read_u16 (write_u16 m a w) a" by (rule read_u16_cong)
  then show ?case using Cons by (simp add: words_at_Suc)
qed (simp add: words_at_def)

section \<open>Moving a sector\<close>

lemma data_read:
  assumes "ata_ports good io view" "dv_busy (view h) = 0" "dv_transfer (view h) = To_Host (w # ws)"
  shows "fst (run_state (inw io 0x1F0) h) = w"
    and "view (snd (run_state (inw io 0x1F0) h)) = (view h)\<lparr>dv_transfer := (if ws = [] then No_Transfer else To_Host ws)\<rparr>"
  using assms unfolding ata_ports_def by blast+

lemma data_write:
  assumes "ata_ports good io view" "dv_busy (view h) = 0" "dv_transfer (view h) = From_Host l ws" "length ws < 256"
  shows "if length ws < 255 then view (snd (run_state (outw io 0x1F0 w) h)) = (view h)\<lparr>dv_transfer := From_Host l (ws @ [w])\<rparr>
    else \<exists>b e x. (good \<longrightarrow> \<not> e \<and> b < 100000) \<and> view (snd (run_state (outw io 0x1F0 w) h)) =
      (view h)\<lparr>dv_busy := b, dv_error := e, dv_transfer := No_Transfer, dv_sectors := (dv_sectors (view h))(l := if e then x else ws @ [w])\<rparr>"
  using assms unfolding ata_ports_def by blast

lemma insw_words:
  assumes io: "ata_ports good io view" and d: "dv_busy d = 0"
  shows "valid (\<lambda>h. view h = d\<lparr>dv_transfer := (if ws = [] then No_Transfer else To_Host ws)\<rparr>) (insw io ATA_PRIMARY_DATA a (length ws) m)
    (\<lambda>m' h. view h = d\<lparr>dv_transfer := No_Transfer\<rparr> \<and> m' = write_words m a ws)"
proof (induction ws arbitrary: a m)
  case Nil
  then show ?case by (simp add: valid_def)
next
  case (Cons w ws)
  have "valid (\<lambda>h. view h = d\<lparr>dv_transfer := To_Host (w # ws)\<rparr>) (inw io 0x1F0)
      (\<lambda>v h. v = w \<and> view h = d\<lparr>dv_transfer := (if ws = [] then No_Transfer else To_Host ws)\<rparr>)"
    unfolding valid_def using data_read [OF io, of _ w ws] d by simp
  moreover have "valid (\<lambda>h. v = w \<and> view h = d\<lparr>dv_transfer := (if ws = [] then No_Transfer else To_Host ws)\<rparr>) (insw io ATA_PRIMARY_DATA (a + 2) (length ws) (write_u16 m a v))
      (\<lambda>m' h. view h = d\<lparr>dv_transfer := No_Transfer\<rparr> \<and> m' = write_words m a (w # ws))" for v
  proof (cases "v = w")
    case True
    then show ?thesis using Cons.IH [of "a + 2" "write_u16 m a w"] by simp
  qed (simp add: valid_def)
  ultimately show ?case by (simp add: ATA_PRIMARY_DATA_def valid_bind)
qed

definition sector_written :: "bool \<Rightarrow> drive \<Rightarrow> u64 \<Rightarrow> u16 list \<Rightarrow> drive \<Rightarrow> bool" where
  "sector_written good d l ws d' \<longleftrightarrow>
     (\<exists>b e x. (good \<longrightarrow> \<not> e \<and> b < 100000) \<and>
        d' = d\<lparr>dv_busy := b, dv_error := e, dv_transfer := No_Transfer, dv_sectors := (dv_sectors d)(l := if e then x else ws)\<rparr>)"

lemma outsw_words:
  assumes io: "ata_ports good io view" and d: "dv_busy d = 0"
  shows "length ws + Suc n = 256 \<Longrightarrow> valid (\<lambda>h. view h = d\<lparr>dv_transfer := From_Host l ws\<rparr>) (outsw io ATA_PRIMARY_DATA a (Suc n) m)
    (\<lambda>u h. sector_written good d l (ws @ words_at m a (Suc n)) (view h))"
proof (induction n arbitrary: a ws)
  case 0
  then have l: "\<not> length ws < 255" by simp
  have "sector_written good d l (ws @ [w]) (view (snd (run_state (outw io 0x1F0 w) h)))" if h: "view h = d\<lparr>dv_transfer := From_Host l ws\<rparr>" for h w
  proof -
    show ?thesis using data_write [OF io, of h l ws w] h d l 0 unfolding sector_written_def by simp
  qed
  then show ?case by (simp add: valid_def words_at_Suc ATA_PRIMARY_DATA_def State_Monad.bind_def split_def) (simp add: words_at_def)
next
  case (Suc n)
  let ?w = "read_u16 m a"
  have "valid (\<lambda>h. view h = d\<lparr>dv_transfer := From_Host l ws\<rparr>) (outw io 0x1F0 ?w) (\<lambda>u h. view h = d\<lparr>dv_transfer := From_Host l (ws @ [?w])\<rparr>)"
    unfolding valid_def using data_write [OF io, of _ l ws ?w] d Suc.prems by simp
  moreover have "valid (\<lambda>h. view h = d\<lparr>dv_transfer := From_Host l (ws @ [?w])\<rparr>) (outsw io ATA_PRIMARY_DATA (a + 2) (Suc n) m)
      (\<lambda>u h. sector_written good d l (ws @ words_at m a (Suc (Suc n))) (view h))"
    using Suc.IH [of "ws @ [?w]" "a + 2"] Suc.prems by (simp add: words_at_Suc)
  ultimately show ?case by (subst outsw.simps) (simp only: ATA_PRIMARY_DATA_def, rule valid_bind)
qed

section \<open>The loops\<close>

lemma valid_run: "(\<And>h. P h \<Longrightarrow> \<exists>x h'. run_state c h = (x, h') \<and> Q x h') \<Longrightarrow> valid P c Q"
  unfolding valid_def by (metis fst_conv snd_conv)

definition drive_ready :: "bool \<Rightarrow> drive \<Rightarrow> bool" where
  "drive_ready good d \<longleftrightarrow> dv_transfer d = No_Transfer \<and> (good \<longrightarrow> \<not> dv_error d \<and> dv_busy d < 100000)"

lemma valid_wait_ready:
  assumes "ata_ports good io view"
  shows "valid (\<lambda>h. drive_ready good (view h) \<and> R (dv_error (view h)) (dv_sectors (view h))) (ata_wait_ready io)
    (\<lambda>x h. drive_ready good (view h) \<and> R (dv_error (view h)) (dv_sectors (view h)) \<and> (good \<longrightarrow> x) \<and> (x \<longrightarrow> idle (view h) \<and> \<not> dv_error (view h)))"
proof (rule valid_run)
  fix h assume h: "drive_ready good (view h) \<and> R (dv_error (view h)) (dv_sectors (view h))"
  obtain b x h' where r: "run_state (ata_wait_ready io) h = (x, h')" "view h' = (view h)\<lparr>dv_busy := b\<rparr>" "b \<le> dv_busy (view h)"
    "x \<longrightarrow> b = 0 \<and> \<not> dv_error (view h)" "good \<and> \<not> dv_error (view h) \<and> dv_busy (view h) < 100000 \<longrightarrow> x"
    using wait_ready_loop_run [OF assms, of 100000 h] unfolding ata_wait_ready_def by blast
  have "drive_ready good (view h')" "good \<longrightarrow> x" "x \<longrightarrow> idle (view h') \<and> \<not> dv_error (view h')"
    using h r(3-5) unfolding r(2) drive_ready_def idle_def by auto
  then show "\<exists>x h'. run_state (ata_wait_ready io) h = (x, h') \<and> drive_ready good (view h') \<and> R (dv_error (view h')) (dv_sectors (view h'))
      \<and> (good \<longrightarrow> x) \<and> (x \<longrightarrow> idle (view h') \<and> \<not> dv_error (view h'))"
    using h r(1,2) by (intro exI [of _ x] exI [of _ h']) simp
qed

lemma valid_wait_drq:
  assumes "ata_ports good io view" "t \<noteq> No_Transfer"
  shows "valid (\<lambda>h. started good S t (view h)) (ata_wait_drq io)
    (\<lambda>x h. dv_sectors (view h) = S \<and> (good \<longrightarrow> x) \<and> (x \<longrightarrow> dv_busy (view h) = 0 \<and> \<not> dv_error (view h) \<and> dv_transfer (view h) = t))"
proof (rule valid_run)
  fix h assume h: "started good S t (view h)"
  obtain b x h' where r: "run_state (ata_wait_drq io) h = (x, h')" "view h' = (view h)\<lparr>dv_busy := b\<rparr>" "b \<le> dv_busy (view h)"
    "x \<longrightarrow> b = 0 \<and> \<not> dv_error (view h) \<and> dv_transfer (view h) \<noteq> No_Transfer"
    "\<not> dv_error (view h) \<and> dv_transfer (view h) \<noteq> No_Transfer \<and> dv_busy (view h) < 100000 \<longrightarrow> x"
    using wait_drq_loop_run [OF assms(1), of 100000 h] unfolding ata_wait_drq_def by blast
  note s = h [unfolded started_def]
  have "good \<longrightarrow> x" using s r(5) assms(2) by simp
  moreover have "dv_busy (view h') = 0 \<and> \<not> dv_error (view h') \<and> dv_transfer (view h') = t" if x using s r(4) that unfolding r(2) by simp
  moreover have "dv_sectors (view h') = S" using s unfolding r(2) by simp
  ultimately show "\<exists>x h'. run_state (ata_wait_drq io) h = (x, h') \<and> dv_sectors (view h') = S \<and> (good \<longrightarrow> x)
      \<and> (x \<longrightarrow> dv_busy (view h') = 0 \<and> \<not> dv_error (view h') \<and> dv_transfer (view h') = t)"
    using r(1) by blast
qed

definition sectors_of :: "(u64 \<Rightarrow> u16 list) \<Rightarrow> (u64 \<Rightarrow> u64) \<Rightarrow> u64 \<Rightarrow> nat \<Rightarrow> u16 list" where
  "sectors_of S f lba n = concat (map (\<lambda>i. S (f (lba + word_of_nat i))) [0..<n])"

lemma sectors_of_Suc: "sectors_of S f lba (Suc n) = S (f lba) @ sectors_of S f (lba + 1) n"
  by (simp add: sectors_of_def upt_conv_Cons map_Suc_upt [symmetric] comp_def algebra_simps del: upt_Suc)

lemma length_sectors_of: "(\<And>l. length (S l) = 256) \<Longrightarrow> length (sectors_of S f lba n) = 256 * n"
  by (induction n arbitrary: lba) (simp_all add: sectors_of_Suc, simp add: sectors_of_def)

lemma valid_sector_read:
  assumes io: "ata_ports good io view" and st: "starts good view start (\<lambda>S lba. To_Host (S (f lba)))" and len: "\<And>l. length (S l) = 256"
  shows "valid (\<lambda>h. dv_sectors (view h) = S \<and> dv_busy (view h) = 0 \<and> \<not> dv_error (view h) \<and> dv_transfer (view h) = To_Host (S (f lba)))
    (insw io ATA_PRIMARY_DATA a 256 m)
    (\<lambda>m' h. drive_ready good (view h) \<and> dv_sectors (view h) = S \<and> m' = write_words m a (S (f lba)))"
proof (rule valid_point [of "\<lambda>d. dv_sectors d = S \<and> dv_busy d = 0 \<and> \<not> dv_error d \<and> dv_transfer d = To_Host (S (f lba))"])
  fix d :: drive assume d: "dv_sectors d = S \<and> dv_busy d = 0 \<and> \<not> dv_error d \<and> dv_transfer d = To_Host (S (f lba))"
  have ne: "S (f lba) \<noteq> []" using len [of "f lba"] by auto
  have dt: "d = d\<lparr>dv_transfer := (if S (f lba) = [] then No_Transfer else To_Host (S (f lba)))\<rparr>" using d ne by (cases d) simp
  show "valid (\<lambda>h. view h = d) (insw io ATA_PRIMARY_DATA a 256 m)
      (\<lambda>m' h. drive_ready good (view h) \<and> dv_sectors (view h) = S \<and> m' = write_words m a (S (f lba)))"
    by (rule valid_conseq [OF insw_words [OF io, of d "S (f lba)" a m, unfolded len]])
      (use d dt in \<open>auto simp: drive_ready_def\<close>)
qed

lemma valid_ata_read_loop:
  assumes io: "ata_ports good io view" and st: "starts good view start (\<lambda>S lba. To_Host (S (f lba)))" and len: "\<And>l. length (S l) = 256"
  shows "valid (\<lambda>h. drive_ready good (view h) \<and> dv_sectors (view h) = S) (ata_read_loop io start n a lba m)
    (\<lambda>(x, m') h. dv_sectors (view h) = S \<and> (good \<longrightarrow> x) \<and> (x \<longrightarrow> drive_ready good (view h)) \<and>
       (\<exists>k\<le>n. (x \<longrightarrow> k = n) \<and> m' = write_words m a (sectors_of S f lba k)))"
proof (induction n arbitrary: a lba m)
  case 0
  then show ?case by (simp add: valid_def sectors_of_def)
next
  case (Suc n)
  show ?case unfolding ata_read_loop.simps
  proof (rule valid_bind [OF valid_wait_ready [OF io, where R = "\<lambda>e T. T = S"]], rule valid_if)
    fix ready assume "\<not> ready"
    then show "valid (\<lambda>h. drive_ready good (view h) \<and> dv_sectors (view h) = S \<and> (good \<longrightarrow> ready) \<and> (ready \<longrightarrow> idle (view h) \<and> \<not> dv_error (view h)))
      (State_Monad.return (False, m)) (\<lambda>(x, m') h. dv_sectors (view h) = S \<and> (good \<longrightarrow> x) \<and> (x \<longrightarrow> drive_ready good (view h)) \<and>
       (\<exists>k\<le>Suc n. (x \<longrightarrow> k = Suc n) \<and> m' = write_words m a (sectors_of S f lba k)))"
      by (auto simp: valid_def sectors_of_def intro: exI [of _ 0])
  next
    fix ready assume r: "\<not> \<not> ready"
    let ?Q = "\<lambda>(x, m') h. dv_sectors (view h) = S \<and> (good \<longrightarrow> x) \<and> (x \<longrightarrow> drive_ready good (view h)) \<and>
       (\<exists>k\<le>Suc n. (x \<longrightarrow> k = Suc n) \<and> m' = write_words m a (sectors_of S f lba k))"
    have 1: "valid (\<lambda>h. drive_ready good (view h) \<and> dv_sectors (view h) = S \<and> (good \<longrightarrow> ready) \<and> (ready \<longrightarrow> idle (view h) \<and> \<not> dv_error (view h)))
      (start lba) (\<lambda>u h. started good S (To_Host (S (f lba))) (view h))"
      using st r unfolding starts_def by (auto intro: valid_conseq)
    have 2: "valid (\<lambda>h. drive_ready good (view h) \<and> dv_sectors (view h) = S \<and> m' = write_words m a (S (f lba)))
      (ata_read_loop io start n (a + 512) (lba + 1) m') ?Q" for m'
    proof (cases "m' = write_words m a (S (f lba))")
      case True
      have "write_words m' (a + 512) ws = write_words m a (S (f lba) @ ws)" for ws by (simp add: write_words_append len True)
      then have "\<exists>j\<le>Suc n. (x \<longrightarrow> j = Suc n) \<and> write_words m' (a + 512) (sectors_of S f (lba + 1) k) = write_words m a (sectors_of S f lba j)"
        if "k \<le> n" "x \<longrightarrow> k = n" for k x using that by (intro exI [of _ "Suc k"]) (simp add: sectors_of_Suc)
      then show ?thesis by (intro valid_conseq [OF Suc.IH [of "a + 512" "lba + 1" m']]) (auto split: prod.splits)
    qed (simp add: valid_def)
    have 3: "valid (\<lambda>h. dv_sectors (view h) = S \<and> (good \<longrightarrow> drq) \<and> (drq \<longrightarrow> dv_busy (view h) = 0 \<and> \<not> dv_error (view h) \<and> dv_transfer (view h) = To_Host (S (f lba))))
      (if \<not> drq then State_Monad.return (False, m) else do { m \<leftarrow> insw io ATA_PRIMARY_DATA a 256 m; ata_read_loop io start n (a + 512) (lba + 1) m }) ?Q" for drq
    proof (cases drq)
      case False
      then show ?thesis by (auto simp: valid_def sectors_of_def intro: exI [of _ 0])
    next
      case True
      show ?thesis using True valid_bind [OF valid_sector_read [OF io st len] 2] by simp
    qed
    show "valid (\<lambda>h. drive_ready good (view h) \<and> dv_sectors (view h) = S \<and> (good \<longrightarrow> ready) \<and> (ready \<longrightarrow> idle (view h) \<and> \<not> dv_error (view h)))
      (do { start lba; drq \<leftarrow> ata_wait_drq io;
        (if \<not> drq then State_Monad.return (False, m) else do { m \<leftarrow> insw io ATA_PRIMARY_DATA a 256 m; ata_read_loop io start n (a + 512) (lba + 1) m }) }) ?Q"
      by (rule valid_bind [OF 1 valid_bind [OF valid_wait_drq [OF io] 3]]) simp
  qed
qed

definition stored :: "(u64 \<Rightarrow> u64) \<Rightarrow> u64 \<Rightarrow> u64 \<Rightarrow> memory \<Rightarrow> nat \<Rightarrow> (u64 \<Rightarrow> u16 list) \<Rightarrow> u64 \<Rightarrow> u16 list" where
  "stored f lba a m n S = fold (\<lambda>i S. S(f (lba + word_of_nat i) := words_at m (a + 512 * word_of_nat i) 256)) [0..<n] S"

lemma stored_Suc: "stored f lba a m (Suc n) S = stored f (lba + 1) (a + 512) m n (S(f lba := words_at m a 256))"
  by (simp add: stored_def upt_conv_Cons map_Suc_upt [symmetric] fold_map comp_def algebra_simps del: upt_Suc)

lemma targets_Suc: "{f (lba + word_of_nat i) |i. i < Suc n} = insert (f lba) {f (lba + 1 + word_of_nat i :: u64) |i. i < n}"
proof -
  have "{f (lba + word_of_nat i) |i. i < Suc n} = (\<lambda>i. f (lba + word_of_nat i)) ` {..<Suc n}" by auto
  also have "\<dots> = insert (f lba) ((\<lambda>i. f (lba + word_of_nat (Suc i))) ` {..<n})" by (simp add: lessThan_Suc_eq_insert_0 image_image)
  also have "(\<lambda>i. f (lba + word_of_nat (Suc i))) ` {..<n} = {f (lba + 1 + word_of_nat i) |i. i < n}" by (auto simp: algebra_simps)
  finally show ?thesis .
qed

text \<open>Between two sectors: the drive may report the failure of the last one, and only sectors of \<open>A\<close> are touched.\<close>

definition write_inv :: "bool \<Rightarrow> (u64 \<Rightarrow> u16 list) \<Rightarrow> u64 set \<Rightarrow> (u64 \<Rightarrow> u16 list) \<Rightarrow> drive \<Rightarrow> bool" where
  "write_inv good S A S0 d \<longleftrightarrow> drive_ready good d \<and> (\<not> dv_error d \<longrightarrow> dv_sectors d = S) \<and> (\<forall>l. l \<notin> A \<longrightarrow> dv_sectors d l = S0 l)"

lemma valid_sector_write:
  assumes io: "ata_ports good io view" and S: "\<forall>l. l \<notin> A \<longrightarrow> S l = S0 l"
  shows "valid (\<lambda>h. dv_sectors (view h) = S \<and> dv_busy (view h) = 0 \<and> \<not> dv_error (view h) \<and> dv_transfer (view h) = From_Host l [])
    (outsw io ATA_PRIMARY_DATA a 256 m)
    (\<lambda>u h. write_inv good (S(l := words_at m a 256)) (insert l A) S0 (view h))"
proof (rule valid_point [of "\<lambda>d. dv_sectors d = S \<and> dv_busy d = 0 \<and> \<not> dv_error d \<and> dv_transfer d = From_Host l []"])
  fix d :: drive assume d: "dv_sectors d = S \<and> dv_busy d = 0 \<and> \<not> dv_error d \<and> dv_transfer d = From_Host l []"
  have dt: "d = d\<lparr>dv_transfer := From_Host l []\<rparr>" using d by (cases d) simp
  have n: "Suc 255 = (256 :: nat)" by simp
  show "valid (\<lambda>h. view h = d) (outsw io ATA_PRIMARY_DATA a 256 m) (\<lambda>u h. write_inv good (S(l := words_at m a 256)) (insert l A) S0 (view h))"
  proof (rule valid_conseq [OF outsw_words [OF io, of d "[]" 255 l a m, unfolded n]])
    fix u h assume "sector_written good d l ([] @ words_at m a 256) (view h)"
    then show "write_inv good (S(l := words_at m a 256)) (insert l A) S0 (view h)"
      using d S by (auto simp: sector_written_def write_inv_def drive_ready_def)
  qed (use d dt in auto)
qed

lemma valid_write_loop:
  assumes io: "ata_ports good io view" and st: "starts good view start (\<lambda>S lba. From_Host (f lba) [])"
  shows "(\<forall>l. l \<notin> A \<longrightarrow> S l = S0 l) \<Longrightarrow> valid (\<lambda>h. write_inv good S A S0 (view h)) (ata_write_loop io start n a lba m)
    (\<lambda>x h. (good \<longrightarrow> x) \<and> (if x then write_inv good (stored f lba a m n S) (A \<union> {f (lba + word_of_nat i) |i. i < n}) S0 (view h)
       else \<forall>l. l \<notin> A \<union> {f (lba + word_of_nat i) |i. i < n} \<longrightarrow> dv_sectors (view h) l = S0 l))"
proof (induction n arbitrary: a lba A S)
  case 0
  then show ?case by (simp add: valid_def stored_def)
next
  case (Suc n)
  let ?B = "A \<union> {f (lba + word_of_nat i) |i. i < Suc n}"
  let ?Q = "\<lambda>x h. (good \<longrightarrow> x) \<and> (if x then write_inv good (stored f lba a m (Suc n) S) ?B S0 (view h) else \<forall>l. l \<notin> ?B \<longrightarrow> dv_sectors (view h) l = S0 l)"
  let ?R = "\<lambda>e T. (\<not> e \<longrightarrow> T = S) \<and> (\<forall>l. l \<notin> A \<longrightarrow> T l = S0 l)"
  let ?P = "\<lambda>ready h. drive_ready good (view h) \<and> ?R (dv_error (view h)) (dv_sectors (view h)) \<and> (good \<longrightarrow> ready) \<and> (ready \<longrightarrow> idle (view h) \<and> \<not> dv_error (view h))"
  have 0: "valid (\<lambda>h. write_inv good S A S0 (view h)) (ata_wait_ready io) ?P"
    by (rule valid_conseq [OF valid_wait_ready [OF io, where R = ?R]]) (simp_all add: write_inv_def)
  have 1: "valid (?P True) (start lba) (\<lambda>u h. started good S (From_Host (f lba) []) (view h))"
    by (rule valid_conseq [OF st [unfolded starts_def, rule_format]]) simp_all
  have B: "insert (f lba) A \<union> {f (lba + 1 + word_of_nat i) |i. i < n} = ?B" unfolding targets_Suc by simp
  have S1: "\<forall>l. l \<notin> insert (f lba) A \<longrightarrow> (S(f lba := words_at m a 256)) l = S0 l" using Suc.prems by simp
  have 2: "valid (\<lambda>h. write_inv good (S(f lba := words_at m a 256)) (insert (f lba) A) S0 (view h)) (ata_write_loop io start n (a + 512) (lba + 1) m) ?Q"
    using Suc.IH [OF S1, of "a + 512" "lba + 1"] unfolding B stored_Suc .
  have 3: "valid (\<lambda>h. dv_sectors (view h) = S \<and> (good \<longrightarrow> drq) \<and> (drq \<longrightarrow> dv_busy (view h) = 0 \<and> \<not> dv_error (view h) \<and> dv_transfer (view h) = From_Host (f lba) []))
    (if \<not> drq then State_Monad.return False else do { outsw io ATA_PRIMARY_DATA a 256 m; ata_write_loop io start n (a + 512) (lba + 1) m }) ?Q" for drq
  proof (cases drq)
    case False
    then show ?thesis using Suc.prems by (auto simp: valid_def)
  next
    case True
    show ?thesis using True valid_bind [OF valid_sector_write [OF io Suc.prems] 2] by simp
  qed
  have 4: "valid (?P ready) (if \<not> ready then State_Monad.return False else do { start lba; drq \<leftarrow> ata_wait_drq io;
      (if \<not> drq then State_Monad.return False else do { outsw io ATA_PRIMARY_DATA a 256 m; ata_write_loop io start n (a + 512) (lba + 1) m }) }) ?Q" for ready
  proof (cases ready)
    case False
    then show ?thesis by (auto simp: valid_def)
  next
    case True
    have "valid (?P True) (do { start lba; drq \<leftarrow> ata_wait_drq io;
      (if \<not> drq then State_Monad.return False else do { outsw io ATA_PRIMARY_DATA a 256 m; ata_write_loop io start n (a + 512) (lba + 1) m }) }) ?Q"
      by (rule valid_bind [OF 1 valid_bind [OF valid_wait_drq [OF io] 3]]) simp
    then show ?thesis using True by simp
  qed
  show ?case unfolding ata_write_loop.simps by (rule valid_bind [OF 0 4])
qed

section \<open>Blocks\<close>

definition ata_address :: "u64 \<Rightarrow> u64 \<Rightarrow> u64" where
  "ata_address lba = (if lba > 0x0FFFFFFF then take_bit 48 else take_bit 28)"

definition block_sectors :: "usize \<Rightarrow> u32" where
  "block_sectors len = ucast (len div 512)"

definition block_lba :: "memory \<Rightarrow> u64 \<Rightarrow> u64 \<Rightarrow> usize \<Rightarrow> u64" where
  "block_lba m dev block len = partition_lba m dev + block * ucast (block_sectors len)"

definition addressable :: "u64 \<Rightarrow> u32 \<Rightarrow> bool" where
  "addressable lba cnt \<longleftrightarrow> lba \<le> 0x0FFFFFFF \<or> lba \<le> 0x0000FFFFFFFFFFFF \<and> cnt \<le> 0xFFFF"

lemma valid_read_sectors:
  assumes io: "ata_ports good io view" and len: "\<And>l. length (S l) = 256"
  shows "valid (\<lambda>h. drive_ready good (view h) \<and> dv_sectors (view h) = S) (ata_read_sectors io a lba cnt m)
    (\<lambda>(x, m') h. dv_sectors (view h) = S \<and> (good \<and> addressable lba cnt \<longrightarrow> x) \<and> (x \<longrightarrow> drive_ready good (view h)) \<and>
       (\<exists>k\<le>unat cnt. (x \<longrightarrow> k = unat cnt) \<and> m' = write_words m a (sectors_of S (ata_address lba) lba k)))"
proof (cases "cnt = 0 \<or> \<not> addressable lba cnt")
  case True
  then show ?thesis
    by (auto simp: valid_def ata_read_sectors_def ata_read_sectors_lba28_def ata_read_sectors_lba48_def addressable_def sectors_of_def not_less intro: exI [of _ 0])
next
  case False
  note c = starts_commands [OF io]
  show ?thesis
  proof (cases "lba > 0x0FFFFFFF")
    case True
    then have "ata_read_sectors io a lba cnt m = ata_read_loop io (start_lba48 io ATA_CMD_READ_SECTORS_EXT) (unat cnt) a lba m"
      using False by (auto simp: ata_read_sectors_def ata_read_sectors_lba48_def addressable_def not_less)
    then show ?thesis using True by (auto simp: ata_address_def intro: valid_conseq [OF valid_ata_read_loop [OF io c(3) len]])
  next
    case l: False
    then have "ata_read_sectors io a lba cnt m = ata_read_loop io (start_lba28 io ATA_CMD_READ_SECTORS) (unat cnt) a lba m"
      using False by (auto simp: ata_read_sectors_def ata_read_sectors_lba28_def)
    then show ?thesis using l by (auto simp: ata_address_def intro: valid_conseq [OF valid_ata_read_loop [OF io c(1) len]])
  qed
qed

lemma valid_write_sectors:
  assumes io: "ata_ports good io view"
  shows "valid (\<lambda>h. write_inv good S {} S (view h)) (ata_write_sectors io a lba cnt m)
    (\<lambda>x h. (good \<and> addressable lba cnt \<longrightarrow> x)
       \<and> (x \<longrightarrow> write_inv good (stored (ata_address lba) lba a m (unat cnt) S) {ata_address lba (lba + word_of_nat i) |i. i < unat cnt} S (view h))
       \<and> (\<forall>l. l \<notin> {ata_address lba (lba + word_of_nat i) |i. i < unat cnt} \<longrightarrow> dv_sectors (view h) l = S l))"
proof (cases "cnt = 0 \<or> \<not> addressable lba cnt")
  case True
  then show ?thesis
    by (auto simp: valid_def ata_write_sectors_def ata_write_sectors_lba28_def ata_write_sectors_lba48_def addressable_def stored_def write_inv_def not_less)
next
  case False
  note c = starts_commands [OF io]
  have w: "write_inv good T B S d \<Longrightarrow> \<forall>l. l \<notin> B \<longrightarrow> dv_sectors d l = S l" for T B d by (simp add: write_inv_def)
  have e: "\<forall>l. l \<notin> {} \<longrightarrow> S l = S l" by simp
  show ?thesis
  proof (cases "lba > 0x0FFFFFFF")
    case True
    then have r: "ata_write_sectors io a lba cnt m = ata_write_loop io (start_lba48 io ATA_CMD_WRITE_SECTORS_EXT) (unat cnt) a lba m"
      using False by (auto simp: ata_write_sectors_def ata_write_sectors_lba48_def addressable_def not_less)
    show ?thesis unfolding r by (rule valid_conseq [OF valid_write_loop [OF io c(4) e]]) (use True w in \<open>auto simp: ata_address_def split: if_splits\<close>)
  next
    case l: False
    then have r: "ata_write_sectors io a lba cnt m = ata_write_loop io (start_lba28 io ATA_CMD_WRITE_SECTORS) (unat cnt) a lba m"
      using False by (auto simp: ata_write_sectors_def ata_write_sectors_lba28_def)
    show ?thesis unfolding r by (rule valid_conseq [OF valid_write_loop [OF io c(2) e]]) (use l w in \<open>auto simp: ata_address_def split: if_splits\<close>)
  qed
qed

lemma valid_flush:
  assumes io: "ata_ports good io view"
  shows "valid (\<lambda>h. drive_ready good (view h) \<and> (\<not> dv_error (view h) \<longrightarrow> dv_sectors (view h) = S)) (ata_flush_cache io True)
    (\<lambda>x h. (good \<longrightarrow> x) \<and> (x \<longrightarrow> dv_sectors (view h) = S))"
proof -
  let ?P = "\<lambda>x h. drive_ready good (view h) \<and> (\<not> dv_error (view h) \<longrightarrow> dv_sectors (view h) = S) \<and> (good \<longrightarrow> x) \<and> (x \<longrightarrow> idle (view h) \<and> \<not> dv_error (view h))"
  have 1: "valid (?P True) (outb io 0x1F7 0xEA) (\<lambda>u h. drive_ready good (view h) \<and> dv_sectors (view h) = S)"
  proof (rule valid_conseq [OF valid_point [of "\<lambda>d. idle d \<and> dv_sectors d = S"]])
    fix d :: drive assume d: "idle d \<and> dv_sectors d = S"
    show "valid (\<lambda>h. view h = d) (outb io 0x1F7 0xEA) (\<lambda>u h. started good S No_Transfer (view h))"
      using valid_command [OF io _ requested_ready(5), of d] d by simp
  qed (auto simp: started_def drive_ready_def)
  have 2: "valid (\<lambda>h. drive_ready good (view h) \<and> dv_sectors (view h) = S) (ata_wait_ready io) (\<lambda>x h. (good \<longrightarrow> x) \<and> (x \<longrightarrow> dv_sectors (view h) = S))"
    by (rule valid_conseq [OF valid_wait_ready [OF io, where R = "\<lambda>e T. T = S"]]) auto
  have 3: "valid (?P ready) (if \<not> ready then State_Monad.return False else do { outb io ATA_PRIMARY_CMD (if True then ATA_CMD_FLUSH_CACHE_EXT else ATA_CMD_FLUSH_CACHE); ata_wait_ready io })
      (\<lambda>x h. (good \<longrightarrow> x) \<and> (x \<longrightarrow> dv_sectors (view h) = S))" for ready
    using valid_bind [OF 1 2] by (cases ready) (simp_all add: ATA_PRIMARY_CMD_def ATA_CMD_FLUSH_CACHE_EXT_def, auto simp: valid_def)
  show ?thesis unfolding ata_flush_cache_def
    by (rule valid_bind [OF valid_wait_ready [OF io, where R = "\<lambda>e T. \<not> e \<longrightarrow> T = S"] 3])
qed

lemma sector_lengths: "ata_ports good io view \<Longrightarrow> length (dv_sectors (view h) l) = 256"
  unfolding ata_ports_def by blast

lemma block_bytes: "512 * unat (block_sectors len) \<le> unat len"
proof -
  have "unat (block_sectors len) \<le> unat (len div 512)" by (simp add: block_sectors_def unsigned_ucast_eq take_bit_nat_eq_self take_bit_nat_def)
  then show ?thesis by (simp add: unat_div)
qed

lemma minus_one_i32: "(-1 :: i32) \<noteq> 0" by simp

text \<open>
  C35: Reading a block through \<^verbatim>\<open>ext4_read_block_ata\<close>, whatever the drive does: no sector changes, nothing outside the buffer changes, and a result of 0
  means that the buffer holds the sectors of the block. A sector number is cut to the 28 or 48 bits of the command the
  driver chooses, so a request that crosses sector 2^28 continues at sector 0. With a good drive and valid arguments the result is 0.
\<close>

theorem ext4_read_block_ata_correct:
  assumes io: "ata_ports good io view" and rdy: "drive_ready good (view h)"
    and run: "run_state (ext4_read_block_ata io dev block buffer len m) h = ((rc, m'), h')"
  shows "dv_sectors (view h') = dv_sectors (view h)
    \<and> (\<forall>x. \<not> in_bytes buffer (unat len) x \<longrightarrow> m' x = m x)
    \<and> (rc = 0 \<longrightarrow> drive_ready good (view h') \<and> words_at m' buffer (256 * unat (block_sectors len))
        = sectors_of (dv_sectors (view h)) (ata_address (block_lba m dev block len)) (block_lba m dev block len) (unat (block_sectors len)))
    \<and> (good \<and> dev \<noteq> 0 \<and> buffer \<noteq> 0 \<and> len \<noteq> 0 \<and> len mod 512 = 0 \<and> addressable (block_lba m dev block len) (block_sectors len) \<longrightarrow> rc = 0)"
proof (cases "dev = 0 \<or> buffer = 0 \<or> len = 0 \<or> len mod 512 \<noteq> 0")
  case True
  then show ?thesis using run by (auto simp: ext4_read_block_ata_def split: if_splits)
next
  case False
  let ?S = "dv_sectors (view h)" and ?l = "block_lba m dev block len" and ?n = "block_sectors len"
  obtain ok m1 h1 where r: "run_state (ata_read_sectors io buffer ?l ?n m) h = ((ok, m1), h1)" by (metis prod.exhaust)
  have res: "rc = (if ok then 0 else -1)" "m' = m1" "h' = h1"
    using run r False by (simp_all add: ext4_read_block_ata_def block_lba_def block_sectors_def Let_def)
  obtain k where k: "dv_sectors (view h1) = ?S" "good \<and> addressable ?l ?n \<longrightarrow> ok" "ok \<longrightarrow> drive_ready good (view h1)"
    "k \<le> unat ?n" "ok \<longrightarrow> k = unat ?n" "m1 = write_words m buffer (sectors_of ?S (ata_address ?l) ?l k)"
    using validD [OF valid_read_sectors [OF io, of ?S, OF sector_lengths [OF io]] r] rdy by auto
  have n: "length (sectors_of ?S (ata_address ?l) ?l k) = 256 * k" by (rule length_sectors_of [OF sector_lengths [OF io]])
  have b: "2 * (256 * k) \<le> unat len" "2 * (256 * k) \<le> 2 ^ 64" using k(4) block_bytes [of len] unat_bound [of len] by auto
  have "m1 x = m x" if "\<not> in_bytes buffer (unat len) x" for x
    unfolding k(6) by (rule write_words_outside) (use n b that in_bytes_sub in auto)
  moreover have "words_at m1 buffer (256 * unat ?n) = sectors_of ?S (ata_address ?l) ?l (unat ?n)" if ok
    using words_at_written [of "sectors_of ?S (ata_address ?l) ?l k" m buffer] n b(2) k(5,6) that by simp
  ultimately show ?thesis unfolding res using k(1-3) False by simp
qed

text \<open>
  C36: Writing a block through \<^verbatim>\<open>ext4_write_block_ata\<close> and then \<^verbatim>\<open>ext4_sync_ata\<close>: if both report success, the disk holds exactly the words of the buffer at the sectors of the block and is
  unchanged elsewhere, although the drive may fail at any command and after any sector. The write alone touches no other sector, and its success means
  that the data is there only if the drive does not report an error afterwards. A good drive makes both succeed.
\<close>

theorem ext4_write_then_sync:
  assumes io: "ata_ports good io view" and rdy: "drive_ready good (view h)"
    and run: "run_state (ext4_write_block_ata io dev block buffer len m) h = (rc, h')" "run_state (ext4_sync_ata io dev) h' = (rc', h'')"
  shows "(rc = 0 \<and> rc' = 0 \<longrightarrow>
        dv_sectors (view h'') = stored (ata_address (block_lba m dev block len)) (block_lba m dev block len) buffer m (unat (block_sectors len)) (dv_sectors (view h)))
    \<and> (\<forall>l. l \<notin> {ata_address (block_lba m dev block len) (block_lba m dev block len + word_of_nat i) |i. i < unat (block_sectors len)} \<longrightarrow>
        dv_sectors (view h') l = dv_sectors (view h) l)
    \<and> (good \<and> dev \<noteq> 0 \<and> buffer \<noteq> 0 \<and> len \<noteq> 0 \<and> len mod 512 = 0 \<and> addressable (block_lba m dev block len) (block_sectors len) \<longrightarrow> rc = 0 \<and> rc' = 0)"
proof (cases "dev = 0 \<or> buffer = 0 \<or> len = 0 \<or> len mod 512 \<noteq> 0")
  case True
  then have "rc = -1" "h' = h" using run(1) by (auto simp: ext4_write_block_ata_def split: if_splits)
  moreover have "\<not> (good \<and> dev \<noteq> 0 \<and> buffer \<noteq> 0 \<and> len \<noteq> 0 \<and> len mod 512 = 0 \<and> addressable (block_lba m dev block len) (block_sectors len))"
    using True by metis
  ultimately show ?thesis by simp
next
  case False
  let ?S = "dv_sectors (view h)" and ?l = "block_lba m dev block len" and ?n = "block_sectors len"
  let ?T = "stored (ata_address ?l) ?l buffer m (unat ?n) ?S"
  obtain ok h1 where r: "run_state (ata_write_sectors io buffer ?l ?n m) h = (ok, h1)" by force
  have res: "rc = (if ok then 0 else -1)" "h' = h1"
    using run(1) r False by (simp_all add: ext4_write_block_ata_def block_lba_def block_sectors_def Let_def)
  have "write_inv good ?S {} ?S (view h)" using rdy by (simp add: write_inv_def)
  note W = validD [OF valid_write_sectors [OF io] r this]
  obtain ok' h2 where f: "run_state (ata_flush_cache io True) h' = (ok', h2)" by force
  then have res': "rc' = (if ok' then 0 else -1)" "h'' = h2" using run(2) False by (simp_all add: ext4_sync_ata_def)
  have "(good \<longrightarrow> ok') \<and> (ok' \<longrightarrow> dv_sectors (view h2) = ?T)" if ok
    using validD [OF valid_flush [OF io] f, of ?T] W that res(2) by (simp add: write_inv_def)
  then show ?thesis using W unfolding res res' by auto
qed

section \<open>A concrete drive\<close>

text \<open>A drive that is busy for one read of the status after a command.\<close>

definition fill :: "(u64 \<Rightarrow> u16 list) \<Rightarrow> u64 \<Rightarrow> u16 list" where
  "fill S l = (if length (S l) = 256 then S l else replicate 256 0)"

definition whole :: "drive \<Rightarrow> drive" where
  "whole d = d\<lparr>dv_sectors := fill (dv_sectors d)\<rparr>"

definition demo_status :: "drive \<Rightarrow> u8" where
  "demo_status d = (if 0 < dv_busy d then 0x80 else 0x40 OR (if dv_error d then 1 else 0) OR (if dv_transfer d = No_Transfer then 0 else 8))"

definition demo_out :: "u16 \<Rightarrow> u8 \<Rightarrow> drive \<Rightarrow> drive" where
  "demo_out p v d =
     (if p = 0x1F7 then (case requested v (whole d) of Some t \<Rightarrow> (whole d)\<lparr>dv_busy := 1, dv_error := False, dv_transfer := t\<rparr> | None \<Rightarrow> d)
      else set_register p v (whole d))"

definition demo_data_in :: "drive \<Rightarrow> u16 \<times> drive" where
  "demo_data_in d = (case dv_transfer d of To_Host (w # ws) \<Rightarrow> (w, d\<lparr>dv_transfer := (if ws = [] then No_Transfer else To_Host ws)\<rparr>) | _ \<Rightarrow> (0, d))"

definition demo_data_out :: "u16 \<Rightarrow> drive \<Rightarrow> drive" where
  "demo_data_out w d =
     (case dv_transfer d of
        From_Host l ws \<Rightarrow>
          if length ws < 255 then d\<lparr>dv_transfer := From_Host l (ws @ [w])\<rparr>
          else d\<lparr>dv_busy := 1, dv_error := False, dv_transfer := No_Transfer, dv_sectors := (dv_sectors d)(l := ws @ [w])\<rparr>
      | _ \<Rightarrow> d)"

definition demo_ata :: "drive ata_io" where
  "demo_ata = io.extend (null_io\<lparr>outb := \<lambda>p v. State (\<lambda>d. ((), demo_out p v d)),
      inb := \<lambda>p. State (\<lambda>d. (demo_status d, d\<lparr>dv_busy := dv_busy d - 1\<rparr>))\<rparr>)
    (ata_io.fields (\<lambda>p. State demo_data_in) (\<lambda>p w. State (\<lambda>d. ((), demo_data_out w d))))"

text \<open>Sectors that lack words read as zeros.\<close>

lemma fill_simps: "length (fill S l) = 256" "fill (fill S) = fill S" "length ws = 256 \<Longrightarrow> fill (S(l := ws)) = (fill S)(l := ws)"
  by (auto simp: fill_def fun_eq_iff)

lemma whole_simps [simp]: "idle (whole d) = idle d" "dv_busy (whole d) = dv_busy d" "dv_error (whole d) = dv_error d" "dv_transfer (whole d) = dv_transfer d"
  "length (dv_sectors (whole d) l) = 256" "whole (whole d) = whole d"
  "whole (d\<lparr>dv_busy := b\<rparr>) = (whole d)\<lparr>dv_busy := b\<rparr>" "whole (d\<lparr>dv_error := e\<rparr>) = (whole d)\<lparr>dv_error := e\<rparr>"
  "whole (d\<lparr>dv_transfer := t\<rparr>) = (whole d)\<lparr>dv_transfer := t\<rparr>" "whole (set_register p v d) = set_register p v (whole d)"
  by (simp_all add: whole_def idle_def fill_simps set_register_def)

lemma demo_status_bits: "bit (demo_status d) 7 = (0 < dv_busy d)" "bit (demo_status d) 0 = (dv_busy d = 0 \<and> dv_error d)"
  "bit (demo_status d) 3 = (dv_busy d = 0 \<and> dv_transfer d \<noteq> No_Transfer)" "bit (demo_status d) 6 = (dv_busy d = 0)"
  by (simp_all add: demo_status_def bit_simps)

lemma demo_ata_run:
  "run_state (outb demo_ata p v) d = ((), demo_out p v d)" "run_state (inb demo_ata p) d = (demo_status d, d\<lparr>dv_busy := dv_busy d - 1\<rparr>)"
  "run_state (inw demo_ata p) d = demo_data_in d" "run_state (outw demo_ata p w) d = ((), demo_data_out w d)"
  by (simp_all add: demo_ata_def null_io_def io.defs ata_io.defs)

lemma demo_ata_ports: "ata_ports True demo_ata whole"
  unfolding ata_ports_def demo_ata_run fst_conv snd_conv
proof (intro conjI allI impI)
  fix d p v assume "idle (whole d) \<and> p \<in> {0x1F2, 0x1F3, 0x1F4, 0x1F5, 0x1F6 :: u16}"
  then show "whole (demo_out p v d) = set_register p v (whole d)" by (auto simp: demo_out_def)
next
  fix d v t assume "idle (whole d) \<and> requested v (whole d) = Some t"
  then show "\<exists>b e. (True \<longrightarrow> \<not> e \<and> b < 100000) \<and> whole (demo_out 0x1F7 v d) = (whole d)\<lparr>dv_busy := b, dv_error := e, dv_transfer := if e then No_Transfer else t\<rparr>"
    by (intro exI [of _ 1] exI [of _ False]) (simp add: demo_out_def)
next
  fix d w ws assume "dv_busy (whole d) = 0 \<and> dv_transfer (whole d) = To_Host (w # ws)"
  then show "fst (demo_data_in d) = w" "whole (snd (demo_data_in d)) = (whole d)\<lparr>dv_transfer := if ws = [] then No_Transfer else To_Host ws\<rparr>"
    by (simp_all add: demo_data_in_def)
next
  fix d l w ws assume a: "dv_busy (whole d) = 0 \<and> dv_transfer (whole d) = From_Host l ws \<and> length ws < 256"
  show "if length ws < 255 then whole (demo_data_out w d) = (whole d)\<lparr>dv_transfer := From_Host l (ws @ [w])\<rparr>
    else \<exists>b e x. (True \<longrightarrow> \<not> e \<and> b < 100000) \<and> whole (demo_data_out w d) =
      (whole d)\<lparr>dv_busy := b, dv_error := e, dv_transfer := No_Transfer, dv_sectors := (dv_sectors (whole d))(l := if e then x else ws @ [w])\<rparr>"
  proof (cases "length ws < 255")
    case False
    then have l: "length (ws @ [w]) = 256" using a by simp
    have "whole (demo_data_out w d) = (whole d)\<lparr>dv_busy := 1, dv_error := False, dv_transfer := No_Transfer, dv_sectors := (dv_sectors (whole d))(l := ws @ [w])\<rparr>"
      using a False by (simp add: demo_data_out_def whole_def fill_simps(3) [OF l])
    then show ?thesis using False by (simp only: if_False simp_thms) (intro exI [of _ 1] exI [of _ False], simp)
  qed (use a in \<open>simp add: demo_data_out_def\<close>)
qed (auto simp: demo_status_bits)

definition demo_drive :: drive where
  "demo_drive = \<lparr>dv_select = 0, dv_count = (0, 0), dv_low = (0, 0), dv_mid = (0, 0), dv_high = (0, 0), dv_busy = 0, dv_error = False,
     dv_transfer = No_Transfer, dv_sectors = \<lambda>l. replicate 256 (ucast l)\<rparr>"

lemma demo_drive_ready: "drive_ready True (whole demo_drive)"
  by (simp add: drive_ready_def demo_drive_def whole_def)

text \<open>A device descriptor with its partition at sector 2048; block 3 of 1024 bytes is in sectors 2054 and 2055.\<close>

definition demo_dev_memory :: memory where
  "demo_dev_memory = write_u64 (\<lambda>x. 0) 0x9000 EXT4_PARTITION_LBA"

lemma demo_block: "block_sectors 1024 = 2" "block_lba demo_dev_memory 0x9000 3 1024 = 2054"
  by (simp_all add: block_sectors_def block_lba_def partition_lba_def demo_dev_memory_def EXT4_PARTITION_LBA_def)

theorem ext4_read_block_ata_correct_witness:
  "\<exists>m' h'. run_state (ext4_read_block_ata demo_ata 0x9000 3 0x5000 1024 demo_dev_memory) demo_drive = ((0, m'), h')
     \<and> words_at m' 0x5000 512 = replicate 256 2054 @ replicate 256 2055 \<and> m' 0x5400 = 0"
proof -
  obtain rc m' h' where r: "run_state (ext4_read_block_ata demo_ata 0x9000 3 0x5000 1024 demo_dev_memory) demo_drive = ((rc, m'), h')" by (metis prod.exhaust)
  note C = ext4_read_block_ata_correct [OF demo_ata_ports demo_drive_ready r, unfolded demo_block]
  have rc: "rc = 0" using C by (simp add: addressable_def)
  have "sectors_of (dv_sectors (whole demo_drive)) (ata_address 2054) 2054 (unat (2 :: u32)) = replicate 256 2054 @ replicate 256 2055"
    by (simp add: numeral_2_eq_2 sectors_of_Suc) (simp add: sectors_of_def ata_address_def demo_drive_def whole_def fill_def take_bit_eq_mod)
  moreover have "m' 0x5400 = 0" using C by (simp add: in_bytes_def demo_dev_memory_def write_u64_outside)
  ultimately show ?thesis using r C rc by simp
qed

theorem ext4_write_then_sync_witness:
  "\<exists>h' h''. run_state (ext4_write_block_ata demo_ata 0x9000 3 0x5000 1024 demo_dev_memory) demo_drive = (0, h')
     \<and> run_state (ext4_sync_ata demo_ata 0x9000) h' = (0, h'') \<and> dv_sectors (whole h'') 2055 = words_at demo_dev_memory 0x5200 256 \<and> dv_sectors (whole h'') 2056 = replicate 256 2056"
proof -
  obtain rc h' where r: "run_state (ext4_write_block_ata demo_ata 0x9000 3 0x5000 1024 demo_dev_memory) demo_drive = (rc, h')" by force
  obtain rc' h'' where r': "run_state (ext4_sync_ata demo_ata 0x9000) h' = (rc', h'')" by force
  note C = ext4_write_then_sync [OF demo_ata_ports demo_drive_ready r r', unfolded demo_block]
  have rc: "rc = 0" "rc' = 0" using C by (simp_all add: addressable_def)
  have u: "unat (2 :: u32) = Suc (Suc 0)" by simp
  have "dv_sectors (whole h'') = stored (ata_address 2054) 2054 0x5000 demo_dev_memory (unat (2 :: u32)) (dv_sectors (whole demo_drive))"
    using C rc by blast
  then have "dv_sectors (whole h'') = (dv_sectors (whole demo_drive))(2054 := words_at demo_dev_memory 0x5000 256, 2055 := words_at demo_dev_memory 0x5200 256)"
    unfolding u stored_Suc by (simp add: stored_def ata_address_def take_bit_eq_mod)
  moreover have "dv_sectors (whole demo_drive) 2056 = replicate 256 2056" by (simp add: demo_drive_def whole_def fill_def)
  ultimately show ?thesis using r r' rc by simp
qed

end
