(* ===== verification/Boot_Info.thy ===== *)
theory Boot_Info
  imports Prelude
begin

text \<open>
  The boot information, \<^verbatim>\<open>boot_info.rs\<close>: what the bootloader leaves at a fixed address and the static variables it is copied to.
\<close>

section \<open>The module\<close>

definition BOOT_INFO_ADDR :: usize where "BOOT_INFO_ADDR = 0x6000"
definition BOOT_INFO_MAGIC :: u32 where "BOOT_INFO_MAGIC = 0x4E414649"
definition BOOT_TYPE_BIOS :: u32 where "BOOT_TYPE_BIOS = 0x42494F53"
definition BOOT_TYPE_UEFI :: u32 where "BOOT_TYPE_UEFI = 0x55454649"

record boot_state =
  BOOT_TYPE :: u32
  RSDP_ADDR :: u64
  MEM_ENTRY_COUNT :: u32

definition boot_state_new :: boot_state where
  "boot_state_new = \<lparr>BOOT_TYPE = 0, RSDP_ADDR = 0, MEM_ENTRY_COUNT = 0\<rparr>"

definition boot_info_init :: "memory \<Rightarrow> boot_state \<Rightarrow> boot_state" where
  "boot_info_init m s =
     (if read_u32 m BOOT_INFO_ADDR \<noteq> BOOT_INFO_MAGIC then s
      else s\<lparr>BOOT_TYPE := read_u32 m (BOOT_INFO_ADDR + 0x04), RSDP_ADDR := read_u64 m (BOOT_INFO_ADDR + 0x08),
             MEM_ENTRY_COUNT := read_u32 m (BOOT_INFO_ADDR + 0x10)\<rparr>)"

definition get_boot_type :: "boot_state \<Rightarrow> u32" where "get_boot_type s = BOOT_TYPE s"
definition is_uefi_boot :: "boot_state \<Rightarrow> bool" where "is_uefi_boot s \<longleftrightarrow> BOOT_TYPE s = BOOT_TYPE_UEFI"
definition is_bios_boot :: "boot_state \<Rightarrow> bool" where "is_bios_boot s \<longleftrightarrow> BOOT_TYPE s = BOOT_TYPE_BIOS"
definition get_rsdp_addr :: "boot_state \<Rightarrow> u64" where "get_rsdp_addr s = RSDP_ADDR s"
definition get_mem_entry_count :: "boot_state \<Rightarrow> u32" where "get_mem_entry_count s = MEM_ENTRY_COUNT s"

definition boot_type_str :: "boot_state \<Rightarrow> string" where
  "boot_type_str s =
     (if get_boot_type s = BOOT_TYPE_UEFI then ''UEFI'' else if get_boot_type s = BOOT_TYPE_BIOS then ''BIOS/MBR'' else ''Unknown'')"

lemmas boot_info_defs = BOOT_INFO_ADDR_def BOOT_INFO_MAGIC_def BOOT_TYPE_BIOS_def BOOT_TYPE_UEFI_def boot_info_init_def get_boot_type_def
  is_uefi_boot_def is_bios_boot_def get_rsdp_addr_def get_mem_entry_count_def boot_type_str_def

section \<open>What the kernel sees\<close>

text \<open>The structure as a bootloader writes it.\<close>

definition write_boot_info :: "u32 \<Rightarrow> u32 \<Rightarrow> u64 \<Rightarrow> u32 \<Rightarrow> memory \<Rightarrow> memory" where
  "write_boot_info magic boot_type rsdp cnt m =
     write_u32 (write_u64 (write_u32 (write_u32 m 0x6000 magic) 0x6004 boot_type) 0x6008 rsdp) 0x6010 cnt"

lemma boot_fields:
  "read_u32 (write_boot_info magic t r c m) 0x6000 = magic" "read_u32 (write_boot_info magic t r c m) 0x6004 = t"
  "read_u64 (write_boot_info magic t r c m) 0x6008 = r" "read_u32 (write_boot_info magic t r c m) 0x6010 = c"
proof -
  have d: "\<not> in_bytes (b :: u64) k x" if "in_bytes a n x" "unat a + n \<le> unat b \<or> unat b + k \<le> unat a" "unat a + n \<le> 2 ^ 64" "unat b + k \<le> 2 ^ 64" for a b x n k
    using that by (auto simp: in_bytes_nowrap)
  have u: "read_u32 (write_u32 m' b v) a = read_u32 m' a" if "unat a + 4 \<le> unat b \<or> unat b + 4 \<le> unat a" "unat a + 4 \<le> 2 ^ 64" "unat b + 4 \<le> 2 ^ 64" for m' a b v
    by (rule read_u32_cong) (use d that in \<open>simp add: write_u32_outside\<close>)
  have w: "read_u32 (write_u64 m' b v) a = read_u32 m' a" if "unat a + 4 \<le> unat b \<or> unat b + 8 \<le> unat a" "unat a + 4 \<le> 2 ^ 64" "unat b + 8 \<le> 2 ^ 64" for m' a b v
    by (rule read_u32_cong) (use d that in \<open>simp add: write_u64_outside\<close>)
  have q: "read_u64 (write_u32 m' b v) a = read_u64 m' a" if "unat a + 8 \<le> unat b \<or> unat b + 4 \<le> unat a" "unat a + 8 \<le> 2 ^ 64" "unat b + 4 \<le> 2 ^ 64" for m' a b v
    by (rule read_u64_cong) (use d that in \<open>simp add: write_u32_outside\<close>)
  show "read_u32 (write_boot_info magic t r c m) 0x6000 = magic" "read_u32 (write_boot_info magic t r c m) 0x6004 = t"
    "read_u64 (write_boot_info magic t r c m) 0x6008 = r" "read_u32 (write_boot_info magic t r c m) 0x6010 = c"
    by (simp_all add: write_boot_info_def u w q)
qed

text \<open>What a bootloader wrote is what the accessors give, and without the magic number the variables keep their values.\<close>

lemma boot_info_accessors:
  "boot_info_init (write_boot_info magic t r c m) s =
     (if magic = BOOT_INFO_MAGIC then \<lparr>BOOT_TYPE = t, RSDP_ADDR = r, MEM_ENTRY_COUNT = c\<rparr> else s)
   \<and> \<not> (is_uefi_boot s \<and> is_bios_boot s)
   \<and> (boot_type_str s = ''UEFI'') = is_uefi_boot s \<and> (boot_type_str s = ''BIOS/MBR'') = is_bios_boot s"
  by (cases s) (simp add: boot_info_defs boot_fields)

end
