(* ===== verification/Spec2Isabelle.thy ===== *)
theory Spec2Isabelle
  imports Heap_Correct Pat Page_Fault Ext4_Indirect Ext4_Journal Ext4_Mount Ext4_Mmap
    Pic Pci_Enumerate Msi_Correct Descriptors Kernel_Rt Ata_Correct Boot_Info
begin

text \<open>
  \<^bold>\<open>A verification development of the Nafuraito kernel.\<close>

  \<^bold>\<open>The program.\<close> Nafuraito is a small x86-64 kernel in Rust. The bootloader hands it a memory map of the firmware; the kernel
  parses it (\<^verbatim>\<open>memory/e820.rs\<close>), keeps the free page frames in a bitmap (\<^verbatim>\<open>memory/pmm.rs\<close>), builds page tables from them
  (\<^verbatim>\<open>memory/paging.rs\<close>), and puts on top copy-on-write (\<^verbatim>\<open>memory/cow.rs\<close>), demand paging (\<^verbatim>\<open>memory/demand_paging.rs\<close>),
  guarded kernel stacks (\<^verbatim>\<open>memory/guard_page.rs\<close>), memory types (\<^verbatim>\<open>memory/pat.rs\<close>) and a heap of slabs and page runs
  (\<^verbatim>\<open>memory/heap.rs\<close>, \<^verbatim>\<open>memory/slab.rs\<close>). A page fault reaches them through the exception handlers (\<^verbatim>\<open>idt/handlers.rs\<close>,
  \<^verbatim>\<open>main.rs\<close>). Drivers sit beside: ext4 with a journal (\<^verbatim>\<open>drivers/ext4journaling\<close>), which is also the file behind a mapping, the
  interrupt controllers (\<^verbatim>\<open>drivers/pic\<close>), the disk (\<^verbatim>\<open>drivers/ata.rs\<close>), PCI with MSI and MSI-X (\<^verbatim>\<open>drivers/pci\<close>), and the descriptor tables of the
  processor (\<^verbatim>\<open>gdt/lib.rs\<close>, \<^verbatim>\<open>idt/lib.rs\<close>). Paths are relative to \<^verbatim>\<open>src/kernel/src\<close>.

  \<^bold>\<open>Conventions.\<close> A definition has the name of the function it translates, with a prefix where several modules use the same name.
  Machine integers are words of their width, and since the kernel is built with \<^verbatim>\<open>-C overflow-checks=no\<close> the arithmetic
  of the sources is the wrapping one of the words; a shift takes its count modulo the width where the source allows larger counts.
  Physical memory is a function from addresses to bytes, and the kernel runs identity mapped, so a pointer is an address.
  Static variables are fields of records that extend one another (\<open>machine\<close>, \<open>pmm_machine\<close>, \<open>paging_machine\<close>, \<open>demand_machine\<close> and
  so on). An error is the left side of a result, a panic and an endless wait are outcomes of their own.
  What lies outside a component's sources is a parameter: the instructions that reach the hardware, and what the code
  itself takes as a callback, the block device and the allocator of ext4 and the read function of a file mapping.
  What the code relies on there is a named hypothesis of the lemmas (\<open>device_ok\<close>, \<open>device_keeps\<close>, \<open>logs_writes\<close>,
  \<open>ioapic_window\<close>, \<open>ata_ports\<close>, \<open>mask_ports\<close>, \<open>config_ports\<close>, \<open>table_ram\<close>, \<open>ports_keep\<close>), and the theorem after each result that has
  one applies it to a concrete device.

  \<^bold>\<open>Theories, bottom up.\<close>
  \<^item> \<open>Prelude\<close>: types, Rust arithmetic, loads and stores, ranges, bits. \<open>Bitmap\<close>, \<open>Frame_Allocator\<close>, \<open>Object_Pool\<close>, \<open>Address_Space\<close>:
    the interfaces between the components as locales, with lemmas about sequences of operations proved once from the laws; the
    bitmaps of \<open>Pmm\<close> and \<open>Heap\<close>, the frame manager, a slab page and the page tables interpret them. \<open>file_reader\<close> in \<open>Demand_Paging\<close> is
    the contract of a file behind a mapping; the test callback of \<^verbatim>\<open>main.rs\<close> and, in \<open>Ext4_Mmap\<close>, the ext4 driver keep it.
  \<^item> \<open>E820\<close>: regions, zones and the parser, which takes the longest valid prefix of at most 64 entries.
  \<^item> \<open>Pmm\<close>, \<open>Pmm_Runs\<close>, \<open>Pmm_Init\<close>, \<open>Pmm_Api\<close>: the frame manager. Its invariant is that the counter of free frames is the number of
    clear bits; allocation and release of frames and of runs are exact, initialisation frees exactly the usable frames outside the
    reserved ranges, and every sequence of calls of the interface keeps the invariant.
  \<^item> \<open>Slab\<close>, \<open>Heap\<close>, \<open>Heap_Inv\<close>, \<open>Heap_Correct\<close>: slab pages with a free list in the free objects, the page arena, and the invariant of
    both together; blocks handed out are disjoint whatever clients write into theirs, and an allocation fails only when the arena
    is full.
  \<^item> \<open>Paging\<close>, \<open>Page_Tables\<close>, \<open>Paging_Correct\<close>, \<open>Page_Access\<close>, \<open>Pat\<close>: page tables of four or five levels in physical memory as a tree of
    frames; the translation is the abstraction function, and mapping and unmapping change it at one page only.
  \<^item> \<open>Guard_Page\<close>, \<open>Cow\<close>, \<open>Demand_Paging\<close>, \<open>Demand_Correct\<close>, \<open>Page_Fault\<close>: what stands on the page tables, specified by how it changes the
    translation, the set of free frames and the bytes of memory, up to the page fault handlers.
  \<^item> \<open>Ext4_Disk\<close> (structures on disk, by their layout), \<open>Ext4_Fs\<close> and \<open>Ext4_File\<close> (the driver), \<open>Ext4_Read\<close>, \<open>Ext4_Dir\<close>,
    \<open>Ext4_Indirect\<close>, \<open>Ext4_Mount\<close>, \<open>Ext4_Journal\<close>, \<open>Ext4_Mmap\<close>: block mappings against references, reading against the contents of a file,
    directories and paths, the shape of a mounted filesystem and the round trip of inodes, the order and the
    place of the writes of a commit, and ext4 files under demand paging.
  \<^item> \<open>Port_Io\<close> (instructions), \<open>Pic\<close>, \<open>Pci\<close>, \<open>Pci_Correct\<close>, \<open>Pci_Enumerate\<close>, \<open>Msi\<close>, \<open>Msi_Correct\<close>: routing and masking of interrupts,
    configuration space by address and field, the search for capabilities, the enumeration of buses, messages as the APIC
    decodes them, vectors and the MSI-X table.
  \<^item> \<open>Descriptors\<close>: the segment and interrupt tables as the processor decodes them, and the stacks of exceptions.
  \<^item> \<open>Kernel_Rt\<close>: the memory functions of \<^verbatim>\<open>main.rs\<close>, the early heap, whose blocks are disjoint however the calls of several processors
    interleave, and the global allocator on it and on the heap, with reallocation.
  \<^item> \<open>Ata\<close>, \<open>Ata_Correct\<close>: the disk driver \<^verbatim>\<open>drivers/ata.rs\<close> against a drive given by its registers and commands, which may fail at any time.
  \<^item> \<open>Boot_Info\<close>: the boot information, \<^verbatim>\<open>boot_info.rs\<close>, as a bootloader writes it and the accessors give it.

  \<^bold>\<open>Loops and fuel.\<close> Loops over a range or a list are recursions on it. The search for a run of frames is a
  \<^theory_text>\<open>partial_function (option)\<close> and shown to return; so are the loops of ext4 over untrusted offsets, where not returning is the value
  None, and the results about them state that they return. The search for a capability has the bound of 48 of the source,
  and the polling loops of the disk driver its 100000 turns.
  The enumeration of PCI buses recurses without a bound in the source; its model has the depth of the stack as an argument, 256
  suffices whenever every bridge leads to a bus of a higher number, and no depth suffices for a bridge that leads to its own bus.

  \<^bold>\<open>What the model showed.\<close> Several results state what the code does where it does not do what it means to, among them: zone
  allocation fails after initialisation, a copy-on-write fault away from the start of a page is not resolved, a file mapping cut at
  the front reads from the wrong position, a write through the journal commits zeros, the size of a 32-bit memory region of a PCI
  device is too large, the command register is written together with the status register, and the pending bits of MSI-X are read
  from the first quadword only. A 28 bit disk request that
  crosses sector 2^28 continues at sector 0, and a block written to the disk is only known to be there after a synchronisation.

  \<^bold>\<open>Not modelled.\<close> The bootloader is assembly and C. The video driver wraps C functions. The entry of the kernel calls the
  initialisers in order and prints; serial and screen output, \<^verbatim>\<open>sti\<close>, \<^verbatim>\<open>hlt\<close> and the functions that halt on a panic have no state to
  speak of. \<^verbatim>\<open>gdt/mod.rs\<close>, \<^verbatim>\<open>gdt/tss.rs\<close> and \<^verbatim>\<open>idt/mod.rs\<close>
  are earlier copies of the modelled files that are not compiled. Translation caches, memory ordering and, but for the early
  heap, other processors are outside the model. The time a drive needs before its status is valid is not modelled.
\<close>

end
